(* ===== verification/Prelude.thy ===== *)
theory Prelude
  imports Main "HOL-Library.Word"
begin

text \<open>
  Shared vocabulary of the development: the machine types of the C++ sources, byte
  encodings of 32-bit fields in host (little-endian) and network (big-endian) order,
  bounds-checked reads and writes of a flat memory region, and the generic lemmas on
  lists, maps and words that the component theories use.

  A C++ \<open>std::string\<close> and a \<open>char *\<close> region are both a \<^typ>\<open>string\<close>
  here: a list of 8-bit characters. A region access that leaves the region is
  \<^const>\<open>None\<close>, never an unspecified value.
\<close>

named_theorems mem_simps "reads and writes of a memory region"
named_theorems inv_intros "preservation of component invariants"

type_synonym u32 = "32 word"
type_synonym u64 = "64 word"

subsection \<open>Byte encodings\<close>

definition byte_of :: "nat \<Rightarrow> nat \<Rightarrow> char" where
  "byte_of k n = char_of (n div 256 ^ k)"

text \<open>\<open>memcpy(dst, &v, 4)\<close> of a \<open>uint32_t\<close> on a little-endian host.\<close>

definition le32 :: "u32 \<Rightarrow> string" where
  "le32 v = map (\<lambda>k. byte_of k (unat v)) [0, 1, 2, 3]"

text \<open>\<open>htonl\<close> followed by a 4-byte copy: network byte order.\<close>

definition be32 :: "u32 \<Rightarrow> string" where
  "be32 v = map (\<lambda>k. byte_of k (unat v)) [3, 2, 1, 0]"

fun le_nat :: "string \<Rightarrow> nat" where
  "le_nat [] = 0"
| "le_nat (c # cs) = of_char c + 256 * le_nat cs"

definition un_le32 :: "string \<Rightarrow> u32" where
  "un_le32 bs = of_nat (le_nat bs)"

definition un_be32 :: "string \<Rightarrow> u32" where
  "un_be32 bs = of_nat (le_nat (rev bs))"

lemma length_le32 [simp]: "length (le32 v) = 4"
  by (simp add: le32_def)

lemma length_be32 [simp]: "length (be32 v) = 4"
  by (simp add: be32_def)

lemma rev_be32: "rev (be32 v) = le32 v"
  by (simp add: be32_def le32_def)

lemma base256: "n mod 256 + 256 * m = n \<longleftrightarrow> m = (n div 256 :: nat)"
  using div_mult_mod_eq [of n 256] by auto

lemma le_nat_le32: "le_nat (le32 v) = unat v"
proof -
  define n where "n = unat v"
  have b: "n < 4294967296"
    using unsigned_less [of v, where ?'a = nat] by (simp add: n_def)
  have d: "n div 65536 = n div 256 div 256" "n div 16777216 = n div 256 div 256 div 256"
    by (simp_all flip: div_mult2_eq)
  have top: "n div 256 div 256 div 256 mod 256 = n div 256 div 256 div 256"
    using b by (simp flip: div_mult2_eq)
  have "le_nat (le32 v) = n mod 256 + 256 * (n div 256 mod 256 + 256 *
      (n div 256 div 256 mod 256 + 256 * (n div 256 div 256 div 256)))"
    by (simp add: le32_def byte_of_def d top flip: n_def)
  also have "\<dots> = n"
    by (simp add: base256)
  finally show ?thesis by (simp add: n_def)
qed

lemma un_le32_le32 [simp]: "un_le32 (le32 v) = v"
  by (simp add: un_le32_def le_nat_le32)

lemma un_be32_be32 [simp]: "un_be32 (be32 v) = v"
  by (simp add: un_be32_def rev_be32 le_nat_le32)

lemma le32_inj: "le32 a = le32 b \<longleftrightarrow> a = b"
  by (metis un_le32_le32)

subsection \<open>A flat memory region\<close>

definition mem_write :: "string \<Rightarrow> nat \<Rightarrow> string \<Rightarrow> string option" where
  "mem_write d off src =
     (if off + length src \<le> length d
      then Some (take off d @ src @ drop (off + length src) d) else None)"

definition mem_read :: "string \<Rightarrow> nat \<Rightarrow> nat \<Rightarrow> string option" where
  "mem_read d off n =
     (if off + n \<le> length d then Some (take n (drop off d)) else None)"

lemma mem_write_length [mem_simps]:
  "mem_write d off src = Some d' \<Longrightarrow> length d' = length d"
  by (auto simp: mem_write_def split: if_splits)

lemma mem_write_Some [mem_simps]:
  "off + length src \<le> length d \<Longrightarrow>
   mem_write d off src = Some (take off d @ src @ drop (off + length src) d)"
  by (simp add: mem_write_def)

lemma mem_read_Some [mem_simps]:
  "off + n \<le> length d \<Longrightarrow> mem_read d off n = Some (take n (drop off d))"
  by (simp add: mem_read_def)

lemma mem_write_nth_out:
  assumes "mem_write d off src = Some d'" "i < off \<or> off + length src \<le> i" "i < length d"
  shows "d' ! i = d ! i"
  using assms by (auto simp: mem_write_def nth_append min_def split: if_splits)

lemma mem_write_nth_in:
  assumes "mem_write d off src = Some d'" "off \<le> i" "i < off + length src"
  shows "d' ! i = src ! (i - off)"
  using assms by (auto simp: mem_write_def nth_append min_def split: if_splits)

lemma take_drop_map_nth:
  assumes "off + n \<le> length d"
  shows "take n (drop off d) = map (\<lambda>i. d ! i) [off ..< off + n]"
  by (rule nth_equalityI) (use assms in \<open>auto simp: nth_append\<close>)

lemma mem_read_nth:
  "off + n \<le> length d \<Longrightarrow> mem_read d off n = Some (map (\<lambda>i. d ! i) [off ..< off + n])"
  by (simp add: mem_read_def take_drop_map_nth)

subsection \<open>Words\<close>

lemma unat_of_nat_small: "n < 2 ^ 64 \<Longrightarrow> unat (of_nat n :: u64) = n"
  by (simp add: unat_of_nat take_bit_nat_eq_self)

lemma of_nat_u64_diff: "a \<le> b \<Longrightarrow> (of_nat b - of_nat a :: u64) = of_nat (b - a)"
  by simp

end
