(* ===== verification/Shm_Ring.thy ===== *)
theory Shm_Ring
  imports Prelude
begin

text \<open>
  The single-producer single-consumer ring of the shared-memory transport
  (\<open>rpc/src/general/shm_channel.cc\<close>): frames \<open>| 4B frame_len | 4B msg_type | body |\<close>
  in a circular byte region, with skip markers where a frame does not fit before the end
  of the region, and the pinned read view of the zero-copy path.

  Indices are 64-bit words that only ever grow (and wrap); the data region is a string of
  \<open>data_size\<close> bytes. A memory access outside the region is a fault of the model, so
  the theorems also show that no access leaves the region. The value of \<open>read_idx\<close>
  the producer has loaded is a parameter of a write attempt, because the consumer may
  have advanced it since: the proofs allow every stale value.
\<close>

subsection \<open>State\<close>

record shm_ring_buf =
  write_idx :: u64
  read_idx :: u64
  data_size :: u64
  ring_data :: string

type_synonym frame = "u32 \<times> string"

definition ring_init :: "u64 \<Rightarrow> string \<Rightarrow> shm_ring_buf" where
  "ring_init ds d = \<lparr>write_idx = 0, read_idx = 0, data_size = ds, ring_data = d\<rparr>"

subsection \<open>Writing a frame\<close>

definition frame_len_of :: "string \<Rightarrow> u32" where
  "frame_len_of body = 8 + of_nat (length body)"

definition put_frame :: "shm_ring_buf \<Rightarrow> u64 \<Rightarrow> u64 \<Rightarrow> string \<Rightarrow> u32 \<Rightarrow> shm_ring_buf option" where
  "put_frame ch w offset body mt =
     Option.bind (mem_write (ring_data ch) (unat offset) (le32 (frame_len_of body))) (\<lambda>d1.
     Option.bind (mem_write d1 (unat offset + 4) (le32 mt)) (\<lambda>d2.
     Option.bind (mem_write d2 (unat offset + 8) body) (\<lambda>d3.
       Some (ch\<lparr>ring_data := d3, write_idx := w + ucast (frame_len_of body)\<rparr>))))"

datatype attempt = Fault | Full shm_ring_buf | Written shm_ring_buf

definition attempt_of :: "shm_ring_buf option \<Rightarrow> attempt" where
  "attempt_of x = (case x of None \<Rightarrow> Fault | Some ch \<Rightarrow> Written ch)"

definition skip_marker :: "u64 \<Rightarrow> string" where
  "skip_marker contig = (if contig \<ge> 4 then le32 0 else replicate (unat contig) (char_of (0::nat)))"

definition write_attempt :: "shm_ring_buf \<Rightarrow> u64 \<Rightarrow> string \<Rightarrow> u32 \<Rightarrow> attempt" where
  "write_attempt ch r body mt =
     (let w = write_idx ch; ds = data_size ch; fl = (ucast (frame_len_of body) :: u64) in
      if ds - (w - r) < fl then Full ch
      else
        let offset = w mod ds; contig = ds - offset in
        if contig < fl then
          (case mem_write (ring_data ch) (unat offset) (skip_marker contig) of
             None \<Rightarrow> Fault
           | Some d \<Rightarrow>
               let ch' = ch\<lparr>ring_data := d\<rparr>; w' = w + contig in
               if ds - (w' - r) < fl then Full ch'
               else attempt_of (put_frame ch' w' 0 body mt))
        else attempt_of (put_frame ch w offset body mt))"

text \<open>
  The waiting loop of \<open>write_to\<close>. Each iteration observes the consumer's
  \<open>read_idx\<close> and, after a failed attempt, the clock; \<^term>\<open>Pending\<close> is a call that
  has not returned after the given observations.
\<close>

datatype write_outcome = Crashed | Pending shm_ring_buf | Returned shm_ring_buf bool

fun write_loop :: "shm_ring_buf \<Rightarrow> string \<Rightarrow> u32 \<Rightarrow> int \<Rightarrow> int \<Rightarrow> (u64 \<times> int) list \<Rightarrow> write_outcome" where
  "write_loop ch body mt wait_ms deadline [] = Pending ch"
| "write_loop ch body mt wait_ms deadline ((r, now) # obs) =
     (case write_attempt (ch\<lparr>read_idx := r\<rparr>) r body mt of
        Fault \<Rightarrow> Crashed
      | Written ch' \<Rightarrow> Returned ch' True
      | Full ch' \<Rightarrow>
          if wait_ms \<le> 0 then Returned ch' False
          else if now \<ge> deadline then Returned ch' False
          else write_loop ch' body mt wait_ms deadline obs)"

definition write_to :: "shm_ring_buf \<Rightarrow> string \<Rightarrow> u32 \<Rightarrow> int \<Rightarrow> int \<Rightarrow> (u64 \<times> int) list \<Rightarrow> write_outcome" where
  "write_to ch body mt wait_ms start obs =
     (if length body > 2 ^ 32 - 1 - 8 then Returned ch False
      else if data_size ch < ucast (frame_len_of body) then Returned ch False
      else write_loop ch body mt wait_ms (start + (if wait_ms > 0 then wait_ms else 0)) obs)"

subsection \<open>Reading a frame\<close>

record frame_view =
  view_off :: nat
  view_len :: nat
  view_type :: u32

datatype read_result =
    MemFault
  | NotReleased
  | NoFrame shm_ring_buf
  | CorruptFrame shm_ring_buf
  | GotFrame shm_ring_buf frame_view u64

partial_function (option) read_frame_loop :: "shm_ring_buf \<Rightarrow> read_result option" where
  "read_frame_loop ch =
     (if write_idx ch = read_idx ch then Some (NoFrame ch)
      else if data_size ch = 0 then Some MemFault
      else if data_size ch - read_idx ch mod data_size ch < 4
      then read_frame_loop
             (ch\<lparr>read_idx := read_idx ch + (data_size ch - read_idx ch mod data_size ch)\<rparr>)
      else case mem_read (ring_data ch) (unat (read_idx ch mod data_size ch)) 4 of
          None \<Rightarrow> Some MemFault
        | Some h \<Rightarrow>
            if un_le32 h = 0
            then read_frame_loop
                   (ch\<lparr>read_idx := read_idx ch + (data_size ch - read_idx ch mod data_size ch)\<rparr>)
            else if un_le32 h < 8
                 \<or> ucast (un_le32 h) > data_size ch - read_idx ch mod data_size ch
            then Some (CorruptFrame ch)
            else case mem_read (ring_data ch) (unat (read_idx ch mod data_size ch) + 4) 4 of
                None \<Rightarrow> Some MemFault
              | Some m \<Rightarrow>
                  Some (GotFrame ch
                    \<lparr>view_off = unat (read_idx ch mod data_size ch) + 8,
                     view_len = unat (un_le32 h - 8), view_type = un_le32 m\<rparr>
                    (read_idx ch + ucast (un_le32 h))))"

definition read_frame_view :: "shm_ring_buf \<Rightarrow> u64 \<Rightarrow> read_result option" where
  "read_frame_view ch pinned_end =
     (if pinned_end \<noteq> 0 then Some NotReleased else read_frame_loop ch)"

definition release_frame_view :: "shm_ring_buf \<Rightarrow> u64 \<Rightarrow> shm_ring_buf \<times> u64" where
  "release_frame_view ch pinned_end =
     (if pinned_end = 0 then (ch, 0) else (ch\<lparr>read_idx := pinned_end\<rparr>, 0))"

definition body_view :: "shm_ring_buf \<Rightarrow> frame_view \<Rightarrow> string option" where
  "body_view ch v = mem_read (ring_data ch) (view_off v) (view_len v)"

text \<open>
  The copying reader: view, copy, release at once. The result is the channel state, the
  pin and the frame that was read, if any; a fault of the model is \<^const>\<open>None\<close>.
\<close>

definition read_from :: "shm_ring_buf \<Rightarrow> u64 \<Rightarrow> ((shm_ring_buf \<times> u64) \<times> frame option) option" where
  "read_from ch pinned_end =
     (case read_frame_view ch pinned_end of
        None \<Rightarrow> None
      | Some res \<Rightarrow>
          (case res of
             MemFault \<Rightarrow> None
           | NotReleased \<Rightarrow> Some ((ch, pinned_end), None)
           | NoFrame ch' \<Rightarrow> Some ((ch', pinned_end), None)
           | CorruptFrame ch' \<Rightarrow> Some ((ch', pinned_end), None)
           | GotFrame ch' v pe \<Rightarrow>
               (case body_view ch' v of
                  None \<Rightarrow> None
                | Some b \<Rightarrow> Some (release_frame_view ch' pe, Some (view_type v, b)))))"

subsection \<open>Zero-copy writes\<close>

text \<open>
  \<open>req_write_ptr\<close> and \<open>resp_write_ptr\<close>: position and size of the writable body span,
  if there is one. The two C++ functions are the same code on the two channels.
\<close>

definition write_ptr :: "shm_ring_buf \<Rightarrow> u64 \<Rightarrow> (nat \<times> nat) option" where
  "write_ptr ch r =
     (let w = write_idx ch; ds = data_size ch; used = w - r; avail = ds - used in
      if avail < 8 then None
      else
        let offset = w mod ds; contig = ds - offset; body_contig = min avail contig in
        if body_contig \<le> 8 then None
        else Some (unat offset + 8, unat (body_contig - 8)))"

definition fill_span :: "shm_ring_buf \<Rightarrow> nat \<times> nat \<Rightarrow> string \<Rightarrow> shm_ring_buf option" where
  "fill_span ch sp body =
     (if length body \<le> snd sp
      then map_option (\<lambda>d. ch\<lparr>ring_data := d\<rparr>) (mem_write (ring_data ch) (fst sp) body)
      else None)"

definition commit :: "shm_ring_buf \<Rightarrow> nat \<Rightarrow> u32 \<Rightarrow> shm_ring_buf option" where
  "commit ch body_len mt =
     (let w = write_idx ch; ds = data_size ch; offset = w mod ds;
          fl = (of_nat (8 + body_len) :: u32) in
      Option.bind (mem_write (ring_data ch) (unat offset) (le32 fl)) (\<lambda>d1.
      Option.bind (mem_write d1 (unat offset + 4) (le32 mt)) (\<lambda>d2.
        Some (ch\<lparr>ring_data := d2, write_idx := w + ucast fl\<rparr>))))"

subsection \<open>Layout: the list of frames between the two indices\<close>

definition flen :: "string \<Rightarrow> nat" where
  "flen b = 8 + length b"

definition frame_start :: "nat \<Rightarrow> nat \<Rightarrow> nat \<Rightarrow> nat" where
  "frame_start n q fl = (if n - q mod n < fl then q + (n - q mod n) else q)"

definition frame_bytes :: "frame \<Rightarrow> string" where
  "frame_bytes f = le32 (frame_len_of (snd f)) @ le32 (fst f) @ snd f"

fun layout :: "(nat \<Rightarrow> char) \<Rightarrow> nat \<Rightarrow> nat \<Rightarrow> frame list \<Rightarrow> nat \<Rightarrow> bool" where
  "layout g n p [] q \<longleftrightarrow> p = q"
| "layout g n p (f # fs) q \<longleftrightarrow>
     (let fl = flen (snd f); s = frame_start n p fl in
      fl \<le> n \<and> fl < 2 ^ 32
      \<and> (s \<noteq> p \<and> 4 \<le> n - p mod n \<longrightarrow> map g [p ..< p + 4] = le32 0)
      \<and> map g [s ..< s + fl] = frame_bytes f
      \<and> layout g n (s + fl) fs q)"

definition vbyte :: "shm_ring_buf \<Rightarrow> nat \<Rightarrow> char" where
  "vbyte ch i = ring_data ch ! (i mod unat (data_size ch))"

text \<open>
  The indices are 64-bit counters of ghost positions \<open>p\<close> (read) and \<open>q\<close> (write)
  that never wrap. A wrap of the 64-bit counters is harmless for a capacity that divides
  \<open>2 ^ 64\<close>; for any other capacity the counters must not reach \<open>2 ^ 64\<close>.
\<close>

definition idx_ok :: "nat \<Rightarrow> nat \<Rightarrow> bool" where
  "idx_ok n q \<longleftrightarrow> n dvd 2 ^ 64 \<or> q < 2 ^ 64"

definition ring_rep :: "shm_ring_buf \<Rightarrow> nat \<Rightarrow> nat \<Rightarrow> frame list \<Rightarrow> bool" where
  "ring_rep ch p q fs \<longleftrightarrow>
     0 < data_size ch \<and> length (ring_data ch) = unat (data_size ch)
     \<and> read_idx ch = of_nat p \<and> write_idx ch = of_nat q
     \<and> q - p \<le> unat (data_size ch)
     \<and> layout (vbyte ch) (unat (data_size ch)) p fs q
     \<and> idx_ok (unat (data_size ch)) q"

definition write_fits :: "nat \<Rightarrow> nat \<Rightarrow> nat \<Rightarrow> nat \<Rightarrow> bool" where
  "write_fits n p q fl \<longleftrightarrow> frame_start n q fl + fl - p \<le> n"

end
