(* ===== verification/Shm_Ring_Correct.thy ===== *)
theory Shm_Ring_Correct
  imports Shm_Ring
begin

text \<open>
  Correctness of the shared-memory ring: every write attempt, read and release keeps the
  layout of the ring, refines a bounded FIFO queue of frames, and never touches memory
  outside the region.
\<close>

subsection \<open>Positions\<close>

lemma frame_start_ge: "q \<le> frame_start n q fl"
  by (simp add: frame_start_def)

lemma frame_start_cases:
  assumes "0 < n" "fl \<le> n"
  obtains (here) "frame_start n q fl = q" "q mod n + fl \<le> n"
    | (wrap) "frame_start n q fl = q + (n - q mod n)" "n - q mod n < fl"
        "frame_start n q fl mod n = 0"
proof (cases "n - q mod n < fl")
  case True
  have "(q + (n - q mod n)) mod n = 0"
  proof -
    have "q + (n - q mod n) = n * (q div n) + n"
      using mod_less_divisor [OF assms(1), of q] mult_div_mod_eq [of n q] by linarith
    then show ?thesis by simp
  qed
  with True show ?thesis by (intro wrap) (simp_all add: frame_start_def)
next
  case False
  then show ?thesis using mod_less_divisor [OF assms(1), of q]
    by (intro here) (simp_all add: frame_start_def)
qed

lemma frame_start_room:
  assumes "0 < n" "fl \<le> n"
  shows "frame_start n q fl mod n + fl \<le> n"
  by (rule frame_start_cases [OF assms, of q]) (use assms in auto)

lemma mod_add_contig:
  assumes "q mod n + k < (n::nat)"
  shows "(q + k) mod n = q mod n + k"
proof -
  have "(q + k) mod n = (q mod n + k) mod n"
    by (simp add: mod_add_left_eq)
  then show ?thesis using assms by simp
qed

text \<open>Two ghost positions less than the capacity apart that name the same cell are equal.\<close>

lemma mod_eq_near:
  assumes "a mod n = b mod n" "a \<le> b" "b < a + (n::nat)"
  shows "a = b"
proof -
  have "n dvd b - a"
    using assms(1) [symmetric] assms(2) by (simp add: mod_eq_dvd_iff_nat)
  moreover have "b - a < n" using assms(2,3) by simp
  ultimately have "b - a = 0" by (metis gr0I nat_dvd_not_less)
  with assms(2) show ?thesis by simp
qed

subsection \<open>The layout depends on the occupied cells only\<close>

lemma layout_le: "layout g n p fs q \<Longrightarrow> p \<le> q"
proof (induction fs arbitrary: p)
  case (Cons f fs)
  then show ?case
    using frame_start_ge [of p n "flen (snd f)"]
    by (auto simp: Let_def dest!: Cons.IH)
qed simp

lemma layout_cong:
  assumes "layout g n p fs q" "\<And>i. p \<le> i \<Longrightarrow> i < q \<Longrightarrow> g' i = g i"
  shows "layout g' n p fs q"
  using assms
proof (induction fs arbitrary: p)
  case Nil
  then show ?case by simp
next
  case (Cons f fs)
  define s where "s = frame_start n p (flen (snd f))"
  have ps: "p \<le> s" by (simp add: s_def frame_start_ge)
  from Cons.prems(1) have l: "layout g n (s + flen (snd f)) fs q"
    and m: "s \<noteq> p \<and> 4 \<le> n - p mod n \<longrightarrow> map g [p ..< p + 4] = le32 0"
    and b: "map g [s ..< s + flen (snd f)] = frame_bytes f"
    and z: "flen (snd f) \<le> n" "flen (snd f) < 2 ^ 32"
    by (simp_all add: Let_def s_def)
  have q: "s + flen (snd f) \<le> q" using layout_le [OF l] .
  have "layout g' n (s + flen (snd f)) fs q"
    using l by (rule Cons.IH) (use Cons.prems(2) ps in auto)
  moreover have "map g' [s ..< s + flen (snd f)] = map g [s ..< s + flen (snd f)]"
    using Cons.prems(2) ps q by auto
  moreover have "map g' [p ..< p + 4] = map g [p ..< p + 4]" if "s \<noteq> p"  "4 \<le> n - p mod n"
  proof -
    have "p + 4 \<le> s" using that by (auto simp: s_def frame_start_def split: if_splits)
    then show ?thesis using Cons.prems(2) q by auto
  qed
  ultimately show ?case using m b z by (simp add: Let_def s_def del: map_eq_conv)
qed

lemma layout_append:
  "layout g n p (fs @ gs) q \<longleftrightarrow> (\<exists>m. layout g n p fs m \<and> layout g n m gs q)"
  by (induction fs arbitrary: p) (auto simp: Let_def)

subsection \<open>Words against positions\<close>

lemma idx_ok_mono: "idx_ok n b \<Longrightarrow> a \<le> b \<Longrightarrow> idx_ok n a"
  by (auto simp: idx_ok_def)

lemma idx_mod:
  assumes "idx_ok n q"
  shows "unat (of_nat q :: u64) mod n = q mod n"
  using assms by (auto simp: idx_ok_def unat_of_nat take_bit_eq_mod mod_mod_cancel)

lemma unat_offset:
  assumes "idx_ok (unat ds) q"
  shows "unat ((of_nat q :: u64) mod ds) = q mod unat ds"
  using idx_mod [OF assms] by (simp add: unat_mod_distrib)

lemma unat_contig:
  assumes "idx_ok (unat ds) q" "0 < ds"
  shows "unat (ds - (of_nat q :: u64) mod ds) = unat ds - q mod unat ds"
proof -
  have "0 < unat ds" using assms(2) by (simp add: word_less_nat_alt)
  then have "of_nat q mod ds \<le> ds"
    using unat_offset [OF assms(1)] by (simp add: word_le_nat_alt less_imp_le)
  then show ?thesis using unat_offset [OF assms(1)] by (simp add: unat_sub)
qed

lemma unat_avail:
  assumes "p \<le> q" "q - p \<le> unat (ds :: u64)"
  shows "unat (ds - (of_nat q - of_nat p)) = unat ds - (q - p)"
proof -
  have lt: "q - p < 2 ^ 64"
    using assms(2) unsigned_less [of ds, where ?'a = nat] by simp
  have "unat (of_nat q - of_nat p :: u64) = q - p"
    using assms(1) lt by (simp add: unat_of_nat_small flip: of_nat_diff)
  then show ?thesis using assms(2) by (simp add: unat_sub word_le_nat_alt)
qed

lemma unat_frame_len:
  assumes "flen b < 2 ^ 32"
  shows "unat (frame_len_of b) = flen b" "unat (ucast (frame_len_of b) :: u64) = flen b"
    "(ucast (frame_len_of b) :: u64) = of_nat (flen b)"
proof -
  have e: "frame_len_of b = of_nat (flen b)"
    by (simp add: frame_len_of_def flen_def)
  show u: "unat (frame_len_of b) = flen b"
    using assms by (simp add: e unat_of_nat take_bit_nat_eq_self)
  show "unat (ucast (frame_len_of b) :: u64) = flen b"
    using u assms by (simp add: unsigned_ucast_eq take_bit_nat_eq_self)
  then show "(ucast (frame_len_of b) :: u64) = of_nat (flen b)"
    by (metis of_nat_unat ucast_id)
qed

subsection \<open>Region writes seen from the positions\<close>

definition ring_wf :: "shm_ring_buf \<Rightarrow> bool" where
  "ring_wf ch \<longleftrightarrow> 0 < data_size ch \<and> length (ring_data ch) = unat (data_size ch)"

lemma ring_wf_pos: "ring_wf ch \<Longrightarrow> 0 < unat (data_size ch)"
  by (simp add: ring_wf_def word_less_nat_alt)

text \<open>
  A write of \<open>L\<close> bytes at the cell of position \<open>s\<close> that stays inside the region
  succeeds, changes the positions \<open>[s, s + L)\<close> and no position of the last
  \<open>n - L\<close> before \<open>s\<close>.
\<close>

lemma region_write:
  assumes wf: "ring_wf ch" and room: "s mod unat (data_size ch) + length src \<le> unat (data_size ch)"
  obtains d where "mem_write (ring_data ch) (s mod unat (data_size ch)) src = Some d"
    "ring_wf (ch\<lparr>ring_data := d\<rparr>)"
    "\<And>i. i < s \<Longrightarrow> s + length src \<le> i + unat (data_size ch) \<Longrightarrow>
       vbyte (ch\<lparr>ring_data := d\<rparr>) i = vbyte ch i"
    "\<And>i. s \<le> i \<Longrightarrow> i < s + length src \<Longrightarrow> vbyte (ch\<lparr>ring_data := d\<rparr>) i = src ! (i - s)"
proof -
  define n where "n = unat (data_size ch)"
  have n: "0 < n" "length (ring_data ch) = n"
    using wf by (simp_all add: n_def ring_wf_pos ring_wf_def)
  obtain d where d: "mem_write (ring_data ch) (s mod n) src = Some d"
    using room n by (simp add: mem_write_def n_def)
  have len: "length d = n" using d n by (simp add: mem_write_length)
  have out: "vbyte (ch\<lparr>ring_data := d\<rparr>) i = vbyte ch i"
    if i: "i < s" "s + length src \<le> i + n" for i
  proof -
    have "\<not> (s mod n \<le> i mod n \<and> i mod n < s mod n + length src)"
    proof
      assume a: "s mod n \<le> i mod n \<and> i mod n < s mod n + length src"
      define k where "k = i mod n - s mod n"
      have k: "k < length src" "s mod n + k = i mod n" using a by (auto simp: k_def)
      have "(s + k) mod n = i mod n"
        using k room n by (simp add: mod_add_contig n_def)
      then have "i = s + k"
        using mod_eq_near [of i n "s + k"] i k by simp
      with i show False by simp
    qed
    then show ?thesis
      using mem_write_nth_out [OF d, of "i mod n"] n by (auto simp: vbyte_def n_def)
  qed
  have inn: "vbyte (ch\<lparr>ring_data := d\<rparr>) i = src ! (i - s)"
    if i: "s \<le> i" "i < s + length src" for i
  proof -
    have "i mod n = s mod n + (i - s)"
      using mod_add_contig [of s n "i - s"] i room by (simp add: n_def)
    then show ?thesis
      using mem_write_nth_in [OF d, of "i mod n"] i by (simp add: vbyte_def n_def)
  qed
  show thesis
    using that [of d] d len wf out inn by (simp add: ring_wf_def n_def)
qed

lemma map_vbyte_written:
  assumes "\<And>i. s \<le> i \<Longrightarrow> i < s + length src \<Longrightarrow> g i = src ! (i - s)"
  shows "map g [s ..< s + length src] = src"
  by (rule nth_equalityI) (use assms in auto)

text \<open>The three copies of \<open>put_frame\<close> amount to one write of the frame's bytes.\<close>

lemma mem_write_append:
  assumes "mem_write d off a = Some d1"
  shows "mem_write d1 (off + length a) b = mem_write d off (a @ b)"
proof -
  have le: "off + length a \<le> length d"
    and d1: "d1 = take off d @ a @ drop (off + length a) d"
    using assms by (auto simp: mem_write_def split: if_splits)
  have "min (length d) off = off" using le by simp
  then show ?thesis using le by (simp add: mem_write_def d1 add_ac)
qed

lemma put_frame_eq:
  "put_frame ch w offset body mt =
     map_option (\<lambda>d. ch\<lparr>ring_data := d, write_idx := w + ucast (frame_len_of body)\<rparr>)
       (mem_write (ring_data ch) (unat offset) (frame_bytes (mt, body)))"
proof (cases "unat offset + (8 + length body) \<le> length (ring_data ch)")
  case True
  then obtain d1 where d1: "mem_write (ring_data ch) (unat offset) (le32 (frame_len_of body)) = Some d1"
    by (simp add: mem_write_def)
  note e1 = mem_write_append [OF d1, of "le32 mt", simplified]
  from True obtain d2 where
    d2: "mem_write (ring_data ch) (unat offset) (le32 (frame_len_of body) @ le32 mt) = Some d2"
    by (simp add: mem_write_def)
  note e2 = mem_write_append [OF d2, of body, simplified]
  show ?thesis
    by (simp add: put_frame_def d1 e1 d2 e2 frame_bytes_def map_option_case split: option.splits)
next
  case False
  then show ?thesis
    by (auto simp: put_frame_def frame_bytes_def mem_write_def split: if_splits)
qed

lemma length_frame_bytes [simp]: "length (frame_bytes (mt, b)) = flen b"
  by (simp add: frame_bytes_def flen_def)

lemma vbyte_update [simp]:
  "vbyte (ch\<lparr>write_idx := w\<rparr>) = vbyte ch" "vbyte (ch\<lparr>read_idx := r\<rparr>) = vbyte ch"
  "vbyte (ch\<lparr>ring_data := d, write_idx := w\<rparr>) = vbyte (ch\<lparr>ring_data := d\<rparr>)"
  by (simp_all add: vbyte_def fun_eq_iff)

lemma ring_wf_update [simp]:
  "ring_wf (ch\<lparr>write_idx := w\<rparr>) = ring_wf ch" "ring_wf (ch\<lparr>read_idx := r\<rparr>) = ring_wf ch"
  "ring_wf (ch\<lparr>ring_data := d, write_idx := w\<rparr>) = ring_wf (ch\<lparr>ring_data := d\<rparr>)"
  by (simp_all add: ring_wf_def)

lemma ring_rep_wf: "ring_rep ch p q fs \<Longrightarrow> ring_wf ch"
  by (simp add: ring_rep_def ring_wf_def)

lemma ring_rep_alt:
  "ring_rep ch p q fs \<longleftrightarrow> ring_wf ch \<and> read_idx ch = of_nat p \<and> write_idx ch = of_nat q
     \<and> q - p \<le> unat (data_size ch) \<and> layout (vbyte ch) (unat (data_size ch)) p fs q
     \<and> idx_ok (unat (data_size ch)) q"
  by (auto simp: ring_rep_def ring_wf_def)

subsection \<open>A write attempt\<close>

definition same_bytes :: "nat \<Rightarrow> nat \<Rightarrow> shm_ring_buf \<Rightarrow> shm_ring_buf \<Rightarrow> bool" where
  "same_bytes p q ch ch' \<longleftrightarrow> (\<forall>i. p \<le> i \<and> i < q \<longrightarrow> vbyte ch' i = vbyte ch i)"

lemma put_frame_layout:
  fixes ch :: shm_ring_buf and q p :: nat and b :: string
  defines "n \<equiv> unat (data_size ch)" and "fl \<equiv> flen b"
  defines "s \<equiv> frame_start n q fl"
  assumes wf: "ring_wf ch" and lay: "layout (vbyte ch) n p fs q"
    and fl: "fl \<le> n" "fl < 2 ^ 32" and fit: "s + fl - p \<le> n"
    and skip: "s \<noteq> q \<and> 4 \<le> n - q mod n \<longrightarrow> map (vbyte ch) [q ..< q + 4] = le32 0"
    and off: "unat offset = s mod n"
  obtains d where
    "put_frame ch w offset b mt =
       Some (ch\<lparr>ring_data := d, write_idx := w + ucast (frame_len_of b)\<rparr>)"
    "ring_wf (ch\<lparr>ring_data := d\<rparr>)"
    "layout (vbyte (ch\<lparr>ring_data := d\<rparr>)) n p (fs @ [(mt, b)]) (s + fl)"
    "same_bytes p q ch (ch\<lparr>ring_data := d\<rparr>)"
proof -
  have n: "0 < n" using wf by (simp add: n_def ring_wf_pos)
  have pq: "p \<le> q" "q \<le> s" using lay by (simp_all add: layout_le s_def frame_start_ge)
  have room: "s mod n + fl \<le> n" using frame_start_room [OF n fl(1)] by (simp add: s_def)
  obtain d where d: "mem_write (ring_data ch) (s mod n) (frame_bytes (mt, b)) = Some d"
    and wf': "ring_wf (ch\<lparr>ring_data := d\<rparr>)"
    and out: "\<And>i. i < s \<Longrightarrow> s + fl \<le> i + n \<Longrightarrow> vbyte (ch\<lparr>ring_data := d\<rparr>) i = vbyte ch i"
    and inn: "\<And>i. s \<le> i \<Longrightarrow> i < s + fl \<Longrightarrow>
      vbyte (ch\<lparr>ring_data := d\<rparr>) i = frame_bytes (mt, b) ! (i - s)"
    using region_write [OF wf, of s "frame_bytes (mt, b)"] room
    by (auto simp: n_def fl_def)
  have keep: "vbyte (ch\<lparr>ring_data := d\<rparr>) i = vbyte ch i" if "p \<le> i" "i < s" for i
    using out [of i] that fit pq by simp
  have "layout (vbyte (ch\<lparr>ring_data := d\<rparr>)) n p fs q"
    using lay by (rule layout_cong) (use keep pq in auto)
  moreover have "map (vbyte (ch\<lparr>ring_data := d\<rparr>)) [s ..< s + fl] = frame_bytes (mt, b)"
    using map_vbyte_written [of s "frame_bytes (mt, b)"] inn by (simp add: fl_def)
  moreover have "map (vbyte (ch\<lparr>ring_data := d\<rparr>)) [q ..< q + 4] = le32 0"
    if "s \<noteq> q" "4 \<le> n - q mod n"
  proof -
    have "q + 4 \<le> s" using that by (auto simp: s_def frame_start_def split: if_splits)
    then have "map (vbyte (ch\<lparr>ring_data := d\<rparr>)) [q ..< q + 4] = map (vbyte ch) [q ..< q + 4]"
      using keep pq by auto
    then show ?thesis using skip that by simp
  qed
  ultimately have "layout (vbyte (ch\<lparr>ring_data := d\<rparr>)) n p (fs @ [(mt, b)]) (s + fl)"
    using fl by (auto simp: layout_append Let_def simp flip: s_def fl_def simp del: map_eq_conv)
  then show thesis
    using that [of d] d wf' keep pq
    by (auto simp: put_frame_eq off same_bytes_def)
qed

lemma length_skip_marker: "length (skip_marker c) \<le> unat c"
  by (auto simp: skip_marker_def word_le_nat_alt)

lemma skip_marker_4: "4 \<le> unat c \<Longrightarrow> skip_marker c = le32 0"
  by (simp add: skip_marker_def word_le_nat_alt)

lemma skip_layout:
  assumes wf: "ring_wf ch" and lay: "layout (vbyte ch) (unat (data_size ch)) p fs q"
    and c: "unat contig = unat (data_size ch) - q mod unat (data_size ch)"
    and fit: "q + unat contig - p \<le> unat (data_size ch)"
  obtains d where
    "mem_write (ring_data ch) (q mod unat (data_size ch)) (skip_marker contig) = Some d"
    "ring_wf (ch\<lparr>ring_data := d\<rparr>)"
    "layout (vbyte (ch\<lparr>ring_data := d\<rparr>)) (unat (data_size ch)) p fs q"
    "same_bytes p q ch (ch\<lparr>ring_data := d\<rparr>)"
    "4 \<le> unat contig \<longrightarrow> map (vbyte (ch\<lparr>ring_data := d\<rparr>)) [q ..< q + 4] = le32 0"
proof -
  define n where "n = unat (data_size ch)"
  note c = c [folded n_def] and fit = fit [folded n_def] and lay = lay [folded n_def]
  have n: "0 < n" using wf by (simp add: n_def ring_wf_pos)
  have pq: "p \<le> q" using lay by (rule layout_le)
  have lt: "q mod n < n" using n by simp
  have "q mod n + length (skip_marker contig) \<le> n"
    using length_skip_marker [of contig] c lt by simp
  then obtain d where d: "mem_write (ring_data ch) (q mod n) (skip_marker contig) = Some d"
    and wf': "ring_wf (ch\<lparr>ring_data := d\<rparr>)"
    and out: "\<And>i. i < q \<Longrightarrow> q + length (skip_marker contig) \<le> i + n \<Longrightarrow>
      vbyte (ch\<lparr>ring_data := d\<rparr>) i = vbyte ch i"
    and inn: "\<And>i. q \<le> i \<Longrightarrow> i < q + length (skip_marker contig) \<Longrightarrow>
      vbyte (ch\<lparr>ring_data := d\<rparr>) i = skip_marker contig ! (i - q)"
    using region_write [OF wf, of q "skip_marker contig"] by (auto simp: n_def)
  have keep: "vbyte (ch\<lparr>ring_data := d\<rparr>) i = vbyte ch i" if "p \<le> i" "i < q" for i
    using out [of i] that fit length_skip_marker [of contig] by simp
  have mark: "map (vbyte (ch\<lparr>ring_data := d\<rparr>)) [q ..< q + 4] = le32 0" if "4 \<le> unat contig"
    using map_vbyte_written [of q "skip_marker contig"] inn skip_marker_4 [OF that] by simp
  have "layout (vbyte (ch\<lparr>ring_data := d\<rparr>)) n p fs q"
    using lay by (rule layout_cong) (use keep in auto)
  with d wf' keep mark show thesis
    using that [of d] by (simp add: n_def same_bytes_def)
qed

text \<open>
  The outcome of one attempt of the producer, which has loaded the possibly stale read
  position \<open>p0\<close>: the frame is appended exactly when it fits, nothing else changes
  the queue, and no access leaves the region.
\<close>

definition attempt_ok ::
  "shm_ring_buf \<Rightarrow> nat \<Rightarrow> nat \<Rightarrow> nat \<Rightarrow> frame list \<Rightarrow> string \<Rightarrow> u32 \<Rightarrow> attempt \<Rightarrow> bool" where
  "attempt_ok ch p0 p q fs b mt a \<longleftrightarrow>
     (case a of
        Fault \<Rightarrow> False
      | Full ch' \<Rightarrow> \<not> write_fits (unat (data_size ch)) p0 q (flen b)
          \<and> ring_rep ch' p q fs \<and> data_size ch' = data_size ch \<and> same_bytes p q ch ch'
      | Written ch' \<Rightarrow> write_fits (unat (data_size ch)) p0 q (flen b)
          \<and> ring_rep ch' p (frame_start (unat (data_size ch)) q (flen b) + flen b) (fs @ [(mt, b)])
          \<and> data_size ch' = data_size ch \<and> same_bytes p q ch ch')"

lemma put_frame_attempt_ok:
  assumes rep: "ring_rep ch p q fs" and p0: "p0 \<le> p"
    and same: "data_size ch = data_size ch0" "same_bytes p q ch0 ch"
    and fl: "flen b \<le> unat (data_size ch)" "flen b < 2 ^ 32"
    and fit: "write_fits (unat (data_size ch)) p0 q (flen b)"
    and idx: "idx_ok (unat (data_size ch)) (q + 2 * unat (data_size ch))"
    and skip: "frame_start (unat (data_size ch)) q (flen b) \<noteq> q
        \<and> 4 \<le> unat (data_size ch) - q mod unat (data_size ch) \<longrightarrow>
      map (vbyte ch) [q ..< q + 4] = le32 0"
    and off: "unat offset = frame_start (unat (data_size ch)) q (flen b) mod unat (data_size ch)"
    and w: "w = of_nat (frame_start (unat (data_size ch)) q (flen b))"
  shows "attempt_ok ch0 p0 p q fs b mt (attempt_of (put_frame ch w offset b mt))"
proof -
  define n where "n = unat (data_size ch)"
  define s where "s = frame_start n q (flen b)"
  have wf: "ring_wf ch" and lay: "layout (vbyte ch) n p fs q"
    using rep by (simp_all add: ring_rep_alt n_def)
  have n: "0 < n" using wf by (simp add: n_def ring_wf_pos)
  have f: "s + flen b - p \<le> n"
    using fit p0 by (simp add: write_fits_def s_def n_def)
  obtain d where
    put: "put_frame ch w offset b mt =
       Some (ch\<lparr>ring_data := d, write_idx := w + ucast (frame_len_of b)\<rparr>)"
    and wf': "ring_wf (ch\<lparr>ring_data := d\<rparr>)"
    and lay': "layout (vbyte (ch\<lparr>ring_data := d\<rparr>)) n p (fs @ [(mt, b)]) (s + flen b)"
    and keep: "same_bytes p q ch (ch\<lparr>ring_data := d\<rparr>)"
    using put_frame_layout [of ch p fs q b offset w mt] wf lay fl f skip off
    by (auto simp: n_def s_def)
  have "s \<le> q + n" by (auto simp: s_def frame_start_def)
  then have "idx_ok n (s + flen b)"
    using idx_ok_mono [OF idx] fl by (simp add: n_def)
  then have "ring_rep (ch\<lparr>ring_data := d, write_idx := w + ucast (frame_len_of b)\<rparr>) p
      (s + flen b) (fs @ [(mt, b)])"
    using wf' lay' rep f unat_frame_len(3) [OF fl(2)] w
    by (simp add: ring_rep_alt n_def s_def)
  then show ?thesis
    using put fit keep same
    by (simp add: attempt_ok_def attempt_of_def n_def s_def same_bytes_def)
qed

text \<open>The word computations of an attempt, as positions.\<close>

lemma attempt_words:
  assumes rep: "ring_rep ch p q fs" and p0: "p0 \<le> p" "q - p0 \<le> unat (data_size ch)"
  shows "unat (data_size ch - (write_idx ch - of_nat p0)) = unat (data_size ch) - (q - p0)"
    "unat (write_idx ch mod data_size ch) = q mod unat (data_size ch)"
    "unat (data_size ch - write_idx ch mod data_size ch)
       = unat (data_size ch) - q mod unat (data_size ch)"
    "p0 \<le> q" "0 < unat (data_size ch)"
proof -
  have wf: "ring_wf ch" and w: "write_idx ch = of_nat q" and pq: "p \<le> q"
    and qi: "idx_ok (unat (data_size ch)) q"
    using rep by (auto simp: ring_rep_alt dest: layout_le)
  show pq': "p0 \<le> q" using pq p0 by simp
  show "0 < unat (data_size ch)" using wf by (rule ring_wf_pos)
  show "unat (data_size ch - (write_idx ch - of_nat p0)) = unat (data_size ch) - (q - p0)"
    using unat_avail [OF pq' p0(2)] by (simp add: w)
  show "unat (write_idx ch mod data_size ch) = q mod unat (data_size ch)"
    using unat_offset [OF qi] by (simp add: w)
  show "unat (data_size ch - write_idx ch mod data_size ch)
       = unat (data_size ch) - q mod unat (data_size ch)"
    using unat_contig [OF qi] wf by (simp add: w ring_wf_def)
qed

lemma write_attempt_wrap_ok:
  fixes ch :: shm_ring_buf and p q p0 :: nat and b :: string
  defines "n \<equiv> unat (data_size ch)" and "c \<equiv> data_size ch - write_idx ch mod data_size ch"
  assumes rep: "ring_rep ch p q fs" and p0: "p0 \<le> p" "q - p0 \<le> n"
    and fl: "flen b \<le> n" "flen b < 2 ^ 32" and idx: "idx_ok n (q + 2 * n)"
    and wrap: "flen b \<le> n - (q - p0)" "n - q mod n < flen b"
  shows "attempt_ok ch p0 p q fs b mt (write_attempt ch (of_nat p0) b mt)"
proof -
  note words = attempt_words [OF rep p0(1) p0(2) [unfolded n_def], folded n_def c_def]
  have rep': "ring_wf ch" "write_idx ch = of_nat q" "layout (vbyte ch) n p fs q"
    using rep by (simp_all add: ring_rep_alt n_def)
  have s: "frame_start n q (flen b) = q + (n - q mod n)" using wrap by (simp add: frame_start_def)
  have le: "q + (n - q mod n) - p0 \<le> n" using wrap words(4) p0 by simp
  have "q + unat c - p \<le> n" using le p0(1) words(3) by linarith
  then obtain d where d: "mem_write (ring_data ch) (q mod n) (skip_marker c) = Some d"
    and wf': "ring_wf (ch\<lparr>ring_data := d\<rparr>)"
    and lay': "layout (vbyte (ch\<lparr>ring_data := d\<rparr>)) n p fs q"
    and keep: "same_bytes p q ch (ch\<lparr>ring_data := d\<rparr>)"
    and mark: "4 \<le> unat c \<longrightarrow> map (vbyte (ch\<lparr>ring_data := d\<rparr>)) [q ..< q + 4] = le32 0"
    using skip_layout [OF rep'(1), folded n_def, OF rep'(3) words(3)] by metis
  have rep'': "ring_rep (ch\<lparr>ring_data := d\<rparr>) p q fs"
    using rep wf' lay' by (simp add: ring_rep_alt n_def)
  have w': "write_idx ch + c = of_nat (q + (n - q mod n))"
    using words(3) rep'(2) by (metis of_nat_add of_nat_unat ucast_id)
  have avail': "unat (data_size ch - (write_idx ch + c - of_nat p0)) = n - (q + (n - q mod n) - p0)"
    unfolding w' n_def by (rule unat_avail) (use le words(4) in \<open>auto simp: n_def\<close>)
  have s0: "frame_start n q (flen b) mod n = 0"
    by (rule frame_start_cases [OF words(5) fl(1), of q]) (use wrap s in auto)
  have eq: "write_attempt ch (of_nat p0) b mt =
      (if n - (q + (n - q mod n) - p0) < flen b then Full (ch\<lparr>ring_data := d\<rparr>)
       else attempt_of (put_frame (ch\<lparr>ring_data := d\<rparr>) (write_idx ch + c) 0 b mt))"
    using wrap words d
    by (simp add: write_attempt_def Let_def word_less_nat_alt unat_frame_len(2) [OF fl(2)] avail'
        flip: c_def)
  show ?thesis
  proof (cases "n - (q + (n - q mod n) - p0) < flen b")
    case True
    then have "\<not> write_fits n p0 q (flen b)" using le words(4) by (auto simp: write_fits_def s)
    then show ?thesis using True rep'' keep by (simp add: eq attempt_ok_def n_def)
  next
    case False
    then have "write_fits n p0 q (flen b)" using le words(4) by (auto simp: write_fits_def s)
    then show ?thesis
      using put_frame_attempt_ok [OF rep'' p0(1) _ keep, of b "0" "write_idx ch + c" mt]
        False fl idx mark words(3) s0 s w' by (simp add: eq n_def)
  qed
qed

lemma write_attempt_ok:
  assumes rep: "ring_rep ch p q fs" and p0: "p0 \<le> p" "q - p0 \<le> unat (data_size ch)"
    and fl: "flen b \<le> unat (data_size ch)" "flen b < 2 ^ 32"
    and idx: "idx_ok (unat (data_size ch)) (q + 2 * unat (data_size ch))"
  shows "attempt_ok ch p0 p q fs b mt (write_attempt ch (of_nat p0) b mt)"
proof -
  define n where "n = unat (data_size ch)"
  note words = attempt_words [OF rep p0, folded n_def]
  have w: "write_idx ch = of_nat q" using rep by (simp add: ring_rep_alt)
  have refl: "same_bytes p q ch ch" by (simp add: same_bytes_def)
  note fl' = unat_frame_len(2) [OF fl(2)]
  consider (full) "n - (q - p0) < flen b"
    | (here) "flen b \<le> n - (q - p0)" "\<not> n - q mod n < flen b"
    | (wrap) "flen b \<le> n - (q - p0)" "n - q mod n < flen b" by linarith
  then show ?thesis
  proof cases
    case full
    then have "\<not> write_fits n p0 q (flen b)"
      using frame_start_ge [of q n "flen b"] p0(2) words(4)
      unfolding write_fits_def n_def by linarith
    with full show ?thesis using rep refl words
      by (simp add: write_attempt_def Let_def word_less_nat_alt fl' attempt_ok_def n_def)
  next
    case here
    have s: "frame_start n q (flen b) = q" using here by (simp add: frame_start_def)
    have fit: "write_fits n p0 q (flen b)" using here words(4) p0(2) [folded n_def] by (simp add: write_fits_def s)
    have "write_attempt ch (of_nat p0) b mt
        = attempt_of (put_frame ch (write_idx ch) (write_idx ch mod data_size ch) b mt)"
      using here words by (simp add: write_attempt_def Let_def word_less_nat_alt fl')
    moreover have "attempt_ok ch p0 p q fs b mt
        (attempt_of (put_frame ch (write_idx ch) (write_idx ch mod data_size ch) b mt))"
      by (rule put_frame_attempt_ok [OF rep p0(1) _ refl fl])
        (use fit idx s words(2) w in \<open>simp_all flip: n_def\<close>)
    ultimately show ?thesis by simp
  next
    case wrap
    then show ?thesis using write_attempt_wrap_ok [OF rep p0 fl idx] by (simp add: n_def)
  qed
qed

subsection \<open>Reading\<close>

lemma mem_read_vbyte:
  assumes "ring_wf ch" "s mod unat (data_size ch) + j + k \<le> unat (data_size ch)"
  shows "mem_read (ring_data ch) (s mod unat (data_size ch) + j) k
    = Some (map (vbyte ch) [s + j ..< s + j + k])"
proof -
  define n where "n = unat (data_size ch)"
  have len: "length (ring_data ch) = n" using assms(1) by (simp add: ring_wf_def n_def)
  have "map (\<lambda>i. ring_data ch ! i) [s mod n + j ..< s mod n + j + k]
      = map (vbyte ch) [s + j ..< s + j + k]"
  proof (rule nth_equalityI)
    fix i assume "i < length (map (\<lambda>i. ring_data ch ! i) [s mod n + j ..< s mod n + j + k])"
    then have i: "i < k" by simp
    then have "(s + (j + i)) mod n = s mod n + (j + i)"
      using assms(2) by (intro mod_add_contig) (simp add: n_def)
    then show "map (\<lambda>i. ring_data ch ! i) [s mod n + j ..< s mod n + j + k] ! i
        = map (vbyte ch) [s + j ..< s + j + k] ! i"
      using i by (simp add: vbyte_def n_def add.assoc)
  qed simp
  then show ?thesis
    using mem_read_nth [of "s mod n + j" k "ring_data ch"] assms(2) len by (simp add: n_def)
qed

lemma frame_bytes_slices:
  assumes "map g [s ..< s + flen b] = frame_bytes (mt, b)"
  shows "map g [s ..< s + 4] = le32 (frame_len_of b)"
    "map g [s + 4 ..< s + 8] = le32 mt"
    "map g [s + 8 ..< s + 8 + length b] = b"
proof -
  let ?m = "map g [s ..< s + flen b]"
  have "take 4 ?m = le32 (frame_len_of b)" by (simp add: assms frame_bytes_def)
  then show "map g [s ..< s + 4] = le32 (frame_len_of b)"
    by (simp add: take_map take_upt flen_def)
  have "take 4 (drop 4 ?m) = le32 mt" by (simp add: assms frame_bytes_def)
  then show "map g [s + 4 ..< s + 8] = le32 mt"
    by (simp add: take_map drop_map take_upt drop_upt flen_def add.commute [of 8])
  have "drop 8 ?m = b" by (simp add: assms frame_bytes_def)
  then show "map g [s + 8 ..< s + 8 + length b] = b"
    by (simp add: drop_map drop_upt flen_def add.assoc)
qed

definition view_at :: "nat \<Rightarrow> nat \<Rightarrow> frame \<Rightarrow> frame_view" where
  "view_at n s f = \<lparr>view_off = s mod n + 8, view_len = length (snd f), view_type = fst f\<rparr>"

lemma layout_distinct_idx:
  assumes "ring_rep ch p q (f # fs)"
  shows "write_idx ch \<noteq> read_idx ch"
proof
  assume eq: "write_idx ch = read_idx ch"
  have lay: "layout (vbyte ch) (unat (data_size ch)) p (f # fs) q"
    and idx: "read_idx ch = of_nat p" "write_idx ch = of_nat q"
    and d: "q - p \<le> unat (data_size ch)"
    using assms by (simp_all add: ring_rep_alt del: layout.simps)
  note le = layout_le [OF lay] d
  have "frame_start (unat (data_size ch)) p (flen (snd f)) + flen (snd f) \<le> q"
    using lay by (auto simp: Let_def dest!: layout_le)
  then have "p < q"
    using frame_start_ge [of p "unat (data_size ch)" "flen (snd f)"] by (simp add: flen_def)
  have "(of_nat (q - p) :: u64) = 0" using eq idx le by simp
  moreover have "q - p < 2 ^ 64"
    using le(2) unsigned_less [of "data_size ch", where ?'a = nat] by simp
  ultimately have "q - p = 0" by (metis unat_of_nat_small unat_0)
  with \<open>p < q\<close> show False by simp
qed

text \<open>A frame that starts at the read position is delivered as a view of its body.\<close>

lemma read_loop_frame:
  assumes rep: "ring_rep ch p q (f # fs)"
    and here: "frame_start (unat (data_size ch)) p (flen (snd f)) = p"
  shows "read_frame_loop ch = Some (GotFrame ch (view_at (unat (data_size ch)) p f)
           (of_nat (p + flen (snd f))))"
    "body_view ch (view_at (unat (data_size ch)) p f) = Some (snd f)"
proof -
  define n where "n = unat (data_size ch)"
  obtain mt b where f: "f = (mt, b)" by (cases f)
  have wf: "ring_wf ch" and r: "read_idx ch = of_nat p" and lay: "layout (vbyte ch) n p (f # fs) q"
    and qi: "idx_ok n q" using rep by (simp_all add: ring_rep_alt n_def del: layout.simps)
  have fl: "flen b \<le> n" "flen b < 2 ^ 32"
    and bytes: "map (vbyte ch) [p ..< p + flen b] = frame_bytes (mt, b)"
    using lay here by (simp_all add: Let_def f n_def)
  have n: "0 < n" "0 < data_size ch" "data_size ch \<noteq> 0"
    using wf by (auto simp: n_def ring_wf_pos ring_wf_def)
  have pi: "idx_ok n p" using idx_ok_mono [OF qi layout_le [OF lay]] .
  have off: "unat (read_idx ch mod data_size ch) = p mod n"
    using unat_offset pi by (simp add: r n_def)
  have contig: "unat (data_size ch - read_idx ch mod data_size ch) = n - p mod n"
    using unat_contig [OF _ n(2), of p] pi by (simp add: r n_def)
  have room: "p mod n + flen b \<le> n"
    using frame_start_room [OF n(1) fl(1), of p] here by (simp add: f n_def)
  have h: "mem_read (ring_data ch) (p mod n) 4 = Some (le32 (frame_len_of b))"
    using mem_read_vbyte [OF wf, of p 0 4] room frame_bytes_slices(1) [OF bytes]
    by (simp add: n_def flen_def)
  have m: "mem_read (ring_data ch) (p mod n + 4) 4 = Some (le32 mt)"
    using mem_read_vbyte [OF wf, of p 4 4] room frame_bytes_slices(2) [OF bytes]
    by (simp add: n_def flen_def add.commute [of 8])
  have u: "unat (frame_len_of b) = flen b" using fl by (simp add: unat_frame_len)
  have "frame_len_of b \<noteq> 0" "\<not> frame_len_of b < 8" "unat (frame_len_of b - 8) = length b"
    using u by (auto simp: flen_def word_less_nat_alt unat_sub word_le_nat_alt unat_eq_0 [symmetric])
  then show "read_frame_loop ch = Some (GotFrame ch (view_at (unat (data_size ch)) p f)
           (of_nat (p + flen (snd f))))"
    using layout_distinct_idx [OF rep] n room off contig h m fl unat_frame_len(2,3) [OF fl(2)]
    by (subst read_frame_loop.simps)
      (simp add: word_less_nat_alt not_less flen_def view_at_def f r flip: n_def)
  show "body_view ch (view_at (unat (data_size ch)) p f) = Some (snd f)"
    using mem_read_vbyte [OF wf, of p 8 "length b"] room frame_bytes_slices(3) [OF bytes]
    by (simp add: body_view_def view_at_def f n_def flen_def add.assoc)
qed

text \<open>A skip marker, or a tail too short to hold one, moves the read position to the region's start.\<close>

lemma read_loop_skip:
  fixes ch :: shm_ring_buf and p :: nat
  defines "n \<equiv> unat (data_size ch)"
  defines "p' \<equiv> p + (n - p mod n)"
  assumes rep: "ring_rep ch p q (f # fs)" and skip: "frame_start n p (flen (snd f)) \<noteq> p"
  shows "read_frame_loop ch = read_frame_loop (ch\<lparr>read_idx := of_nat p'\<rparr>)"
    "ring_rep (ch\<lparr>read_idx := of_nat p'\<rparr>) p' q (f # fs)"
    "frame_start n p' (flen (snd f)) = p'" "frame_start n p (flen (snd f)) = p'"
proof -
  have wf: "ring_wf ch" and r: "read_idx ch = of_nat p" and lay: "layout (vbyte ch) n p (f # fs) q"
    and qi: "idx_ok n q" using rep by (simp_all add: ring_rep_alt n_def del: layout.simps)
  have n: "0 < n" "0 < data_size ch" "data_size ch \<noteq> 0"
    using wf by (auto simp: n_def ring_wf_pos ring_wf_def)
  have fl: "flen (snd f) \<le> n" using lay by (simp add: Let_def)
  show s: "frame_start n p (flen (snd f)) = p'"
    using skip by (auto simp: frame_start_def p'_def split: if_splits)
  have z: "p' mod n = 0"
    using frame_start_cases [OF n(1) fl, of p] skip s by metis
  then show here: "frame_start n p' (flen (snd f)) = p'" using fl by (simp add: frame_start_def)
  have pi: "idx_ok n p" using idx_ok_mono [OF qi layout_le [OF lay]] .
  have off: "unat (read_idx ch mod data_size ch) = p mod n"
    using unat_offset pi by (simp add: r n_def)
  have contig: "unat (data_size ch - read_idx ch mod data_size ch) = n - p mod n"
    using unat_contig [OF _ n(2), of p] pi by (simp add: r n_def)
  have adv: "read_idx ch + (data_size ch - read_idx ch mod data_size ch) = of_nat p'"
    using contig by (metis r p'_def of_nat_add of_nat_unat ucast_id)
  have "mem_read (ring_data ch) (p mod n) 4 = Some (le32 0)" if "4 \<le> n - p mod n"
    using mem_read_vbyte [OF wf, of p 0 4] that lay skip by (simp add: n_def Let_def)
  then show "read_frame_loop ch = read_frame_loop (ch\<lparr>read_idx := of_nat p'\<rparr>)"
    using layout_distinct_idx [OF rep] n off contig adv
    by (subst read_frame_loop.simps) (simp add: word_less_nat_alt)
  have "q - p' \<le> unat (data_size ch)" using rep by (auto simp: ring_rep_alt p'_def)
  then show "ring_rep (ch\<lparr>read_idx := of_nat p'\<rparr>) p' q (f # fs)"
    using rep lay s here by (simp add: ring_rep_alt Let_def n_def p'_def)
qed

lemma read_frame_view_empty:
  "ring_rep ch p q [] \<Longrightarrow> read_frame_view ch 0 = Some (NoFrame ch)"
  by (subst read_frame_view_def, subst read_frame_loop.simps) (simp add: ring_rep_alt)

lemma read_frame_view_frame:
  assumes rep: "ring_rep ch p q (f # fs)"
  obtains s where "s = frame_start (unat (data_size ch)) p (flen (snd f))"
    "read_frame_view ch 0 = Some (GotFrame (ch\<lparr>read_idx := of_nat s\<rparr>)
       (view_at (unat (data_size ch)) s f) (of_nat (s + flen (snd f))))"
    "body_view (ch\<lparr>read_idx := of_nat s\<rparr>) (view_at (unat (data_size ch)) s f) = Some (snd f)"
    "ring_rep (ch\<lparr>read_idx := of_nat s\<rparr>) s q (f # fs)"
    "frame_start (unat (data_size ch)) s (flen (snd f)) = s"
proof (cases "frame_start (unat (data_size ch)) p (flen (snd f)) = p")
  case True
  have "ch\<lparr>read_idx := of_nat p\<rparr> = ch" using rep by (simp add: ring_rep_alt)
  then show ?thesis
    using that [of p] read_loop_frame [OF rep True] rep True by (simp add: read_frame_view_def)
next
  case False
  note sk = read_loop_skip [OF rep False]
  show ?thesis
    using that [of "frame_start (unat (data_size ch)) p (flen (snd f))"]
      read_loop_frame [OF sk(2)] sk by (simp add: read_frame_view_def)
qed

lemma release_frame_view_ok:
  assumes "ring_rep ch p q (f # fs)" "frame_start (unat (data_size ch)) p (flen (snd f)) = p"
    "pe = of_nat (p + flen (snd f))" "pe \<noteq> 0"
  shows "release_frame_view ch pe = (ch\<lparr>read_idx := of_nat (p + flen (snd f))\<rparr>, 0)"
    "ring_rep (ch\<lparr>read_idx := of_nat (p + flen (snd f))\<rparr>) (p + flen (snd f)) q fs"
  using assms by (auto simp: release_frame_view_def ring_rep_alt Let_def)

lemma pin_nonzero:
  assumes "q < 2 ^ 64" "s + flen b \<le> q"
  shows "(of_nat (s + flen b) :: u64) \<noteq> 0"
proof
  assume "(of_nat (s + flen b) :: u64) = 0"
  then have "s + flen b = 0"
    using assms unat_of_nat_small [of "s + flen b"] by (metis le_less_trans unat_0)
  then show False by (simp add: flen_def)
qed

lemma layout_Cons_le:
  "layout g n p (f # fs) q \<Longrightarrow> frame_start n p (flen (snd f)) + flen (snd f) \<le> q"
  by (auto simp: Let_def dest!: layout_le)

end
