(* ===== verification/Shm_Spsc.thy ===== *)
theory Shm_Spsc
  imports Shm_Ring_Correct "HOL-Library.Sublist"
begin

text \<open>
  One producer and one consumer on a ring, interleaved in any order at the granularity of
  the atomic index accesses: the producer loads \<open>read_idx\<close>, then tries to write with
  the value it has loaded; the consumer pins a view and later releases it. A schedule is a
  list of operations. \<open>sent\<close> and \<open>rcvd\<close> record the frames the producer published and
  the consumer was shown.
\<close>

datatype spsc_op = LoadReadIdx | TryWrite string u32 | ReadView | ReleaseView

record spsc =
  ring :: shm_ring_buf
  loaded :: u64
  pin :: u64
  cur_view :: "frame_view option"
  sent :: "frame list"
  rcvd :: "frame list"

definition spsc_init :: "u64 \<Rightarrow> string \<Rightarrow> spsc" where
  "spsc_init ds d = \<lparr>ring = ring_init ds d, loaded = 0, pin = 0, cur_view = None,
     sent = [], rcvd = []\<rparr>"

text \<open>The guards of \<open>write_to\<close> before its loop: the frame must fit an empty ring.\<close>

definition frame_too_large :: "shm_ring_buf \<Rightarrow> string \<Rightarrow> bool" where
  "frame_too_large ch body \<longleftrightarrow>
     length body > 2 ^ 32 - 1 - 8 \<or> data_size ch < ucast (frame_len_of body)"

fun spsc_step :: "spsc \<Rightarrow> spsc_op \<Rightarrow> spsc option" where
  "spsc_step s LoadReadIdx = Some (s\<lparr>loaded := read_idx (ring s)\<rparr>)"
| "spsc_step s (TryWrite body mt) =
     (if frame_too_large (ring s) body then Some s
      else case write_attempt (ring s) (loaded s) body mt of
          Fault \<Rightarrow> None
        | Full ch \<Rightarrow> Some (s\<lparr>ring := ch\<rparr>)
        | Written ch \<Rightarrow> Some (s\<lparr>ring := ch, sent := sent s @ [(mt, body)]\<rparr>))"
| "spsc_step s ReadView =
     (case read_frame_view (ring s) (pin s) of
        None \<Rightarrow> None
      | Some res \<Rightarrow>
          (case res of
             MemFault \<Rightarrow> None
           | NotReleased \<Rightarrow> Some s
           | NoFrame ch \<Rightarrow> Some (s\<lparr>ring := ch\<rparr>)
           | CorruptFrame ch \<Rightarrow> Some (s\<lparr>ring := ch\<rparr>)
           | GotFrame ch v pe \<Rightarrow>
               (case body_view ch v of
                  None \<Rightarrow> None
                | Some b \<Rightarrow> Some (s\<lparr>ring := ch, pin := pe, cur_view := Some v,
                                   rcvd := rcvd s @ [(view_type v, b)]\<rparr>))))"
| "spsc_step s ReleaseView =
     (case release_frame_view (ring s) (pin s) of
        (ch, pe) \<Rightarrow> Some (s\<lparr>ring := ch, pin := pe, cur_view := None\<rparr>))"

fun spsc_run :: "spsc \<Rightarrow> spsc_op list \<Rightarrow> spsc option" where
  "spsc_run s [] = Some s"
| "spsc_run s (op # ops) = Option.bind (spsc_step s op) (\<lambda>s'. spsc_run s' ops)"

subsection \<open>Invariant\<close>

text \<open>
  The ring holds the frames sent and not yet released; the producer's loaded read position
  is at most the real one; a pinned view is the first frame of the ring. The counter
  \<open>k\<close> bounds the write position, so that the 64-bit indices do not wrap.
\<close>

definition pin_ok :: "nat \<Rightarrow> nat \<Rightarrow> frame list \<Rightarrow> spsc \<Rightarrow> bool" where
  "pin_ok n p fs s \<longleftrightarrow>
     (case cur_view s of
        None \<Rightarrow> pin s = 0 \<and> sent s = rcvd s @ fs
      | Some v \<Rightarrow>
          (\<exists>f fs'. fs = f # fs' \<and> frame_start n p (flen (snd f)) = p \<and> v = view_at n p f
             \<and> pin s = of_nat (p + flen (snd f)) \<and> rcvd s \<noteq> [] \<and> last (rcvd s) = f
             \<and> sent s = rcvd s @ fs'))"

definition spsc_inv :: "nat \<Rightarrow> nat \<Rightarrow> spsc \<Rightarrow> bool" where
  "spsc_inv n k s \<longleftrightarrow>
     n = unat (data_size (ring s)) \<and>
     (\<exists>p0 p q fs. ring_rep (ring s) p q fs \<and> loaded s = of_nat p0 \<and> p0 \<le> p \<and> q - p0 \<le> n
        \<and> q \<le> k * (2 * n) \<and> pin_ok n p fs s)"

lemma pin_ok_frame [simp]:
  "pin_ok n p fs (s\<lparr>loaded := r\<rparr>) = pin_ok n p fs s"
  "pin_ok n p fs (s\<lparr>ring := ch\<rparr>) = pin_ok n p fs s"
  by (cases "cur_view s"; simp add: pin_ok_def)+

lemma pin_ok_sent:
  "pin_ok n p fs s \<Longrightarrow> pin_ok n p (fs @ [f]) (s\<lparr>ring := ch, sent := sent s @ [f]\<rparr>)"
  by (cases "cur_view s") (auto simp: pin_ok_def)

lemma ring_rep_le: "ring_rep ch p q fs \<Longrightarrow> p \<le> q"
  by (auto simp: ring_rep_alt dest: layout_le)

lemma spsc_invE:
  assumes "spsc_inv n k s"
  obtains p0 p q fs where "ring_rep (ring s) p q fs" "loaded s = of_nat p0" "p0 \<le> p"
    "q - p0 \<le> n" "q \<le> k * (2 * n)" "pin_ok n p fs s" "n = unat (data_size (ring s))" "p \<le> q"
  using assms ring_rep_le unfolding spsc_inv_def by blast

lemma spsc_invI:
  assumes "ring_rep (ring s) p q fs" "loaded s = of_nat p0" "p0 \<le> p" "q - p0 \<le> n"
    "q \<le> k * (2 * n)" "pin_ok n p fs s" "n = unat (data_size (ring s))"
  shows "spsc_inv n k s"
  using assms by (auto simp: spsc_inv_def)

lemma spsc_inv_init:
  assumes "0 < ds" "length d = unat ds"
  shows "spsc_inv (unat ds) 0 (spsc_init ds d)"
  by (rule spsc_invI [where p = 0 and q = 0 and fs = "[]" and p0 = 0])
    (use assms in \<open>simp_all add: spsc_init_def ring_init_def ring_rep_def idx_ok_def pin_ok_def\<close>)

lemma spsc_inv_mono: "spsc_inv n k s \<Longrightarrow> k \<le> k' \<Longrightarrow> spsc_inv n k' s"
  unfolding spsc_inv_def by (meson le_trans mult_le_mono1)

lemma frame_fits_flen:
  assumes "\<not> frame_too_large ch b"
  shows "flen b \<le> unat (data_size ch)" "flen b < 2 ^ 32"
proof -
  show lt: "flen b < 2 ^ 32" using assms by (auto simp: frame_too_large_def flen_def)
  show "flen b \<le> unat (data_size ch)"
    using assms unat_frame_len(2) [OF lt]
    by (auto simp: frame_too_large_def word_less_nat_alt not_less)
qed

lemma step_load:
  assumes "spsc_inv n k s"
  shows "spsc_inv n k (s\<lparr>loaded := read_idx (ring s)\<rparr>)"
proof -
  from assms obtain p0 p q fs where inv: "ring_rep (ring s) p q fs" "q \<le> k * (2 * n)"
    "pin_ok n p fs s" "n = unat (data_size (ring s))" by (rule spsc_invE)
  then show ?thesis
    by (intro spsc_invI [where p = p and q = q and fs = fs and p0 = p])
      (auto simp: ring_rep_alt)
qed

lemma step_write:
  assumes inv: "spsc_inv n k s" and small: "Suc k * (2 * n) < 2 ^ 64"
  obtains s' where "spsc_step s (TryWrite b mt) = Some s'" "spsc_inv n (Suc k) s'"
proof (cases "frame_too_large (ring s) b")
  case True
  then show ?thesis using that [of s] spsc_inv_mono [OF inv, of "Suc k"] by simp
next
  case False
  from inv obtain p0 p q fs where rep: "ring_rep (ring s) p q fs" and l: "loaded s = of_nat p0"
    and p0: "p0 \<le> p" "q - p0 \<le> n" and q: "q \<le> k * (2 * n)" and pn: "pin_ok n p fs s"
    and n: "n = unat (data_size (ring s))" and pq: "p \<le> q" by (rule spsc_invE)
  note fl = frame_fits_flen [OF False]
  have idx: "idx_ok n (q + 2 * n)" using q small by (simp add: idx_ok_def)
  have ok: "attempt_ok (ring s) p0 p q fs b mt (write_attempt (ring s) (of_nat p0) b mt)"
    by (rule write_attempt_ok [OF rep p0(1)]) (use p0 fl idx n in simp_all)
  show ?thesis
  proof (cases "write_attempt (ring s) (of_nat p0) b mt")
    case Fault
    with ok show ?thesis by (simp add: attempt_ok_def)
  next
    case (Full ch)
    with ok have "ring_rep ch p q fs" "data_size ch = data_size (ring s)"
      by (simp_all add: attempt_ok_def)
    then have "spsc_inv n (Suc k) (s\<lparr>ring := ch\<rparr>)"
      using l p0 q pn n by (intro spsc_invI [of _ p q fs p0]) auto
    then show ?thesis using that False Full l by simp
  next
    case (Written ch)
    define q' where "q' = frame_start n q (flen b) + flen b"
    have fit: "q' - p0 \<le> n" and rep': "ring_rep ch p q' (fs @ [(mt, b)])"
      and ds: "data_size ch = data_size (ring s)"
      using ok Written by (simp_all add: attempt_ok_def q'_def write_fits_def n)
    have "q' \<le> Suc k * (2 * n)"
      using fl q n by (auto simp: q'_def frame_start_def)
    then have "spsc_inv n (Suc k) (s\<lparr>ring := ch, sent := sent s @ [(mt, b)]\<rparr>)"
      using rep' l p0 fit pn n ds
      by (intro spsc_invI [of _ p q' "fs @ [(mt, b)]" p0]) (auto simp: pin_ok_sent)
    then show ?thesis using that False Written l by simp
  qed
qed

lemma step_view:
  assumes inv: "spsc_inv n k s" and small: "k * (2 * n) < 2 ^ 64"
  obtains s' where "spsc_step s ReadView = Some s'" "spsc_inv n k s'" "sent s' = sent s"
    "cur_view s = None \<Longrightarrow> rcvd s \<noteq> sent s \<Longrightarrow> length (rcvd s') = Suc (length (rcvd s))"
    "length (rcvd s) \<le> length (rcvd s')"
proof -
  from inv obtain p0 p q fs where rep: "ring_rep (ring s) p q fs" and l: "loaded s = of_nat p0"
    and p0: "p0 \<le> p" "q - p0 \<le> n" and q: "q \<le> k * (2 * n)" and pn: "pin_ok n p fs s"
    and n: "n = unat (data_size (ring s))" and pq: "p \<le> q" by (rule spsc_invE)
  show ?thesis
  proof (cases "cur_view s")
    case (Some v)
    then obtain f fs' where f: "fs = f # fs'" "frame_start n p (flen (snd f)) = p"
      "pin s = of_nat (p + flen (snd f))"
      using pn by (auto simp: pin_ok_def)
    have "layout (vbyte (ring s)) n p (f # fs') q"
      using rep f n by (simp add: ring_rep_alt del: layout.simps)
    then have "p + flen (snd f) \<le> q" using layout_Cons_le f by metis
    then have "pin s \<noteq> 0" using pin_nonzero [of q p "snd f"] q small f by simp
    then show ?thesis using that [of s] inv Some by (simp add: read_frame_view_def)
  next
    case None
    then have pin: "pin s = 0" and eq: "sent s = rcvd s @ fs" using pn by (simp_all add: pin_ok_def)
    show ?thesis
    proof (cases fs)
      case Nil
      then have "read_frame_view (ring s) 0 = Some (NoFrame (ring s))"
        using rep read_frame_view_empty by simp
      then show ?thesis using that [of s] inv pin eq Nil by simp
    next
      case (Cons f fs')
      note rep = rep [unfolded Cons]
      obtain t where t: "t = frame_start n p (flen (snd f))"
        and rd: "read_frame_view (ring s) 0 = Some (GotFrame ((ring s)\<lparr>read_idx := of_nat t\<rparr>)
           (view_at n t f) (of_nat (t + flen (snd f))))"
        and bv: "body_view ((ring s)\<lparr>read_idx := of_nat t\<rparr>) (view_at n t f) = Some (snd f)"
        and rep': "ring_rep ((ring s)\<lparr>read_idx := of_nat t\<rparr>) t q (f # fs')"
        and here: "frame_start n t (flen (snd f)) = t"
        using read_frame_view_frame [OF rep] unfolding n by metis
      define s' where "s' = s\<lparr>ring := (ring s)\<lparr>read_idx := of_nat t\<rparr>,
        pin := of_nat (t + flen (snd f)), cur_view := Some (view_at n t f),
        rcvd := rcvd s @ [f]\<rparr>"
      have "p \<le> t" by (simp add: t frame_start_ge)
      then have "spsc_inv n k s'"
        using rep' l p0 q n here eq Cons
        by (intro spsc_invI [of s' t q "f # fs'" p0]) (auto simp: s'_def pin_ok_def)
      moreover have "spsc_step s ReadView = Some s'"
        using rd bv pin by (simp add: s'_def view_at_def)
      ultimately show ?thesis using that [of s'] by (simp add: s'_def)
    qed
  qed
qed

lemma step_release:
  assumes inv: "spsc_inv n k s" and small: "k * (2 * n) < 2 ^ 64"
  obtains s' where "spsc_step s ReleaseView = Some s'" "spsc_inv n k s'" "cur_view s' = None"
    "sent s' = sent s" "rcvd s' = rcvd s"
proof -
  from inv obtain p0 p q fs where rep: "ring_rep (ring s) p q fs" and l: "loaded s = of_nat p0"
    and p0: "p0 \<le> p" "q - p0 \<le> n" and q: "q \<le> k * (2 * n)" and pn: "pin_ok n p fs s"
    and n: "n = unat (data_size (ring s))" and pq: "p \<le> q" by (rule spsc_invE)
  show ?thesis
  proof (cases "cur_view s")
    case None
    then have "spsc_step s ReleaseView = Some s"
      using pn by (simp add: pin_ok_def release_frame_view_def)
    then show ?thesis using that [of s] inv None by simp
  next
    case (Some v)
    then obtain f fs' where f: "fs = f # fs'" "frame_start n p (flen (snd f)) = p"
      "pin s = of_nat (p + flen (snd f))" "sent s = rcvd s @ fs'"
      using pn by (auto simp: pin_ok_def)
    have "layout (vbyte (ring s)) n p (f # fs') q"
      using rep f n by (simp add: ring_rep_alt del: layout.simps)
    then have "p + flen (snd f) \<le> q" using layout_Cons_le f by metis
    then have nz: "pin s \<noteq> 0" using pin_nonzero [of q p "snd f"] q small f by simp
    note rel = release_frame_view_ok [OF rep [unfolded f] f(2) [unfolded n] f(3) nz]
    define s' where "s' = s\<lparr>ring := (ring s)\<lparr>read_idx := of_nat (p + flen (snd f))\<rparr>,
      pin := 0, cur_view := None\<rparr>"
    have "spsc_inv n k s'"
      using rel(2) l p0 q n f
      by (intro spsc_invI [of s' "p + flen (snd f)" q fs' p0]) (auto simp: s'_def pin_ok_def)
    moreover have "spsc_step s ReleaseView = Some s'" using rel(1) by (simp add: s'_def)
    ultimately show ?thesis using that [of s'] by (simp add: s'_def)
  qed
qed

text \<open>Every operation succeeds and keeps the invariant; a run does too.\<close>

lemma spsc_step_inv:
  assumes "spsc_inv n k s" "Suc k * (2 * n) < 2 ^ 64"
  obtains s' where "spsc_step s op = Some s'" "spsc_inv n (Suc k) s'"
proof (cases op)
  case LoadReadIdx
  then show ?thesis using that step_load [OF assms(1)] spsc_inv_mono [of n k _ "Suc k"] by simp
next
  case (TryWrite b mt)
  then show ?thesis using that step_write [OF assms] by metis
next
  case ReadView
  have "k * (2 * n) < 2 ^ 64" using assms(2) by simp
  from step_view [OF assms(1) this] ReadView show ?thesis
    using that spsc_inv_mono [of n k _ "Suc k"] by (metis le_SucI order_refl)
next
  case ReleaseView
  have "k * (2 * n) < 2 ^ 64" using assms(2) by simp
  from step_release [OF assms(1) this] ReleaseView show ?thesis
    using that spsc_inv_mono [of n k _ "Suc k"] by (metis le_SucI order_refl)
qed

lemma spsc_run_inv:
  assumes "spsc_inv n k s" "(k + length ops) * (2 * n) < 2 ^ 64"
  obtains s' where "spsc_run s ops = Some s'" "spsc_inv n (k + length ops) s'"
  using assms
proof (induction ops arbitrary: k s thesis)
  case Nil
  then show ?case by simp
next
  case (Cons op ops)
  have "Suc k * (2 * n) \<le> (k + length (op # ops)) * (2 * n)" by (rule mult_le_mono1) simp
  then have "Suc k * (2 * n) < 2 ^ 64" using Cons.prems(3) by linarith
  with Cons.prems(2) obtain s1 where s1: "spsc_step s op = Some s1" "spsc_inv n (Suc k) s1"
    by (rule spsc_step_inv)
  from Cons.IH [OF _ s1(2)] Cons.prems(3) obtain s' where
    "spsc_run s1 ops = Some s'" "spsc_inv n (Suc k + length ops) s'" by auto
  then show ?case using Cons.prems(1) s1 by simp
qed

lemma spsc_inv_prefix:
  assumes "spsc_inv n k s"
  shows "prefix (rcvd s) (sent s)"
  using assms by (auto simp: spsc_inv_def pin_ok_def prefix_def split: option.splits)

lemma spsc_inv_view:
  assumes inv: "spsc_inv n k s" and v: "cur_view s = Some v"
  shows "rcvd s \<noteq> []" "body_view (ring s) v = Some (snd (last (rcvd s)))"
    "view_type v = fst (last (rcvd s))"
proof -
  from inv obtain p0 p q fs where rep: "ring_rep (ring s) p q fs" and pn: "pin_ok n p fs s"
    and n: "n = unat (data_size (ring s))" by (rule spsc_invE)
  from pn v obtain f fs' where f: "fs = f # fs'" "frame_start n p (flen (snd f)) = p"
    "v = view_at n p f" "rcvd s \<noteq> []" "last (rcvd s) = f" by (auto simp: pin_ok_def)
  then show "rcvd s \<noteq> []" "view_type v = fst (last (rcvd s))" by (simp_all add: view_at_def)
  show "body_view (ring s) v = Some (snd (last (rcvd s)))"
    using read_loop_frame(2) [OF rep [unfolded f(1)]] f n by simp
qed

text \<open>A consumer that keeps reading and releasing catches up with the producer.\<close>

lemma spsc_drain:
  assumes "spsc_inv n k s" "k * (2 * n) < 2 ^ 64" "cur_view s = None"
    "length (sent s) \<le> length (rcvd s) + m"
  obtains s' where "spsc_run s (concat (replicate m [ReadView, ReleaseView])) = Some s'"
    "rcvd s' = sent s" "sent s' = sent s"
  using assms
proof (induction m arbitrary: s thesis)
  case 0
  have "rcvd s = sent s"
    using spsc_inv_prefix [OF 0(2)] 0(5) by (auto simp: prefix_def)
  then show ?case using 0(1) [of s] by simp
next
  case (Suc m)
  obtain s1 where s1: "spsc_step s ReadView = Some s1" "spsc_inv n k s1" "sent s1 = sent s"
    "rcvd s \<noteq> sent s \<Longrightarrow> length (rcvd s1) = Suc (length (rcvd s))"
    "length (rcvd s) \<le> length (rcvd s1)"
    using step_view [OF Suc.prems(2,3)] Suc.prems(4) by metis
  obtain s2 where s2: "spsc_step s1 ReleaseView = Some s2" "spsc_inv n k s2"
    "cur_view s2 = None" "sent s2 = sent s1" "rcvd s2 = rcvd s1"
    using step_release [OF s1(2) Suc.prems(3)] by metis
  have "length (sent s2) \<le> length (rcvd s2) + m"
  proof (cases "rcvd s = sent s")
    case True
    then show ?thesis using s1(3,5) s2(4,5) by simp
  next
    case False
    then show ?thesis using s1 s2 Suc.prems(5) by simp
  qed
  then obtain s' where "spsc_run s2 (concat (replicate m [ReadView, ReleaseView])) = Some s'"
    "rcvd s' = sent s2" "sent s' = sent s2"
    using Suc.IH [OF _ s2(2) Suc.prems(3) s2(3)] by metis
  then show ?case using Suc.prems(1) s1 s2 by simp
qed

subsection \<open>Properties of the ring under every schedule\<close>

text \<open>
  Property C3. For every schedule of producer and consumer operations on a fresh ring whose
  indices cannot reach \<open>2 ^ 64\<close>, no operation faults or loops, and the frames the
  consumer has been shown are a prefix of the frames the producer has published: nothing is
  lost, duplicated, reordered or torn, whatever stale read index the producer works with.
\<close>

theorem spsc_fifo:
  assumes "0 < ds" "length d = unat ds" "length ops * (2 * unat ds) < 2 ^ 64"
  shows "\<exists>s. spsc_run (spsc_init ds d) ops = Some s \<and> prefix (rcvd s) (sent s)"
proof -
  obtain s where "spsc_run (spsc_init ds d) ops = Some s" "spsc_inv (unat ds) (length ops) s"
    using spsc_run_inv [OF spsc_inv_init [OF assms(1,2)], of ops] assms(3) by auto
  then show ?thesis using spsc_inv_prefix by blast
qed

theorem spsc_fifo_witness:
  "\<exists>s. spsc_run (spsc_init 16 (replicate 16 CHR ''x''))
         [TryWrite ''ab'' 6, LoadReadIdx, ReadView, TryWrite ''c'' 7, ReleaseView] = Some s
     \<and> prefix (rcvd s) (sent s)"
  by (rule spsc_fifo) simp_all

text \<open>
  Property C35. A view the consumer holds stays valid: in every state a schedule can reach, the
  bytes a pinned view points to are still the body of the last frame the consumer was shown,
  so no producer step overwrites a frame before it is released.
\<close>

theorem spsc_view_stable:
  assumes "0 < ds" "length d = unat ds" "length ops * (2 * unat ds) < 2 ^ 64"
    and "spsc_run (spsc_init ds d) ops = Some s" "cur_view s = Some v"
  shows "rcvd s \<noteq> [] \<and> body_view (ring s) v = Some (snd (last (rcvd s)))
    \<and> view_type v = fst (last (rcvd s))"
proof -
  have "spsc_inv (unat ds) (length ops) s"
    using spsc_run_inv [OF spsc_inv_init [OF assms(1,2)], of ops] assms(3,4) by auto
  then show ?thesis using spsc_inv_view assms(5) by blast
qed

text \<open>Equations that evaluate a schedule on a concrete ring inside the kernel.\<close>

lemmas ring_eval = spsc_init_def ring_init_def frame_too_large_def write_attempt_def Let_def
  frame_len_of_def put_frame_eq frame_bytes_def mem_write_def attempt_of_def le32_def byte_of_def
  skip_marker_def read_frame_view_def read_frame_loop.simps mem_read_def un_le32_def
  body_view_def release_frame_view_def

lemma view_demo_run:
  "map_option cur_view (spsc_run (spsc_init 16 (replicate 16 CHR ''x'')) [TryWrite ''ab'' 6, ReadView])
     = Some (Some \<lparr>view_off = 8, view_len = 2, view_type = 6\<rparr>)"
  by (simp add: ring_eval)

theorem spsc_view_stable_witness:
  "\<exists>s v. spsc_run (spsc_init 16 (replicate 16 CHR ''x'')) [TryWrite ''ab'' 6, ReadView] = Some s
     \<and> cur_view s = Some v \<and> rcvd s \<noteq> [] \<and> body_view (ring s) v = Some (snd (last (rcvd s)))
     \<and> view_type v = fst (last (rcvd s))"
proof -
  obtain s where s: "spsc_run (spsc_init 16 (replicate 16 CHR ''x'')) [TryWrite ''ab'' 6, ReadView] = Some s"
    "cur_view s = Some \<lparr>view_off = 8, view_len = 2, view_type = 6\<rparr>"
    using view_demo_run by (auto simp del: spsc_run.simps)
  then show ?thesis using spsc_view_stable [OF _ _ _ s] by (auto simp del: spsc_run.simps)
qed

text \<open>
  Remark. No frame is starved: after any schedule, a consumer that releases what it holds
  and then reads and releases as often as there are frames sent has received exactly the
  frames sent, in order.
\<close>

theorem spsc_drains:
  assumes "0 < ds" "length d = unat ds" "length ops * (2 * unat ds) < 2 ^ 64"
    and "spsc_run (spsc_init ds d) ops = Some s" "length (sent s) \<le> m"
  shows "\<exists>s'. spsc_run s (ReleaseView # concat (replicate m [ReadView, ReleaseView])) = Some s'
    \<and> rcvd s' = sent s \<and> sent s' = sent s"
proof -
  have inv: "spsc_inv (unat ds) (length ops) s"
    using spsc_run_inv [OF spsc_inv_init [OF assms(1,2)], of ops] assms(3,4) by auto
  obtain s1 where s1: "spsc_step s ReleaseView = Some s1" "spsc_inv (unat ds) (length ops) s1"
    "cur_view s1 = None" "sent s1 = sent s" using step_release [OF inv assms(3)] by metis
  obtain s' where "spsc_run s1 (concat (replicate m [ReadView, ReleaseView])) = Some s'"
    "rcvd s' = sent s1" "sent s' = sent s1"
    using spsc_drain [OF s1(2) assms(3) s1(3), of m] s1(4) assms(5) by auto
  then show ?thesis using s1 by simp
qed

lemma drain_demo_run:
  "map_option sent (spsc_run (spsc_init 32 (replicate 32 CHR ''x'')) [TryWrite ''ab'' 6, TryWrite ''c'' 7])
     = Some [(6, ''ab''), (7, ''c'')]"
  by (simp add: ring_eval)

theorem spsc_drains_witness:
  "\<exists>s s'. spsc_run (spsc_init 32 (replicate 32 CHR ''x'')) [TryWrite ''ab'' 6, TryWrite ''c'' 7] = Some s
     \<and> spsc_run s (ReleaseView # concat (replicate 2 [ReadView, ReleaseView])) = Some s'
     \<and> rcvd s' = [(6, ''ab''), (7, ''c'')]"
proof -
  obtain s where s: "spsc_run (spsc_init 32 (replicate 32 CHR ''x'')) [TryWrite ''ab'' 6, TryWrite ''c'' 7] = Some s"
    "sent s = [(6, ''ab''), (7, ''c'')]"
    using drain_demo_run by (auto simp del: spsc_run.simps)
  then show ?thesis using spsc_drains [OF _ _ _ s(1), of 2] by (auto simp del: spsc_run.simps)
qed

end
