(* ===== verification/Shm_Channel.thy ===== *)
theory Shm_Channel
  imports Shm_Spsc
begin

text \<open>
  The shared-memory channel object \<open>ShmChannel\<close> (\<open>rpc/src/general/shm_channel.hpp\<close>,
  \<open>.cc\<close>): the segment name space the operating system keeps, creation with recovery
  of stale segments, opening with a bounded wait, tear-down, and the request and response
  directions over the two rings.

  Outcomes the operating system decides (whether \<open>ftruncate\<close> or \<open>mmap\<close> succeeds,
  what \<open>kill(pid, 0)\<close> reports, when the clock passes a deadline) are parameters. A
  segment that is being used by another process is the entry of the name space.
\<close>

subsection \<open>Control area and segments\<close>

definition SHM_CTRL_SIZE :: nat where "SHM_CTRL_SIZE = 4096"
definition SHM_MAGIC :: u32 where "SHM_MAGIC = 0x4C435A53"
definition SHM_VERSION :: u32 where "SHM_VERSION = 1"

record shm_control =
  ready :: bool
  magic :: u32
  version :: u32
  creator_pid :: int
  req_channel :: shm_ring_buf
  resp_channel :: shm_ring_buf

record segment =
  seg_size :: nat
  seg_ctrl :: shm_control

type_synonym shm_fs = "string \<rightharpoonup> segment"

datatype kill_result = KillOk | KillEsrch | KillEperm

text \<open>\<open>_addr\<close> after \<open>mmap\<close>: null, the failure value, or a mapping.\<close>

datatype map_addr = NullAddr | MapFailed | MappedAddr

record shm_channel =
  addr :: map_addr
  has_ctrl :: bool
  has_fd :: bool
  is_creator :: bool
  chan_name :: string
  total_size :: nat
  req_pin_end :: u64
  resp_pin_end :: u64

definition new_channel :: shm_channel where
  "new_channel = \<lparr>addr = NullAddr, has_ctrl = False, has_fd = False, is_creator = False,
     chan_name = [], total_size = 0, req_pin_end = 0, resp_pin_end = 0\<rparr>"

definition is_open :: "shm_channel \<Rightarrow> bool" where
  "is_open c \<longleftrightarrow> addr c \<noteq> NullAddr"

subsection \<open>Stale segments\<close>

definition stale_segment :: "(int \<Rightarrow> kill_result) \<Rightarrow> shm_control \<Rightarrow> bool" where
  "stale_segment kp ctrl =
     (if creator_pid ctrl > 0 then kp (creator_pid ctrl) = KillEsrch
      else ready ctrl \<and> (magic ctrl \<noteq> SHM_MAGIC \<or> version ctrl \<noteq> SHM_VERSION))"

definition reclaim_stale_segment ::
  "(int \<Rightarrow> kill_result) \<Rightarrow> bool \<Rightarrow> shm_fs \<Rightarrow> string \<Rightarrow> shm_fs \<times> bool" where
  "reclaim_stale_segment kp map_ok fs name =
     (case fs name of
        None \<Rightarrow> (fs, False)
      | Some seg \<Rightarrow>
          if seg_size seg < SHM_CTRL_SIZE then (fs, False)
          else if \<not> map_ok then (fs, False)
          else if \<not> stale_segment kp (seg_ctrl seg) then (fs, False)
          else (fs(name := None), True))"

subsection \<open>Creating\<close>

definition fresh_ring :: "nat \<Rightarrow> shm_ring_buf" where
  "fresh_ring n = ring_init (of_nat n) (replicate n (char_of (0::nat)))"

definition fresh_control :: "int \<Rightarrow> nat \<Rightarrow> nat \<Rightarrow> shm_control" where
  "fresh_control pid req_size resp_size =
     \<lparr>ready = True, magic = SHM_MAGIC, version = SHM_VERSION, creator_pid = pid,
      req_channel = fresh_ring req_size, resp_channel = fresh_ring resp_size\<rparr>"

record os_env =
  killp :: "int \<Rightarrow> kill_result"
  getpid :: int
  reclaim_mmap_ok :: bool
  ftruncate_ok :: bool
  mmap_ok :: bool

definition create ::
  "os_env \<Rightarrow> shm_fs \<Rightarrow> shm_channel \<Rightarrow> string \<Rightarrow> nat \<Rightarrow> nat \<Rightarrow> (shm_fs \<times> shm_channel) \<times> bool" where
  "create os fs c name req_size resp_size =
     (let (fs1, opened) =
        (if fs name = None then (fs, True)
         else reclaim_stale_segment (killp os) (reclaim_mmap_ok os) fs name);
          total = SHM_CTRL_SIZE + req_size + resp_size in
      if \<not> opened then ((fs1, c), False)
      else if \<not> ftruncate_ok os then ((fs1(name := None), c\<lparr>total_size := total\<rparr>), False)
      else if \<not> mmap_ok os
      then ((fs1(name := None), c\<lparr>total_size := total, addr := MapFailed\<rparr>), False)
      else
        ((fs1(name \<mapsto> \<lparr>seg_size = total,
            seg_ctrl = fresh_control (getpid os) req_size resp_size\<rparr>),
          c\<lparr>total_size := total, addr := MappedAddr, has_ctrl := True, has_fd := True,
            is_creator := True, chan_name := name\<rparr>), True))"

subsection \<open>Opening\<close>

datatype wait_outcome = WaitReady | WaitTimeout | WaitPending

text \<open>The spin on \<open>ready\<close>: each iteration loads the flag and, if it is not set, the clock.\<close>

fun wait_ready :: "int \<Rightarrow> (bool \<times> int) list \<Rightarrow> wait_outcome" where
  "wait_ready deadline [] = WaitPending"
| "wait_ready deadline ((rdy, now) # obs) =
     (if rdy then WaitReady
      else if now \<ge> deadline then WaitTimeout
      else wait_ready deadline obs)"

datatype open_outcome = OpenReturned shm_channel bool | OpenWaiting

definition open_channel ::
  "bool \<Rightarrow> bool \<Rightarrow> shm_fs \<Rightarrow> shm_channel \<Rightarrow> string \<Rightarrow> int \<Rightarrow> int \<Rightarrow> (bool \<times> int) list \<Rightarrow> open_outcome" where
  "open_channel stat_ok map_ok fs c name timeout_ms start obs =
     (if is_open c then OpenReturned c False
      else case fs name of
          None \<Rightarrow> OpenReturned c False
        | Some seg \<Rightarrow>
            if \<not> stat_ok then OpenReturned c False
            else
              let c1 = c\<lparr>total_size := seg_size seg\<rparr> in
              if \<not> map_ok then OpenReturned (c1\<lparr>addr := MapFailed\<rparr>) False
              else case wait_ready (start + timeout_ms) obs of
                  WaitPending \<Rightarrow> OpenWaiting
                | WaitTimeout \<Rightarrow>
                    OpenReturned (c1\<lparr>addr := NullAddr, has_ctrl := False\<rparr>) False
                | WaitReady \<Rightarrow>
                    if magic (seg_ctrl seg) \<noteq> SHM_MAGIC \<or> version (seg_ctrl seg) \<noteq> SHM_VERSION
                    then OpenReturned (c1\<lparr>addr := NullAddr, has_ctrl := False\<rparr>) False
                    else OpenReturned (c1\<lparr>addr := MappedAddr, has_ctrl := True, has_fd := True,
                           chan_name := name\<rparr>) True)"

subsection \<open>Tear-down and liveness of the peer\<close>

definition destroy :: "shm_fs \<Rightarrow> shm_channel \<Rightarrow> shm_fs \<times> shm_channel" where
  "destroy fs c =
     (let fs1 = (if is_creator c \<and> has_ctrl c
                 then (case fs (chan_name c) of
                         None \<Rightarrow> fs
                       | Some seg \<Rightarrow> fs(chan_name c \<mapsto>
                           seg\<lparr>seg_ctrl := (seg_ctrl seg)\<lparr>ready := False\<rparr>\<rparr>))
                 else fs);
          fs2 = (if is_creator c \<and> chan_name c \<noteq> [] then fs1(chan_name c := None) else fs1) in
      (fs2, c\<lparr>addr := NullAddr, has_fd := False, has_ctrl := False,
              req_pin_end := 0, resp_pin_end := 0\<rparr>))"

definition peerAlive :: "(int \<Rightarrow> kill_result) \<Rightarrow> int \<Rightarrow> shm_channel \<Rightarrow> shm_control \<Rightarrow> bool" where
  "peerAlive kp self c ctrl =
     (if \<not> has_ctrl c then False
      else if \<not> ready ctrl then False
      else if creator_pid ctrl \<le> 0 \<or> creator_pid ctrl = self then True
      else case kp (creator_pid ctrl) of
          KillOk \<Rightarrow> True
        | KillEsrch \<Rightarrow> False
        | KillEperm \<Rightarrow> True)"

subsection \<open>The two directions\<close>

text \<open>
  The public read and write methods delegate to the ring of their direction. The state of a
  live channel is its control area and the two pins of this end.
\<close>

record live_channel =
  ctrl :: shm_control
  req_pin :: u64
  resp_pin :: u64
  req_notified :: nat
  resp_notified :: nat

definition write_request :: "live_channel \<Rightarrow> string \<Rightarrow> u32 \<Rightarrow> int \<Rightarrow> int \<Rightarrow> (u64 \<times> int) list \<Rightarrow> write_outcome" where
  "write_request lc body mt wait_ms start obs =
     write_to (req_channel (ctrl lc)) body mt wait_ms start obs"

definition write_response :: "live_channel \<Rightarrow> string \<Rightarrow> u32 \<Rightarrow> int \<Rightarrow> int \<Rightarrow> (u64 \<times> int) list \<Rightarrow> write_outcome" where
  "write_response lc body mt wait_ms start obs =
     write_to (resp_channel (ctrl lc)) body mt wait_ms start obs"

definition read_request :: "live_channel \<Rightarrow> (live_channel \<times> frame option) option" where
  "read_request lc =
     map_option (\<lambda>((ch, pe), f). (lc\<lparr>ctrl := (ctrl lc)\<lparr>req_channel := ch\<rparr>, req_pin := pe\<rparr>, f))
       (read_from (req_channel (ctrl lc)) (req_pin lc))"

definition read_response :: "live_channel \<Rightarrow> (live_channel \<times> frame option) option" where
  "read_response lc =
     map_option (\<lambda>((ch, pe), f). (lc\<lparr>ctrl := (ctrl lc)\<lparr>resp_channel := ch\<rparr>, resp_pin := pe\<rparr>, f))
       (read_from (resp_channel (ctrl lc)) (resp_pin lc))"

definition release_request_view :: "live_channel \<Rightarrow> live_channel" where
  "release_request_view lc =
     (case release_frame_view (req_channel (ctrl lc)) (req_pin lc) of
        (ch, pe) \<Rightarrow> lc\<lparr>ctrl := (ctrl lc)\<lparr>req_channel := ch\<rparr>, req_pin := pe\<rparr>)"

definition release_response_view :: "live_channel \<Rightarrow> live_channel" where
  "release_response_view lc =
     (case release_frame_view (resp_channel (ctrl lc)) (resp_pin lc) of
        (ch, pe) \<Rightarrow> lc\<lparr>ctrl := (ctrl lc)\<lparr>resp_channel := ch\<rparr>, resp_pin := pe\<rparr>)"

definition req_write_ptr :: "live_channel \<Rightarrow> (nat \<times> nat) option" where
  "req_write_ptr lc = write_ptr (req_channel (ctrl lc)) (read_idx (req_channel (ctrl lc)))"

definition resp_write_ptr :: "live_channel \<Rightarrow> (nat \<times> nat) option" where
  "resp_write_ptr lc = write_ptr (resp_channel (ctrl lc)) (read_idx (resp_channel (ctrl lc)))"

definition req_commit :: "live_channel \<Rightarrow> nat \<Rightarrow> u32 \<Rightarrow> live_channel option" where
  "req_commit lc body_len mt =
     map_option (\<lambda>ch. lc\<lparr>ctrl := (ctrl lc)\<lparr>req_channel := ch\<rparr>,
         req_notified := Suc (req_notified lc)\<rparr>)
       (commit (req_channel (ctrl lc)) body_len mt)"

definition resp_commit :: "live_channel \<Rightarrow> nat \<Rightarrow> u32 \<Rightarrow> live_channel option" where
  "resp_commit lc body_len mt =
     map_option (\<lambda>ch. lc\<lparr>ctrl := (ctrl lc)\<lparr>resp_channel := ch\<rparr>,
         resp_notified := Suc (resp_notified lc)\<rparr>)
       (commit (resp_channel (ctrl lc)) body_len mt)"

subsection \<open>Creation, opening and tear-down\<close>

text \<open>
  Remark. Two servers cannot step on each other: when a segment of the name exists and its
  creator has not provably exited, \<open>create\<close> fails and leaves the name space and the
  channel object as they were; a name whose recorded creator has exited is taken over with
  fresh, empty rings.
\<close>

theorem create_exclusive:
  assumes "fs name = Some seg" "SHM_CTRL_SIZE \<le> seg_size seg" "creator_pid (seg_ctrl seg) > 0"
    and "reclaim_mmap_ok os" "ftruncate_ok os" "mmap_ok os"
  shows "(killp os (creator_pid (seg_ctrl seg)) \<noteq> KillEsrch \<longrightarrow>
            create os fs c name m n = ((fs, c), False))
       \<and> (killp os (creator_pid (seg_ctrl seg)) = KillEsrch \<longrightarrow>
            snd (create os fs c name m n)
            \<and> fst (fst (create os fs c name m n)) name
               = Some \<lparr>seg_size = SHM_CTRL_SIZE + m + n, seg_ctrl = fresh_control (getpid os) m n\<rparr>)"
  using assms by (simp add: create_def reclaim_stale_segment_def stale_segment_def Let_def)

definition demo_seg :: segment where
  "demo_seg = \<lparr>seg_size = 4196, seg_ctrl = fresh_control 7 50 50\<rparr>"

definition demo_os :: os_env where
  "demo_os = \<lparr>killp = (\<lambda>pid. if pid = 7 then KillOk else KillEsrch), getpid = 9,
     reclaim_mmap_ok = True, ftruncate_ok = True, mmap_ok = True\<rparr>"

theorem create_exclusive_witness:
  "create demo_os [''shm'' \<mapsto> demo_seg] new_channel ''shm'' 10 10
     = (([''shm'' \<mapsto> demo_seg], new_channel), False)"
  using create_exclusive [of "[''shm'' \<mapsto> demo_seg]" "''shm''" demo_seg demo_os]
  by (simp add: demo_seg_def demo_os_def fresh_control_def SHM_CTRL_SIZE_def)

lemma fresh_ring_rep:
  assumes "0 < n" "n < 2 ^ 64"
  shows "ring_rep (fresh_ring n) 0 0 []"
  using assms
  by (auto simp: ring_rep_def fresh_ring_def ring_init_def idx_ok_def unat_of_nat_small
      word_less_nat_alt)

text \<open>
  Remark. A client that opens what a server created, and sees \<open>ready\<close> set, gets the
  channel: the call succeeds with the created size, and both directions start as empty rings.
\<close>

theorem create_then_open:
  assumes "create os fs c name m n = ((fs', c'), True)" "0 < m" "m < 2 ^ 64" "0 < n" "n < 2 ^ 64"
  shows "\<exists>seg. fs' name = Some seg
    \<and> ring_rep (req_channel (seg_ctrl seg)) 0 0 [] \<and> ring_rep (resp_channel (seg_ctrl seg)) 0 0 []
    \<and> open_channel True True fs' new_channel name t t0 ((True, u) # obs)
        = OpenReturned (new_channel\<lparr>total_size := SHM_CTRL_SIZE + m + n, addr := MappedAddr,
            has_ctrl := True, has_fd := True, chan_name := name\<rparr>) True"
proof -
  have "fs' name = Some \<lparr>seg_size = SHM_CTRL_SIZE + m + n, seg_ctrl = fresh_control (getpid os) m n\<rparr>"
    using assms(1) by (auto simp: create_def Let_def split: if_splits prod.splits)
  then show ?thesis
    using assms fresh_ring_rep [of m] fresh_ring_rep [of n]
    by (simp add: open_channel_def is_open_def new_channel_def fresh_control_def Let_def)
qed

theorem create_then_open_witness:
  "\<exists>fs' c' seg. create demo_os Map.empty new_channel ''shm'' 64 64 = ((fs', c'), True)
     \<and> fs' ''shm'' = Some seg \<and> ring_rep (req_channel (seg_ctrl seg)) 0 0 []"
proof -
  obtain fs' c' where c: "create demo_os Map.empty new_channel ''shm'' 64 64 = ((fs', c'), True)"
    by (simp add: create_def demo_os_def Let_def)
  then show ?thesis using create_then_open [OF c, of 0 0 0 "[]"] by auto
qed

text \<open>
  Remark. \<open>open\<close> never hangs on a segment whose creator died before finishing:
  once a clock reading has passed the deadline, the call has returned.
\<close>

theorem open_returns:
  assumes "(rdy, now) \<in> set obs" "now \<ge> start + timeout_ms"
  shows "\<exists>c' ok. open_channel stat_ok map_ok fs c name timeout_ms start obs = OpenReturned c' ok"
proof -
  have "wait_ready (start + timeout_ms) obs \<noteq> WaitPending"
    using assms by (induction obs) (auto split: if_splits)
  then show ?thesis
    by (auto simp: open_channel_def Let_def split: option.splits wait_outcome.splits)
qed

theorem open_returns_witness:
  "\<exists>c' ok. open_channel True True [''shm'' \<mapsto> demo_seg] new_channel ''shm'' 3000 0
     [(False, 10), (False, 3001)] = OpenReturned c' ok"
  by (rule open_returns [of False 3001]) simp_all

text \<open>
  Remark. A failed \<open>mmap\<close> in \<open>open\<close> is not undone: the object keeps the failure
  address, reports itself open, and refuses every later \<open>open\<close> although it holds no mapping.
\<close>

theorem open_after_failed_mmap:
  assumes "\<not> is_open c" "fs name = Some seg"
  shows "\<exists>c'. open_channel True False fs c name timeout_ms start obs = OpenReturned c' False
    \<and> is_open c' \<and> addr c' = MapFailed
    \<and> open_channel st mp fs' c' name' timeout_ms' start' obs' = OpenReturned c' False"
  using assms by (simp add: open_channel_def is_open_def Let_def)

theorem open_after_failed_mmap_witness:
  "\<exists>c'. open_channel True False [''shm'' \<mapsto> demo_seg] new_channel ''shm'' 3000 0 [(True, 1)]
       = OpenReturned c' False
    \<and> is_open c' \<and> addr c' = MapFailed
    \<and> open_channel True True [''shm'' \<mapsto> demo_seg] c' ''shm'' 3000 0 [(True, 1)] = OpenReturned c' False"
  by (rule open_after_failed_mmap) (simp_all add: is_open_def new_channel_def)

subsection \<open>The bounded wait of a write\<close>

lemma ring_rep_read_idx:
  "ring_rep (ch\<lparr>read_idx := r\<rparr>) p q fs \<Longrightarrow> same_bytes p0 q ch ch' \<Longrightarrow> p0 \<le> p \<Longrightarrow>
   ring_wf ch' \<Longrightarrow> data_size ch' = data_size ch \<Longrightarrow> write_idx ch' = write_idx ch \<Longrightarrow>
   ring_rep (ch'\<lparr>read_idx := r\<rparr>) p q fs"
  by (auto simp: ring_rep_alt same_bytes_def intro: layout_cong)

text \<open>
  The observations a call can make: each loaded \<open>read_idx\<close> is a position of the consumer
  at which the ring is well formed, not before \<open>p0\<close>.
\<close>

fun obs_ok :: "nat \<Rightarrow> nat \<Rightarrow> shm_ring_buf \<Rightarrow> (u64 \<times> int) list \<Rightarrow> bool" where
  "obs_ok p0 q ch [] \<longleftrightarrow> True"
| "obs_ok p0 q ch ((r, now) # obs) \<longleftrightarrow>
     (\<exists>p fs. p0 \<le> p \<and> ring_rep (ch\<lparr>read_idx := r\<rparr>) p q fs \<and> obs_ok p q ch obs)"

lemma obs_ok_cong:
  assumes "obs_ok p q ch obs" "same_bytes p q ch ch'" "ring_wf ch'"
    "data_size ch' = data_size ch" "write_idx ch' = write_idx ch"
  shows "obs_ok p q ch' obs"
  using assms
proof (induction obs arbitrary: p)
  case Nil
  then show ?case by simp
next
  case (Cons ob obs)
  obtain r now where ob: "ob = (r, now)" by (cases ob)
  obtain p' fs where p': "p \<le> p'" "ring_rep (ch\<lparr>read_idx := r\<rparr>) p' q fs" "obs_ok p' q ch obs"
    using Cons.prems(1) by (auto simp: ob)
  have "same_bytes p' q ch ch'" using Cons.prems(2) p'(1) by (simp add: same_bytes_def)
  then have "obs_ok p' q ch' obs" using Cons.IH Cons.prems p' by blast
  moreover have "ring_rep (ch'\<lparr>read_idx := r\<rparr>) p' q fs"
    using ring_rep_read_idx [OF p'(2) Cons.prems(2) p'(1)] Cons.prems by blast
  ultimately show ?case using p' by (auto simp: ob)
qed

lemma write_loop_ok:
  assumes "obs_ok p0 q ch obs" "flen b \<le> unat (data_size ch)" "flen b < 2 ^ 32"
    "idx_ok (unat (data_size ch)) (q + 2 * unat (data_size ch))"
    "\<exists>(r, now) \<in> set obs. wait_ms \<le> 0 \<or> deadline \<le> now"
  shows "(\<exists>ch' p fs. write_loop ch b mt wait_ms deadline obs = Returned ch' True
            \<and> ring_rep ch' p (frame_start (unat (data_size ch)) q (flen b) + flen b) (fs @ [(mt, b)]))
       \<or> (\<exists>ch' p fs. write_loop ch b mt wait_ms deadline obs = Returned ch' False
            \<and> ring_rep ch' p q fs)"
  using assms
proof (induction obs arbitrary: ch p0)
  case Nil
  then show ?case by simp
next
  case (Cons o1 obs)
  obtain r now where o1: "o1 = (r, now)" by (cases o1)
  obtain p fs where p: "p0 \<le> p" and rep: "ring_rep (ch\<lparr>read_idx := r\<rparr>) p q fs"
    and rest: "obs_ok p q ch obs"
    using Cons.prems(1) by (auto simp: o1)
  have r: "r = of_nat p" and qp: "q - p \<le> unat (data_size ch)"
    using rep by (simp_all add: ring_rep_alt)
  have ok: "attempt_ok (ch\<lparr>read_idx := r\<rparr>) p p q fs b mt (write_attempt (ch\<lparr>read_idx := r\<rparr>) r b mt)"
    using write_attempt_ok [OF rep order_refl, of b mt] qp Cons.prems(2,3,4) by (simp add: r)
  show ?case
  proof (cases "write_attempt (ch\<lparr>read_idx := r\<rparr>) r b mt")
    case Fault
    with ok show ?thesis by (simp add: attempt_ok_def)
  next
    case (Written ch')
    with ok show ?thesis by (auto simp: attempt_ok_def o1)
  next
    case (Full ch')
    with ok have f: "ring_rep ch' p q fs" "data_size ch' = data_size ch"
      "same_bytes p q (ch\<lparr>read_idx := r\<rparr>) ch'" by (simp_all add: attempt_ok_def)
    show ?thesis
    proof (cases "wait_ms \<le> 0 \<or> deadline \<le> now")
      case True
      then show ?thesis using Full f by (auto simp: o1)
    next
      case False
      have idx: "write_idx ch' = write_idx ch" "ring_wf ch'"
        using f(1) rep by (simp_all add: ring_rep_alt)
      have "same_bytes p q ch ch'" using f(3) by (simp add: same_bytes_def)
      then have "obs_ok p q ch' obs" using obs_ok_cong [OF rest] f(2) idx by blast
      then show ?thesis
        using Cons.IH [of p ch'] Cons.prems Full False f(2) by (auto simp: o1)
    qed
  qed
qed

text \<open>
  Remark. A write with a bounded wait does return, and returns what it did: once an
  observation of the clock has passed the deadline (or no wait was asked for), \<open>write_to\<close>
  has either published exactly this frame behind the frames in the ring and returned true, or
  left the queue of frames as it was and returned false; it never faults.
\<close>

theorem write_to_total:
  assumes "obs_ok p q ch obs" "idx_ok (unat (data_size ch)) (q + 2 * unat (data_size ch))"
    and "\<not> frame_too_large ch b"
    and "\<exists>(r, now) \<in> set obs. wait_ms \<le> 0 \<or> start + wait_ms \<le> now"
  shows "(\<exists>ch' p' q' fs. write_to ch b mt wait_ms start obs = Returned ch' True
            \<and> ring_rep ch' p' q' (fs @ [(mt, b)]))
       \<or> (\<exists>ch' p' fs. write_to ch b mt wait_ms start obs = Returned ch' False \<and> ring_rep ch' p' q fs)"
proof -
  note fl = frame_fits_flen [OF assms(3)]
  have eq: "write_to ch b mt wait_ms start obs
      = write_loop ch b mt wait_ms (start + (if wait_ms > 0 then wait_ms else 0)) obs"
    using assms(3) by (simp add: write_to_def frame_too_large_def)
  have "\<exists>(r, now) \<in> set obs. wait_ms \<le> 0 \<or> start + (if wait_ms > 0 then wait_ms else 0) \<le> now"
    using assms(4) by auto
  from write_loop_ok [OF assms(1) fl assms(2) this, of mt] show ?thesis
    unfolding eq by blast
qed

theorem write_to_total_witness:
  "(\<exists>ch' p' q' fs. write_to (fresh_ring 32) ''hi'' 6 0 0 [(0, 0)] = Returned ch' True
      \<and> ring_rep ch' p' q' (fs @ [(6, ''hi'')]))
   \<or> (\<exists>ch' p' fs. write_to (fresh_ring 32) ''hi'' 6 0 0 [(0, 0)] = Returned ch' False
      \<and> ring_rep ch' p' 0 fs)"
proof (rule write_to_total [where p = 0])
  have "(fresh_ring 32)\<lparr>read_idx := 0\<rparr> = fresh_ring 32" by (simp add: fresh_ring_def ring_init_def)
  then show "obs_ok 0 0 (fresh_ring 32) [(0, 0)]"
    using fresh_ring_rep [of 32] by auto
qed (simp_all add: fresh_ring_def ring_init_def idx_ok_def frame_too_large_def frame_len_of_def)

subsection \<open>Capacity\<close>

text \<open>
  Remark. On an empty ring every frame of at most half the capacity is accepted at once,
  whatever position the indices have reached.
\<close>

theorem half_capacity_always_fits:
  assumes "ring_rep ch q q []" "2 * flen b \<le> unat (data_size ch)" "flen b < 2 ^ 32"
    and "idx_ok (unat (data_size ch)) (q + 2 * unat (data_size ch))"
  shows "\<exists>ch' q'. write_attempt ch (read_idx ch) b mt = Written ch' \<and> ring_rep ch' q q' [(mt, b)]"
proof -
  have r: "read_idx ch = of_nat q" using assms(1) by (simp add: ring_rep_alt)
  have fit: "write_fits (unat (data_size ch)) q q (flen b)"
    using assms(2) by (auto simp: write_fits_def frame_start_def)
  have "attempt_ok ch q q q [] b mt (write_attempt ch (of_nat q) b mt)"
    by (rule write_attempt_ok [OF assms(1) order_refl]) (use assms in auto)
  then show ?thesis using fit by (auto simp: attempt_ok_def r split: attempt.splits)
qed

theorem half_capacity_always_fits_witness:
  "\<exists>ch' q'. write_attempt (fresh_ring 32) (read_idx (fresh_ring 32)) ''12345678'' 6 = Written ch'
     \<and> ring_rep ch' 0 q' [(6, ''12345678'')]"
proof (rule half_capacity_always_fits)
  show "ring_rep (fresh_ring 32) 0 0 []" by (rule fresh_ring_rep) simp_all
qed (simp_all add: fresh_ring_def ring_init_def flen_def idx_ok_def)

text \<open>
  Remark. A larger frame can be refused for ever: on an empty ring, a frame that fits the
  capacity but neither the part before the region's end nor the part before the write
  position is never written, however long the caller waits for the (idle) consumer.
\<close>

theorem large_frame_starves:
  assumes "ring_rep ch q q []" "flen b \<le> unat (data_size ch)" "flen b < 2 ^ 32"
    and "idx_ok (unat (data_size ch)) (q + 2 * unat (data_size ch))"
    and "unat (data_size ch) - q mod unat (data_size ch) < flen b"
      "q mod unat (data_size ch) < flen b"
  shows "write_to ch b mt wait_ms start (map (\<lambda>t. (read_idx ch, t)) ts) \<noteq> Returned ch' True"
proof -
  define n where "n = unat (data_size ch)"
  have "n - q mod n + flen b > n"
    using assms(5,6) mod_less_divisor [of n q] ring_wf_pos [OF ring_rep_wf [OF assms(1)]]
    by (simp add: n_def)
  then have nofit: "\<not> write_fits n q q (flen b)"
    using assms(5) by (simp add: write_fits_def frame_start_def n_def)
  have stuck: "write_loop c b mt wait_ms dl (map (\<lambda>t. (r, t)) ts) \<noteq> Returned ch' True"
    if "ring_rep c q q []" "data_size c = data_size ch" "r = of_nat q" for c r dl
    using that
  proof (induction ts arbitrary: c)
    case (Cons t ts)
    have c: "c\<lparr>read_idx := r\<rparr> = c" using Cons.prems by (simp add: ring_rep_alt)
    have ok: "attempt_ok c q q q [] b mt (write_attempt c (of_nat q) b mt)"
      by (rule write_attempt_ok [OF Cons.prems(1) order_refl]) (use assms Cons.prems in auto)
    then obtain c' where "write_attempt c r b mt = Full c'" "ring_rep c' q q []"
      "data_size c' = data_size ch"
      using nofit Cons.prems by (auto simp: attempt_ok_def n_def split: attempt.splits)
    then show ?case using Cons.IH [of c'] Cons.prems c by simp
  qed simp
  show ?thesis
    using stuck [OF assms(1) refl] assms(1) by (auto simp: write_to_def ring_rep_alt)
qed

theorem large_frame_starves_witness:
  "\<forall>ch'. write_to \<lparr>write_idx = 50, read_idx = 50, data_size = 100,
        ring_data = replicate 100 (CHR ''.'')\<rparr> (replicate 52 (CHR ''x'')) 6 1000 0
        (map (\<lambda>t. (50, t)) [0, 500, 1000]) \<noteq> Returned ch' True"
proof
  fix ch'
  let ?ch = "\<lparr>write_idx = 50, read_idx = 50, data_size = 100,
        ring_data = replicate 100 (CHR ''.'')\<rparr> :: shm_ring_buf"
  have "write_to ?ch (replicate 52 (CHR ''x'')) 6 1000 0
      (map (\<lambda>t. (read_idx ?ch, t)) [0, 500, 1000]) \<noteq> Returned ch' True"
    by (rule large_frame_starves [where q = 50])
      (simp_all add: ring_rep_def flen_def idx_ok_def word_less_nat_alt)
  then show "write_to ?ch (replicate 52 (CHR ''x'')) 6 1000 0
      (map (\<lambda>t. (50, t)) [0, 500, 1000]) \<noteq> Returned ch' True"
    by simp
qed

subsection \<open>Zero-copy writes\<close>

lemma split_at_frame:
  assumes "off + 8 + n \<le> length (d :: string)"
  obtains A L T B C where "d = A @ L @ T @ B @ C" "length A = off" "length L = 4"
    "length T = 4" "length B = n"
proof
  let ?d1 = "drop off d" let ?d2 = "drop 4 ?d1" let ?d3 = "drop 4 ?d2"
  show "d = take off d @ take 4 ?d1 @ take 4 ?d2 @ take n ?d3 @ drop n ?d3"
    by (simp del: drop_drop)
qed (use assms in auto)

lemma header_then_body:
  assumes "off + 8 + length b \<le> length d" "length l = 4" "length t = 4"
  shows "Option.bind (mem_write d off l) (\<lambda>d1. Option.bind (mem_write d1 (off + 4) t)
           (\<lambda>d2. mem_write d2 (off + 8) b))
       = Option.bind (mem_write d (off + 8) b) (\<lambda>d1. Option.bind (mem_write d1 off l)
           (\<lambda>d2. mem_write d2 (off + 4) t))"
proof -
  obtain A L T B C where d: "d = A @ L @ T @ B @ C" "length A = off" "length L = 4"
    "length T = 4" "length B = length b"
    using split_at_frame [OF assms(1)] .
  show ?thesis using d(2-5) assms(2,3) by (simp add: d(1) mem_write_def)
qed


lemma commit_after_fill:
  assumes "length (ring_data ch) = unat (data_size ch)" "unat (write_idx ch mod data_size ch) = off"
    and "off + flen b \<le> unat (data_size ch)" "flen b \<le> k + 8"
  shows "Option.bind (fill_span ch (off + 8, k) b) (\<lambda>c. commit c (length b) mt)
       = put_frame ch (write_idx ch) (write_idx ch mod data_size ch) b mt"
proof -
  have "off + 8 + length b \<le> length (ring_data ch)" using assms by (simp add: flen_def)
  from header_then_body [OF this, of "le32 (frame_len_of b)" "le32 mt"] assms
  show ?thesis
    by (auto simp: fill_span_def commit_def put_frame_def frame_len_of_def flen_def Let_def
        bind_map_option o_def bind_eq_Some_conv bind_eq_None_conv mem_write_def
        split: bind_splits if_splits)
qed

lemma put_frame_Some:
  assumes "length (ring_data ch) = unat (data_size ch)"
    and "unat offset + flen b \<le> unat (data_size ch)"
  shows "\<exists>ch'. put_frame ch w offset b mt = Some ch'"
  using assms by (simp add: put_frame_def mem_write_def flen_def)

lemma write_ptr_room:
  assumes "write_ptr ch r = Some (s, k)"
  shows "s = unat (write_idx ch mod data_size ch) + 8"
    and "k + 8 \<le> unat (data_size ch - (write_idx ch - r))"
    and "k + 8 \<le> unat (data_size ch - write_idx ch mod data_size ch)"
proof -
  define c where
    "c = min (data_size ch - (write_idx ch - r)) (data_size ch - write_idx ch mod data_size ch)"
  have c: "\<not> c \<le> 8" "k = unat (c - 8)" and "s = unat (write_idx ch mod data_size ch) + 8"
    using assms by (auto simp: write_ptr_def Let_def c_def split: if_splits)
  then show "s = unat (write_idx ch mod data_size ch) + 8" by simp
  have "8 \<le> c" using c(1) by simp
  then have "unat (c - 8) = unat c - 8" "8 \<le> unat c"
    by (simp_all add: unat_sub word_le_nat_alt)
  then have "k + 8 = unat c" using c(2) by simp
  then show "k + 8 \<le> unat (data_size ch - (write_idx ch - r))"
    "k + 8 \<le> unat (data_size ch - write_idx ch mod data_size ch)"
    by (auto simp: c_def min_def word_le_nat_alt)
qed

lemma zero_copy_commit:
  assumes "length (ring_data ch) = unat (data_size ch)" "0 < data_size ch"
    and "write_ptr ch r = Some (s, k)" "length b \<le> k" "flen b < 2 ^ 32"
  shows "\<exists>ch1 ch2. fill_span ch (s, k) b = Some ch1 \<and> commit ch1 (length b) mt = Some ch2
           \<and> write_attempt ch r b mt = Written ch2"
proof -
  note room = write_ptr_room [OF assms(3)]
  define off where "off = write_idx ch mod data_size ch"
  have fl: "flen b \<le> k + 8" using assms(4) by (simp add: flen_def)
  have "off < data_size ch" using assms(2) by (simp add: off_def word_mod_less_divisor)
  then have contig: "unat (data_size ch - off) = unat (data_size ch) - unat off"
    "unat off < unat (data_size ch)"
    by (simp_all add: unat_sub word_less_nat_alt less_imp_le)
  then have in_region: "unat off + flen b \<le> unat (data_size ch)"
    using room(3) fl by (simp add: off_def)
  obtain ch2 where put: "put_frame ch (write_idx ch) off b mt = Some ch2"
    using put_frame_Some [OF assms(1) in_region] by blast
  have w: "unat (ucast (frame_len_of b) :: u64) = flen b"
    using assms(5) by (rule unat_frame_len)
  have "write_attempt ch r b mt = Written ch2"
    using room(2,3) fl put w
    by (simp add: write_attempt_def Let_def word_less_nat_alt attempt_of_def flip: off_def)
  moreover have "Option.bind (fill_span ch (s, k) b) (\<lambda>c. commit c (length b) mt) = Some ch2"
    using commit_after_fill [OF assms(1) refl _ fl, of mt] in_region put room(1)
    by (simp add: off_def)
  ultimately show ?thesis by (auto simp: bind_eq_Some_conv)
qed

text \<open>
  Remark. The zero-copy producer is equivalent to the copying one: whenever
  \<open>req_write_ptr\<close> hands out a span, filling its first bytes with a body that fits
  and calling \<open>req_commit\<close> succeeds, stays inside the region and leaves exactly the
  ring a copying write of that body leaves.
\<close>

theorem zero_copy_equiv:
  assumes "length (ring_data ch) = unat (data_size ch)" "0 < data_size ch"
    and "write_ptr ch r = Some (s, k)" "length b \<le> k" "flen b < 2 ^ 32"
  shows "\<exists>ch1 ch2. fill_span ch (s, k) b = Some ch1 \<and> commit ch1 (length b) mt = Some ch2
           \<and> write_attempt ch r b mt = Written ch2"
  by (rule zero_copy_commit [OF assms])

theorem zero_copy_equiv_witness:
  "\<exists>ch1 ch2. fill_span (fresh_ring 32) (8, 24) ''hi'' = Some ch1
     \<and> commit ch1 (length ''hi'') 6 = Some ch2
     \<and> write_attempt (fresh_ring 32) 0 ''hi'' 6 = Written ch2"
  by (rule zero_copy_equiv)
    (simp_all add: fresh_ring_def ring_init_def write_ptr_def flen_def)

end
