(* ===== verification/Config.thy ===== *)
theory Config
  imports Prelude "HOL-Library.AList"
begin

text \<open>
  The shared vocabulary of client and server: the enumerations of
  \<open>rpc/src/general/fields.hpp\<close> and the plain structures of
  \<open>rpc/src/general/publicconfig.hpp\<close>. Enumerations keep the names of the source and,
  as in C++, are qualified by their type where two of them share a name. Signed
  counters and times are unbounded integers; where the code multiplies them the component
  theories prove the bound that keeps the product in 32 bits.

  A nested \<open>unordered_map\<close> is a nested association list: iteration visits the entries
  in list order, which stands for the (unspecified) order of the hash table.
\<close>

subsection \<open>Enumerations\<close>

datatype resp_code =
    SUCCESS | PARSE_FAILED | INVALID_MSGTYPE | INVALID_MSG | CONNECTION_CLOSED
  | INVALID_PARAMS | SERVICE_NOT_FOUND | INVALID_OPTYPE | TOPIC_NOT_FOUND
  | INTERNAL_ERROR | TIMEOUT | BACKOFF

datatype req_type = ASYNC | CALLBACK

datatype topic_optype = CREATE | REMOVE | SUBSCRIBE | UNSUBSCRIBE | PUBLISH

datatype topic_forward_strategy =
    BROADCAST | ROUND_ROBIN | FANOUT | SOURCE_HASH | PRIORITY | REDUNDANT

datatype service_optype =
    REGISTER | DISCOVER | ONLINE | OFFLINE | LOAD_REPORT | HEARTBEAT_PROVIDER | UNKNOWN

datatype load_balance_strategy =
    ROUND_ROBIN | RANDOM | SOURCE_HASH | LOWEST_LOAD | CONSISTENT_HASH

text \<open>The error texts are UTF-8 byte strings.\<close>

definition bytes_of :: "nat list \<Rightarrow> string" where
  "bytes_of = map char_of"

fun errReason :: "resp_code \<Rightarrow> string" where
  "errReason SUCCESS = bytes_of [
     230, 136, 144, 229, 138, 159, 229, 164, 132, 231, 144, 134, 33]"
| "errReason PARSE_FAILED = bytes_of [
     230, 182, 136, 230, 129, 175, 232, 167, 163, 230, 158, 144, 229, 164, 177,
      232, 180, 165, 33]"
| "errReason INVALID_MSGTYPE = bytes_of [
     230, 182, 136, 230, 129, 175, 231, 177, 187, 229, 158, 139, 233, 148, 153,
      232, 175, 175, 33]"
| "errReason INVALID_MSG = bytes_of [
     230, 151, 160, 230, 149, 136, 230, 182, 136, 230, 129, 175]"
| "errReason CONNECTION_CLOSED = bytes_of [
     232, 191, 158, 230, 142, 165, 229, 183, 178, 230, 150, 173, 229, 188, 128, 33]"
| "errReason INVALID_PARAMS = bytes_of [
     230, 151, 160, 230, 149, 136, 231, 154, 132, 82, 112, 99, 229, 143, 130, 230,
      149, 176, 33]"
| "errReason SERVICE_NOT_FOUND = bytes_of [
     230, 178, 161, 230, 156, 137, 230, 137, 190, 229, 136, 176, 229, 175, 185,
      229, 186, 148, 231, 154, 132, 230, 156, 141, 229, 138, 161, 33]"
| "errReason INVALID_OPTYPE = bytes_of [
     230, 151, 160, 230, 149, 136, 231, 154, 132, 230, 147, 141, 228, 189, 156,
      231, 177, 187, 229, 158, 139]"
| "errReason TOPIC_NOT_FOUND = bytes_of [
     230, 178, 161, 230, 156, 137, 230, 137, 190, 229, 136, 176, 229, 175, 185,
      229, 186, 148, 231, 154, 132, 228, 184, 187, 233, 162, 152, 33]"
| "errReason INTERNAL_ERROR = bytes_of [
     229, 134, 133, 233, 131, 168, 233, 148, 153, 232, 175, 175, 33]"
| "errReason TIMEOUT = bytes_of [
     232, 175, 183, 230, 177, 130, 232, 182, 133, 230, 151, 182, 33]"
| "errReason BACKOFF = bytes_of [
     230, 156, 141, 229, 138, 161, 231, 171, 175, 232, 191, 135, 232, 189, 189,
      239, 188, 140, 232, 175, 183, 233, 128, 128, 233, 129, 191, 233, 135, 141,
      232, 175, 149, 33]"

subsection \<open>Hosts\<close>

type_synonym host_info = "string \<times> int"

record host_detail =
  hd_host :: host_info
  hd_load :: int

definition digit_char :: "nat \<Rightarrow> char" where
  "digit_char d = char_of (48 + d)"

fun dec_nat :: "nat \<Rightarrow> string" where
  "dec_nat n = (if n < 10 then [digit_char n] else dec_nat (n div 10) @ [digit_char (n mod 10)])"

declare dec_nat.simps [simp del]

text \<open>\<open>std::to_string\<close> of a signed integer.\<close>

definition to_string :: "int \<Rightarrow> string" where
  "to_string i = (if i < 0 then CHR ''-'' # dec_nat (nat (- i)) else dec_nat (nat i))"

definition hostKey :: "host_info \<Rightarrow> string" where
  "hostKey h = fst h @ '':'' @ to_string (snd h)"

subsection \<open>Failure classification\<close>

datatype rpc_error = OK | TIMEOUT | CONN_CLOSED | CIRCUIT_OPEN | BACKOFF | SERVICE_ERROR

definition isRetryable :: "rpc_error \<Rightarrow> bool" where
  "isRetryable e \<longleftrightarrow>
     e = rpc_error.TIMEOUT \<or> e = CONN_CLOSED \<or> e = CIRCUIT_OPEN \<or> e = rpc_error.BACKOFF"

subsection \<open>Host keys are unambiguous\<close>

definition undigit :: "char \<Rightarrow> nat" where
  "undigit c = of_char c - 48"

definition undec :: "string \<Rightarrow> nat" where
  "undec s = foldl (\<lambda>a c. 10 * a + undigit c) 0 s"

lemma undigit_digit [simp]: "d < 10 \<Longrightarrow> undigit (digit_char d) = d"
  by (simp add: undigit_def digit_char_def)

lemma undec_dec [simp]: "undec (dec_nat n) = n"
proof (induction n rule: dec_nat.induct)
  case (1 n)
  then show ?case by (subst dec_nat.simps) (auto simp: undec_def)
qed

lemma set_dec_nat: "set (dec_nat n) \<subseteq> digit_char ` {..< 10}"
proof (induction n rule: dec_nat.induct)
  case (1 n)
  then show ?case by (subst dec_nat.simps) auto
qed

lemma digit_char_neq:
  assumes "d < 10"
  shows "digit_char d \<noteq> CHR '':''" "digit_char d \<noteq> CHR ''-''"
proof -
  have "of_char (digit_char d) = 48 + d" using assms by (simp add: digit_char_def)
  then show "digit_char d \<noteq> CHR '':''" "digit_char d \<noteq> CHR ''-''"
    using assms by (auto dest: arg_cong [where f = "of_char :: char \<Rightarrow> nat"])
qed

lemma dec_nat_no_colon: "CHR '':'' \<notin> set (dec_nat n)"
  using set_dec_nat [of n] digit_char_neq(1) by fastforce

lemma to_string_no_colon: "CHR '':'' \<notin> set (to_string i)"
  by (simp add: to_string_def dec_nat_no_colon)

lemma dec_nat_no_minus: "dec_nat n \<noteq> CHR ''-'' # s"
proof
  assume "dec_nat n = CHR ''-'' # s"
  then have "CHR ''-'' \<in> set (dec_nat n)" by simp
  then show False using set_dec_nat [of n] digit_char_neq(2) by fastforce
qed

lemma dec_nat_inj: "dec_nat a = dec_nat b \<longleftrightarrow> a = b"
  by (metis undec_dec)

lemma to_string_inj: "to_string i = to_string j \<longleftrightarrow> i = j"
  using dec_nat_no_minus dec_nat_no_minus [symmetric]
  by (auto simp: to_string_def dec_nat_inj split: if_splits)

lemma append_sep_inj:
  assumes "c \<notin> set s" "c \<notin> set t" "a @ c # s = b @ c # t"
  shows "a = b \<and> s = t"
  using assms by (auto simp: append_eq_append_conv2 append_eq_Cons_conv Cons_eq_append_conv)

lemma hostKey_eq_iff: "hostKey h = hostKey h' \<longleftrightarrow> h = h'"
proof
  assume "hostKey h = hostKey h'"
  then have "fst h @ CHR '':'' # to_string (snd h) = fst h' @ CHR '':'' # to_string (snd h')"
    by (simp add: hostKey_def)
  from append_sep_inj [OF to_string_no_colon to_string_no_colon this]
  show "h = h'" by (auto simp: to_string_inj prod_eq_iff)
qed simp

subsection \<open>Searching in strings\<close>

text \<open>The last position of a character and the first position of a text, as \<open>std::string\<close> finds them.\<close>

definition rfind :: "char \<Rightarrow> string \<Rightarrow> nat option" where
  "rfind c s = (if c \<in> set s then Some (length s - 1 - length (takeWhile (\<lambda>d. d \<noteq> c) (rev s))) else None)"

fun find_sub :: "string \<Rightarrow> string \<Rightarrow> nat option" where
  "find_sub pat [] = (if pat = [] then Some 0 else None)"
| "find_sub pat (c # cs) = (if take (length pat) (c # cs) = pat then Some 0 else map_option Suc (find_sub pat cs))"

lemma takeWhile_sep: "c \<notin> set a \<Longrightarrow> takeWhile (\<lambda>x. x \<noteq> c) (a @ c # r) = a"
  by (subst takeWhile_append2) auto

text \<open>The order of byte strings.\<close>

fun bytes_less :: "string \<Rightarrow> string \<Rightarrow> bool" where
  "bytes_less s [] = False"
| "bytes_less [] (b # t) = True"
| "bytes_less (a # s) (b # t) = ((of_char a :: nat) < of_char b \<or> a = b \<and> bytes_less s t)"

subsection \<open>Reading numbers\<close>

text \<open>\<open>std::atoi\<close>, for numbers in range.\<close>

definition is_digit :: "char \<Rightarrow> bool" where
  "is_digit c \<longleftrightarrow> (48::nat) \<le> of_char c \<and> (of_char c :: nat) \<le> 57"

definition is_space :: "char \<Rightarrow> bool" where
  "is_space c \<longleftrightarrow> (of_char c :: nat) = 32 \<or> (9::nat) \<le> of_char c \<and> (of_char c :: nat) \<le> 13"

definition atoi_digits :: "string \<Rightarrow> int" where
  "atoi_digits s = foldl (\<lambda>n c. 10 * n + (of_char c - 48)) 0 (takeWhile is_digit s)"

definition atoi :: "string \<Rightarrow> int" where
  "atoi s =
     (case dropWhile is_space s of
        [] \<Rightarrow> 0
      | c # cs \<Rightarrow> if c = CHR ''-'' then - atoi_digits cs else if c = CHR ''+'' then atoi_digits cs else atoi_digits (c # cs))"

text \<open>\<open>std::stoi\<close> and \<open>std::stoll\<close>: \<^const>\<open>None\<close> is the exception for no digits or a number out of range.\<close>

definition signed_digits :: "string \<Rightarrow> bool \<times> string" where
  "signed_digits s =
     (case dropWhile is_space s of
        [] \<Rightarrow> (False, [])
      | c # cs \<Rightarrow> if c = CHR ''-'' then (True, cs) else if c = CHR ''+'' then (False, cs) else (False, c # cs))"

definition sto_range :: "nat \<Rightarrow> string \<Rightarrow> int option" where
  "sto_range w s =
     (let (neg, ds) = signed_digits s; n = (if neg then - atoi_digits ds else atoi_digits ds) in
      if takeWhile is_digit ds = [] then None
      else if - (2 ^ (w - 1)) \<le> n \<and> n < 2 ^ (w - 1) then Some n else None)"

definition stoi :: "string \<Rightarrow> int option" where
  "stoi s = sto_range 32 s"

definition stoll :: "string \<Rightarrow> int option" where
  "stoll s = sto_range 64 s"

lemma dec_nat_digits: "set (dec_nat n) \<subseteq> {c. is_digit c}"
  using set_dec_nat [of n] by (auto simp: is_digit_def digit_char_def)

lemma dec_nat_nonempty: "dec_nat n \<noteq> []"
  by (subst dec_nat.simps) simp

lemma takeWhile_dec: "takeWhile is_digit (dec_nat n) = dec_nat n"
  using dec_nat_digits [of n] by (auto simp: takeWhile_eq_all_conv)

lemma atoi_digits_dec: "atoi_digits (dec_nat n) = int n"
proof -
  have "foldl (\<lambda>n c. 10 * n + (of_char c - 48)) (int a) s = int (foldl (\<lambda>a c. 10 * a + undigit c) a s)"
    if "set s \<subseteq> {c. is_digit c}" for a s
    using that
  proof (induction s arbitrary: a)
    case (Cons c s)
    have "10 * int a + (of_char c - 48) = int (10 * a + undigit c)"
      using Cons.prems by (simp add: undigit_def is_digit_def of_nat_diff of_nat_of_char)
    then show ?case using Cons by (simp del: of_nat_add of_nat_mult)
  qed simp
  from this [of "dec_nat n" 0] show ?thesis
    using dec_nat_digits [of n] undec_dec [of n] by (simp add: atoi_digits_def takeWhile_dec undec_def)
qed

lemma digit_not_sign:
  assumes "is_digit c"
  shows "\<not> is_space c" "c \<noteq> CHR ''-''" "c \<noteq> CHR ''+''"
  using assms by (auto simp: is_digit_def is_space_def)

lemma signed_digits_to_string: "signed_digits (to_string i) = (i < 0, dec_nat (nat \<bar>i\<bar>))"
proof -
  obtain c cs where d: "dec_nat (nat \<bar>i\<bar>) = c # cs" using dec_nat_nonempty by (meson neq_Nil_conv)
  then have "is_digit c" using dec_nat_digits [of "nat \<bar>i\<bar>"] by auto
  moreover have "\<not> is_space (CHR ''-'')" by (simp add: is_space_def)
  ultimately show ?thesis using d digit_not_sign [of c] by (auto simp: signed_digits_def to_string_def)
qed

lemma sto_to_string: "- (2 ^ (w - 1)) \<le> i \<Longrightarrow> i < 2 ^ (w - 1) \<Longrightarrow> sto_range w (to_string i) = Some i"
  by (auto simp: sto_range_def signed_digits_to_string takeWhile_dec dec_nat_nonempty atoi_digits_dec)

subsection \<open>Host keys as table keys\<close>

text \<open>
  Remark. The string key of a host (under which the client keeps its connection pool and
  its circuit breakers) determines the host: no two different address and port pairs share a key,
  even for addresses that contain colons.
\<close>

theorem hostKey_inj: "hostKey h = hostKey h' \<longleftrightarrow> h = h'"
  by (rule hostKey_eq_iff)

subsection \<open>Nested association lists\<close>

type_synonym ('a, 'b, 'v) nmap = "('a \<times> ('b \<times> 'v) list) list"

definition nm_get :: "('a, 'b, 'v) nmap \<Rightarrow> 'a \<Rightarrow> 'b \<Rightarrow> 'v option" where
  "nm_get m a b = (case map_of m a of None \<Rightarrow> None | Some inner \<Rightarrow> map_of inner b)"

definition nm_inner :: "('a, 'b, 'v) nmap \<Rightarrow> 'a \<Rightarrow> ('b \<times> 'v) list" where
  "nm_inner m a = (case map_of m a of None \<Rightarrow> [] | Some inner \<Rightarrow> inner)"

definition nm_put :: "('a, 'b, 'v) nmap \<Rightarrow> 'a \<Rightarrow> 'b \<Rightarrow> 'v \<Rightarrow> ('a, 'b, 'v) nmap" where
  "nm_put m a b v = AList.update a (AList.update b v (nm_inner m a)) m"

lemma nm_get_inner: "nm_get m a b = map_of (nm_inner m a) b"
  by (simp add: nm_get_def nm_inner_def split: option.splits)

lemma nm_get_put [simp]:
  "nm_get (nm_put m a b v) a' b' = (if a' = a \<and> b' = b then Some v else nm_get m a' b')"
  by (auto simp: nm_put_def nm_get_def nm_inner_def update_conv' split: option.splits)

end
