(* ===== verification/Json_Api.thy ===== *)
theory Json_Api
  imports Config "HOL-Library.Monad_Syntax"
begin

text \<open>
  The JSON library as the sources use it. A value is of an arbitrary type; the operations the
  program calls are the fields of a record that every definition takes as an argument. An
  operation that throws returns \<^const>\<open>None\<close>. The locale \<open>json_api\<close> states the
  documented behaviour the program relies on, and a tree of values with the same
  operations satisfies it.
\<close>

record 'j json_lib =
  j_null :: 'j
  j_object :: 'j
  j_array :: 'j
  j_int :: "int \<Rightarrow> 'j"
  j_str :: "string \<Rightarrow> 'j"
  j_isNull :: "'j \<Rightarrow> bool"
  j_isString :: "'j \<Rightarrow> bool"
  j_isIntegral :: "'j \<Rightarrow> bool"
  j_isNumeric :: "'j \<Rightarrow> bool"
  j_isBool :: "'j \<Rightarrow> bool"
  j_isObject :: "'j \<Rightarrow> bool"
  j_isArray :: "'j \<Rightarrow> bool"
  j_asInt :: "'j \<Rightarrow> int option"
  j_asInt64 :: "'j \<Rightarrow> int option"
  j_asString :: "'j \<Rightarrow> string option"
  j_find :: "'j \<Rightarrow> string \<Rightarrow> 'j option option"
  j_put :: "'j \<Rightarrow> string \<Rightarrow> 'j \<Rightarrow> 'j option"
  j_size :: "'j \<Rightarrow> nat"
  j_at :: "'j \<Rightarrow> nat \<Rightarrow> 'j option"
  j_append :: "'j \<Rightarrow> 'j \<Rightarrow> 'j option"
  j_write :: "'j \<Rightarrow> string option"
  j_parse :: "string \<Rightarrow> 'j option"

text \<open>\<open>value[key]\<close> of a constant value and \<open>value.get(key, default)\<close>.\<close>

definition j_get :: "'j json_lib \<Rightarrow> 'j \<Rightarrow> string \<Rightarrow> 'j \<Rightarrow> 'j option" where
  "j_get L d k dflt = map_option (\<lambda>r. case r of None \<Rightarrow> dflt | Some v \<Rightarrow> v) (j_find L d k)"

definition j_index :: "'j json_lib \<Rightarrow> 'j \<Rightarrow> string \<Rightarrow> 'j option" where
  "j_index L d k = j_get L d k (j_null L)"

text \<open>The elements a loop over an array visits.\<close>

definition j_elems :: "'j json_lib \<Rightarrow> 'j \<Rightarrow> 'j list option" where
  "j_elems L a = those (map (j_at L a) [0..<j_size L a])"

text \<open>Appending the values of a vector to an array, one by one.\<close>

fun j_append_all :: "'j json_lib \<Rightarrow> 'j \<Rightarrow> 'j list \<Rightarrow> 'j option" where
  "j_append_all L a [] = Some a"
| "j_append_all L a (v # vs) = do { a' \<leftarrow> j_append L a v; j_append_all L a' vs }"

definition in_int32 :: "int \<Rightarrow> bool" where
  "in_int32 i \<longleftrightarrow> - (2 ^ 31) \<le> i \<and> i < 2 ^ 31"

subsection \<open>The laws\<close>

locale json_api =
  fixes L :: "'j json_lib"
  assumes null_kind: "j_isNull L (j_null L)" "j_isObject L (j_object L)" "j_isArray L (j_array L)"
    and isNull: "j_isNull L v \<longleftrightarrow> v = j_null L"
    and str_kind: "j_isString L (j_str L s)" and int_kind: "j_isIntegral L (j_int L i)"
    and string_not_null: "j_isString L v \<Longrightarrow> v \<noteq> j_null L"
    and integral_not_null: "j_isIntegral L v \<Longrightarrow> v \<noteq> j_null L"
    and object_not_null: "j_isObject L v \<Longrightarrow> v \<noteq> j_null L"
    and array_not_null: "j_isArray L v \<Longrightarrow> v \<noteq> j_null L"
    and asString: "j_asString L (j_str L s) = Some s"
    and string_reads: "j_isString L v \<Longrightarrow> j_asString L v \<noteq> None"
    and asInt: "in_int32 i \<Longrightarrow> j_asInt L (j_int L i) = Some i"
    and asInt64: "in_int32 i \<Longrightarrow> j_asInt64 L (j_int L i) = Some i"
    and find_null: "j_find L (j_null L) k = Some None"
    and find_object: "j_find L d k \<noteq> None \<longleftrightarrow> j_isObject L d \<or> d = j_null L"
    and find_empty: "j_find L (j_object L) k = Some None"
    and put_object: "j_isObject L d \<or> d = j_null L \<Longrightarrow> \<exists>d'. j_put L d k v = Some d' \<and> j_isObject L d'"
    and find_put: "j_put L d k v = Some d' \<Longrightarrow> j_find L d' k' = (if k' = k then Some (Some v) else j_find L d k')"
    and array_at: "j_isArray L a \<Longrightarrow> n < j_size L a \<Longrightarrow> j_at L a n \<noteq> None"
    and size_empty: "j_size L (j_array L) = 0"
    and append_array: "j_isArray L a \<Longrightarrow> \<exists>a'. j_append L a v = Some a' \<and> j_isArray L a'"
    and size_append: "j_append L a v = Some a' \<Longrightarrow> j_size L a' = Suc (j_size L a)"
    and at_append: "j_append L a v = Some a' \<Longrightarrow> n \<le> j_size L a \<Longrightarrow>
      j_at L a' n = (if n = j_size L a then Some v else j_at L a n)"
begin

lemma index_put: "j_put L d k v = Some d' \<Longrightarrow> j_index L d' k' = (if k' = k then Some v else j_index L d k')"
  by (simp add: j_index_def j_get_def find_put)

lemma get_put: "j_put L d k v = Some d' \<Longrightarrow> j_get L d' k' w = (if k' = k then Some v else j_get L d k' w)"
  by (simp add: j_get_def find_put)

lemma elems_append:
  assumes "j_append L a v = Some a'" "j_elems L a = Some vs"
  shows "j_elems L a' = Some (vs @ [v])"
proof -
  have m: "map (j_at L a') [0..<j_size L a] = map (j_at L a) [0..<j_size L a]"
    using at_append [OF assms(1)] by simp
  moreover have "j_at L a' (j_size L a) = Some v" using at_append [OF assms(1)] by simp
  moreover have "those (xs @ [Some v]) = Some (vs @ [v])" if "those xs = Some vs" for xs
    using that by (induction xs arbitrary: vs) (auto split: option.splits)
  ultimately show ?thesis using assms(2) by (simp add: j_elems_def size_append [OF assms(1)] m del: map_eq_conv)
qed

lemma append_all_elems:
  assumes "j_isArray L a" "j_elems L a = Some us"
  shows "\<exists>a'. j_append_all L a vs = Some a' \<and> j_isArray L a' \<and> j_elems L a' = Some (us @ vs)"
  using assms
proof (induction vs arbitrary: a us)
  case (Cons v vs)
  obtain a1 where "j_append L a v = Some a1" "j_isArray L a1" using append_array [OF Cons.prems(1)] by blast
  with Cons.IH [OF this(2) elems_append [OF this(1) Cons.prems(2)]] show ?case by simp
qed simp

lemma elems_array: "j_isArray L a \<Longrightarrow> j_elems L a \<noteq> None"
proof -
  have "those xs \<noteq> None" if "\<forall>x \<in> set xs. x \<noteq> None" for xs :: "'j option list"
    using that by (induction xs) (auto split: option.splits)
  then show "j_isArray L a \<Longrightarrow> j_elems L a \<noteq> None" using array_at unfolding j_elems_def by auto
qed

lemma array_of_list:
  "\<exists>a. j_append_all L (j_array L) vs = Some a \<and> j_isArray L a \<and> j_elems L a = Some vs"
  using append_all_elems [OF null_kind(3), of "[]" vs] by (simp add: j_elems_def size_empty)

end

subsection \<open>A tree of values\<close>

datatype json = JNull | JBool bool | JInt int | JReal int nat | JString string | JArray "json list"
  | JObject "(string \<times> json) list"

fun tree_find :: "json \<Rightarrow> string \<Rightarrow> json option option" where
  "tree_find JNull k = Some None"
| "tree_find (JObject m) k = Some (map_of m k)"
| "tree_find _ k = None"

fun tree_put :: "json \<Rightarrow> string \<Rightarrow> json \<Rightarrow> json option" where
  "tree_put JNull k v = Some (JObject [(k, v)])"
| "tree_put (JObject m) k v = Some (JObject (AList.update k v m))"
| "tree_put _ k v = None"

fun tree_size :: "json \<Rightarrow> nat" where
  "tree_size (JArray vs) = length vs"
| "tree_size (JObject m) = length m"
| "tree_size _ = 0"

fun tree_at :: "json \<Rightarrow> nat \<Rightarrow> json option" where
  "tree_at (JArray vs) i = Some (if i < length vs then vs ! i else JNull)"
| "tree_at JNull i = Some JNull"
| "tree_at _ i = None"

fun tree_append :: "json \<Rightarrow> json \<Rightarrow> json option" where
  "tree_append (JArray vs) v = Some (JArray (vs @ [v]))"
| "tree_append JNull v = Some (JArray [v])"
| "tree_append _ v = None"

fun tree_asInt :: "json \<Rightarrow> int option" where
  "tree_asInt JNull = Some 0"
| "tree_asInt (JBool b) = Some (of_bool b)"
| "tree_asInt (JInt i) = (if in_int32 i then Some i else None)"
| "tree_asInt _ = None"

fun tree_asInt64 :: "json \<Rightarrow> int option" where
  "tree_asInt64 JNull = Some 0"
| "tree_asInt64 (JBool b) = Some (of_bool b)"
| "tree_asInt64 (JInt i) = (if - (2 ^ 63) \<le> i \<and> i < 2 ^ 63 then Some i else None)"
| "tree_asInt64 _ = None"

fun tree_asString :: "json \<Rightarrow> string option" where
  "tree_asString JNull = Some []"
| "tree_asString (JBool b) = Some (if b then ''true'' else ''false'')"
| "tree_asString (JInt i) = Some (to_string i)"
| "tree_asString (JString s) = Some s"
| "tree_asString _ = None"

definition json_tree :: "(json \<Rightarrow> string option) \<Rightarrow> (string \<Rightarrow> json option) \<Rightarrow> json json_lib" where
  "json_tree wr pa = \<lparr>j_null = JNull, j_object = JObject [], j_array = JArray [], j_int = JInt, j_str = JString,
     j_isNull = (\<lambda>v. v = JNull), j_isString = (\<lambda>v. case v of JString _ \<Rightarrow> True | _ \<Rightarrow> False),
     j_isIntegral = (\<lambda>v. case v of JInt _ \<Rightarrow> True | _ \<Rightarrow> False),
     j_isNumeric = (\<lambda>v. case v of JInt _ \<Rightarrow> True | JReal _ _ \<Rightarrow> True | _ \<Rightarrow> False),
     j_isBool = (\<lambda>v. case v of JBool _ \<Rightarrow> True | _ \<Rightarrow> False),
     j_isObject = (\<lambda>v. case v of JObject _ \<Rightarrow> True | _ \<Rightarrow> False),
     j_isArray = (\<lambda>v. case v of JArray _ \<Rightarrow> True | _ \<Rightarrow> False),
     j_asInt = tree_asInt, j_asInt64 = tree_asInt64, j_asString = tree_asString,
     j_find = tree_find, j_put = tree_put, j_size = tree_size, j_at = tree_at, j_append = tree_append,
     j_write = wr, j_parse = pa\<rparr>"

interpretation jt: json_api "json_tree wr pa"
proof unfold_locales
  let ?L = "json_tree wr pa"
  show "j_find ?L d k \<noteq> None \<longleftrightarrow> j_isObject ?L d \<or> d = j_null ?L" for d k
    by (cases d) (simp_all add: json_tree_def)
  show "\<exists>d'. j_put ?L d k v = Some d' \<and> j_isObject ?L d'" if "j_isObject ?L d \<or> d = j_null ?L" for d k v
    using that by (cases d) (simp_all add: json_tree_def)
  show "j_find ?L d' k' = (if k' = k then Some (Some v) else j_find ?L d k')" if "j_put ?L d k v = Some d'" for d k v d' k'
    using that by (cases d) (auto simp: json_tree_def update_conv')
  show "\<exists>a'. j_append ?L a v = Some a' \<and> j_isArray ?L a'" if "j_isArray ?L a" for a v
    using that by (cases a) (simp_all add: json_tree_def)
  show "j_size ?L a' = Suc (j_size ?L a)" if "j_append ?L a v = Some a'" for a v a'
    using that by (cases a) (auto simp: json_tree_def)
  show "j_at ?L a' i = (if i = j_size ?L a then Some v else j_at ?L a i)"
    if "j_append ?L a v = Some a'" "i \<le> j_size ?L a" for a v a' i
    using that by (cases a) (auto simp: json_tree_def nth_append)
  show "j_at ?L a n \<noteq> None" if "j_isArray ?L a" "n < j_size ?L a" for a n
    using that by (cases a) (simp_all add: json_tree_def)
  show "j_asString ?L v \<noteq> None" if "j_isString ?L v" for v
    using that by (cases v) (simp_all add: json_tree_def)
qed (auto simp: json_tree_def in_int32_def split: json.splits)

end
