(* ===== verification/Json_Messages.thy ===== *)
theory Json_Messages
  imports Json_Api
begin

text \<open>
  The JSON message classes of \<open>rpc/src/general/message.hpp\<close>: the accessors, the setters
  and the validity check of each class, over the JSON library of \<open>Json_Api\<close>. A
  message is its JSON value and its id. A function returns \<^const>\<open>None\<close> when an
  exception of the library leaves it. The null members that reading with the mutable index
  operator leaves behind read like missing ones and are not represented.
\<close>

subsection \<open>Enumerations on the wire\<close>

fun topic_optype_code :: "topic_optype \<Rightarrow> int" where
  "topic_optype_code CREATE = 0"
| "topic_optype_code REMOVE = 1"
| "topic_optype_code SUBSCRIBE = 2"
| "topic_optype_code UNSUBSCRIBE = 3"
| "topic_optype_code PUBLISH = 4"

fun strategy_code :: "topic_forward_strategy \<Rightarrow> int" where
  "strategy_code BROADCAST = 0"
| "strategy_code topic_forward_strategy.ROUND_ROBIN = 1"
| "strategy_code FANOUT = 2"
| "strategy_code topic_forward_strategy.SOURCE_HASH = 3"
| "strategy_code PRIORITY = 4"
| "strategy_code REDUNDANT = 5"

fun service_optype_code :: "service_optype \<Rightarrow> int" where
  "service_optype_code REGISTER = 0"
| "service_optype_code DISCOVER = 1"
| "service_optype_code ONLINE = 2"
| "service_optype_code OFFLINE = 3"
| "service_optype_code LOAD_REPORT = 4"
| "service_optype_code HEARTBEAT_PROVIDER = 5"
| "service_optype_code UNKNOWN = 6"

text \<open>A number outside the enumeration matches no case of a switch.\<close>

definition strategy_of :: "int \<Rightarrow> topic_forward_strategy option" where
  "strategy_of i = (if i = 0 then Some BROADCAST else if i = 1 then Some topic_forward_strategy.ROUND_ROBIN
     else if i = 2 then Some FANOUT else if i = 3 then Some topic_forward_strategy.SOURCE_HASH
     else if i = 4 then Some PRIORITY else if i = 5 then Some REDUNDANT else None)"

definition topic_optype_of :: "int \<Rightarrow> topic_optype option" where
  "topic_optype_of i = (if i = 0 then Some CREATE else if i = 1 then Some REMOVE else if i = 2 then Some SUBSCRIBE
     else if i = 3 then Some UNSUBSCRIBE else if i = 4 then Some PUBLISH else None)"

definition service_optype_of :: "int \<Rightarrow> service_optype option" where
  "service_optype_of i = (if i = 0 then Some REGISTER else if i = 1 then Some DISCOVER else if i = 2 then Some ONLINE
     else if i = 3 then Some OFFLINE else if i = 4 then Some LOAD_REPORT else if i = 5 then Some HEARTBEAT_PROVIDER
     else if i = 6 then Some UNKNOWN else None)"

lemma strategy_of_code [simp]: "strategy_of (strategy_code st) = Some st"
  by (cases st) (simp_all add: strategy_of_def)

lemma topic_optype_of_code [simp]: "topic_optype_of (topic_optype_code op) = Some op"
  by (cases op) (simp_all add: topic_optype_of_def)

lemma service_optype_of_code [simp]: "service_optype_of (service_optype_code op) = Some op"
  by (cases op) (simp_all add: service_optype_of_def)

definition KEY_METHOD :: string where "KEY_METHOD = ''method''"
definition KEY_PARAMS :: string where "KEY_PARAMS = ''parameters''"
definition KEY_TOPIC_KEY :: string where "KEY_TOPIC_KEY = ''topic_key''"
definition KEY_TOPIC_MSG :: string where "KEY_TOPIC_MSG = ''topic_msg''"
definition KEY_OPTYPE :: string where "KEY_OPTYPE = ''optype''"
definition KEY_HOST :: string where "KEY_HOST = ''host''"
definition KEY_HOST_IP :: string where "KEY_HOST_IP = ''ip''"
definition KEY_HOST_PORT :: string where "KEY_HOST_PORT = ''port''"
definition KEY_RCODE :: string where "KEY_RCODE = ''rcode''"
definition KEY_RESULT :: string where "KEY_RESULT = ''result''"
definition KEY_RETRY_AFTER_MS :: string where "KEY_RETRY_AFTER_MS = ''retry_after_ms''"
definition KEY_TRACE_ID :: string where "KEY_TRACE_ID = ''trace_id''"
definition KEY_SPAN_ID :: string where "KEY_SPAN_ID = ''span_id''"
definition KEY_LOAD :: string where "KEY_LOAD = ''load''"
definition KEY_TOPIC_FORWARD :: string where "KEY_TOPIC_FORWARD = ''forward_strategy''"
definition KEY_TOPIC_PRIORITY :: string where "KEY_TOPIC_PRIORITY = ''priority''"
definition KEY_TOPIC_TAGS :: string where "KEY_TOPIC_TAGS = ''tags''"
definition KEY_TOPIC_FANOUT :: string where "KEY_TOPIC_FANOUT = ''fanout''"
definition KEY_TOPIC_SHARD_KEY :: string where "KEY_TOPIC_SHARD_KEY = ''shard_key''"
definition KEY_TOPIC_REDUNDANT :: string where "KEY_TOPIC_REDUNDANT = ''redundant''"

lemmas keys = KEY_METHOD_def KEY_PARAMS_def KEY_TOPIC_KEY_def KEY_TOPIC_MSG_def KEY_OPTYPE_def KEY_HOST_def
  KEY_HOST_IP_def KEY_HOST_PORT_def KEY_RCODE_def KEY_RESULT_def KEY_RETRY_AFTER_MS_def KEY_TRACE_ID_def
  KEY_SPAN_ID_def KEY_LOAD_def KEY_TOPIC_FORWARD_def KEY_TOPIC_PRIORITY_def KEY_TOPIC_TAGS_def
  KEY_TOPIC_FANOUT_def KEY_TOPIC_SHARD_KEY_def KEY_TOPIC_REDUNDANT_def

subsection \<open>Base classes\<close>

definition get_str :: "'j json_lib \<Rightarrow> 'j \<Rightarrow> string \<Rightarrow> string option" where
  "get_str L d k = do { v \<leftarrow> j_index L d k; j_asString L v }"

definition get_int :: "'j json_lib \<Rightarrow> 'j \<Rightarrow> string \<Rightarrow> int option" where
  "get_int L d k = do { v \<leftarrow> j_index L d k; j_asInt L v }"

definition get_str_or :: "'j json_lib \<Rightarrow> 'j \<Rightarrow> string \<Rightarrow> string \<Rightarrow> string option" where
  "get_str_or L d k s = do { v \<leftarrow> j_get L d k (j_str L s); j_asString L v }"

definition get_int_or :: "'j json_lib \<Rightarrow> 'j \<Rightarrow> string \<Rightarrow> int \<Rightarrow> int option" where
  "get_int_or L d k i = do { v \<leftarrow> j_get L d k (j_int L i); j_asInt L v }"

definition JsonMessage_serialize :: "'j json_lib \<Rightarrow> 'j \<Rightarrow> string \<Rightarrow> string option" where
  "JsonMessage_serialize L d rid = do {
     copy \<leftarrow> (if rid \<noteq> [] then j_put L d ''id'' (j_str L rid) else Some d);
     Some (case j_write L copy of None \<Rightarrow> [] | Some out \<Rightarrow> out) }"

text \<open>The result is the flag returned, the value and the id afterwards.\<close>

definition JsonMessage_unserialize :: "'j json_lib \<Rightarrow> 'j \<Rightarrow> string \<Rightarrow> string \<Rightarrow> (bool \<times> 'j \<times> string) option" where
  "JsonMessage_unserialize L d rid msg =
     (case j_parse L msg of
        None \<Rightarrow> Some (False, d, rid)
      | Some v \<Rightarrow>
          if j_isObject L v then do {
            m \<leftarrow> j_find L v ''id'';
            (case m of None \<Rightarrow> Some (True, v, rid)
             | Some idv \<Rightarrow> do { s \<leftarrow> j_asString L idv; Some (True, v, s) }) }
          else Some (True, v, rid))"

definition JsonRequest_method :: "'j json_lib \<Rightarrow> 'j \<Rightarrow> string option" where
  "JsonRequest_method L d = get_str L d KEY_METHOD"

definition JsonRequest_setMethod :: "'j json_lib \<Rightarrow> 'j \<Rightarrow> string \<Rightarrow> 'j option" where
  "JsonRequest_setMethod L d m = j_put L d KEY_METHOD (j_str L m)"

definition JsonRequest_trace_id :: "'j json_lib \<Rightarrow> 'j \<Rightarrow> string option" where
  "JsonRequest_trace_id L d = get_str_or L d KEY_TRACE_ID []"

definition JsonRequest_setTraceId :: "'j json_lib \<Rightarrow> 'j \<Rightarrow> string \<Rightarrow> 'j option" where
  "JsonRequest_setTraceId L d t = j_put L d KEY_TRACE_ID (j_str L t)"

definition JsonRequest_span_id :: "'j json_lib \<Rightarrow> 'j \<Rightarrow> string option" where
  "JsonRequest_span_id L d = get_str_or L d KEY_SPAN_ID []"

definition JsonRequest_setSpanId :: "'j json_lib \<Rightarrow> 'j \<Rightarrow> string \<Rightarrow> 'j option" where
  "JsonRequest_setSpanId L d s = j_put L d KEY_SPAN_ID (j_str L s)"

definition JsonResponse_check :: "'j json_lib \<Rightarrow> 'j \<Rightarrow> bool option" where
  "JsonResponse_check L d = do {
     m \<leftarrow> j_find L d KEY_RCODE;
     Some (case m of None \<Rightarrow> False | Some v \<Rightarrow> j_isIntegral L v) }"

definition JsonResponse_rcode :: "'j json_lib \<Rightarrow> 'j \<Rightarrow> int option" where
  "JsonResponse_rcode L d = get_int L d KEY_RCODE"

definition JsonResponse_setRcode :: "'j json_lib \<Rightarrow> 'j \<Rightarrow> int \<Rightarrow> 'j option" where
  "JsonResponse_setRcode L d rc = j_put L d KEY_RCODE (j_int L rc)"

definition JsonResponse_result :: "'j json_lib \<Rightarrow> 'j \<Rightarrow> 'j option" where
  "JsonResponse_result L d = j_index L d KEY_RESULT"

definition JsonResponse_setResult :: "'j json_lib \<Rightarrow> 'j \<Rightarrow> 'j \<Rightarrow> 'j option" where
  "JsonResponse_setResult L d r = j_put L d KEY_RESULT r"

definition JsonResponse_retryAfterMs :: "'j json_lib \<Rightarrow> 'j \<Rightarrow> int option" where
  "JsonResponse_retryAfterMs L d = do { v \<leftarrow> j_get L d KEY_RETRY_AFTER_MS (j_int L 0); j_asInt64 L v }"

definition JsonResponse_setRetryAfterMs :: "'j json_lib \<Rightarrow> 'j \<Rightarrow> int \<Rightarrow> 'j option" where
  "JsonResponse_setRetryAfterMs L d ms = j_put L d KEY_RETRY_AFTER_MS (j_int L ms)"

subsection \<open>RPC\<close>

definition RpcRequest_check :: "'j json_lib \<Rightarrow> 'j \<Rightarrow> bool option" where
  "RpcRequest_check L d = do {
     m \<leftarrow> j_index L d KEY_METHOD;
     if \<not> j_isString L m \<or> j_isNull L m then Some False
     else do {
       p \<leftarrow> j_index L d KEY_PARAMS;
       Some (\<not> (\<not> j_isObject L p \<or> j_isNull L p)) } }"

definition RpcRequest_params :: "'j json_lib \<Rightarrow> 'j \<Rightarrow> 'j option" where
  "RpcRequest_params L d = j_index L d KEY_PARAMS"

definition RpcRequest_setParams :: "'j json_lib \<Rightarrow> 'j \<Rightarrow> 'j \<Rightarrow> 'j option" where
  "RpcRequest_setParams L d p = j_put L d KEY_PARAMS p"

definition RpcResponse_check :: "'j json_lib \<Rightarrow> 'j \<Rightarrow> bool option" where
  "RpcResponse_check L d = do {
     rc \<leftarrow> j_index L d KEY_RCODE;
     if \<not> j_isIntegral L rc \<or> j_isNull L rc then Some False
     else do {
       r \<leftarrow> j_index L d KEY_RESULT;
       Some (\<not> j_isNull L r) } }"

subsection \<open>Topics\<close>

definition TopicRequest_forwardStrategy :: "'j json_lib \<Rightarrow> 'j \<Rightarrow> int option" where
  "TopicRequest_forwardStrategy L d = get_int_or L d KEY_TOPIC_FORWARD (strategy_code BROADCAST)"

definition TopicRequest_setForwardStrategy :: "'j json_lib \<Rightarrow> 'j \<Rightarrow> topic_forward_strategy \<Rightarrow> 'j option" where
  "TopicRequest_setForwardStrategy L d st = j_put L d KEY_TOPIC_FORWARD (j_int L (strategy_code st))"

definition TopicRequest_fanoutLimit :: "'j json_lib \<Rightarrow> 'j \<Rightarrow> int option" where
  "TopicRequest_fanoutLimit L d = get_int_or L d KEY_TOPIC_FANOUT 0"

definition TopicRequest_setFanoutLimit :: "'j json_lib \<Rightarrow> 'j \<Rightarrow> int \<Rightarrow> 'j option" where
  "TopicRequest_setFanoutLimit L d n = j_put L d KEY_TOPIC_FANOUT (j_int L n)"

definition TopicRequest_shardKey :: "'j json_lib \<Rightarrow> 'j \<Rightarrow> string option" where
  "TopicRequest_shardKey L d = get_str_or L d KEY_TOPIC_SHARD_KEY []"

definition TopicRequest_setShardKey :: "'j json_lib \<Rightarrow> 'j \<Rightarrow> string \<Rightarrow> 'j option" where
  "TopicRequest_setShardKey L d k = j_put L d KEY_TOPIC_SHARD_KEY (j_str L k)"

definition TopicRequest_priority :: "'j json_lib \<Rightarrow> 'j \<Rightarrow> int option" where
  "TopicRequest_priority L d = get_int_or L d KEY_TOPIC_PRIORITY 0"

definition TopicRequest_setPriority :: "'j json_lib \<Rightarrow> 'j \<Rightarrow> int \<Rightarrow> 'j option" where
  "TopicRequest_setPriority L d n = j_put L d KEY_TOPIC_PRIORITY (j_int L n)"

definition TopicRequest_tags :: "'j json_lib \<Rightarrow> 'j \<Rightarrow> string list option" where
  "TopicRequest_tags L d = do {
     arr \<leftarrow> j_get L d KEY_TOPIC_TAGS (j_array L);
     if \<not> j_isArray L arr then Some []
     else do {
       items \<leftarrow> j_elems L arr;
       those (map (j_asString L) (filter (j_isString L) items)) } }"

definition TopicRequest_setTags :: "'j json_lib \<Rightarrow> 'j \<Rightarrow> string list \<Rightarrow> 'j option" where
  "TopicRequest_setTags L d tags = do {
     arr \<leftarrow> j_append_all L (j_array L) (map (j_str L) tags);
     j_put L d KEY_TOPIC_TAGS arr }"

definition TopicRequest_redundantCount :: "'j json_lib \<Rightarrow> 'j \<Rightarrow> int option" where
  "TopicRequest_redundantCount L d = get_int_or L d KEY_TOPIC_REDUNDANT 0"

definition TopicRequest_setRedundantCount :: "'j json_lib \<Rightarrow> 'j \<Rightarrow> int \<Rightarrow> 'j option" where
  "TopicRequest_setRedundantCount L d n = j_put L d KEY_TOPIC_REDUNDANT (j_int L n)"

definition TopicRequest_topicKey :: "'j json_lib \<Rightarrow> 'j \<Rightarrow> string option" where
  "TopicRequest_topicKey L d = get_str L d KEY_TOPIC_KEY"

definition TopicRequest_setTopicKey :: "'j json_lib \<Rightarrow> 'j \<Rightarrow> string \<Rightarrow> 'j option" where
  "TopicRequest_setTopicKey L d k = j_put L d KEY_TOPIC_KEY (j_str L k)"

definition TopicRequest_optype :: "'j json_lib \<Rightarrow> 'j \<Rightarrow> int option" where
  "TopicRequest_optype L d = get_int L d KEY_OPTYPE"

definition TopicRequest_setOptype :: "'j json_lib \<Rightarrow> 'j \<Rightarrow> topic_optype \<Rightarrow> 'j option" where
  "TopicRequest_setOptype L d t = j_put L d KEY_OPTYPE (j_int L (topic_optype_code t))"

definition TopicRequest_topicMsg :: "'j json_lib \<Rightarrow> 'j \<Rightarrow> string option" where
  "TopicRequest_topicMsg L d = get_str L d KEY_TOPIC_MSG"

definition TopicRequest_setTopicMsg :: "'j json_lib \<Rightarrow> 'j \<Rightarrow> string \<Rightarrow> 'j option" where
  "TopicRequest_setTopicMsg L d m = j_put L d KEY_TOPIC_MSG (j_str L m)"

text \<open>The part of the check that depends on the forwarding strategy.\<close>

definition TopicRequest_check_strategy :: "'j json_lib \<Rightarrow> 'j \<Rightarrow> bool option" where
  "TopicRequest_check_strategy L d = do {
     st \<leftarrow> TopicRequest_forwardStrategy L d;
     (case strategy_of st of
        Some FANOUT \<Rightarrow> do { n \<leftarrow> TopicRequest_fanoutLimit L d; Some (\<not> n \<le> 0) }
      | Some topic_forward_strategy.SOURCE_HASH \<Rightarrow> do { k \<leftarrow> TopicRequest_shardKey L d; Some (k \<noteq> []) }
      | Some PRIORITY \<Rightarrow> do {
          p \<leftarrow> TopicRequest_priority L d;
          if p \<le> 0 then do { ts \<leftarrow> TopicRequest_tags L d; Some (ts \<noteq> []) } else Some True }
      | Some REDUNDANT \<Rightarrow> do { n \<leftarrow> TopicRequest_redundantCount L d; Some (\<not> n \<le> 1) }
      | _ \<Rightarrow> Some True) }"

definition TopicRequest_check :: "'j json_lib \<Rightarrow> 'j \<Rightarrow> bool option" where
  "TopicRequest_check L d = do {
     k \<leftarrow> j_index L d KEY_TOPIC_KEY;
     if \<not> j_isString L k \<or> j_isNull L k then Some False
     else do {
       t \<leftarrow> j_index L d KEY_OPTYPE;
       if \<not> j_isIntegral L t \<or> j_isNull L t then Some False
       else do {
         n \<leftarrow> j_asInt L t;
         m \<leftarrow> j_index L d KEY_TOPIC_MSG;
         if n = topic_optype_code PUBLISH \<and> (\<not> j_isString L m \<or> j_isNull L m) then Some False
         else TopicRequest_check_strategy L d } } }"

subsection \<open>Services\<close>

definition ServiceRequest_load :: "'j json_lib \<Rightarrow> 'j \<Rightarrow> int option" where
  "ServiceRequest_load L d = get_int_or L d KEY_LOAD 0"

definition ServiceRequest_setLoad :: "'j json_lib \<Rightarrow> 'j \<Rightarrow> int \<Rightarrow> 'j option" where
  "ServiceRequest_setLoad L d n = j_put L d KEY_LOAD (j_int L n)"

definition host_member_ok :: "'j json_lib \<Rightarrow> 'j \<Rightarrow> bool option" where
  "host_member_ok L h =
     (if \<not> j_isObject L h \<or> j_isNull L h then Some False
      else do {
        ip \<leftarrow> j_index L h KEY_HOST_IP;
        port \<leftarrow> j_index L h KEY_HOST_PORT;
        Some (\<not> (\<not> j_isString L ip \<or> j_isNull L ip \<or> \<not> j_isIntegral L port \<or> j_isNull L port)) })"

definition ServiceRequest_check :: "'j json_lib \<Rightarrow> 'j \<Rightarrow> bool option" where
  "ServiceRequest_check L d = do {
     m \<leftarrow> j_index L d KEY_METHOD;
     if \<not> j_isString L m \<or> j_isNull L m then Some False
     else do {
       t \<leftarrow> j_index L d KEY_OPTYPE;
       if \<not> j_isIntegral L t \<or> j_isNull L t then Some False
       else do {
         n \<leftarrow> j_asInt L t;
         h \<leftarrow> j_index L d KEY_HOST;
         host_ok \<leftarrow> (if n \<noteq> service_optype_code DISCOVER then host_member_ok L h else Some True);
         if \<not> host_ok then Some False
         else do {
           l \<leftarrow> j_index L d KEY_LOAD;
           Some (\<not> (n = service_optype_code LOAD_REPORT \<and> (\<not> j_isIntegral L l \<or> j_isNull L l))) } } } }"

definition ServiceRequest_optype :: "'j json_lib \<Rightarrow> 'j \<Rightarrow> int option" where
  "ServiceRequest_optype L d = get_int L d KEY_OPTYPE"

definition ServiceRequest_setOptype :: "'j json_lib \<Rightarrow> 'j \<Rightarrow> service_optype \<Rightarrow> 'j option" where
  "ServiceRequest_setOptype L d t = j_put L d KEY_OPTYPE (j_int L (service_optype_code t))"

definition ServiceRequest_host :: "'j json_lib \<Rightarrow> 'j \<Rightarrow> host_info option" where
  "ServiceRequest_host L d = do {
     h \<leftarrow> j_index L d KEY_HOST;
     ip \<leftarrow> get_str L h KEY_HOST_IP;
     port \<leftarrow> get_int L h KEY_HOST_PORT;
     Some (ip, port) }"

definition host_object :: "'j json_lib \<Rightarrow> host_info \<Rightarrow> 'j option" where
  "host_object L h = do {
     d1 \<leftarrow> j_put L (j_object L) KEY_HOST_IP (j_str L (fst h));
     j_put L d1 KEY_HOST_PORT (j_int L (snd h)) }"

definition ServiceRequest_setHost :: "'j json_lib \<Rightarrow> 'j \<Rightarrow> host_info \<Rightarrow> 'j option" where
  "ServiceRequest_setHost L d h = do { v \<leftarrow> host_object L h; j_put L d KEY_HOST v }"

definition ServiceResponse_check :: "'j json_lib \<Rightarrow> 'j \<Rightarrow> bool option" where
  "ServiceResponse_check L d = do {
     rc \<leftarrow> j_index L d KEY_RCODE;
     if \<not> j_isIntegral L rc \<or> j_isNull L rc then Some False
     else do {
       t \<leftarrow> j_index L d KEY_OPTYPE;
       if \<not> j_isIntegral L t \<or> j_isNull L t then Some False
       else do {
         n \<leftarrow> j_asInt L t;
         m \<leftarrow> j_index L d KEY_METHOD;
         h \<leftarrow> j_index L d KEY_HOST;
         Some (\<not> (n = service_optype_code DISCOVER \<and>
           (\<not> j_isString L m \<or> j_isNull L m \<or> \<not> j_isArray L h \<or> j_isNull L h))) } } }"

definition ServiceResponse_method :: "'j json_lib \<Rightarrow> 'j \<Rightarrow> string option" where
  "ServiceResponse_method L d = get_str L d KEY_METHOD"

definition ServiceResponse_setMethod :: "'j json_lib \<Rightarrow> 'j \<Rightarrow> string \<Rightarrow> 'j option" where
  "ServiceResponse_setMethod L d m = j_put L d KEY_METHOD (j_str L m)"

definition ServiceResponse_setOptype :: "'j json_lib \<Rightarrow> 'j \<Rightarrow> service_optype \<Rightarrow> 'j option" where
  "ServiceResponse_setOptype L d t = j_put L d KEY_OPTYPE (j_int L (service_optype_code t))"

definition ServiceResponse_optype :: "'j json_lib \<Rightarrow> 'j \<Rightarrow> int option" where
  "ServiceResponse_optype L d = get_int L d KEY_OPTYPE"

definition read_host :: "'j json_lib \<Rightarrow> 'j \<Rightarrow> host_info option" where
  "read_host L h = do {
     ip \<leftarrow> get_str L h KEY_HOST_IP;
     port \<leftarrow> get_int L h KEY_HOST_PORT;
     Some (ip, port) }"

definition ServiceResponse_hosts :: "'j json_lib \<Rightarrow> 'j \<Rightarrow> host_info list option" where
  "ServiceResponse_hosts L d = do {
     arr \<leftarrow> j_index L d KEY_HOST;
     items \<leftarrow> j_elems L arr;
     those (map (read_host L) items) }"

definition ServiceResponse_setHost :: "'j json_lib \<Rightarrow> 'j \<Rightarrow> host_info list \<Rightarrow> 'j option" where
  "ServiceResponse_setHost L d hs = do {
     objs \<leftarrow> those (map (host_object L) hs);
     arr \<leftarrow> j_append_all L (j_array L) objs;
     j_put L d KEY_HOST arr }"

definition read_detail :: "'j json_lib \<Rightarrow> 'j \<Rightarrow> host_detail option" where
  "read_detail L v = do {
     h \<leftarrow> read_host L v;
     l \<leftarrow> get_int_or L v KEY_LOAD 0;
     Some \<lparr>hd_host = h, hd_load = l\<rparr> }"

definition ServiceResponse_hostsDetail :: "'j json_lib \<Rightarrow> 'j \<Rightarrow> host_detail list option" where
  "ServiceResponse_hostsDetail L d = do {
     arr \<leftarrow> j_index L d KEY_HOST;
     items \<leftarrow> j_elems L arr;
     those (map (read_detail L) items) }"

definition detail_object :: "'j json_lib \<Rightarrow> host_detail \<Rightarrow> 'j option" where
  "detail_object L hdet = do { v \<leftarrow> host_object L (hd_host hdet); j_put L v KEY_LOAD (j_int L (hd_load hdet)) }"

definition ServiceResponse_setHostDetails :: "'j json_lib \<Rightarrow> 'j \<Rightarrow> host_detail list \<Rightarrow> 'j option" where
  "ServiceResponse_setHostDetails L d hs = do {
     objs \<leftarrow> those (map (detail_object L) hs);
     arr \<leftarrow> j_append_all L (j_array L) objs;
     j_put L d KEY_HOST arr }"


subsection \<open>Reading back what was set\<close>

context json_api
begin

lemma host_object_reads:
  assumes "in_int32 (snd h)"
  shows "\<exists>v. host_object L h = Some v \<and> j_isObject L v \<and> read_host L v = Some h"
proof -
  obtain d1 where d1: "j_put L (j_object L) KEY_HOST_IP (j_str L (fst h)) = Some d1" "j_isObject L d1"
    using put_object null_kind(2) by blast
  then obtain d2 where d2: "j_put L d1 KEY_HOST_PORT (j_int L (snd h)) = Some d2" "j_isObject L d2"
    using put_object by blast
  then show ?thesis
    using assms d1 by (simp add: host_object_def read_host_def get_str_def get_int_def index_put asString asInt keys)
qed

lemma detail_object_reads:
  assumes "in_int32 (snd (hd_host hdet))" "in_int32 (hd_load hdet)"
  shows "\<exists>v. detail_object L hdet = Some v \<and> read_detail L v = Some hdet"
proof -
  obtain v where v: "host_object L (hd_host hdet) = Some v" "j_isObject L v" "read_host L v = Some (hd_host hdet)"
    using host_object_reads [OF assms(1)] by blast
  then obtain w where w: "j_put L v KEY_LOAD (j_int L (hd_load hdet)) = Some w" using put_object by blast
  have "read_host L w = read_host L v"
    by (simp add: read_host_def get_str_def get_int_def index_put [OF w] keys)
  then show ?thesis
    using v w assms(2) by (simp add: detail_object_def read_detail_def get_int_or_def get_put [OF w] asInt)
qed

lemma those_map_reads:
  assumes "\<forall>x \<in> set xs. \<exists>v. f x = Some v \<and> g v = Some x"
  shows "\<exists>vs. those (map f xs) = Some vs \<and> those (map g vs) = Some xs"
  using assms by (induction xs) auto

lemma array_member_reads:
  assumes "j_isObject L d \<or> d = j_null L" "\<forall>x \<in> set xs. \<exists>v. f x = Some v \<and> g v = Some x"
  shows "\<exists>vs arr d'. those (map f xs) = Some vs \<and> j_append_all L (j_array L) vs = Some arr
    \<and> j_put L d k arr = Some d' \<and> j_index L d' k = Some arr \<and> j_elems L arr = Some vs \<and> those (map g vs) = Some xs"
proof -
  obtain vs where vs: "those (map f xs) = Some vs" "those (map g vs) = Some xs"
    using those_map_reads [OF assms(2)] by blast
  obtain arr where arr: "j_append_all L (j_array L) vs = Some arr" "j_elems L arr = Some vs"
    using array_of_list by blast
  obtain d' where "j_put L d k arr = Some d'" using put_object [OF assms(1)] by blast
  then show ?thesis using vs arr by (simp add: index_put)
qed

lemma details_read_back:
  assumes "j_isObject L d \<or> d = j_null L" "\<forall>h \<in> set hs. in_int32 (snd (hd_host h)) \<and> in_int32 (hd_load h)"
  shows "\<exists>d'. ServiceResponse_setHostDetails L d hs = Some d' \<and> ServiceResponse_hostsDetail L d' = Some hs"
  using array_member_reads [OF assms(1), of hs "detail_object L" "read_detail L" KEY_HOST] detail_object_reads assms(2)
  by (fastforce simp: ServiceResponse_setHostDetails_def ServiceResponse_hostsDetail_def)

lemma hosts_read_back:
  assumes "j_isObject L d \<or> d = j_null L" "\<forall>h \<in> set hs. in_int32 (snd h)"
  shows "\<exists>d'. ServiceResponse_setHost L d hs = Some d' \<and> ServiceResponse_hosts L d' = Some hs"
  using array_member_reads [OF assms(1), of hs "host_object L" "read_host L" KEY_HOST] host_object_reads assms(2)
  by (fastforce simp: ServiceResponse_setHost_def ServiceResponse_hosts_def)

subsection \<open>A message that passes its check can be read\<close>

lemma object_index: "j_isObject L d \<or> d = j_null L \<Longrightarrow> j_index L d k \<noteq> None"
  using find_object by (simp add: j_index_def j_get_def)

lemma index_object: "j_index L d k = Some v \<Longrightarrow> v \<noteq> j_null L \<Longrightarrow> j_isObject L d"
  using find_object [of d k] find_null by (auto simp: j_index_def j_get_def)

lemma object_get: "j_isObject L d \<Longrightarrow> j_get L d k w \<noteq> None"
  using find_object by (simp add: j_get_def)

lemma tags_total: "j_isObject L d \<Longrightarrow> TopicRequest_tags L d \<noteq> None"
proof -
  assume obj: "j_isObject L d"
  have those: "those (map f xs) \<noteq> None" if "\<forall>x \<in> set xs. f x \<noteq> None" for f :: "'j \<Rightarrow> string option" and xs
    using that by (induction xs) (auto split: option.splits)
  obtain arr where arr: "j_get L d KEY_TOPIC_TAGS (j_array L) = Some arr" using object_get [OF obj] by fastforce
  show ?thesis
  proof (cases "j_isArray L arr")
    case True
    then obtain items where "j_elems L arr = Some items" using elems_array by fastforce
    then show ?thesis using arr True those string_reads by (simp add: TopicRequest_tags_def)
  qed (simp add: TopicRequest_tags_def arr)
qed

lemma topic_check_reads:
  assumes "TopicRequest_check L d = Some True"
  shows "\<exists>key op st tags. TopicRequest_topicKey L d = Some key \<and> TopicRequest_optype L d = Some op
     \<and> TopicRequest_forwardStrategy L d = Some st \<and> TopicRequest_tags L d = Some tags
     \<and> (op = topic_optype_code PUBLISH \<longrightarrow> TopicRequest_topicMsg L d \<noteq> None)"
proof -
  obtain k t n m where k: "j_index L d KEY_TOPIC_KEY = Some k" "j_isString L k"
    and t: "j_index L d KEY_OPTYPE = Some t" "j_asInt L t = Some n" and m: "j_index L d KEY_TOPIC_MSG = Some m"
    and pub: "n = topic_optype_code PUBLISH \<longrightarrow> j_isString L m" and st: "TopicRequest_check_strategy L d = Some True"
    using assms by (auto simp: TopicRequest_check_def bind_eq_Some_conv split: if_splits)
  have "j_isObject L d" using index_object [OF k(1)] k(2) string_not_null by blast
  then show ?thesis
    using k t m pub st string_reads tags_total
    by (force simp: TopicRequest_topicKey_def TopicRequest_optype_def TopicRequest_topicMsg_def get_str_def get_int_def
        TopicRequest_check_strategy_def bind_eq_Some_conv)
qed

lemma rpc_check_reads:
  assumes "RpcRequest_check L d = Some True"
  shows "\<exists>m p. JsonRequest_method L d = Some m \<and> RpcRequest_params L d = Some p \<and> j_isObject L p"
proof -
  obtain m p where "j_index L d KEY_METHOD = Some m" "j_isString L m" "j_index L d KEY_PARAMS = Some p" "j_isObject L p"
    using assms by (auto simp: RpcRequest_check_def bind_eq_Some_conv split: if_splits)
  then show ?thesis using string_reads [of m] by (auto simp: JsonRequest_method_def RpcRequest_params_def get_str_def)
qed

lemma service_check_reads:
  assumes "ServiceRequest_check L d = Some True"
  shows "\<exists>m n. JsonRequest_method L d = Some m \<and> ServiceRequest_optype L d = Some n"
proof -
  obtain m t n where "j_index L d KEY_METHOD = Some m" "j_isString L m" "j_index L d KEY_OPTYPE = Some t" "j_asInt L t = Some n"
    using assms by (auto simp: ServiceRequest_check_def bind_eq_Some_conv split: if_splits)
  then show ?thesis
    using string_reads [of m] by (auto simp: JsonRequest_method_def ServiceRequest_optype_def get_str_def get_int_def)
qed

end

end
