(* ===== verification/Proto_Messages.thy ===== *)
theory Proto_Messages
  imports Json_Messages
begin

text \<open>
  The Protobuf message classes of \<open>rpc/src/general/message.hpp\<close>. An envelope is a record
  with the fields of \<open>rpc/proto/rpc_envelope.proto\<close>. What the generated code does to
  encode and decode an envelope is a parameter: for every envelope type a function to bytes,
  which may fail, and one from bytes.
\<close>

record rpc_request_envelope =
  rq_id :: string
  rq_method :: string
  rq_body :: string
  rq_trace_id :: string
  rq_span_id :: string

record rpc_response_envelope =
  rs_rcode :: int
  rs_body :: string
  rs_id :: string

record topic_request_envelope =
  tq_method :: string
  tq_topic_key :: string
  tq_optype :: int
  tq_topic_msg :: string
  tq_forward_strategy :: int
  tq_fanout :: int
  tq_shard_key :: string
  tq_priority :: int
  tq_tags :: "string list"
  tq_redundant :: int

record topic_response_envelope =
  ts_rcode :: int
  ts_result :: string

record host_entry =
  he_ip :: string
  he_port :: int
  he_load :: int

record service_request_envelope =
  sq_method :: string
  sq_optype :: int
  sq_host_ip :: string
  sq_host_port :: int
  sq_load :: int
  sq_trace_id :: string

record service_response_envelope =
  ss_rcode :: int
  ss_optype :: int
  ss_method :: string
  ss_host :: "host_entry list"

record 'e pb_codec =
  pb_write :: "'e \<Rightarrow> string option"
  pb_parse :: "string \<Rightarrow> 'e option"
  pb_size :: "'e \<Rightarrow> nat"
  pb_write_array :: "'e \<Rightarrow> nat \<Rightarrow> string option"

record pb_lib =
  pb_rpc_req :: "rpc_request_envelope pb_codec"
  pb_rpc_resp :: "rpc_response_envelope pb_codec"
  pb_topic_req :: "topic_request_envelope pb_codec"
  pb_topic_resp :: "topic_response_envelope pb_codec"
  pb_service_req :: "service_request_envelope pb_codec"
  pb_service_resp :: "service_response_envelope pb_codec"

text \<open>\<open>SerializeToString\<close> as every class uses it: an empty string when it fails.\<close>

definition pb_serialize :: "'e pb_codec \<Rightarrow> 'e \<Rightarrow> string" where
  "pb_serialize c e = (case pb_write c e of None \<Rightarrow> [] | Some s \<Rightarrow> s)"

text \<open>\<open>ParseFromArray\<close>: the flag and the envelope afterwards.\<close>

definition pb_unserialize :: "'e pb_codec \<Rightarrow> 'e \<Rightarrow> string \<Rightarrow> bool \<times> 'e" where
  "pb_unserialize c e s = (case pb_parse c s of None \<Rightarrow> (False, e) | Some e' \<Rightarrow> (True, e'))"

subsection \<open>RPC request and response\<close>

definition ProtoRpcRequest_stamp :: "rpc_request_envelope \<Rightarrow> string \<Rightarrow> rpc_request_envelope" where
  "ProtoRpcRequest_stamp e rid = (if rid \<noteq> [] then e\<lparr>rq_id := rid\<rparr> else e)"

definition ProtoRpcRequest_serialize :: "pb_lib \<Rightarrow> rpc_request_envelope \<Rightarrow> string \<Rightarrow> rpc_request_envelope \<times> string" where
  "ProtoRpcRequest_serialize P e rid =
     (let e' = ProtoRpcRequest_stamp e rid in (e', pb_serialize (pb_rpc_req P) e'))"

definition ProtoRpcRequest_byteSize :: "pb_lib \<Rightarrow> rpc_request_envelope \<Rightarrow> string \<Rightarrow> rpc_request_envelope \<times> nat" where
  "ProtoRpcRequest_byteSize P e rid =
     (let e' = ProtoRpcRequest_stamp e rid in (e', pb_size (pb_rpc_req P) e'))"

definition ProtoRpcRequest_serializeToArray ::
  "pb_lib \<Rightarrow> rpc_request_envelope \<Rightarrow> string \<Rightarrow> nat \<Rightarrow> rpc_request_envelope \<times> string option" where
  "ProtoRpcRequest_serializeToArray P e rid n =
     (let e' = ProtoRpcRequest_stamp e rid in (e', pb_write_array (pb_rpc_req P) e' n))"

definition ProtoRpcRequest_unserialize ::
  "pb_lib \<Rightarrow> rpc_request_envelope \<Rightarrow> string \<Rightarrow> string \<Rightarrow> bool \<times> rpc_request_envelope \<times> string" where
  "ProtoRpcRequest_unserialize P e rid msg =
     (let (ok, e') = pb_unserialize (pb_rpc_req P) e msg in
      if \<not> ok then (False, e', rid)
      else (True, e', if rq_id e' \<noteq> [] then rq_id e' else rid))"

definition ProtoRpcRequest_check :: "rpc_request_envelope \<Rightarrow> bool" where
  "ProtoRpcRequest_check e \<longleftrightarrow> \<not> rq_method e = []"

definition ProtoRpcResponse_stamp :: "rpc_response_envelope \<Rightarrow> string \<Rightarrow> rpc_response_envelope" where
  "ProtoRpcResponse_stamp e rid = (if rid \<noteq> [] then e\<lparr>rs_id := rid\<rparr> else e)"

definition ProtoRpcResponse_serialize :: "pb_lib \<Rightarrow> rpc_response_envelope \<Rightarrow> string \<Rightarrow> rpc_response_envelope \<times> string" where
  "ProtoRpcResponse_serialize P e rid =
     (let e' = ProtoRpcResponse_stamp e rid in (e', pb_serialize (pb_rpc_resp P) e'))"

definition ProtoRpcResponse_byteSize :: "pb_lib \<Rightarrow> rpc_response_envelope \<Rightarrow> string \<Rightarrow> rpc_response_envelope \<times> nat" where
  "ProtoRpcResponse_byteSize P e rid =
     (let e' = ProtoRpcResponse_stamp e rid in (e', pb_size (pb_rpc_resp P) e'))"

definition ProtoRpcResponse_serializeToArray ::
  "pb_lib \<Rightarrow> rpc_response_envelope \<Rightarrow> string \<Rightarrow> nat \<Rightarrow> rpc_response_envelope \<times> string option" where
  "ProtoRpcResponse_serializeToArray P e rid n =
     (let e' = ProtoRpcResponse_stamp e rid in (e', pb_write_array (pb_rpc_resp P) e' n))"

definition ProtoRpcResponse_unserialize ::
  "pb_lib \<Rightarrow> rpc_response_envelope \<Rightarrow> string \<Rightarrow> string \<Rightarrow> bool \<times> rpc_response_envelope \<times> string" where
  "ProtoRpcResponse_unserialize P e rid msg =
     (let (ok, e') = pb_unserialize (pb_rpc_resp P) e msg in
      if \<not> ok then (False, e', rid)
      else (True, e', if rs_id e' \<noteq> [] then rs_id e' else rid))"

subsection \<open>Topics\<close>

definition ProtoTopicRequest_serialize :: "pb_lib \<Rightarrow> topic_request_envelope \<Rightarrow> string" where
  "ProtoTopicRequest_serialize P e = pb_serialize (pb_topic_req P) e"

definition ProtoTopicRequest_unserialize ::
  "pb_lib \<Rightarrow> topic_request_envelope \<Rightarrow> string \<Rightarrow> bool \<times> topic_request_envelope" where
  "ProtoTopicRequest_unserialize P e msg = pb_unserialize (pb_topic_req P) e msg"

definition ProtoTopicRequest_check :: "topic_request_envelope \<Rightarrow> bool" where
  "ProtoTopicRequest_check e =
     (if tq_topic_key e = [] then False
      else if tq_optype e < 0 then False
      else if tq_optype e = topic_optype_code PUBLISH \<and> tq_topic_msg e = [] then False
      else case strategy_of (tq_forward_strategy e) of
        Some FANOUT \<Rightarrow> \<not> tq_fanout e \<le> 0
      | Some topic_forward_strategy.SOURCE_HASH \<Rightarrow> tq_shard_key e \<noteq> []
      | Some PRIORITY \<Rightarrow> \<not> (tq_priority e \<le> 0 \<and> tq_tags e = [])
      | Some REDUNDANT \<Rightarrow> \<not> tq_redundant e \<le> 1
      | _ \<Rightarrow> True)"

definition ProtoTopicResponse_serialize :: "pb_lib \<Rightarrow> topic_response_envelope \<Rightarrow> string" where
  "ProtoTopicResponse_serialize P e = pb_serialize (pb_topic_resp P) e"

definition ProtoTopicResponse_unserialize ::
  "pb_lib \<Rightarrow> topic_response_envelope \<Rightarrow> string \<Rightarrow> bool \<times> topic_response_envelope" where
  "ProtoTopicResponse_unserialize P e msg = pb_unserialize (pb_topic_resp P) e msg"

subsection \<open>Services\<close>

definition ProtoServiceRequest_serialize :: "pb_lib \<Rightarrow> service_request_envelope \<Rightarrow> string" where
  "ProtoServiceRequest_serialize P e = pb_serialize (pb_service_req P) e"

definition ProtoServiceRequest_unserialize ::
  "pb_lib \<Rightarrow> service_request_envelope \<Rightarrow> string \<Rightarrow> bool \<times> service_request_envelope" where
  "ProtoServiceRequest_unserialize P e msg = pb_unserialize (pb_service_req P) e msg"

definition ProtoServiceRequest_check :: "service_request_envelope \<Rightarrow> bool" where
  "ProtoServiceRequest_check e =
     (if sq_method e = [] then False
      else if sq_optype e < 0 then False
      else if sq_optype e \<noteq> service_optype_code DISCOVER
      then \<not> (sq_host_ip e = [] \<or> sq_host_port e \<le> 0)
      else True)"

definition ProtoServiceResponse_serialize :: "pb_lib \<Rightarrow> service_response_envelope \<Rightarrow> string" where
  "ProtoServiceResponse_serialize P e = pb_serialize (pb_service_resp P) e"

definition ProtoServiceResponse_unserialize ::
  "pb_lib \<Rightarrow> service_response_envelope \<Rightarrow> string \<Rightarrow> bool \<times> service_response_envelope" where
  "ProtoServiceResponse_unserialize P e msg = pb_unserialize (pb_service_resp P) e msg"

definition ProtoServiceResponse_check :: "service_response_envelope \<Rightarrow> bool" where
  "ProtoServiceResponse_check e =
     (if ss_optype e = service_optype_code DISCOVER then \<not> (ss_method e = [] \<or> ss_host e = []) else True)"

definition ProtoServiceResponse_hosts :: "service_response_envelope \<Rightarrow> host_info list" where
  "ProtoServiceResponse_hosts e = map (\<lambda>x. (he_ip x, he_port x)) (ss_host e)"

definition ProtoServiceResponse_setHost :: "service_response_envelope \<Rightarrow> host_info list \<Rightarrow> service_response_envelope" where
  "ProtoServiceResponse_setHost e hs =
     e\<lparr>ss_host := map (\<lambda>h. \<lparr>he_ip = fst h, he_port = snd h, he_load = 0\<rparr>) hs\<rparr>"

definition ProtoServiceResponse_hostsDetail :: "service_response_envelope \<Rightarrow> host_detail list" where
  "ProtoServiceResponse_hostsDetail e =
     map (\<lambda>x. \<lparr>hd_host = (he_ip x, he_port x), hd_load = he_load x\<rparr>) (ss_host e)"

definition ProtoServiceResponse_setHostDetails ::
  "service_response_envelope \<Rightarrow> host_detail list \<Rightarrow> service_response_envelope" where
  "ProtoServiceResponse_setHostDetails e hs =
     e\<lparr>ss_host := map (\<lambda>h. \<lparr>he_ip = fst (hd_host h), he_port = snd (hd_host h), he_load = hd_load h\<rparr>) hs\<rparr>"

subsection \<open>Reading back\<close>

lemma proto_hosts_read_back:
  "ProtoServiceResponse_hostsDetail (ProtoServiceResponse_setHostDetails e hs) = hs"
  "ProtoServiceResponse_hosts (ProtoServiceResponse_setHost e as) = as"
  by (simp_all add: ProtoServiceResponse_hostsDetail_def ProtoServiceResponse_setHostDetails_def
      ProtoServiceResponse_hosts_def ProtoServiceResponse_setHost_def comp_def map_idI)

text \<open>
  Remark. The list of hosts a registry answer carries survives both message formats: the
  hosts and loads put into a service response are read back unchanged and in order from the JSON
  message (for every JSON library that keeps the documented laws, with ports and loads in the
  range of \<open>int\<close>) and from the Protobuf envelope.
\<close>

theorem host_details_roundtrip:
  assumes "json_api L" "j_isObject L d \<or> d = j_null L"
    and "\<forall>h \<in> set hs. in_int32 (snd (hd_host h)) \<and> in_int32 (hd_load h)"
  shows "(\<exists>d'. ServiceResponse_setHostDetails L d hs = Some d' \<and> ServiceResponse_hostsDetail L d' = Some hs)
    \<and> ProtoServiceResponse_hostsDetail (ProtoServiceResponse_setHostDetails e hs) = hs"
  using json_api.details_read_back [OF assms] proto_hosts_read_back(1) by blast

theorem host_details_roundtrip_witness:
  "\<exists>d'. ServiceResponse_setHostDetails (json_tree (\<lambda>_. None) (\<lambda>_. None)) JNull [\<lparr>hd_host = (''10.0.0.1'', 8889), hd_load = 3\<rparr>] = Some d'
    \<and> ServiceResponse_hostsDetail (json_tree (\<lambda>_. None) (\<lambda>_. None)) d' = Some [\<lparr>hd_host = (''10.0.0.1'', 8889), hd_load = 3\<rparr>]"
  using host_details_roundtrip [OF jt.json_api_axioms, of _ _ JNull "[\<lparr>hd_host = (''10.0.0.1'', 8889), hd_load = 3\<rparr>]"]
  by (simp add: in_int32_def json_tree_def)

text \<open>
  Remark. The checks are type guards: a JSON request that passes the check of its class can
  be read without an exception by the accessors its handler uses (method and an object of
  parameters for a call; key, operation, strategy and tags for a topic request, and the message
  text when it is a publication; method and operation for a service request).
\<close>

theorem checked_request_reads:
  assumes "json_api L"
  shows "(RpcRequest_check L d = Some True \<longrightarrow>
       (\<exists>m p. JsonRequest_method L d = Some m \<and> RpcRequest_params L d = Some p \<and> j_isObject L p))
    \<and> (TopicRequest_check L d = Some True \<longrightarrow>
       (\<exists>key op st tags. TopicRequest_topicKey L d = Some key \<and> TopicRequest_optype L d = Some op
         \<and> TopicRequest_forwardStrategy L d = Some st \<and> TopicRequest_tags L d = Some tags
         \<and> (op = topic_optype_code PUBLISH \<longrightarrow> TopicRequest_topicMsg L d \<noteq> None)))
    \<and> (ServiceRequest_check L d = Some True \<longrightarrow>
       (\<exists>m n. JsonRequest_method L d = Some m \<and> ServiceRequest_optype L d = Some n))"
  using json_api.rpc_check_reads [OF assms, of d] json_api.topic_check_reads [OF assms, of d]
    json_api.service_check_reads [OF assms, of d] by blast

theorem checked_request_reads_witness:
  "\<exists>key op st tags. let L = json_tree (\<lambda>_. None) (\<lambda>_. None);
       d = JObject [(''topic_key'', JString ''a''), (''optype'', JInt 0)] in
     TopicRequest_topicKey L d = Some key \<and> TopicRequest_optype L d = Some op
     \<and> TopicRequest_forwardStrategy L d = Some st \<and> TopicRequest_tags L d = Some tags"
proof -
  let ?L = "json_tree (\<lambda>_. None) (\<lambda>_. None)" and ?d = "JObject [(''topic_key'', JString ''a''), (''optype'', JInt 0)]"
  have "TopicRequest_check ?L ?d = Some True"
    by (simp add: TopicRequest_check_def TopicRequest_check_strategy_def TopicRequest_forwardStrategy_def get_int_or_def
        j_index_def j_get_def json_tree_def keys in_int32_def strategy_of_def)
  with checked_request_reads [OF jt.json_api_axioms, of "\<lambda>_. None" "\<lambda>_. None" ?d] show ?thesis
    unfolding Let_def by blast
qed

end
