(* ===== verification/Messages.thy ===== *)
theory Messages
  imports Proto_Messages
begin

text \<open>
  A message of any class behind the interface \<open>BaseMessage\<close>
  (\<open>rpc/src/general/abstract.hpp\<close>), the factory that creates one from a number on the
  wire, and the serializer of \<open>rpc/src/general/serializer.hpp\<close>, which calls the
  message's own functions.
\<close>

datatype msg_type =
    REQ_RPC | RSP_RPC | REQ_TOPIC | RSP_TOPIC | REQ_SERVICE | RSP_SERVICE
  | REQ_RPC_PROTO | RSP_RPC_PROTO | REQ_TOPIC_PROTO | RSP_TOPIC_PROTO | REQ_SERVICE_PROTO | RSP_SERVICE_PROTO
  | REQ_RPC_FLAT | RSP_RPC_FLAT

definition msg_types :: "msg_type list" where
  "msg_types = [REQ_RPC, RSP_RPC, REQ_TOPIC, RSP_TOPIC, REQ_SERVICE, RSP_SERVICE, REQ_RPC_PROTO, RSP_RPC_PROTO,
     REQ_TOPIC_PROTO, RSP_TOPIC_PROTO, REQ_SERVICE_PROTO, RSP_SERVICE_PROTO, REQ_RPC_FLAT, RSP_RPC_FLAT]"

fun msg_type_code :: "msg_type \<Rightarrow> nat" where
  "msg_type_code REQ_RPC = 0"
| "msg_type_code RSP_RPC = 1"
| "msg_type_code REQ_TOPIC = 2"
| "msg_type_code RSP_TOPIC = 3"
| "msg_type_code REQ_SERVICE = 4"
| "msg_type_code RSP_SERVICE = 5"
| "msg_type_code REQ_RPC_PROTO = 6"
| "msg_type_code RSP_RPC_PROTO = 7"
| "msg_type_code REQ_TOPIC_PROTO = 8"
| "msg_type_code RSP_TOPIC_PROTO = 9"
| "msg_type_code REQ_SERVICE_PROTO = 10"
| "msg_type_code RSP_SERVICE_PROTO = 11"
| "msg_type_code REQ_RPC_FLAT = 12"
| "msg_type_code RSP_RPC_FLAT = 13"

definition msg_type_of :: "int \<Rightarrow> msg_type option" where
  "msg_type_of i = (if 0 \<le> i \<and> i < 14 then Some (msg_types ! nat i) else None)"

lemma msg_type_of_code [simp]: "msg_type_of (int (msg_type_code t)) = Some t"
  by (cases t) (simp_all add: msg_type_of_def msg_types_def)

text \<open>The class of a message and its data.\<close>

datatype 'j payload =
    RpcRequest 'j | RpcResponse 'j | TopicRequest 'j | TopicResponse 'j | ServiceRequest 'j | ServiceResponse 'j
  | ProtoRpcRequest rpc_request_envelope | ProtoRpcResponse rpc_response_envelope int
  | ProtoTopicRequest topic_request_envelope | ProtoTopicResponse topic_response_envelope
  | ProtoServiceRequest service_request_envelope | ProtoServiceResponse service_response_envelope

record 'j base_message =
  m_type :: msg_type
  m_rid :: string
  m_payload :: "'j payload"

definition new_rpc_req :: rpc_request_envelope where
  "new_rpc_req = \<lparr>rq_id = [], rq_method = [], rq_body = [], rq_trace_id = [], rq_span_id = []\<rparr>"

definition new_rpc_resp :: rpc_response_envelope where
  "new_rpc_resp = \<lparr>rs_rcode = 0, rs_body = [], rs_id = []\<rparr>"

definition new_topic_req :: topic_request_envelope where
  "new_topic_req = \<lparr>tq_method = [], tq_topic_key = [], tq_optype = 0, tq_topic_msg = [], tq_forward_strategy = 0,
     tq_fanout = 0, tq_shard_key = [], tq_priority = 0, tq_tags = [], tq_redundant = 0\<rparr>"

definition new_topic_resp :: topic_response_envelope where
  "new_topic_resp = \<lparr>ts_rcode = 0, ts_result = []\<rparr>"

definition new_service_req :: service_request_envelope where
  "new_service_req = \<lparr>sq_method = [], sq_optype = 0, sq_host_ip = [], sq_host_port = 0, sq_load = 0, sq_trace_id = []\<rparr>"

definition new_service_resp :: service_response_envelope where
  "new_service_resp = \<lparr>ss_rcode = 0, ss_optype = 0, ss_method = [], ss_host = []\<rparr>"

fun fresh_payload :: "'j json_lib \<Rightarrow> msg_type \<Rightarrow> 'j payload option" where
  "fresh_payload L REQ_RPC = Some (RpcRequest (j_null L))"
| "fresh_payload L RSP_RPC = Some (RpcResponse (j_null L))"
| "fresh_payload L REQ_TOPIC = Some (TopicRequest (j_null L))"
| "fresh_payload L RSP_TOPIC = Some (TopicResponse (j_null L))"
| "fresh_payload L REQ_SERVICE = Some (ServiceRequest (j_null L))"
| "fresh_payload L RSP_SERVICE = Some (ServiceResponse (j_null L))"
| "fresh_payload L REQ_RPC_PROTO = Some (ProtoRpcRequest new_rpc_req)"
| "fresh_payload L RSP_RPC_PROTO = Some (ProtoRpcResponse new_rpc_resp 0)"
| "fresh_payload L REQ_TOPIC_PROTO = Some (ProtoTopicRequest new_topic_req)"
| "fresh_payload L RSP_TOPIC_PROTO = Some (ProtoTopicResponse new_topic_resp)"
| "fresh_payload L REQ_SERVICE_PROTO = Some (ProtoServiceRequest new_service_req)"
| "fresh_payload L RSP_SERVICE_PROTO = Some (ProtoServiceResponse new_service_resp)"
| "fresh_payload L REQ_RPC_FLAT = None"
| "fresh_payload L RSP_RPC_FLAT = None"

definition MessageFactory_create :: "'j json_lib \<Rightarrow> int \<Rightarrow> 'j base_message option" where
  "MessageFactory_create L i = do {
     t \<leftarrow> msg_type_of i;
     p \<leftarrow> fresh_payload L t;
     Some \<lparr>m_type = t, m_rid = [], m_payload = p\<rparr> }"

subsection \<open>Serializing through the interface\<close>

record 'j libs =
  lib_json :: "'j json_lib"
  lib_pb :: pb_lib

fun payload_json :: "'j payload \<Rightarrow> 'j option" where
  "payload_json (RpcRequest d) = Some d"
| "payload_json (RpcResponse d) = Some d"
| "payload_json (TopicRequest d) = Some d"
| "payload_json (TopicResponse d) = Some d"
| "payload_json (ServiceRequest d) = Some d"
| "payload_json (ServiceResponse d) = Some d"
| "payload_json _ = None"

text \<open>Encoding may stamp the id into the envelope; the message afterwards and the bytes are returned.\<close>

definition encode :: "'j libs \<Rightarrow> 'j base_message \<Rightarrow> ('j base_message \<times> string) option" where
  "encode Q m =
     (case m_payload m of
        ProtoRpcRequest e \<Rightarrow>
          (let (e', s) = ProtoRpcRequest_serialize (lib_pb Q) e (m_rid m) in Some (m\<lparr>m_payload := ProtoRpcRequest e'\<rparr>, s))
      | ProtoRpcResponse e ms \<Rightarrow>
          (let (e', s) = ProtoRpcResponse_serialize (lib_pb Q) e (m_rid m) in Some (m\<lparr>m_payload := ProtoRpcResponse e' ms\<rparr>, s))
      | ProtoTopicRequest e \<Rightarrow> Some (m, ProtoTopicRequest_serialize (lib_pb Q) e)
      | ProtoTopicResponse e \<Rightarrow> Some (m, ProtoTopicResponse_serialize (lib_pb Q) e)
      | ProtoServiceRequest e \<Rightarrow> Some (m, ProtoServiceRequest_serialize (lib_pb Q) e)
      | ProtoServiceResponse e \<Rightarrow> Some (m, ProtoServiceResponse_serialize (lib_pb Q) e)
      | p \<Rightarrow> do { d \<leftarrow> payload_json p; s \<leftarrow> JsonMessage_serialize (lib_json Q) d (m_rid m); Some (m, s) })"

definition decode_json ::
  "'j libs \<Rightarrow> ('j \<Rightarrow> 'j payload) \<Rightarrow> 'j \<Rightarrow> 'j base_message \<Rightarrow> string \<Rightarrow> (bool \<times> 'j base_message) option" where
  "decode_json Q C d m s =
     map_option (\<lambda>(ok, d', rid). (ok, m\<lparr>m_payload := C d', m_rid := rid\<rparr>))
       (JsonMessage_unserialize (lib_json Q) d (m_rid m) s)"

definition decode :: "'j libs \<Rightarrow> string \<Rightarrow> 'j base_message \<Rightarrow> (bool \<times> 'j base_message) option" where
  "decode Q s m =
     (case m_payload m of
        RpcRequest d \<Rightarrow> decode_json Q RpcRequest d m s
      | RpcResponse d \<Rightarrow> decode_json Q RpcResponse d m s
      | TopicRequest d \<Rightarrow> decode_json Q TopicRequest d m s
      | TopicResponse d \<Rightarrow> decode_json Q TopicResponse d m s
      | ServiceRequest d \<Rightarrow> decode_json Q ServiceRequest d m s
      | ServiceResponse d \<Rightarrow> decode_json Q ServiceResponse d m s
      | ProtoRpcRequest e \<Rightarrow>
          (let (ok, e', rid) = ProtoRpcRequest_unserialize (lib_pb Q) e (m_rid m) s in
           Some (ok, m\<lparr>m_payload := ProtoRpcRequest e', m_rid := rid\<rparr>))
      | ProtoRpcResponse e ms \<Rightarrow>
          (let (ok, e', rid) = ProtoRpcResponse_unserialize (lib_pb Q) e (m_rid m) s in
           Some (ok, m\<lparr>m_payload := ProtoRpcResponse e' ms, m_rid := rid\<rparr>))
      | ProtoTopicRequest e \<Rightarrow>
          (let (ok, e') = ProtoTopicRequest_unserialize (lib_pb Q) e s in Some (ok, m\<lparr>m_payload := ProtoTopicRequest e'\<rparr>))
      | ProtoTopicResponse e \<Rightarrow>
          (let (ok, e') = ProtoTopicResponse_unserialize (lib_pb Q) e s in Some (ok, m\<lparr>m_payload := ProtoTopicResponse e'\<rparr>))
      | ProtoServiceRequest e \<Rightarrow>
          (let (ok, e') = ProtoServiceRequest_unserialize (lib_pb Q) e s in Some (ok, m\<lparr>m_payload := ProtoServiceRequest e'\<rparr>))
      | ProtoServiceResponse e \<Rightarrow>
          (let (ok, e') = ProtoServiceResponse_unserialize (lib_pb Q) e s in Some (ok, m\<lparr>m_payload := ProtoServiceResponse e'\<rparr>)))"

text \<open>The message class that belongs to a type number.\<close>

fun payload_type :: "'j payload \<Rightarrow> msg_type" where
  "payload_type (RpcRequest _) = REQ_RPC"
| "payload_type (RpcResponse _) = RSP_RPC"
| "payload_type (TopicRequest _) = REQ_TOPIC"
| "payload_type (TopicResponse _) = RSP_TOPIC"
| "payload_type (ServiceRequest _) = REQ_SERVICE"
| "payload_type (ServiceResponse _) = RSP_SERVICE"
| "payload_type (ProtoRpcRequest _) = REQ_RPC_PROTO"
| "payload_type (ProtoRpcResponse _ _) = RSP_RPC_PROTO"
| "payload_type (ProtoTopicRequest _) = REQ_TOPIC_PROTO"
| "payload_type (ProtoTopicResponse _) = RSP_TOPIC_PROTO"
| "payload_type (ProtoServiceRequest _) = REQ_SERVICE_PROTO"
| "payload_type (ProtoServiceResponse _) = RSP_SERVICE_PROTO"

definition well_typed :: "'j base_message \<Rightarrow> bool" where
  "well_typed m \<longleftrightarrow> m_type m = payload_type (m_payload m)"

lemma fresh_payload_type: "fresh_payload L t = Some p \<Longrightarrow> payload_type p = t"
  by (cases t) auto

lemma factory_typed:
  "MessageFactory_create L i = Some m \<Longrightarrow> well_typed m \<and> m_rid m = [] \<and> i = int (msg_type_code (m_type m))"
proof -
  assume m: "MessageFactory_create L i = Some m"
  then obtain t p where t: "msg_type_of i = Some t" "fresh_payload L t = Some p" "m = \<lparr>m_type = t, m_rid = [], m_payload = p\<rparr>"
    by (auto simp: MessageFactory_create_def bind_eq_Some_conv)
  have "i = int (msg_type_code t)"
  proof -
    have "map msg_type_code msg_types = [0..<14]" by (simp add: msg_types_def upt_conv_Cons)
    then have "msg_type_code (msg_types ! n) = n" if "n < 14" for n
      using that nth_map [of n msg_types msg_type_code] by (simp add: msg_types_def)
    moreover have "t = msg_types ! nat i" "nat i < 14" "0 \<le> i" using t(1) by (auto simp: msg_type_of_def split: if_splits)
    ultimately show ?thesis by simp
  qed
  then show ?thesis using t fresh_payload_type [OF t(2)] by (simp add: well_typed_def)
qed

lemma decode_keeps_type:
  assumes "decode Q s m = Some (ok, m')" "well_typed m"
  shows "well_typed m' \<and> m_type m' = m_type m"
  using assms by (cases "m_payload m")
    (auto simp: decode_def decode_json_def well_typed_def Let_def case_prod_beta)

text \<open>
  When the libraries read back what they wrote, the message that arrives is the message that was
  encoded, with its id stamped into the body where the class does so.
\<close>

definition stamped :: "'j libs \<Rightarrow> 'j base_message \<Rightarrow> 'j \<Rightarrow> 'j option" where
  "stamped Q m d = (if m_rid m \<noteq> [] then j_put (lib_json Q) d ''id'' (j_str (lib_json Q) (m_rid m)) else Some d)"

definition arrived :: "'j libs \<Rightarrow> 'j base_message \<Rightarrow> 'j base_message option" where
  "arrived Q m =
     (case m_payload m of
        ProtoRpcRequest e \<Rightarrow> Some (m\<lparr>m_payload := ProtoRpcRequest (ProtoRpcRequest_stamp e (m_rid m))\<rparr>)
      | ProtoRpcResponse e ms \<Rightarrow> Some (m\<lparr>m_payload := ProtoRpcResponse (ProtoRpcResponse_stamp e (m_rid m)) 0\<rparr>)
      | p \<Rightarrow> (case payload_json p of
           None \<Rightarrow> Some m
         | Some d \<Rightarrow> map_option (\<lambda>d'. m\<lparr>m_payload := map_payload (\<lambda>_. d') p\<rparr>) (stamped Q m d)))"

text \<open>The documented law of an encoder, at the value it is used on: it succeeds and reads back.\<close>

definition json_reads_back :: "'j json_lib \<Rightarrow> 'j \<Rightarrow> bool" where
  "json_reads_back L d \<longleftrightarrow> (\<exists>s. j_write L d = Some s \<and> s \<noteq> [] \<and> j_parse L s = Some d)"

definition pb_reads_back :: "'e pb_codec \<Rightarrow> 'e \<Rightarrow> bool" where
  "pb_reads_back c e \<longleftrightarrow> (\<exists>s. pb_write c e = Some s \<and> s \<noteq> [] \<and> pb_parse c s = Some e)"

definition libs_read_back :: "'j libs \<Rightarrow> 'j base_message \<Rightarrow> bool" where
  "libs_read_back Q m =
     (case m_payload m of
        ProtoRpcRequest e \<Rightarrow> pb_reads_back (pb_rpc_req (lib_pb Q)) (ProtoRpcRequest_stamp e (m_rid m))
      | ProtoRpcResponse e ms \<Rightarrow> pb_reads_back (pb_rpc_resp (lib_pb Q)) (ProtoRpcResponse_stamp e (m_rid m))
      | ProtoTopicRequest e \<Rightarrow> pb_reads_back (pb_topic_req (lib_pb Q)) e
      | ProtoTopicResponse e \<Rightarrow> pb_reads_back (pb_topic_resp (lib_pb Q)) e
      | ProtoServiceRequest e \<Rightarrow> pb_reads_back (pb_service_req (lib_pb Q)) e
      | ProtoServiceResponse e \<Rightarrow> pb_reads_back (pb_service_resp (lib_pb Q)) e
      | p \<Rightarrow> (\<exists>d d'. payload_json p = Some d \<and> stamped Q m d = Some d' \<and> json_reads_back (lib_json Q) d'))"

lemma pb_reads:
  assumes "pb_reads_back c e"
  shows "pb_serialize c e \<noteq> []" "pb_unserialize c e0 (pb_serialize c e) = (True, e)"
  using assms by (auto simp: pb_reads_back_def pb_serialize_def pb_unserialize_def)

lemma json_reads:
  assumes "json_api L" "j_put L d ''id'' (j_str L rid) = Some d'" "json_reads_back L d'" "rid \<noteq> []"
  shows "\<exists>s. JsonMessage_serialize L d rid = Some s \<and> s \<noteq> [] \<and> JsonMessage_unserialize L d0 rid0 s = Some (True, d', rid)"
proof -
  obtain s where s: "j_write L d' = Some s" "s \<noteq> []" "j_parse L s = Some d'"
    using assms(3) by (auto simp: json_reads_back_def)
  have find: "j_find L d' ''id'' = Some (Some (j_str L rid))"
    by (simp add: json_api.find_put [OF assms(1,2)])
  then have "j_isObject L d'"
    using json_api.find_object [OF assms(1), of d'] json_api.find_null [OF assms(1)] by fastforce
  then show ?thesis
    using s find assms(2,4)
    by (simp add: JsonMessage_serialize_def JsonMessage_unserialize_def json_api.asString [OF assms(1)])
qed

text \<open>Every class decodes what it encoded.\<close>

definition decodes_encoded :: "'j libs \<Rightarrow> 'j base_message \<Rightarrow> bool" where
  "decodes_encoded Q m \<longleftrightarrow> (\<exists>m1 s m0 m2. encode Q m = Some (m1, s) \<and> s \<noteq> []
    \<and> MessageFactory_create (lib_json Q) (int (msg_type_code (m_type m))) = Some m0
    \<and> decode Q s m0 = Some (True, m2) \<and> arrived Q m = Some (m2\<lparr>m_rid := m_rid m, m_type := m_type m\<rparr>))"

lemma json_encode_decode:
  assumes "json_api (lib_json Q)" "m_rid m \<noteq> []"
    and "fresh_payload (lib_json Q) (m_type m) = Some (C (j_null (lib_json Q)))"
    and "encode Q m = JsonMessage_serialize (lib_json Q) d (m_rid m) \<bind> (\<lambda>s. Some (m, s))"
    and "\<And>m' s. m_payload m' = C (j_null (lib_json Q)) \<Longrightarrow> decode Q s m' = decode_json Q C (j_null (lib_json Q)) m' s"
    and "arrived Q m = map_option (\<lambda>d'. m\<lparr>m_payload := C d'\<rparr>) (stamped Q m d)"
    and st: "stamped Q m d = Some d'" and rb: "json_reads_back (lib_json Q) d'"
  shows "decodes_encoded Q m"
proof -
  have put: "j_put (lib_json Q) d ''id'' (j_str (lib_json Q) (m_rid m)) = Some d'"
    using st assms(2) by (simp add: stamped_def)
  obtain s where "JsonMessage_serialize (lib_json Q) d (m_rid m) = Some s" "s \<noteq> []"
    "JsonMessage_unserialize (lib_json Q) (j_null (lib_json Q)) [] s = Some (True, d', m_rid m)"
    using json_reads [OF assms(1) put rb assms(2)] by blast
  then show ?thesis
    using assms(3-6) st by (cases m) (auto simp: decodes_encoded_def MessageFactory_create_def decode_json_def)
qed

lemmas class_defs = libs_read_back_def well_typed_def encode_def decode_def arrived_def MessageFactory_create_def
  ProtoRpcRequest_serialize_def ProtoRpcRequest_unserialize_def ProtoRpcResponse_serialize_def
  ProtoRpcResponse_unserialize_def ProtoTopicRequest_serialize_def ProtoTopicRequest_unserialize_def
  ProtoTopicResponse_serialize_def ProtoTopicResponse_unserialize_def ProtoServiceRequest_serialize_def
  ProtoServiceRequest_unserialize_def ProtoServiceResponse_serialize_def ProtoServiceResponse_unserialize_def

lemma json_class_decodes:
  assumes "json_api (lib_json Q)" "libs_read_back Q m" "m_rid m \<noteq> []" "well_typed m" "payload_json (m_payload m) = Some d"
  shows "decodes_encoded Q m"
proof -
  obtain d' where d': "stamped Q m d = Some d'" "json_reads_back (lib_json Q) d'"
    using assms(2,5) by (cases "m_payload m") (auto simp: libs_read_back_def)
  note step = json_encode_decode [OF assms(1,3) _ _ _ _ d']
  show ?thesis
    using assms(4,5) by (cases "m_payload m") (auto intro!: step simp: class_defs)
qed

lemma proto_class_decodes:
  assumes "libs_read_back Q m" "m_rid m \<noteq> []" "well_typed m" "payload_json (m_payload m) = None"
  shows "decodes_encoded Q m"
  using assms by (cases m; cases "m_payload m")
    (auto simp: decodes_encoded_def class_defs msg_type_of_def msg_types_def Let_def pb_reads
      ProtoRpcRequest_stamp_def ProtoRpcResponse_stamp_def)

lemma encode_decode:
  assumes "json_api (lib_json Q)" "libs_read_back Q m" "m_rid m \<noteq> []" "well_typed m"
  shows "decodes_encoded Q m"
  using json_class_decodes [OF assms] proto_class_decodes [OF assms(2-4)] by (cases "payload_json (m_payload m)") auto

end
