(* ===== verification/LV_Protocol.thy ===== *)
theory LV_Protocol
  imports Messages "HOL-Library.Sublist"
begin

text \<open>
  The framing protocol of \<open>rpc/src/general/net.hpp\<close>: \<open>LVProtocol\<close> over the
  interface \<open>BaseBuffer\<close> (\<open>rpc/src/general/abstract.hpp\<close>), with the buffer of
  \<open>rpc/tests/string_buffer.hpp\<close> as the buffer in memory, and the receiving loops of
  \<open>MuduoServer\<close> and \<open>MuduoClient\<close>. The network library itself (sockets, event
  loop, its buffer) is outside; what it hands over is bytes and connections.
\<close>

subsection \<open>Buffers\<close>

record 'b buffer_ops =
  readableSize :: "'b \<Rightarrow> nat"
  peekInt32 :: "'b \<Rightarrow> int"
  retrieveInt32 :: "'b \<Rightarrow> 'b"
  readInt32 :: "'b \<Rightarrow> int \<times> 'b"
  retrieveAsString :: "'b \<Rightarrow> nat \<Rightarrow> string \<times> 'b"

definition int32_at :: "string \<Rightarrow> int" where
  "int32_at bs = sint (un_be32 (take 4 bs))"

text \<open>
  What a client of a buffer may rely on: with enough bytes in it, reading takes them off the front.
\<close>

locale base_buffer =
  fixes ops :: "'b buffer_ops" and content :: "'b \<Rightarrow> string"
  assumes readable: "readableSize ops b = length (content b)"
    and peek: "4 \<le> length (content b) \<Longrightarrow> peekInt32 ops b = int32_at (content b)"
    and read_val: "4 \<le> length (content b) \<Longrightarrow> fst (readInt32 ops b) = int32_at (content b)"
    and read_rest: "4 \<le> length (content b) \<Longrightarrow> content (snd (readInt32 ops b)) = drop 4 (content b)"
    and string_val: "n \<le> length (content b) \<Longrightarrow> fst (retrieveAsString ops b n) = take n (content b)"
    and string_rest: "n \<le> length (content b) \<Longrightarrow> content (snd (retrieveAsString ops b n)) = drop n (content b)"

record string_buffer =
  sb_data :: string
  sb_read_idx :: nat

definition StringBuffer :: "string \<Rightarrow> string_buffer" where
  "StringBuffer s = \<lparr>sb_data = s, sb_read_idx = 0\<rparr>"

definition sb_readableSize :: "string_buffer \<Rightarrow> nat" where
  "sb_readableSize b = length (sb_data b) - sb_read_idx b"

definition sb_peekInt32 :: "string_buffer \<Rightarrow> int" where
  "sb_peekInt32 b = (if sb_readableSize b < 4 then 0
     else sint (un_be32 (take 4 (drop (sb_read_idx b) (sb_data b)))))"

definition sb_retrieveInt32 :: "string_buffer \<Rightarrow> string_buffer" where
  "sb_retrieveInt32 b = (if sb_readableSize b \<ge> 4 then b\<lparr>sb_read_idx := sb_read_idx b + 4\<rparr> else b)"

definition sb_readInt32 :: "string_buffer \<Rightarrow> int \<times> string_buffer" where
  "sb_readInt32 b = (sb_peekInt32 b, sb_retrieveInt32 b)"

definition sb_retrieveAsString :: "string_buffer \<Rightarrow> nat \<Rightarrow> string \<times> string_buffer" where
  "sb_retrieveAsString b len = (if sb_readableSize b < len then ([], b)
     else (take len (drop (sb_read_idx b) (sb_data b)), b\<lparr>sb_read_idx := sb_read_idx b + len\<rparr>))"

definition sb_ops :: "string_buffer buffer_ops" where
  "sb_ops = \<lparr>readableSize = sb_readableSize, peekInt32 = sb_peekInt32, retrieveInt32 = sb_retrieveInt32,
     readInt32 = sb_readInt32, retrieveAsString = sb_retrieveAsString\<rparr>"

definition sb_content :: "string_buffer \<Rightarrow> string" where
  "sb_content b = drop (sb_read_idx b) (sb_data b)"

interpretation sb: base_buffer sb_ops sb_content
  by unfold_locales (auto simp: sb_ops_def sb_content_def sb_readableSize_def sb_peekInt32_def sb_retrieveInt32_def
      sb_readInt32_def sb_retrieveAsString_def int32_at_def add.commute)

subsection \<open>The protocol\<close>

definition canProcessed :: "'b buffer_ops \<Rightarrow> 'b \<Rightarrow> bool" where
  "canProcessed ops b =
     (if readableSize ops b < 4 then False
      else
        let body_len = peekInt32 ops b in
        if body_len < 0 then False
        else if body_len > int (readableSize ops b - 4) then False
        else True)"

text \<open>From the fields of a frame to the message; \<^const>\<open>None\<close> is an exception.\<close>

definition lv_decode :: "'j libs \<Rightarrow> int \<Rightarrow> string \<Rightarrow> string \<Rightarrow> (bool \<times> 'j base_message option) option" where
  "lv_decode Q msgtype mid body =
     (case MessageFactory_create (lib_json Q) msgtype of
        None \<Rightarrow> Some (False, None)
      | Some m \<Rightarrow>
          map_option (\<lambda>(ret, m').
              if \<not> ret then (False, Some m')
              else (True, Some (m'\<lparr>m_rid := mid, m_type := m_type m\<rparr>)))
            (decode Q body m))"

text \<open>The flag, the message and the buffer afterwards; \<^const>\<open>None\<close> is an exception.\<close>

definition lv_onMessage ::
  "'b buffer_ops \<Rightarrow> 'j libs \<Rightarrow> 'b \<Rightarrow> (bool \<times> 'j base_message option \<times> 'b) option" where
  "lv_onMessage ops Q b =
     (if \<not> canProcessed ops b then Some (False, None, b)
      else
        let (total_len, b1) = readInt32 ops b;
            (msgtype, b2) = readInt32 ops b1;
            (id_len, b3) = readInt32 ops b2 in
        if total_len < 0 \<or> id_len < 0 then Some (False, None, b3)
        else
          let data_len = total_len - 4 - 4 - id_len in
          if data_len < 0 then Some (False, None, b3)
          else
            let (mid, b4) = retrieveAsString ops b3 (nat id_len);
                (body, b5) = retrieveAsString ops b4 (nat data_len) in
            map_option (\<lambda>(ret, msg). (ret, msg, b5)) (lv_decode Q msgtype mid body))"

definition lv_serialize :: "'j libs \<Rightarrow> 'j base_message \<Rightarrow> ('j base_message \<times> string) option" where
  "lv_serialize Q m = do {
     (m', body) \<leftarrow> encode Q m;
     if body = [] then Some (m', [])
     else
       let mid = m_rid m';
           id_len = of_nat (length mid) :: u32;
           data_len = of_nat (length body) :: u32;
           total_len = 4 + 4 + id_len + data_len in
       Some (m', be32 total_len @ be32 (of_nat (msg_type_code (m_type m'))) @ be32 id_len @ mid @ body) }"

subsection \<open>Receiving\<close>

definition maxdatalen :: nat where
  "maxdatalen = 1024 * 1024 * 10"

type_synonym tcp_conn = nat

datatype 'j net_event =
    CbConnection tcp_conn | CbClose tcp_conn | CbMessage tcp_conn "'j base_message" | Shutdown tcp_conn

text \<open>
  A server keeps the wrapped connection of every socket it has accepted; a wrapped connection
  has the number of its socket.
\<close>

definition server_onConnection ::
  "(tcp_conn \<times> tcp_conn) list \<Rightarrow> tcp_conn \<Rightarrow> bool \<Rightarrow> (tcp_conn \<times> tcp_conn) list \<times> 'j net_event list" where
  "server_onConnection conns c connected =
     (if connected then (AList.update c c conns, [CbConnection c])
      else case map_of conns c of
        None \<Rightarrow> (conns, [])
      | Some mc \<Rightarrow> (AList.delete c conns, [CbClose mc]))"

text \<open>The loop of one message callback; the first argument bounds the number of rounds.\<close>

fun server_onMessage ::
  "nat \<Rightarrow> 'b buffer_ops \<Rightarrow> 'j libs \<Rightarrow> (tcp_conn \<times> tcp_conn) list \<Rightarrow> tcp_conn \<Rightarrow> 'b \<Rightarrow> ('b \<times> 'j net_event list) option" where
  "server_onMessage 0 ops Q conns c b = None"
| "server_onMessage (Suc n) ops Q conns c b =
     (if \<not> canProcessed ops b
      then Some (b, if readableSize ops b > maxdatalen then [Shutdown c] else [])
      else do {
        (ret, msg, b') \<leftarrow> lv_onMessage ops Q b;
        (case (ret, msg) of
           (True, Some m) \<Rightarrow>
             (case map_of conns c of
                None \<Rightarrow> Some (b', [Shutdown c])
              | Some mc \<Rightarrow> map_option (apsnd ((#) (CbMessage mc m))) (server_onMessage n ops Q conns c b'))
         | _ \<Rightarrow> Some (b', [Shutdown c])) })"

fun client_onMessage ::
  "nat \<Rightarrow> 'b buffer_ops \<Rightarrow> 'j libs \<Rightarrow> tcp_conn \<Rightarrow> 'b \<Rightarrow> ('b \<times> 'j net_event list) option" where
  "client_onMessage 0 ops Q c b = None"
| "client_onMessage (Suc n) ops Q c b =
     (if \<not> canProcessed ops b then Some (b, [])
      else do {
        (ret, msg, b') \<leftarrow> lv_onMessage ops Q b;
        (case (ret, msg) of
           (True, Some m) \<Rightarrow> map_option (apsnd ((#) (CbMessage c m))) (client_onMessage n ops Q c b')
         | _ \<Rightarrow> Some (b', [Shutdown c])) })"

subsection \<open>Sending\<close>

text \<open>What is returned and the bytes handed to the socket.\<close>

definition MuduoConnection_send :: "'j libs \<Rightarrow> bool \<Rightarrow> 'j base_message \<Rightarrow> (bool \<times> string) option" where
  "MuduoConnection_send Q connected m =
     (if \<not> connected then Some (False, []) else map_option (\<lambda>(m', s). (True, s)) (lv_serialize Q m))"

record muduo_client =
  mc_connection :: "tcp_conn option"
  mc_latch :: nat

definition client_connect :: "muduo_client \<Rightarrow> muduo_client" where
  "client_connect st = st\<lparr>mc_latch := 1\<rparr>"

definition client_onConnection :: "muduo_client \<Rightarrow> tcp_conn \<Rightarrow> bool \<Rightarrow> muduo_client" where
  "client_onConnection st c connected =
     (if connected then st\<lparr>mc_connection := Some c, mc_latch := mc_latch st - 1\<rparr>
      else st\<lparr>mc_connection := None\<rparr>)"

definition client_connected :: "muduo_client \<Rightarrow> (tcp_conn \<Rightarrow> bool) \<Rightarrow> bool" where
  "client_connected st up = (case mc_connection st of None \<Rightarrow> False | Some c \<Rightarrow> up c)"

definition client_send :: "'j libs \<Rightarrow> muduo_client \<Rightarrow> (tcp_conn \<Rightarrow> bool) \<Rightarrow> 'j base_message \<Rightarrow> (bool \<times> string) option" where
  "client_send Q st up m =
     (case mc_connection st of
        None \<Rightarrow> Some (False, [])
      | Some c \<Rightarrow> if \<not> up c then Some (False, [])
                 else map_option (\<lambda>(r, s). (True, s)) (MuduoConnection_send Q (up c) m))"


subsection \<open>Reading a frame\<close>

lemma int32_at_be32 [simp]: "int32_at (be32 w @ s) = sint w"
  by (simp add: int32_at_def)

context base_buffer
begin

lemma canProcessed_iff:
  "canProcessed ops b \<longleftrightarrow> 4 \<le> length (content b) \<and> 0 \<le> int32_at (content b)
     \<and> int32_at (content b) \<le> int (length (content b) - 4)"
  by (auto simp: canProcessed_def readable peek Let_def)

text \<open>A frame that is not there in full is not touched.\<close>

lemma partial_frame_waits:
  assumes "content b = take n (be32 t @ s)" "n < 4 + length s" "sint t = int (length s)"
  shows "\<not> canProcessed ops b"
proof (cases "n < 4")
  case False
  then have "content b = be32 t @ take (n - 4) s" using assms(1) by simp
  then show ?thesis using assms(2,3) False by (simp add: canProcessed_iff)
qed (use assms(1) in \<open>simp add: canProcessed_iff\<close>)

lemma frame_read:
  assumes b: "content b = be32 t @ be32 ty @ be32 il @ mid @ body @ rest"
    and t: "sint t = 8 + int (length mid) + int (length body)" and il: "sint il = int (length mid)"
    and m: "MessageFactory_create (lib_json Q) (sint ty) = Some m0" "decode Q body m0 = Some (True, m')"
  shows "canProcessed ops b \<and> (\<exists>b'. lv_onMessage ops Q b = Some (True, Some (m'\<lparr>m_rid := mid, m_type := m_type m0\<rparr>), b')
     \<and> content b' = rest)"
proof -
  define b1 where "b1 = snd (readInt32 ops b)"
  define b2 where "b2 = snd (readInt32 ops b1)"
  define b3 where "b3 = snd (readInt32 ops b2)"
  define b4 where "b4 = snd (retrieveAsString ops b3 (length mid))"
  define b5 where "b5 = snd (retrieveAsString ops b4 (length body))"
  have c1: "content b1 = be32 ty @ be32 il @ mid @ body @ rest" using b by (simp add: b1_def read_rest)
  have c2: "content b2 = be32 il @ mid @ body @ rest" using c1 by (simp add: b2_def read_rest)
  have c3: "content b3 = mid @ body @ rest" using c2 by (simp add: b3_def read_rest)
  have c4: "content b4 = body @ rest" using c3 by (simp add: b4_def string_rest)
  have c5: "content b5 = rest" using c4 by (simp add: b5_def string_rest)
  have rd: "readInt32 ops b = (sint t, b1)" "readInt32 ops b1 = (sint ty, b2)" "readInt32 ops b2 = (sint il, b3)"
    "retrieveAsString ops b3 (length mid) = (mid, b4)" "retrieveAsString ops b4 (length body) = (body, b5)"
    by (simp_all add: prod_eq_iff b1_def b2_def b3_def b4_def b5_def read_val string_val b
        c1 [unfolded b1_def] c2 [unfolded b1_def b2_def] c3 [unfolded b1_def b2_def b3_def]
        c4 [unfolded b1_def b2_def b3_def b4_def])
  have can: "canProcessed ops b" using b t by (simp add: canProcessed_iff)
  then show ?thesis using c5 m t il by (simp add: lv_onMessage_def lv_decode_def rd)
qed

end

end
