(* ===== verification/LV_Correct.thy ===== *)
theory LV_Correct
  imports LV_Protocol
begin

text \<open>
  Correctness of the framing protocol: a frame decodes to the message it was made from, and a
  stream of frames is delivered message by message however the network cuts it.
\<close>

subsection \<open>The frame of a message\<close>

lemma sint_small: "n < 2 ^ 31 \<Longrightarrow> sint (of_nat n :: u32) = int n"
  by (simp add: signed_of_nat signed_take_bit_int_eq_self)

definition frame :: "'j libs \<Rightarrow> 'j base_message \<Rightarrow> string" where
  "frame Q m = (case lv_serialize Q m of None \<Rightarrow> [] | Some (m', s) \<Rightarrow> s)"

text \<open>A message the sender may send: the libraries can encode it and its frame is within the limit.\<close>

definition sendable :: "'j libs \<Rightarrow> 'j base_message \<Rightarrow> bool" where
  "sendable Q m \<longleftrightarrow> json_api (lib_json Q) \<and> libs_read_back Q m \<and> m_rid m \<noteq> [] \<and> well_typed m
     \<and> (\<exists>m' s. encode Q m = Some (m', s) \<and> 12 + length (m_rid m) + length s \<le> maxdatalen)"

lemma encode_keeps: "encode Q m = Some (m', s) \<Longrightarrow> m_rid m' = m_rid m \<and> m_type m' = m_type m"
  by (auto simp: encode_def Let_def case_prod_beta bind_eq_Some_conv split: payload.splits)

lemma msg_type_code_lt: "msg_type_code t < 14"
  by (cases t) auto

definition frame_parts :: "'j libs \<Rightarrow> 'j base_message \<Rightarrow> u32 \<Rightarrow> u32 \<Rightarrow> u32 \<Rightarrow> string \<Rightarrow> 'j base_message \<Rightarrow> 'j base_message \<Rightarrow> bool" where
  "frame_parts Q m t ty il body m0 m2 \<longleftrightarrow>
     frame Q m = be32 t @ be32 ty @ be32 il @ m_rid m @ body
     \<and> sint t = 8 + int (length (m_rid m)) + int (length body) \<and> sint il = int (length (m_rid m))
     \<and> MessageFactory_create (lib_json Q) (sint ty) = Some m0 \<and> decode Q body m0 = Some (True, m2)
     \<and> arrived Q m = Some (m2\<lparr>m_rid := m_rid m, m_type := m_type m0\<rparr>)
     \<and> 12 + length (m_rid m) + length body \<le> maxdatalen"

lemma sendable_frame:
  assumes "sendable Q m"
  shows "\<exists>t ty il body m0 m2. frame_parts Q m t ty il body m0 m2"
proof -
  obtain m1 s m0 m2 where e: "encode Q m = Some (m1, s)" "s \<noteq> []"
    and d: "MessageFactory_create (lib_json Q) (int (msg_type_code (m_type m))) = Some m0"
      "decode Q s m0 = Some (True, m2)" "arrived Q m = Some (m2\<lparr>m_rid := m_rid m, m_type := m_type m\<rparr>)"
    using assms encode_decode unfolding sendable_def decodes_encoded_def by blast
  have len: "12 + length (m_rid m) + length s \<le> maxdatalen" using assms e(1) by (auto simp: sendable_def)
  note keeps = encode_keeps [OF e(1)]
  have "m_type m0 = m_type m"
    using factory_typed [OF d(1)] by (metis msg_type_of_code of_nat_eq_iff option.inject)
  moreover have "frame Q m = be32 (of_nat (8 + length (m_rid m) + length s)) @ be32 (of_nat (msg_type_code (m_type m)))
      @ be32 (of_nat (length (m_rid m))) @ m_rid m @ s"
    using e by (simp add: frame_def lv_serialize_def keeps Let_def add.assoc)
  moreover have "sint (of_nat (msg_type_code (m_type m)) :: u32) = int (msg_type_code (m_type m))"
    using msg_type_code_lt [of "m_type m"] by (intro sint_small) simp
  moreover have "sint (of_nat (8 + length (m_rid m) + length s) :: u32) = 8 + int (length (m_rid m)) + int (length s)"
    "sint (of_nat (length (m_rid m)) :: u32) = int (length (m_rid m))"
    using len by (subst sint_small; simp add: maxdatalen_def)+
  ultimately have "frame_parts Q m (of_nat (8 + length (m_rid m) + length s)) (of_nat (msg_type_code (m_type m)))
      (of_nat (length (m_rid m))) s m0 m2"
    using d len by (simp add: frame_parts_def del: of_nat_add)
  then show ?thesis by blast
qed

lemma frame_length: "sendable Q m \<Longrightarrow> 12 < length (frame Q m) \<and> length (frame Q m) \<le> maxdatalen"
  using sendable_frame [of Q m] by (auto simp: frame_parts_def sendable_def)

context base_buffer
begin

lemma frame_delivers:
  assumes "sendable Q m" "content b = frame Q m @ rest"
  shows "canProcessed ops b \<and> (\<exists>b'. lv_onMessage ops Q b = Some (True, arrived Q m, b') \<and> content b' = rest)"
proof -
  obtain t ty il body m0 m2 where f: "frame_parts Q m t ty il body m0 m2" using sendable_frame [OF assms(1)] by blast
  then show ?thesis
    using frame_read [of b t ty il "m_rid m" body rest Q m0 m2] assms(2) by (simp add: frame_parts_def)
qed

lemma part_waits:
  assumes "sendable Q m" "strict_prefix (content b) (frame Q m)"
  shows "\<not> canProcessed ops b" "length (content b) < maxdatalen"
proof -
  obtain t ty il body m0 m2 where f: "frame_parts Q m t ty il body m0 m2" using sendable_frame [OF assms(1)] by blast
  obtain n where n: "content b = take n (frame Q m)" "n < length (frame Q m)"
    using assms(2) by (metis append_eq_conv_conj prefix_def prefix_length_less strict_prefix_def)
  let ?s = "be32 ty @ be32 il @ m_rid m @ body"
  have "frame Q m = be32 t @ ?s" "sint t = int (length ?s)" using f by (auto simp: frame_parts_def)
  then show "\<not> canProcessed ops b" using n partial_frame_waits [of b n t ?s] by simp
  show "length (content b) < maxdatalen"
    using prefix_length_less [OF assms(2)] frame_length [OF assms(1)] by linarith
qed

text \<open>One callback delivers every complete frame in the buffer, in order, and keeps the rest.\<close>

lemma loop_delivers:
  assumes "\<forall>m \<in> set ms. sendable Q m" "content b = concat (map (frame Q) ms) @ rest"
    and "\<And>b'. content b' = rest \<Longrightarrow> \<not> canProcessed ops b'" "length rest \<le> maxdatalen"
    and "map_of conns c = Some mc" "length ms < n"
  shows "\<exists>b'. server_onMessage n ops Q conns c b = Some (b', map (\<lambda>m. CbMessage mc (the (arrived Q m))) ms)
     \<and> content b' = rest"
  using assms
proof (induction ms arbitrary: b n)
  case Nil
  then obtain k where "n = Suc k" by (cases n) auto
  then show ?case using Nil by (simp add: readable)
next
  case (Cons m ms)
  then obtain k where n: "n = Suc k" "length ms < k" by (cases n) auto
  obtain b1 where b1: "canProcessed ops b" "lv_onMessage ops Q b = Some (True, arrived Q m, b1)"
    "content b1 = concat (map (frame Q) ms) @ rest"
    using frame_delivers [of Q m b "concat (map (frame Q) ms) @ rest"] Cons.prems(1,2) by auto
  obtain b2 where b2: "server_onMessage k ops Q conns c b1 = Some (b2, map (\<lambda>m. CbMessage mc (the (arrived Q m))) ms)"
    "content b2 = rest"
    using Cons.IH [OF _ b1(3) Cons.prems(3-5) n(2)] Cons.prems(1) by auto
  obtain a where "arrived Q m = Some a" using sendable_frame [of Q m] Cons.prems(1) by (auto simp: frame_parts_def)
  then show ?case using n b1 b2 Cons.prems(5) by simp
qed

end

lemma sb_client_delivers:
  assumes "sendable Q m"
  shows "\<exists>b'. client_onMessage 2 sb_ops Q c (StringBuffer (frame Q m)) = Some (b', [CbMessage c (the (arrived Q m))])"
proof -
  have c: "sb_content (StringBuffer (frame Q m)) = frame Q m @ []" by (simp add: sb_content_def StringBuffer_def)
  obtain b1 where b1: "canProcessed sb_ops (StringBuffer (frame Q m))"
    "lv_onMessage sb_ops Q (StringBuffer (frame Q m)) = Some (True, arrived Q m, b1)" "sb_content b1 = []"
    using sb.frame_delivers [OF assms c] by blast
  obtain a where "arrived Q m = Some a" using sendable_frame [OF assms] by (auto simp: frame_parts_def)
  then show ?thesis using b1 by (simp add: numeral_2_eq_2 sb.canProcessed_iff [of b1])
qed

subsection \<open>The stream\<close>

text \<open>A prefix of a sequence of frames is some whole frames and a part of the next one.\<close>

lemma prefix_of_frames:
  assumes "prefix q (concat (map f ms))"
  shows "\<exists>ms1 ms2 p. ms = ms1 @ ms2 \<and> q = concat (map f ms1) @ p
     \<and> (p = [] \<or> (\<exists>m ms3. ms2 = m # ms3 \<and> strict_prefix p (f m)))"
  using assms
proof (induction ms arbitrary: q)
  case (Cons m ms)
  show ?case
  proof (cases "prefix (f m) q")
    case True
    then obtain q' where q': "q = f m @ q'" by (auto simp: prefix_def)
    then obtain ms1 ms2 p where "ms = ms1 @ ms2" "q' = concat (map f ms1) @ p"
      "p = [] \<or> (\<exists>m ms3. ms2 = m # ms3 \<and> strict_prefix p (f m))"
      using Cons.IH [of q'] Cons.prems by auto
    then show ?thesis using q' by (intro exI [of _ "m # ms1"] exI [of _ ms2] exI [of _ p]) simp
  next
    case False
    then have "strict_prefix q (f m)"
      using Cons.prems by (metis concat.simps(2) list.map(2) prefix_append prefix_def prefix_order.order_iff_strict)
    then show ?thesis by (intro exI [of _ "[]"] exI [of _ "m # ms"] exI [of _ q]) simp
  qed
qed simp

text \<open>
  The bytes that arrive are appended to those left over from the callback before; then the
  message callback runs, with enough rounds to take the buffer apart.
\<close>

fun receive :: "'j libs \<Rightarrow> (tcp_conn \<times> tcp_conn) list \<Rightarrow> tcp_conn \<Rightarrow> string \<Rightarrow> string list
    \<Rightarrow> (string \<times> 'j net_event list) option" where
  "receive Q conns c left [] = Some (left, [])"
| "receive Q conns c left (chunk # chunks) = do {
     (b, evs) \<leftarrow> server_onMessage (Suc (length (left @ chunk))) sb_ops Q conns c (StringBuffer (left @ chunk));
     (left', evs') \<leftarrow> receive Q conns c (sb_content b) chunks;
     Some (left', evs @ evs') }"

lemma sb_content_new [simp]: "sb_content (StringBuffer s) = s"
  by (simp add: sb_content_def StringBuffer_def)

lemma short_not_processed: "sb_content b = [] \<Longrightarrow> \<not> canProcessed sb_ops b"
  by (simp add: sb.canProcessed_iff)

lemma rest_waits:
  assumes "p = [] \<or> (\<exists>m ms'. ms = m # ms' \<and> strict_prefix p (frame Q m))" "\<forall>m \<in> set ms. sendable Q m" "sb_content b = p"
  shows "\<not> canProcessed sb_ops b" "length p \<le> maxdatalen"
proof -
  have "\<not> canProcessed sb_ops b \<and> length p \<le> maxdatalen"
  proof (cases "p = []")
    case False
    then obtain m ms' where m: "ms = m # ms'" "strict_prefix p (frame Q m)" using assms(1) by blast
    then have "sendable Q m" using assms(2) by simp
    from sb.part_waits [OF this, of b] m(2) assms(3) show ?thesis by simp
  qed (use assms(3) short_not_processed in simp)
  then show "\<not> canProcessed sb_ops b" "length p \<le> maxdatalen" by simp_all
qed

lemma frames_count:
  assumes "\<forall>m \<in> set ms. sendable Q m"
  shows "length ms \<le> length (concat (map (frame Q) ms))"
  using assms
proof (induction ms)
  case (Cons m ms)
  then show ?case using frame_length [of Q m] by simp
qed simp

lemma receive_delivers:
  assumes "\<forall>m \<in> set ms. sendable Q m" "left @ concat chunks = concat (map (frame Q) ms)" "map_of conns c = Some mc"
    and "left = [] \<or> (\<exists>m ms'. ms = m # ms' \<and> strict_prefix left (frame Q m))"
  shows "receive Q conns c left chunks = Some ([], map (\<lambda>m. CbMessage mc (the (arrived Q m))) ms)"
  using assms
proof (induction chunks arbitrary: left ms)
  case Nil
  then show ?case
  proof (cases ms)
    case (Cons m ms')
    have "length (frame Q m) \<le> length left" using Nil.prems(2) Cons by (simp add: Nil)
    moreover have "12 < length (frame Q m)" using Nil.prems(1) Cons frame_length by force
    ultimately show ?thesis using Nil.prems(4) Cons prefix_length_less by force
  qed simp
next
  case (Cons chunk chunks)
  have "concat (map (frame Q) ms) = (left @ chunk) @ concat chunks" using Cons.prems(2) by simp
  then have "prefix (left @ chunk) (concat (map (frame Q) ms))" by (rule prefixI)
  from prefix_of_frames [OF this] obtain ms1 ms2 p where ms: "ms = ms1 @ ms2" "left @ chunk = concat (map (frame Q) ms1) @ p"
    "p = [] \<or> (\<exists>m ms3. ms2 = m # ms3 \<and> strict_prefix p (frame Q m))" by (elim exE conjE) (rule that)
  have "\<forall>m \<in> set ms2. sendable Q m" using Cons.prems(1) ms(1) by simp
  note p = rest_waits(1) [OF ms(3) this] and len = rest_waits(2) [OF ms(3) this sb_content_new]
  have good: "\<forall>m \<in> set ms1. sendable Q m" using Cons.prems(1) ms(1) by simp
  have "length ms1 < Suc (length (left @ chunk))" using frames_count [OF good] ms(2) by simp
  then obtain b' where b': "server_onMessage (Suc (length (left @ chunk))) sb_ops Q conns c (StringBuffer (left @ chunk))
      = Some (b', map (\<lambda>m. CbMessage mc (the (arrived Q m))) ms1)" "sb_content b' = p"
    using sb.loop_delivers [of ms1 Q "StringBuffer (left @ chunk)" p conns c mc, OF _ _ p len Cons.prems(3)] good ms(2)
    by (metis sb_content_new)
  have "p @ concat chunks = concat (map (frame Q) ms2)"
  proof -
    have "(left @ chunk) @ concat chunks = concat (map (frame Q) (ms1 @ ms2))" using Cons.prems(2) ms(1) by simp
    then show ?thesis unfolding ms(2) by simp
  qed
  then have "receive Q conns c p chunks = Some ([], map (\<lambda>m. CbMessage mc (the (arrived Q m))) ms2)"
    using Cons.IH [of ms2 p] Cons.prems(1,3) ms(1,3) by auto
  then show ?case using b' ms(1) by (simp del: server_onMessage.simps)
qed


subsection \<open>Arbitrary input\<close>

text \<open>
  A step of the loop: a message is taken off the buffer and handed on. A buffer that ends
  within the twelve bytes of a header whose length field is below eight is \<open>cut_short\<close>: the code
  reads past its end there, which the buffer does not promise anything about.
\<close>

inductive takes :: "'b buffer_ops \<Rightarrow> 'j libs \<Rightarrow> (tcp_conn \<times> tcp_conn) list \<Rightarrow> tcp_conn \<Rightarrow> 'b \<Rightarrow> 'b \<Rightarrow> bool"
  for ops Q conns c where
  stop: "takes ops Q conns c b b"
| message: "canProcessed ops b \<Longrightarrow> lv_onMessage ops Q b = Some (True, Some m, b1) \<Longrightarrow> map_of conns c = Some mc
    \<Longrightarrow> takes ops Q conns c b1 b2 \<Longrightarrow> takes ops Q conns c b b2"

definition cut_short :: "'b buffer_ops \<Rightarrow> 'b \<Rightarrow> bool" where
  "cut_short ops b \<longleftrightarrow> canProcessed ops b \<and> readableSize ops b < 12"

context base_buffer
begin

lemma onMessage_consumes:
  assumes "canProcessed ops b" "\<not> cut_short ops b" "lv_onMessage ops Q b = Some (True, Some m, b')"
  shows "length (content b') + 12 \<le> length (content b)"
proof -
  define b1 where "b1 = snd (readInt32 ops b)"
  define b2 where "b2 = snd (readInt32 ops b1)"
  define b3 where "b3 = snd (readInt32 ops b2)"
  define t where "t = fst (readInt32 ops b)"
  define il where "il = fst (readInt32 ops b2)"
  have len: "12 \<le> length (content b)" using assms(1,2) by (simp add: cut_short_def readable)
  have c1: "content b1 = drop 4 (content b)" using len by (simp add: b1_def read_rest)
  have c2: "content b2 = drop 8 (content b)" using len c1 by (simp add: b2_def read_rest)
  have c3: "content b3 = drop 12 (content b)" using len c2 by (simp add: b3_def read_rest)
  have t: "t \<le> int (length (content b)) - 4"
    using assms(1) len by (simp add: canProcessed_iff t_def read_val of_nat_diff)
  let ?dl = "t - 8 - il"
  have *: "lv_onMessage ops Q b = (if t < 0 \<or> il < 0 \<or> ?dl < 0 then Some (False, None, b3)
      else let (mid, b4) = retrieveAsString ops b3 (nat il); (body, b5) = retrieveAsString ops b4 (nat ?dl) in
        map_option (\<lambda>(ret, msg). (ret, msg, b5)) (lv_decode Q (fst (readInt32 ops b1)) mid body))"
    using assms(1) by (simp add: lv_onMessage_def case_prod_beta Let_def t_def il_def b1_def b2_def b3_def)
  then have pos: "0 \<le> il" "0 \<le> ?dl" using assms(3) by (auto split: if_splits)
  define b4 where "b4 = snd (retrieveAsString ops b3 (nat il))"
  have b': "b' = snd (retrieveAsString ops b4 (nat ?dl))"
    using assms(3) pos unfolding * by (auto simp: case_prod_beta b4_def split: if_splits)
  have c4: "content b4 = drop (12 + nat il) (content b)" using t pos c3 by (simp add: b4_def string_rest add.commute)
  have "nat ?dl \<le> length (content b4)" using t pos c4 by simp
  then show ?thesis using c4 len by (simp add: b' string_rest)
qed

text \<open>A frame with length field zero is refused.\<close>

lemma refused:
  assumes "content b = be32 0 @ be32 ty @ be32 il @ rest"
  shows "\<exists>b'. lv_onMessage ops Q b = Some (False, None, b')"
proof -
  have "canProcessed ops b" "fst (readInt32 ops b) = 0" using assms by (simp_all add: canProcessed_iff read_val)
  then show ?thesis by (cases "fst (readInt32 ops (snd (readInt32 ops (snd (readInt32 ops b))))) < 0")
    (auto simp: lv_onMessage_def case_prod_beta Let_def)
qed

text \<open>The loop either returns, or it comes to a buffer on which decoding throws or which is cut short.\<close>

lemma loop_ends:
  assumes "length (content b) < n"
  shows "(\<exists>b' evs. server_onMessage n ops Q conns c b = Some (b', evs) \<and> 12 * length evs \<le> length (content b) + 12)
     \<or> (\<exists>b'. takes ops Q conns c b b' \<and> canProcessed ops b' \<and> (lv_onMessage ops Q b' = None \<or> cut_short ops b'))"
  using assms
proof (induction n arbitrary: b)
  case (Suc n)
  show ?case
  proof (cases "canProcessed ops b \<and> \<not> cut_short ops b \<and> lv_onMessage ops Q b \<noteq> None")
    case True
    then obtain ret msg b1 where r: "lv_onMessage ops Q b = Some (ret, msg, b1)" by auto
    show ?thesis
    proof (cases "ret \<and> msg \<noteq> None \<and> map_of conns c \<noteq> None")
      case True
      then obtain m mc where m: "ret" "msg = Some m" "map_of conns c = Some mc" by auto
      have sh: "length (content b1) + 12 \<le> length (content b)"
        using onMessage_consumes [of b Q m b1] \<open>canProcessed ops b \<and> _\<close> r m by simp
      have step: "takes ops Q conns c b1 b' \<Longrightarrow> takes ops Q conns c b b'" for b'
        using takes.message [of ops b Q m b1 conns c mc] \<open>canProcessed ops b \<and> _\<close> r m by simp
      have "server_onMessage (Suc n) ops Q conns c b = map_option (apsnd ((#) (CbMessage mc m))) (server_onMessage n ops Q conns c b1)"
        using \<open>canProcessed ops b \<and> _\<close> r m by simp
      then show ?thesis using Suc.IH [of b1] Suc.prems sh step by fastforce
    next
      case False
      then have "server_onMessage (Suc n) ops Q conns c b = Some (b1, [Shutdown c])"
        using r \<open>canProcessed ops b \<and> _\<close> by (auto split: option.splits bool.splits)
      then show ?thesis by (simp del: server_onMessage.simps)
    qed
  next
    case False
    then show ?thesis
      using takes.stop [of ops Q conns c b] by (cases "canProcessed ops b") (auto simp del: not_None_eq)
  qed
qed simp

end

text \<open>A body whose \<open>id\<close> member is no text makes \<open>unserialize\<close> throw.\<close>

context base_buffer
begin

lemma bad_id_throws:
  assumes b: "content b = be32 t @ be32 0 @ be32 0 @ body @ rest" and t: "sint t = 8 + int (length body)"
    and v: "j_parse (lib_json Q) body = Some v" "j_isObject (lib_json Q) v"
      "j_find (lib_json Q) v ''id'' = Some (Some w)" "j_asString (lib_json Q) w = None"
  shows "canProcessed ops b \<and> lv_onMessage ops Q b = None"
proof -
  define b1 where "b1 = snd (readInt32 ops b)"
  define b2 where "b2 = snd (readInt32 ops b1)"
  define b3 where "b3 = snd (readInt32 ops b2)"
  define b4 where "b4 = snd (retrieveAsString ops b3 0)"
  have c1: "content b1 = be32 0 @ be32 0 @ body @ rest" using b by (simp add: b1_def read_rest)
  have c2: "content b2 = be32 0 @ body @ rest" using c1 by (simp add: b2_def read_rest)
  have c3: "content b3 = body @ rest" using c2 by (simp add: b3_def read_rest)
  have c4: "content b4 = body @ rest" using c3 by (simp add: b4_def string_rest)
  have rd: "readInt32 ops b = (sint t, b1)" "readInt32 ops b1 = (0, b2)" "readInt32 ops b2 = (0, b3)"
    "retrieveAsString ops b3 0 = ([], b4)" "fst (retrieveAsString ops b4 (length body)) = body"
    by (simp_all add: prod_eq_iff b1_def b2_def b3_def b4_def read_val string_val b
        c1 [unfolded b1_def] c2 [unfolded b1_def b2_def] c3 [unfolded b1_def b2_def b3_def]
        c4 [unfolded b1_def b2_def b3_def b4_def])
  have "MessageFactory_create (lib_json Q) 0 = Some \<lparr>m_type = REQ_RPC, m_rid = [], m_payload = RpcRequest (j_null (lib_json Q))\<rparr>"
    by (simp add: MessageFactory_create_def msg_type_of_def msg_types_def)
  moreover have "decode Q body \<lparr>m_type = REQ_RPC, m_rid = [], m_payload = RpcRequest (j_null (lib_json Q))\<rparr> = None"
    using v by (simp add: decode_def decode_json_def JsonMessage_unserialize_def)
  moreover have can: "canProcessed ops b" using b t by (simp add: canProcessed_iff)
  ultimately show ?thesis using t by (simp add: lv_onMessage_def lv_decode_def rd(1-4) case_prod_beta rd(5))
qed

end

subsection \<open>Properties\<close>

definition demo_req :: "json base_message" where
  "demo_req = \<lparr>m_type = REQ_RPC_PROTO, m_rid = ''r'', m_payload = ProtoRpcRequest (new_rpc_req\<lparr>rq_method := ''add''\<rparr>)\<rparr>"

definition const_codec :: "'e \<Rightarrow> 'e pb_codec" where
  "const_codec e = \<lparr>pb_write = \<lambda>_. Some ''x'', pb_parse = \<lambda>_. Some e, pb_size = \<lambda>_. 1, pb_write_array = \<lambda>_ _. Some ''x''\<rparr>"

definition demo_libs :: "(string \<Rightarrow> json option) \<Rightarrow> json libs" where
  "demo_libs pa = \<lparr>lib_json = json_tree (\<lambda>_. None) pa,
     lib_pb = \<lparr>pb_rpc_req = const_codec (new_rpc_req\<lparr>rq_method := ''add'', rq_id := ''r''\<rparr>), pb_rpc_resp = const_codec new_rpc_resp,
       pb_topic_req = const_codec new_topic_req, pb_topic_resp = const_codec new_topic_resp,
       pb_service_req = const_codec new_service_req, pb_service_resp = const_codec new_service_resp\<rparr>\<rparr>"

lemmas demo_defs = demo_req_def demo_libs_def const_codec_def new_rpc_req_def encode_def ProtoRpcRequest_serialize_def
  ProtoRpcRequest_stamp_def pb_serialize_def arrived_def

lemma demo_sendable: "sendable (demo_libs pa) demo_req"
proof -
  have "json_api (lib_json (demo_libs pa))" by (simp add: demo_libs_def jt.json_api_axioms)
  then show ?thesis
    by (simp add: sendable_def libs_read_back_def pb_reads_back_def well_typed_def demo_defs maxdatalen_def)
qed

text \<open>
  Property C2. Framing is a round trip: a message of any class, encoded into a frame and followed
  by any further bytes, is taken off the buffer as the same message (with its id stamped into the
  body where the class does so and without the retry hint, which is not part of the wire format),
  and exactly the further bytes stay in the buffer.
\<close>

theorem lv_roundtrip:
  assumes "sendable Q m" "lv_serialize Q m = Some (m', s)"
  shows "\<exists>b'. lv_onMessage sb_ops Q (StringBuffer (s @ rest)) = Some (True, arrived Q m, b')
     \<and> sb_content b' = rest \<and> arrived Q m \<noteq> None"
proof -
  have "arrived Q m \<noteq> None" using sendable_frame [OF assms(1)] by (auto simp: frame_parts_def)
  moreover have "frame Q m = s" using assms(2) by (simp add: frame_def)
  ultimately show ?thesis using sb.frame_delivers [OF assms(1), of "StringBuffer (s @ rest)" rest] by simp
qed

theorem lv_roundtrip_witness:
  "\<exists>s b' m'. lv_serialize (demo_libs (\<lambda>_. None)) demo_req = Some (m', s)
     \<and> lv_onMessage sb_ops (demo_libs (\<lambda>_. None)) (StringBuffer (s @ ''rest'')) = Some (True, Some m', b')"
proof -
  obtain s where s: "lv_serialize (demo_libs (\<lambda>_. None)) demo_req
      = Some (demo_req\<lparr>m_payload := ProtoRpcRequest (new_rpc_req\<lparr>rq_method := ''add'', rq_id := ''r''\<rparr>)\<rparr>, s)"
    by (simp add: lv_serialize_def demo_defs Let_def)
  show ?thesis using lv_roundtrip [OF demo_sendable s, of "''rest''"] s by (auto simp: demo_defs)
qed

text \<open>
  Property C7. However the network cuts the byte stream of a connection into pieces, the server
  hands exactly the messages that were sent to the message callback, in order and once each, and
  nothing is left in the buffer when the last piece has arrived.
\<close>

theorem stream_delivers:
  assumes "\<forall>m \<in> set ms. sendable Q m" "concat chunks = concat (map (frame Q) ms)" "map_of conns c = Some mc"
  shows "receive Q conns c [] chunks = Some ([], map (\<lambda>m. CbMessage mc (the (arrived Q m))) ms)"
  using receive_delivers [of ms Q "[]" chunks conns c mc] assms by simp

theorem stream_delivers_witness:
  "receive (demo_libs (\<lambda>_. None)) [(5, 5)] 5 [] [take 7 (frame (demo_libs (\<lambda>_. None)) demo_req),
      drop 7 (frame (demo_libs (\<lambda>_. None)) demo_req) @ frame (demo_libs (\<lambda>_. None)) demo_req]
    = Some ([], map (\<lambda>m. CbMessage 5 (the (arrived (demo_libs (\<lambda>_. None)) m))) [demo_req, demo_req])"
  by (rule stream_delivers) (simp_all add: demo_sendable del: append_take_drop_id flip: append_assoc add: append_take_drop_id)

text \<open>
  Property C33. The receiving loop of the server ends on every input, over any buffer that keeps the
  promises of \<open>BaseBuffer\<close>, whatever bytes are in it. With more rounds than there are bytes it
  returns, after one event for every twelve bytes at most; the only other ways out are that,
  after some messages were handed on, decoding the next one throws, or the buffer ends within the
  header of a frame whose length field is below eight (\<open>net.hpp\<close> line 105 reads past the end then,
  which no buffer defines).
\<close>

theorem server_loop_terminates:
  assumes "base_buffer ops content" "length (content b) < n"
  shows "(\<exists>b' evs. server_onMessage n ops Q conns c b = Some (b', evs) \<and> 12 * length evs \<le> length (content b) + 12)
     \<or> (\<exists>b'. takes ops Q conns c b b' \<and> canProcessed ops b' \<and> (lv_onMessage ops Q b' = None \<or> cut_short ops b'))"
  by (rule base_buffer.loop_ends [OF assms])

text \<open>A request, and after it a header whose length field is zero: the request is delivered, then the loop returns.\<close>

theorem server_loop_terminates_witness:
  "\<exists>b' evs. server_onMessage 100 sb_ops (demo_libs (\<lambda>_. None)) [(5, 5)] 5
       (StringBuffer (frame (demo_libs (\<lambda>_. None)) demo_req @ be32 0 @ be32 0 @ be32 0)) = Some (b', evs)"
proof -
  let ?Q = "demo_libs (\<lambda>_. None)" and ?rest = "be32 0 @ be32 0 @ be32 0"
  let ?b = "StringBuffer (frame ?Q demo_req @ ?rest)"
  have len: "length (frame ?Q demo_req) = 14" by (simp add: frame_def lv_serialize_def demo_defs Let_def)
  obtain b1 where b1: "canProcessed sb_ops ?b" "lv_onMessage sb_ops ?Q ?b = Some (True, arrived ?Q demo_req, b1)" "sb_content b1 = ?rest"
    using sb.frame_delivers [OF demo_sendable [of "\<lambda>_. None"], of ?b ?rest] by auto
  have rest: "lv_onMessage sb_ops ?Q b1 \<noteq> None \<and> \<not> cut_short sb_ops b1
      \<and> (\<forall>m b2. lv_onMessage sb_ops ?Q b1 \<noteq> Some (True, Some m, b2))"
    using sb.refused [of b1 0 0 "[]" ?Q] b1(3) by (auto simp add: cut_short_def sb.readable)
  have no: False
    if "takes sb_ops ?Q [(5, 5)] 5 ?b b'" "canProcessed sb_ops b'" "lv_onMessage sb_ops ?Q b' = None \<or> cut_short sb_ops b'" for b'
    using that(1)
  proof (cases rule: takes.cases)
    case stop
    then show ?thesis using that(3) b1(2) len by (simp add: cut_short_def sb.readable)
  next
    case (message m b2 mc)
    then have "b2 = b1" using b1(2) by simp
    from message(4) [unfolded this] show ?thesis
      by (cases rule: takes.cases) (use rest that(3) in auto)
  qed
  show ?thesis
    using server_loop_terminates [OF sb.base_buffer_axioms, of ?b 100 ?Q "[(5, 5)]" 5] no len by fastforce
qed

text \<open>
  Remark. Decoding does not always return: a complete JSON request whose \<open>id\<close> member is
  an object or an array makes the conversion to text throw, the exception leaves the message
  callback, and no number of rounds makes the loop return.
\<close>

theorem bad_id_escapes:
  assumes "sint t = 8 + int (length body)"
    and "j_parse (lib_json Q) body = Some v" "j_isObject (lib_json Q) v"
    and "j_find (lib_json Q) v ''id'' = Some (Some w)" "j_asString (lib_json Q) w = None"
  shows "server_onMessage n sb_ops Q conns c (StringBuffer (be32 t @ be32 0 @ be32 0 @ body)) = None"
  using sb.bad_id_throws [of "StringBuffer (be32 t @ be32 0 @ be32 0 @ body)" t body "[]" Q v w] assms
  by (cases n) simp_all

theorem bad_id_escapes_witness:
  "server_onMessage 100 sb_ops (demo_libs (\<lambda>_. Some (JObject [(''id'', JArray [])]))) [(5, 5)] 5
     (StringBuffer (be32 9 @ be32 0 @ be32 0 @ ''x'')) = None"
  by (rule bad_id_escapes [where v = "JObject [(''id'', JArray [])]" and w = "JArray []"])
    (simp_all add: demo_libs_def json_tree_def)

end
