(* ===== verification/Rate_Limiter.thy ===== *)
theory Rate_Limiter
  imports Complex_Main
begin

text \<open>
  The token bucket of \<open>rpc/src/general/rate_limiter.hpp\<close>. Its \<open>double\<close> values are
  real numbers here (rounding is not modelled) and the clock is an argument. The metrics that the
  bucket reports are added where they are read, in the gateway.
\<close>

record token_bucket =
  tb_rate :: real
  tb_burst :: real
  tb_tokens :: real
  tb_last_refill :: real

definition TokenBucket :: "real \<Rightarrow> real \<Rightarrow> real \<Rightarrow> token_bucket" where
  "TokenBucket rate burst now = \<lparr>tb_rate = rate, tb_burst = burst, tb_tokens = burst, tb_last_refill = now\<rparr>"

definition refill :: "token_bucket \<Rightarrow> real \<Rightarrow> token_bucket" where
  "refill b now_sec =
     (let elapsed = now_sec - tb_last_refill b;
          tokens = tb_tokens b + elapsed * tb_rate b in
      b\<lparr>tb_tokens := (if tokens > tb_burst b then tb_burst b else tokens), tb_last_refill := now_sec\<rparr>)"

definition allow :: "token_bucket \<Rightarrow> real \<Rightarrow> token_bucket \<times> bool" where
  "allow b now_sec =
     (let b' = refill b now_sec in
      if tb_tokens b' \<ge> 1 then (b'\<lparr>tb_tokens := tb_tokens b' - 1\<rparr>, True) else (b', False))"

definition retryAfterMs :: "token_bucket \<Rightarrow> int" where
  "retryAfterMs b = \<lfloor>1000 / tb_rate b\<rfloor> + 1"

text \<open>Requests at given times: the bucket and the decisions.\<close>

fun allow_all :: "token_bucket \<Rightarrow> real list \<Rightarrow> token_bucket \<times> bool list" where
  "allow_all b [] = (b, [])"
| "allow_all b (t # ts) = (let (b1, ok) = allow b t; (b2, oks) = allow_all b1 ts in (b2, ok # oks))"

definition admitted :: "bool list \<Rightarrow> real" where
  "admitted oks = real (length (filter id oks))"

subsection \<open>Bounds\<close>

definition tb_inv :: "token_bucket \<Rightarrow> bool" where
  "tb_inv b \<longleftrightarrow> 0 < tb_rate b \<and> 0 \<le> tb_burst b \<and> 0 \<le> tb_tokens b \<and> tb_tokens b \<le> tb_burst b"

lemma allow_inv:
  assumes "tb_inv b" "tb_last_refill b \<le> t"
  shows "tb_inv (fst (allow b t))" "tb_last_refill (fst (allow b t)) = t"
    "tb_rate (fst (allow b t)) = tb_rate b" "tb_burst (fst (allow b t)) = tb_burst b"
  using assms by (auto simp: tb_inv_def allow_def refill_def Let_def)

text \<open>Every admission is paid for: by what was in the bucket or by what has flowed in since.\<close>

lemma allow_pays:
  "tb_tokens (fst (allow b t)) \<le> tb_tokens b + (t - tb_last_refill b) * tb_rate b - of_bool (snd (allow b t))"
  by (auto simp: allow_def refill_def Let_def)

lemma allow_all_pays:
  assumes "tb_inv b" "sorted (tb_last_refill b # ts)"
  shows "tb_inv (fst (allow_all b ts)) \<and> tb_rate (fst (allow_all b ts)) = tb_rate b
    \<and> tb_burst (fst (allow_all b ts)) = tb_burst b \<and> tb_last_refill (fst (allow_all b ts)) = last (tb_last_refill b # ts)
    \<and> tb_tokens (fst (allow_all b ts)) + admitted (snd (allow_all b ts))
        \<le> tb_tokens b + (last (tb_last_refill b # ts) - tb_last_refill b) * tb_rate b"
  using assms
proof (induction ts arbitrary: b)
  case (Cons t ts)
  let ?b = "fst (allow b t)"
  have t: "tb_last_refill b \<le> t" using Cons.prems(2) by simp
  note a = allow_inv [OF Cons.prems(1) t]
  have IH: "tb_inv (fst (allow_all ?b ts)) \<and> tb_rate (fst (allow_all ?b ts)) = tb_rate b
    \<and> tb_burst (fst (allow_all ?b ts)) = tb_burst b \<and> tb_last_refill (fst (allow_all ?b ts)) = last (t # ts)
    \<and> tb_tokens (fst (allow_all ?b ts)) + admitted (snd (allow_all ?b ts)) \<le> tb_tokens ?b + (last (t # ts) - t) * tb_rate b"
    using Cons.IH [OF a(1)] Cons.prems(2) a(2-4) by simp
  have "admitted (snd (allow_all b (t # ts))) = of_bool (snd (allow b t)) + admitted (snd (allow_all ?b ts))"
    by (simp add: admitted_def case_prod_beta Let_def)
  moreover have "(last (t # ts) - t) * tb_rate b + (t - tb_last_refill b) * tb_rate b
      = (last (t # ts) - tb_last_refill b) * tb_rate b" by (simp add: algebra_simps)
  ultimately show ?case using IH allow_pays [of b t] by (simp add: case_prod_beta Let_def)
qed (simp add: admitted_def)

text \<open>
  Remark. The limiter bounds the load: over any sequence of requests at non-decreasing times
  the number admitted is at most the burst plus the rate times the time elapsed, and the number of
  tokens never leaves the range from zero to the burst.
\<close>

theorem bucket_bounds_load:
  assumes "0 < rate" "0 \<le> burst" "sorted (t0 # ts)"
  shows "admitted (snd (allow_all (TokenBucket rate burst t0) ts)) \<le> burst + (last (t0 # ts) - t0) * rate
    \<and> 0 \<le> tb_tokens (fst (allow_all (TokenBucket rate burst t0) ts))
    \<and> tb_tokens (fst (allow_all (TokenBucket rate burst t0) ts)) \<le> burst"
proof -
  have "tb_inv (TokenBucket rate burst t0)" using assms(1,2) by (simp add: tb_inv_def TokenBucket_def)
  from allow_all_pays [OF this, of ts] assms(3) show ?thesis by (simp add: tb_inv_def TokenBucket_def)
qed

theorem bucket_bounds_load_witness:
  "admitted (snd (allow_all (TokenBucket 2 1 0) [0, 0, 1])) \<le> 1 + (1 - 0) * 2"
  using bucket_bounds_load [of 2 1 0 "[0, 0, 1]"] by simp

text \<open>
  Remark. The retry hint is enough: a client that was refused and waits the suggested number of
  milliseconds finds a token if nobody else has taken one in between and the burst is at least one.
\<close>

theorem retry_hint_enough:
  assumes "tb_inv b" "1 \<le> tb_burst b" "tb_last_refill b \<le> t" "\<not> snd (allow b t)"
  shows "snd (allow (fst (allow b t)) (t + real_of_int (retryAfterMs b) / 1000))"
proof -
  let ?b = "fst (allow b t)" and ?w = "real_of_int (retryAfterMs b) / 1000"
  note a = allow_inv [OF assms(1,3)]
  have r: "0 < tb_rate b" using assms(1) by (simp add: tb_inv_def)
  have "1000 / tb_rate b < real_of_int (retryAfterMs b)" by (simp add: retryAfterMs_def)
  then have "1 \<le> ?w * tb_rate b" using r by (simp add: field_simps)
  moreover have "0 \<le> tb_tokens ?b" using a(1) by (simp add: tb_inv_def)
  ultimately have "1 \<le> tb_tokens ?b + (t + ?w - tb_last_refill ?b) * tb_rate ?b" using a(2,3) by simp
  then show ?thesis using assms(2) a(4) unfolding allow_def [of ?b] refill_def [of ?b] by (simp add: Let_def)
qed

theorem retry_hint_enough_witness:
  "snd (allow (fst (allow (fst (allow (TokenBucket 2 1 0) 0)) 0)) (0 + real_of_int 501 / 1000))"
proof -
  let ?b = "fst (allow (TokenBucket 2 1 0) 0)"
  have "tb_inv ?b" "1 \<le> tb_burst ?b" "tb_last_refill ?b \<le> 0" "\<not> snd (allow ?b 0)" "retryAfterMs ?b = 501"
    by (simp_all add: tb_inv_def allow_def refill_def TokenBucket_def retryAfterMs_def Let_def)
  then show ?thesis using retry_hint_enough [of ?b 0] by simp
qed

end
