(* ===== verification/Rpc_Router.thy ===== *)
theory Rpc_Router
  imports LV_Correct Rate_Limiter
begin

text \<open>
  The server side of a call: the dispatcher of \<open>rpc/src/general/dispacher.hpp\<close>, which
  hands a message to the handler of its type, and the two routers of
  \<open>rpc/src/server/rpc_router.hpp\<close>, which check the rate limit, find the service, check
  types, run the user's function and answer.

  User functions are parameters. An exception is \<^const>\<open>None\<close>.
\<close>

fun resp_code_code :: "resp_code \<Rightarrow> int" where
  "resp_code_code SUCCESS = 0"
| "resp_code_code PARSE_FAILED = 1"
| "resp_code_code INVALID_MSGTYPE = 2"
| "resp_code_code INVALID_MSG = 3"
| "resp_code_code CONNECTION_CLOSED = 4"
| "resp_code_code INVALID_PARAMS = 5"
| "resp_code_code SERVICE_NOT_FOUND = 6"
| "resp_code_code INVALID_OPTYPE = 7"
| "resp_code_code TOPIC_NOT_FOUND = 8"
| "resp_code_code INTERNAL_ERROR = 9"
| "resp_code_code resp_code.TIMEOUT = 10"
| "resp_code_code resp_code.BACKOFF = 11"

lemma resp_code_inj [simp]: "resp_code_code a = resp_code_code b \<longleftrightarrow> a = b"
  by (cases a; cases b) simp_all

lemma resp_code_zero [simp]: "resp_code_code a = 0 \<longleftrightarrow> a = SUCCESS"
  by (cases a) simp_all

lemma resp_code_range: "in_int32 (resp_code_code a)"
  by (cases a) (simp_all add: in_int32_def)

subsection \<open>Dispatching\<close>

text \<open>
  A handler is registered for a type number and a message class (\<^const>\<open>None\<close> for the base
  class). The first registration of a type stays.
\<close>

type_synonym 'h dispatcher = "(msg_type \<times> msg_type option \<times> 'h) list"

definition registerhandler :: "'h dispatcher \<Rightarrow> msg_type \<Rightarrow> msg_type option \<Rightarrow> 'h \<Rightarrow> 'h dispatcher" where
  "registerhandler hs t cls h = (if map_of hs t = None then (t, cls, h) # hs else hs)"

datatype ('h, 'j) dispatched = Ignored | Called 'h "'j base_message option" | ConnShutdown

definition dyn_cast :: "msg_type option \<Rightarrow> 'j base_message \<Rightarrow> 'j base_message option" where
  "dyn_cast cls m =
     (case cls of None \<Rightarrow> Some m | Some c \<Rightarrow> if payload_type (m_payload m) = c then Some m else None)"

definition dispatch :: "'h dispatcher \<Rightarrow> 'j base_message option \<Rightarrow> ('h, 'j) dispatched" where
  "dispatch hs msg =
     (case msg of
        None \<Rightarrow> Ignored
      | Some m \<Rightarrow>
          (case map_of hs (m_type m) of
             Some (cls, h) \<Rightarrow> Called h (dyn_cast cls m)
           | None \<Rightarrow> ConnShutdown))"

subsection \<open>Services\<close>

datatype val_type = BOOL | INTEGRAL | NUMERIC | STRING | ARRAY | OBJECT | NULL_TYPE

record 'j service =
  sv_method :: string
  sv_cb :: "'j \<Rightarrow> 'j option"
  sv_params :: "(string \<times> val_type) list"
  sv_return :: val_type

fun check_type :: "'j json_lib \<Rightarrow> val_type \<Rightarrow> 'j \<Rightarrow> bool" where
  "check_type L BOOL v = j_isBool L v"
| "check_type L INTEGRAL v = j_isIntegral L v"
| "check_type L NUMERIC v = j_isNumeric L v"
| "check_type L STRING v = j_isString L v"
| "check_type L ARRAY v = j_isArray L v"
| "check_type L OBJECT v = j_isObject L v"
| "check_type L NULL_TYPE v = j_isNull L v"

fun checkParams :: "'j json_lib \<Rightarrow> (string \<times> val_type) list \<Rightarrow> 'j \<Rightarrow> bool option" where
  "checkParams L [] params = Some True"
| "checkParams L ((n, ty) # ds) params = do {
     v \<leftarrow> j_find L params n;
     (case v of
        None \<Rightarrow> Some False
      | Some x \<Rightarrow> if \<not> check_type L ty x then Some False else checkParams L ds params) }"

text \<open>The flag and the result; the result starts as null.\<close>

definition service_call :: "'j json_lib \<Rightarrow> 'j service \<Rightarrow> 'j \<Rightarrow> (bool \<times> 'j) option" where
  "service_call L sv param = map_option (\<lambda>result. (check_type L (sv_return sv) result, result)) (sv_cb sv param)"

record 'j service_factory =
  sf_method :: string
  sf_cb :: "'j \<Rightarrow> 'j option"
  sf_params :: "(string \<times> val_type) list"
  sf_return :: val_type

definition setParamdescribe :: "'j service_factory \<Rightarrow> string \<Rightarrow> val_type \<Rightarrow> 'j service_factory" where
  "setParamdescribe f n ty = f\<lparr>sf_params := sf_params f @ [(n, ty)]\<rparr>"

definition build :: "'j service_factory \<Rightarrow> 'j service" where
  "build f = \<lparr>sv_method = sf_method f, sv_cb = sf_cb f, sv_params = sf_params f, sv_return = sf_return f\<rparr>"

type_synonym 'j service_manager = "(string \<times> 'j service) list"

definition sm_add :: "'j service_manager \<Rightarrow> 'j service \<Rightarrow> 'j service_manager" where
  "sm_add sm sv = AList.update (sv_method sv) sv sm"

definition sm_select :: "'j service_manager \<Rightarrow> string \<Rightarrow> 'j service option" where
  "sm_select sm m = map_of sm m"

definition sm_remove :: "'j service_manager \<Rightarrow> string \<Rightarrow> 'j service_manager \<times> bool" where
  "sm_remove sm m = (case map_of sm m of None \<Rightarrow> (sm, False) | Some _ \<Rightarrow> (AList.delete m sm, True))"

subsection \<open>The JSON router\<close>

record 'j rpc_router =
  rr_manager :: "'j service_manager"
  rr_rate_limiter :: "token_bucket option"

definition setRateLimiter :: "'j rpc_router \<Rightarrow> token_bucket option \<Rightarrow> 'j rpc_router" where
  "setRateLimiter r b = r\<lparr>rr_rate_limiter := b\<rparr>"

definition registerMethod :: "'j rpc_router \<Rightarrow> 'j service \<Rightarrow> 'j rpc_router" where
  "registerMethod r sv = r\<lparr>rr_manager := sm_add (rr_manager r) sv\<rparr>"

definition response :: "'j json_lib \<Rightarrow> string \<Rightarrow> 'j \<Rightarrow> resp_code \<Rightarrow> 'j base_message option" where
  "response L rid result rcode = do {
     d1 \<leftarrow> JsonResponse_setRcode L (j_null L) (resp_code_code rcode);
     d2 \<leftarrow> JsonResponse_setResult L d1 result;
     Some \<lparr>m_type = RSP_RPC, m_rid = rid, m_payload = RpcResponse d2\<rparr> }"

definition backoff_response :: "'j json_lib \<Rightarrow> string \<Rightarrow> token_bucket \<Rightarrow> 'j base_message option" where
  "backoff_response L rid b = do {
     d1 \<leftarrow> JsonResponse_setRcode L (j_null L) (resp_code_code resp_code.BACKOFF);
     d2 \<leftarrow> JsonResponse_setRetryAfterMs L d1 (retryAfterMs b);
     Some \<lparr>m_type = RSP_RPC, m_rid = rid, m_payload = RpcResponse d2\<rparr> }"

text \<open>The limiter, if there is one, is asked first.\<close>

definition limit :: "token_bucket option \<Rightarrow> real \<Rightarrow> token_bucket option \<times> bool" where
  "limit rl now = (case rl of None \<Rightarrow> (None, True) | Some b \<Rightarrow> (let (b', ok) = allow b now in (Some b', ok)))"

definition serve :: "'j json_lib \<Rightarrow> 'j service_manager \<Rightarrow> string \<Rightarrow> 'j \<Rightarrow> 'j base_message option" where
  "serve L sm rid d = do {
     m \<leftarrow> JsonRequest_method L d;
     trace \<leftarrow> JsonRequest_trace_id L d;
     span \<leftarrow> JsonRequest_span_id L d;
     (case sm_select sm m of
        None \<Rightarrow> response L rid (j_null L) SERVICE_NOT_FOUND
      | Some sv \<Rightarrow> do {
          params \<leftarrow> RpcRequest_params L d;
          ok \<leftarrow> checkParams L (sv_params sv) params;
          if \<not> ok then response L rid (j_null L) INVALID_PARAMS
          else do {
            (ret, result) \<leftarrow> service_call L sv params;
            if \<not> ret then response L rid (j_null L) INTERNAL_ERROR
            else response L rid result SUCCESS } }) }"

definition onrpcRequst ::
  "'j json_lib \<Rightarrow> 'j rpc_router \<Rightarrow> real \<Rightarrow> string \<Rightarrow> 'j \<Rightarrow> ('j rpc_router \<times> 'j base_message) option" where
  "onrpcRequst L r now rid d =
     (let (rl, ok) = limit (rr_rate_limiter r) now;
          r' = r\<lparr>rr_rate_limiter := rl\<rparr> in
      if \<not> ok then do {
        m \<leftarrow> JsonRequest_method L d;
        b \<leftarrow> rl;
        resp \<leftarrow> backoff_response L rid b;
        Some (r', resp) }
      else map_option (Pair r') (serve L (rr_manager r) rid d))"

subsection \<open>The Protobuf router\<close>

text \<open>
  A registered handler: parse the body, run the user's function (an exception of it is caught),
  encode its answer.
\<close>

definition registerProtoHandler ::
  "(string \<Rightarrow> 'q option) \<Rightarrow> ('q \<Rightarrow> 'r option) \<Rightarrow> ('r \<Rightarrow> string option) \<Rightarrow> string \<Rightarrow> resp_code \<times> string" where
  "registerProtoHandler parse handler ser body =
     (case parse body of
        None \<Rightarrow> (PARSE_FAILED, [])
      | Some q \<Rightarrow>
          (case handler q of
             None \<Rightarrow> (INTERNAL_ERROR, [])
           | Some r \<Rightarrow> (case ser r of None \<Rightarrow> (INTERNAL_ERROR, []) | Some s \<Rightarrow> (SUCCESS, s))))"

record proto_router =
  pr_handlers :: "(string \<times> (string \<Rightarrow> resp_code \<times> string)) list"
  pr_rate_limiter :: "token_bucket option"

definition sendProtoResponse :: "string \<Rightarrow> resp_code \<Rightarrow> string \<Rightarrow> int \<Rightarrow> 'j base_message" where
  "sendProtoResponse rid rcode body retry_after_ms =
     \<lparr>m_type = RSP_RPC_PROTO, m_rid = rid,
      m_payload = ProtoRpcResponse (new_rpc_resp\<lparr>rs_rcode := resp_code_code rcode, rs_body := body\<rparr>)
        (if retry_after_ms > 0 then retry_after_ms else 0)\<rparr>"

definition onProtoRequest ::
  "proto_router \<Rightarrow> real \<Rightarrow> string \<Rightarrow> rpc_request_envelope \<Rightarrow> proto_router \<times> 'j base_message" where
  "onProtoRequest r now rid e =
     (case limit (pr_rate_limiter r) now of
        (rl, ok) \<Rightarrow>
          let r' = r\<lparr>pr_rate_limiter := rl\<rparr> in
          if \<not> ok then (r', sendProtoResponse rid resp_code.BACKOFF [] (case rl of None \<Rightarrow> 0 | Some b \<Rightarrow> retryAfterMs b))
          else (case map_of (pr_handlers r) (rq_method e) of
             None \<Rightarrow> (r', sendProtoResponse rid SERVICE_NOT_FOUND [] 0)
           | Some h \<Rightarrow> (let (rc, body) = h (rq_body e) in (r', sendProtoResponse rid rc body 0))))"


subsection \<open>What is delivered fits its handler\<close>

lemma lv_onMessage_typed:
  assumes "lv_onMessage ops Q b = Some (True, Some m, b')"
  shows "well_typed m"
proof -
  obtain ty mid body where d: "lv_decode Q ty mid body = Some (True, Some m)"
    using assms by (auto simp: lv_onMessage_def Let_def case_prod_beta split: if_splits)
  then obtain m0 m1 where m0: "MessageFactory_create (lib_json Q) ty = Some m0" "decode Q body m0 = Some (True, m1)"
    and m: "m = m1\<lparr>m_rid := mid, m_type := m_type m0\<rparr>"
    by (auto simp: lv_decode_def split: option.splits if_splits)
  have "well_typed m1 \<and> m_type m1 = m_type m0" using decode_keeps_type [OF m0(2)] factory_typed [OF m0(1)] by blast
  then show ?thesis by (auto simp: m well_typed_def)
qed

lemma server_delivers_typed:
  assumes "server_onMessage n ops Q conns c b = Some (b', evs)" "CbMessage mc m \<in> set evs"
  shows "well_typed m"
  using assms
proof (induction n arbitrary: b b' evs)
  case (Suc n)
  show ?case
  proof (cases "canProcessed ops b")
    case True
    then obtain ret msg b1 where r: "lv_onMessage ops Q b = Some (ret, msg, b1)" using Suc.prems by (auto simp: bind_eq_Some_conv)
    show ?thesis
    proof (cases "\<exists>m'. ret \<and> msg = Some m' \<and> map_of conns c \<noteq> None")
      case False
      then show ?thesis using Suc.prems True r by (auto split: option.splits bool.splits)
    next
      case dispatched: True
      then obtain m' mc' evs' where m': "ret" "msg = Some m'" "map_of conns c = Some mc'"
        and rest: "server_onMessage n ops Q conns c b1 = Some (b', evs')" "evs = CbMessage mc' m' # evs'"
        using Suc.prems(1) True r by auto
      show ?thesis
        using Suc.IH [OF rest(1)] Suc.prems(2) rest(2) r m'(1,2) lv_onMessage_typed by auto
    qed
  qed (use Suc.prems in \<open>auto split: if_splits\<close>)
qed simp

definition classes_match :: "'h dispatcher \<Rightarrow> bool" where
  "classes_match hs \<longleftrightarrow> (\<forall>(t, cls, h) \<in> set hs. cls = None \<or> cls = Some t)"

text \<open>
  Property C31. Whatever bytes arrive, every message the receiving loop delivers is an object of the
  class its type number names, so a handler registered for the class of its type is never called
  with a null pointer by the cast in the dispatcher.
\<close>

theorem delivered_message_fits_handler:
  assumes "server_onMessage n ops Q conns c b = Some (b', evs)" "CbMessage mc m \<in> set evs" "classes_match hs"
  shows "dispatch hs (Some m) \<in> {ConnShutdown} \<union> {Called h (Some m) |h. True}"
proof (cases "map_of hs (m_type m)")
  case (Some p)
  obtain cls h where p: "p = (cls, h)" by fastforce
  have "(m_type m, cls, h) \<in> set hs" using map_of_SomeD [OF Some] p by simp
  then have "cls = None \<or> cls = Some (m_type m)" using assms(3) by (auto simp: classes_match_def)
  moreover have "payload_type (m_payload m) = m_type m"
    using server_delivers_typed [OF assms(1,2)] by (simp add: well_typed_def)
  ultimately show ?thesis using Some p by (auto simp: dispatch_def dyn_cast_def)
qed (simp add: dispatch_def)

theorem delivered_message_fits_handler_witness:
  "dispatch (registerhandler [] REQ_RPC_PROTO (Some REQ_RPC_PROTO) ''h'') (arrived (demo_libs (\<lambda>_. None)) demo_req)
     \<in> {ConnShutdown} \<union> {Called h (arrived (demo_libs (\<lambda>_. None)) demo_req) |h. True}"
proof -
  let ?Q = "demo_libs (\<lambda>_. None)"
  obtain m where m: "arrived ?Q demo_req = Some m" by (simp add: demo_defs)
  obtain b' where "server_onMessage 2 sb_ops ?Q [(5, 5)] 5 (StringBuffer (frame ?Q demo_req)) = Some (b', [CbMessage 5 m])"
    using sb.loop_delivers [of "[demo_req]" ?Q "StringBuffer (frame ?Q demo_req)" "[]" "[(5, 5)]" 5 5 2] demo_sendable
      short_not_processed m by auto
  then have "dispatch (registerhandler [] REQ_RPC_PROTO (Some REQ_RPC_PROTO) ''h'') (Some m)
      \<in> {ConnShutdown} \<union> {Called h (Some m) |h. True}"
    by (rule delivered_message_fits_handler) (simp_all add: classes_match_def registerhandler_def)
  then show ?thesis by (simp add: m)
qed

subsection \<open>Typed calls\<close>

lemma checkParams_types:
  assumes "checkParams L ds params = Some True"
  shows "\<forall>(n, ty) \<in> set ds. \<exists>v. j_find L params n = Some (Some v) \<and> check_type L ty v"
  using assms
proof (induction ds)
  case (Cons a ds)
  obtain n ty where a: "a = (n, ty)" by fastforce
  then obtain x where "j_find L params n = Some x" using Cons.prems by (auto simp: bind_eq_Some_conv)
  then show ?case using Cons a by (cases x) (auto split: if_splits)
qed simp

lemma response_reads:
  assumes "json_api L" "response L rid result rc = Some resp"
  shows "m_type resp = RSP_RPC \<and> m_rid resp = rid \<and> (\<exists>d. m_payload resp = RpcResponse d
    \<and> JsonResponse_rcode L d = Some (resp_code_code rc) \<and> JsonResponse_result L d = Some result)"
proof -
  obtain d1 d2 where d: "j_put L (j_null L) KEY_RCODE (j_int L (resp_code_code rc)) = Some d1"
    "j_put L d1 KEY_RESULT result = Some d2" "resp = \<lparr>m_type = RSP_RPC, m_rid = rid, m_payload = RpcResponse d2\<rparr>"
    using assms(2) by (auto simp: response_def JsonResponse_setRcode_def JsonResponse_setResult_def bind_eq_Some_conv)
  show ?thesis
    by (simp add: d(3) JsonResponse_rcode_def JsonResponse_result_def get_int_def json_api.index_put [OF assms(1) d(2)]
        json_api.index_put [OF assms(1) d(1)] json_api.asInt [OF assms(1) resp_code_range] keys)
qed

text \<open>
  Remark. A JSON call that is answered with success was typed at both ends: the service exists,
  every declared parameter is present with its declared type, and the answer is the value the
  service function returned, which has the declared type. The answer carries the id of the request.
\<close>

theorem success_is_typed:
  assumes "json_api L" "serve L sm rid d = Some resp"
    and "m_payload resp = RpcResponse rd" "JsonResponse_rcode L rd = Some (resp_code_code SUCCESS)"
  shows "m_rid resp = rid \<and> m_type resp = RSP_RPC \<and> (\<exists>m sv params result.
     JsonRequest_method L d = Some m \<and> sm_select sm m = Some sv \<and> RpcRequest_params L d = Some params
     \<and> (\<forall>(n, ty) \<in> set (sv_params sv). \<exists>v. j_find L params n = Some (Some v) \<and> check_type L ty v)
     \<and> sv_cb sv params = Some result \<and> check_type L (sv_return sv) result \<and> JsonResponse_result L rd = Some result)"
proof -
  obtain m where m: "JsonRequest_method L d = Some m" using assms(2) by (auto simp: serve_def bind_eq_Some_conv)
  have no: "rc = SUCCESS \<and> JsonResponse_result L rd = Some result" if "response L rid result rc = Some resp" for rc result
    using response_reads [OF assms(1) that] assms(3,4) by auto
  obtain sv where sv: "sm_select sm m = Some sv"
    using assms(2) m no by (cases "sm_select sm m") (auto simp: serve_def bind_eq_Some_conv)
  then obtain params ok where p: "RpcRequest_params L d = Some params" "checkParams L (sv_params sv) params = Some ok"
    using assms(2) m by (auto simp: serve_def bind_eq_Some_conv)
  have ok using assms(2) m sv p no by (cases ok) (auto simp: serve_def bind_eq_Some_conv)
  then obtain ret result where r: "service_call L sv params = Some (ret, result)"
    using assms(2) m sv p by (auto simp: serve_def bind_eq_Some_conv)
  have ret using assms(2) m sv p r \<open>ok\<close> no by (cases ret) (auto simp: serve_def bind_eq_Some_conv)
  then have resp: "response L rid result SUCCESS = Some resp"
    using assms(2) m sv p r \<open>ok\<close> by (auto simp: serve_def bind_eq_Some_conv)
  have "sv_cb sv params = Some result" "check_type L (sv_return sv) result"
    using r \<open>ret\<close> by (auto simp: service_call_def)
  moreover have "\<forall>(n, ty) \<in> set (sv_params sv). \<exists>v. j_find L params n = Some (Some v) \<and> check_type L ty v"
    using checkParams_types [of L "sv_params sv" params] p(2) \<open>ok\<close> by simp
  ultimately show ?thesis using response_reads [OF assms(1) resp] m sv p(1) no [OF resp] by blast
qed

definition inc_service :: "json service" where
  "inc_service = \<lparr>sv_method = ''inc'', sv_cb = (\<lambda>_. Some (JInt 8)), sv_params = [(''x'', INTEGRAL)], sv_return = INTEGRAL\<rparr>"

theorem success_is_typed_witness:
  "\<exists>result. sv_cb inc_service (JObject [(''x'', JInt 7)]) = Some result
     \<and> check_type (json_tree (\<lambda>_. None) (\<lambda>_. None)) INTEGRAL result"
proof -
  let ?L = "json_tree (\<lambda>_. None) (\<lambda>_. None)"
  let ?d = "JObject [(''method'', JString ''inc''), (''parameters'', JObject [(''x'', JInt 7)])]"
  obtain resp rd where r: "serve ?L [(''inc'', inc_service)] ''r'' ?d = Some resp" "m_payload resp = RpcResponse rd"
      "JsonResponse_rcode ?L rd = Some (resp_code_code SUCCESS)"
    by (simp add: serve_def response_def service_call_def inc_service_def JsonRequest_method_def JsonRequest_trace_id_def
        JsonRequest_span_id_def RpcRequest_params_def get_str_def get_str_or_def get_int_def j_index_def j_get_def sm_select_def
        JsonResponse_setRcode_def JsonResponse_setResult_def JsonResponse_rcode_def json_tree_def keys in_int32_def)
  from success_is_typed [OF jt.json_api_axioms r] show ?thesis
    by (auto simp: sm_select_def inc_service_def json_tree_def)
qed

end
