(* ===== verification/Requestor.thy ===== *)
theory Requestor
  imports Config
begin

text \<open>
  \<open>Requestor\<close> of \<open>rpc/src/client/requestor.hpp\<close>: it matches responses to requests by
  id, arms a timer per asynchronous request and fulfils a promise or runs a callback.

  Descriptors are shared, so they live in a heap (a list) and a pointer is an index. A promise
  holds at most one value and setting it twice throws, which is \<^const>\<open>None\<close> here. The
  handlers are first defined as wholes and then once more as threads that stop wherever the
  code releases its lock, so that every interleaving is a schedule.
\<close>

subsection \<open>State\<close>

datatype 'm outcome = Answer 'm | TimedOut bool string

record 'm req_desc =
  rd_reqtype :: req_type
  rd_callback :: bool
  rd_promise :: "'m outcome option"
  rd_calls :: "'m list"
  rd_proto :: bool
  rd_timer :: "nat option"
  rd_timeout_triggered :: bool

record 'm requestor =
  rq_heap :: "'m req_desc list"
  rq_table :: "(string \<times> nat) list"
  rq_timers :: "(nat \<times> string) list"
  rq_next_timer :: nat

definition new_requestor :: "'m requestor" where
  "new_requestor = \<lparr>rq_heap = [], rq_table = [], rq_timers = [], rq_next_timer = 0\<rparr>"

definition upd_desc :: "nat \<Rightarrow> ('m req_desc \<Rightarrow> 'm req_desc) \<Rightarrow> 'm requestor \<Rightarrow> 'm requestor" where
  "upd_desc i f st = st\<lparr>rq_heap := (rq_heap st)[i := f (rq_heap st ! i)]\<rparr>"

definition desc :: "'m requestor \<Rightarrow> nat \<Rightarrow> 'm req_desc" where
  "desc st i = rq_heap st ! i"

definition newDesc :: "'m requestor \<Rightarrow> string \<Rightarrow> bool \<Rightarrow> req_type \<Rightarrow> bool \<Rightarrow> 'm requestor \<times> nat" where
  "newDesc st rid proto ty cb =
     (st\<lparr>rq_heap := rq_heap st @ [\<lparr>rd_reqtype = ty, rd_callback = (ty = CALLBACK \<and> cb), rd_promise = None, rd_calls = [],
           rd_proto = proto, rd_timer = None, rd_timeout_triggered = False\<rparr>],
         rq_table := AList.update rid (length (rq_heap st)) (rq_table st)\<rparr>, length (rq_heap st))"

definition getDesc :: "'m requestor \<Rightarrow> string \<Rightarrow> nat option" where
  "getDesc st rid = map_of (rq_table st) rid"

definition delDesc :: "'m requestor \<Rightarrow> string \<Rightarrow> 'm requestor" where
  "delDesc st rid = st\<lparr>rq_table := AList.delete rid (rq_table st)\<rparr>"

definition cancel_timer :: "'m requestor \<Rightarrow> nat option \<Rightarrow> 'm requestor" where
  "cancel_timer st t =
     (case t of None \<Rightarrow> st | Some n \<Rightarrow> st\<lparr>rq_timers := AList.delete n (rq_timers st)\<rparr>)"

definition set_value :: "'m requestor \<Rightarrow> nat \<Rightarrow> 'm outcome \<Rightarrow> 'm requestor option" where
  "set_value st i v =
     (if rd_promise (desc st i) = None then Some (upd_desc i (\<lambda>d. d\<lparr>rd_promise := Some v\<rparr>) st) else None)"

subsection \<open>Handlers\<close>

definition resp_fulfil :: "'m requestor \<Rightarrow> nat \<Rightarrow> 'm \<Rightarrow> 'm requestor option" where
  "resp_fulfil st i msg =
     (case rd_reqtype (desc st i) of
        ASYNC \<Rightarrow> set_value st i (Answer msg)
      | CALLBACK \<Rightarrow>
          Some (if rd_callback (desc st i) then upd_desc i (\<lambda>d. d\<lparr>rd_calls := rd_calls d @ [msg]\<rparr>) st else st))"

definition resp_cancel :: "bool \<Rightarrow> 'm requestor \<Rightarrow> nat \<Rightarrow> 'm requestor" where
  "resp_cancel loop st i = (if loop then cancel_timer st (rd_timer (desc st i)) else st)"

definition onResponse :: "bool \<Rightarrow> 'm requestor \<Rightarrow> string \<Rightarrow> 'm \<Rightarrow> 'm requestor option" where
  "onResponse loop st rid msg =
     (case getDesc st rid of
        None \<Rightarrow> Some st
      | Some i \<Rightarrow>
          if rd_timeout_triggered (desc st i) then Some (delDesc st rid)
          else map_option (\<lambda>st'. delDesc st' rid) (resp_fulfil (resp_cancel loop st i) i msg))"

definition timeout_fulfil :: "'m requestor \<Rightarrow> nat \<Rightarrow> string \<Rightarrow> 'm requestor" where
  "timeout_fulfil st i rid =
     (case rd_reqtype (desc st i) of
        ASYNC \<Rightarrow> (case set_value st i (TimedOut (rd_proto (desc st i)) rid) of None \<Rightarrow> st | Some st' \<Rightarrow> st')
      | CALLBACK \<Rightarrow> st)"

definition mark_timeout :: "'m requestor \<Rightarrow> nat \<Rightarrow> 'm requestor" where
  "mark_timeout st i = upd_desc i (\<lambda>d. d\<lparr>rd_timeout_triggered := True\<rparr>) st"

definition onTimeout :: "'m requestor \<Rightarrow> string \<Rightarrow> 'm requestor" where
  "onTimeout st rid =
     (case getDesc st rid of
        None \<Rightarrow> st
      | Some i \<Rightarrow>
          if rd_timeout_triggered (desc st i) then st
          else delDesc (timeout_fulfil (mark_timeout st i) i rid) rid)"

text \<open>The callback of a timer: a timer fires once.\<close>

definition timer_fires :: "'m requestor \<Rightarrow> nat \<Rightarrow> 'm requestor" where
  "timer_fires st t =
     (case map_of (rq_timers st) t of
        None \<Rightarrow> st
      | Some rid \<Rightarrow> onTimeout (st\<lparr>rq_timers := AList.delete t (rq_timers st)\<rparr>) rid)"

subsection \<open>Sending\<close>

definition arm_timer :: "'m requestor \<Rightarrow> nat \<Rightarrow> string \<Rightarrow> 'm requestor" where
  "arm_timer st i rid =
     upd_desc i (\<lambda>d. d\<lparr>rd_timer := Some (rq_next_timer st)\<rparr>)
       (st\<lparr>rq_timers := (rq_next_timer st, rid) # rq_timers st, rq_next_timer := Suc (rq_next_timer st)\<rparr>)"

text \<open>
  The arguments after the state are the id and the class of the request, whether the
  connection has an event loop, and what sending returned. The future is the index of the
  descriptor.
\<close>

definition send_async ::
  "'m requestor \<Rightarrow> string \<Rightarrow> bool \<Rightarrow> bool \<Rightarrow> bool \<Rightarrow> rpc_error \<Rightarrow> 'm requestor \<times> nat option \<times> rpc_error" where
  "send_async st rid proto loop sent lastSendError =
     (let (st1, i) = newDesc st rid proto ASYNC False;
          st2 = (if loop then arm_timer st1 i rid else st1) in
      if \<not> sent then (delDesc (if loop then cancel_timer st2 (Some (rq_next_timer st1)) else st2) rid, None, lastSendError)
      else (st2, Some i, OK))"

definition send_callback ::
  "'m requestor \<Rightarrow> string \<Rightarrow> bool \<Rightarrow> bool \<Rightarrow> bool \<Rightarrow> rpc_error \<Rightarrow> 'm requestor \<times> bool \<times> rpc_error" where
  "send_callback st rid proto cb sent lastSendError =
     (let (st1, i) = newDesc st rid proto CALLBACK cb in
      if \<not> sent then (delDesc st1 rid, False, lastSendError) else (st1, True, OK))"

text \<open>
  What happens to the requestor while the caller waits is a parameter; the wait is over when
  the promise has a value, or else it times out.
\<close>

definition wait_times_out :: "bool \<Rightarrow> 'm requestor \<Rightarrow> string \<Rightarrow> 'm requestor" where
  "wait_times_out loop st rid =
     onTimeout (case getDesc st rid of None \<Rightarrow> st
       | Some i \<Rightarrow> if loop then cancel_timer st (rd_timer (desc st i)) else st) rid"

definition send_sync ::
  "'m requestor \<Rightarrow> string \<Rightarrow> bool \<Rightarrow> bool \<Rightarrow> bool \<Rightarrow> rpc_error \<Rightarrow> ('m requestor \<Rightarrow> 'm requestor)
     \<Rightarrow> 'm requestor \<times> 'm outcome option \<times> rpc_error" where
  "send_sync st rid proto loop sent lastSendError others =
     (case send_async st rid proto loop sent lastSendError of
        (st1, None, err) \<Rightarrow> (st1, None, err)
      | (st1, Some i, err) \<Rightarrow>
          let st2 = others st1 in
          (case rd_promise (desc st2 i) of
             Some v \<Rightarrow> (st2, Some v, OK)
           | None \<Rightarrow> (wait_times_out loop st2 rid, None, rpc_error.TIMEOUT)))"

subsection \<open>Runs of whole handlers\<close>

datatype 'm rq_event =
    ESendAsync string bool bool bool rpc_error | ESendCallback string bool bool bool rpc_error
  | EResponse bool string 'm | ETimer nat | EWait bool string

fun rq_step :: "'m requestor \<Rightarrow> 'm rq_event \<Rightarrow> 'm requestor option" where
  "rq_step st (ESendAsync rid proto loop sent err) = Some (fst (send_async st rid proto loop sent err))"
| "rq_step st (ESendCallback rid proto cb sent err) = Some (fst (send_callback st rid proto cb sent err))"
| "rq_step st (EResponse loop rid msg) = onResponse loop st rid msg"
| "rq_step st (ETimer t) = Some (timer_fires st t)"
| "rq_step st (EWait loop rid) = Some (wait_times_out loop st rid)"

fun rq_run :: "'m requestor \<Rightarrow> 'm rq_event list \<Rightarrow> 'm requestor option" where
  "rq_run st [] = Some st"
| "rq_run st (e # es) = (case rq_step st e of None \<Rightarrow> None | Some st' \<Rightarrow> rq_run st' es)"

subsection \<open>Handlers as threads\<close>

text \<open>
  Every access to the table is under the lock, and the lock is released between these program
  points. \<open>RThrow\<close> is a response handler left by an exception.
\<close>

datatype 'm pc =
    RLookup bool string 'm | RCheck bool nat string 'm | RFulfil nat string 'm | RErase string | RThrow
  | TLookup string | TMark nat string | TFulfil nat string | TErase string | Finished

fun thread_step :: "'m requestor \<Rightarrow> 'm pc \<Rightarrow> 'm requestor \<times> 'm pc" where
  "thread_step st (RLookup loop rid msg) =
     (case getDesc st rid of None \<Rightarrow> (st, Finished) | Some i \<Rightarrow> (st, RCheck loop i rid msg))"
| "thread_step st (RCheck loop i rid msg) =
     (if rd_timeout_triggered (desc st i) then (delDesc st rid, Finished)
      else (resp_cancel loop st i, RFulfil i rid msg))"
| "thread_step st (RFulfil i rid msg) =
     (case resp_fulfil st i msg of None \<Rightarrow> (st, RThrow) | Some st' \<Rightarrow> (st', RErase rid))"
| "thread_step st (RErase rid) = (delDesc st rid, Finished)"
| "thread_step st RThrow = (st, RThrow)"
| "thread_step st (TLookup rid) =
     (case getDesc st rid of None \<Rightarrow> (st, Finished) | Some i \<Rightarrow> (st, TMark i rid))"
| "thread_step st (TMark i rid) =
     (if rd_timeout_triggered (desc st i) then (st, Finished) else (mark_timeout st i, TFulfil i rid))"
| "thread_step st (TFulfil i rid) = (timeout_fulfil st i rid, TErase rid)"
| "thread_step st (TErase rid) = (delDesc st rid, Finished)"
| "thread_step st Finished = (st, Finished)"

text \<open>A schedule names the thread that runs next.\<close>

fun schedule :: "'m requestor \<Rightarrow> 'm pc list \<Rightarrow> nat list \<Rightarrow> 'm requestor \<times> 'm pc list" where
  "schedule st ts [] = (st, ts)"
| "schedule st ts (k # ks) =
     (if k < length ts then let (st', t') = thread_step st (ts ! k) in schedule st' (ts[k := t']) ks
      else schedule st ts ks)"

end
