(* ===== verification/Requestor_Correct.thy ===== *)
theory Requestor_Correct
  imports Requestor
begin

text \<open>
  Correctness of the request manager: what a request ends with when handlers run one after the
  other, and what can happen when they interleave.
\<close>

subsection \<open>Pieces\<close>

lemma upd_desc_simps [simp]:
  "rq_table (upd_desc i f st) = rq_table st" "rq_timers (upd_desc i f st) = rq_timers st"
  "length (rq_heap (upd_desc i f st)) = length (rq_heap st)"
  by (simp_all add: upd_desc_def)

lemma desc_upd: "i < length (rq_heap st) \<Longrightarrow> desc (upd_desc i f st) j = (if j = i then f (desc st i) else desc st j)"
  by (simp add: desc_def upd_desc_def)

lemma delDesc_simps [simp]:
  "rq_heap (delDesc st rid) = rq_heap st" "rq_timers (delDesc st rid) = rq_timers st" "desc (delDesc st rid) i = desc st i"
  "map_of (rq_table (delDesc st rid)) r = (if r = rid then None else map_of (rq_table st) r)"
  by (simp_all add: delDesc_def desc_def delete_conv')

lemma cancel_timer_simps [simp]:
  "rq_heap (cancel_timer st t) = rq_heap st" "rq_table (cancel_timer st t) = rq_table st" "desc (cancel_timer st t) i = desc st i"
  by (simp_all add: cancel_timer_def desc_def split: option.splits)

lemma resp_cancel_simps [simp]:
  "rq_heap (resp_cancel l st j) = rq_heap st" "rq_table (resp_cancel l st j) = rq_table st" "desc (resp_cancel l st j) i = desc st i"
  by (simp_all add: resp_cancel_def)

lemma timers_update_simps [simp]:
  "desc (st\<lparr>rq_timers := ts\<rparr>) i = desc st i" "getDesc (st\<lparr>rq_timers := ts\<rparr>) r = getDesc st r"
  by (simp_all add: desc_def getDesc_def)

lemma mark_timeout_simps:
  assumes "i < length (rq_heap st)"
  shows "rq_table (mark_timeout st i) = rq_table st" "length (rq_heap (mark_timeout st i)) = length (rq_heap st)"
    "desc (mark_timeout st i) j = (if j = i then (desc st i)\<lparr>rd_timeout_triggered := True\<rparr> else desc st j)"
  using assms by (simp_all add: mark_timeout_def desc_upd)

subsection \<open>Handlers one after the other\<close>

text \<open>A descriptor that is in the table has not been resolved, and no two ids share one.\<close>

definition rq_inv :: "'m requestor \<Rightarrow> bool" where
  "rq_inv st \<longleftrightarrow>
     (\<forall>rid i. map_of (rq_table st) rid = Some i \<longrightarrow> i < length (rq_heap st) \<and> rd_promise (desc st i) = None
        \<and> rd_calls (desc st i) = [] \<and> \<not> rd_timeout_triggered (desc st i))
     \<and> (\<forall>rid rid' i. map_of (rq_table st) rid = Some i \<longrightarrow> map_of (rq_table st) rid' = Some i \<longrightarrow> rid = rid')"

lemma rq_invD:
  assumes "rq_inv st" "map_of (rq_table st) rid = Some i"
  shows "i < length (rq_heap st)" "rd_promise (desc st i) = None" "rd_calls (desc st i) = []" "\<not> rd_timeout_triggered (desc st i)"
    "map_of (rq_table st) rid' = Some i \<Longrightarrow> rid' = rid"
  using assms by (auto simp: rq_inv_def)

text \<open>The state after resolving the request with an id: only its descriptor changes and its id leaves the table.\<close>

definition resolves :: "'m requestor \<Rightarrow> string \<Rightarrow> nat \<Rightarrow> 'm req_desc \<Rightarrow> 'm requestor \<Rightarrow> bool" where
  "resolves st rid i d st' \<longleftrightarrow>
     length (rq_heap st') = length (rq_heap st) \<and> (\<forall>j. desc st' j = (if j = i then d else desc st j))
     \<and> (\<forall>r. map_of (rq_table st') r = (if r = rid then None else map_of (rq_table st) r))"

lemma resolves_inv:
  assumes "rq_inv st" "map_of (rq_table st) rid = Some i" "resolves st rid i d st'"
  shows "rq_inv st'"
  using assms unfolding rq_inv_def resolves_def by (metis option.distinct(1))

definition answered :: "'m req_desc \<Rightarrow> 'm \<Rightarrow> 'm req_desc" where
  "answered d msg =
     (case rd_reqtype d of ASYNC \<Rightarrow> d\<lparr>rd_promise := Some (Answer msg)\<rparr>
      | CALLBACK \<Rightarrow> if rd_callback d then d\<lparr>rd_calls := rd_calls d @ [msg]\<rparr> else d)"

definition timed_out :: "'m req_desc \<Rightarrow> string \<Rightarrow> 'm req_desc" where
  "timed_out d rid =
     (case rd_reqtype d of
        ASYNC \<Rightarrow> d\<lparr>rd_timeout_triggered := True, rd_promise := Some (TimedOut (rd_proto d) rid)\<rparr>
      | CALLBACK \<Rightarrow> d\<lparr>rd_timeout_triggered := True\<rparr>)"

lemma onResponse_resolves:
  assumes "rq_inv st" "map_of (rq_table st) rid = Some i"
  shows "\<exists>st'. onResponse loop st rid msg = Some st' \<and> resolves st rid i (answered (desc st i) msg) st'"
proof -
  note d = rq_invD(1-4) [OF assms]
  show ?thesis
    using assms(2) d
    by (cases "rd_reqtype (desc st i)")
      (auto simp: onResponse_def getDesc_def resp_fulfil_def set_value_def resolves_def answered_def desc_upd)
qed

lemma onTimeout_resolves:
  assumes "rq_inv st" "map_of (rq_table st) rid = Some i"
  shows "resolves st rid i (timed_out (desc st i) rid) (onTimeout st rid)"
proof -
  note d = rq_invD(1-4) [OF assms]
  show ?thesis
    using assms(2) d
    by (cases "rd_reqtype (desc st i)")
      (auto simp: onTimeout_def getDesc_def timeout_fulfil_def set_value_def resolves_def timed_out_def
        mark_timeout_simps desc_upd)
qed

lemma unknown_ignored:
  assumes "map_of (rq_table st) rid = None"
  shows "onResponse loop st rid msg = Some st" "onTimeout st rid = st"
  using assms by (simp_all add: onResponse_def onTimeout_def getDesc_def)

lemma resolves_timers [simp]:
  "resolves (st\<lparr>rq_timers := ts\<rparr>) rid i d st' \<longleftrightarrow> resolves st rid i d st'"
  "rq_inv (st\<lparr>rq_timers := ts\<rparr>) \<longleftrightarrow> rq_inv st"
  by (simp_all add: resolves_def rq_inv_def)

lemma resolves_cancel [simp]:
  "resolves (cancel_timer st t) rid i d st' \<longleftrightarrow> resolves st rid i d st'" "rq_inv (cancel_timer st t) \<longleftrightarrow> rq_inv st"
  by (simp_all add: resolves_def rq_inv_def)

text \<open>Which outcome an event brings to a request.\<close>

fun answers :: "'m requestor \<Rightarrow> string \<Rightarrow> 'm req_desc \<Rightarrow> 'm rq_event \<Rightarrow> 'm req_desc option" where
  "answers st rid d (EResponse loop r msg) = (if r = rid then Some (answered d msg) else None)"
| "answers st rid d (ETimer t) = (if map_of (rq_timers st) t = Some rid then Some (timed_out d rid) else None)"
| "answers st rid d (EWait loop r) = (if r = rid then Some (timed_out d rid) else None)"
| "answers st rid d _ = None"

fun sends :: "'m rq_event \<Rightarrow> string option" where
  "sends (ESendAsync rid proto loop sent err) = Some rid"
| "sends (ESendCallback rid proto cb sent err) = Some rid"
| "sends _ = None"

fun target :: "'m requestor \<Rightarrow> 'm rq_event \<Rightarrow> string option" where
  "target st (EResponse loop r msg) = Some r"
| "target st (ETimer t) = map_of (rq_timers st) t"
| "target st (EWait loop r) = Some r"
| "target st _ = None"

text \<open>An event that sends nothing resolves its target when that is pending and else changes no request.\<close>

definition same_requests :: "'m requestor \<Rightarrow> 'm requestor \<Rightarrow> bool" where
  "same_requests st st' \<longleftrightarrow> rq_heap st' = rq_heap st \<and> rq_table st' = rq_table st"

lemma handler_step:
  assumes "rq_inv st" "sends e = None"
  shows "\<exists>st'. rq_step st e = Some st' \<and>
    (case target st e of
       None \<Rightarrow> same_requests st st'
     | Some rid \<Rightarrow>
         (case map_of (rq_table st) rid of
            None \<Rightarrow> same_requests st st'
          | Some i \<Rightarrow> resolves st rid i (the (answers st rid (desc st i) e)) st'))"
proof (cases e)
  case (EResponse loop r msg)
  then show ?thesis
    using onResponse_resolves [OF assms(1), of r] unknown_ignored(1) [of st r]
    by (cases "map_of (rq_table st) r") (auto simp: same_requests_def)
next
  case (ETimer t)
  let ?st = "st\<lparr>rq_timers := AList.delete t (rq_timers st)\<rparr>"
  show ?thesis
  proof (cases "map_of (rq_timers st) t")
    case (Some r)
    then show ?thesis
      using ETimer onTimeout_resolves [of ?st r] assms(1) unknown_ignored(2) [of ?st r]
      by (cases "map_of (rq_table st) r") (auto simp: timer_fires_def same_requests_def)
  qed (simp add: ETimer timer_fires_def same_requests_def)
next
  case (EWait loop r)
  show ?thesis
  proof (cases "map_of (rq_table st) r")
    case None
    then show ?thesis using EWait by (simp add: wait_times_out_def getDesc_def unknown_ignored same_requests_def)
  next
    case (Some i)
    let ?st = "if loop then cancel_timer st (rd_timer (desc st i)) else st"
    have "resolves ?st r i (timed_out (desc ?st i) r) (onTimeout ?st r)"
      using onTimeout_resolves [of ?st r i] assms(1) Some by simp
    then show ?thesis using EWait Some by (simp add: wait_times_out_def getDesc_def split: if_splits)
  qed
qed (use assms(2) in simp_all)

text \<open>Sending adds a descriptor under its id, or leaves nothing behind when it fails.\<close>

lemma send_step:
  assumes "rq_inv st" "sends e = Some rid"
  shows "\<exists>st'. rq_step st e = Some st' \<and> rq_inv st' \<and> length (rq_heap st') = Suc (length (rq_heap st))
    \<and> (\<forall>j < length (rq_heap st). desc st' j = desc st j)
    \<and> (\<forall>r. r \<noteq> rid \<longrightarrow> map_of (rq_table st') r = map_of (rq_table st) r)
    \<and> map_of (rq_table st') rid \<in> {None, Some (length (rq_heap st))}"
proof -
  have lt: "i < length (rq_heap st)" if "map_of (rq_table st) r = Some i" for r i using rq_invD(1) [OF assms(1) that] .
  have ne: "map_of (rq_table st) r \<noteq> Some (length (rq_heap st))" for r using lt by blast
  show ?thesis
    using assms lt ne
    by (cases e) (auto simp: send_async_def send_callback_def newDesc_def arm_timer_def Let_def rq_inv_def desc_def
        upd_desc_def delDesc_def cancel_timer_def update_conv' delete_conv' nth_append nth_list_update less_Suc_eq
        split: if_splits)
qed


lemma step_ok:
  assumes "rq_inv st"
  shows "\<exists>st'. rq_step st e = Some st' \<and> rq_inv st'"
proof (cases "sends e")
  case None
  from handler_step [OF assms None] obtain st' where st': "rq_step st e = Some st'"
    "case target st e of None \<Rightarrow> same_requests st st' | Some rid \<Rightarrow> (case map_of (rq_table st) rid of
       None \<Rightarrow> same_requests st st' | Some i \<Rightarrow> resolves st rid i (the (answers st rid (desc st i) e)) st')" by blast
  have "rq_inv st'" if "same_requests st st'"
    using that assms by (simp add: same_requests_def rq_inv_def desc_def)
  then show ?thesis using st' resolves_inv [OF assms] by (auto split: option.splits)
qed (use send_step [OF assms] in blast)

lemma answers_target: "answers st rid d e \<noteq> None \<longleftrightarrow> target st e = Some rid"
  by (cases e) auto

text \<open>A pending request stays as it is until an event answers it.\<close>

lemma step_pending:
  assumes "rq_inv st" "map_of (rq_table st) rid = Some i" "sends e \<noteq> Some rid" "rq_step st e = Some st'"
  shows "case answers st rid (desc st i) e of
      None \<Rightarrow> map_of (rq_table st') rid = Some i \<and> desc st' i = desc st i
    | Some d \<Rightarrow> map_of (rq_table st') rid = None \<and> desc st' i = d"
proof (cases "sends e")
  case (Some r)
  then have "answers st rid (desc st i) e = None" by (cases e) auto
  then show ?thesis
    using send_step [OF assms(1) Some] assms Some rq_invD(1) [OF assms(1,2)] by auto
next
  case None
  note h = handler_step [OF assms(1) None]
  show ?thesis
  proof (cases "target st e = Some rid")
    case True
    then obtain d where "answers st rid (desc st i) e = Some d" using answers_target [of st rid "desc st i" e] by blast
    then show ?thesis using h True assms(2,4) by (simp add: resolves_def)
  next
    case False
    then have "answers st rid (desc st i) e = None" using answers_target by blast
    moreover have "i \<noteq> j" if "map_of (rq_table st) r = Some j" "r \<noteq> rid" for r j
      using rq_invD(5) [OF assms(1,2)] that by blast
    ultimately show ?thesis
      using h False assms(2,4) by (auto simp: resolves_def same_requests_def desc_def split: option.splits)
  qed
qed

text \<open>A request that has left the table is never touched again.\<close>

lemma step_resolved:
  assumes "rq_inv st" "i < length (rq_heap st)" "i \<notin> ran (map_of (rq_table st))" "rq_step st e = Some st'"
  shows "i < length (rq_heap st') \<and> i \<notin> ran (map_of (rq_table st')) \<and> desc st' i = desc st i"
proof (cases "sends e")
  case (Some r)
  from send_step [OF assms(1) Some] assms(4) have st': "length (rq_heap st') = Suc (length (rq_heap st))"
    "\<forall>j < length (rq_heap st). desc st' j = desc st j" "\<forall>x. x \<noteq> r \<longrightarrow> map_of (rq_table st') x = map_of (rq_table st) x"
    "map_of (rq_table st') r \<in> {None, Some (length (rq_heap st))}" by auto
  have "map_of (rq_table st') x \<noteq> Some i" for x
    using st'(3,4) assms(2,3) by (cases "x = r") (auto simp: ran_def)
  then show ?thesis using st'(1,2) assms(2) by (simp add: ran_def)
next
  case None
  have "i \<noteq> j" if "map_of (rq_table st) r = Some j" for r j using assms(3) that by (auto simp: ran_def)
  then show ?thesis
    using handler_step [OF assms(1) None] assms(2-4)
    by (auto simp: resolves_def same_requests_def ran_def desc_def split: option.splits if_splits)
qed


fun first_answer :: "'m requestor \<Rightarrow> string \<Rightarrow> 'm req_desc \<Rightarrow> 'm rq_event list \<Rightarrow> 'm req_desc" where
  "first_answer st rid d [] = d"
| "first_answer st rid d (e # es) =
     (case answers st rid d e of
        Some d' \<Rightarrow> d'
      | None \<Rightarrow> (case rq_step st e of None \<Rightarrow> d | Some st' \<Rightarrow> first_answer st' rid d es))"

lemma run_inv: "rq_inv st \<Longrightarrow> rq_run st es = Some st' \<Longrightarrow> rq_inv st'"
proof (induction es arbitrary: st)
  case (Cons e es)
  obtain st1 where "rq_step st e = Some st1" "rq_inv st1" using step_ok [OF Cons.prems(1)] by blast
  then show ?case using Cons by simp
qed simp

lemma new_requestor_inv: "rq_inv new_requestor"
  by (simp add: rq_inv_def new_requestor_def)

lemma run_resolved:
  assumes "rq_inv st" "i < length (rq_heap st)" "i \<notin> ran (map_of (rq_table st))"
  shows "\<exists>st'. rq_run st es = Some st' \<and> desc st' i = desc st i"
  using assms
proof (induction es arbitrary: st)
  case (Cons e es)
  obtain st1 where st1: "rq_step st e = Some st1" "rq_inv st1" using step_ok [OF Cons.prems(1)] by blast
  show ?case using Cons.IH [OF st1(2)] step_resolved [OF Cons.prems st1(1)] st1(1) by auto
qed simp

lemma run_pending:
  assumes "rq_inv st" "map_of (rq_table st) rid = Some i" "\<forall>e \<in> set es. sends e \<noteq> Some rid"
  shows "\<exists>st'. rq_run st es = Some st' \<and> desc st' i = first_answer st rid (desc st i) es"
  using assms
proof (induction es arbitrary: st)
  case (Cons e es)
  obtain st1 where st1: "rq_step st e = Some st1" "rq_inv st1" using step_ok [OF Cons.prems(1)] by blast
  note p = step_pending [OF Cons.prems(1,2) _ st1(1)]
  show ?case
  proof (cases "answers st rid (desc st i) e")
    case None
    then show ?thesis using p Cons.IH [OF st1(2)] Cons.prems(3) st1(1) by auto
  next
    case (Some d)
    then have "target st e = Some rid" using answers_target by blast
    moreover from this have no: "sends e = None" by (cases e) auto
    ultimately have "resolves st rid i d st1"
      using handler_step [OF Cons.prems(1) no] Cons.prems(2) st1(1) Some by simp
    then have "i < length (rq_heap st1)" "i \<notin> ran (map_of (rq_table st1))" "desc st1 i = d"
      using rq_invD(1,5) [OF Cons.prems(1,2)] by (auto simp: resolves_def ran_def split: if_splits)
    then show ?thesis using run_resolved [OF st1(2), of i es] st1(1) Some by simp
  qed
qed simp

text \<open>
  Property C8. When handlers run one after the other, a request is resolved by the first event
  that concerns it (its response, the firing of its timer, the end of the caller's wait), no
  later event changes it any more, and no handler ends with an exception, whatever other requests
  are sent, answered or timed out in between.
\<close>

theorem request_resolved_once:
  assumes "rq_run new_requestor es0 = Some st" "getDesc st rid = Some i" "\<forall>e \<in> set es. sends e \<noteq> Some rid"
  shows "\<exists>st'. rq_run st es = Some st' \<and> desc st' i = first_answer st rid (desc st i) es"
  using run_pending [OF run_inv [OF new_requestor_inv assms(1)]] assms(2,3) by (simp add: getDesc_def)

theorem request_resolved_once_witness:
  "\<exists>st' :: string requestor. rq_run new_requestor [ESendAsync ''r'' True True True OK, EResponse True ''r'' ''yes'', EWait True ''r'']
       = Some st' \<and> rd_promise (desc st' 0) = Some (Answer ''yes'')"
proof -
  let ?st = "fst (send_async (new_requestor :: string requestor) ''r'' True True True OK)"
  have st: "rq_run new_requestor [ESendAsync ''r'' True True True OK] = Some ?st" "getDesc ?st ''r'' = Some 0"
    by (simp_all add: send_async_def newDesc_def arm_timer_def upd_desc_def getDesc_def new_requestor_def)
  have d: "rd_reqtype (desc ?st 0) = ASYNC"
    by (simp add: send_async_def newDesc_def arm_timer_def upd_desc_def desc_def new_requestor_def)
  from request_resolved_once [OF st, of "[EResponse True ''r'' ''yes'', EWait True ''r'']"] show ?thesis
    using st(1) by (auto simp: answered_def d)
qed

subsection \<open>Interleaved handlers\<close>

text \<open>A handler that runs alone as a thread does what the whole handler does.\<close>

lemma response_thread_alone:
  "schedule st [RLookup loop rid msg] [0, 0, 0, 0] =
     (case onResponse loop st rid msg of
        Some st' \<Rightarrow> (st', [Finished])
      | None \<Rightarrow> (case getDesc st rid of None \<Rightarrow> (st, [Finished]) | Some i \<Rightarrow> (resp_cancel loop st i, [RThrow])))"
  by (auto simp: onResponse_def split: option.splits)

lemma timeout_thread_alone: "schedule st [TLookup rid] [0, 0, 0, 0] = (onTimeout st rid, [Finished])"
  by (auto simp: onTimeout_def split: option.splits)

lemma promise_kept_upd:
  assumes "\<And>d v. rd_promise d = Some v \<Longrightarrow> rd_promise (f d) = Some v"
  shows "rd_promise (desc st i) = Some v \<Longrightarrow> rd_promise (desc (upd_desc j f st) i) = Some v"
  using assms by (cases "j < length (rq_heap st)") (auto simp: desc_upd, simp add: desc_def upd_desc_def list_update_beyond)

lemma set_value_kept:
  assumes "set_value st j w = Some st'" "rd_promise (desc st i) = Some v"
  shows "rd_promise (desc st' i) = Some v"
proof -
  have "rd_promise (desc st j) = None" and st': "st' = upd_desc j (\<lambda>d. d\<lparr>rd_promise := Some w\<rparr>) st"
    using assms(1) by (auto simp: set_value_def split: if_splits)
  then have "i \<noteq> j" using assms(2) by auto
  then show ?thesis using assms(2) unfolding st' by (simp add: desc_def upd_desc_def)
qed

lemma thread_step_kept:
  assumes "rd_promise (desc st i) = Some v"
  shows "rd_promise (desc (fst (thread_step st t)) i) = Some v"
  using assms
  by (cases t) (auto simp: resp_fulfil_def timeout_fulfil_def mark_timeout_def
      intro: set_value_kept promise_kept_upd split: option.splits req_type.splits)

lemma schedule_kept:
  "rd_promise (desc st i) = Some v \<Longrightarrow> rd_promise (desc (fst (schedule st ts ks)) i) = Some v"
proof (induction ks arbitrary: st ts)
  case (Cons k ks)
  then show ?case using thread_step_kept [of st i v "ts ! k"] by (simp add: case_prod_beta Let_def)
qed simp

text \<open>
  Remark. When the handlers of a response and of a timeout of the same asynchronous request
  interleave, the promise keeps the first value it got under every continuation, but the response
  handler can be the one that comes second: it has found no timeout, the timeout handler marks and
  fulfils the request, and the response handler then sets the promise again, which throws.
\<close>

theorem response_timeout_race:
  assumes "rq_run new_requestor es = Some st" "getDesc st rid = Some i" "rd_reqtype (desc st i) = ASYNC"
  shows "\<exists>st'. schedule st [RLookup loop rid msg, TLookup rid] [0, 0, 1, 1, 1, 0] = (st', [RThrow, TErase rid])
     \<and> (\<forall>ts ks. rd_promise (desc (fst (schedule st' ts ks)) i) = Some (TimedOut (rd_proto (desc st i)) rid))"
proof -
  have "map_of (rq_table st) rid = Some i" using assms(2) by (simp add: getDesc_def)
  note d = rq_invD(1-4) [OF run_inv [OF new_requestor_inv assms(1)] this]
  let ?st1 = "resp_cancel loop st i"
  let ?st' = "upd_desc i (\<lambda>d. d\<lparr>rd_promise := Some (TimedOut (rd_proto (desc st i)) rid)\<rparr>) (mark_timeout ?st1 i)"
  have "getDesc ?st1 rid = Some i" using assms(2) by (simp add: getDesc_def)
  then have sched: "schedule st [RLookup loop rid msg, TLookup rid] [0, 0, 1, 1, 1, 0] = (?st', [RThrow, TErase rid])"
    using assms(2,3) d
    by (simp add: mark_timeout_simps timeout_fulfil_def set_value_def resp_fulfil_def desc_upd)
  have "rd_promise (desc ?st' i) = Some (TimedOut (rd_proto (desc st i)) rid)"
    using d by (simp add: mark_timeout_simps desc_upd)
  then show ?thesis using sched schedule_kept by blast
qed

theorem response_timeout_race_witness:
  "\<exists>st' :: string requestor. schedule (fst (send_async new_requestor ''r'' True True True OK))
     [RLookup True ''r'' ''yes'', TLookup ''r''] [0, 0, 1, 1, 1, 0] = (st', [RThrow, TErase ''r''])"
proof -
  let ?st = "fst (send_async (new_requestor :: string requestor) ''r'' True True True OK)"
  have st: "rq_run new_requestor [ESendAsync ''r'' True True True OK] = Some ?st" "getDesc ?st ''r'' = Some 0"
    "rd_reqtype (desc ?st 0) = ASYNC"
    by (simp_all add: send_async_def newDesc_def arm_timer_def upd_desc_def getDesc_def new_requestor_def desc_def)
  show ?thesis using response_timeout_race [OF st, of True "''yes''"] by blast
qed

subsection \<open>Requests with a callback\<close>

lemma timers_simps [simp]:
  "rq_timers (onTimeout st r) = rq_timers st"
  "resp_fulfil st i m = Some st' \<Longrightarrow> rq_timers st' = rq_timers st"
  by (auto simp: onTimeout_def timeout_fulfil_def mark_timeout_def resp_fulfil_def set_value_def
      split: option.splits req_type.splits if_splits)

lemma cancel_timer_subset: "set (rq_timers (cancel_timer st t)) \<subseteq> set (rq_timers st)"
  by (auto simp: cancel_timer_def AList.delete_eq split: option.splits)

text \<open>Only an asynchronous send arms a timer, and for its own id.\<close>

lemma step_timers:
  assumes "rq_step st e = Some st'"
  shows "set (rq_timers st') \<subseteq> set (rq_timers st) \<union> {(t, r). sends e = Some r}"
proof (cases e)
  case (ESendAsync r proto loop sent err)
  then show ?thesis
    using assms by (auto simp: send_async_def newDesc_def arm_timer_def delDesc_def cancel_timer_def AList.delete_eq Let_def
        split: if_splits)
next
  case (ESendCallback r proto cb sent err)
  then show ?thesis using assms by (auto simp: send_callback_def newDesc_def delDesc_def Let_def split: if_splits)
next
  case (EResponse loop r msg)
  then show ?thesis
    using assms by (auto simp: onResponse_def resp_cancel_def dest: subsetD [OF cancel_timer_subset]
        split: option.splits if_splits)
next
  case (ETimer t)
  then show ?thesis using assms by (auto simp: timer_fires_def AList.delete_eq split: option.splits)
next
  case (EWait loop r)
  then show ?thesis
    using assms by (auto simp: wait_times_out_def dest: subsetD [OF cancel_timer_subset]
        split: option.splits if_splits)
qed

definition concerns :: "string \<Rightarrow> 'm rq_event \<Rightarrow> bool" where
  "concerns rid e \<longleftrightarrow> sends e = Some rid \<or> (\<exists>loop msg. e = EResponse loop rid msg) \<or> (\<exists>loop. e = EWait loop rid)"

lemma run_untimed:
  assumes "rq_inv st" "map_of (rq_table st) rid = Some i" "rid \<notin> snd ` set (rq_timers st)" "\<forall>e \<in> set es. \<not> concerns rid e"
  shows "\<exists>st'. rq_run st es = Some st' \<and> getDesc st' rid = Some i \<and> desc st' i = desc st i"
  using assms
proof (induction es arbitrary: st)
  case (Cons e es)
  obtain st1 where st1: "rq_step st e = Some st1" "rq_inv st1" using step_ok [OF Cons.prems(1)] by blast
  have no: "sends e \<noteq> Some rid" using Cons.prems(4) by (simp add: concerns_def)
  have "target st e \<noteq> Some rid"
  proof (cases e)
    case (ETimer t)
    then show ?thesis using Cons.prems(3) map_of_SomeD [of "rq_timers st" t rid] by force
  qed (use Cons.prems(4) in \<open>auto simp: concerns_def\<close>)
  then have "answers st rid (desc st i) e = None" using answers_target by blast
  then have "map_of (rq_table st1) rid = Some i" "desc st1 i = desc st i"
    using step_pending [OF Cons.prems(1,2) no st1(1)] by simp_all
  moreover have "rid \<notin> snd ` set (rq_timers st1)" using step_timers [OF st1(1)] Cons.prems(3) no by force
  ultimately show ?case using Cons.IH [OF st1(2)] Cons.prems(4) st1(1) by simp
qed (simp add: getDesc_def)

text \<open>
  Remark. A request with a callback has no timeout: sending it arms no timer, so however long
  the requestor runs and whatever other requests do, as long as no response arrives its descriptor
  stays in the table and the callback is never told.
\<close>

theorem callback_never_times_out:
  assumes "rq_run new_requestor es0 = Some st" "rid \<notin> snd ` set (rq_timers st)" "\<forall>e \<in> set es. \<not> concerns rid e"
  shows "\<exists>st'. rq_run st (ESendCallback rid proto True True err # es) = Some st'
     \<and> getDesc st' rid = Some (length (rq_heap st)) \<and> rd_calls (desc st' (length (rq_heap st))) = []
     \<and> \<not> rd_timeout_triggered (desc st' (length (rq_heap st)))"
proof -
  let ?st = "fst (send_callback st rid proto True True err)" and ?i = "length (rq_heap st)"
  have inv: "rq_inv ?st"
    using send_step [OF run_inv [OF new_requestor_inv assms(1)], of "ESendCallback rid proto True True err" rid] by simp
  have s: "map_of (rq_table ?st) rid = Some ?i" "rq_timers ?st = rq_timers st"
    "rd_calls (desc ?st ?i) = []" "\<not> rd_timeout_triggered (desc ?st ?i)"
    by (simp_all add: send_callback_def newDesc_def desc_def update_conv')
  from run_untimed [OF inv s(1) _ assms(3)] assms(2) s show ?thesis by auto
qed

theorem callback_never_times_out_witness:
  "\<exists>st' :: string requestor. rq_run new_requestor [ESendCallback ''r'' True True True OK, ETimer 0, ETimer 1] = Some st'
     \<and> getDesc st' ''r'' = Some 0"
  using callback_never_times_out [of "[]" "new_requestor :: string requestor" "''r''" "[ETimer 0, ETimer 1]" True OK]
  by (auto simp: new_requestor_def concerns_def)

end
