(* ===== verification/Node_Breaker.thy ===== *)
theory Node_Breaker
  imports Config
begin

text \<open>
  The circuit breaker of one remote node and method
  (\<open>rpc/src/client/node_breaker.hpp\<close> and \<open>.cpp\<close>): a ring of the last
  \<open>window_size\<close> outcomes with running counters, and the state machine
  CLOSED, OPEN, HALF\_OPEN over it.

  The monotonic clock is in nanoseconds and the wall clock in seconds; an operation that
  reads a clock takes the value it read. The gauge that \<open>MetricHooks::onCircuitState\<close>
  sets is the field \<open>nb_gauge\<close>. An abstract breaker, which keeps the list of recent
  outcomes instead of a ring and counters, specifies the component.
\<close>

subsection \<open>Data\<close>

datatype circuit_state = CLOSED | OPEN | HALF_OPEN

record circuit_status =
  cs_state :: circuit_state
  cs_failures :: int
  cs_successes :: int
  cs_half_open :: int
  cs_opened_at :: int

definition default_status :: circuit_status where
  "default_status =
     \<lparr>cs_state = CLOSED, cs_failures = 0, cs_successes = 0, cs_half_open = 0, cs_opened_at = 0\<rparr>"

record circuit_config =
  window_size :: int
  min_calls :: int
  failure_ratio_percent :: int
  open_duration_sec :: int
  half_open_max_req :: int

definition default_config :: circuit_config where
  "default_config = \<lparr>window_size = 20, min_calls = 10, failure_ratio_percent = 50,
     open_duration_sec = 30, half_open_max_req = 1\<rparr>"

datatype slot = EMPTY | FAILED | SUCCEEDED

record node_breaker =
  nb_cfg :: circuit_config
  nb_status :: circuit_status
  opened_since :: int
  nb_method :: string
  nb_host :: string
  window :: "slot list"
  window_pos :: nat
  window_failures :: int
  window_successes :: int
  nb_gauge :: "int option"

definition sec :: int where "sec = 1000000000"

subsection \<open>Construction\<close>

definition heal_config :: "circuit_config \<Rightarrow> circuit_config" where
  "heal_config cfg =
     (let c1 = (if window_size cfg < 1 then cfg\<lparr>window_size := 1\<rparr> else cfg);
          c2 = (if min_calls c1 < 1 then c1\<lparr>min_calls := 1\<rparr> else c1);
          c3 = (if min_calls c2 > window_size c2 then c2\<lparr>min_calls := window_size c2\<rparr> else c2);
          c4 = (if failure_ratio_percent c3 < 1 then c3\<lparr>failure_ratio_percent := 1\<rparr> else c3)
      in if failure_ratio_percent c4 > 100 then c4\<lparr>failure_ratio_percent := 100\<rparr> else c4)"

definition new_node_breaker :: "circuit_config \<Rightarrow> node_breaker" where
  "new_node_breaker cfg =
     (let c = heal_config cfg in
      \<lparr>nb_cfg = c, nb_status = default_status, opened_since = 0, nb_method = [], nb_host = [],
       window = replicate (nat (window_size c)) EMPTY, window_pos = 0, window_failures = 0,
       window_successes = 0, nb_gauge = None\<rparr>)"

definition setIdentity :: "node_breaker \<Rightarrow> string \<Rightarrow> string \<Rightarrow> node_breaker" where
  "setIdentity nb m h = nb\<lparr>nb_method := m, nb_host := h\<rparr>"

subsection \<open>The sliding window\<close>

definition record_outcome :: "node_breaker \<Rightarrow> bool \<Rightarrow> node_breaker" where
  "record_outcome nb success =
     (let old = window nb ! window_pos nb;
          f1 = (if old = FAILED then window_failures nb - 1 else window_failures nb);
          s1 = (if old = SUCCEEDED then window_successes nb - 1 else window_successes nb);
          f2 = (if success then f1 else f1 + 1);
          s2 = (if success then s1 + 1 else s1) in
      nb\<lparr>window := (window nb)[window_pos nb := (if success then SUCCEEDED else FAILED)],
         window_failures := f2, window_successes := s2,
         window_pos := (window_pos nb + 1) mod length (window nb),
         nb_status := (nb_status nb)\<lparr>cs_failures := f2, cs_successes := s2\<rparr>\<rparr>)"

definition clearWindow :: "node_breaker \<Rightarrow> node_breaker" where
  "clearWindow nb =
     nb\<lparr>window := replicate (length (window nb)) EMPTY, window_pos := 0,
        window_failures := 0, window_successes := 0,
        nb_status := (nb_status nb)\<lparr>cs_failures := 0, cs_successes := 0\<rparr>\<rparr>"

definition shouldOpen :: "node_breaker \<Rightarrow> bool" where
  "shouldOpen nb =
     (let total = window_failures nb + window_successes nb in
      if total < min_calls (nb_cfg nb) then False
      else window_failures nb * 100 \<ge> total * failure_ratio_percent (nb_cfg nb))"

definition loadStatus :: "node_breaker \<Rightarrow> circuit_status \<Rightarrow> int \<Rightarrow> int \<Rightarrow> node_breaker" where
  "loadStatus nb s steady_now wall_now =
     (let nb1 = clearWindow (nb\<lparr>nb_status := s\<rparr>) in
      if cs_state (nb_status nb1) = OPEN
      then nb1\<lparr>opened_since := steady_now - max 0 (wall_now - cs_opened_at (nb_status nb1)) * sec\<rparr>
      else nb1)"

subsection \<open>The state machine\<close>

definition set_state :: "node_breaker \<Rightarrow> circuit_state \<Rightarrow> node_breaker" where
  "set_state nb st = nb\<lparr>nb_status := (nb_status nb)\<lparr>cs_state := st\<rparr>\<rparr>"

definition inc_half_open :: "node_breaker \<Rightarrow> node_breaker" where
  "inc_half_open nb =
     nb\<lparr>nb_status := (nb_status nb)\<lparr>cs_half_open := cs_half_open (nb_status nb) + 1\<rparr>\<rparr>"

definition nb_allowRequest :: "node_breaker \<Rightarrow> int \<Rightarrow> node_breaker \<times> bool" where
  "nb_allowRequest nb now =
     (case cs_state (nb_status nb) of
        CLOSED \<Rightarrow> (nb, True)
      | OPEN \<Rightarrow>
          if now - opened_since nb \<ge> open_duration_sec (nb_cfg nb) * sec
          then ((inc_half_open (set_state nb HALF_OPEN))\<lparr>nb_gauge := Some 2\<rparr>, True)
          else (nb, False)
      | HALF_OPEN \<Rightarrow>
          if cs_half_open (nb_status nb) < half_open_max_req (nb_cfg nb)
          then (inc_half_open nb, True)
          else (nb, False))"

definition nb_onSuccess :: "node_breaker \<Rightarrow> node_breaker \<times> bool" where
  "nb_onSuccess nb =
     (let nb1 = record_outcome nb True in
      if cs_state (nb_status nb1) \<noteq> CLOSED
      then let nb2 = clearWindow nb1 in
           (nb2\<lparr>nb_status := (nb_status nb2)\<lparr>cs_half_open := 0, cs_state := CLOSED\<rparr>,
                nb_gauge := Some 0\<rparr>, True)
      else (nb1, False))"

definition nb_onFailure :: "node_breaker \<Rightarrow> int \<Rightarrow> int \<Rightarrow> node_breaker \<times> bool" where
  "nb_onFailure nb now wall =
     (let nb1 = record_outcome nb False in
      case cs_state (nb_status nb1) of
        CLOSED \<Rightarrow>
          if shouldOpen nb1
          then (nb1\<lparr>nb_status := (nb_status nb1)\<lparr>cs_state := OPEN, cs_opened_at := wall\<rparr>,
                    opened_since := now, nb_gauge := Some 1\<rparr>, True)
          else (nb1, False)
      | OPEN \<Rightarrow> (nb1, False)
      | HALF_OPEN \<Rightarrow>
          (nb1\<lparr>nb_status := (nb_status nb1)\<lparr>cs_opened_at := wall, cs_state := OPEN\<rparr>,
               opened_since := now, nb_gauge := Some 1\<rparr>, True))"

text \<open>A history of calls on one breaker, and the booleans they return.\<close>

datatype nb_event = Allow int | Succ | Fail int int

fun nb_step :: "node_breaker \<Rightarrow> nb_event \<Rightarrow> node_breaker \<times> bool" where
  "nb_step nb (Allow t) = nb_allowRequest nb t"
| "nb_step nb Succ = nb_onSuccess nb"
| "nb_step nb (Fail t w) = nb_onFailure nb t w"

fun nb_run :: "node_breaker \<Rightarrow> nb_event list \<Rightarrow> node_breaker \<times> bool list" where
  "nb_run nb [] = (nb, [])"
| "nb_run nb (e # es) =
     (let (nb1, r) = nb_step nb e; (nb2, rs) = nb_run nb1 es in (nb2, r # rs))"

subsection \<open>Specification: a breaker over the list of recent outcomes\<close>

record breaker_spec =
  sp_state :: circuit_state
  sp_recent :: "bool list"
  sp_half_open :: int
  sp_since :: int

definition spec_init :: breaker_spec where
  "spec_init = \<lparr>sp_state = CLOSED, sp_recent = [], sp_half_open = 0, sp_since = 0\<rparr>"

definition last_n :: "nat \<Rightarrow> 'a list \<Rightarrow> 'a list" where
  "last_n n xs = drop (length xs - n) xs"

definition failures_of :: "bool list \<Rightarrow> int" where
  "failures_of xs = int (length (filter (\<lambda>x. \<not> x) xs))"

definition trips :: "circuit_config \<Rightarrow> bool list \<Rightarrow> bool" where
  "trips cfg xs \<longleftrightarrow> int (length xs) \<ge> min_calls cfg
     \<and> failures_of xs * 100 \<ge> int (length xs) * failure_ratio_percent cfg"

fun spec_step :: "circuit_config \<Rightarrow> breaker_spec \<Rightarrow> nb_event \<Rightarrow> breaker_spec \<times> bool" where
  "spec_step cfg s (Allow t) =
     (case sp_state s of
        CLOSED \<Rightarrow> (s, True)
      | OPEN \<Rightarrow> if t < sp_since s + open_duration_sec cfg * sec then (s, False)
          else (s\<lparr>sp_state := HALF_OPEN, sp_half_open := sp_half_open s + 1\<rparr>, True)
      | HALF_OPEN \<Rightarrow> if sp_half_open s < half_open_max_req cfg
          then (s\<lparr>sp_half_open := sp_half_open s + 1\<rparr>, True) else (s, False))"
| "spec_step cfg s Succ =
     (if sp_state s = CLOSED
      then (s\<lparr>sp_recent := last_n (nat (window_size cfg)) (sp_recent s @ [True])\<rparr>, False)
      else (s\<lparr>sp_state := CLOSED, sp_recent := [], sp_half_open := 0\<rparr>, True))"
| "spec_step cfg s (Fail t w) =
     (let xs = last_n (nat (window_size cfg)) (sp_recent s @ [False]); s1 = s\<lparr>sp_recent := xs\<rparr> in
      if sp_state s = HALF_OPEN \<or> sp_state s = CLOSED \<and> trips cfg xs
      then (s1\<lparr>sp_state := OPEN, sp_since := t\<rparr>, True) else (s1, False))"

fun spec_run :: "circuit_config \<Rightarrow> breaker_spec \<Rightarrow> nb_event list \<Rightarrow> breaker_spec \<times> bool list" where
  "spec_run cfg s [] = (s, [])"
| "spec_run cfg s (e # es) =
     (let (s1, r) = spec_step cfg s e; (s2, rs) = spec_run cfg s1 es in (s2, r # rs))"

subsection \<open>The window ring holds the recent outcomes\<close>

definition slot_of :: "bool \<Rightarrow> slot" where
  "slot_of x = (if x then SUCCEEDED else FAILED)"

definition win_rep :: "slot list \<Rightarrow> nat \<Rightarrow> bool list \<Rightarrow> bool" where
  "win_rep w pos xs \<longleftrightarrow> pos < length w \<and> length xs \<le> length w
     \<and> drop pos w @ take pos w = replicate (length w - length xs) EMPTY @ map slot_of xs"

lemma slot_of_simps [simp]: "slot_of x = FAILED \<longleftrightarrow> \<not> x" "slot_of x = SUCCEEDED \<longleftrightarrow> x"
  "slot_of x \<noteq> EMPTY" "slot_of True = SUCCEEDED" "slot_of False = FAILED"
  by (simp_all add: slot_of_def)

lemma rotate_overwrite:
  assumes "pos < length w"
  shows "drop (Suc pos mod length w) (w[pos := x]) @ take (Suc pos mod length w) (w[pos := x])
       = tl (drop pos w @ take pos w) @ [x]"
proof (cases "Suc pos = length w")
  case True
  then have "drop pos w = [w ! pos]" using assms by (simp add: Cons_nth_drop_Suc [symmetric])
  moreover have "w[pos := x] = take pos w @ [x]"
    using True assms by (simp add: upd_conv_take_nth_drop)
  ultimately show ?thesis using True by simp
next
  case False
  then have "Suc pos mod length w = Suc pos" using assms by simp
  moreover have "drop pos w = w ! pos # drop (Suc pos) w"
    using assms by (simp add: Cons_nth_drop_Suc)
  ultimately show ?thesis
    using assms by (simp add: take_Suc_conv_app_nth)
qed

lemma win_rep_record:
  assumes "win_rep w pos xs"
  shows "win_rep (w[pos := slot_of x]) (Suc pos mod length w) (last_n (length w) (xs @ [x]))"
proof -
  have pos: "pos < length w" and len: "length xs \<le> length w"
    and eq: "drop pos w @ take pos w = replicate (length w - length xs) EMPTY @ map slot_of xs"
    using assms by (auto simp: win_rep_def)
  note rot = rotate_overwrite [OF pos, of "slot_of x"]
  have next_pos: "Suc pos mod length w < length w" by (rule mod_less_divisor) (use pos in linarith)
  show ?thesis
  proof (cases "length xs = length w")
    case True
    then have "last_n (length w) (xs @ [x]) = tl xs @ [x]"
      using pos by (cases xs) (auto simp: last_n_def)
    moreover have "Suc (length w - Suc 0) = length w" using pos by simp
    ultimately show ?thesis using rot eq True pos next_pos by (simp add: win_rep_def map_tl)
  next
    case False
    then have "last_n (length w) (xs @ [x]) = xs @ [x]"
      using len by (simp add: last_n_def)
    moreover have "tl (replicate (length w - length xs) EMPTY @ ys)
        = replicate (length w - Suc (length xs)) EMPTY @ ys" for ys
      using False len by (cases "length w - length xs") (auto simp: Suc_diff_Suc)
    ultimately show ?thesis using rot eq False len next_pos by (simp add: win_rep_def)
  qed
qed

lemma win_rep_oldest:
  assumes "win_rep w pos xs"
  shows "w ! pos = (if length xs = length w then slot_of (hd xs) else EMPTY)"
proof -
  have pos: "pos < length w" using assms by (simp add: win_rep_def)
  then have "w ! pos = hd (drop pos w @ take pos w)" by (simp add: hd_drop_conv_nth)
  also have "\<dots> = hd (replicate (length w - length xs) EMPTY @ map slot_of xs)"
    using assms by (simp add: win_rep_def)
  finally show ?thesis
    using assms pos by (cases xs; cases "length w - length xs") (auto simp: win_rep_def)
qed

lemma win_rep_clear: "0 < n \<Longrightarrow> win_rep (replicate n EMPTY) 0 []"
  by (simp add: win_rep_def)

definition successes_of :: "bool list \<Rightarrow> int" where
  "successes_of xs = int (length (filter (\<lambda>x. x) xs))"

lemma outcome_counts: "failures_of xs + successes_of xs = int (length xs)"
  by (induction xs) (auto simp: failures_of_def successes_of_def)

lemma counts_last_n:
  assumes "length xs \<le> n" "0 < n"
  shows "failures_of (last_n n (xs @ [x])) =
           failures_of xs - (if length xs = n \<and> \<not> hd xs then 1 else 0) + (if x then 0 else 1)"
    and "successes_of (last_n n (xs @ [x])) =
           successes_of xs - (if length xs = n \<and> hd xs then 1 else 0) + (if x then 1 else 0)"
proof -
  have full: "last_n n (xs @ [x]) = tl xs @ [x]" "xs = hd xs # tl xs" if "length xs = n"
    using that assms(2) by (cases xs; auto simp: last_n_def)+
  have part: "last_n n (xs @ [x]) = xs @ [x]" if "length xs \<noteq> n"
    using that assms(1) by (simp add: last_n_def)
  have "failures_of xs = failures_of (tl xs) + (if hd xs then 0 else 1)"
    "successes_of xs = successes_of (tl xs) + (if hd xs then 1 else 0)" if "length xs = n"
    by (subst full(2) [OF that], simp add: failures_of_def successes_of_def)+
  then show "failures_of (last_n n (xs @ [x])) =
           failures_of xs - (if length xs = n \<and> \<not> hd xs then 1 else 0) + (if x then 0 else 1)"
    "successes_of (last_n n (xs @ [x])) =
           successes_of xs - (if length xs = n \<and> hd xs then 1 else 0) + (if x then 1 else 0)"
    using full(1) part by (cases "length xs = n"; simp add: failures_of_def successes_of_def)+
qed

subsection \<open>Simulation\<close>

definition nb_rel :: "node_breaker \<Rightarrow> breaker_spec \<Rightarrow> bool" where
  "nb_rel nb s \<longleftrightarrow>
     win_rep (window nb) (window_pos nb) (sp_recent s)
     \<and> int (length (window nb)) = window_size (nb_cfg nb)
     \<and> window_failures nb = failures_of (sp_recent s)
     \<and> window_successes nb = successes_of (sp_recent s)
     \<and> cs_failures (nb_status nb) = window_failures nb
     \<and> cs_successes (nb_status nb) = window_successes nb
     \<and> cs_state (nb_status nb) = sp_state s
     \<and> cs_half_open (nb_status nb) = sp_half_open s
     \<and> opened_since nb = sp_since s"

lemma heal_config_ok:
  "1 \<le> window_size (heal_config cfg)" "1 \<le> min_calls (heal_config cfg)"
  "min_calls (heal_config cfg) \<le> window_size (heal_config cfg)"
  "1 \<le> failure_ratio_percent (heal_config cfg)" "failure_ratio_percent (heal_config cfg) \<le> 100"
  by (simp_all add: heal_config_def Let_def)

lemma nb_rel_new: "nb_rel (new_node_breaker cfg) spec_init"
  using heal_config_ok(1) [of cfg]
  by (simp add: nb_rel_def new_node_breaker_def Let_def spec_init_def default_status_def
      win_rep_clear failures_of_def successes_of_def)

lemma record_outcome_fields [simp]:
  "nb_cfg (record_outcome nb x) = nb_cfg nb"
  "opened_since (record_outcome nb x) = opened_since nb"
  "cs_state (nb_status (record_outcome nb x)) = cs_state (nb_status nb)"
  "cs_half_open (nb_status (record_outcome nb x)) = cs_half_open (nb_status nb)"
  "length (window (record_outcome nb x)) = length (window nb)"
  by (simp_all add: record_outcome_def Let_def)

lemma nb_rel_record:
  assumes "nb_rel nb s"
  shows "nb_rel (record_outcome nb x)
           (s\<lparr>sp_recent := last_n (nat (window_size (nb_cfg nb))) (sp_recent s @ [x])\<rparr>)"
proof -
  have w: "win_rep (window nb) (window_pos nb) (sp_recent s)"
    and len: "nat (window_size (nb_cfg nb)) = length (window nb)"
    and lx: "length (sp_recent s) \<le> length (window nb)" "0 < length (window nb)"
    using assms by (auto simp: nb_rel_def win_rep_def)
  note old = win_rep_oldest [OF w]
  show ?thesis
    using assms win_rep_record [OF w, of x] counts_last_n [OF lx, of x] old
    by (auto simp: nb_rel_def record_outcome_def Let_def len slot_of_def)
qed

lemma nb_rel_clear:
  "nb_rel nb s \<Longrightarrow> nb_rel (clearWindow nb) (s\<lparr>sp_recent := []\<rparr>)"
  by (auto simp: nb_rel_def clearWindow_def win_rep_def failures_of_def successes_of_def)

lemma shouldOpen_trips:
  "nb_rel nb s \<Longrightarrow> shouldOpen nb \<longleftrightarrow> trips (nb_cfg nb) (sp_recent s)"
  by (auto simp: nb_rel_def shouldOpen_def trips_def Let_def outcome_counts)

lemma nb_step_cfg: "nb_cfg (fst (nb_step nb e)) = nb_cfg nb"
  by (cases e) (auto simp: nb_allowRequest_def nb_onSuccess_def nb_onFailure_def Let_def
      inc_half_open_def set_state_def clearWindow_def split: circuit_state.splits)

lemma nb_allow_sim:
  assumes "nb_rel nb s"
  shows "nb_rel (fst (nb_step nb (Allow t))) (fst (spec_step (nb_cfg nb) s (Allow t)))
       \<and> snd (nb_step nb (Allow t)) = snd (spec_step (nb_cfg nb) s (Allow t))"
  using assms
  by (auto simp: nb_rel_def nb_allowRequest_def inc_half_open_def set_state_def
      split: circuit_state.splits)

lemma nb_succ_sim:
  assumes "nb_rel nb s"
  shows "nb_rel (fst (nb_step nb Succ)) (fst (spec_step (nb_cfg nb) s Succ))
       \<and> snd (nb_step nb Succ) = snd (spec_step (nb_cfg nb) s Succ)"
proof (cases "sp_state s = CLOSED")
  case True
  then show ?thesis using nb_rel_record [OF assms, of True] assms
    by (simp add: nb_onSuccess_def Let_def nb_rel_def)
next
  case False
  then show ?thesis using nb_rel_clear [OF nb_rel_record [OF assms, of True]] assms
    by (auto simp: nb_onSuccess_def Let_def nb_rel_def clearWindow_def)
qed

lemma nb_fail_sim:
  assumes "nb_rel nb s"
  shows "nb_rel (fst (nb_step nb (Fail t w))) (fst (spec_step (nb_cfg nb) s (Fail t w)))
       \<and> snd (nb_step nb (Fail t w)) = snd (spec_step (nb_cfg nb) s (Fail t w))"
proof -
  note rec = nb_rel_record [OF assms, of False]
  have "cs_state (nb_status nb) = sp_state s" using assms by (simp add: nb_rel_def)
  then show ?thesis using rec shouldOpen_trips [OF rec]
    by (cases "sp_state s") (auto simp: nb_onFailure_def Let_def nb_rel_def)
qed

lemma nb_step_sim:
  "nb_rel nb s \<Longrightarrow> nb_rel (fst (nb_step nb e)) (fst (spec_step (nb_cfg nb) s e))
     \<and> snd (nb_step nb e) = snd (spec_step (nb_cfg nb) s e)"
  using nb_allow_sim nb_succ_sim nb_fail_sim by (cases e) blast+

lemma nb_run_sim:
  assumes "nb_rel nb s"
  shows "nb_rel (fst (nb_run nb es)) (fst (spec_run (nb_cfg nb) s es))
       \<and> snd (nb_run nb es) = snd (spec_run (nb_cfg nb) s es)"
  using assms
proof (induction es arbitrary: nb s)
  case (Cons e es)
  show ?case
    using Cons.IH [of "fst (nb_step nb e)" "fst (spec_step (nb_cfg nb) s e)"]
      nb_step_sim [OF Cons.prems, of e] nb_step_cfg [of nb e]
    by (simp add: Let_def case_prod_beta)
qed simp

lemma nb_run_cfg: "nb_cfg (fst (nb_run nb es)) = nb_cfg nb"
  by (induction es arbitrary: nb) (simp_all add: Let_def case_prod_beta nb_step_cfg)

subsection \<open>Properties\<close>

text \<open>
  Property C4. The breaker refines its specification: over every history of calls, a new
  breaker answers exactly as the abstract breaker that keeps the list of the last
  \<open>window_size\<close> outcomes since the window was last cleared, and trips exactly when that
  list has at least \<open>min_calls\<close> entries of which \<open>failure_ratio_percent\<close> failed.
  The ring buffer and the running counters represent that list in every reachable state.
\<close>

theorem breaker_refines_spec:
  "snd (nb_run (new_node_breaker cfg) es) = snd (spec_run (heal_config cfg) spec_init es)
   \<and> nb_rel (fst (nb_run (new_node_breaker cfg) es)) (fst (spec_run (heal_config cfg) spec_init es))"
  using nb_run_sim [OF nb_rel_new, of cfg es] by (simp add: new_node_breaker_def Let_def)

lemma failures_of_bounds: "0 \<le> failures_of xs" "failures_of xs \<le> int (length xs)"
  by (simp_all add: failures_of_def)

lemma nb_rel_bounds:
  assumes "nb_rel nb s"
  shows "0 \<le> window_failures nb" "0 \<le> window_successes nb"
    "window_failures nb + window_successes nb \<le> window_size (nb_cfg nb)"
  using assms outcome_counts [of "sp_recent s"]
  by (auto simp: nb_rel_def win_rep_def failures_of_def successes_of_def)

text \<open>
  Remark. The products in \<open>shouldOpen\<close> do not overflow a 32-bit \<open>int\<close>: for a
  window of at most 21474836 entries, in every state a history of calls reaches, both sides of
  the comparison are between 0 and \<open>2 ^ 31 - 1\<close>.
\<close>

theorem shouldOpen_no_overflow:
  assumes "window_size cfg \<le> 21474836"
  shows "let nb = fst (nb_run (new_node_breaker cfg) es);
             total = window_failures nb + window_successes nb in
         0 \<le> window_failures nb * 100 \<and> window_failures nb * 100 < 2 ^ 31
         \<and> 0 \<le> total * failure_ratio_percent (heal_config cfg)
         \<and> total * failure_ratio_percent (heal_config cfg) < 2 ^ 31"
proof -
  let ?nb = "fst (nb_run (new_node_breaker cfg) es)"
  let ?total = "window_failures ?nb + window_successes ?nb"
  let ?ratio = "failure_ratio_percent (heal_config cfg)"
  have rel: "nb_rel ?nb (fst (spec_run (heal_config cfg) spec_init es))"
    using nb_run_sim [OF nb_rel_new, of cfg es] by (simp add: new_node_breaker_def Let_def)
  have "nb_cfg ?nb = heal_config cfg" by (simp add: nb_run_cfg new_node_breaker_def Let_def)
  moreover have "window_size (heal_config cfg) \<le> 21474836"
    using assms by (simp add: heal_config_def Let_def)
  ultimately have t: "0 \<le> ?total" "?total \<le> 21474836" "window_failures ?nb \<le> 21474836"
      "0 \<le> window_failures ?nb"
    using nb_rel_bounds [OF rel] by auto
  have "?total * ?ratio \<le> 21474836 * 100"
    using t heal_config_ok(4,5) [of cfg] by (intro mult_mono) auto
  moreover have "0 \<le> ?total * ?ratio" using t heal_config_ok(4) [of cfg] by simp
  ultimately show ?thesis using t by (simp add: Let_def)
qed

theorem shouldOpen_no_overflow_witness:
  "let nb = fst (nb_run (new_node_breaker default_config) [Fail 0 0, Succ]);
       total = window_failures nb + window_successes nb in
   0 \<le> window_failures nb * 100 \<and> window_failures nb * 100 < 2 ^ 31
   \<and> 0 \<le> total * failure_ratio_percent (heal_config default_config)
   \<and> total * failure_ratio_percent (heal_config default_config) < 2 ^ 31"
  by (rule shouldOpen_no_overflow) (simp add: default_config_def)

fun before_cooldown :: "int \<Rightarrow> nb_event \<Rightarrow> bool" where
  "before_cooldown till (Allow t) \<longleftrightarrow> t < till"
| "before_cooldown till Succ \<longleftrightarrow> False"
| "before_cooldown till (Fail t w) \<longleftrightarrow> True"

text \<open>
  Remark. While a node is OPEN nothing gets through: for any interleaving of admission
  checks made before the cool-down has passed and of late failure reports, every
  check is refused and the node stays OPEN.
\<close>

theorem open_rejects_until_cooldown:
  assumes "cs_state (nb_status nb) = OPEN"
    and "list_all (before_cooldown (opened_since nb + open_duration_sec (nb_cfg nb) * sec)) es"
  shows "snd (nb_run nb es) = replicate (length es) False
       \<and> cs_state (nb_status (fst (nb_run nb es))) = OPEN"
  using assms
proof (induction es arbitrary: nb)
  case (Cons e es)
  have r: "snd (nb_step nb e) = False" "cs_state (nb_status (fst (nb_step nb e))) = OPEN"
    "opened_since (fst (nb_step nb e)) = opened_since nb"
    using Cons.prems
    by (cases e; simp add: nb_allowRequest_def nb_onFailure_def Let_def)+
  show ?case using Cons.IH [OF r(2)] Cons.prems(2) r nb_step_cfg [of nb e]
    by (simp add: Let_def case_prod_beta)
qed simp

theorem open_rejects_until_cooldown_witness:
  "let nb = (new_node_breaker default_config)\<lparr>nb_status := default_status\<lparr>cs_state := OPEN\<rparr>,
              opened_since := 5\<rparr>;
       es = [Allow 10, Fail 20 0, Allow 29999999999] in
   snd (nb_run nb es) = replicate (length es) False
   \<and> cs_state (nb_status (fst (nb_run nb es))) = OPEN"
  unfolding Let_def
  by (rule open_rejects_until_cooldown)
    (simp_all add: new_node_breaker_def default_config_def heal_config_def Let_def sec_def)

definition probe_budget :: "node_breaker \<Rightarrow> int" where
  "probe_budget nb =
     (if cs_state (nb_status nb) = OPEN then max 1 (half_open_max_req (nb_cfg nb))
      else max 0 (half_open_max_req (nb_cfg nb) - cs_half_open (nb_status nb)))"

lemma probe_budget_step:
  assumes "cs_state (nb_status nb) \<noteq> CLOSED" "0 \<le> cs_half_open (nb_status nb)"
    and "nb_step nb (Allow t) = (nb', r)"
  shows "probe_budget nb' + (if r then 1 else 0) \<le> probe_budget nb"
    and "cs_state (nb_status nb') \<noteq> CLOSED" and "0 \<le> cs_half_open (nb_status nb')"
    and "nb_cfg nb' = nb_cfg nb"
  using assms
  by (auto simp: probe_budget_def nb_allowRequest_def inc_half_open_def set_state_def
      split: circuit_state.splits if_splits)

text \<open>
  Remark. Probe quota: once a node has opened, and until an outcome is reported, at most
  \<open>half_open_max_req\<close> requests (or one, if that is larger) are admitted, however many
  checks are made and whenever they are made.
\<close>

theorem probe_quota:
  assumes "cs_state (nb_status nb) \<noteq> CLOSED" "0 \<le> cs_half_open (nb_status nb)"
  shows "int (length (filter id (snd (nb_run nb (map Allow ts)))))
           \<le> max 1 (half_open_max_req (nb_cfg nb))"
proof -
  have "int (length (filter id (snd (nb_run nb (map Allow ts))))) \<le> probe_budget nb"
    using assms
  proof (induction ts arbitrary: nb)
    case (Cons t ts)
    obtain nb' r where st: "nb_step nb (Allow t) = (nb', r)" by fastforce
    note b = probe_budget_step [OF Cons.prems st]
    then show ?case using Cons.IH [OF b(2,3)] st
      by (simp add: Let_def case_prod_beta split: if_splits del: nb_step.simps)
  qed (simp add: probe_budget_def max_def)
  also have "probe_budget nb \<le> max 1 (half_open_max_req (nb_cfg nb))"
    using assms(2) by (auto simp: probe_budget_def max_def)
  finally show ?thesis .
qed

theorem probe_quota_witness:
  "int (length (filter id (snd (nb_run ((new_node_breaker default_config)
       \<lparr>nb_status := default_status\<lparr>cs_state := OPEN\<rparr>\<rparr>) (map Allow [0, 30000000000, 30000000001])))))
   \<le> max 1 (half_open_max_req (nb_cfg ((new_node_breaker default_config)
       \<lparr>nb_status := default_status\<lparr>cs_state := OPEN\<rparr>\<rparr>)))"
  by (rule probe_quota) (simp_all add: default_status_def)

text \<open>
  Remark. A probe whose outcome is never reported locks the node out: in HALF\_OPEN with
  the quota used up, every later check is refused, at any time, and the state does not change;
  the cool-down applies to OPEN only.
\<close>

theorem half_open_lost_probe_stuck:
  assumes "cs_state (nb_status nb) = HALF_OPEN"
    and "half_open_max_req (nb_cfg nb) \<le> cs_half_open (nb_status nb)"
  shows "nb_run nb (map Allow ts) = (nb, replicate (length ts) False)"
  using assms by (induction ts) (simp_all add: nb_allowRequest_def)

theorem half_open_lost_probe_stuck_witness:
  "let nb = fst (nb_run ((new_node_breaker default_config)
       \<lparr>nb_status := default_status\<lparr>cs_state := OPEN\<rparr>\<rparr>) [Allow 30000000000]) in
   nb_run nb (map Allow [60000000000, 10 ^ 18]) = (nb, replicate (length [60000000000::int, 10 ^ 18]) False)"
  unfolding Let_def
  by (rule half_open_lost_probe_stuck)
    (simp_all add: nb_allowRequest_def new_node_breaker_def default_config_def heal_config_def
      default_status_def set_state_def inc_half_open_def sec_def Let_def)

fun spaced :: "int \<Rightarrow> int \<Rightarrow> int list \<Rightarrow> bool" where
  "spaced d since [] \<longleftrightarrow> True"
| "spaced d since (t # ts) \<longleftrightarrow> since + d \<le> t \<and> spaced d t ts"

definition failed_probes :: "int list \<Rightarrow> nb_event list" where
  "failed_probes ts = concat (map (\<lambda>t. [Allow t, Fail t 0]) ts)"

text \<open>
  Remark. Failed probes use up the quota for good: each cycle of a probe that fails
  and reopens the node adds one to \<open>half_open\<close>, which only a success resets. After as many
  failed cycles as the quota, each later half-open phase admits a single request, whatever
  \<open>half_open_max_req\<close> is configured.
\<close>

theorem failed_probes_keep_quota_used:
  assumes "cs_state (nb_status nb) = OPEN"
    and "spaced (open_duration_sec (nb_cfg nb) * sec) (opened_since nb) ts"
  shows "cs_half_open (nb_status (fst (nb_run nb (failed_probes ts))))
           = cs_half_open (nb_status nb) + int (length ts)
       \<and> cs_state (nb_status (fst (nb_run nb (failed_probes ts)))) = OPEN"
  using assms
proof (induction ts arbitrary: nb)
  case (Cons t ts)
  define nb1 where "nb1 = fst (nb_step (fst (nb_step nb (Allow t))) (Fail t 0))"
  have nb1: "cs_state (nb_status nb1) = OPEN" "opened_since nb1 = t" "nb_cfg nb1 = nb_cfg nb"
    "cs_half_open (nb_status nb1) = cs_half_open (nb_status nb) + 1"
    using Cons.prems
    by (simp_all add: nb1_def nb_allowRequest_def nb_onFailure_def inc_half_open_def set_state_def Let_def)
  have "fst (nb_run nb (failed_probes (t # ts))) = fst (nb_run nb1 (failed_probes ts))"
    by (simp add: failed_probes_def nb1_def Let_def case_prod_beta)
  then show ?case using Cons.IH [of nb1] nb1 Cons.prems(2) by simp
qed (simp add: failed_probes_def)

theorem failed_probes_keep_quota_used_witness:
  "let nb = (new_node_breaker default_config)\<lparr>nb_status := default_status\<lparr>cs_state := OPEN\<rparr>\<rparr>;
       ts = [30000000000, 60000000000] in
   cs_half_open (nb_status (fst (nb_run nb (failed_probes ts))))
     = cs_half_open (nb_status nb) + int (length ts)
   \<and> cs_state (nb_status (fst (nb_run nb (failed_probes ts)))) = OPEN"
  unfolding Let_def
  by (rule failed_probes_keep_quota_used)
    (simp_all add: new_node_breaker_def default_config_def heal_config_def Let_def sec_def)

end
