(* ===== verification/Circuit_Breaker.thy ===== *)
theory Circuit_Breaker
  imports Node_Breaker
begin

text \<open>
  The manager of all circuit breakers of a client (\<open>rpc/src/client/circuit_breaker.cpp\<close>)
  and the store its state is persisted in (\<open>ICircuitStateStore\<close>,
  \<open>rpc/src/server/memory_circuit_store.cpp\<close>).

  The manager is written against the interface of the store, a record of operations. The
  locale \<open>circuit_store\<close> states the laws the manager relies on; the in-memory store
  is an interpretation. The two critical sections of \<open>getOrCreate\<close> are separate
  definitions, so that the second lookup can see what another thread has inserted.
\<close>

subsection \<open>The store interface and the in-memory store\<close>

record 's circuit_store_ops =
  st_save :: "'s \<Rightarrow> string \<Rightarrow> string \<Rightarrow> circuit_status \<Rightarrow> 's \<times> bool"
  st_load :: "'s \<Rightarrow> string \<Rightarrow> string \<Rightarrow> circuit_status"
  st_remove :: "'s \<Rightarrow> string \<Rightarrow> string \<Rightarrow> 's \<times> bool"

type_synonym mem_circuit_store = "(string, string, circuit_status) nmap"

definition mcs_save ::
  "mem_circuit_store \<Rightarrow> string \<Rightarrow> string \<Rightarrow> circuit_status \<Rightarrow> mem_circuit_store \<times> bool" where
  "mcs_save s m h st = (nm_put s m h st, True)"

definition mcs_load :: "mem_circuit_store \<Rightarrow> string \<Rightarrow> string \<Rightarrow> circuit_status" where
  "mcs_load s m h =
     (case map_of s m of
        None \<Rightarrow> default_status
      | Some inner \<Rightarrow> (case map_of inner h of None \<Rightarrow> default_status | Some st \<Rightarrow> st))"

definition mcs_remove :: "mem_circuit_store \<Rightarrow> string \<Rightarrow> string \<Rightarrow> mem_circuit_store \<times> bool" where
  "mcs_remove s m h =
     (case map_of s m of
        None \<Rightarrow> (s, False)
      | Some inner \<Rightarrow>
          (case map_of inner h of
             None \<Rightarrow> (s, False)
           | Some st \<Rightarrow>
               let inner' = AList.delete h inner in
               if inner' = [] then (AList.delete m s, True)
               else (AList.update m inner' s, True)))"

definition mem_ops :: "mem_circuit_store circuit_store_ops" where
  "mem_ops = \<lparr>st_save = mcs_save, st_load = mcs_load, st_remove = mcs_remove\<rparr>"

subsection \<open>The manager\<close>

type_synonym node_map = "(string, string, node_breaker) nmap"

record 's circuit_breaker =
  cb_cfg :: circuit_config
  cb_store :: 's
  cb_nodes :: node_map

definition new_circuit_breaker :: "circuit_config \<Rightarrow> 's \<Rightarrow> 's circuit_breaker" where
  "new_circuit_breaker cfg s = \<lparr>cb_cfg = cfg, cb_store = s, cb_nodes = []\<rparr>"

text \<open>The clock values one call of the manager reads, in the order it reads them.\<close>

record clocks =
  ck_wall :: int
  ck_load_steady :: int
  ck_load_wall :: int
  ck_now :: int
  ck_now_wall :: int

definition restored_status :: "circuit_config \<Rightarrow> circuit_status \<Rightarrow> int \<Rightarrow> circuit_status" where
  "restored_status cfg saved now =
     (if cs_state saved = OPEN \<and> now - cs_opened_at saved \<ge> open_duration_sec cfg
      then saved\<lparr>cs_state := HALF_OPEN, cs_failures := 0, cs_half_open := 0\<rparr> else saved)"

definition build_node ::
  "'s circuit_store_ops \<Rightarrow> 's circuit_breaker \<Rightarrow> string \<Rightarrow> string \<Rightarrow> clocks \<Rightarrow> node_breaker" where
  "build_node ops cb m h ck =
     loadStatus (setIdentity (new_node_breaker (cb_cfg cb)) m h)
       (restored_status (cb_cfg cb) (st_load ops (cb_store cb) m h) (ck_wall ck))
       (ck_load_steady ck) (ck_load_wall ck)"

definition publish_node ::
  "'s circuit_breaker \<Rightarrow> string \<Rightarrow> string \<Rightarrow> node_breaker \<Rightarrow> 's circuit_breaker \<times> node_breaker" where
  "publish_node cb m h node =
     (case map_of (nm_inner (cb_nodes cb) m) h of
        Some n \<Rightarrow> (cb, n)
      | None \<Rightarrow> (cb\<lparr>cb_nodes := nm_put (cb_nodes cb) m h node\<rparr>, node))"

definition getOrCreate ::
  "'s circuit_store_ops \<Rightarrow> 's circuit_breaker \<Rightarrow> string \<Rightarrow> string \<Rightarrow> clocks
     \<Rightarrow> 's circuit_breaker \<times> node_breaker" where
  "getOrCreate ops cb m h ck =
     (case nm_get (cb_nodes cb) m h of
        Some n \<Rightarrow> (cb, n)
      | None \<Rightarrow> publish_node cb m h (build_node ops cb m h ck))"

definition put_node :: "'s circuit_breaker \<Rightarrow> string \<Rightarrow> string \<Rightarrow> node_breaker \<Rightarrow> 's circuit_breaker" where
  "put_node cb m h n = cb\<lparr>cb_nodes := nm_put (cb_nodes cb) m h n\<rparr>"

definition cb_allowRequest ::
  "'s circuit_store_ops \<Rightarrow> 's circuit_breaker \<Rightarrow> string \<Rightarrow> string \<Rightarrow> clocks
     \<Rightarrow> 's circuit_breaker \<times> bool" where
  "cb_allowRequest ops cb m h ck =
     (let (cb1, n) = getOrCreate ops cb m h ck;
          (n1, r) = nb_allowRequest n (ck_now ck) in
      (put_node cb1 m h n1, r))"

definition save_status ::
  "'s circuit_store_ops \<Rightarrow> 's circuit_breaker \<Rightarrow> string \<Rightarrow> string \<Rightarrow> circuit_status \<Rightarrow> 's circuit_breaker" where
  "save_status ops cb m h st = cb\<lparr>cb_store := fst (st_save ops (cb_store cb) m h st)\<rparr>"

definition cb_onSuccess ::
  "'s circuit_store_ops \<Rightarrow> 's circuit_breaker \<Rightarrow> string \<Rightarrow> string \<Rightarrow> clocks \<Rightarrow> 's circuit_breaker" where
  "cb_onSuccess ops cb m h ck =
     (let (cb1, n) = getOrCreate ops cb m h ck;
          (n1, changed) = nb_onSuccess n;
          cb2 = put_node cb1 m h n1 in
      if changed then save_status ops cb2 m h (nb_status n1) else cb2)"

definition cb_onFailure ::
  "'s circuit_store_ops \<Rightarrow> 's circuit_breaker \<Rightarrow> string \<Rightarrow> string \<Rightarrow> clocks \<Rightarrow> 's circuit_breaker" where
  "cb_onFailure ops cb m h ck =
     (let (cb1, n) = getOrCreate ops cb m h ck;
          (n1, changed) = nb_onFailure n (ck_now ck) (ck_now_wall ck);
          cb2 = put_node cb1 m h n1 in
      if changed then save_status ops cb2 m h (nb_status n1) else cb2)"

definition cb_status :: "'s circuit_breaker \<Rightarrow> string \<Rightarrow> string \<Rightarrow> circuit_status" where
  "cb_status cb m h =
     (case nm_get (cb_nodes cb) m h of Some n \<Rightarrow> nb_status n | None \<Rightarrow> default_status)"

definition removeNode ::
  "'s circuit_store_ops \<Rightarrow> 's circuit_breaker \<Rightarrow> string \<Rightarrow> string \<Rightarrow> 's circuit_breaker" where
  "removeNode ops cb m h =
     (let cb1 = cb\<lparr>cb_store := fst (st_remove ops (cb_store cb) m h)\<rparr> in
      case map_of (cb_nodes cb1) m of
        None \<Rightarrow> cb1
      | Some inner \<Rightarrow>
          let inner' = AList.delete h inner in
          if inner' = [] then cb1\<lparr>cb_nodes := AList.delete m (cb_nodes cb1)\<rparr>
          else cb1\<lparr>cb_nodes := AList.update m inner' (cb_nodes cb1)\<rparr>)"

fun removeHost_loop ::
  "'s circuit_store_ops \<Rightarrow> 's \<Rightarrow> node_map \<Rightarrow> string \<Rightarrow> 's \<times> node_map" where
  "removeHost_loop ops s [] h = (s, [])"
| "removeHost_loop ops s ((m, inner) # rest) h =
     (let inner' = AList.delete h inner;
          (s', rest') = removeHost_loop ops (fst (st_remove ops s m h)) rest h in
      (s', if inner' = [] then rest' else (m, inner') # rest'))"

definition removeHost :: "'s circuit_store_ops \<Rightarrow> 's circuit_breaker \<Rightarrow> string \<Rightarrow> 's circuit_breaker" where
  "removeHost ops cb h =
     (let (s, nodes) = removeHost_loop ops (cb_store cb) (cb_nodes cb) h in
      cb\<lparr>cb_store := s, cb_nodes := nodes\<rparr>)"

subsection \<open>Lookups after the operations\<close>

lemma nm_get_delete_update:
  assumes "map_of m a = Some inner"
  shows "nm_get (if AList.delete b inner = [] then AList.delete a m
                 else AList.update a (AList.delete b inner) m) a' b'
       = (if a' = a \<and> b' = b then None else nm_get m a' b')"
proof -
  have "map_of inner b'' = None" if "AList.delete b inner = []" "b'' \<noteq> b" for b''
    using that by (metis delete_conv fun_upd_other map_of.simps(1))
  then show ?thesis
    using assms by (auto simp: nm_get_def update_conv' delete_conv')
qed

lemma getOrCreate_nodes:
  "getOrCreate ops cb m h ck = (cb', n) \<Longrightarrow>
     nm_get (cb_nodes (put_node cb' m h n')) a b
       = (if a = m \<and> b = h then Some n' else nm_get (cb_nodes cb) a b)
     \<and> cb_store cb' = cb_store cb \<and> cb_cfg cb' = cb_cfg cb"
  by (auto simp: getOrCreate_def publish_node_def put_node_def split: option.splits if_splits)

lemma save_status_simps [simp]:
  "cb_nodes (save_status ops cb m h st) = cb_nodes cb"
  "cb_cfg (save_status ops cb m h st) = cb_cfg cb"
  "cb_store (save_status ops cb m h st) = fst (st_save ops (cb_store cb) m h st)"
  by (simp_all add: save_status_def)

lemma put_node_simps [simp]:
  "cb_cfg (put_node cb m h n) = cb_cfg cb" "cb_store (put_node cb m h n) = cb_store cb"
  by (simp_all add: put_node_def)

lemma removeNode_nodes:
  "nm_get (cb_nodes (removeNode ops cb m h)) a b
     = (if a = m \<and> b = h then None else nm_get (cb_nodes cb) a b)"
proof (cases "map_of (cb_nodes cb) m")
  case None
  then show ?thesis by (auto simp: removeNode_def nm_get_def Let_def)
next
  case (Some inner)
  then show ?thesis using nm_get_delete_update [OF Some, of h a b]
    by (auto simp: removeNode_def Let_def split: if_splits)
qed

lemma removeHost_loop_keys:
  "set (map fst (snd (removeHost_loop ops s nodes h))) \<subseteq> set (map fst nodes)"
  by (induction ops s nodes h rule: removeHost_loop.induct)
    (auto simp: Let_def case_prod_beta split: if_splits)

lemma removeHost_loop_distinct:
  "distinct (map fst nodes) \<Longrightarrow> distinct (map fst (snd (removeHost_loop ops s nodes h)))"
proof (induction ops s nodes h rule: removeHost_loop.induct)
  case (2 ops s m inner rest h)
  then show ?case
    using removeHost_loop_keys [of ops "fst (st_remove ops s m h)" rest h]
    by (auto simp: Let_def case_prod_beta)
qed simp

lemma removeHost_loop_nodes:
  "distinct (map fst nodes) \<Longrightarrow>
     nm_get (snd (removeHost_loop ops s nodes h)) a b = (if b = h then None else nm_get nodes a b)"
proof (induction ops s nodes h rule: removeHost_loop.induct)
  case (2 ops s m inner rest h)
  let ?rest = "snd (removeHost_loop ops (fst (st_remove ops s m h)) rest h)"
  have "m \<notin> set (map fst ?rest)"
    using 2(2) removeHost_loop_keys [of ops "fst (st_remove ops s m h)" rest h] by auto
  then have gone: "map_of ?rest m = None" by (simp add: map_of_eq_None_iff)
  have del: "map_of inner b = None" if "AList.delete h inner = []" "b \<noteq> h"
    using that by (metis delete_conv fun_upd_other map_of.simps(1))
  show ?case
  proof (cases "a = m")
    case True
    then show ?thesis using gone del
      by (auto simp: Let_def case_prod_beta nm_get_def delete_conv')
  next
    case False
    then show ?thesis using 2 by (auto simp: Let_def case_prod_beta nm_get_def)
  qed
qed (simp add: nm_get_def)

subsection \<open>Invariant\<close>

text \<open>
  Methods are unique keys, no method has an empty host table, and each breaker represents
  a window of outcomes under the (healed) configuration.
\<close>

definition node_ok :: "circuit_config \<Rightarrow> node_breaker \<Rightarrow> bool" where
  "node_ok cfg nb \<longleftrightarrow> nb_cfg nb = heal_config cfg \<and> (\<exists>s. nb_rel nb s)"

definition cb_inv :: "'s circuit_breaker \<Rightarrow> bool" where
  "cb_inv cb \<longleftrightarrow> distinct (map fst (cb_nodes cb))
     \<and> (\<forall>(m, inner) \<in> set (cb_nodes cb). inner \<noteq> [])
     \<and> (\<forall>m h n. nm_get (cb_nodes cb) m h = Some n \<longrightarrow> node_ok (cb_cfg cb) n)"

lemma node_ok_step: "node_ok cfg nb \<Longrightarrow> node_ok cfg (fst (nb_step nb e))"
  using nb_step_sim nb_step_cfg unfolding node_ok_def by metis

lemma node_ok_load: "node_ok cfg (loadStatus (setIdentity (new_node_breaker cfg) m h) st t w)"
proof -
  let ?nb = "loadStatus (setIdentity (new_node_breaker cfg) m h) st t w"
  have "nb_rel ?nb \<lparr>sp_state = cs_state st, sp_recent = [], sp_half_open = cs_half_open st,
      sp_since = opened_since ?nb\<rparr>"
    using heal_config_ok(1) [of cfg]
    by (auto simp: nb_rel_def loadStatus_def setIdentity_def new_node_breaker_def clearWindow_def
        Let_def win_rep_def failures_of_def successes_of_def)
  then show ?thesis
    by (auto simp: node_ok_def loadStatus_def setIdentity_def new_node_breaker_def clearWindow_def
        Let_def)
qed

lemma set_update_alist:
  "(k', v') \<in> set (AList.update k v al) \<Longrightarrow> (k', v') = (k, v) \<or> (k', v') \<in> set al"
  by (induction al) (auto split: if_splits)

lemma put_nonempty:
  assumes "\<forall>(m, inner) \<in> set nodes. inner \<noteq> []"
  shows "\<forall>(m, inner) \<in> set (nm_put nodes a b v). inner \<noteq> []"
  using assms by (auto simp: nm_put_def dest!: set_update_alist)
    (metis list.discI list.set_intros(1) map_of.simps(1) option.distinct(1) update_conv' fun_upd_same)

lemma cb_inv_put_node:
  assumes "cb_inv cb" "node_ok (cb_cfg cb) n"
  shows "cb_inv (put_node cb m h n)"
  using assms put_nonempty [of "cb_nodes cb" m h n]
  by (auto simp: cb_inv_def put_node_def nm_put_def [symmetric])
    (auto simp: nm_put_def distinct_update)

lemma getOrCreate_alt:
  "getOrCreate ops cb m h ck =
     (case nm_get (cb_nodes cb) m h of
        Some n \<Rightarrow> (cb, n)
      | None \<Rightarrow> (put_node cb m h (build_node ops cb m h ck), build_node ops cb m h ck))"
  by (simp add: getOrCreate_def publish_node_def put_node_def nm_get_inner split: option.splits)

lemma node_ok_build: "node_ok (cb_cfg cb) (build_node ops cb m h ck)"
  by (simp add: build_node_def node_ok_load)

lemma getOrCreate_ok:
  assumes "cb_inv cb" "getOrCreate ops cb m h ck = (cb', n)"
  shows "cb_inv cb'" "node_ok (cb_cfg cb) n" "cb_cfg cb' = cb_cfg cb"
proof -
  have "cb_inv (put_node cb m h (build_node ops cb m h ck))"
    by (rule cb_inv_put_node [OF assms(1) node_ok_build])
  then show "cb_inv cb'" "node_ok (cb_cfg cb) n" "cb_cfg cb' = cb_cfg cb"
    using assms node_ok_build [of cb ops m h ck]
    by (auto simp: getOrCreate_alt split: option.splits) (auto simp: cb_inv_def)
qed

lemma cb_inv_save [simp]: "cb_inv (save_status ops cb m h st) = cb_inv cb"
  by (simp add: cb_inv_def)

lemma cb_inv_node_step:
  assumes "cb_inv cb" "getOrCreate ops cb m h ck = (cb', n)" "nb_step n e = (n', r)"
  shows "cb_inv (put_node cb' m h n')"
proof (rule cb_inv_put_node)
  show "cb_inv cb'" by (rule getOrCreate_ok [OF assms(1,2)])
  show "node_ok (cb_cfg cb') n'"
    using node_ok_step [OF getOrCreate_ok(2) [OF assms(1,2)], of e] assms(3)
      getOrCreate_ok(3) [OF assms(1,2)] by simp
qed

lemma cb_inv_allow: "cb_inv cb \<Longrightarrow> cb_inv (fst (cb_allowRequest ops cb m h ck))"
  using cb_inv_node_step [of cb ops m h ck _ _ "Allow (ck_now ck)"]
  by (simp add: cb_allowRequest_def Let_def split: prod.splits)

lemma cb_inv_success: "cb_inv cb \<Longrightarrow> cb_inv (cb_onSuccess ops cb m h ck)"
  using cb_inv_node_step [of cb ops m h ck _ _ Succ]
  by (simp add: cb_onSuccess_def Let_def split: prod.splits)

lemma cb_inv_failure: "cb_inv cb \<Longrightarrow> cb_inv (cb_onFailure ops cb m h ck)"
  using cb_inv_node_step [of cb ops m h ck _ _ "Fail (ck_now ck) (ck_now_wall ck)"]
  by (simp add: cb_onFailure_def Let_def split: prod.splits)

lemma cb_inv_removeNode:
  assumes "cb_inv cb"
  shows "cb_inv (removeNode ops cb m h)"
proof -
  have "distinct (map fst (cb_nodes (removeNode ops cb m h)))"
    using assms by (auto simp: cb_inv_def removeNode_def Let_def distinct_update distinct_delete
        split: option.splits)
  moreover have "\<forall>(a, inner) \<in> set (cb_nodes (removeNode ops cb m h)). inner \<noteq> []"
    using assms by (auto simp: cb_inv_def removeNode_def Let_def AList.delete_eq
        dest!: set_update_alist split: option.splits)
  moreover have "cb_cfg (removeNode ops cb m h) = cb_cfg cb"
    by (auto simp: removeNode_def Let_def split: option.splits)
  ultimately show ?thesis
    using assms by (auto simp: cb_inv_def removeNode_nodes)
qed

lemma removeHost_loop_nonempty:
  "\<forall>(a, inner) \<in> set nodes. inner \<noteq> [] \<Longrightarrow>
     \<forall>(a, inner) \<in> set (snd (removeHost_loop ops s nodes h)). inner \<noteq> []"
  by (induction ops s nodes h rule: removeHost_loop.induct)
    (auto simp: Let_def case_prod_beta)

lemma cb_inv_removeHost: "cb_inv cb \<Longrightarrow> cb_inv (removeHost ops cb h)"
  using removeHost_loop_nonempty [of "cb_nodes cb" ops "cb_store cb" h]
    removeHost_loop_nodes [of "cb_nodes cb" ops "cb_store cb" h]
    removeHost_loop_distinct [of "cb_nodes cb" ops "cb_store cb" h]
  by (auto simp: cb_inv_def removeHost_def case_prod_beta)

inductive cb_reach :: "'s circuit_store_ops \<Rightarrow> circuit_config \<Rightarrow> 's circuit_breaker \<Rightarrow> bool"
  for ops cfg where
  start: "cb_reach ops cfg (new_circuit_breaker cfg s)"
| allow: "cb_reach ops cfg cb \<Longrightarrow> cb_reach ops cfg (fst (cb_allowRequest ops cb m h ck))"
| success: "cb_reach ops cfg cb \<Longrightarrow> cb_reach ops cfg (cb_onSuccess ops cb m h ck)"
| failure: "cb_reach ops cfg cb \<Longrightarrow> cb_reach ops cfg (cb_onFailure ops cb m h ck)"
| removeNode: "cb_reach ops cfg cb \<Longrightarrow> cb_reach ops cfg (removeNode ops cb m h)"
| removeHost: "cb_reach ops cfg cb \<Longrightarrow> cb_reach ops cfg (removeHost ops cb h)"

text \<open>
  Property C34. In every state the manager reaches, over any store: methods are unique keys,
  no empty host table is left behind, and every breaker in the tables has a healed
  configuration and a window whose ring and counters agree.
\<close>

theorem cb_reachable_inv:
  assumes "cb_reach ops cfg cb"
  shows "cb_inv cb"
  using assms
proof (induction rule: cb_reach.induct)
  case (start s)
  then show ?case by (simp add: new_circuit_breaker_def cb_inv_def nm_get_def)
qed (simp_all add: cb_inv_allow cb_inv_success cb_inv_failure cb_inv_removeNode cb_inv_removeHost)

theorem cb_reachable_inv_witness:
  "cb_inv (removeHost mem_ops (cb_onFailure mem_ops (new_circuit_breaker default_config [])
     ''add'' ''10.0.0.1:80'' \<lparr>ck_wall = 0, ck_load_steady = 0, ck_load_wall = 0, ck_now = 0,
       ck_now_wall = 0\<rparr>) ''10.0.0.1:80'')"
  by (rule cb_reachable_inv [where ops = mem_ops and cfg = default_config])
    (intro cb_reach.intros)

subsection \<open>What the manager promises over any lawful store\<close>

locale circuit_store =
  fixes ops :: "'s circuit_store_ops"
  assumes load_save: "st_load ops (fst (st_save ops s m h st)) m' h'
            = (if m' = m \<and> h' = h then st else st_load ops s m' h')"
    and load_remove: "st_load ops (fst (st_remove ops s m h)) m' h'
            = (if m' = m \<and> h' = h then default_status else st_load ops s m' h')"
begin

lemma restored_open_rejects:
  assumes "st_load ops (cb_store cb) m h = st" "cs_state st = OPEN"
    and "nm_get (cb_nodes cb) m h = None"
    and "ck_wall ck - cs_opened_at st < open_duration_sec (cb_cfg cb)"
    and "max 0 (ck_load_wall ck - cs_opened_at st) * sec + (ck_now ck - ck_load_steady ck)
           < open_duration_sec (cb_cfg cb) * sec"
  shows "\<not> snd (cb_allowRequest ops cb m h ck)"
  using assms heal_config_def [of "cb_cfg cb"]
  by (auto simp: cb_allowRequest_def getOrCreate_def publish_node_def build_node_def
      restored_status_def loadStatus_def clearWindow_def setIdentity_def new_node_breaker_def
      nb_allowRequest_def Let_def nm_get_inner split: option.splits)

lemma failure_persisted:
  assumes "nm_get (cb_nodes cb) m h = Some n" "cs_state (nb_status n) \<noteq> OPEN"
    and "cs_state (cb_status (cb_onFailure ops cb m h ck) m h) = OPEN"
  shows "st_load ops (cb_store (cb_onFailure ops cb m h ck)) m h
           = cb_status (cb_onFailure ops cb m h ck) m h"
    and "cs_opened_at (cb_status (cb_onFailure ops cb m h ck) m h) = ck_now_wall ck"
  using assms
  by (auto simp: cb_onFailure_def getOrCreate_def cb_status_def nb_onFailure_def load_save
      put_node_def Let_def split: option.splits circuit_state.splits if_splits)

lemma removeHost_loop_store:
  "st_load ops (fst (removeHost_loop ops s nodes h)) a b
     = (if b = h \<and> a \<in> set (map fst nodes) then default_status else st_load ops s a b)"
proof (induction nodes arbitrary: s)
  case (Cons e nodes)
  then show ?case by (cases e) (auto simp: Let_def case_prod_beta load_remove)
qed simp

lemma removeHost_store:
  "st_load ops (cb_store (removeHost ops cb h)) a b
     = (if b = h \<and> a \<in> set (map fst (cb_nodes cb)) then default_status
        else st_load ops (cb_store cb) a b)"
  by (simp add: removeHost_def case_prod_beta removeHost_loop_store)

lemma frame_success:
  assumes "(a, b) \<noteq> (m, h)"
  shows "nm_get (cb_nodes (cb_onSuccess ops cb m h ck)) a b = nm_get (cb_nodes cb) a b"
    and "st_load ops (cb_store (cb_onSuccess ops cb m h ck)) a b = st_load ops (cb_store cb) a b"
proof -
  obtain cb' n where g: "getOrCreate ops cb m h ck = (cb', n)" by fastforce
  obtain n' r where r: "nb_onSuccess n = (n', r)" by fastforce
  show "nm_get (cb_nodes (cb_onSuccess ops cb m h ck)) a b = nm_get (cb_nodes cb) a b"
    "st_load ops (cb_store (cb_onSuccess ops cb m h ck)) a b = st_load ops (cb_store cb) a b"
    using assms getOrCreate_nodes [OF g, of n' a b]
    by (auto simp: cb_onSuccess_def Let_def load_save g r)
qed

lemma frame_failure:
  assumes "(a, b) \<noteq> (m, h)"
  shows "nm_get (cb_nodes (cb_onFailure ops cb m h ck)) a b = nm_get (cb_nodes cb) a b"
    and "st_load ops (cb_store (cb_onFailure ops cb m h ck)) a b = st_load ops (cb_store cb) a b"
proof -
  obtain cb' n where g: "getOrCreate ops cb m h ck = (cb', n)" by fastforce
  obtain n' r where r: "nb_onFailure n (ck_now ck) (ck_now_wall ck) = (n', r)" by fastforce
  show "nm_get (cb_nodes (cb_onFailure ops cb m h ck)) a b = nm_get (cb_nodes cb) a b"
    "st_load ops (cb_store (cb_onFailure ops cb m h ck)) a b = st_load ops (cb_store cb) a b"
    using assms getOrCreate_nodes [OF g, of n' a b]
    by (auto simp: cb_onFailure_def Let_def load_save g r)
qed

end

lemma mcs_load_get: "mcs_load s m h = (case nm_get s m h of None \<Rightarrow> default_status | Some st \<Rightarrow> st)"
  by (simp add: mcs_load_def nm_get_def split: option.splits)

lemma mcs_remove_get:
  "nm_get (fst (mcs_remove s m h)) a b = (if a = m \<and> b = h then None else nm_get s a b)"
proof (cases "map_of s m")
  case None
  then show ?thesis by (auto simp: mcs_remove_def nm_get_def)
next
  case (Some inner)
  then show ?thesis using nm_get_delete_update [OF Some, of h a b]
    by (auto simp: mcs_remove_def Let_def nm_get_def split: option.splits if_splits)
qed

interpretation mem: circuit_store mem_ops
  by unfold_locales (auto simp: mem_ops_def mcs_save_def mcs_load_get mcs_remove_get)

subsection \<open>Properties over the in-memory store\<close>

text \<open>
  Remark. An open breaker stays open across a new manager over the same store: if a
  failure opens a node, the open state is persisted with the time of opening, and a
  manager created later over that store refuses the node until the cool-down, counted
  from that time, has passed.
\<close>

theorem restart_stays_open:
  assumes "nm_get (cb_nodes cb) m h = Some n" "cs_state (nb_status n) \<noteq> OPEN"
    and "cs_state (cb_status (cb_onFailure mem_ops cb m h ck) m h) = OPEN"
    and "ck_wall ck' - ck_now_wall ck < open_duration_sec (cb_cfg cb)"
    and "max 0 (ck_load_wall ck' - ck_now_wall ck) * sec + (ck_now ck' - ck_load_steady ck')
           < open_duration_sec (cb_cfg cb) * sec"
  shows "\<not> snd (cb_allowRequest mem_ops
            (new_circuit_breaker (cb_cfg cb) (cb_store (cb_onFailure mem_ops cb m h ck))) m h ck')"
proof -
  note p = mem.failure_persisted [OF assms(1-3)]
  show ?thesis
    by (rule mem.restored_open_rejects [OF _ assms(3)])
      (use assms(4,5) p in \<open>simp_all add: new_circuit_breaker_def nm_get_def\<close>)
qed

lemmas breaker_eval = cb_onFailure_def getOrCreate_def publish_node_def build_node_def
  restored_status_def loadStatus_def clearWindow_def setIdentity_def new_node_breaker_def
  nb_onFailure_def record_outcome_def shouldOpen_def heal_config_def new_circuit_breaker_def
  cb_status_def put_node_def save_status_def nm_put_def nm_get_def nm_inner_def mem_ops_def
  mcs_load_def mcs_save_def default_status_def Let_def

definition trigger_config :: circuit_config where
  "trigger_config = default_config\<lparr>window_size := 1, min_calls := 1\<rparr>"

definition clock_at :: "int \<Rightarrow> clocks" where
  "clock_at t = \<lparr>ck_wall = t, ck_load_steady = t * sec, ck_load_wall = t, ck_now = t * sec,
     ck_now_wall = t\<rparr>"

theorem restart_stays_open_witness:
  "let n = new_node_breaker trigger_config;
       cb = (new_circuit_breaker trigger_config ([] :: mem_circuit_store))
              \<lparr>cb_nodes := [(''add'', [(''a:1'', n)])]\<rparr> in
   \<not> snd (cb_allowRequest mem_ops (new_circuit_breaker (cb_cfg cb)
        (cb_store (cb_onFailure mem_ops cb ''add'' ''a:1'' (clock_at 100)))) ''add'' ''a:1'' (clock_at 129))"
  unfolding Let_def
  by (rule restart_stays_open [where n = "new_node_breaker trigger_config"])
    (simp_all add: breaker_eval trigger_config_def default_config_def clock_at_def sec_def)

text \<open>
  Remark. Isolation: reporting an outcome for one method and host changes neither the
  breaker nor the persisted state of any other method or host.
\<close>

theorem outcome_isolation:
  assumes "(a, b) \<noteq> (m, h)"
  shows "cb_status (cb_onFailure mem_ops cb m h ck) a b = cb_status cb a b
       \<and> cb_status (cb_onSuccess mem_ops cb m h ck) a b = cb_status cb a b
       \<and> mcs_load (cb_store (cb_onFailure mem_ops cb m h ck)) a b = mcs_load (cb_store cb) a b
       \<and> mcs_load (cb_store (cb_onSuccess mem_ops cb m h ck)) a b = mcs_load (cb_store cb) a b"
  using mem.frame_failure [OF assms, of cb ck] mem.frame_success [OF assms, of cb ck]
  by (simp add: cb_status_def mem_ops_def)

theorem outcome_isolation_witness:
  "let cb = new_circuit_breaker default_config ([] :: mem_circuit_store);
       ck = \<lparr>ck_wall = 0, ck_load_steady = 0, ck_load_wall = 0, ck_now = 0, ck_now_wall = 0\<rparr> in
   cb_status (cb_onFailure mem_ops cb ''add'' ''a:1'' ck) ''add'' ''b:2'' = cb_status cb ''add'' ''b:2''
   \<and> cb_status (cb_onSuccess mem_ops cb ''add'' ''a:1'' ck) ''add'' ''b:2'' = cb_status cb ''add'' ''b:2''
   \<and> mcs_load (cb_store (cb_onFailure mem_ops cb ''add'' ''a:1'' ck)) ''add'' ''b:2''
       = mcs_load (cb_store cb) ''add'' ''b:2''
   \<and> mcs_load (cb_store (cb_onSuccess mem_ops cb ''add'' ''a:1'' ck)) ''add'' ''b:2''
       = mcs_load (cb_store cb) ''add'' ''b:2''"
  unfolding Let_def by (rule outcome_isolation) simp

text \<open>
  Remark. Taking a host offline clears it and nothing else: in every reachable state,
  \<open>removeHost\<close> leaves no breaker of that host, forgets its persisted state for every
  method the manager has a breaker for, and keeps every other breaker and persisted state.
\<close>

theorem removeHost_clears:
  assumes "cb_reach mem_ops cfg cb"
  shows "cb_status (removeHost mem_ops cb h) a b
           = (if b = h then default_status else cb_status cb a b)
       \<and> mcs_load (cb_store (removeHost mem_ops cb h)) a b
           = (if b = h \<and> a \<in> set (map fst (cb_nodes cb)) then default_status
              else mcs_load (cb_store cb) a b)"
proof -
  have "cb_inv cb" using assms
    by (induction rule: cb_reach.induct)
      (simp_all add: cb_inv_allow cb_inv_success cb_inv_failure cb_inv_removeNode cb_inv_removeHost,
       simp add: new_circuit_breaker_def cb_inv_def nm_get_def)
  then show ?thesis
    using mem.removeHost_store [of cb h a b]
      removeHost_loop_nodes [of "cb_nodes cb" mem_ops "cb_store cb" h a b]
    by (simp add: cb_status_def cb_inv_def removeHost_def case_prod_beta mem_ops_def)
qed

theorem removeHost_clears_witness:
  "cb_status (removeHost mem_ops (new_circuit_breaker default_config []) ''a:1'') ''add'' ''a:1''
     = (if ''a:1'' = ''a:1'' then default_status
        else cb_status (new_circuit_breaker default_config ([] :: mem_circuit_store)) ''add'' ''a:1'')
   \<and> mcs_load (cb_store (removeHost mem_ops (new_circuit_breaker default_config []) ''a:1'')) ''add'' ''a:1''
     = (if ''a:1'' = ''a:1'' \<and> ''add'' \<in> set (map fst (cb_nodes
           (new_circuit_breaker default_config ([] :: mem_circuit_store)))) then default_status
        else mcs_load (cb_store (new_circuit_breaker default_config [])) ''add'' ''a:1'')"
  by (rule removeHost_clears) (rule cb_reach.start)

end
