(* ===== verification/Caller.thy ===== *)
theory Caller
  imports Rpc_Router Requestor_Correct Circuit_Breaker
begin

text \<open>
  \<open>RpcCaller\<close> of \<open>rpc/src/client/caller.hpp\<close>: it asks the circuit breaker, builds a
  request, sends it through the request manager, judges the answer and reports the outcome to
  the breaker. The breaker is behind an interface of three operations; what a send returns is
  an argument, so are the ids drawn for a request and the user's message types.
\<close>

subsection \<open>The breaker as the caller sees it\<close>

record 'b breaker_ops =
  br_allowRequest :: "'b \<Rightarrow> string \<Rightarrow> string \<Rightarrow> 'b \<times> bool"
  br_onSuccess :: "'b \<Rightarrow> string \<Rightarrow> string \<Rightarrow> 'b"
  br_onFailure :: "'b \<Rightarrow> string \<Rightarrow> string \<Rightarrow> 'b"

text \<open>Without a breaker every request is allowed and nothing is reported.\<close>

definition no_breaker :: "unit breaker_ops" where
  "no_breaker = \<lparr>br_allowRequest = \<lambda>b _ _. (b, True), br_onSuccess = \<lambda>b _ _. b, br_onFailure = \<lambda>b _ _. b\<rparr>"

definition circuit_breaker_ops :: "'s circuit_store_ops \<Rightarrow> clocks \<Rightarrow> clocks \<Rightarrow> 's circuit_breaker breaker_ops" where
  "circuit_breaker_ops ops ck ck' =
     \<lparr>br_allowRequest = \<lambda>b m h. cb_allowRequest ops b m h ck, br_onSuccess = \<lambda>b m h. cb_onSuccess ops b m h ck',
      br_onFailure = \<lambda>b m h. cb_onFailure ops b m h ck'\<rparr>"

subsection \<open>Classification\<close>

definition isHostSendFailure :: "rpc_error \<Rightarrow> bool" where
  "isHostSendFailure e \<longleftrightarrow> e = rpc_error.TIMEOUT \<or> e = CONN_CLOSED"

text \<open>The argument is the number in the response.\<close>

definition fromRespCode :: "int \<Rightarrow> rpc_error" where
  "fromRespCode code =
     (if code = resp_code_code resp_code.TIMEOUT then rpc_error.TIMEOUT
      else if code = resp_code_code resp_code.BACKOFF then rpc_error.BACKOFF
      else SERVICE_ERROR)"

definition onConnectionUnavailable :: "'b breaker_ops \<Rightarrow> 'b \<Rightarrow> string \<Rightarrow> string \<Rightarrow> 'b" where
  "onConnectionUnavailable B b m host = br_onFailure B b m host"

subsection \<open>JSON calls\<close>

datatype 'j send_result = SendFailed rpc_error | Received "'j base_message"

definition json_request ::
  "'j json_lib \<Rightarrow> string \<Rightarrow> string \<Rightarrow> string \<Rightarrow> string \<Rightarrow> 'j \<Rightarrow> 'j base_message option" where
  "json_request L rid trace spn m params = do {
     d1 \<leftarrow> JsonRequest_setMethod L (j_null L) m;
     d2 \<leftarrow> RpcRequest_setParams L d1 params;
     d3 \<leftarrow> JsonRequest_setTraceId L d2 trace;
     d4 \<leftarrow> JsonRequest_setSpanId L d3 spn;
     Some \<lparr>m_type = REQ_RPC, m_rid = rid, m_payload = RpcRequest d4\<rparr> }"

text \<open>How an answer is judged; \<^const>\<open>None\<close> is an exception of the JSON library.\<close>

definition judge_json :: "'j json_lib \<Rightarrow> 'j base_message \<Rightarrow> (rpc_error + 'j) option" where
  "judge_json L resp =
     (case m_payload resp of
        RpcResponse d \<Rightarrow> do {
          rc \<leftarrow> JsonResponse_rcode L d;
          if rc \<noteq> resp_code_code SUCCESS then Some (Inl (fromRespCode rc))
          else do { r \<leftarrow> JsonResponse_result L d; Some (Inr r) } }
      | _ \<Rightarrow> Some (Inl SERVICE_ERROR))"

definition call_json ::
  "'j json_lib \<Rightarrow> 'b breaker_ops \<Rightarrow> 'b \<Rightarrow> string \<Rightarrow> string \<Rightarrow> 'j send_result \<Rightarrow> ('b \<times> (rpc_error + 'j)) option" where
  "call_json L B b m host send =
     (case br_allowRequest B b m host of
        (b1, False) \<Rightarrow> Some (b1, Inl CIRCUIT_OPEN)
      | (b1, True) \<Rightarrow>
          (case send of
             SendFailed e \<Rightarrow> Some (if isHostSendFailure e then br_onFailure B b1 m host else b1, Inl e)
           | Received resp \<Rightarrow> do {
               v \<leftarrow> judge_json L resp;
               Some (case v of Inl e \<Rightarrow> (br_onFailure B b1 m host, Inl e) | Inr r \<Rightarrow> (br_onSuccess B b1 m host, Inr r)) }))"

text \<open>
  The form with a future and the one with a callback register a handler for the answer: first
  what the call does, then what the handler does when the answer arrives. A future ends with a
  value or with the text of an exception; a user callback is only run with a result.
\<close>

definition call_json_future ::
  "'b breaker_ops \<Rightarrow> 'b \<Rightarrow> string \<Rightarrow> string \<Rightarrow> rpc_error option \<Rightarrow> 'b \<times> bool \<times> rpc_error option" where
  "call_json_future B b m host send_err =
     (case br_allowRequest B b m host of
        (b1, False) \<Rightarrow> (b1, False, Some CIRCUIT_OPEN)
      | (b1, True) \<Rightarrow>
          (case send_err of
             None \<Rightarrow> (b1, True, None)
           | Some e \<Rightarrow> (if isHostSendFailure e then br_onFailure B b1 m host else b1, False, Some e)))"

definition callBack ::
  "'j json_lib \<Rightarrow> (int \<Rightarrow> string) \<Rightarrow> 'b breaker_ops \<Rightarrow> 'b \<Rightarrow> string \<Rightarrow> string \<Rightarrow> 'j base_message \<Rightarrow> ('b \<times> (string + 'j)) option" where
  "callBack L reason B b m host resp =
     (case m_payload resp of
        RpcResponse d \<Rightarrow> do {
          rc \<leftarrow> JsonResponse_rcode L d;
          if rc \<noteq> resp_code_code SUCCESS then Some (br_onFailure B b m host, Inl (reason rc))
          else do { r \<leftarrow> JsonResponse_result L d; Some (br_onSuccess B b m host, Inr r) } }
      | _ \<Rightarrow> Some (br_onFailure B b m host, Inl ''invalid response type''))"

definition call_json_callback :: "'b breaker_ops \<Rightarrow> 'b \<Rightarrow> string \<Rightarrow> string \<Rightarrow> rpc_error option \<Rightarrow> 'b \<times> bool" where
  "call_json_callback B b m host send_err =
     (case br_allowRequest B b m host of
        (b1, False) \<Rightarrow> (b1, False)
      | (b1, True) \<Rightarrow>
          (case send_err of
             None \<Rightarrow> (b1, True)
           | Some e \<Rightarrow> (if isHostSendFailure e then br_onFailure B b1 m host else b1, False)))"

definition callBackself ::
  "'j json_lib \<Rightarrow> 'b breaker_ops \<Rightarrow> 'b \<Rightarrow> string \<Rightarrow> string \<Rightarrow> 'j base_message \<Rightarrow> ('b \<times> 'j option) option" where
  "callBackself L B b m host resp =
     (case m_payload resp of
        RpcResponse d \<Rightarrow> do {
          rc \<leftarrow> JsonResponse_rcode L d;
          if rc \<noteq> resp_code_code SUCCESS then Some (br_onFailure B b m host, None)
          else do { r \<leftarrow> JsonResponse_result L d; Some (br_onSuccess B b m host, Some r) } }
      | _ \<Rightarrow> Some (br_onFailure B b m host, None))"

subsection \<open>Protobuf calls\<close>

definition proto_request :: "string \<Rightarrow> string \<Rightarrow> string \<Rightarrow> string \<Rightarrow> string \<Rightarrow> 'j base_message" where
  "proto_request rid trace spn m body =
     \<lparr>m_type = REQ_RPC_PROTO, m_rid = rid,
      m_payload = ProtoRpcRequest (new_rpc_req\<lparr>rq_method := m, rq_body := body, rq_trace_id := trace, rq_span_id := spn\<rparr>)\<rparr>"

fun as_proto_response :: "'j payload \<Rightarrow> (rpc_response_envelope \<times> int) option" where
  "as_proto_response (ProtoRpcResponse e ms) = Some (e, ms)"
| "as_proto_response _ = None"

record ('b, 'j, 'r) proto_call =
  pc_breaker :: 'b
  pc_result :: "rpc_error + 'r"
  pc_error_code :: "string option"
  pc_sent :: "'j base_message list"
  pc_waited :: "int option"

definition send_error_code :: "rpc_error \<Rightarrow> string" where
  "send_error_code e = (if e = rpc_error.BACKOFF then ''queue_full'' else ''send_failed'')"

text \<open>The last part of a call, from a response that is not a refusal to be tried again.\<close>

definition finish_proto ::
  "(string \<Rightarrow> 'r option) \<Rightarrow> (int \<Rightarrow> string) \<Rightarrow> 'b breaker_ops \<Rightarrow> 'b \<Rightarrow> string \<Rightarrow> string \<Rightarrow> rpc_response_envelope
     \<Rightarrow> 'b \<times> (rpc_error + 'r) \<times> string option" where
  "finish_proto parse reason B b m host e =
     (if rs_rcode e \<noteq> resp_code_code SUCCESS
      then (br_onFailure B b m host, Inl (fromRespCode (rs_rcode e)), Some (''remote_'' @ reason (rs_rcode e)))
      else case parse (rs_body e) of
        None \<Rightarrow> (br_onFailure B b m host, Inl SERVICE_ERROR, Some ''parse_failed'')
      | Some r \<Rightarrow> (br_onSuccess B b m host, Inr r, None))"

definition receive_proto ::
  "'b breaker_ops \<Rightarrow> 'b \<Rightarrow> string \<Rightarrow> string \<Rightarrow> 'j send_result
     \<Rightarrow> ('b \<times> rpc_error \<times> string) + (rpc_response_envelope \<times> int)" where
  "receive_proto B b m host send =
     (case send of
        SendFailed e \<Rightarrow> Inl (if isHostSendFailure e then br_onFailure B b m host else b, e, send_error_code e)
      | Received resp \<Rightarrow>
          (case as_proto_response (m_payload resp) of
             None \<Rightarrow> Inl (br_onFailure B b m host, SERVICE_ERROR, ''parse_failed'')
           | Some x \<Rightarrow> Inr x))"

definition call_proto ::
  "('q \<Rightarrow> string option) \<Rightarrow> (string \<Rightarrow> 'r option) \<Rightarrow> (int \<Rightarrow> string) \<Rightarrow> 'b breaker_ops \<Rightarrow> 'b \<Rightarrow> string \<Rightarrow> string
     \<Rightarrow> string \<times> string \<times> string \<times> string \<Rightarrow> 'q \<Rightarrow> 'j send_result \<Rightarrow> 'j send_result \<Rightarrow> ('b, 'j, 'r) proto_call" where
  "call_proto ser parse reason B b m host ids q send1 send2 =
     (let (rid, trace, spn, rid2) = ids in
      case br_allowRequest B b m host of
        (b1, False) \<Rightarrow> \<lparr>pc_breaker = b1, pc_result = Inl CIRCUIT_OPEN, pc_error_code = Some ''circuit_open'', pc_sent = [], pc_waited = None\<rparr>
      | (b1, True) \<Rightarrow>
          (case ser q of
             None \<Rightarrow> \<lparr>pc_breaker = br_onFailure B b1 m host, pc_result = Inl SERVICE_ERROR,
                       pc_error_code = Some ''serialize_failed'', pc_sent = [], pc_waited = None\<rparr>
           | Some body \<Rightarrow>
               let req = proto_request rid trace spn m body in
               (case receive_proto B b1 m host send1 of
                  Inl (b2, e, code) \<Rightarrow>
                    \<lparr>pc_breaker = b2, pc_result = Inl e, pc_error_code = Some code, pc_sent = [req], pc_waited = None\<rparr>
                | Inr (env, ms) \<Rightarrow>
                    if rs_rcode env = resp_code_code resp_code.BACKOFF
                    then
                      let wait_ms = (if ms \<le> 0 then 10 else ms);
                          req2 = proto_request rid2 trace spn m body in
                      (case receive_proto B b1 m host send2 of
                         Inl (b2, e, code) \<Rightarrow>
                           \<lparr>pc_breaker = b2, pc_result = Inl e, pc_error_code = Some code, pc_sent = [req, req2], pc_waited = Some wait_ms\<rparr>
                       | Inr (env2, ms2) \<Rightarrow>
                           if rs_rcode env2 = resp_code_code resp_code.BACKOFF
                           then \<lparr>pc_breaker = br_onFailure B b1 m host, pc_result = Inl rpc_error.BACKOFF,
                                 pc_error_code = Some ''backoff'', pc_sent = [req, req2], pc_waited = Some wait_ms\<rparr>
                           else (let (b2, r, code) = finish_proto parse reason B b1 m host env2 in
                             \<lparr>pc_breaker = b2, pc_result = r, pc_error_code = code, pc_sent = [req, req2], pc_waited = Some wait_ms\<rparr>))
                    else (let (b2, r, code) = finish_proto parse reason B b1 m host env in
                      \<lparr>pc_breaker = b2, pc_result = r, pc_error_code = code, pc_sent = [req], pc_waited = None\<rparr>))))"

text \<open>The form with a future and the one with callbacks, as for JSON.\<close>

definition call_proto_future ::
  "('q \<Rightarrow> string option) \<Rightarrow> 'b breaker_ops \<Rightarrow> 'b \<Rightarrow> string \<Rightarrow> string \<Rightarrow> 'q \<Rightarrow> rpc_error option \<Rightarrow> 'b \<times> bool" where
  "call_proto_future ser B b m host q send_err =
     (case br_allowRequest B b m host of
        (b1, False) \<Rightarrow> (b1, False)
      | (b1, True) \<Rightarrow>
          (case ser q of
             None \<Rightarrow> (br_onFailure B b1 m host, False)
           | Some body \<Rightarrow>
               (case send_err of
                  None \<Rightarrow> (b1, True)
                | Some e \<Rightarrow> (if isHostSendFailure e then br_onFailure B b1 m host else b1, False))))"

definition proto_future_answer ::
  "(string \<Rightarrow> 'r option) \<Rightarrow> (int \<Rightarrow> string) \<Rightarrow> 'b breaker_ops \<Rightarrow> 'b \<Rightarrow> string \<Rightarrow> string \<Rightarrow> 'j base_message \<Rightarrow> 'b \<times> (string + 'r)" where
  "proto_future_answer parse reason B b m host resp =
     (case as_proto_response (m_payload resp) of
        None \<Rightarrow> (br_onFailure B b m host, Inl ''invalid response type'')
      | Some (e, ms) \<Rightarrow>
          if rs_rcode e \<noteq> resp_code_code SUCCESS then (br_onFailure B b m host, Inl (reason (rs_rcode e)))
          else case parse (rs_body e) of
            None \<Rightarrow> (br_onFailure B b m host, Inl ''ParseFromString failed'')
          | Some r \<Rightarrow> (br_onSuccess B b m host, Inr r))"

text \<open>The last component is the code the error callback is run with.\<close>

definition call_proto_callback ::
  "('q \<Rightarrow> string option) \<Rightarrow> 'b breaker_ops \<Rightarrow> 'b \<Rightarrow> string \<Rightarrow> string \<Rightarrow> 'q \<Rightarrow> rpc_error option \<Rightarrow> 'b \<times> bool \<times> int option" where
  "call_proto_callback ser B b m host q send_err =
     (case br_allowRequest B b m host of
        (b1, False) \<Rightarrow> (b1, False, None)
      | (b1, True) \<Rightarrow>
          (case ser q of
             None \<Rightarrow> (br_onFailure B b1 m host, False, Some (resp_code_code INVALID_MSG))
           | Some body \<Rightarrow>
               (case send_err of
                  None \<Rightarrow> (b1, True, None)
                | Some e \<Rightarrow> (if isHostSendFailure e then br_onFailure B b1 m host else b1, False, None))))"

definition proto_callback_answer ::
  "(string \<Rightarrow> 'r option) \<Rightarrow> 'b breaker_ops \<Rightarrow> 'b \<Rightarrow> string \<Rightarrow> string \<Rightarrow> 'j base_message \<Rightarrow> 'b \<times> (int + 'r)" where
  "proto_callback_answer parse B b m host resp =
     (case as_proto_response (m_payload resp) of
        None \<Rightarrow> (br_onFailure B b m host, Inl (resp_code_code INVALID_MSG))
      | Some (e, ms) \<Rightarrow>
          if rs_rcode e \<noteq> resp_code_code SUCCESS then (br_onFailure B b m host, Inl (rs_rcode e))
          else case parse (rs_body e) of
            None \<Rightarrow> (br_onFailure B b m host, Inl (resp_code_code PARSE_FAILED))
          | Some r \<Rightarrow> (br_onSuccess B b m host, Inr r))"

subsection \<open>Two kinds of answer\<close>

lemma call_proto_success:
  assumes "br_allowRequest B b m host = (b1, True)" "ser q = Some body" "as_proto_response (m_payload a) = Some (env, ms)"
    and "rs_rcode env = 0" "parse (rs_body env) = Some r"
  shows "pc_result (call_proto ser parse reason B b m host ids q (Received a) send2) = Inr r"
    "pc_breaker (call_proto ser parse reason B b m host ids q (Received a) send2) = br_onSuccess B b1 m host"
  using assms by (simp_all add: call_proto_def receive_proto_def finish_proto_def case_prod_beta Let_def)

lemma call_proto_waits:
  assumes "br_allowRequest B b m host = (b1, True)" "ser q = Some body" "as_proto_response (m_payload a) = Some (env, ms)"
    and "rs_rcode env = 11"
  shows "pc_waited (call_proto ser parse reason B b m host ids q (Received a) send2) = Some (if ms \<le> 0 then 10 else ms)"
proof -
  have "pc_waited (let (b2, r, code) = finish_proto parse reason B b1 m host env2 in
      \<lparr>pc_breaker = b2, pc_result = r, pc_error_code = code, pc_sent = s, pc_waited = w\<rparr>) = w" for env2 s w
    by (simp add: case_prod_beta Let_def)
  then show ?thesis
    using assms by (auto simp: call_proto_def receive_proto_def [of B b1 m host "Received a"] case_prod_beta Let_def
        split: sum.splits)
qed

subsection \<open>Accounting\<close>

text \<open>A failure that says nothing about the host: the local queue was full or the message could not be sent at all.\<close>

definition local_failure :: "'j send_result \<Rightarrow> bool" where
  "local_failure s \<longleftrightarrow> (\<exists>e. s = SendFailed e \<and> \<not> isHostSendFailure e)"

text \<open>
  What an answer says about the host, read off the answer alone: nothing when the failure was
  local, otherwise whether it is a successful response with a readable body. A host that asks for
  a pause is asked a second time, and then the second answer decides.
\<close>

definition asks_pause :: "'j send_result \<Rightarrow> bool" where
  "asks_pause s = (case s of
      Received a \<Rightarrow> (case as_proto_response (m_payload a) of
        Some (env, ms) \<Rightarrow> rs_rcode env = resp_code_code resp_code.BACKOFF | None \<Rightarrow> False)
    | SendFailed e \<Rightarrow> False)"

definition readable :: "(string \<Rightarrow> 'r option) \<Rightarrow> 'j send_result \<Rightarrow> 'r option" where
  "readable parse s = (case s of
      Received a \<Rightarrow> (case as_proto_response (m_payload a) of
        Some (env, ms) \<Rightarrow> if rs_rcode env = resp_code_code SUCCESS then parse (rs_body env) else None | None \<Rightarrow> None)
    | SendFailed e \<Rightarrow> None)"

definition verdict :: "(string \<Rightarrow> 'r option) \<Rightarrow> 'j send_result \<Rightarrow> bool option" where
  "verdict parse s = (if local_failure s then None else Some (readable parse s \<noteq> None))"



text \<open>
  Remark. A request that cannot be encoded is counted against the host although nothing was sent
  (\<open>caller.hpp\<close> line 254), while the comment on local failures says they are not counted.
\<close>

theorem encode_failure_counted:
  assumes "br_allowRequest B b m host = (b1, True)" "ser q = None"
  shows "pc_breaker (call_proto ser parse reason B b m host ids q send1 send2) = br_onFailure B b1 m host"
    and "pc_sent (call_proto ser parse reason B b m host ids q send1 send2) = []"
  using assms by (auto simp: call_proto_def split: prod.splits)

subsection \<open>A probe without a verdict\<close>

fun allow_run :: "'s circuit_store_ops \<Rightarrow> 's circuit_breaker \<Rightarrow> string \<Rightarrow> string \<Rightarrow> clocks list \<Rightarrow> bool list" where
  "allow_run ops cb m h [] = []"
| "allow_run ops cb m h (ck # cks) = (let (cb', ok) = cb_allowRequest ops cb m h ck in ok # allow_run ops cb' m h cks)"

definition exhausted :: "node_breaker \<Rightarrow> bool" where
  "exhausted n \<longleftrightarrow> cs_state (nb_status n) = HALF_OPEN \<and> half_open_max_req (nb_cfg n) \<le> cs_half_open (nb_status n)"

lemma cb_allow_known:
  assumes "nm_get (cb_nodes cb) m h = Some n"
  shows "cb_allowRequest ops cb m h ck =
    (put_node cb m h (fst (nb_allowRequest n (ck_now ck))), snd (nb_allowRequest n (ck_now ck)))"
  by (simp add: cb_allowRequest_def getOrCreate_alt assms case_prod_beta)

lemma nm_get_put_node: "nm_get (cb_nodes (put_node cb m h n)) m h = Some n"
  by (simp add: put_node_def)

lemma allow_run_exhausted:
  assumes "nm_get (cb_nodes cb) m h = Some n" "exhausted n"
  shows "allow_run ops cb m h cks = replicate (length cks) False"
  using assms
proof (induction cks arbitrary: cb)
  case (Cons ck cks)
  have "nb_allowRequest n (ck_now ck) = (n, False)" using Cons.prems(2) by (simp add: exhausted_def nb_allowRequest_def)
  then show ?case using Cons.IH [OF nm_get_put_node] Cons.prems by (simp add: cb_allow_known)
qed simp

text \<open>
  Remark. A call can lock a host out for good: when the breaker grants the last probe of a
  half-open node to a call whose message does not fit into the local send queue, the call reports
  no outcome, and from then on the breaker refuses every request to that host, however long the
  client waits.
\<close>

theorem queue_full_probe_locks_out:
  assumes "nm_get (cb_nodes cb) m host = Some n" "cs_state (nb_status n) = HALF_OPEN"
    and "cs_half_open (nb_status n) + 1 = half_open_max_req (nb_cfg n)" "ser q = Some body"
  shows "let c = call_proto ser parse reason (circuit_breaker_ops ops ck ck') cb m host ids q (SendFailed rpc_error.BACKOFF) send2 in
    pc_result c = Inl rpc_error.BACKOFF \<and> allow_run ops (pc_breaker c) m host cks = replicate (length cks) False"
proof -
  let ?n = "inc_half_open n"
  have allow: "nb_allowRequest n (ck_now ck) = (?n, True)" using assms(2,3) by (simp add: nb_allowRequest_def)
  have ex: "exhausted ?n" using assms(2,3) by (simp add: exhausted_def inc_half_open_def)
  have "allow_run ops (put_node cb m host ?n) m host cks = replicate (length cks) False"
    by (rule allow_run_exhausted [OF nm_get_put_node ex])
  moreover have "cb_allowRequest ops cb m host ck = (put_node cb m host ?n, True)"
    by (simp add: cb_allow_known [OF assms(1)] allow)
  ultimately show ?thesis
    using assms(4) by (simp add: call_proto_def receive_proto_def circuit_breaker_ops_def isHostSendFailure_def
        case_prod_beta Let_def)
qed

definition probing_node :: node_breaker where
  "probing_node = (new_node_breaker default_config)\<lparr>nb_status := default_status\<lparr>cs_state := HALF_OPEN,
     cs_half_open := half_open_max_req (nb_cfg (new_node_breaker default_config)) - 1\<rparr>\<rparr>"

theorem queue_full_probe_locks_out_witness:
  "let cb = (new_circuit_breaker default_config ([] :: mem_circuit_store))\<lparr>cb_nodes := [(''add'', [(''a:1'', probing_node)])]\<rparr>;
       c = call_proto (\<lambda>q. Some q) (\<lambda>s. Some s) (\<lambda>_. []) (circuit_breaker_ops mem_ops (clock_at 0) (clock_at 0)) cb ''add'' ''a:1''
         ([], [], [], []) ''x'' (SendFailed rpc_error.BACKOFF) (SendFailed rpc_error.BACKOFF :: json send_result) in
   pc_result c = Inl rpc_error.BACKOFF
   \<and> allow_run mem_ops (pc_breaker c) ''add'' ''a:1'' [clock_at 1000, clock_at 1000000] = replicate (length [clock_at 1000, clock_at 1000000]) False"
  unfolding Let_def
  by (rule queue_full_probe_locks_out [unfolded Let_def, where n = probing_node and body = "''x''"])
    (simp_all add: nm_get_def nm_inner_def probing_node_def default_status_def)

end
