(* ===== verification/Shm_Transport.thy ===== *)
theory Shm_Transport
  imports Shm_Channel Caller
begin

text \<open>
  The shared-memory transport over the channel: the connection object of
  \<open>rpc/src/general/shm_connection.hpp\<close>, the three clients (\<open>client/shm_client.hpp\<close> copies
  serialized messages, \<open>shm_client_proto.hpp\<close> serializes Protobuf messages into the ring,
  \<open>shm_client_zc.hpp\<close> sends FlatBuffers), and what the three servers (\<open>server/shm_server*.hpp\<close>)
  do with a frame and with an answer.

  A session is the shared memory with the pins of both ends, the channel object of the client
  and its connection. What a sender observes of the other side while it waits (the read index and
  the clock) is an argument. FlatBuffers are a parameter: a writer, and a reader that verifies.
  An exception that nothing catches ends the thread and the process; it is \<^const>\<open>None\<close>.
\<close>

subsection \<open>The connection\<close>

record shm_connection =
  sc_name :: string
  sc_alive :: bool
  sc_last_send_error :: rpc_error

definition new_shm_connection :: "string \<Rightarrow> shm_connection" where
  "new_shm_connection name = \<lparr>sc_name = name, sc_alive = True, sc_last_send_error = CONN_CLOSED\<rparr>"

definition markDead :: "shm_connection \<Rightarrow> shm_connection" where
  "markDead c = c\<lparr>sc_alive := False\<rparr>"

definition setLastSendError :: "shm_connection \<Rightarrow> rpc_error \<Rightarrow> shm_connection" where
  "setLastSendError c e = c\<lparr>sc_last_send_error := e\<rparr>"

definition shm_peerAddress :: "shm_connection \<Rightarrow> string" where
  "shm_peerAddress c = ''shm://'' @ sc_name c"

subsection \<open>A session and the sending side of the clients\<close>

record shm_session =
  ss_lc :: live_channel
  ss_chan :: shm_channel
  ss_conn :: "shm_connection option"

datatype send_status = SendDone bool | SendWaiting | SendFault

definition upd_req :: "(shm_ring_buf \<Rightarrow> shm_ring_buf) \<Rightarrow> live_channel \<Rightarrow> live_channel" where
  "upd_req f lc = lc\<lparr>ctrl := (ctrl lc)\<lparr>req_channel := f (req_channel (ctrl lc))\<rparr>\<rparr>"

definition upd_resp :: "(shm_ring_buf \<Rightarrow> shm_ring_buf) \<Rightarrow> live_channel \<Rightarrow> live_channel" where
  "upd_resp f lc = lc\<lparr>ctrl := (ctrl lc)\<lparr>resp_channel := f (resp_channel (ctrl lc))\<rparr>\<rparr>"

definition notify_req :: "live_channel \<Rightarrow> live_channel" where
  "notify_req lc = lc\<lparr>req_notified := Suc (req_notified lc)\<rparr>"

definition notify_resp :: "live_channel \<Rightarrow> live_channel" where
  "notify_resp lc = lc\<lparr>resp_notified := Suc (resp_notified lc)\<rparr>"

definition req_capacity :: "shm_session \<Rightarrow> nat" where
  "req_capacity s = (if has_ctrl (ss_chan s) then unat (data_size (req_channel (ctrl (ss_lc s)))) else 0)"

text \<open>The reason of a failed send is left on the connection, where the caller reads it.\<close>

definition send_error :: "rpc_error \<Rightarrow> shm_session \<Rightarrow> shm_session" where
  "send_error e s = s\<lparr>ss_conn := map_option (\<lambda>c. setLastSendError c e) (ss_conn s)\<rparr>"

definition send_closed :: "shm_session \<Rightarrow> shm_session" where
  "send_closed s = s\<lparr>ss_conn := map_option (\<lambda>c. markDead (setLastSendError c CONN_CLOSED)) (ss_conn s)\<rparr>"

definition write_failed :: "shm_session \<Rightarrow> shm_session" where
  "write_failed s = (if \<not> is_open (ss_chan s) then send_closed s else send_error rpc_error.BACKOFF s)"

definition send_frame :: "shm_session \<Rightarrow> string \<Rightarrow> msg_type \<Rightarrow> int \<Rightarrow> int \<Rightarrow> (u64 \<times> int) list \<Rightarrow> shm_session \<times> send_status" where
  "send_frame s body t wait_ms start obs =
     (case write_request (ss_lc s) body (of_nat (msg_type_code t)) wait_ms start obs of
        Crashed \<Rightarrow> (s, SendFault)
      | Pending ch \<Rightarrow> (s\<lparr>ss_lc := upd_req (\<lambda>_. ch) (ss_lc s)\<rparr>, SendWaiting)
      | Returned ch ok \<Rightarrow>
          (let s' = s\<lparr>ss_lc := upd_req (\<lambda>_. ch) (ss_lc s)\<rparr> in
           if ok then (s'\<lparr>ss_lc := notify_req (ss_lc s')\<rparr>, SendDone True) else (write_failed s', SendDone False)))"

text \<open>\<open>ShmClient::send\<close>.\<close>

definition shm_send :: "'j libs \<Rightarrow> shm_session \<Rightarrow> 'j base_message \<Rightarrow> int \<Rightarrow> int \<Rightarrow> (u64 \<times> int) list \<Rightarrow> shm_session \<times> send_status" where
  "shm_send Q s m wait_ms start obs =
     (if \<not> is_open (ss_chan s) then (send_closed s, SendDone False)
      else case encode Q m of
        None \<Rightarrow> (s, SendFault)
      | Some (m1, body) \<Rightarrow>
          if length body + 8 > req_capacity s then (send_error SERVICE_ERROR s, SendDone False)
          else send_frame s body (m_type m) wait_ms start obs)"

text \<open>\<open>ShmClientProto::send\<close>: Protobuf requests only, serialized into the span of the ring when it is large enough.\<close>

definition proto_send :: "'j libs \<Rightarrow> shm_session \<Rightarrow> 'j base_message \<Rightarrow> int \<Rightarrow> int \<Rightarrow> (u64 \<times> int) list \<Rightarrow> shm_session \<times> send_status" where
  "proto_send Q s m wait_ms start obs =
     (case m_payload m of
        ProtoRpcRequest e \<Rightarrow>
          if \<not> is_open (ss_chan s) then (send_closed s, SendDone False)
          else let n = snd (ProtoRpcRequest_byteSize (lib_pb Q) e (m_rid m)) in
            if n + 8 > req_capacity s then (send_error SERVICE_ERROR s, SendDone False)
            else (case req_write_ptr (ss_lc s) of
                Some (off, k) \<Rightarrow>
                  if n \<le> k then
                    (let bytes = (case snd (ProtoRpcRequest_serializeToArray (lib_pb Q) e (m_rid m) k) of None \<Rightarrow> [] | Some b \<Rightarrow> b) in
                     case fill_span (req_channel (ctrl (ss_lc s))) (off, k) bytes of
                       None \<Rightarrow> (s, SendFault)
                     | Some ch \<Rightarrow>
                         (case req_commit (upd_req (\<lambda>_. ch) (ss_lc s)) n (of_nat (msg_type_code REQ_RPC_PROTO)) of
                            None \<Rightarrow> (s, SendFault)
                          | Some lc \<Rightarrow> (s\<lparr>ss_lc := lc\<rparr>, SendDone True)))
                  else send_frame s (snd (ProtoRpcRequest_serialize (lib_pb Q) e (m_rid m))) REQ_RPC_PROTO wait_ms start obs
              | None \<Rightarrow> send_frame s (snd (ProtoRpcRequest_serialize (lib_pb Q) e (m_rid m))) REQ_RPC_PROTO wait_ms start obs)
      | _ \<Rightarrow> (send_error SERVICE_ERROR s, SendDone False))"

text \<open>FlatBuffers tables of a request and an answer, with absent vectors as empty ones.\<close>

record fb_request =
  fq_id :: string
  fq_method :: string
  fq_trace_id :: string
  fq_span_id :: string
  fq_params :: string

record fb_response =
  fs_id :: string
  fs_rcode :: int
  fs_result :: string

record fb_lib =
  fb_write_request :: "fb_request \<Rightarrow> string"
  fb_read_request :: "string \<Rightarrow> fb_request option"
  fb_write_response :: "fb_response \<Rightarrow> string"
  fb_read_response :: "string \<Rightarrow> fb_response option"

definition json_text :: "'j json_lib \<Rightarrow> 'j \<Rightarrow> string" where
  "json_text L v = (case j_write L v of None \<Rightarrow> [] | Some s \<Rightarrow> s)"

definition flat_request :: "'j json_lib \<Rightarrow> string \<Rightarrow> 'j \<Rightarrow> fb_request option" where
  "flat_request L rid d = do {
     m \<leftarrow> JsonRequest_method L d;
     t \<leftarrow> JsonRequest_trace_id L d;
     sp \<leftarrow> JsonRequest_span_id L d;
     p \<leftarrow> RpcRequest_params L d;
     Some \<lparr>fq_id = rid, fq_method = m, fq_trace_id = t, fq_span_id = sp, fq_params = json_text L p\<rparr> }"

text \<open>\<open>ShmClientZc::send\<close>: JSON requests only, sent as FlatBuffers.\<close>

definition zc_send :: "fb_lib \<Rightarrow> 'j json_lib \<Rightarrow> shm_session \<Rightarrow> 'j base_message \<Rightarrow> int \<Rightarrow> int \<Rightarrow> (u64 \<times> int) list \<Rightarrow> shm_session \<times> send_status" where
  "zc_send F L s m wait_ms start obs =
     (case m_payload m of
        RpcRequest d \<Rightarrow>
          if \<not> is_open (ss_chan s) then (send_closed s, SendDone False)
          else (case flat_request L (m_rid m) d of
              None \<Rightarrow> (s, SendFault)
            | Some r \<Rightarrow>
                (let body = fb_write_request F r in
                 if length body + 8 > req_capacity s then (send_error SERVICE_ERROR s, SendDone False)
                 else send_frame s body REQ_RPC_FLAT wait_ms start obs))
      | _ \<Rightarrow> (send_error SERVICE_ERROR s, SendDone False))"

definition shm_connected :: "shm_session \<Rightarrow> bool" where
  "shm_connected s \<longleftrightarrow> is_open (ss_chan s) \<and> (case ss_conn s of None \<Rightarrow> False | Some c \<Rightarrow> sc_alive c)"

definition shm_shutdown :: "shm_fs \<Rightarrow> shm_session \<Rightarrow> shm_fs \<times> shm_session" where
  "shm_shutdown fs s =
     (let (fs', c) = destroy fs (ss_chan s) in
      (fs', s\<lparr>ss_conn := map_option markDead (ss_conn s), ss_chan := c\<rparr>))"

subsection \<open>Reading frames\<close>

definition read_request_view :: "live_channel \<Rightarrow> (live_channel \<times> frame_view option) option" where
  "read_request_view lc =
     (case read_frame_view (req_channel (ctrl lc)) (req_pin lc) of
        None \<Rightarrow> None
      | Some MemFault \<Rightarrow> None
      | Some NotReleased \<Rightarrow> Some (lc, None)
      | Some (NoFrame ch) \<Rightarrow> Some (upd_req (\<lambda>_. ch) lc, None)
      | Some (CorruptFrame ch) \<Rightarrow> Some (upd_req (\<lambda>_. ch) lc, None)
      | Some (GotFrame ch v pe) \<Rightarrow> Some ((upd_req (\<lambda>_. ch) lc)\<lparr>req_pin := pe\<rparr>, Some v))"

definition read_response_view :: "live_channel \<Rightarrow> (live_channel \<times> frame_view option) option" where
  "read_response_view lc =
     (case read_frame_view (resp_channel (ctrl lc)) (resp_pin lc) of
        None \<Rightarrow> None
      | Some MemFault \<Rightarrow> None
      | Some NotReleased \<Rightarrow> Some (lc, None)
      | Some (NoFrame ch) \<Rightarrow> Some (upd_resp (\<lambda>_. ch) lc, None)
      | Some (CorruptFrame ch) \<Rightarrow> Some (upd_resp (\<lambda>_. ch) lc, None)
      | Some (GotFrame ch v pe) \<Rightarrow> Some ((upd_resp (\<lambda>_. ch) lc)\<lparr>resp_pin := pe\<rparr>, Some v))"

text \<open>
  What the loops do with a frame. The outer \<^const>\<open>None\<close> is an exception; the inner one is a frame
  that is dropped because its type is unknown or its body does not parse.
\<close>

definition unpack :: "'j libs \<Rightarrow> frame \<Rightarrow> 'j base_message option option" where
  "unpack Q f =
     (case MessageFactory_create (lib_json Q) (uint (fst f)) of
        None \<Rightarrow> Some None
      | Some m \<Rightarrow>
          (case decode Q (snd f) m of
             None \<Rightarrow> None
           | Some (False, _) \<Rightarrow> Some None
           | Some (True, m') \<Rightarrow> Some (Some (m'\<lparr>m_type := m_type m\<rparr>))))"

definition unpack_flat_request :: "fb_lib \<Rightarrow> 'j json_lib \<Rightarrow> frame \<Rightarrow> 'j base_message option option" where
  "unpack_flat_request F L f =
     (if fst f \<noteq> of_nat (msg_type_code REQ_RPC_FLAT) then Some None
      else if snd f = [] then Some None
      else case fb_read_request F (snd f) of
        None \<Rightarrow> Some None
      | Some r \<Rightarrow> do {
          d1 \<leftarrow> JsonRequest_setMethod L (j_null L) (fq_method r);
          d2 \<leftarrow> JsonRequest_setTraceId L d1 (fq_trace_id r);
          d3 \<leftarrow> JsonRequest_setSpanId L d2 (fq_span_id r);
          d4 \<leftarrow> (if fq_params r = [] then Some d3
                 else case j_parse L (fq_params r) of None \<Rightarrow> Some d3 | Some p \<Rightarrow> RpcRequest_setParams L d3 p);
          Some (Some \<lparr>m_type = REQ_RPC, m_rid = fq_id r, m_payload = RpcRequest d4\<rparr>) })"

definition unpack_flat_response :: "fb_lib \<Rightarrow> 'j json_lib \<Rightarrow> frame \<Rightarrow> 'j base_message option option" where
  "unpack_flat_response F L f =
     (if fst f \<noteq> of_nat (msg_type_code RSP_RPC_FLAT) then Some None
      else if snd f = [] then Some None
      else case fb_read_response F (snd f) of
        None \<Rightarrow> Some None
      | Some r \<Rightarrow> do {
          d1 \<leftarrow> JsonResponse_setRcode L (j_null L) (fs_rcode r);
          d2 \<leftarrow> (if fs_result r = [] then Some d1
                 else case j_parse L (fs_result r) of None \<Rightarrow> Some d1 | Some v \<Rightarrow> JsonResponse_setResult L d1 v);
          Some (Some \<lparr>m_type = RSP_RPC, m_rid = fs_id r, m_payload = RpcResponse d2\<rparr>) })"

text \<open>
  The loops: a copying one, which reads a frame, and one over views, which unpacks a
  frame in place and releases it. With the state comes the list of the messages given to the callback.
\<close>

partial_function (option) drain ::
  "('s \<Rightarrow> ('s \<times> frame option) option) \<Rightarrow> (frame \<Rightarrow> 'm option option) \<Rightarrow> 's \<Rightarrow> ('s \<times> 'm list) option" where
  "drain rd un s = do {
     (s1, f) \<leftarrow> rd s;
     (case f of
        None \<Rightarrow> Some (s1, [])
      | Some f' \<Rightarrow> do {
          r \<leftarrow> un f';
          (s2, ms) \<leftarrow> drain rd un s1;
          Some (s2, (case r of None \<Rightarrow> ms | Some m \<Rightarrow> m # ms)) }) }"

partial_function (option) drain_views ::
  "('s \<Rightarrow> ('s \<times> frame_view option) option) \<Rightarrow> ('s \<Rightarrow> frame_view \<Rightarrow> string option) \<Rightarrow> ('s \<Rightarrow> 's) \<Rightarrow> (frame \<Rightarrow> 'm option option) \<Rightarrow> 's
     \<Rightarrow> ('s \<times> 'm list) option" where
  "drain_views rd body rel un s = do {
     (s1, v) \<leftarrow> rd s;
     (case v of
        None \<Rightarrow> Some (s1, [])
      | Some v' \<Rightarrow> do {
          b \<leftarrow> body s1 v';
          r \<leftarrow> un (view_type v', b);
          (s2, ms) \<leftarrow> drain_views rd body rel un (rel s1);
          Some (s2, (case r of None \<Rightarrow> ms | Some m \<Rightarrow> m # ms)) }) }"

definition request_body :: "live_channel \<Rightarrow> frame_view \<Rightarrow> string option" where
  "request_body lc v = body_view (req_channel (ctrl lc)) v"

definition response_body :: "live_channel \<Rightarrow> frame_view \<Rightarrow> string option" where
  "response_body lc v = body_view (resp_channel (ctrl lc)) v"

text \<open>The request loops of the three servers and the response loops of the three clients.\<close>

definition drain_requests :: "'j libs \<Rightarrow> live_channel \<Rightarrow> (live_channel \<times> 'j base_message list) option" where
  "drain_requests Q lc = drain read_request (unpack Q) lc"

definition drain_requests_proto :: "'j libs \<Rightarrow> live_channel \<Rightarrow> (live_channel \<times> 'j base_message list) option" where
  "drain_requests_proto Q lc = drain_views read_request_view request_body release_request_view (unpack Q) lc"

definition drain_requests_zc :: "fb_lib \<Rightarrow> 'j json_lib \<Rightarrow> live_channel \<Rightarrow> (live_channel \<times> 'j base_message list) option" where
  "drain_requests_zc F L lc = drain_views read_request_view request_body release_request_view (unpack_flat_request F L) lc"

definition drain_responses :: "'j libs \<Rightarrow> live_channel \<Rightarrow> (live_channel \<times> 'j base_message list) option" where
  "drain_responses Q lc = drain read_response (unpack Q) lc"

definition drain_responses_proto :: "'j libs \<Rightarrow> live_channel \<Rightarrow> (live_channel \<times> 'j base_message list) option" where
  "drain_responses_proto Q lc = drain_views read_response_view response_body release_response_view (unpack Q) lc"

definition drain_responses_zc :: "fb_lib \<Rightarrow> 'j json_lib \<Rightarrow> live_channel \<Rightarrow> (live_channel \<times> 'j base_message list) option" where
  "drain_responses_zc F L lc = drain_views read_response_view response_body release_response_view (unpack_flat_response F L) lc"

text \<open>
  One turn of \<open>responseLoop\<close>: \<open>n\<close> is the result of \<open>epoll_wait\<close>. The flag says whether the loop goes on.
\<close>

definition response_turn ::
  "(live_channel \<Rightarrow> (live_channel \<times> 'm list) option) \<Rightarrow> (shm_session \<Rightarrow> bool) \<Rightarrow> int \<Rightarrow> shm_session \<Rightarrow> (shm_session \<times> 'm list \<times> bool) option" where
  "response_turn dr alive n s =
     (if n < 0 \<or> n = 0 \<and> \<not> alive s
      then Some (s\<lparr>ss_conn := map_option markDead (ss_conn s)\<rparr>, [], False)
      else map_option (\<lambda>(lc, ms). (s\<lparr>ss_lc := lc\<rparr>, ms, True))
        (dr (if n > 0 then (ss_lc s)\<lparr>resp_notified := resp_notified (ss_lc s) - 1\<rparr> else ss_lc s)))"

subsection \<open>Answers of the servers\<close>

definition respond :: "live_channel \<Rightarrow> string \<Rightarrow> msg_type \<Rightarrow> int \<Rightarrow> (u64 \<times> int) list \<Rightarrow> (live_channel \<times> bool) option" where
  "respond lc body t start obs =
     (case write_response lc body (of_nat (msg_type_code t)) 0 start obs of
        Crashed \<Rightarrow> None
      | Pending ch \<Rightarrow> None
      | Returned ch ok \<Rightarrow> (let lc' = upd_resp (\<lambda>_. ch) lc in Some (if ok then notify_resp lc' else lc', ok)))"

text \<open>The senders the servers put into a connection; \<open>locked\<close> says that the client's entry still exists.\<close>

definition shm_reply :: "'j libs \<Rightarrow> bool \<Rightarrow> live_channel \<Rightarrow> 'j base_message \<Rightarrow> int \<Rightarrow> (u64 \<times> int) list \<Rightarrow> (live_channel \<times> bool) option" where
  "shm_reply Q locked lc m start obs =
     (if \<not> locked then Some (lc, False)
      else do { (m1, body) \<leftarrow> encode Q m; respond lc body (m_type m) start obs })"

definition proto_reply :: "'j libs \<Rightarrow> bool \<Rightarrow> live_channel \<Rightarrow> 'j base_message \<Rightarrow> int \<Rightarrow> (u64 \<times> int) list \<Rightarrow> (live_channel \<times> bool) option" where
  "proto_reply Q locked lc m start obs =
     (if \<not> locked then Some (lc, False)
      else case m_payload m of
        ProtoRpcResponse e ms \<Rightarrow>
          (let n = snd (ProtoRpcResponse_byteSize (lib_pb Q) e (m_rid m));
               copy = respond lc (snd (ProtoRpcResponse_serialize (lib_pb Q) e (m_rid m))) RSP_RPC_PROTO start obs in
           case resp_write_ptr lc of
             None \<Rightarrow> copy
           | Some (off, k) \<Rightarrow>
               if n \<le> k then
                 (let bytes = (case snd (ProtoRpcResponse_serializeToArray (lib_pb Q) e (m_rid m) k) of None \<Rightarrow> [] | Some b \<Rightarrow> b) in do {
                  ch \<leftarrow> fill_span (resp_channel (ctrl lc)) (off, k) bytes;
                  lc' \<leftarrow> resp_commit (upd_resp (\<lambda>_. ch) lc) n (of_nat (msg_type_code RSP_RPC_PROTO));
                  Some (notify_resp lc', True) })
               else copy)
      | _ \<Rightarrow> Some (lc, False))"

definition flat_response :: "'j json_lib \<Rightarrow> string \<Rightarrow> 'j \<Rightarrow> fb_response option" where
  "flat_response L rid d = do {
     rc \<leftarrow> JsonResponse_rcode L d;
     v \<leftarrow> JsonResponse_result L d;
     Some \<lparr>fs_id = rid, fs_rcode = rc, fs_result = json_text L v\<rparr> }"

definition zc_reply :: "fb_lib \<Rightarrow> 'j json_lib \<Rightarrow> bool \<Rightarrow> live_channel \<Rightarrow> 'j base_message \<Rightarrow> int \<Rightarrow> (u64 \<times> int) list \<Rightarrow> (live_channel \<times> bool) option" where
  "zc_reply F L locked lc m start obs =
     (if \<not> locked then Some (lc, False)
      else case m_payload m of
        RpcResponse d \<Rightarrow> do { r \<leftarrow> flat_response L (m_rid m) d; respond lc (fb_write_response F r) RSP_RPC_FLAT start obs }
      | _ \<Rightarrow> Some (lc, False))"

end
