(* ===== verification/Shm_Transport_Correct.thy ===== *)
theory Shm_Transport_Correct
  imports Shm_Transport
begin

text \<open>
  Proofs about the shared-memory transport: what is sent is delivered, in order and with
  its id; the zero-copy paths are the copying ones; failed sends are classified.
\<close>

subsection \<open>Unpacking in place is unpacking a copy\<close>

lemma upd_simps [simp]:
  "req_channel (ctrl (upd_req f lc)) = f (req_channel (ctrl lc))" "resp_channel (ctrl (upd_req f lc)) = resp_channel (ctrl lc)"
  "resp_channel (ctrl (upd_resp f lc)) = f (resp_channel (ctrl lc))" "req_channel (ctrl (upd_resp f lc)) = req_channel (ctrl lc)"
  "req_pin (upd_req f lc) = req_pin lc" "resp_pin (upd_req f lc) = resp_pin lc"
  "req_pin (upd_resp f lc) = req_pin lc" "resp_pin (upd_resp f lc) = resp_pin lc"
  "req_notified (upd_req f lc) = req_notified lc" "resp_notified (upd_req f lc) = resp_notified lc"
  "req_notified (upd_resp f lc) = req_notified lc" "resp_notified (upd_resp f lc) = resp_notified lc"
  by (simp_all add: upd_req_def upd_resp_def)

lemma read_request_by_view:
  "read_request lc = do {
     (lc1, v) \<leftarrow> read_request_view lc;
     (case v of
        None \<Rightarrow> Some (lc1, None)
      | Some v' \<Rightarrow> do { b \<leftarrow> request_body lc1 v'; Some (release_request_view lc1, Some (view_type v', b)) }) }"
proof (cases "read_frame_view (req_channel (ctrl lc)) (req_pin lc)")
  case (Some r)
  then show ?thesis
    by (cases r) (auto simp: read_request_def read_request_view_def read_from_def request_body_def
        release_request_view_def upd_req_def split: option.split prod.split)
qed (simp add: read_request_def read_request_view_def read_from_def)

lemma read_response_by_view:
  "read_response lc = do {
     (lc1, v) \<leftarrow> read_response_view lc;
     (case v of
        None \<Rightarrow> Some (lc1, None)
      | Some v' \<Rightarrow> do { b \<leftarrow> response_body lc1 v'; Some (release_response_view lc1, Some (view_type v', b)) }) }"
proof (cases "read_frame_view (resp_channel (ctrl lc)) (resp_pin lc)")
  case (Some r)
  then show ?thesis
    by (cases r) (auto simp: read_response_def read_response_view_def read_from_def response_body_def
        release_response_view_def upd_resp_def split: option.split prod.split)
qed (simp add: read_response_def read_response_view_def read_from_def)

text \<open>A reader of frames that views, copies and releases.\<close>

locale viewing_reader =
  fixes rd :: "'s \<Rightarrow> ('s \<times> frame option) option"
    and view :: "'s \<Rightarrow> ('s \<times> frame_view option) option"
    and body :: "'s \<Rightarrow> frame_view \<Rightarrow> string option"
    and rel :: "'s \<Rightarrow> 's"
  assumes by_view: "rd s = do {
     (s1, v) \<leftarrow> view s;
     (case v of None \<Rightarrow> Some (s1, None) | Some v' \<Rightarrow> do { b \<leftarrow> body s1 v'; Some (rel s1, Some (view_type v', b)) }) }"
begin

lemma copy_le_view:
  assumes "drain rd un s = Some y"
  shows "drain_views view body rel un s = Some y"
proof -
  have "rd = rd \<longrightarrow> drain_views view body rel un s = Some y"
  proof (rule drain.raw_induct [OF _ assms, where P = "\<lambda>r un s y. r = rd \<longrightarrow> drain_views view body rel un s = Some y"])
    fix dr :: "('s \<Rightarrow> ('s \<times> frame option) option) \<Rightarrow> (frame \<Rightarrow> 'a option option) \<Rightarrow> 's \<Rightarrow> ('s \<times> 'a list) option" and r un s y
    assume IH: "\<And>r un s y. dr r un s = Some y \<Longrightarrow> r = rd \<longrightarrow> drain_views view body rel un s = Some y"
      and step: "do { (s1, f) \<leftarrow> r s;
        (case f of None \<Rightarrow> Some (s1, [])
         | Some f' \<Rightarrow> do { q \<leftarrow> un f'; (s2, ms) \<leftarrow> dr r un s1; Some (s2, (case q of None \<Rightarrow> ms | Some m \<Rightarrow> m # ms)) }) } = Some y"
    show "r = rd \<longrightarrow> drain_views view body rel un s = Some y"
    proof
      assume r: "r = rd"
      obtain s1 w where w: "view s = Some (s1, w)" using step unfolding r by_view by (auto simp: bind_eq_Some_conv)
      show "drain_views view body rel un s = Some y"
      proof (cases w)
        case None
        then show ?thesis using step w unfolding r by_view by (subst drain_views.simps) simp
      next
        case (Some v')
        then obtain x q s2 ms where "body s1 v' = Some x" "un (view_type v', x) = Some q" "dr rd un (rel s1) = Some (s2, ms)"
            "y = (s2, (case q of None \<Rightarrow> ms | Some m \<Rightarrow> m # ms))"
          using step w by (auto simp: bind_eq_Some_conv r by_view [of s])
        then show ?thesis using IH [of rd un "rel s1"] w Some by (subst drain_views.simps) simp
      qed
    qed
  qed
  then show ?thesis by simp
qed

lemma view_le_copy:
  assumes "drain_views view body rel un s = Some y"
  shows "drain rd un s = Some y"
proof -
  have "view = view \<and> body = body \<and> rel = rel \<longrightarrow> drain rd un s = Some y"
  proof (rule drain_views.raw_induct [OF _ assms,
      where P = "\<lambda>v b r un s y. v = view \<and> b = body \<and> r = rel \<longrightarrow> drain rd un s = Some y"])
    fix dr :: "('s \<Rightarrow> ('s \<times> frame_view option) option) \<Rightarrow> ('s \<Rightarrow> frame_view \<Rightarrow> string option) \<Rightarrow> ('s \<Rightarrow> 's)
        \<Rightarrow> (frame \<Rightarrow> 'a option option) \<Rightarrow> 's \<Rightarrow> ('s \<times> 'a list) option" and v b r un s y
    assume IH: "\<And>v b r un s y. dr v b r un s = Some y \<Longrightarrow> v = view \<and> b = body \<and> r = rel \<longrightarrow> drain rd un s = Some y"
      and step: "do { (s1, f) \<leftarrow> v s;
        (case f of None \<Rightarrow> Some (s1, [])
         | Some v' \<Rightarrow> do { x \<leftarrow> b s1 v'; q \<leftarrow> un (view_type v', x); (s2, ms) \<leftarrow> dr v b r un (r s1);
             Some (s2, (case q of None \<Rightarrow> ms | Some m \<Rightarrow> m # ms)) }) } = Some y"
    show "v = view \<and> b = body \<and> r = rel \<longrightarrow> drain rd un s = Some y"
    proof (clarify)
      assume [simp]: "v = view" "b = body" "r = rel"
      obtain s1 w where w: "view s = Some (s1, w)" using step by (auto simp: bind_eq_Some_conv)
      show "drain rd un s = Some y"
      proof (cases w)
        case None
        then show ?thesis using step w by (subst drain.simps) (simp add: by_view)
      next
        case (Some v')
        then obtain x q s2 ms where "body s1 v' = Some x" "un (view_type v', x) = Some q" "dr view body rel un (rel s1) = Some (s2, ms)"
            "y = (s2, (case q of None \<Rightarrow> ms | Some m \<Rightarrow> m # ms))"
          using step w by (auto simp: bind_eq_Some_conv)
        then show ?thesis using IH [of view body rel un "rel s1"] w Some by (subst drain.simps) (simp add: by_view)
      qed
    qed
  qed
  then show ?thesis by simp
qed

lemma drain_views_eq: "drain_views view body rel un s = drain rd un s"
proof (cases "drain rd un s")
  case None
  then show ?thesis using view_le_copy [of un s] by (cases "drain_views view body rel un s") auto
next
  case (Some y)
  then show ?thesis using copy_le_view [of un s] by simp
qed

end

interpretation req_views: viewing_reader read_request read_request_view request_body release_request_view
  by unfold_locales (rule read_request_by_view)

interpretation resp_views: viewing_reader read_response read_response_view response_body release_response_view
  by unfold_locales (rule read_response_by_view)

subsection \<open>Draining a ring\<close>

text \<open>A source of frames that hands them out one by one.\<close>

locale frame_source =
  fixes rd :: "'s \<Rightarrow> ('s \<times> frame option) option"
    and contents :: "'s \<Rightarrow> frame list \<Rightarrow> bool"
  assumes none_left: "contents s [] \<Longrightarrow> \<exists>s'. rd s = Some (s', None) \<and> contents s' []"
    and next_frame: "contents s (f # fs) \<Longrightarrow> \<exists>s'. rd s = Some (s', Some f) \<and> contents s' fs"
begin

lemma drain_all:
  assumes "contents s fs" "those (map un fs) = Some rs"
  shows "\<exists>s'. drain rd un s = Some (s', List.map_filter id rs) \<and> contents s' []"
  using assms
proof (induction fs arbitrary: s rs)
  case Nil
  then obtain s' where "rd s = Some (s', None)" "contents s' []" using none_left by blast
  then show ?case using Nil.prems(2) by (subst drain.simps) (simp add: map_filter_simps)
next
  case (Cons f fs)
  obtain s1 where s1: "rd s = Some (s1, Some f)" "contents s1 fs" using next_frame [OF Cons.prems(1)] by blast
  obtain r rs' where r: "un f = Some r" "those (map un fs) = Some rs'" "rs = r # rs'"
    using Cons.prems(2) by (auto split: option.splits)
  obtain s' where "drain rd un s1 = Some (s', List.map_filter id rs')" "contents s' []" using Cons.IH [OF s1(2) r(2)] by blast
  then show ?case using s1(1) r by (subst drain.simps) (simp add: map_filter_simps split: option.split)
qed

end

lemma read_from_empty:
  "ring_rep ch p q [] \<Longrightarrow> read_from ch 0 = Some ((ch, 0), None)"
  by (simp add: read_from_def read_frame_view_empty)

lemma read_from_frame:
  assumes "ring_rep ch p q (f # fs)" "q < 2 ^ 64"
  shows "\<exists>ch' p'. read_from ch 0 = Some ((ch', 0), Some f) \<and> ring_rep ch' p' q fs
     \<and> data_size ch' = data_size ch \<and> write_idx ch' = write_idx ch"
proof -
  define n where "n = unat (data_size ch)"
  obtain t where t: "t = frame_start n p (flen (snd f))"
    and rd: "read_frame_view ch 0 = Some (GotFrame (ch\<lparr>read_idx := of_nat t\<rparr>) (view_at n t f) (of_nat (t + flen (snd f))))"
    and bv: "body_view (ch\<lparr>read_idx := of_nat t\<rparr>) (view_at n t f) = Some (snd f)"
    and rep: "ring_rep (ch\<lparr>read_idx := of_nat t\<rparr>) t q (f # fs)"
    and here: "frame_start n t (flen (snd f)) = t"
    using read_frame_view_frame [OF assms(1)] unfolding n_def by metis
  have "layout (vbyte (ch\<lparr>read_idx := of_nat t\<rparr>)) n t (f # fs) q" using rep by (simp add: ring_rep_alt n_def del: layout.simps)
  then have "t + flen (snd f) \<le> q" using layout_Cons_le here by metis
  then have "(of_nat (t + flen (snd f)) :: u64) \<noteq> 0" using pin_nonzero [OF assms(2)] by blast
  then show ?thesis
    using release_frame_view_ok [OF rep _ refl] here rd bv
    by (auto simp: read_from_def view_at_def n_def)
qed

text \<open>
  The frames in a direction, read at write position \<open>q\<close>; the rest of the channel, as \<open>lc0\<close> has it,
  is not touched.
\<close>

definition req_contents :: "nat \<Rightarrow> live_channel \<Rightarrow> live_channel \<Rightarrow> frame list \<Rightarrow> bool" where
  "req_contents q lc0 lc fs \<longleftrightarrow> q < 2 ^ 64 \<and> (\<exists>p ch. lc = upd_req (\<lambda>_. ch) lc0 \<and> ring_rep ch p q fs
     \<and> data_size ch = data_size (req_channel (ctrl lc0))) \<and> req_pin lc0 = 0"

definition resp_contents :: "nat \<Rightarrow> live_channel \<Rightarrow> live_channel \<Rightarrow> frame list \<Rightarrow> bool" where
  "resp_contents q lc0 lc fs \<longleftrightarrow> q < 2 ^ 64 \<and> (\<exists>p ch. lc = upd_resp (\<lambda>_. ch) lc0 \<and> ring_rep ch p q fs
     \<and> data_size ch = data_size (resp_channel (ctrl lc0))) \<and> resp_pin lc0 = 0"

interpretation req_source: frame_source read_request "req_contents q lc0" for q lc0
proof
  fix s f fs
  assume "req_contents q lc0 s (f # fs)"
  then obtain p ch where c: "q < 2 ^ 64" "s = upd_req (\<lambda>_. ch) lc0" "ring_rep ch p q (f # fs)"
      "data_size ch = data_size (req_channel (ctrl lc0))" "req_pin lc0 = 0"
    by (auto simp: req_contents_def)
  obtain ch' p' where "read_from ch 0 = Some ((ch', 0), Some f)" "ring_rep ch' p' q fs" "data_size ch' = data_size ch"
    using read_from_frame [OF c(3,1)] by blast
  then show "\<exists>s'. read_request s = Some (s', Some f) \<and> req_contents q lc0 s' fs"
    using c by (auto simp: read_request_def req_contents_def upd_req_def intro!: exI [of _ ch'])
next
  fix s
  assume "req_contents q lc0 s []"
  then obtain p ch where c: "q < 2 ^ 64" "s = upd_req (\<lambda>_. ch) lc0" "ring_rep ch p q []"
      "data_size ch = data_size (req_channel (ctrl lc0))" "req_pin lc0 = 0"
    by (auto simp: req_contents_def)
  then show "\<exists>s'. read_request s = Some (s', None) \<and> req_contents q lc0 s' []"
    using read_from_empty [OF c(3)] by (auto simp: read_request_def req_contents_def upd_req_def intro!: exI [of _ ch])
qed

interpretation resp_source: frame_source read_response "resp_contents q lc0" for q lc0
proof
  fix s f fs
  assume "resp_contents q lc0 s (f # fs)"
  then obtain p ch where c: "q < 2 ^ 64" "s = upd_resp (\<lambda>_. ch) lc0" "ring_rep ch p q (f # fs)"
      "data_size ch = data_size (resp_channel (ctrl lc0))" "resp_pin lc0 = 0"
    by (auto simp: resp_contents_def)
  obtain ch' p' where "read_from ch 0 = Some ((ch', 0), Some f)" "ring_rep ch' p' q fs" "data_size ch' = data_size ch"
    using read_from_frame [OF c(3,1)] by blast
  then show "\<exists>s'. read_response s = Some (s', Some f) \<and> resp_contents q lc0 s' fs"
    using c by (auto simp: read_response_def resp_contents_def upd_resp_def intro!: exI [of _ ch'])
next
  fix s
  assume "resp_contents q lc0 s []"
  then obtain p ch where c: "q < 2 ^ 64" "s = upd_resp (\<lambda>_. ch) lc0" "ring_rep ch p q []"
      "data_size ch = data_size (resp_channel (ctrl lc0))" "resp_pin lc0 = 0"
    by (auto simp: resp_contents_def)
  then show "\<exists>s'. read_response s = Some (s', None) \<and> resp_contents q lc0 s' []"
    using read_from_empty [OF c(3)] by (auto simp: read_response_def resp_contents_def upd_resp_def intro!: exI [of _ ch])
qed

subsection \<open>Sending\<close>

text \<open>A write while the other side rests: the read index is the one in the ring at every look.\<close>

definition resting :: "shm_ring_buf \<Rightarrow> int list \<Rightarrow> (u64 \<times> int) list" where
  "resting ch ts = map (\<lambda>t. (read_idx ch, t)) ts"

definition in_time :: "int \<Rightarrow> int \<Rightarrow> int list \<Rightarrow> bool" where
  "in_time wait_ms start ts \<longleftrightarrow> ts \<noteq> [] \<and> (wait_ms \<le> 0 \<or> (\<exists>t \<in> set ts. start + wait_ms \<le> t))"

lemma write_loop_resting:
  assumes "ring_rep ch p q fs" "flen b \<le> unat (data_size ch)" "flen b < 2 ^ 32"
    and "idx_ok (unat (data_size ch)) (q + 2 * unat (data_size ch))" "r = of_nat p"
    and "ts \<noteq> []" "wait_ms \<le> 0 \<or> (\<exists>t \<in> set ts. dl \<le> t)"
  shows "\<exists>ch' q' ok. write_loop ch b mt wait_ms dl (map (\<lambda>t. (r, t)) ts) = Returned ch' ok
     \<and> ring_rep ch' p q' (if ok then fs @ [(mt, b)] else fs) \<and> data_size ch' = data_size ch
     \<and> q' \<le> q + 2 * unat (data_size ch) \<and> (ok \<longleftrightarrow> write_fits (unat (data_size ch)) p q (flen b))"
  using assms
proof (induction ts arbitrary: ch)
  case (Cons t ts)
  have c: "ch\<lparr>read_idx := r\<rparr> = ch" using Cons.prems(1,5) by (simp add: ring_rep_alt)
  have "q - p \<le> unat (data_size ch)" using Cons.prems(1) by (simp add: ring_rep_alt)
  then have ok: "attempt_ok ch p p q fs b mt (write_attempt ch r b mt)"
    using write_attempt_ok [OF Cons.prems(1) order_refl _ Cons.prems(2-4), of mt] Cons.prems(5) by simp
  show ?case
  proof (cases "write_attempt ch r b mt")
    case Fault
    with ok show ?thesis by (simp add: attempt_ok_def)
  next
    case (Written ch')
    have "frame_start (unat (data_size ch)) q (flen b) + flen b \<le> q + 2 * unat (data_size ch)"
      using Cons.prems(2) by (auto simp: frame_start_def)
    then show ?thesis using ok Written c by (auto simp: attempt_ok_def intro!: exI [of _ True])
  next
    case (Full ch')
    with ok have f: "ring_rep ch' p q fs" "data_size ch' = data_size ch" "\<not> write_fits (unat (data_size ch)) p q (flen b)"
      by (simp_all add: attempt_ok_def)
    show ?thesis
    proof (cases "wait_ms \<le> 0 \<or> dl \<le> t")
      case True
      then show ?thesis using Full f c by (auto intro!: exI [of _ False])
    next
      case False
      then have "ts \<noteq> []" "\<exists>t \<in> set ts. dl \<le> t" using Cons.prems(7) by auto
      then show ?thesis using Cons.IH [OF f(1)] Cons.prems f Full False c by auto
    qed
  qed
qed simp

text \<open>
  What a message is after it went through shared memory. A frame carries a type and a
  body but no id, so only the classes that write their id into the body keep it.
\<close>

definition shm_arrived :: "'j libs \<Rightarrow> 'j base_message \<Rightarrow> 'j base_message option" where
  "shm_arrived Q m =
     (case m_payload m of
        ProtoTopicRequest e \<Rightarrow> Some (m\<lparr>m_rid := []\<rparr>)
      | ProtoTopicResponse e \<Rightarrow> Some (m\<lparr>m_rid := []\<rparr>)
      | ProtoServiceRequest e \<Rightarrow> Some (m\<lparr>m_rid := []\<rparr>)
      | ProtoServiceResponse e \<Rightarrow> Some (m\<lparr>m_rid := []\<rparr>)
      | _ \<Rightarrow> arrived Q m)"

definition deliverable :: "'j libs \<Rightarrow> 'j base_message \<Rightarrow> bool" where
  "deliverable Q m \<longleftrightarrow> json_api (lib_json Q) \<and> libs_read_back Q m \<and> m_rid m \<noteq> [] \<and> well_typed m"

definition body_of :: "'j libs \<Rightarrow> 'j base_message \<Rightarrow> string" where
  "body_of Q m = snd (the (encode Q m))"

definition frame_of :: "'j libs \<Rightarrow> 'j base_message \<Rightarrow> frame" where
  "frame_of Q m = (of_nat (msg_type_code (m_type m)), body_of Q m)"

lemma code_small: "msg_type_code t < 14"
  by (cases t) simp_all

lemma uint_code: "uint (of_nat (msg_type_code t) :: u32) = int (msg_type_code t)"
proof -
  have "unat (of_nat (msg_type_code t) :: u32) = msg_type_code t"
    using code_small [of t] by (simp add: unat_of_nat take_bit_nat_eq_self)
  then show ?thesis by (metis uint_nat)
qed

lemma unpack_frame:
  "unpack Q (frame_of Q m) =
     (case fresh_payload (lib_json Q) (m_type m) of
        None \<Rightarrow> Some None
      | Some p \<Rightarrow>
          (case decode Q (body_of Q m) \<lparr>m_type = m_type m, m_rid = [], m_payload = p\<rparr> of
             None \<Rightarrow> None
           | Some (False, _) \<Rightarrow> Some None
           | Some (True, m') \<Rightarrow> Some (Some (m'\<lparr>m_type := m_type m\<rparr>))))"
  by (simp add: unpack_def frame_of_def uint_code MessageFactory_create_def split: option.split bool.split)

lemma json_unpacks:
  assumes "json_api (lib_json Q)" "libs_read_back Q m" "m_rid m \<noteq> []" "well_typed m" "payload_json (m_payload m) = Some d"
  shows "encode Q m \<noteq> None \<and> unpack Q (frame_of Q m) = Some (shm_arrived Q m) \<and> shm_arrived Q m \<noteq> None"
proof -
  obtain d' where d': "stamped Q m d = Some d'" "json_reads_back (lib_json Q) d'"
    using assms(2,5) by (cases "m_payload m") (auto simp: libs_read_back_def)
  have put: "j_put (lib_json Q) d ''id'' (j_str (lib_json Q) (m_rid m)) = Some d'"
    using d'(1) assms(3) by (simp add: stamped_def)
  obtain s where s: "JsonMessage_serialize (lib_json Q) d (m_rid m) = Some s"
    "JsonMessage_unserialize (lib_json Q) (j_null (lib_json Q)) [] s = Some (True, d', m_rid m)"
    using json_reads [OF assms(1) put d'(2) assms(3)] by blast
  show ?thesis
    using assms(4,5) s d'(1)
    by (cases m; cases "m_payload m")
      (auto simp: body_of_def unpack_frame shm_arrived_def class_defs decode_json_def)
qed

lemma proto_unpacks:
  assumes "libs_read_back Q m" "m_rid m \<noteq> []" "well_typed m" "payload_json (m_payload m) = None"
  shows "encode Q m \<noteq> None \<and> unpack Q (frame_of Q m) = Some (shm_arrived Q m) \<and> shm_arrived Q m \<noteq> None"
  using assms by (cases m; cases "m_payload m")
    (auto simp: body_of_def unpack_frame shm_arrived_def class_defs Let_def pb_reads
      ProtoRpcRequest_stamp_def ProtoRpcResponse_stamp_def)

lemma unpacks:
  assumes "deliverable Q m"
  shows "\<exists>m1. encode Q m = Some (m1, body_of Q m)" "unpack Q (frame_of Q m) = Some (shm_arrived Q m)" "shm_arrived Q m \<noteq> None"
proof -
  have "encode Q m \<noteq> None \<and> unpack Q (frame_of Q m) = Some (shm_arrived Q m) \<and> shm_arrived Q m \<noteq> None"
    using assms json_unpacks [of Q m] proto_unpacks [of Q m]
    by (cases "payload_json (m_payload m)") (auto simp: deliverable_def)
  then show "\<exists>m1. encode Q m = Some (m1, body_of Q m)" "unpack Q (frame_of Q m) = Some (shm_arrived Q m)" "shm_arrived Q m \<noteq> None"
    by (auto simp: body_of_def)
qed

subsection \<open>Delivery\<close>

text \<open>An open session whose request ring of \<open>n\<close> bytes holds the frames \<open>fs\<close>, written up to position \<open>q\<close>.\<close>

definition session_ok :: "nat \<Rightarrow> nat \<Rightarrow> frame list \<Rightarrow> shm_session \<Rightarrow> bool" where
  "session_ok n q fs s \<longleftrightarrow> is_open (ss_chan s) \<and> has_ctrl (ss_chan s) \<and> ss_conn s \<noteq> None \<and> req_pin (ss_lc s) = 0
     \<and> unat (data_size (req_channel (ctrl (ss_lc s)))) = n \<and> q < 2 ^ 64
     \<and> (\<exists>p. ring_rep (req_channel (ctrl (ss_lc s))) p q fs)"

definition last_error :: "shm_session \<Rightarrow> rpc_error option" where
  "last_error s = map_option sc_last_send_error (ss_conn s)"

lemma send_frame_ok:
  assumes "session_ok n q fs s" "length body + 8 \<le> req_capacity s" "length body + 8 < 2 ^ 32" "in_time wait_ms start ts"
    and "q + 2 * n < 2 ^ 64"
  shows "\<exists>s' q' ok. send_frame s body t wait_ms start (resting (req_channel (ctrl (ss_lc s))) ts) = (s', SendDone ok)
     \<and> session_ok n q' (if ok then fs @ [(of_nat (msg_type_code t), body)] else fs) s' \<and> q' \<le> q + 2 * n
     \<and> (\<not> ok \<longrightarrow> last_error s' = Some rpc_error.BACKOFF)"
proof -
  let ?ch = "req_channel (ctrl (ss_lc s))" and ?mt = "of_nat (msg_type_code t) :: u32"
  obtain p where rep: "ring_rep ?ch p q fs" and n: "unat (data_size ?ch) = n" and cap: "has_ctrl (ss_chan s)"
    using assms(1) by (auto simp: session_ok_def)
  have fl: "flen body \<le> unat (data_size ?ch)" "flen body < 2 ^ 32"
    using assms(2,3) cap by (simp_all add: flen_def req_capacity_def)
  have idx: "idx_ok (unat (data_size ?ch)) (q + 2 * unat (data_size ?ch))" using assms(5) n by (simp add: idx_ok_def)
  let ?dl = "start + (if wait_ms > 0 then wait_ms else 0)"
  have time: "ts \<noteq> []" "wait_ms \<le> 0 \<or> (\<exists>t \<in> set ts. ?dl \<le> t)"
    using assms(4) by (auto simp: in_time_def)
  have "\<not> frame_too_large ?ch body"
    using fl unat_frame_len(2) [OF fl(2)] by (simp add: frame_too_large_def flen_def word_less_nat_alt)
  then have w: "write_request (ss_lc s) body ?mt wait_ms start obs = write_loop ?ch body ?mt wait_ms ?dl obs" for obs
    by (simp add: write_request_def write_to_def frame_too_large_def)
  have r: "read_idx ?ch = of_nat p" using rep by (simp add: ring_rep_alt)
  obtain ch' q' ok where out: "write_loop ?ch body ?mt wait_ms ?dl (map (\<lambda>t. (of_nat p, t)) ts) = Returned ch' ok"
      "ring_rep ch' p q' (if ok then fs @ [(?mt, body)] else fs)" "data_size ch' = data_size ?ch" "q' \<le> q + 2 * n"
    using write_loop_resting [OF rep fl idx refl time, of ?mt] n by blast
  define s1 where "s1 = s\<lparr>ss_lc := upd_req (\<lambda>_. ch') (ss_lc s)\<rparr>"
  define s' where "s' = (if ok then s1\<lparr>ss_lc := notify_req (ss_lc s1)\<rparr> else write_failed s1)"
  have q': "q' < 2 ^ 64" using out(4) assms(5) by linarith
  have "session_ok n q' (if ok then fs @ [(?mt, body)] else fs) s1"
    using out(2,3) q' assms(1) unfolding session_ok_def s1_def by auto
  then have "session_ok n q' (if ok then fs @ [(?mt, body)] else fs) s'" "\<not> ok \<longrightarrow> last_error s' = Some rpc_error.BACKOFF"
    by (auto simp: s'_def session_ok_def write_failed_def send_error_def setLastSendError_def notify_req_def last_error_def)
  moreover have "send_frame s body t wait_ms start (resting ?ch ts) = (s', SendDone ok)"
    using out(1) r by (simp add: send_frame_def w resting_def s'_def s1_def Let_def)
  ultimately show ?thesis using out(4) by blast
qed

text \<open>A client that sends while a server drains from time to time: accepted and delivered messages.\<close>

datatype 'j shm_op = Send "'j base_message" int "int list" | Drain

fun shm_run :: "'j libs \<Rightarrow> int \<Rightarrow> shm_session \<Rightarrow> 'j shm_op list \<Rightarrow> (shm_session \<times> 'j base_message list \<times> 'j base_message list) option" where
  "shm_run Q wait_ms s [] = Some (s, [], [])"
| "shm_run Q wait_ms s (Send m start ts # ops) =
     (case shm_send Q s m wait_ms start (resting (req_channel (ctrl (ss_lc s))) ts) of
        (s1, SendDone ok) \<Rightarrow> map_option (\<lambda>(s2, sent, got). (s2, if ok then m # sent else sent, got)) (shm_run Q wait_ms s1 ops)
      | _ \<Rightarrow> None)"
| "shm_run Q wait_ms s (Drain # ops) = do {
     (lc, ms) \<leftarrow> drain_requests Q (ss_lc s);
     (s2, sent, got) \<leftarrow> shm_run Q wait_ms (s\<lparr>ss_lc := lc\<rparr>) ops;
     Some (s2, sent, ms @ got) }"

fun op_ok :: "'j libs \<Rightarrow> int \<Rightarrow> 'j shm_op \<Rightarrow> bool" where
  "op_ok Q wait_ms (Send m start ts) \<longleftrightarrow> deliverable Q m \<and> in_time wait_ms start ts"
| "op_ok Q wait_ms Drain \<longleftrightarrow> True"

lemma shm_send_ok:
  assumes "session_ok n q fs s" "n < 2 ^ 32" "q + 2 * n < 2 ^ 64" "deliverable Q m" "in_time wait_ms start ts"
  shows "\<exists>s' q' ok. shm_send Q s m wait_ms start (resting (req_channel (ctrl (ss_lc s))) ts) = (s', SendDone ok)
     \<and> session_ok n q' (if ok then fs @ [frame_of Q m] else fs) s' \<and> q' \<le> q + 2 * n
     \<and> (\<not> ok \<longrightarrow> last_error s' = Some (if n < length (body_of Q m) + 8 then SERVICE_ERROR else rpc_error.BACKOFF))"
proof -
  obtain m1 where enc: "encode Q m = Some (m1, body_of Q m)" using unpacks(1) [OF assms(4)] by blast
  have cap: "req_capacity s = n" "is_open (ss_chan s)" using assms(1) by (simp_all add: session_ok_def req_capacity_def)
  show ?thesis
  proof (cases "n < length (body_of Q m) + 8")
    case True
    then have "shm_send Q s m wait_ms start (resting (req_channel (ctrl (ss_lc s))) ts) = (send_error SERVICE_ERROR s, SendDone False)"
      by (simp add: shm_send_def enc cap)
    moreover have "session_ok n q fs (send_error SERVICE_ERROR s)" "last_error (send_error SERVICE_ERROR s) = Some SERVICE_ERROR"
      using assms(1) by (auto simp: session_ok_def send_error_def setLastSendError_def last_error_def)
    ultimately show ?thesis using True by (intro exI [of _ "send_error SERVICE_ERROR s"] exI [of _ q] exI [of _ False]) simp
  next
    case False
    then have "shm_send Q s m wait_ms start obs = send_frame s (body_of Q m) (m_type m) wait_ms start obs" for obs
      by (simp add: shm_send_def enc cap)
    note eq = this
    have len: "length (body_of Q m) + 8 \<le> req_capacity s" "length (body_of Q m) + 8 < 2 ^ 32" using False assms(2) cap by auto
    show ?thesis
      using send_frame_ok [OF assms(1) len assms(5,3), of "m_type m"] False
      unfolding eq frame_of_def by (simp only: if_False)
  qed
qed

lemma drain_pending:
  assumes "ring_rep (req_channel (ctrl lc)) p q (map (frame_of Q) pend)" "q < 2 ^ 64" "req_pin lc = 0" "\<forall>m \<in> set pend. deliverable Q m"
  shows "\<exists>lc' ms. drain_requests Q lc = Some (lc', ms) \<and> map (shm_arrived Q) pend = map Some ms \<and> req_contents q lc lc' []"
proof -
  have "lc = upd_req (\<lambda>_. req_channel (ctrl lc)) lc" by (simp add: upd_req_def)
  with assms(1-3) have c: "req_contents q lc lc (map (frame_of Q) pend)" unfolding req_contents_def by blast
  define ms where "ms = map (\<lambda>m. the (shm_arrived Q m)) pend"
  have ms: "map (shm_arrived Q) pend = map Some ms" using assms(4) by (auto simp: ms_def dest!: unpacks(3))
  have "those (map (unpack Q) (map (frame_of Q) pend)) = Some (map (shm_arrived Q) pend)"
    using assms(4) by (induction pend) (auto simp: unpacks(2))
  then obtain lc' where "drain read_request (unpack Q) lc = Some (lc', List.map_filter id (map (shm_arrived Q) pend))" "req_contents q lc lc' []"
    using req_source.drain_all [OF c] by blast
  moreover have "List.map_filter id (map Some ms) = ms" by (induction ms) (simp_all add: map_filter_simps)
  ultimately show ?thesis using ms by (auto simp: drain_requests_def)
qed

lemma drain_session:
  assumes "session_ok n q (map (frame_of Q) pend) s" "\<forall>m \<in> set pend. deliverable Q m"
  shows "\<exists>lc ms. drain_requests Q (ss_lc s) = Some (lc, ms) \<and> map (shm_arrived Q) pend = map Some ms
     \<and> session_ok n q [] (s\<lparr>ss_lc := lc\<rparr>)"
proof -
  obtain p where "ring_rep (req_channel (ctrl (ss_lc s))) p q (map (frame_of Q) pend)" "q < 2 ^ 64" "req_pin (ss_lc s) = 0"
    using assms(1) by (auto simp: session_ok_def)
  from drain_pending [OF this assms(2)]
  obtain lc ms where "drain_requests Q (ss_lc s) = Some (lc, ms)" "map (shm_arrived Q) pend = map Some ms" "req_contents q (ss_lc s) lc []"
    by blast
  then show ?thesis using assms(1) by (auto simp: session_ok_def req_contents_def)
qed

lemma shm_run_delivers:
  assumes "session_ok n q (map (frame_of Q) pend) s" "n < 2 ^ 32" "q + 2 * n * length ops < 2 ^ 64"
    and "\<forall>m \<in> set pend. deliverable Q m" "\<forall>op \<in> set ops. op_ok Q wait_ms op"
  shows "\<exists>s' sent got rest. shm_run Q wait_ms s ops = Some (s', sent, got)
     \<and> map (shm_arrived Q) (pend @ sent) = map Some got @ map (shm_arrived Q) rest
     \<and> (ops \<noteq> [] \<and> last ops = Drain \<longrightarrow> rest = [])"
  using assms
proof (induction ops arbitrary: q pend s)
  case Nil
  then show ?case by (auto intro: exI [of _ pend])
next
  case (Cons op ops)
  have big: "q + 2 * n + 2 * n * length ops < 2 ^ 64" using Cons.prems(3) by (simp add: algebra_simps)
  show ?case
  proof (cases op)
    case (Send m start ts)
    then have m: "deliverable Q m" "in_time wait_ms start ts" using Cons.prems(5) by auto
    obtain s1 q1 ok where s1: "shm_send Q s m wait_ms start (resting (req_channel (ctrl (ss_lc s))) ts) = (s1, SendDone ok)"
        "session_ok n q1 (if ok then map (frame_of Q) pend @ [frame_of Q m] else map (frame_of Q) pend) s1" "q1 \<le> q + 2 * n"
      using shm_send_ok [OF Cons.prems(1,2) _ m] big by auto
    define pend1 where "pend1 = (if ok then pend @ [m] else pend)"
    have "session_ok n q1 (map (frame_of Q) pend1) s1" using s1(2) by (simp add: pend1_def split: if_splits)
    moreover have "q1 + 2 * n * length ops < 2 ^ 64" "\<forall>m \<in> set pend1. deliverable Q m"
      using big s1(3) m(1) Cons.prems(4) by (auto simp: pend1_def)
    ultimately obtain s' sent got rest where r: "shm_run Q wait_ms s1 ops = Some (s', sent, got)"
        "map (shm_arrived Q) (pend1 @ sent) = map Some got @ map (shm_arrived Q) rest" "ops \<noteq> [] \<and> last ops = Drain \<longrightarrow> rest = []"
      using Cons.IH [of q1 pend1 s1] Cons.prems(2,5) by auto
    have "shm_run Q wait_ms s (op # ops) = Some (s', if ok then m # sent else sent, got)" using r(1) s1(1) Send by simp
    moreover have "pend1 @ sent = pend @ (if ok then m # sent else sent)" by (simp add: pend1_def)
    ultimately show ?thesis using r(2,3) Send by (cases "ops = []") auto
  next
    case Drain
    obtain lc ms where d: "drain_requests Q (ss_lc s) = Some (lc, ms)" "map (shm_arrived Q) pend = map Some ms" "session_ok n q [] (s\<lparr>ss_lc := lc\<rparr>)"
      using drain_session [OF Cons.prems(1,4)] by blast
    obtain s' sent got rest where r: "shm_run Q wait_ms (s\<lparr>ss_lc := lc\<rparr>) ops = Some (s', sent, got)"
        "map (shm_arrived Q) sent = map Some got @ map (shm_arrived Q) rest" "ops \<noteq> [] \<and> last ops = Drain \<longrightarrow> rest = []"
      using Cons.IH [of q "[]" "s\<lparr>ss_lc := lc\<rparr>"] d(3) Cons.prems(2,5) big by auto
    have "rest = []" if "ops = []"
      using r(1,2) that by simp
    then show ?thesis using r d(1,2) Drain by (cases "ops = []") auto
  qed
qed

text \<open>
  Property C11. Messages sent through shared memory arrive: whatever the order of sends and of
  drains by the server, no operation faults, and the callback of the server gets exactly
  the messages whose send returned true, in order and once each, with what is still in the
  ring coming at the next drain. A message that writes its id into its body arrives with it; the
  Protobuf messages of topics and services arrive without one.
\<close>

theorem shm_delivers:
  assumes "session_ok n 0 [] s" "n < 2 ^ 32" "2 * n * length ops < 2 ^ 64" "\<forall>op \<in> set ops. op_ok Q wait_ms op"
  shows "\<exists>s' sent got rest. shm_run Q wait_ms s ops = Some (s', sent, got)
     \<and> map (shm_arrived Q) sent = map Some got @ map (shm_arrived Q) rest
     \<and> (ops \<noteq> [] \<and> last ops = Drain \<longrightarrow> rest = [])"
  using shm_run_delivers [of n 0 Q "[]" s ops wait_ms] assms by simp

definition demo_session :: "nat \<Rightarrow> shm_session" where
  "demo_session n = \<lparr>ss_lc = \<lparr>ctrl = fresh_control 1 n n, req_pin = 0, resp_pin = 0, req_notified = 0, resp_notified = 0\<rparr>,
     ss_chan = new_channel\<lparr>addr := MappedAddr, has_ctrl := True\<rparr>, ss_conn = Some (new_shm_connection ''shm_client_a'')\<rparr>"

lemma demo_session_ok: "0 < n \<Longrightarrow> n < 2 ^ 32 \<Longrightarrow> session_ok n 0 [] (demo_session n)"
  using fresh_ring_rep [of n]
  by (auto simp: session_ok_def demo_session_def fresh_control_def is_open_def new_channel_def fresh_ring_def ring_init_def
      unat_of_nat take_bit_nat_eq_self)

lemma demo_deliverable: "deliverable (demo_libs (\<lambda>_. None)) demo_req"
  using demo_sendable [of "\<lambda>_. None"] by (simp add: deliverable_def sendable_def)

theorem shm_delivers_witness:
  "\<exists>s' sent got. shm_run (demo_libs (\<lambda>_. None)) 0 (demo_session 64) [Send demo_req 0 [0], Send demo_req 0 [0], Drain] = Some (s', sent, got)
     \<and> map (shm_arrived (demo_libs (\<lambda>_. None))) sent = map Some got"
  using shm_delivers [OF demo_session_ok [of 64], of "[Send demo_req 0 [0], Send demo_req 0 [0], Drain]" "demo_libs (\<lambda>_. None)" 0]
  by (auto simp: demo_deliverable in_time_def simp del: shm_run.simps)

subsection \<open>The zero-copy client and server\<close>

text \<open>The documented laws of the array functions of a Protobuf message: the size is the number of bytes written.\<close>

definition pb_exact :: "'e pb_codec \<Rightarrow> 'e \<Rightarrow> bool" where
  "pb_exact c e \<longleftrightarrow> (\<exists>b. pb_write c e = Some b \<and> pb_size c e = length b \<and> (\<forall>k. length b \<le> k \<longrightarrow> pb_write_array c e k = Some b))"

lemma zero_copy_write:
  assumes "ring_wf ch" "write_ptr ch (read_idx ch) = Some (off, k)" "length b \<le> k" "flen b \<le> unat (data_size ch)" "flen b < 2 ^ 32"
  shows "\<exists>ch1 ch2. fill_span ch (off, k) b = Some ch1 \<and> commit ch1 (length b) mt = Some ch2
     \<and> write_to ch b mt wait_ms start (resting ch (t # ts)) = Returned ch2 True"
proof -
  obtain ch1 ch2 where c: "fill_span ch (off, k) b = Some ch1" "commit ch1 (length b) mt = Some ch2"
      "write_attempt ch (read_idx ch) b mt = Written ch2"
    using zero_copy_commit [OF _ _ assms(2,3,5), of mt] assms(1) by (auto simp: ring_wf_def)
  have "\<not> frame_too_large ch b"
    using assms(4,5) unat_frame_len(2) [OF assms(5)] by (simp add: frame_too_large_def flen_def word_less_nat_alt)
  then show ?thesis using c by (simp add: write_to_def frame_too_large_def resting_def)
qed

definition proto_request_exact :: "'j libs \<Rightarrow> 'j base_message \<Rightarrow> bool" where
  "proto_request_exact Q m \<longleftrightarrow> m_type m = REQ_RPC_PROTO \<and> (case m_payload m of
      ProtoRpcRequest e \<Rightarrow> pb_exact (pb_rpc_req (lib_pb Q)) (ProtoRpcRequest_stamp e (m_rid m)) | _ \<Rightarrow> False)"

definition proto_response_exact :: "'j libs \<Rightarrow> 'j base_message \<Rightarrow> bool" where
  "proto_response_exact Q m \<longleftrightarrow> m_type m = RSP_RPC_PROTO \<and> (case m_payload m of
      ProtoRpcResponse e ms \<Rightarrow> pb_exact (pb_rpc_resp (lib_pb Q)) (ProtoRpcResponse_stamp e (m_rid m)) | _ \<Rightarrow> False)"

lemma proto_send_copies:
  assumes "proto_request_exact Q m" "ring_wf (req_channel (ctrl (ss_lc s)))"
    and "unat (data_size (req_channel (ctrl (ss_lc s)))) < 2 ^ 32" "ts \<noteq> []"
  shows "proto_send Q s m wait_ms start (resting (req_channel (ctrl (ss_lc s))) ts)
     = shm_send Q s m wait_ms start (resting (req_channel (ctrl (ss_lc s))) ts)"
proof -
  let ?ch = "req_channel (ctrl (ss_lc s))"
  obtain e where e: "m_payload m = ProtoRpcRequest e" "m_type m = REQ_RPC_PROTO"
      "pb_exact (pb_rpc_req (lib_pb Q)) (ProtoRpcRequest_stamp e (m_rid m))"
    using assms(1) by (auto simp: proto_request_exact_def split: payload.splits)
  obtain b where b: "pb_write (pb_rpc_req (lib_pb Q)) (ProtoRpcRequest_stamp e (m_rid m)) = Some b"
      "pb_size (pb_rpc_req (lib_pb Q)) (ProtoRpcRequest_stamp e (m_rid m)) = length b"
      "\<And>k. length b \<le> k \<Longrightarrow> pb_write_array (pb_rpc_req (lib_pb Q)) (ProtoRpcRequest_stamp e (m_rid m)) k = Some b"
    using e(3) unfolding pb_exact_def by blast
  have size: "snd (ProtoRpcRequest_byteSize (lib_pb Q) e (m_rid m)) = length b"
      "snd (ProtoRpcRequest_serialize (lib_pb Q) e (m_rid m)) = b"
    using b by (simp_all add: ProtoRpcRequest_byteSize_def ProtoRpcRequest_serialize_def pb_serialize_def Let_def)
  obtain t ts' where ts: "ts = t # ts'" using assms(4) by (cases ts) auto
  have "send_frame s b REQ_RPC_PROTO wait_ms start (resting ?ch ts)
      = (case fill_span ?ch (off, k) b of None \<Rightarrow> (s, SendFault) | Some ch \<Rightarrow>
           (case req_commit (upd_req (\<lambda>_. ch) (ss_lc s)) (length b) (of_nat (msg_type_code REQ_RPC_PROTO)) of
              None \<Rightarrow> (s, SendFault) | Some lc \<Rightarrow> (s\<lparr>ss_lc := lc\<rparr>, SendDone True)))"
    if room: "req_write_ptr (ss_lc s) = Some (off, k)" "length b \<le> k" "length b + 8 \<le> req_capacity s" for off k
  proof -
    have fl: "flen b \<le> unat (data_size ?ch)" "flen b < 2 ^ 32" using room(3) assms(3) by (auto simp: flen_def req_capacity_def split: if_splits)
    obtain ch1 ch2 where "fill_span ?ch (off, k) b = Some ch1" "commit ch1 (length b) (of_nat (msg_type_code REQ_RPC_PROTO)) = Some ch2"
        "write_to ?ch b (of_nat (msg_type_code REQ_RPC_PROTO)) wait_ms start (resting ?ch (t # ts')) = Returned ch2 True"
      using zero_copy_write [OF assms(2) _ room(2) fl] room(1) unfolding req_write_ptr_def by blast
    then show ?thesis
      by (simp add: send_frame_def write_request_def ts req_commit_def upd_req_def notify_req_def Let_def)
  qed
  then show ?thesis
    using e(1,2) size b(3) by (auto simp: proto_send_def shm_send_def encode_def ProtoRpcRequest_serialize_def
        ProtoRpcRequest_serializeToArray_def Let_def split: option.split)
qed

lemma proto_reply_copies:
  assumes "proto_response_exact Q m" "ring_wf (resp_channel (ctrl lc))" "unat (data_size (resp_channel (ctrl lc))) < 2 ^ 32" "ts \<noteq> []"
    and "length (body_of Q m) + 8 \<le> unat (data_size (resp_channel (ctrl lc)))"
  shows "map_option (\<lambda>(lc, ok). (ctrl lc, ok)) (proto_reply Q locked lc m start (resting (resp_channel (ctrl lc)) ts))
     = map_option (\<lambda>(lc, ok). (ctrl lc, ok)) (shm_reply Q locked lc m start (resting (resp_channel (ctrl lc)) ts))"
proof -
  let ?ch = "resp_channel (ctrl lc)"
  obtain e ms where e: "m_payload m = ProtoRpcResponse e ms" "m_type m = RSP_RPC_PROTO"
      "pb_exact (pb_rpc_resp (lib_pb Q)) (ProtoRpcResponse_stamp e (m_rid m))"
    using assms(1) by (auto simp: proto_response_exact_def split: payload.splits)
  obtain b where b: "pb_write (pb_rpc_resp (lib_pb Q)) (ProtoRpcResponse_stamp e (m_rid m)) = Some b"
      "pb_size (pb_rpc_resp (lib_pb Q)) (ProtoRpcResponse_stamp e (m_rid m)) = length b"
      "\<And>k. length b \<le> k \<Longrightarrow> pb_write_array (pb_rpc_resp (lib_pb Q)) (ProtoRpcResponse_stamp e (m_rid m)) k = Some b"
    using e(3) unfolding pb_exact_def by blast
  have size: "snd (ProtoRpcResponse_byteSize (lib_pb Q) e (m_rid m)) = length b"
      "snd (ProtoRpcResponse_serialize (lib_pb Q) e (m_rid m)) = b"
    using b by (simp_all add: ProtoRpcResponse_byteSize_def ProtoRpcResponse_serialize_def pb_serialize_def Let_def)
  have enc: "encode Q m = Some (m\<lparr>m_payload := ProtoRpcResponse (ProtoRpcResponse_stamp e (m_rid m)) ms\<rparr>, b)"
    using e(1) b(1) by (simp add: encode_def ProtoRpcResponse_serialize_def pb_serialize_def Let_def)
  then have fl: "flen b \<le> unat (data_size ?ch)" "flen b < 2 ^ 32" using assms(3,5) by (simp_all add: body_of_def flen_def)
  obtain t ts' where ts: "ts = t # ts'" using assms(4) by (cases ts) auto
  have "map_option (\<lambda>(lc, ok). (ctrl lc, ok)) (respond lc b RSP_RPC_PROTO start (resting ?ch ts))
      = map_option (\<lambda>(lc, ok). (ctrl lc, ok)) (do {
          ch \<leftarrow> fill_span ?ch (off, k) b;
          lc' \<leftarrow> resp_commit (upd_resp (\<lambda>_. ch) lc) (length b) (of_nat (msg_type_code RSP_RPC_PROTO));
          Some (notify_resp lc', True) })"
    if room: "resp_write_ptr lc = Some (off, k)" "length b \<le> k" for off k
  proof -
    obtain ch1 ch2 where "fill_span ?ch (off, k) b = Some ch1" "commit ch1 (length b) (of_nat (msg_type_code RSP_RPC_PROTO)) = Some ch2"
        "write_to ?ch b (of_nat (msg_type_code RSP_RPC_PROTO)) 0 start (resting ?ch (t # ts')) = Returned ch2 True"
      using zero_copy_write [OF assms(2) _ room(2) fl] room(1) unfolding resp_write_ptr_def by blast
    then show ?thesis
      by (simp add: respond_def write_response_def ts resp_commit_def upd_resp_def notify_resp_def Let_def)
  qed
  then show ?thesis
    using e(1,2) size b(3) enc by (auto simp: proto_reply_def shm_reply_def ProtoRpcResponse_serializeToArray_def Let_def split: option.split)
qed

text \<open>
  Property C25. The Protobuf transport, which serializes into the ring and parses out of it, is
  equivalent to the copying one: a send leaves the same session and returns the same result, an
  answer leaves the same shared memory (it may notify the client once more), and both
  loops deliver the same messages.
\<close>

theorem proto_transport_copies:
  assumes "proto_request_exact Q m" "ring_wf (req_channel (ctrl (ss_lc s)))" "unat (data_size (req_channel (ctrl (ss_lc s)))) < 2 ^ 32"
    and "proto_response_exact Q r" "ring_wf (resp_channel (ctrl lc))" "unat (data_size (resp_channel (ctrl lc))) < 2 ^ 32"
    and "length (body_of Q r) + 8 \<le> unat (data_size (resp_channel (ctrl lc)))" "ts \<noteq> []"
  shows "proto_send Q s m wait_ms start (resting (req_channel (ctrl (ss_lc s))) ts)
       = shm_send Q s m wait_ms start (resting (req_channel (ctrl (ss_lc s))) ts)
     \<and> map_option (\<lambda>(lc, ok). (ctrl lc, ok)) (proto_reply Q locked lc r start (resting (resp_channel (ctrl lc)) ts))
       = map_option (\<lambda>(lc, ok). (ctrl lc, ok)) (shm_reply Q locked lc r start (resting (resp_channel (ctrl lc)) ts))
     \<and> drain_requests_proto Q lc = drain_requests Q lc \<and> drain_responses_proto Q lc = drain_responses Q lc"
  using proto_send_copies [OF assms(1-3,8)] proto_reply_copies [OF assms(4-6,8,7)]
  by (simp add: drain_requests_proto_def drain_requests_def drain_responses_proto_def drain_responses_def
      req_views.drain_views_eq resp_views.drain_views_eq)

definition unit_codec :: "'e \<Rightarrow> 'e pb_codec" where
  "unit_codec e = \<lparr>pb_write = (\<lambda>_. Some ''x''), pb_parse = (\<lambda>_. Some e), pb_size = (\<lambda>_. 1), pb_write_array = (\<lambda>_ _. Some ''x'')\<rparr>"

definition unit_libs :: "json libs" where
  "unit_libs = (demo_libs (\<lambda>_. None))\<lparr>lib_pb := (lib_pb (demo_libs (\<lambda>_. None)))
     \<lparr>pb_rpc_req := unit_codec new_rpc_req, pb_rpc_resp := unit_codec new_rpc_resp\<rparr>\<rparr>"

definition demo_resp :: "json base_message" where
  "demo_resp = \<lparr>m_type = RSP_RPC_PROTO, m_rid = ''r'', m_payload = ProtoRpcResponse new_rpc_resp 0\<rparr>"

theorem proto_transport_copies_witness:
  "proto_send unit_libs (demo_session 64) demo_req 0 0 (resting (fresh_ring 64) [5]) = shm_send unit_libs (demo_session 64) demo_req 0 0 (resting (fresh_ring 64) [5])
     \<and> drain_requests_proto unit_libs (ss_lc (demo_session 64)) = drain_requests unit_libs (ss_lc (demo_session 64))"
proof -
  have "proto_request_exact unit_libs demo_req" "proto_response_exact unit_libs demo_resp" "length (body_of unit_libs demo_resp) = 1"
    by (auto simp: proto_request_exact_def proto_response_exact_def demo_req_def demo_resp_def unit_libs_def unit_codec_def pb_exact_def
        body_of_def encode_def ProtoRpcResponse_serialize_def pb_serialize_def Let_def)
  moreover have "ring_wf (fresh_ring 64)" "unat (data_size (fresh_ring 64)) = 64"
    using fresh_ring_rep [of 64] by (auto simp: ring_rep_wf fresh_ring_def ring_init_def)
  moreover have "req_channel (ctrl (ss_lc (demo_session 64))) = fresh_ring 64" "resp_channel (ctrl (ss_lc (demo_session 64))) = fresh_ring 64"
    by (simp_all add: demo_session_def fresh_control_def)
  ultimately show ?thesis
    using proto_transport_copies [of unit_libs demo_req "demo_session 64" demo_resp "ss_lc (demo_session 64)" "[5]"] by simp
qed

subsection \<open>FlatBuffers\<close>

text \<open>The documented law of the FlatBuffers tables: a finished buffer is not empty, verifies and reads back.\<close>

definition flat_reads_back :: "fb_lib \<Rightarrow> fb_request \<Rightarrow> bool" where
  "flat_reads_back F r \<longleftrightarrow> fb_write_request F r \<noteq> [] \<and> fb_read_request F (fb_write_request F r) = Some r"

lemma flat_reads:
  assumes "json_api L" "flat_request L rid d = Some r" "flat_reads_back F r" "RpcRequest_params L d = Some p" "json_reads_back L p"
  shows "\<exists>d'. unpack_flat_request F L (of_nat (msg_type_code REQ_RPC_FLAT), fb_write_request F r)
       = Some (Some \<lparr>m_type = REQ_RPC, m_rid = rid, m_payload = RpcRequest d'\<rparr>)
     \<and> flat_request L rid d' = Some r \<and> RpcRequest_params L d' = Some p"
proof -
  obtain m t sp where r: "r = \<lparr>fq_id = rid, fq_method = m, fq_trace_id = t, fq_span_id = sp, fq_params = json_text L p\<rparr>"
    using assms(2,4) by (auto simp: flat_request_def bind_eq_Some_conv)
  obtain js where js: "j_write L p = Some js" "js \<noteq> []" "j_parse L js = Some p"
    using assms(5) by (auto simp: json_reads_back_def)
  note put = json_api.put_object [OF assms(1)]
  obtain d1 where d1: "j_put L (j_null L) KEY_METHOD (j_str L m) = Some d1" "j_isObject L d1" using put by blast
  obtain d2 where d2: "j_put L d1 KEY_TRACE_ID (j_str L t) = Some d2" "j_isObject L d2" using put d1(2) by blast
  obtain d3 where d3: "j_put L d2 KEY_SPAN_ID (j_str L sp) = Some d3" "j_isObject L d3" using put d2(2) by blast
  obtain d4 where d4: "j_put L d3 KEY_PARAMS p = Some d4" using put d3(2) by blast
  have "unpack_flat_request F L (of_nat (msg_type_code REQ_RPC_FLAT), fb_write_request F r)
      = Some (Some \<lparr>m_type = REQ_RPC, m_rid = rid, m_payload = RpcRequest d4\<rparr>)"
    using assms(3) d1(1) d2(1) d3(1) d4 js
    by (simp add: unpack_flat_request_def flat_reads_back_def r json_text_def JsonRequest_setMethod_def JsonRequest_setTraceId_def
        JsonRequest_setSpanId_def RpcRequest_setParams_def)
  moreover have "JsonRequest_method L d4 = Some m" "JsonRequest_trace_id L d4 = Some t" "JsonRequest_span_id L d4 = Some sp"
      "RpcRequest_params L d4 = Some p"
    using d1(1) d2(1) d3(1) d4
    by (simp_all add: JsonRequest_method_def get_str_def JsonRequest_trace_id_def JsonRequest_span_id_def get_str_or_def RpcRequest_params_def
        json_api.index_put [OF assms(1)] json_api.get_put [OF assms(1)] json_api.asString [OF assms(1)] keys)
  ultimately show ?thesis by (auto simp: flat_request_def r)
qed

text \<open>
  Remark. A JSON request survives its way as a FlatBuffer: what the server unpacks from the
  frame that the FlatBuffers client writes is a request with the same id, method, trace, span and
  parameters, and the frame is what the loop of the server hands to the message callback.
\<close>

theorem flat_request_roundtrip:
  assumes "json_api L" "m_payload m = RpcRequest d" "flat_request L (m_rid m) d = Some r" "flat_reads_back F r"
    and "RpcRequest_params L d = Some p" "json_reads_back L p"
    and "session_ok n q [] s" "n < 2 ^ 32" "q + 2 * n < 2 ^ 64" "in_time wait_ms start ts"
  shows "\<exists>s' ok. zc_send F L s m wait_ms start (resting (req_channel (ctrl (ss_lc s))) ts) = (s', SendDone ok)
     \<and> (ok \<longrightarrow> (\<exists>d' lc. drain_requests_zc F L (ss_lc s') = Some (lc, [\<lparr>m_type = REQ_RPC, m_rid = m_rid m, m_payload = RpcRequest d'\<rparr>])
          \<and> flat_request L (m_rid m) d' = Some r \<and> RpcRequest_params L d' = Some p))"
proof -
  let ?b = "fb_write_request F r"
  have open_s: "is_open (ss_chan s)" "req_capacity s = n" using assms(7) by (simp_all add: session_ok_def req_capacity_def)
  show ?thesis
  proof (cases "n < length ?b + 8")
    case True
    then show ?thesis using assms(2,3) open_s by (auto simp: zc_send_def Let_def)
  next
    case False
    then have eq: "zc_send F L s m wait_ms start obs = send_frame s ?b REQ_RPC_FLAT wait_ms start obs" for obs
      using assms(2,3) open_s by (simp add: zc_send_def Let_def)
    have len: "length ?b + 8 \<le> req_capacity s" "length ?b + 8 < 2 ^ 32" using False open_s assms(8) by auto
    obtain s' q' ok where s': "send_frame s ?b REQ_RPC_FLAT wait_ms start (resting (req_channel (ctrl (ss_lc s))) ts) = (s', SendDone ok)"
        "session_ok n q' (if ok then [] @ [(of_nat (msg_type_code REQ_RPC_FLAT), ?b)] else []) s'"
      using send_frame_ok [OF assms(7) len assms(10,9), of REQ_RPC_FLAT] by blast
    have "\<exists>d' lc. drain_requests_zc F L (ss_lc s') = Some (lc, [\<lparr>m_type = REQ_RPC, m_rid = m_rid m, m_payload = RpcRequest d'\<rparr>])
          \<and> flat_request L (m_rid m) d' = Some r \<and> RpcRequest_params L d' = Some p" if ok
    proof -
      let ?f = "(of_nat (msg_type_code REQ_RPC_FLAT), ?b) :: frame"
      have "ss_lc s' = upd_req (\<lambda>_. req_channel (ctrl (ss_lc s'))) (ss_lc s')" by (simp add: upd_req_def)
      then have c: "req_contents q' (ss_lc s') (ss_lc s') [?f]" using s'(2) that unfolding req_contents_def session_ok_def by auto
      obtain d' where d': "unpack_flat_request F L ?f = Some (Some \<lparr>m_type = REQ_RPC, m_rid = m_rid m, m_payload = RpcRequest d'\<rparr>)"
          "flat_request L (m_rid m) d' = Some r" "RpcRequest_params L d' = Some p"
        using flat_reads [OF assms(1,3,4,5,6)] by blast
      have "those (map (unpack_flat_request F L) [?f]) = Some [Some \<lparr>m_type = REQ_RPC, m_rid = m_rid m, m_payload = RpcRequest d'\<rparr>]"
        using d'(1) by simp
      then show ?thesis
        using req_source.drain_all [OF c, of "unpack_flat_request F L"] d'(2,3)
        by (auto simp: drain_requests_zc_def req_views.drain_views_eq map_filter_simps)
    qed
    then show ?thesis using s'(1) eq by simp
  qed
qed

definition demo_flat :: fb_lib where
  "demo_flat = \<lparr>fb_write_request = (\<lambda>r. ''q''),
     fb_read_request = (\<lambda>_. Some \<lparr>fq_id = ''r'', fq_method = ''add'', fq_trace_id = [], fq_span_id = [], fq_params = ''{}''\<rparr>),
     fb_write_response = (\<lambda>r. ''s''), fb_read_response = (\<lambda>_. None)\<rparr>"

theorem flat_request_roundtrip_witness:
  "\<exists>s' ok. zc_send demo_flat (json_tree (\<lambda>_. Some ''{}'') (\<lambda>_. Some (JObject []))) (demo_session 64)
       \<lparr>m_type = REQ_RPC, m_rid = ''r'', m_payload = RpcRequest (JObject [(''method'', JString ''add''), (''parameters'', JObject [])])\<rparr>
       0 0 (resting (req_channel (ctrl (ss_lc (demo_session 64)))) [5]) = (s', SendDone ok)"
proof -
  let ?L = "json_tree (\<lambda>_. Some ''{}'') (\<lambda>_. Some (JObject []))"
  let ?d = "JObject [(''method'', JString ''add''), (''parameters'', JObject [])]"
  let ?m = "\<lparr>m_type = REQ_RPC, m_rid = ''r'', m_payload = RpcRequest ?d\<rparr>"
  let ?r = "\<lparr>fq_id = ''r'', fq_method = ''add'', fq_trace_id = [], fq_span_id = [], fq_params = ''{}''\<rparr>"
  have f: "flat_request ?L (m_rid ?m) ?d = Some ?r" "RpcRequest_params ?L ?d = Some (JObject [])"
    by (simp_all add: flat_request_def JsonRequest_method_def get_str_def JsonRequest_trace_id_def JsonRequest_span_id_def get_str_or_def
        RpcRequest_params_def j_index_def j_get_def json_tree_def json_text_def keys)
  have "flat_reads_back demo_flat ?r" "json_reads_back ?L (JObject [])"
    by (simp_all add: flat_reads_back_def demo_flat_def json_reads_back_def json_tree_def)
  then show ?thesis
    using flat_request_roundtrip [OF jt.json_api_axioms, where m = ?m and F = demo_flat, OF _ f(1) _ f(2), where n = 64 and q = 0
        and s = "demo_session 64" and wait_ms = 0 and start = 0 and ts = "[5]"] demo_session_ok [of 64]
    by (auto simp: in_time_def)
qed

subsection \<open>Why a send failed\<close>

lemma send_frame_error:
  assumes "send_frame s body t wait_ms start obs = (s', SendDone False)" "is_open (ss_chan s)"
  shows "ss_conn s' = map_option (\<lambda>c. setLastSendError c rpc_error.BACKOFF) (ss_conn s) \<and> ss_chan s' = ss_chan s"
  using assms by (auto simp: send_frame_def write_failed_def send_error_def Let_def split: write_outcome.splits if_splits)

definition local_failure :: "shm_connection \<Rightarrow> shm_session \<Rightarrow> shm_session \<Rightarrow> bool" where
  "local_failure c s s' \<longleftrightarrow> ss_chan s' = ss_chan s
     \<and> (ss_conn s' = Some (setLastSendError c SERVICE_ERROR) \<or> ss_conn s' = Some (setLastSendError c rpc_error.BACKOFF))"

lemma local_failures:
  assumes "ss_conn s = Some c" "is_open (ss_chan s)"
  shows "send_frame s body t wait_ms start obs = (s', SendDone False) \<Longrightarrow> local_failure c s s'"
    and "local_failure c s (send_error SERVICE_ERROR s)"
  using assms send_frame_error [of s body t wait_ms start obs s'] by (auto simp: local_failure_def send_error_def)

lemma client_failures:
  assumes "ss_conn s = Some c" "is_open (ss_chan s)"
  shows "shm_send Q s m wait_ms start obs = (s', SendDone False) \<Longrightarrow> local_failure c s s'"
    and "proto_send Q s m wait_ms start obs = (s', SendDone False) \<Longrightarrow> local_failure c s s'"
    and "zc_send F L s m wait_ms start obs = (s', SendDone False) \<Longrightarrow> local_failure c s s'"
  using local_failures [OF assms] assms(2)
  by (auto simp: shm_send_def proto_send_def zc_send_def Let_def split: option.splits if_splits prod.splits payload.splits)

text \<open>
  Property C37. A failed send says whose fault it was: for each of the three clients, a send that
  returns false leaves a reason that counts as a failure of the host exactly when the channel was
  closed, and then the connection is dead; on an open channel the reason is overload or an
  oversized message, which the breaker is not told about, and the connection stays usable.
\<close>

theorem send_failure_classified:
  assumes "ss_conn s = Some c"
    and "r = shm_send Q s m wait_ms start obs
      \<or> (\<exists>e. m_payload m = ProtoRpcRequest e) \<and> r = proto_send Q s m wait_ms start obs
      \<or> (\<exists>d. m_payload m = RpcRequest d) \<and> r = zc_send F L s m wait_ms start obs"
    and "r = (s', SendDone False)"
  shows "\<exists>e. last_error s' = Some e \<and> (isHostSendFailure e \<longleftrightarrow> \<not> is_open (ss_chan s))
     \<and> (shm_connected s' \<longleftrightarrow> shm_connected s) \<and> (\<not> is_open (ss_chan s) \<longrightarrow> ss_conn s' = Some (markDead (setLastSendError c CONN_CLOSED)))"
proof (cases "is_open (ss_chan s)")
  case False
  then have "s' = send_closed s"
    using assms(2,3) by (auto simp: shm_send_def proto_send_def zc_send_def)
  then show ?thesis
    using False assms(1)
    by (simp add: send_closed_def last_error_def markDead_def setLastSendError_def isHostSendFailure_def shm_connected_def)
next
  case True
  have "local_failure c s s'"
    using client_failures [OF assms(1) True] assms(2,3) by metis
  then show ?thesis
    using True assms(1) by (auto simp: local_failure_def last_error_def isHostSendFailure_def setLastSendError_def shm_connected_def)
qed

theorem send_failure_classified_witness:
  "last_error (fst (shm_send (demo_libs (\<lambda>_. None)) (demo_session 4) demo_req 0 0 [])) = Some SERVICE_ERROR
   \<and> (\<exists>e. last_error (fst (shm_send (demo_libs (\<lambda>_. None)) (demo_session 4) demo_req 0 0 [])) = Some e \<and> \<not> isHostSendFailure e)"
proof -
  let ?s = "demo_session 4"
  have open_s: "is_open (ss_chan ?s)" "ss_conn ?s = Some (new_shm_connection ''shm_client_a'')"
    by (simp_all add: demo_session_def is_open_def new_channel_def)
  have r: "shm_send (demo_libs (\<lambda>_. None)) ?s demo_req 0 0 [] = (send_error SERVICE_ERROR ?s, SendDone False)"
    by (simp add: shm_send_def open_s demo_defs Let_def req_capacity_def demo_session_def is_open_def new_channel_def fresh_control_def
        fresh_ring_def ring_init_def)
  show ?thesis
    using send_failure_classified [OF open_s(2), of "shm_send (demo_libs (\<lambda>_. None)) ?s demo_req 0 0 []" "demo_libs (\<lambda>_. None)" demo_req 0 0 "[]"]
      r open_s by (auto simp: last_error_def send_error_def setLastSendError_def)
qed

end
