(* ===== verification/Shm_Server.thy ===== *)
theory Shm_Server
  imports Shm_Transport_Correct "HOL-Library.Multiset"
begin

text \<open>
  The serving side of the shared-memory transport: the handshake over a Unix socket
  (\<open>handshake_server\<close> and \<open>handshake_client\<close> of \<open>general/shm_channel.cc\<close>), the accepting loop
  and the worker loops of \<open>server/shm_server.hpp\<close> (\<open>shm_server_zc.hpp\<close> has the same loops,
  \<open>shm_server_proto.hpp\<close> the same accepting loop), and the connecting side of the clients.

  A socket is the sequence of what its writer put into it; an event descriptor travels with
  one byte. A descriptor is the same number on both sides, because it names the same object.
  Results of system calls are arguments. Reading the header of a control message that is not
  there dereferences a null pointer: the result is \<^const>\<open>None\<close>.
\<close>

subsection \<open>Handshake\<close>

datatype sock_item = Ancillary int | Byte char

fun item_byte :: "sock_item \<Rightarrow> char" where
  "item_byte (Ancillary fd) = CHR ''x''"
| "item_byte (Byte c) = c"

definition send_fd :: "sock_item list \<Rightarrow> int \<Rightarrow> sock_item list" where
  "send_fd sk fd = sk @ [Ancillary fd]"

definition recv_fd :: "sock_item list \<Rightarrow> (int \<times> sock_item list) option" where
  "recv_fd sk = (case sk of Ancillary fd # rest \<Rightarrow> Some (fd, rest) | _ \<Rightarrow> None)"

definition sock_write :: "sock_item list \<Rightarrow> string \<Rightarrow> sock_item list" where
  "sock_write sk s = sk @ map Byte s"

definition sock_read :: "sock_item list \<Rightarrow> nat \<Rightarrow> string \<times> sock_item list" where
  "sock_read sk n = (map item_byte (take n sk), drop n sk)"

text \<open>What is written, and the two descriptors when the handshake succeeds.\<close>

definition handshake_server :: "int \<Rightarrow> bool \<Rightarrow> bool \<Rightarrow> string \<Rightarrow> sock_item list \<Rightarrow> sock_item list \<times> (int \<times> int) option option" where
  "handshake_server efd len_ok name_ok shm_name incoming =
     (if efd < 0 then ([], Some None)
      else let out1 = send_fd [] efd in
        if \<not> len_ok then (out1, Some None)
        else let out2 = sock_write out1 (be32 (of_nat (length shm_name))) in
          if \<not> name_ok then (out2, Some None)
          else (sock_write out2 shm_name, map_option (\<lambda>(fd, _). Some (efd, fd)) (recv_fd incoming)))"

definition handshake_client :: "int \<Rightarrow> sock_item list \<Rightarrow> sock_item list \<times> (int \<times> int \<times> string) option option" where
  "handshake_client efd incoming =
     (case recv_fd incoming of
        None \<Rightarrow> ([], None)
      | Some (req_fd, in1) \<Rightarrow>
          (let (len, in2) = sock_read in1 4 in
           if length len \<noteq> 4 then ([], Some None)
           else let n = unat (un_be32 len); (name, in3) = sock_read in2 n in
             if length name \<noteq> n then ([], Some None)
             else if efd < 0 then ([], Some None)
             else (send_fd [] efd, Some (Some (req_fd, efd, name)))))"

text \<open>
  \<open>connect\<close> of the clients (they differ in the prefix of the connection's name): \<open>hs\<close> is the result of
  the handshake, or \<^const>\<open>None\<close> when the socket cannot be made or connected.
\<close>

definition shm_connect :: "string \<Rightarrow> (int \<times> int \<times> string) option \<Rightarrow> (string \<Rightarrow> open_outcome) \<Rightarrow> shm_session \<Rightarrow> shm_session" where
  "shm_connect pfx hs opn s =
     (case hs of
        None \<Rightarrow> s
      | Some (req_fd, resp_fd, name) \<Rightarrow>
          (case opn name of
             OpenWaiting \<Rightarrow> s
           | OpenReturned c False \<Rightarrow> s\<lparr>ss_chan := c\<rparr>
           | OpenReturned c True \<Rightarrow> s\<lparr>ss_chan := c, ss_conn := Some (new_shm_connection (pfx @ name))\<rparr>))"

subsection \<open>Accepting clients\<close>

record client_entry =
  ce_channel :: shm_channel
  ce_live :: live_channel
  ce_conn :: shm_connection

record shm_worker =
  w_clients :: "(int \<times> client_entry) list"
  w_pipe :: "int list"
  w_polled :: "int list"

record shm_server =
  sv_prefix :: string
  sv_req_size :: nat
  sv_resp_size :: nat
  sv_max_clients :: int
  sv_next_id :: int
  sv_round_robin :: nat
  sv_workers :: "shm_worker list"
  sv_fs :: shm_fs

definition new_shm_server :: "string \<Rightarrow> nat \<Rightarrow> nat \<Rightarrow> int \<Rightarrow> nat \<Rightarrow> shm_fs \<Rightarrow> shm_server" where
  "new_shm_server pfx req_size resp_size max_clients worker_threads fs =
     \<lparr>sv_prefix = pfx, sv_req_size = req_size, sv_resp_size = resp_size, sv_max_clients = max_clients, sv_next_id = 0,
      sv_round_robin = 0, sv_workers = replicate worker_threads \<lparr>w_clients = [], w_pipe = [], w_polled = []\<rparr>, sv_fs = fs\<rparr>"

definition shm_name_of :: "string \<Rightarrow> int \<Rightarrow> string" where
  "shm_name_of pfx i = pfx @ ''_'' @ to_string i"

definition assign_worker :: "shm_server \<Rightarrow> int \<Rightarrow> client_entry \<Rightarrow> shm_server" where
  "assign_worker sv req_fd e =
     (let wid = sv_round_robin sv mod length (sv_workers sv); w = sv_workers sv ! wid in
      sv\<lparr>sv_round_robin := Suc (sv_round_robin sv),
         sv_workers := (sv_workers sv)[wid := w\<lparr>w_clients := AList.update req_fd e (w_clients w), w_pipe := w_pipe w @ [req_fd]\<rparr>]\<rparr>)"

text \<open>One accepted socket: \<open>hs\<close> is the result of the handshake on it.\<close>

definition accept_client :: "os_env \<Rightarrow> shm_server \<Rightarrow> (int \<times> int) option option \<Rightarrow> shm_server option" where
  "accept_client os sv hs =
     (if sv_next_id sv \<ge> sv_max_clients sv then Some sv
      else let i = sv_next_id sv; name = shm_name_of (sv_prefix sv) i; sv1 = sv\<lparr>sv_next_id := i + 1\<rparr> in
        case create os (sv_fs sv) new_channel name (sv_req_size sv) (sv_resp_size sv) of
          ((fs1, c), False) \<Rightarrow> Some (sv1\<lparr>sv_fs := fs1\<rparr>)
        | ((fs1, c), True) \<Rightarrow>
            (case hs of
               None \<Rightarrow> None
             | Some None \<Rightarrow> Some (sv1\<lparr>sv_fs := fst (destroy fs1 c)\<rparr>)
             | Some (Some (req_fd, resp_fd)) \<Rightarrow>
                 Some (assign_worker (sv1\<lparr>sv_fs := fs1\<rparr>) req_fd
                   \<lparr>ce_channel = c,
                    ce_live = \<lparr>ctrl = fresh_control (getpid os) (sv_req_size sv) (sv_resp_size sv), req_pin = 0, resp_pin = 0, req_notified = 0, resp_notified = 0\<rparr>,
                    ce_conn = new_shm_connection (''shm_server_'' @ to_string i)\<rparr>)))"

fun accept_all :: "os_env \<Rightarrow> shm_server \<Rightarrow> (int \<times> int) option option list \<Rightarrow> shm_server option" where
  "accept_all os sv [] = Some sv"
| "accept_all os sv (hs # hss) = (case accept_client os sv hs of None \<Rightarrow> None | Some sv' \<Rightarrow> accept_all os sv' hss)"

subsection \<open>Workers\<close>

datatype worker_event = WakePipe | ReqReady int

type_synonym 'm shm_delivery = "shm_connection \<times> 'm"

definition drain_entry ::
  "(live_channel \<Rightarrow> (live_channel \<times> 'm list) option) \<Rightarrow> client_entry \<Rightarrow> (client_entry \<times> 'm shm_delivery list) option" where
  "drain_entry dr e = map_option (\<lambda>(lc, ms). (e\<lparr>ce_live := lc\<rparr>, map (\<lambda>m. (ce_conn e, m)) ms)) (dr (ce_live e))"

fun drain_entries ::
  "(live_channel \<Rightarrow> (live_channel \<times> 'm list) option) \<Rightarrow> (int \<times> client_entry) list \<Rightarrow> ((int \<times> client_entry) list \<times> 'm shm_delivery list) option" where
  "drain_entries dr [] = Some ([], [])"
| "drain_entries dr ((fd, e) # es) = do {
     (e', ms) \<leftarrow> drain_entry dr e;
     (es', ms') \<leftarrow> drain_entries dr es;
     Some ((fd, e') # es', ms @ ms') }"

definition handle_event ::
  "(live_channel \<Rightarrow> (live_channel \<times> 'm list) option) \<Rightarrow> shm_worker \<Rightarrow> worker_event \<Rightarrow> (shm_worker \<times> 'm shm_delivery list) option" where
  "handle_event dr w ev =
     (case ev of
        WakePipe \<Rightarrow> Some (w\<lparr>w_polled := w_polled w @ w_pipe w, w_pipe := []\<rparr>, [])
      | ReqReady fd \<Rightarrow>
          (case map_of (w_clients w) fd of
             None \<Rightarrow> Some (w, [])
           | Some e \<Rightarrow> do {
               (e', ms) \<leftarrow> drain_entry dr (e\<lparr>ce_live := (ce_live e)\<lparr>req_notified := req_notified (ce_live e) - 1\<rparr>\<rparr>);
               Some (w\<lparr>w_clients := AList.update fd e' (w_clients w)\<rparr>, ms) }))"

fun handle_events ::
  "(live_channel \<Rightarrow> (live_channel \<times> 'm list) option) \<Rightarrow> shm_worker \<Rightarrow> worker_event list \<Rightarrow> (shm_worker \<times> 'm shm_delivery list) option" where
  "handle_events dr w [] = Some (w, [])"
| "handle_events dr w (ev # evs) = do {
     (w1, ms) \<leftarrow> handle_event dr w ev;
     (w2, ms') \<leftarrow> handle_events dr w1 evs;
     Some (w2, ms @ ms') }"

text \<open>One turn of \<open>workerLoop\<close>: no event within the time is a reason to look at every client.\<close>

definition worker_turn ::
  "(live_channel \<Rightarrow> (live_channel \<times> 'm list) option) \<Rightarrow> shm_worker \<Rightarrow> worker_event list \<Rightarrow> (shm_worker \<times> 'm shm_delivery list) option" where
  "worker_turn dr w evs =
     (if evs = [] then map_option (\<lambda>(cs, ms). (w\<lparr>w_clients := cs\<rparr>, ms)) (drain_entries dr (w_clients w))
      else handle_events dr w evs)"

subsection \<open>The handshake agrees\<close>

lemma read_name:
  assumes "length name < 2 ^ 32"
  shows "sock_read (map Byte (be32 (of_nat (length name))) @ map Byte name) 4 = (be32 (of_nat (length name)), map Byte name)"
    and "sock_read (map Byte name) (unat (of_nat (length name) :: u32)) = (name, [])"
    and "unat (of_nat (length name) :: u32) = length name"
proof -
  have m: "map item_byte (map Byte s) = s" for s by (induction s) simp_all
  show u: "unat (of_nat (length name) :: u32) = length name" using assms by (simp add: unat_of_nat take_bit_nat_eq_self)
  show "sock_read (map Byte (be32 (of_nat (length name))) @ map Byte name) 4 = (be32 (of_nat (length name)), map Byte name)"
    using m [of "be32 (of_nat (length name))"] by (simp add: sock_read_def)
  show "sock_read (map Byte name) (unat (of_nat (length name) :: u32)) = (name, [])" using m by (simp add: sock_read_def u)
qed

text \<open>
  Remark. The handshake agrees when both sides follow it: the client gets the
  name of its segment and the descriptor the server made, the server the descriptor the client
  made. A peer that closes the socket instead of sending its descriptor brings the server down: the
  missing control message is read through a null pointer, in the loop that accepts clients.
\<close>

theorem handshake_agrees:
  assumes "0 \<le> efd" "0 \<le> cfd" "length name < 2 ^ 32"
  shows "let srv = handshake_server efd True True name; out = fst (srv []); cl = handshake_client cfd out in
     snd cl = Some (Some (efd, cfd, name)) \<and> snd (srv (fst cl)) = Some (Some (efd, cfd))
     \<and> snd (srv []) = None
     \<and> (sv_next_id sv < sv_max_clients sv
        \<and> snd (create os (sv_fs sv) new_channel (shm_name_of (sv_prefix sv) (sv_next_id sv)) (sv_req_size sv) (sv_resp_size sv))
        \<longrightarrow> accept_client os sv (snd (srv [])) = None)"
  using assms read_name [OF assms(3)]
  by (auto simp: handshake_server_def handshake_client_def send_fd_def recv_fd_def sock_write_def accept_client_def Let_def
      split: prod.splits bool.splits)

theorem handshake_agrees_witness:
  "snd (handshake_client 9 (fst (handshake_server 7 True True ''lcz_shm_0'' []))) = Some (Some (7, 9, ''lcz_shm_0''))"
  using handshake_agrees [of 7 9 "''lcz_shm_0''"] by (simp add: Let_def)

subsection \<open>Accepted clients\<close>

definition entry_names :: "shm_worker \<Rightarrow> string list" where
  "entry_names w = map (\<lambda>(fd, e). chan_name (ce_channel e)) (w_clients w)"

definition all_names :: "shm_server \<Rightarrow> string list" where
  "all_names sv = concat (map entry_names (sv_workers sv))"

definition all_fds :: "shm_server \<Rightarrow> int set" where
  "all_fds sv = (\<Union>w \<in> set (sv_workers sv). fst ` set (w_clients w))"

definition balanced :: "shm_server \<Rightarrow> bool" where
  "balanced sv \<longleftrightarrow> (\<forall>k < length (sv_workers sv). length (w_clients (sv_workers sv ! k))
     = sv_round_robin sv div length (sv_workers sv) + (if k < sv_round_robin sv mod length (sv_workers sv) then 1 else 0))"

definition server_inv :: "string \<Rightarrow> int set \<Rightarrow> shm_server \<Rightarrow> bool" where
  "server_inv pfx fds sv \<longleftrightarrow> sv_workers sv \<noteq> [] \<and> sv_prefix sv = pfx \<and> 0 \<le> sv_next_id sv \<and> balanced sv \<and> all_fds sv \<subseteq> fds
     \<and> distinct (all_names sv) \<and> (\<forall>nm \<in> set (all_names sv). sv_fs sv nm \<noteq> None \<and> (\<exists>i. 0 \<le> i \<and> i < sv_next_id sv \<and> nm = shm_name_of pfx i))"

lemma shm_name_inj: "shm_name_of pfx i = shm_name_of pfx j \<Longrightarrow> i = j"
  by (simp add: shm_name_of_def to_string_inj)

lemma mset_concat_update:
  "k < length xss \<Longrightarrow> mset (concat (xss[k := xss ! k @ [x]])) = add_mset x (mset (concat xss))"
  by (subst (3) id_take_nth_drop [of k xss]) (auto simp: upd_conv_take_nth_drop)

lemma update_fresh: "k \<notin> fst ` set xs \<Longrightarrow> AList.update k v xs = xs @ [(k, v)]"
  by (induction xs) auto

lemma assign_worker_ok:
  assumes "sv_workers sv \<noteq> []" "balanced sv" "fd \<notin> all_fds sv"
  shows "mset (all_names (assign_worker sv fd e)) = add_mset (chan_name (ce_channel e)) (mset (all_names sv))"
    and "all_fds (assign_worker sv fd e) \<subseteq> insert fd (all_fds sv)" and "balanced (assign_worker sv fd e)"
    and "sv_workers (assign_worker sv fd e) \<noteq> []" "sv_fs (assign_worker sv fd e) = sv_fs sv" "sv_next_id (assign_worker sv fd e) = sv_next_id sv"
      "sv_prefix (assign_worker sv fd e) = sv_prefix sv" "sv_max_clients (assign_worker sv fd e) = sv_max_clients sv"
proof -
  define n k where "n = length (sv_workers sv)" and "k = sv_round_robin sv mod n"
  have n: "0 < n" "k < n" using assms(1) by (simp_all add: n_def k_def)
  define w where "w = sv_workers sv ! k"
  define w' where "w' = w\<lparr>w_clients := w_clients w @ [(fd, e)], w_pipe := w_pipe w @ [fd]\<rparr>"
  have "w \<in> set (sv_workers sv)" using n by (simp add: w_def n_def)
  then have "fd \<notin> fst ` set (w_clients w)" using assms(3) by (auto simp: all_fds_def)
  then have eq: "assign_worker sv fd e = sv\<lparr>sv_round_robin := Suc (sv_round_robin sv), sv_workers := (sv_workers sv)[k := w']\<rparr>"
    by (simp add: assign_worker_def Let_def update_fresh w'_def w_def k_def n_def)
  have "entry_names w' = map entry_names (sv_workers sv) ! k @ [chan_name (ce_channel e)]"
    using n by (simp add: entry_names_def w'_def w_def n_def)
  then show "mset (all_names (assign_worker sv fd e)) = add_mset (chan_name (ce_channel e)) (mset (all_names sv))"
    using mset_concat_update [of k "map entry_names (sv_workers sv)"] n by (simp add: all_names_def eq map_update n_def)
  show "all_fds (assign_worker sv fd e) \<subseteq> insert fd (all_fds sv)"
    using \<open>w \<in> set (sv_workers sv)\<close> set_update_subset_insert [of "sv_workers sv" k w'] by (fastforce simp: all_fds_def eq w'_def)
  have "Suc r div n + (if j < Suc r mod n then 1 else 0) = r div n + (if j < r mod n then 1 else 0) + (if j = r mod n then 1 else 0)"
    if "j < n" for j r :: nat
    using that n(1) by (auto simp: div_Suc mod_Suc)
  then show "balanced (assign_worker sv fd e)"
    using assms(2) n unfolding balanced_def eq by (auto simp: nth_list_update w'_def w_def n_def k_def)
qed (use assms(1) in \<open>auto simp: assign_worker_def Let_def\<close>)

lemma create_changes:
  assumes "create os fs c name m n = ((fs', c'), ok)"
  shows "x \<noteq> name \<Longrightarrow> fs' x = fs x" "ok \<Longrightarrow> fs' name \<noteq> None" "ok \<Longrightarrow> chan_name c' = name" "ok \<Longrightarrow> is_creator c'"
  using assms by (auto simp: create_def reclaim_stale_segment_def Let_def split: if_splits option.splits prod.splits)

definition new_fd :: "(int \<times> int) option option \<Rightarrow> int set" where
  "new_fd hs = (case hs of Some (Some (fd, _)) \<Rightarrow> {fd} | _ \<Rightarrow> {})"

lemma server_inv_next:
  assumes "server_inv pfx fds sv" "fds \<subseteq> fds'" "\<And>x. x \<noteq> shm_name_of pfx (sv_next_id sv) \<Longrightarrow> fs x = sv_fs sv x"
  shows "server_inv pfx fds' (sv\<lparr>sv_next_id := sv_next_id sv + 1, sv_fs := fs\<rparr>)"
    and "shm_name_of pfx (sv_next_id sv) \<notin> set (all_names sv)"
proof -
  show fresh: "shm_name_of pfx (sv_next_id sv) \<notin> set (all_names sv)"
    using assms(1) unfolding server_inv_def by (auto dest: shm_name_inj)
  have names: "fs nm \<noteq> None \<and> (\<exists>j. 0 \<le> j \<and> j < sv_next_id sv + 1 \<and> nm = shm_name_of pfx j)" if nm: "nm \<in> set (all_names sv)" for nm
  proof -
    obtain j where j: "0 \<le> j" "j < sv_next_id sv" "nm = shm_name_of pfx j" "sv_fs sv nm \<noteq> None"
      using assms(1) nm unfolding server_inv_def by blast
    moreover have "fs nm = sv_fs sv nm" by (rule assms(3)) (use nm fresh in auto)
    ultimately show ?thesis by (intro conjI exI [of _ j]) simp_all
  qed
  have "all_names (sv\<lparr>sv_next_id := sv_next_id sv + 1, sv_fs := fs\<rparr>) = all_names sv"
      "all_fds (sv\<lparr>sv_next_id := sv_next_id sv + 1, sv_fs := fs\<rparr>) = all_fds sv"
      "balanced (sv\<lparr>sv_next_id := sv_next_id sv + 1, sv_fs := fs\<rparr>) = balanced sv"
    by (simp_all add: all_names_def all_fds_def balanced_def)
  then show "server_inv pfx fds' (sv\<lparr>sv_next_id := sv_next_id sv + 1, sv_fs := fs\<rparr>)"
    using assms(1,2) names unfolding server_inv_def by auto
qed

lemma server_inv_assign:
  assumes "server_inv pfx fds sv" "fd \<notin> fds" "chan_name (ce_channel e) = name" "name \<notin> set (all_names sv)" "sv_fs sv name \<noteq> None"
    and "name = shm_name_of pfx i" "0 \<le> i" "i < sv_next_id sv"
  shows "server_inv pfx (insert fd fds) (assign_worker sv fd e)"
proof -
  have "sv_workers sv \<noteq> []" "balanced sv" "fd \<notin> all_fds sv" using assms(1,2) by (auto simp: server_inv_def)
  note aw = assign_worker_ok [OF this, of e, unfolded assms(3)]
  have "set (all_names (assign_worker sv fd e)) = insert name (set (all_names sv))"
    using arg_cong [OF aw(1), of set_mset] by simp
  moreover have "distinct (all_names (assign_worker sv fd e))"
  proof -
    have m: "mset (all_names (assign_worker sv fd e)) = mset (name # all_names sv)" using aw(1) by simp
    show ?thesis using mset_eq_imp_distinct_iff [OF m] assms(1,4) by (simp add: server_inv_def)
  qed
  moreover have "all_fds (assign_worker sv fd e) \<subseteq> insert fd fds" using aw(2) assms(1) by (auto simp: server_inv_def)
  ultimately show ?thesis using aw(3-8) assms(1,5-8) unfolding server_inv_def by auto
qed

lemma accept_client_inv:
  assumes "server_inv pfx fds sv" "accept_client os sv hs = Some sv'" "new_fd hs \<inter> fds = {}"
  shows "server_inv pfx (fds \<union> new_fd hs) sv' \<and> sv_max_clients sv' = sv_max_clients sv
     \<and> sv_next_id sv' = (if sv_next_id sv < sv_max_clients sv then sv_next_id sv + 1 else sv_next_id sv)"
proof (cases "sv_next_id sv < sv_max_clients sv")
  case False
  then show ?thesis using assms(1,2) by (auto simp: accept_client_def server_inv_def)
next
  case True
  define i name where "i = sv_next_id sv" and "name = shm_name_of pfx i"
  obtain fs1 c ok where cr: "create os (sv_fs sv) new_channel name (sv_req_size sv) (sv_resp_size sv) = ((fs1, c), ok)"
    by (metis surj_pair)
  note ch = create_changes [OF cr]
  have pfx: "sv_prefix sv = pfx" and i: "0 \<le> i" using assms(1) by (simp_all add: server_inv_def i_def)
  note next_ok = server_inv_next [OF assms(1), folded i_def name_def]
  note step = assms(2) [unfolded accept_client_def Let_def pfx, folded i_def, folded name_def]
  consider (no) "\<not> ok" | (failed) ok "hs = Some None" | (new) req_fd resp_fd where ok "hs = Some (Some (req_fd, resp_fd))"
    using step True cr by (cases ok; cases hs) (auto simp: i_def split: option.splits)
  then show ?thesis
  proof cases
    case no
    then have "sv' = sv\<lparr>sv_next_id := i + 1, sv_fs := fs1\<rparr>" using step True cr by (simp add: i_def)
    then show ?thesis using next_ok(1) [OF _ ch(1), of "fds \<union> new_fd hs"] True by (simp add: i_def name_def)
  next
    case failed
    define fs2 where "fs2 = fst (destroy fs1 c)"
    have "sv' = sv\<lparr>sv_next_id := i + 1, sv_fs := fs2\<rparr>" using step True cr failed by (simp add: i_def fs2_def)
    moreover have "fs2 x = sv_fs sv x" if "x \<noteq> name" for x
      using that ch(1) ch(3,4) [OF failed(1)] by (auto simp: fs2_def destroy_def Let_def split: option.split)
    ultimately show ?thesis using next_ok(1) [of "fds \<union> new_fd hs" fs2] True by (simp add: i_def name_def)
  next
    case new
    define sv2 where "sv2 = sv\<lparr>sv_next_id := i + 1, sv_fs := fs1\<rparr>"
    obtain e where sv': "sv' = assign_worker sv2 req_fd e" and nm: "chan_name (ce_channel e) = name"
      using step True cr new ch(3) [OF new(1)] by (auto simp: i_def sv2_def)
    have "server_inv pfx (insert req_fd fds) sv'"
      unfolding sv'
    proof (rule server_inv_assign [where name = name and i = i])
      show "server_inv pfx fds sv2" unfolding sv2_def by (rule next_ok(1) [OF order_refl ch(1)]) (simp add: name_def)
      show "name \<notin> set (all_names sv2)" using next_ok(2) [OF order_refl ch(1)] by (simp add: sv2_def all_names_def name_def)
    qed (use nm i ch(2) [OF new(1)] assms(3) new(2) in \<open>simp_all add: sv2_def name_def new_fd_def\<close>)
    then show ?thesis using True new(2) by (simp add: sv' sv2_def new_fd_def i_def assign_worker_def Let_def)
  qed
qed

fun fds_fresh :: "int set \<Rightarrow> (int \<times> int) option option list \<Rightarrow> bool" where
  "fds_fresh fds [] \<longleftrightarrow> True"
| "fds_fresh fds (hs # hss) \<longleftrightarrow> new_fd hs \<inter> fds = {} \<and> fds_fresh (fds \<union> new_fd hs) hss"

lemma accept_all_inv:
  assumes "server_inv pfx fds sv" "accept_all os sv hss = Some sv'" "fds_fresh fds hss" "sv_next_id sv \<le> sv_max_clients sv"
  shows "(\<exists>fds'. server_inv pfx fds' sv') \<and> sv_max_clients sv' = sv_max_clients sv
     \<and> sv_next_id sv' = min (sv_max_clients sv) (sv_next_id sv + int (length hss))"
  using assms
proof (induction hss arbitrary: sv fds)
  case (Cons hs hss)
  then obtain sv1 where sv1: "accept_client os sv hs = Some sv1" "accept_all os sv1 hss = Some sv'" by (auto split: option.splits)
  note inv = accept_client_inv [OF Cons.prems(1) sv1(1)]
  show ?case
    using Cons.IH [of "fds \<union> new_fd hs" sv1] inv sv1(2) Cons.prems(3,4) by (auto simp: min_def split: if_splits)
qed auto

text \<open>
  Property C38. The accepting loop spreads its clients evenly over the workers and gives each a segment
  of its own, which exists; but it counts the sockets it ever accepted, failed
  handshakes and clients long gone included, and once that count is the limit, no client
  is accepted any more.
\<close>

theorem accept_invariant:
  assumes "accept_all os (new_shm_server pfx req_size resp_size max_clients workers fs) hss = Some sv"
    and "0 < workers" "0 \<le> max_clients" "fds_fresh {} hss"
  shows "balanced sv \<and> distinct (all_names sv) \<and> (\<forall>nm \<in> set (all_names sv). sv_fs sv nm \<noteq> None)
     \<and> sv_next_id sv = min max_clients (int (length hss))
     \<and> (max_clients \<le> int (length hss) \<longrightarrow> (\<forall>hs. accept_client os sv hs = Some sv))"
proof -
  let ?sv0 = "new_shm_server pfx req_size resp_size max_clients workers fs"
  have "server_inv pfx {} ?sv0"
    using assms(2) by (auto simp: server_inv_def new_shm_server_def balanced_def all_fds_def all_names_def entry_names_def)
  from accept_all_inv [OF this assms(1,4)] assms(3)
  obtain fds' where inv: "server_inv pfx fds' sv" "sv_max_clients sv = max_clients" "sv_next_id sv = min max_clients (int (length hss))"
    by (auto simp: new_shm_server_def)
  then have "accept_client os sv hs = Some sv" if "max_clients \<le> int (length hss)" for hs
    using that by (simp add: accept_client_def)
  then show ?thesis using inv by (auto simp: server_inv_def)
qed

lemma accept_demo:
  "\<exists>sv. accept_all demo_os (new_shm_server ''s'' 8 8 2 2 Map.empty) [Some (Some (5, 6)), Some None] = Some sv"
  by (simp add: accept_client_def new_shm_server_def create_def demo_os_def Let_def assign_worker_def shm_name_of_def to_string_inj)

theorem accept_invariant_witness:
  "\<exists>sv. accept_all demo_os (new_shm_server ''s'' 8 8 2 2 Map.empty) [Some (Some (5, 6)), Some None] = Some sv
     \<and> balanced sv \<and> (\<forall>hs. accept_client demo_os sv hs = Some sv)"
proof -
  obtain sv where sv: "accept_all demo_os (new_shm_server ''s'' 8 8 2 2 Map.empty) [Some (Some (5, 6)), Some None] = Some sv"
    using accept_demo by blast
  show ?thesis using accept_invariant [OF sv] sv by (auto simp: new_fd_def simp del: accept_all.simps)
qed

subsection \<open>A lost notification delays, it does not lose\<close>

definition entry_holds :: "'j libs \<Rightarrow> client_entry \<Rightarrow> 'j base_message list \<Rightarrow> bool" where
  "entry_holds Q e pend \<longleftrightarrow> (\<exists>p q. ring_rep (req_channel (ctrl (ce_live e))) p q (map (frame_of Q) pend) \<and> q < 2 ^ 64)
     \<and> req_pin (ce_live e) = 0 \<and> (\<forall>m \<in> set pend. deliverable Q m)"

lemma drain_entry_ok:
  assumes "entry_holds Q e pend"
  shows "\<exists>e' ms. drain_entry (drain_requests Q) e = Some (e', ms) \<and> map (\<lambda>(c, m). (c, Some m)) ms = map (\<lambda>m. (ce_conn e, shm_arrived Q m)) pend
     \<and> entry_holds Q e' []"
proof -
  obtain p q where h: "ring_rep (req_channel (ctrl (ce_live e))) p q (map (frame_of Q) pend)" "q < 2 ^ 64" "req_pin (ce_live e) = 0"
      "\<forall>m \<in> set pend. deliverable Q m"
    using assms by (auto simp: entry_holds_def)
  obtain lc ms where lc: "drain_requests Q (ce_live e) = Some (lc, ms)" "map (shm_arrived Q) pend = map Some ms"
      "req_contents q (ce_live e) lc []"
    using drain_pending [OF h] by blast
  have "map (\<lambda>m. (ce_conn e, shm_arrived Q m)) pend = map (Pair (ce_conn e)) (map (shm_arrived Q) pend)" by simp
  then have "map (\<lambda>(c, m). (c, Some m)) (map (\<lambda>m. (ce_conn e, m)) ms) = map (\<lambda>m. (ce_conn e, shm_arrived Q m)) pend"
    unfolding lc(2) by simp
  moreover have "entry_holds Q (e\<lparr>ce_live := lc\<rparr>) []"
  proof -
    obtain p' ch where "lc = upd_req (\<lambda>_. ch) (ce_live e)" "ring_rep ch p' q []" using lc(3) by (auto simp: req_contents_def)
    then show ?thesis using h(2,3) unfolding entry_holds_def by (intro conjI exI [of _ p'] exI [of _ q]) simp_all
  qed
  ultimately show ?thesis using lc(1) by (simp add: drain_entry_def)
qed

lemma drain_entries_ok:
  assumes "list_all2 (\<lambda>(fd, e) pend. entry_holds Q e pend) es pends"
  shows "\<exists>es' ms. drain_entries (drain_requests Q) es = Some (es', ms)
     \<and> map (\<lambda>(c, m). (c, Some m)) ms = concat (map2 (\<lambda>(fd, e) pend. map (\<lambda>m. (ce_conn e, shm_arrived Q m)) pend) es pends)
     \<and> list_all (\<lambda>(fd, e). entry_holds Q e []) es'"
  using assms
proof (induction rule: list_all2_induct)
  case (Cons x es pend pends)
  obtain fd e where x: "x = (fd, e)" by fastforce
  obtain es' ms' where es': "drain_entries (drain_requests Q) es = Some (es', ms')"
      "map (\<lambda>(c, m). (c, Some m)) ms' = concat (map2 (\<lambda>(fd, e) pend. map (\<lambda>m. (ce_conn e, shm_arrived Q m)) pend) es pends)"
      "list_all (\<lambda>(fd, e). entry_holds Q e []) es'"
    using Cons.IH by blast
  have "entry_holds Q e pend" using Cons.hyps(1) by (simp add: x)
  then obtain e' ms where e': "drain_entry (drain_requests Q) e = Some (e', ms)"
      "map (\<lambda>(c, m). (c, Some m)) ms = map (\<lambda>m. (ce_conn e, shm_arrived Q m)) pend" "entry_holds Q e' []"
    using drain_entry_ok by blast
  show ?case using es' e' by (simp add: x)
qed simp

text \<open>
  Property C39. In the copying server (\<open>shm_server.hpp\<close>; the zero-copy server has the same loop,
  but the Protobuf server has none on a timeout and is not meant here) a notification that is lost
  delays requests but does not lose them: a turn of a worker in which no event came drains the ring
  of every client of the worker, whatever the notification counters say, and hands each request to
  the callback once, in order, with the connection of its client.
\<close>

theorem timeout_turn_drains:
  assumes "list_all2 (\<lambda>(fd, e) pend. entry_holds Q e pend) (w_clients w) pends"
  shows "\<exists>w' ms. worker_turn (drain_requests Q) w [] = Some (w', ms)
     \<and> map (\<lambda>(c, m). (c, Some m)) ms = concat (map2 (\<lambda>(fd, e) pend. map (\<lambda>m. (ce_conn e, shm_arrived Q m)) pend) (w_clients w) pends)
     \<and> list_all (\<lambda>(fd, e). entry_holds Q e []) (w_clients w')"
  using drain_entries_ok [OF assms] by (auto simp: worker_turn_def)

text \<open>A client that sent a request, and one that did not: the turn delivers the request.\<close>

definition demo_entry :: "shm_session \<Rightarrow> client_entry" where
  "demo_entry s = \<lparr>ce_channel = new_channel, ce_live = ss_lc s, ce_conn = new_shm_connection ''shm_server_0''\<rparr>"

lemma demo_sent:
  "\<exists>s. shm_send (demo_libs (\<lambda>_. None)) (demo_session 64) demo_req 0 0 (resting (fresh_ring 64) [0]) = (s, SendDone True)
     \<and> entry_holds (demo_libs (\<lambda>_. None)) (demo_entry s) [demo_req]"
proof -
  let ?Q = "demo_libs (\<lambda>_. None)" and ?ch = "fresh_ring 64"
  have ch: "req_channel (ctrl (ss_lc (demo_session 64))) = ?ch" by (simp add: demo_session_def fresh_control_def)
  have rep: "ring_rep ?ch 0 0 []" by (rule fresh_ring_rep) simp_all
  have size: "unat (data_size ?ch) = 64" by (simp add: fresh_ring_def ring_init_def)
  have "\<exists>ch' q' ok. write_loop ?ch ''x'' t 0 0 (map (\<lambda>t. (0, t)) [0]) = Returned ch' ok
      \<and> ring_rep ch' 0 q' (if ok then [] @ [(t, ''x'')] else []) \<and> data_size ch' = data_size ?ch
      \<and> q' \<le> 0 + 2 * unat (data_size ?ch) \<and> (ok \<longleftrightarrow> write_fits (unat (data_size ?ch)) 0 0 (flen ''x''))" for t
    by (rule write_loop_resting [OF rep]) (simp_all add: size flen_def idx_ok_def)
  moreover have "write_fits (unat (data_size ?ch)) 0 0 (flen ''x'')" by (simp add: size write_fits_def flen_def frame_start_def)
  ultimately have w: "\<exists>ch'. write_loop ?ch ''x'' t 0 0 [(0, 0)] = Returned ch' True" for t
    by (simp del: write_loop.simps) (metis (full_types))
  obtain s q ok where s: "shm_send ?Q (demo_session 64) demo_req 0 0 (resting ?ch [0]) = (s, SendDone ok)"
      "session_ok 64 q (if ok then [] @ [frame_of ?Q demo_req] else []) s"
    using shm_send_ok [OF demo_session_ok [of 64], of ?Q demo_req 0 0 "[0]"] by (auto simp: demo_deliverable in_time_def ch)
  have ds: "data_size ?ch = 64" "read_idx ?ch = 0" by (simp_all add: fresh_ring_def ring_init_def)
  obtain ch' where w': "write_loop ?ch ''x'' 6 0 0 [(0, 0)] = Returned ch' True" using w by blast
  have "snd (shm_send ?Q (demo_session 64) demo_req 0 0 (resting ?ch [0])) = SendDone True"
    using w' by (simp add: shm_send_def demo_defs send_frame_def write_request_def write_to_def ch resting_def ds demo_session_def
        is_open_def req_capacity_def new_channel_def fresh_control_def frame_too_large_def frame_len_of_def Let_def del: write_loop.simps)
  then have "ok" by (simp add: s(1))
  then show ?thesis using s by (auto simp: entry_holds_def demo_entry_def session_ok_def demo_deliverable)
qed

theorem timeout_turn_drains_witness:
  "\<exists>s w' m. shm_send (demo_libs (\<lambda>_. None)) (demo_session 64) demo_req 0 0 (resting (fresh_ring 64) [0]) = (s, SendDone True)
     \<and> worker_turn (drain_requests (demo_libs (\<lambda>_. None)))
         \<lparr>w_clients = [(5, demo_entry s), (6, demo_entry (demo_session 64))], w_pipe = [], w_polled = [5, 6]\<rparr> []
       = Some (w', [(new_shm_connection ''shm_server_0'', m)])
     \<and> shm_arrived (demo_libs (\<lambda>_. None)) demo_req = Some m"
proof -
  let ?Q = "demo_libs (\<lambda>_. None)"
  obtain s where s: "shm_send ?Q (demo_session 64) demo_req 0 0 (resting (fresh_ring 64) [0]) = (s, SendDone True)"
      "entry_holds ?Q (demo_entry s) [demo_req]"
    using demo_sent by blast
  have "entry_holds ?Q (demo_entry (demo_session 64)) []"
    using fresh_ring_rep [of 64] by (auto simp: entry_holds_def demo_entry_def demo_session_def fresh_control_def intro!: exI [of _ 0])
  then show ?thesis
    using s timeout_turn_drains [of ?Q "\<lparr>w_clients = [(5, demo_entry s), (6, demo_entry (demo_session 64))], w_pipe = [], w_polled = [5, 6]\<rparr>"
      "[[demo_req], []]"]
    by (fastforce simp: demo_entry_def)
qed

end
