(* ===== verification/Topic_Manager.thy ===== *)
theory Topic_Manager
  imports Config "HOL-Library.Multiset"
begin

text \<open>
  Publish and subscribe: \<open>TopicManager\<close> of \<open>rpc/src/server/rpc_topic.hpp\<close> with its
  six forwarding strategies.

  Subscriber objects are shared between the connection table and the topics, so they live in
  a heap (a list) and a pointer is an index. The permutation a shuffle applies and the hash
  function are parameters. An access beyond the end of a vector makes the result
  \<^const>\<open>None\<close>. The abstract specification is the set of pairs of a topic and a
  subscribed connection.
\<close>

subsection \<open>State\<close>

type_synonym tconn = nat

record subscriber =
  s_conn :: tconn
  s_priority :: int
  s_tags :: "string list"
  s_topics :: "string list"

record topic =
  t_name :: string
  t_subs :: "nat list"
  t_rr_cursor :: nat

record topic_manager =
  tm_heap :: "subscriber list"
  tm_topics :: "(string \<times> topic) list"
  tm_subs :: "(tconn \<times> nat) list"
  tm_pri_cursor :: nat

definition new_topic_manager :: topic_manager where
  "new_topic_manager = \<lparr>tm_heap = [], tm_topics = [], tm_subs = [], tm_pri_cursor = 0\<rparr>"

text \<open>A request as its accessors read it; \<^const>\<open>None\<close> is a number outside the enumeration.\<close>

record topic_request =
  tr_id :: string
  tr_optype :: "topic_optype option"
  tr_key :: string
  tr_msg :: string
  tr_strategy :: "topic_forward_strategy option"
  tr_priority :: int
  tr_tags :: "string list"
  tr_fanout :: int
  tr_shard :: string
  tr_redundant :: int

datatype topic_out = Forward topic_request | TopicResp string resp_code

record topic_env =
  te_hash :: "string \<Rightarrow> u64"
  te_perm :: "nat list"

subsection \<open>Subscribers and topics\<close>

definition addTopic :: "subscriber \<Rightarrow> string \<Rightarrow> subscriber" where
  "addTopic s n = s\<lparr>s_topics := List.insert n (s_topics s)\<rparr>"

definition removeTopic :: "subscriber \<Rightarrow> string \<Rightarrow> subscriber" where
  "removeTopic s n = s\<lparr>s_topics := removeAll n (s_topics s)\<rparr>"

definition addSubscribe :: "topic \<Rightarrow> nat \<Rightarrow> topic" where
  "addSubscribe t i = t\<lparr>t_subs := List.insert i (t_subs t)\<rparr>"

definition delSubscribe :: "topic \<Rightarrow> nat \<Rightarrow> topic" where
  "delSubscribe t i = t\<lparr>t_subs := removeAll i (t_subs t)\<rparr>"

definition conn_of :: "topic_manager \<Rightarrow> nat \<Rightarrow> tconn" where
  "conn_of tm i = s_conn (tm_heap tm ! i)"

subsection \<open>Forwarding\<close>

text \<open>Each function returns the subscribers the message is sent to, in order.\<close>

definition broadcastSend :: "nat list \<Rightarrow> nat list" where
  "broadcastSend subs = subs"

definition roundRobinSend :: "topic \<Rightarrow> nat list \<Rightarrow> topic \<times> nat list" where
  "roundRobinSend t subs =
     (if subs = [] then (t, [])
      else if t_subs t = [] then (t, [])
      else
        let cur = t_rr_cursor t mod length (t_subs t) in
        (t\<lparr>t_rr_cursor := (cur + 1) mod length subs\<rparr>, [subs ! (cur mod length subs)]))"

definition fanoutSend :: "topic_env \<Rightarrow> int \<Rightarrow> nat list \<Rightarrow> nat list option" where
  "fanoutSend env limit subs =
     (if subs = [] then Some []
      else
        let first = (if limit \<le> 0 \<or> limit \<ge> int (length subs) then broadcastSend subs else []);
            shuffled = map (\<lambda>i. subs ! i) (te_perm env) in
        if nat limit \<le> length shuffled then Some (first @ take (nat limit) shuffled) else None)"

definition sourceHashSend :: "topic_env \<Rightarrow> string \<Rightarrow> nat list \<Rightarrow> nat list" where
  "sourceHashSend env key subs =
     (if subs = [] then []
      else if key = [] then []
      else [subs ! (unat (te_hash env key) mod length subs)])"

definition matchtags :: "topic_manager \<Rightarrow> string list \<Rightarrow> nat \<Rightarrow> bool" where
  "matchtags tm tags i \<longleftrightarrow> tags = [] \<or> list_all (\<lambda>t. t \<in> set (s_tags (tm_heap tm ! i))) tags"

definition INT_MIN :: int where "INT_MIN = - (2 ^ 31)"

fun priority_scan :: "topic_manager \<Rightarrow> string list \<Rightarrow> nat list \<Rightarrow> int \<Rightarrow> nat list \<Rightarrow> nat list" where
  "priority_scan tm tags [] best cands = cands"
| "priority_scan tm tags (i # is) best cands =
     (if \<not> matchtags tm tags i then priority_scan tm tags is best cands
      else if s_priority (tm_heap tm ! i) > best
           then priority_scan tm tags is (s_priority (tm_heap tm ! i)) [i]
      else if s_priority (tm_heap tm ! i) = best then priority_scan tm tags is best (cands @ [i])
      else priority_scan tm tags is best cands)"

definition prioritySend :: "topic_manager \<Rightarrow> string list \<Rightarrow> nat list \<Rightarrow> topic_manager \<times> nat list" where
  "prioritySend tm tags subs =
     (if subs = [] then (tm, [])
      else
        let cands = priority_scan tm tags subs INT_MIN [] in
        if cands = [] then (tm, broadcastSend subs)
        else (tm\<lparr>tm_pri_cursor := (tm_pri_cursor tm + 1) mod length cands\<rparr>,
              [cands ! (tm_pri_cursor tm mod length cands)]))"

definition redundantSend :: "topic_env \<Rightarrow> int \<Rightarrow> nat list \<Rightarrow> nat list" where
  "redundantSend env redundant_count subs =
     (if subs = [] then []
      else if redundant_count \<le> 1 then broadcastSend subs
      else take (nat (min redundant_count (int (length subs)))) (map (\<lambda>i. subs ! i) (te_perm env)))"

definition dispatchMessage ::
  "topic_env \<Rightarrow> topic_manager \<Rightarrow> topic \<Rightarrow> topic_request \<Rightarrow> (topic_manager \<times> topic \<times> nat list) option" where
  "dispatchMessage env tm t r =
     (let subs = t_subs t in
      case tr_strategy r of
        Some topic_forward_strategy.ROUND_ROBIN \<Rightarrow> (let (t', is) = roundRobinSend t subs in Some (tm, t', is))
      | Some FANOUT \<Rightarrow> map_option (\<lambda>is. (tm, t, is)) (fanoutSend env (tr_fanout r) subs)
      | Some topic_forward_strategy.SOURCE_HASH \<Rightarrow> Some (tm, t, sourceHashSend env (tr_shard r) subs)
      | Some PRIORITY \<Rightarrow> (let (tm', is) = prioritySend tm (tr_tags r) subs in Some (tm', t, is))
      | Some REDUNDANT \<Rightarrow> Some (tm, t, redundantSend env (tr_redundant r) subs)
      | _ \<Rightarrow> Some (tm, t, broadcastSend subs))"

subsection \<open>Operations\<close>

definition topicCreate :: "topic_manager \<Rightarrow> topic_request \<Rightarrow> topic_manager" where
  "topicCreate tm r =
     (if map_of (tm_topics tm) (tr_key r) \<noteq> None then tm
      else tm\<lparr>tm_topics := AList.update (tr_key r)
             \<lparr>t_name = tr_key r, t_subs = [], t_rr_cursor = 0\<rparr> (tm_topics tm)\<rparr>)"

definition modify_subs :: "(subscriber \<Rightarrow> subscriber) \<Rightarrow> nat list \<Rightarrow> subscriber list \<Rightarrow> subscriber list" where
  "modify_subs f is heap = fold (\<lambda>i h. h[i := f (h ! i)]) is heap"

definition topicRemove :: "topic_manager \<Rightarrow> topic_request \<Rightarrow> topic_manager" where
  "topicRemove tm r =
     (case map_of (tm_topics tm) (tr_key r) of
        None \<Rightarrow> tm
      | Some t \<Rightarrow>
          tm\<lparr>tm_topics := AList.delete (tr_key r) (tm_topics tm),
             tm_heap := modify_subs (\<lambda>s. removeTopic s (tr_key r)) (t_subs t) (tm_heap tm)\<rparr>)"

definition topicSubscribe :: "topic_manager \<Rightarrow> tconn \<Rightarrow> topic_request \<Rightarrow> topic_manager \<times> bool" where
  "topicSubscribe tm c r =
     (case map_of (tm_topics tm) (tr_key r) of
        None \<Rightarrow> (tm, False)
      | Some t \<Rightarrow>
          let (heap, i, subs) =
            (case map_of (tm_subs tm) c of
               None \<Rightarrow> (tm_heap tm @ [\<lparr>s_conn = c, s_priority = 0, s_tags = [], s_topics = []\<rparr>],
                        length (tm_heap tm), AList.update c (length (tm_heap tm)) (tm_subs tm))
             | Some i \<Rightarrow> (tm_heap tm, i, tm_subs tm));
              s = (heap ! i)\<lparr>s_priority := tr_priority r, s_tags := tr_tags r\<rparr> in
          (tm\<lparr>tm_heap := heap[i := addTopic s (tr_key r)], tm_subs := subs,
              tm_topics := AList.update (tr_key r) (addSubscribe t i) (tm_topics tm)\<rparr>, True))"

definition topicancelSubscribe :: "topic_manager \<Rightarrow> tconn \<Rightarrow> topic_request \<Rightarrow> topic_manager" where
  "topicancelSubscribe tm c r =
     (case map_of (tm_subs tm) c of
        None \<Rightarrow> tm
      | Some i \<Rightarrow>
          let tm1 = tm\<lparr>tm_heap := (tm_heap tm)[i := removeTopic (tm_heap tm ! i) (tr_key r)]\<rparr> in
          (case map_of (tm_topics tm) (tr_key r) of
             None \<Rightarrow> tm1
           | Some t \<Rightarrow> tm1\<lparr>tm_topics := AList.update (tr_key r) (delSubscribe t i) (tm_topics tm)\<rparr>))"

definition topicPublish ::
  "topic_env \<Rightarrow> topic_manager \<Rightarrow> topic_request
     \<Rightarrow> (topic_manager \<times> (tconn \<times> topic_out) list \<times> bool) option" where
  "topicPublish env tm r =
     (case map_of (tm_topics tm) (tr_key r) of
        None \<Rightarrow> Some (tm, [], False)
      | Some t \<Rightarrow>
          map_option (\<lambda>(tm', t', is).
              (tm'\<lparr>tm_topics := AList.update (tr_key r) t' (tm_topics tm')\<rparr>,
               map (\<lambda>i. (conn_of tm i, Forward r)) is, True))
            (dispatchMessage env tm t r))"

definition topicResponse :: "tconn \<Rightarrow> topic_request \<Rightarrow> (tconn \<times> topic_out) list" where
  "topicResponse c r = [(c, TopicResp (tr_id r) SUCCESS)]"

definition errorResponse :: "tconn \<Rightarrow> topic_request \<Rightarrow> resp_code \<Rightarrow> (tconn \<times> topic_out) list" where
  "errorResponse c r rc = [(c, TopicResp (tr_id r) rc)]"

definition ontopicRequest ::
  "topic_env \<Rightarrow> topic_manager \<Rightarrow> tconn \<Rightarrow> topic_request
     \<Rightarrow> (topic_manager \<times> (tconn \<times> topic_out) list) option" where
  "ontopicRequest env tm c r =
     (case tr_optype r of
        None \<Rightarrow> Some (tm, errorResponse c r INVALID_OPTYPE)
      | Some CREATE \<Rightarrow> Some (topicCreate tm r, topicResponse c r)
      | Some REMOVE \<Rightarrow> Some (topicRemove tm r, topicResponse c r)
      | Some SUBSCRIBE \<Rightarrow>
          (let (tm', ok) = topicSubscribe tm c r in
           Some (tm', if ok then topicResponse c r else errorResponse c r TOPIC_NOT_FOUND))
      | Some UNSUBSCRIBE \<Rightarrow> Some (topicancelSubscribe tm c r, topicResponse c r)
      | Some PUBLISH \<Rightarrow>
          map_option (\<lambda>(tm', out, ok).
              (tm', out @ (if ok then topicResponse c r else errorResponse c r TOPIC_NOT_FOUND)))
            (topicPublish env tm r))"

definition tm_onconnShoutdown :: "topic_manager \<Rightarrow> tconn \<Rightarrow> topic_manager" where
  "tm_onconnShoutdown tm c =
     (case map_of (tm_subs tm) c of
        None \<Rightarrow> tm
      | Some i \<Rightarrow>
          tm\<lparr>tm_subs := AList.delete c (tm_subs tm),
             tm_topics := fold (\<lambda>n ts. case map_of ts n of None \<Rightarrow> ts
                                | Some t \<Rightarrow> AList.update n (delSubscribe t i) ts)
               (s_topics (tm_heap tm ! i)) (tm_topics tm)\<rparr>)"

end
