(* ===== verification/Topic_Correct.thy ===== *)
theory Topic_Correct
  imports Topic_Manager
begin

text \<open>
  Correctness of the topic manager: the shared tables are consistent, the manager implements a
  set of subscriptions, and what each forwarding strategy delivers.
\<close>

subsection \<open>Abstraction and invariant\<close>

definition subscriptions :: "topic_manager \<Rightarrow> (string \<times> tconn) set" where
  "subscriptions tm = {(n, c). \<exists>t. map_of (tm_topics tm) n = Some t \<and> c \<in> conn_of tm ` set (t_subs t)}"

definition tm_inv :: "topic_manager \<Rightarrow> bool" where
  "tm_inv tm \<longleftrightarrow>
     (\<forall>n t. map_of (tm_topics tm) n = Some t \<longrightarrow> distinct (t_subs t)
        \<and> (\<forall>i \<in> set (t_subs t). i < length (tm_heap tm) \<and> n \<in> set (s_topics (tm_heap tm ! i))
             \<and> map_of (tm_subs tm) (s_conn (tm_heap tm ! i)) = Some i))
     \<and> (\<forall>c i. map_of (tm_subs tm) c = Some i \<longrightarrow> i < length (tm_heap tm) \<and> s_conn (tm_heap tm ! i) = c)"

lemma tm_inv_sub:
  assumes "tm_inv tm" "map_of (tm_topics tm) n = Some t" "i \<in> set (t_subs t)"
  shows "i < length (tm_heap tm)" "n \<in> set (s_topics (tm_heap tm ! i))"
    "map_of (tm_subs tm) (conn_of tm i) = Some i"
  using assms by (auto simp: tm_inv_def conn_of_def)

lemma tm_inv_conn:
  assumes "tm_inv tm" "map_of (tm_subs tm) c = Some i"
  shows "i < length (tm_heap tm)" "conn_of tm i = c"
  using assms by (auto simp: tm_inv_def conn_of_def)

lemma tm_inv_distinct: "tm_inv tm \<Longrightarrow> map_of (tm_topics tm) n = Some t \<Longrightarrow> distinct (t_subs t)"
  by (simp add: tm_inv_def)

lemma conn_inj:
  assumes "tm_inv tm" "map_of (tm_topics tm) n = Some t" "i \<in> set (t_subs t)" "j \<in> set (t_subs t)"
    and "conn_of tm i = conn_of tm j"
  shows "i = j"
  by (metis assms(5) option.inject tm_inv_sub(3) [OF assms(1,2,3)] tm_inv_sub(3) [OF assms(1,2,4)])

lemma sub_of_conn:
  assumes "tm_inv tm" "map_of (tm_topics tm) n = Some t" "j \<in> set (t_subs t)" "map_of (tm_subs tm) c = Some i"
  shows "j = i \<longleftrightarrow> conn_of tm j = c"
  by (metis assms(4) option.inject tm_inv_conn(2) [OF assms(1,4)] tm_inv_sub(3) [OF assms(1,2,3)])

subsection \<open>The specification\<close>

datatype topic_event = TReq tconn topic_request topic_env | TClose tconn

type_synonym topic_spec = "string set \<times> (string \<times> tconn) set"

fun spec_op :: "topic_spec \<Rightarrow> topic_event \<Rightarrow> topic_spec" where
  "spec_op (T, S) (TClose c) = (T, {x \<in> S. snd x \<noteq> c})"
| "spec_op (T, S) (TReq c r env) =
     (case tr_optype r of
        Some CREATE \<Rightarrow> (insert (tr_key r) T, S)
      | Some REMOVE \<Rightarrow> (T - {tr_key r}, {x \<in> S. fst x \<noteq> tr_key r})
      | Some SUBSCRIBE \<Rightarrow> (T, if tr_key r \<in> T then insert (tr_key r, c) S else S)
      | Some UNSUBSCRIBE \<Rightarrow> (T, S - {(tr_key r, c)})
      | _ \<Rightarrow> (T, S))"

definition tm_abs :: "topic_manager \<Rightarrow> topic_spec" where
  "tm_abs tm = (dom (map_of (tm_topics tm)), subscriptions tm)"

fun tm_step :: "topic_manager \<Rightarrow> topic_event \<Rightarrow> (topic_manager \<times> (tconn \<times> topic_out) list) option" where
  "tm_step tm (TReq c r env) = ontopicRequest env tm c r"
| "tm_step tm (TClose c) = Some (tm_onconnShoutdown tm c, [])"

fun tm_run :: "topic_manager \<Rightarrow> topic_event list \<Rightarrow> topic_manager option" where
  "tm_run tm [] = Some tm"
| "tm_run tm (e # es) = (case tm_step tm e of None \<Rightarrow> None | Some (tm', out) \<Rightarrow> tm_run tm' es)"

subsection \<open>Each operation\<close>

lemma create_ok:
  assumes "tm_inv tm"
  shows "tm_inv (topicCreate tm r) \<and> tm_abs (topicCreate tm r) = (insert (tr_key r) (fst (tm_abs tm)), snd (tm_abs tm))"
proof (cases "map_of (tm_topics tm) (tr_key r)")
  case None
  then have "tm_inv (topicCreate tm r)"
    using assms by (auto simp: topicCreate_def tm_inv_def update_conv')
  moreover have "subscriptions (topicCreate tm r) = subscriptions tm"
    using None by (auto simp: topicCreate_def subscriptions_def conn_of_def update_conv' split: if_splits)
  ultimately show ?thesis
    using None by (auto simp: tm_abs_def topicCreate_def update_conv')
qed (use assms in \<open>auto simp: topicCreate_def tm_abs_def\<close>)

lemma nth_update_self:
  "xs[a := f (xs ! a)] ! j = (if a = j \<and> j < length xs then f (xs ! j) else xs ! j)"
  by (cases "a < length xs"; cases "a = j") (auto simp: list_update_beyond)

lemma modify_subs_nth:
  assumes "\<And>s. f (f s) = f s"
  shows "length (modify_subs f is heap) = length heap"
    and "modify_subs f is heap ! j = (if j \<in> set is \<and> j < length heap then f (heap ! j) else heap ! j)"
  using assms unfolding modify_subs_def
  by (induction "is" arbitrary: heap) (auto simp: nth_update_self)

lemma removeTopic_idem [simp]: "removeTopic (removeTopic s n) n = removeTopic s n"
  by (simp add: removeTopic_def)

lemma removeTopic_simps [simp]:
  "s_conn (removeTopic s n) = s_conn s" "set (s_topics (removeTopic s n)) = set (s_topics s) - {n}"
  by (simp_all add: removeTopic_def)

lemma remove_ok:
  assumes "tm_inv tm"
  shows "tm_inv (topicRemove tm r) \<and> tm_abs (topicRemove tm r)
       = (fst (tm_abs tm) - {tr_key r}, {x \<in> snd (tm_abs tm). fst x \<noteq> tr_key r})"
proof (cases "map_of (tm_topics tm) (tr_key r)")
  case None
  then show ?thesis using assms by (auto simp: topicRemove_def tm_abs_def subscriptions_def)
next
  case (Some t)
  let ?h = "modify_subs (\<lambda>s. removeTopic s (tr_key r)) (t_subs t) (tm_heap tm)"
  have nth: "length ?h = length (tm_heap tm)" "s_conn (?h ! j) = s_conn (tm_heap tm ! j)"
    "n \<noteq> tr_key r \<Longrightarrow> n \<in> set (s_topics (?h ! j)) \<longleftrightarrow> n \<in> set (s_topics (tm_heap tm ! j))" for j n
    by (simp_all add: modify_subs_nth)
  have "tm_inv (topicRemove tm r)"
    using assms Some by (auto simp: topicRemove_def tm_inv_def nth delete_conv' split: if_splits)
  moreover have "subscriptions (topicRemove tm r) = {x \<in> subscriptions tm. fst x \<noteq> tr_key r}"
    using Some by (auto simp: topicRemove_def subscriptions_def conn_of_def nth delete_conv' split: if_splits)
  ultimately show ?thesis
    using Some by (auto simp: tm_abs_def topicRemove_def delete_conv')
qed

lemma addTopic_simps [simp]:
  "s_conn (addTopic s n) = s_conn s" "set (s_topics (addTopic s n)) = insert n (set (s_topics s))"
  by (simp_all add: addTopic_def)

text \<open>Subscribing is registering the connection, if it is new, and then adding the topic.\<close>

definition ensure_sub :: "topic_manager \<Rightarrow> tconn \<Rightarrow> topic_manager" where
  "ensure_sub tm c =
     (case map_of (tm_subs tm) c of
        None \<Rightarrow> tm\<lparr>tm_heap := tm_heap tm @ [\<lparr>s_conn = c, s_priority = 0, s_tags = [], s_topics = []\<rparr>],
                   tm_subs := AList.update c (length (tm_heap tm)) (tm_subs tm)\<rparr>
      | Some i \<Rightarrow> tm)"

lemma subscribe_ensure:
  "fst (topicSubscribe tm c r) =
     (if map_of (tm_topics tm) (tr_key r) = None then tm else fst (topicSubscribe (ensure_sub tm c) c r))"
  by (auto simp: topicSubscribe_def ensure_sub_def Let_def update_conv' split: option.splits)

lemma ensure_ok:
  assumes "tm_inv tm"
  shows "tm_inv (ensure_sub tm c)" "tm_abs (ensure_sub tm c) = tm_abs tm"
    "\<exists>i. map_of (tm_subs (ensure_sub tm c)) c = Some i"
proof -
  have old: "(tm_heap tm @ hs) ! i = tm_heap tm ! i" "i < length (tm_heap tm)"
    if "map_of (tm_topics tm) n = Some t" "i \<in> set (t_subs t)" for n t i hs
    using tm_inv_sub(1) [OF assms that] by (simp_all add: nth_append)
  have "subscriptions (ensure_sub tm c) = subscriptions tm"
    using old by (force simp: ensure_sub_def subscriptions_def conn_of_def split: option.splits)
  then show "tm_abs (ensure_sub tm c) = tm_abs tm"
    by (simp add: tm_abs_def) (simp add: ensure_sub_def split: option.splits)
  show "\<exists>i. map_of (tm_subs (ensure_sub tm c)) c = Some i"
    by (simp add: ensure_sub_def update_conv' split: option.splits)
  show "tm_inv (ensure_sub tm c)"
  proof (cases "map_of (tm_subs tm) c")
    case None
    then have "c \<noteq> s_conn (tm_heap tm ! i)" if "map_of (tm_topics tm) n = Some t" "i \<in> set (t_subs t)" for n t i
      using tm_inv_sub(3) [OF assms that] by (auto simp: conn_of_def)
    then show ?thesis
      using None assms old
      unfolding tm_inv_def ensure_sub_def by (auto simp: update_conv' nth_append intro: less_SucI split: if_splits)
  qed (use assms in \<open>simp add: ensure_sub_def\<close>)
qed

lemma subscribe_known_eq:
  assumes "map_of (tm_topics tm) (tr_key r) = Some t" "map_of (tm_subs tm) c = Some i"
  shows "fst (topicSubscribe tm c r) = tm\<lparr>tm_heap := (tm_heap tm)[i := addTopic ((tm_heap tm ! i)
        \<lparr>s_priority := tr_priority r, s_tags := tr_tags r\<rparr>) (tr_key r)],
        tm_topics := AList.update (tr_key r) (addSubscribe t i) (tm_topics tm)\<rparr>"
  using assms by (simp add: topicSubscribe_def Let_def)

lemma subscribe_known_ok:
  assumes "tm_inv tm" "map_of (tm_topics tm) (tr_key r) = Some t" "map_of (tm_subs tm) c = Some i"
  shows "tm_inv (fst (topicSubscribe tm c r)) \<and> tm_abs (fst (topicSubscribe tm c r))
       = (fst (tm_abs tm), insert (tr_key r, c) (snd (tm_abs tm)))"
proof -
  note eq = subscribe_known_eq [OF assms(2,3)] and i = tm_inv_conn [OF assms(1,3)]
  let ?s = "addTopic ((tm_heap tm ! i)\<lparr>s_priority := tr_priority r, s_tags := tr_tags r\<rparr>) (tr_key r)"
  have nth: "s_conn ((tm_heap tm)[i := ?s] ! j) = s_conn (tm_heap tm ! j)"
    "set (s_topics ((tm_heap tm)[i := ?s] ! j))
       = (if j = i then insert (tr_key r) (set (s_topics (tm_heap tm ! j))) else set (s_topics (tm_heap tm ! j)))" for j
    using i(1) by (cases "j = i"; simp)+
  have "tm_inv (fst (topicSubscribe tm c r))"
    using assms i unfolding tm_inv_def eq
    by (auto simp: nth update_conv' addSubscribe_def conn_of_def split: if_splits)
  moreover have "subscriptions (fst (topicSubscribe tm c r)) = insert (tr_key r, c) (subscriptions tm)"
  proof -
    have "conn_of (fst (topicSubscribe tm c r)) = conn_of tm" by (simp add: eq conn_of_def nth fun_eq_iff)
    then show ?thesis
      using assms(2) i(2) by (auto simp: subscriptions_def eq update_conv' addSubscribe_def split: if_splits)
  qed
  ultimately show ?thesis using assms(2) by (auto simp: tm_abs_def eq update_conv')
qed

lemma subscribe_ok:
  assumes "tm_inv tm"
  shows "tm_inv (fst (topicSubscribe tm c r)) \<and> tm_abs (fst (topicSubscribe tm c r))
       = (fst (tm_abs tm), if tr_key r \<in> fst (tm_abs tm) then insert (tr_key r, c) (snd (tm_abs tm)) else snd (tm_abs tm))"
proof (cases "map_of (tm_topics tm) (tr_key r)")
  case None
  then show ?thesis using assms by (simp add: subscribe_ensure) (simp add: tm_abs_def domIff)
next
  case (Some t)
  obtain i where "map_of (tm_subs (ensure_sub tm c)) c = Some i" using ensure_ok(3) [OF assms] by blast
  moreover have "map_of (tm_topics (ensure_sub tm c)) (tr_key r) = Some t"
    using Some by (simp add: ensure_sub_def split: option.splits)
  ultimately have "tm_inv (fst (topicSubscribe (ensure_sub tm c) c r))
      \<and> tm_abs (fst (topicSubscribe (ensure_sub tm c) c r))
        = (fst (tm_abs tm), insert (tr_key r, c) (snd (tm_abs tm)))"
    using subscribe_known_ok [OF ensure_ok(1) [OF assms], where r = r and t = t and c = c and i = i] ensure_ok(2) [OF assms] by simp
  moreover have "tr_key r \<in> fst (tm_abs tm)" using Some by (auto simp: tm_abs_def)
  ultimately show ?thesis using Some by (simp add: subscribe_ensure [of tm])
qed

lemma unsubscribe_ok:
  assumes "tm_inv tm"
  shows "tm_inv (topicancelSubscribe tm c r) \<and> tm_abs (topicancelSubscribe tm c r)
       = (fst (tm_abs tm), snd (tm_abs tm) - {(tr_key r, c)})"
proof (cases "map_of (tm_subs tm) c")
  case None
  then have "(tr_key r, c) \<notin> subscriptions tm"
    using tm_inv_sub(3) [OF assms] by (auto simp: subscriptions_def)
  then show ?thesis using None assms by (simp add: topicancelSubscribe_def tm_abs_def)
next
  case (Some i)
  note i = tm_inv_conn [OF assms Some]
  let ?h = "(tm_heap tm)[i := removeTopic (tm_heap tm ! i) (tr_key r)]"
  have nth: "s_conn (?h ! j) = s_conn (tm_heap tm ! j)"
    "set (s_topics (?h ! j)) = (if j = i then set (s_topics (tm_heap tm ! j)) - {tr_key r}
       else set (s_topics (tm_heap tm ! j)))" for j
    using i(1) by (cases "j = i"; simp)+
  have one: "j = i \<longleftrightarrow> s_conn (tm_heap tm ! j) = c"
    if "map_of (tm_topics tm) n = Some t" "j \<in> set (t_subs t)" for n t j
    using sub_of_conn [OF assms that Some] by (simp add: conn_of_def)
  have "tm_inv (topicancelSubscribe tm c r)"
    using assms Some unfolding tm_inv_def topicancelSubscribe_def
    by (auto simp: nth update_conv' delSubscribe_def distinct_removeAll Let_def split: option.splits if_splits)
  moreover have "subscriptions (topicancelSubscribe tm c r) = subscriptions tm - {(tr_key r, c)}"
  proof -
    have "conn_of (topicancelSubscribe tm c r) = conn_of tm"
      using Some by (simp add: topicancelSubscribe_def conn_of_def nth fun_eq_iff Let_def split: option.splits)
    moreover have "d \<in> conn_of tm ` (set (t_subs t) - {i}) \<longleftrightarrow> d \<in> conn_of tm ` set (t_subs t) \<and> d \<noteq> c"
      if "map_of (tm_topics tm) n = Some t" for n t d
      using one [OF that] by (auto simp: conn_of_def)
    moreover have "map_of (tm_topics (topicancelSubscribe tm c r)) n
        = map_option (\<lambda>t. if n = tr_key r then delSubscribe t i else t) (map_of (tm_topics tm) n)" for n
      using Some by (cases "map_of (tm_topics tm) n")
        (auto simp: topicancelSubscribe_def update_conv' Let_def split: option.splits)
    ultimately have "(n, d) \<in> subscriptions (topicancelSubscribe tm c r) \<longleftrightarrow>
        (n, d) \<in> subscriptions tm - {(tr_key r, c)}" for n d
      by (cases "map_of (tm_topics tm) n") (simp_all add: subscriptions_def delSubscribe_def)
    then show ?thesis by (simp add: set_eq_iff)
  qed
  ultimately show ?thesis
    using Some by (auto simp: tm_abs_def topicancelSubscribe_def update_conv' Let_def split: option.splits)
qed

text \<open>Closing a connection removes its subscriber from every topic it is in.\<close>

lemma fold_delSubscribe:
  "map_of (fold (\<lambda>n ts. case map_of ts n of None \<Rightarrow> ts | Some t \<Rightarrow> AList.update n (delSubscribe t i) ts) ns ts) n
     = (if n \<in> set ns then map_option (\<lambda>t. delSubscribe t i) (map_of ts n) else map_of ts n)"
proof (induction ns arbitrary: ts)
  case (Cons n' ns)
  have idem: "delSubscribe (delSubscribe t i) i = delSubscribe t i" for t by (simp add: delSubscribe_def)
  show ?case using Cons idem by (auto simp: update_conv' option.map_comp comp_def split: option.splits)
qed simp

lemma close_topics:
  assumes "tm_inv tm" "map_of (tm_subs tm) c = Some i"
  shows "map_of (tm_topics (tm_onconnShoutdown tm c)) n = map_option (\<lambda>t. delSubscribe t i) (map_of (tm_topics tm) n)"
proof -
  have "delSubscribe t i = t" if "map_of (tm_topics tm) n = Some t" "n \<notin> set (s_topics (tm_heap tm ! i))" for t
  proof -
    have "i \<notin> set (t_subs t)" using tm_inv_sub(2) [OF assms(1) that(1)] that(2) by blast
    then show ?thesis by (simp add: delSubscribe_def removeAll_id)
  qed
  then show ?thesis
    using assms(2) by (cases "map_of (tm_topics tm) n") (auto simp: tm_onconnShoutdown_def fold_delSubscribe)
qed

lemma close_ok:
  assumes "tm_inv tm"
  shows "tm_inv (tm_onconnShoutdown tm c) \<and> tm_abs (tm_onconnShoutdown tm c)
       = (fst (tm_abs tm), {x \<in> snd (tm_abs tm). snd x \<noteq> c})"
proof (cases "map_of (tm_subs tm) c")
  case None
  then have "(n, c) \<notin> subscriptions tm" for n
    using tm_inv_sub(3) [OF assms] by (auto simp: subscriptions_def)
  then show ?thesis using None assms by (auto simp: tm_onconnShoutdown_def tm_abs_def)
next
  case (Some i)
  note topics = close_topics [OF assms Some]
  have other: "tm_heap (tm_onconnShoutdown tm c) = tm_heap tm"
    "tm_subs (tm_onconnShoutdown tm c) = AList.delete c (tm_subs tm)"
    using Some by (simp_all add: tm_onconnShoutdown_def)
  have one: "j = i \<longleftrightarrow> conn_of tm j = c"
    if "map_of (tm_topics tm) n = Some t" "j \<in> set (t_subs t)" for n t j
    by (rule sub_of_conn [OF assms that Some])
  have "tm_inv (tm_onconnShoutdown tm c)"
    using assms one unfolding tm_inv_def topics other
    by (auto simp: delSubscribe_def distinct_removeAll delete_conv' conn_of_def)
  moreover have "(n, d) \<in> subscriptions (tm_onconnShoutdown tm c) \<longleftrightarrow> (n, d) \<in> subscriptions tm \<and> d \<noteq> c" for n d
  proof (cases "map_of (tm_topics tm) n")
    case (Some t)
    have "d \<in> conn_of tm ` (set (t_subs t) - {i}) \<longleftrightarrow> d \<in> conn_of tm ` set (t_subs t) \<and> d \<noteq> c"
      using one [OF Some] by auto
    moreover have "conn_of (tm_onconnShoutdown tm c) = conn_of tm" by (simp add: conn_of_def other fun_eq_iff)
    ultimately show ?thesis using Some by (simp add: subscriptions_def topics delSubscribe_def)
  qed (simp add: subscriptions_def topics)
  moreover have "dom (map_of (tm_topics (tm_onconnShoutdown tm c))) = dom (map_of (tm_topics tm))"
    by (auto simp: topics dom_def)
  ultimately show ?thesis by (auto simp: tm_abs_def)
qed

text \<open>Publishing moves cursors only.\<close>

lemma dispatch_same:
  assumes "dispatchMessage env tm t r = Some (tm', t', is)"
  shows "tm_heap tm' = tm_heap tm" "tm_subs tm' = tm_subs tm" "tm_topics tm' = tm_topics tm" "t_subs t' = t_subs t"
  using assms
  by (auto simp: dispatchMessage_def roundRobinSend_def prioritySend_def Let_def
      split: option.splits topic_forward_strategy.splits if_splits)

lemma publish_ok:
  assumes "tm_inv tm" "topicPublish env tm r = Some (tm', out, ok)"
  shows "tm_inv tm' \<and> tm_abs tm' = tm_abs tm"
proof (cases "map_of (tm_topics tm) (tr_key r)")
  case None
  then show ?thesis using assms by (simp add: topicPublish_def)
next
  case (Some t)
  then obtain tm1 t1 "is" where d: "dispatchMessage env tm t r = Some (tm1, t1, is)"
    and tm': "tm' = tm1\<lparr>tm_topics := AList.update (tr_key r) t1 (tm_topics tm1)\<rparr>"
    using assms(2) by (auto simp: topicPublish_def)
  note same = dispatch_same [OF d]
  have heap: "tm_heap tm' = tm_heap tm" "tm_subs tm' = tm_subs tm" "conn_of tm' = conn_of tm"
    by (simp_all add: tm' same conn_of_def fun_eq_iff)
  have tops: "map_of (tm_topics tm') n = (if n = tr_key r then Some t1 else map_of (tm_topics tm) n)" for n
    by (simp add: tm' same update_conv')
  have "tm_inv tm'"
    using assms(1) Some unfolding tm_inv_def heap tops by (auto simp: same)
  moreover have "(n, d) \<in> subscriptions tm' \<longleftrightarrow> (n, d) \<in> subscriptions tm" for n d
    using Some by (simp add: subscriptions_def heap tops same)
  moreover have "dom (map_of (tm_topics tm')) = dom (map_of (tm_topics tm))"
    using Some by (auto simp: tops dom_def)
  ultimately show ?thesis by (simp add: tm_abs_def set_eq_iff)
qed

lemmas tm_ops_ok = create_ok remove_ok subscribe_ok unsubscribe_ok close_ok

lemma tm_step_ok:
  assumes "tm_inv tm" "tm_step tm e = Some (tm', out)"
  shows "tm_inv tm' \<and> tm_abs tm' = spec_op (tm_abs tm) e"
proof (cases e)
  case (TClose c)
  then show ?thesis using assms close_ok [OF assms(1), of c] by (cases "tm_abs tm") simp
next
  case (TReq c r env)
  obtain T S where TS: "tm_abs tm = (T, S)" by fastforce
  show ?thesis
    using assms TReq TS tm_ops_ok [OF assms(1)] publish_ok [OF assms(1)]
    by (auto simp: ontopicRequest_def case_prod_beta Let_def split: option.splits topic_optype.splits)
qed


lemma tm_run_ok:
  assumes "tm_inv tm" "tm_run tm es = Some tm'"
  shows "tm_inv tm' \<and> tm_abs tm' = foldl spec_op (tm_abs tm) es"
  using assms
proof (induction es arbitrary: tm)
  case (Cons e es)
  then obtain tm1 out where "tm_step tm e = Some (tm1, out)" "tm_run tm1 es = Some tm'"
    by (auto split: option.splits)
  then show ?case using tm_step_ok [OF Cons.prems(1)] Cons.IH by fastforce
qed simp

lemma new_tm_ok: "tm_inv new_topic_manager" "tm_abs new_topic_manager = ({}, {})"
  by (simp_all add: tm_inv_def tm_abs_def subscriptions_def new_topic_manager_def)

lemmas tm_run_new = tm_run_ok [OF new_tm_ok(1), unfolded new_tm_ok(2)]

definition t_req :: "topic_optype \<Rightarrow> string \<Rightarrow> topic_request" where
  "t_req op key = \<lparr>tr_id = ''id'', tr_optype = Some op, tr_key = key, tr_msg = ''m'', tr_strategy = Some BROADCAST,
     tr_priority = 0, tr_tags = [], tr_fanout = 0, tr_shard = [], tr_redundant = 0\<rparr>"

definition t_env :: topic_env where
  "t_env = \<lparr>te_hash = \<lambda>_. 0, te_perm = [1, 0]\<rparr>"

definition two_subscribers :: "topic_event list" where
  "two_subscribers = [TReq 7 (t_req CREATE ''a'') t_env, TReq 1 (t_req SUBSCRIBE ''a'') t_env,
     TReq 2 (t_req SUBSCRIBE ''a'') t_env]"

lemmas tm_eval = two_subscribers_def t_req_def t_env_def new_topic_manager_def ontopicRequest_def topicCreate_def
  topicSubscribe_def addTopic_def addSubscribe_def Let_def

text \<open>
  Property C6. Whatever sequence of requests and disconnections the topic manager handles, its
  tables stay consistent (no subscriber twice in a topic, every subscriber of a topic is the one
  its live connection is registered with, and knows the topic), and they implement the set of
  topics and the set of subscriptions: creating is idempotent, removing a topic ends its
  subscriptions, subscribing to an unknown topic does nothing, closing a connection ends all of
  its subscriptions, and publishing changes no subscription.
\<close>

theorem topic_manager_refines:
  assumes "tm_run new_topic_manager es = Some tm"
  shows "tm_inv tm \<and> tm_abs tm = foldl spec_op ({}, {}) es"
  using tm_run_new [OF assms] .

theorem topic_manager_refines_witness:
  "\<exists>tm. tm_run new_topic_manager two_subscribers = Some tm
     \<and> tm_inv tm \<and> tm_abs tm = ({''a''}, {(''a'', 1), (''a'', 2)})"
proof -
  obtain tm where tm: "tm_run new_topic_manager two_subscribers = Some tm"
    by (simp add: tm_eval)
  show ?thesis using topic_manager_refines [OF tm] tm by (auto simp: two_subscribers_def t_req_def)
qed

end
