(* ===== verification/Topic_Delivery.thy ===== *)
theory Topic_Delivery
  imports Topic_Correct
begin

text \<open>
  What the forwarding strategies of a topic deliver: who gets a published message and how often.
\<close>

subsection \<open>Shuffles\<close>

lemma shuffle_perm:
  assumes "mset p = mset [0..<length xs]"
  shows "mset (map ((!) xs) p) = mset xs"
proof -
  have "mset (map ((!) xs) p) = image_mset ((!) xs) (mset [0..<length xs])" by (simp add: assms)
  also have "\<dots> = mset (map ((!) xs) [0..<length xs])" by simp
  finally show ?thesis by (simp only: map_nth)
qed

lemma shuffle_facts:
  assumes "mset p = mset [0..<length xs]"
  shows "set (map ((!) xs) p) = set xs" "length (map ((!) xs) p) = length xs" "distinct xs \<Longrightarrow> distinct (map ((!) xs) p)"
  using shuffle_perm [OF assms] by (metis mset_eq_setD, metis size_mset, metis mset_eq_imp_distinct_iff)

subsection \<open>Candidates by priority\<close>

definition top_priority :: "topic_manager \<Rightarrow> string list \<Rightarrow> nat list \<Rightarrow> int \<Rightarrow> int" where
  "top_priority tm tags is b = fold (\<lambda>i. max (s_priority (tm_heap tm ! i))) (filter (matchtags tm tags) is) b"

lemma fold_max_ge:
  fixes f :: "'a \<Rightarrow> 'b::linorder"
  shows "b \<le> fold (\<lambda>i. max (f i)) xs b" "i \<in> set xs \<Longrightarrow> f i \<le> fold (\<lambda>i. max (f i)) xs b"
proof -
  show ge: "b \<le> fold (\<lambda>i. max (f i)) xs b" for xs b
    by (induction xs arbitrary: b) (auto intro: order_trans [OF max.cobounded2])
  show "i \<in> set xs \<Longrightarrow> f i \<le> fold (\<lambda>i. max (f i)) xs b"
    by (induction xs arbitrary: b) (auto intro: order_trans [OF max.cobounded1 ge])
qed

lemma top_priority_ge:
  "b \<le> top_priority tm tags is b"
  "i \<in> set is \<Longrightarrow> matchtags tm tags i \<Longrightarrow> s_priority (tm_heap tm ! i) \<le> top_priority tm tags is b"
  unfolding top_priority_def by (simp_all add: fold_max_ge fold_max_ge(2) [where f = "\<lambda>i. s_priority (tm_heap tm ! i)"])

lemma top_priority_in:
  "top_priority tm tags is b = b \<or> (\<exists>i \<in> set is. matchtags tm tags i \<and> s_priority (tm_heap tm ! i) = top_priority tm tags is b)"
  unfolding top_priority_def by (induction "is" arbitrary: b) (auto simp: max_def, metis+)

lemma priority_scan_eq:
  "priority_scan tm tags is b cands = (if top_priority tm tags is b = b then cands else [])
     @ filter (\<lambda>i. matchtags tm tags i \<and> s_priority (tm_heap tm ! i) = top_priority tm tags is b) is"
proof (induction tm tags "is" b cands rule: priority_scan.induct)
  case (2 tm tags i "is" b cands)
  have "top_priority tm tags (i # is) b = (if matchtags tm tags i then
      top_priority tm tags is (max (s_priority (tm_heap tm ! i)) b) else top_priority tm tags is b)"
    by (simp add: top_priority_def)
  then show ?case
    using 2 top_priority_ge(1) [of b tm tags "is"] top_priority_ge(1) [of "s_priority (tm_heap tm ! i)" tm tags "is"]
    by (auto simp: max_def)
qed (simp add: top_priority_def)

text \<open>The candidates are the matching subscribers of the highest priority.\<close>

lemma priority_candidates:
  assumes "\<forall>i \<in> set is. INT_MIN \<le> s_priority (tm_heap tm ! i)"
  shows "set (priority_scan tm tags is INT_MIN []) = {i \<in> set is. matchtags tm tags i
     \<and> (\<forall>j \<in> set is. matchtags tm tags j \<longrightarrow> s_priority (tm_heap tm ! j) \<le> s_priority (tm_heap tm ! i))}"
    (is "?L = ?R")
proof
  show "?L \<subseteq> ?R" using top_priority_ge(2) by (auto simp: priority_scan_eq)
  show "?R \<subseteq> ?L"
  proof
    fix i assume i: "i \<in> ?R"
    then have "s_priority (tm_heap tm ! i) \<le> top_priority tm tags is INT_MIN" using top_priority_ge(2) by auto
    moreover have "top_priority tm tags is INT_MIN \<le> s_priority (tm_heap tm ! i)"
      using top_priority_in [of tm tags "is" INT_MIN] i assms by auto
    ultimately show "i \<in> ?L" using i by (auto simp: priority_scan_eq)
  qed
qed

lemma priority_scan_distinct: "distinct is \<Longrightarrow> distinct (priority_scan tm tags is b [])"
  by (simp add: priority_scan_eq)

subsection \<open>One dispatch\<close>

text \<open>How many of \<open>n\<close> subscribers each strategy should reach.\<close>

definition quota :: "topic_request \<Rightarrow> nat \<Rightarrow> nat set" where
  "quota r n =
     (case tr_strategy r of
        Some topic_forward_strategy.ROUND_ROBIN \<Rightarrow> {min 1 n}
      | Some FANOUT \<Rightarrow> {if tr_fanout r \<le> 0 then n else min (nat (tr_fanout r)) n}
      | Some topic_forward_strategy.SOURCE_HASH \<Rightarrow> {if tr_shard r = [] then 0 else min 1 n}
      | Some PRIORITY \<Rightarrow> {min 1 n, n}
      | Some REDUNDANT \<Rightarrow> {if tr_redundant r \<le> 1 then n else min (nat (tr_redundant r)) n}
      | _ \<Rightarrow> {n})"

definition sent_ok :: "topic_request \<Rightarrow> nat list \<Rightarrow> nat list \<Rightarrow> bool" where
  "sent_ok r subs is \<longleftrightarrow> distinct is \<and> set is \<subseteq> set subs \<and> length is \<in> quota r (length subs)"

lemma min_one_length [simp]: "xs \<noteq> [] \<Longrightarrow> min (Suc 0) (length xs) = Suc 0"
  by (cases xs) auto

lemma nth_mod_in [simp]: "xs \<noteq> [] \<Longrightarrow> xs ! (k mod length xs) \<in> set xs"
  by simp

lemma fanout_sent:
  assumes "distinct subs" "mset (te_perm env) = mset [0..<length subs]" "tr_strategy r = Some FANOUT"
    and "subs \<noteq> [] \<longrightarrow> tr_fanout r < int (length subs)"
  shows "\<exists>is. fanoutSend env (tr_fanout r) subs = Some is \<and> sent_ok r subs is"
  using assms shuffle_facts [OF assms(2)]
  by (auto simp: fanoutSend_def sent_ok_def quota_def broadcastSend_def Let_def min_def dest: in_set_takeD)

lemma redundant_sent:
  assumes "distinct subs" "mset (te_perm env) = mset [0..<length subs]" "tr_strategy r = Some REDUNDANT"
  shows "sent_ok r subs (redundantSend env (tr_redundant r) subs)"
  using assms shuffle_facts [OF assms(2)]
  by (auto simp: redundantSend_def sent_ok_def quota_def broadcastSend_def Let_def min_def dest: in_set_takeD)

lemma priority_sent:
  assumes "distinct subs" "tr_strategy r = Some PRIORITY"
  shows "sent_ok r subs (snd (prioritySend tm (tr_tags r) subs))"
proof -
  let ?c = "priority_scan tm (tr_tags r) subs INT_MIN []"
  have "set ?c \<subseteq> set subs" by (auto simp: priority_scan_eq)
  then have "?c \<noteq> [] \<Longrightarrow> ?c ! (tm_pri_cursor tm mod length ?c) \<in> set subs" using nth_mod_in by blast
  then show ?thesis
    using assms by (auto simp: prioritySend_def sent_ok_def quota_def broadcastSend_def Let_def)
qed

lemma dispatch_sent:
  assumes "distinct (t_subs t)" "mset (te_perm env) = mset [0..<length (t_subs t)]"
    and "tr_strategy r = Some FANOUT \<Longrightarrow> t_subs t \<noteq> [] \<longrightarrow> tr_fanout r < int (length (t_subs t))"
  shows "\<exists>tm' t' is. dispatchMessage env tm t r = Some (tm', t', is) \<and> sent_ok r (t_subs t) is"
proof (cases "tr_strategy r")
  case None
  then show ?thesis using assms(1) by (simp add: dispatchMessage_def sent_ok_def quota_def broadcastSend_def)
next
  case (Some st)
  show ?thesis
  proof (cases st)
    case FANOUT
    then show ?thesis
      using fanout_sent [OF assms(1,2), of r] assms(3) Some by (auto simp: dispatchMessage_def)
  next
    case REDUNDANT
    then show ?thesis using redundant_sent [OF assms(1,2), of r] Some by (simp add: dispatchMessage_def)
  next
    case PRIORITY
    then show ?thesis
      using priority_sent [OF assms(1), of r tm] Some by (simp add: dispatchMessage_def case_prod_beta Let_def)
  qed (use Some assms(1) in \<open>auto simp: dispatchMessage_def roundRobinSend_def sourceHashSend_def broadcastSend_def
      sent_ok_def quota_def Let_def split: if_splits\<close>)
qed


subsection \<open>Publishing\<close>

lemma topic_subscribers:
  assumes "tm_inv tm" "map_of (tm_topics tm) n = Some t"
  shows "{d. (n, d) \<in> subscriptions tm} = conn_of tm ` set (t_subs t)"
    "card {d. (n, d) \<in> subscriptions tm} = length (t_subs t)"
    "inj_on (conn_of tm) (set (t_subs t))"
proof -
  show inj: "inj_on (conn_of tm) (set (t_subs t))" using conn_inj [OF assms] by (simp add: inj_on_def)
  show eq: "{d. (n, d) \<in> subscriptions tm} = conn_of tm ` set (t_subs t)"
    using assms(2) by (simp add: subscriptions_def)
  show "card {d. (n, d) \<in> subscriptions tm} = length (t_subs t)"
    by (simp add: eq card_image [OF inj] distinct_card [OF tm_inv_distinct [OF assms]])
qed

lemma publish_sent:
  assumes "tm_inv tm" "map_of (tm_topics tm) (tr_key r) = Some t" "tr_optype r = Some PUBLISH"
    and "dispatchMessage env tm t r = Some (tm1, t1, is)" "sent_ok r (t_subs t) is"
  shows "\<exists>tm' ds. ontopicRequest env tm c r = Some (tm', map (\<lambda>d. (d, Forward r)) ds @ [(c, TopicResp (tr_id r) SUCCESS)])
     \<and> distinct ds \<and> set ds \<subseteq> {d. (tr_key r, d) \<in> subscriptions tm}
     \<and> length ds \<in> quota r (card {d. (tr_key r, d) \<in> subscriptions tm})"
proof -
  let ?ds = "map (conn_of tm) is"
  note subs = topic_subscribers [OF assms(1,2)]
  have "set is \<subseteq> set (t_subs t)" "distinct is" "length is \<in> quota r (length (t_subs t))"
    using assms(5) by (simp_all add: sent_ok_def)
  then have "distinct ?ds" "set ?ds \<subseteq> {d. (tr_key r, d) \<in> subscriptions tm}"
    and "length ?ds \<in> quota r (card {d. (tr_key r, d) \<in> subscriptions tm})"
    using inj_on_subset [OF subs(3)] unfolding subs(2) by (auto simp: distinct_map subs(1))
  moreover have "\<exists>tm'. ontopicRequest env tm c r
      = Some (tm', map (\<lambda>d. (d, Forward r)) ?ds @ [(c, TopicResp (tr_id r) SUCCESS)])"
    using assms(2-4) by (simp add: ontopicRequest_def topicPublish_def topicResponse_def)
  ultimately show ?thesis by blast
qed

text \<open>
  Property C36. Publishing to an existing topic after any sequence of requests and disconnections,
  by any strategy but a fan-out whose limit is not below the number of subscribers, reaches only
  connections that are subscribed at that moment, none of them twice, and exactly as many as the
  strategy of the message asks for (all of them for a broadcast, one for round robin, at most the
  limit for fan-out and redundant delivery), then confirms to the publisher. (A fan-out with such a
  limit sends twice or reads past the end of the list: see the remark on \<open>fanout_at_limit\<close>.)
\<close>

theorem publish_delivers:
  assumes "tm_run new_topic_manager es = Some tm" "foldl spec_op ({}, {}) es = (T, S)"
    and "tr_optype r = Some PUBLISH" "tr_key r \<in> T"
    and "mset (te_perm env) = mset [0..<card {d. (tr_key r, d) \<in> S}]"
    and "tr_strategy r = Some FANOUT \<Longrightarrow> {d. (tr_key r, d) \<in> S} \<noteq> {} \<Longrightarrow> tr_fanout r < int (card {d. (tr_key r, d) \<in> S})"
  shows "\<exists>tm' ds. ontopicRequest env tm c r = Some (tm', map (\<lambda>d. (d, Forward r)) ds @ [(c, TopicResp (tr_id r) SUCCESS)])
     \<and> distinct ds \<and> set ds \<subseteq> {d. (tr_key r, d) \<in> S} \<and> length ds \<in> quota r (card {d. (tr_key r, d) \<in> S})"
proof -
  have inv: "tm_inv tm" and "dom (map_of (tm_topics tm)) = T" and S: "S = subscriptions tm"
    using tm_run_new [OF assms(1)] assms(2) by (auto simp: tm_abs_def)
  then obtain t where t: "map_of (tm_topics tm) (tr_key r) = Some t" using assms(4) by auto
  note subs = topic_subscribers [OF inv t]
  obtain tm1 t1 "is" where "dispatchMessage env tm t r = Some (tm1, t1, is)" "sent_ok r (t_subs t) is"
    using dispatch_sent [OF tm_inv_distinct [OF inv t], of env r tm] assms(5,6) subs(1,2) unfolding S by auto
  from publish_sent [OF inv t assms(3) this] show ?thesis unfolding S .
qed

theorem publish_delivers_witness:
  "\<exists>tm tm' ds. tm_run new_topic_manager two_subscribers = Some tm
     \<and> ontopicRequest t_env tm 7 (t_req PUBLISH ''a'') = Some (tm', map (\<lambda>d. (d, Forward (t_req PUBLISH ''a''))) ds
         @ [(7, TopicResp ''id'' SUCCESS)]) \<and> distinct ds \<and> set ds \<subseteq> {1, 2} \<and> length ds = 2"
proof -
  obtain tm where tm: "tm_run new_topic_manager two_subscribers = Some tm" by (simp add: tm_eval)
  have spec: "foldl spec_op ({}, {}) two_subscribers = ({''a''}, {(''a'', 2), (''a'', 1)})"
    by (simp add: two_subscribers_def t_req_def)
  let ?r = "t_req PUBLISH ''a''"
  have r: "tr_optype ?r = Some PUBLISH" "tr_key ?r = ''a''" "tr_strategy ?r = Some BROADCAST" "tr_id ?r = ''id''"
    by (simp_all add: t_req_def)
  have set: "{d. (tr_key ?r, d) \<in> {(''a'', 2), (''a'', 1)}} = {1, 2 :: nat}" by (auto simp: r)
  have "\<exists>tm' ds. ontopicRequest t_env tm 7 ?r = Some (tm', map (\<lambda>d. (d, Forward ?r)) ds @ [(7, TopicResp (tr_id ?r) SUCCESS)])
     \<and> distinct ds \<and> set ds \<subseteq> {1, 2} \<and> length ds \<in> quota ?r (card {1, 2 :: nat})"
    using publish_delivers [OF tm spec r(1), of t_env 7, unfolded set] by (simp add: t_env_def r numeral_2_eq_2)
  then show ?thesis using tm by (simp add: r quota_def numeral_2_eq_2)
qed

text \<open>
  Remark. A message sent by priority goes to exactly one subscriber, which carries all tags
  of the message and has the highest priority among the subscribers that do; when no subscriber
  carries the tags, everyone gets the message.
\<close>

theorem priority_recipient:
  assumes "\<forall>i \<in> set subs. INT_MIN \<le> s_priority (tm_heap tm ! i)"
  shows "if \<exists>i \<in> set subs. matchtags tm tags i
     then \<exists>i. snd (prioritySend tm tags subs) = [i] \<and> i \<in> set subs \<and> matchtags tm tags i
       \<and> (\<forall>j \<in> set subs. matchtags tm tags j \<longrightarrow> s_priority (tm_heap tm ! j) \<le> s_priority (tm_heap tm ! i))
     else prioritySend tm tags subs = (tm, subs)"
proof (cases "\<exists>i \<in> set subs. matchtags tm tags i")
  case True
  let ?c = "priority_scan tm tags subs INT_MIN []"
  let ?M = "(\<lambda>i. s_priority (tm_heap tm ! i)) ` {i \<in> set subs. matchtags tm tags i}"
  have fin: "finite ?M" "?M \<noteq> {}" using True by auto
  from Max_in [OF this] obtain i where "i \<in> {i \<in> set subs. matchtags tm tags i}" "Max ?M = s_priority (tm_heap tm ! i)"
    by (elim imageE)
  moreover have "s_priority (tm_heap tm ! j) \<le> Max ?M" if "j \<in> set subs" "matchtags tm tags j" for j
    using that by (intro Max_ge [OF fin(1)]) auto
  ultimately have "i \<in> set ?c" unfolding priority_candidates [OF assms] by simp
  then have ne: "?c \<noteq> []" by auto
  then have "?c ! (tm_pri_cursor tm mod length ?c) \<in> set ?c" by simp
  then show ?thesis
    using True ne by (auto simp: prioritySend_def Let_def priority_candidates [OF assms])
next
  case False
  then have "priority_scan tm tags subs INT_MIN [] = []" by (simp add: priority_scan_eq filter_empty_conv)
  then show ?thesis using False by (simp add: prioritySend_def broadcastSend_def Let_def)
qed

definition pri_tm :: topic_manager where
  "pri_tm = new_topic_manager\<lparr>tm_heap := [\<lparr>s_conn = 1, s_priority = 5, s_tags = [''x''], s_topics = []\<rparr>,
     \<lparr>s_conn = 2, s_priority = 9, s_tags = [''x''], s_topics = []\<rparr>]\<rparr>"

theorem priority_recipient_witness: "\<exists>i. snd (prioritySend pri_tm [''x''] [0, 1]) = [i] \<and> s_priority (tm_heap pri_tm ! i) \<ge> 9"
  using priority_recipient [of "[0, 1]" pri_tm "[''x'']"] by (auto simp: pri_tm_def INT_MIN_def matchtags_def)

text \<open>
  Remark. A fan-out limit that is not below the number of subscribers is not handled as a
  broadcast: when they are equal every subscriber is sent the message twice, and with a larger
  limit the loop runs past the end of the vector.
\<close>

theorem fanout_at_limit:
  assumes "subs \<noteq> []" "mset (te_perm env) = mset [0..<length subs]" "0 < k"
  shows "(\<exists>is. fanoutSend env (int (length subs)) subs = Some is \<and> mset is = mset subs + mset subs)
    \<and> fanoutSend env (int (length subs + k)) subs = None"
  using assms shuffle_facts(2) [OF assms(2)] shuffle_perm [OF assms(2)]
  by (simp add: fanoutSend_def broadcastSend_def Let_def)

theorem fanout_at_limit_witness:
  "(\<exists>is. fanoutSend t_env 2 [4, 5] = Some is \<and> mset is = {#4, 5, 4, 5#}) \<and> fanoutSend t_env 3 [4, 5] = None"
  using fanout_at_limit [of "[4, 5]" t_env 1] by (simp add: t_env_def add_mset_commute)

end
