(* ===== verification/Topic_Client.thy ===== *)
theory Topic_Client
  imports Topic_Delivery Messages Caller
begin

text \<open>
  The client side of publish and subscribe: \<open>TopicManager\<close> of
  \<open>rpc/src/client/rpc_topic.hpp\<close>, behind \<open>TopicClient\<close> of
  \<open>rpc/src/client/rpc_client.hpp\<close>. The reply to a request is an argument.
\<close>

subsection \<open>Requests\<close>

record topic_options =
  to_msg :: string
  to_strategy :: topic_forward_strategy
  to_fanout :: int
  to_shard :: string
  to_priority :: int
  to_tags :: "string list"
  to_redundant :: int

definition default_options :: topic_options where
  "default_options = \<lparr>to_msg = [], to_strategy = BROADCAST, to_fanout = 0, to_shard = [], to_priority = 0, to_tags = [], to_redundant = 0\<rparr>"

definition audience_fields :: "'j json_lib \<Rightarrow> 'j \<Rightarrow> topic_options \<Rightarrow> 'j option" where
  "audience_fields L d opt = do {
     d1 \<leftarrow> (if to_priority opt > 0 then TopicRequest_setPriority L d (to_priority opt) else Some d);
     if to_tags opt \<noteq> [] then TopicRequest_setTags L d1 (to_tags opt) else Some d1 }"

definition publish_fields :: "'j json_lib \<Rightarrow> 'j \<Rightarrow> topic_options \<Rightarrow> 'j option" where
  "publish_fields L d opt = do {
     d1 \<leftarrow> TopicRequest_setTopicMsg L d (to_msg opt);
     d2 \<leftarrow> TopicRequest_setForwardStrategy L d1 (to_strategy opt);
     d3 \<leftarrow> (if to_fanout opt > 0 then TopicRequest_setFanoutLimit L d2 (to_fanout opt) else Some d2);
     d4 \<leftarrow> (if to_shard opt \<noteq> [] then TopicRequest_setShardKey L d3 (to_shard opt) else Some d3);
     d5 \<leftarrow> audience_fields L d4 opt;
     if to_redundant opt > 1 then TopicRequest_setRedundantCount L d5 (to_redundant opt) else Some d5 }"

definition topic_request_body :: "'j json_lib \<Rightarrow> string \<Rightarrow> topic_optype \<Rightarrow> topic_options \<Rightarrow> 'j option" where
  "topic_request_body L topic_name op opt = do {
     d1 \<leftarrow> TopicRequest_setTopicKey L (j_null L) topic_name;
     d2 \<leftarrow> TopicRequest_setOptype L d1 op;
     d3 \<leftarrow> (if op = PUBLISH then publish_fields L d2 opt else Some d2);
     if op = SUBSCRIBE then audience_fields L d3 opt else Some d3 }"

text \<open>The flag a request returns, from what sending it returned.\<close>

definition topic_reply_ok :: "'j json_lib \<Rightarrow> 'j send_result \<Rightarrow> bool option" where
  "topic_reply_ok L reply =
     (case reply of
        SendFailed e \<Rightarrow> Some False
      | Received resp \<Rightarrow>
          (case m_payload resp of
             TopicResponse d \<Rightarrow> do { rc \<leftarrow> JsonResponse_rcode L d; Some (rc = resp_code_code SUCCESS) }
           | _ \<Rightarrow> Some False))"

definition commonRequest ::
  "'j json_lib \<Rightarrow> string \<Rightarrow> string \<Rightarrow> topic_optype \<Rightarrow> topic_options \<Rightarrow> 'j send_result \<Rightarrow> ('j base_message \<times> bool) option" where
  "commonRequest L rid topic_name op opt reply = do {
     d \<leftarrow> topic_request_body L topic_name op opt;
     ok \<leftarrow> topic_reply_ok L reply;
     Some (\<lparr>m_type = REQ_TOPIC, m_rid = rid, m_payload = TopicRequest d\<rparr>, ok) }"

definition createTopic :: "'j json_lib \<Rightarrow> string \<Rightarrow> string \<Rightarrow> 'j send_result \<Rightarrow> ('j base_message \<times> bool) option" where
  "createTopic L rid topic_name reply = commonRequest L rid topic_name CREATE default_options reply"

definition removeTopic_request :: "'j json_lib \<Rightarrow> string \<Rightarrow> string \<Rightarrow> 'j send_result \<Rightarrow> ('j base_message \<times> bool) option" where
  "removeTopic_request L rid topic_name reply = commonRequest L rid topic_name REMOVE default_options reply"

definition cancelTopic :: "'j json_lib \<Rightarrow> string \<Rightarrow> string \<Rightarrow> 'j send_result \<Rightarrow> ('j base_message \<times> bool) option" where
  "cancelTopic L rid topic_name reply = commonRequest L rid topic_name UNSUBSCRIBE default_options reply"

definition publishTopic ::
  "'j json_lib \<Rightarrow> string \<Rightarrow> string \<Rightarrow> topic_options \<Rightarrow> 'j send_result \<Rightarrow> ('j base_message \<times> bool) option" where
  "publishTopic L rid topic_name opt reply = commonRequest L rid topic_name PUBLISH opt reply"

subsection \<open>Callbacks\<close>

type_synonym 'cb topic_cbs = "(string \<times> 'cb) list"

definition cb_addSubscribe :: "'cb topic_cbs \<Rightarrow> string \<Rightarrow> 'cb \<Rightarrow> 'cb topic_cbs" where
  "cb_addSubscribe cbs topic_name cb = AList.update topic_name cb cbs"

definition cb_delSubscribe :: "'cb topic_cbs \<Rightarrow> string \<Rightarrow> 'cb topic_cbs" where
  "cb_delSubscribe cbs topic_name = AList.delete topic_name cbs"

definition getSubscribe :: "'cb topic_cbs \<Rightarrow> string \<Rightarrow> 'cb option" where
  "getSubscribe cbs topic_name = map_of cbs topic_name"

definition subscribeTopic ::
  "'j json_lib \<Rightarrow> 'cb topic_cbs \<Rightarrow> string \<Rightarrow> string \<Rightarrow> 'cb \<Rightarrow> int \<Rightarrow> string list \<Rightarrow> 'j send_result
     \<Rightarrow> ('cb topic_cbs \<times> 'j base_message \<times> bool) option" where
  "subscribeTopic L cbs rid topic_name cb priority tags reply =
     (let cbs1 = cb_addSubscribe cbs topic_name cb in do {
        (req, ok) \<leftarrow> commonRequest L rid topic_name SUBSCRIBE (default_options\<lparr>to_priority := priority, to_tags := tags\<rparr>) reply;
        Some (if ok then cbs1 else cb_delSubscribe cbs1 topic_name, req, ok) })"

text \<open>A message pushed by the server: the callback that is run with the topic and the text.\<close>

definition onTopicPublish :: "'j json_lib \<Rightarrow> 'cb topic_cbs \<Rightarrow> 'j \<Rightarrow> ('cb \<times> string \<times> string) option option" where
  "onTopicPublish L cbs d = do {
     op \<leftarrow> TopicRequest_optype L d;
     if op \<noteq> topic_optype_code PUBLISH then Some None
     else do {
       key \<leftarrow> TopicRequest_topicKey L d;
       msg \<leftarrow> TopicRequest_topicMsg L d;
       Some (map_option (\<lambda>cb. (cb, key, msg)) (getSubscribe cbs key)) } }"

subsection \<open>What the server reads\<close>

definition read_topic :: "'j json_lib \<Rightarrow> string \<Rightarrow> 'j \<Rightarrow> topic_request option" where
  "read_topic L rid d = do {
     op \<leftarrow> TopicRequest_optype L d;
     key \<leftarrow> TopicRequest_topicKey L d;
     st \<leftarrow> TopicRequest_forwardStrategy L d;
     fanout \<leftarrow> TopicRequest_fanoutLimit L d;
     shard \<leftarrow> TopicRequest_shardKey L d;
     priority \<leftarrow> TopicRequest_priority L d;
     tags \<leftarrow> TopicRequest_tags L d;
     redundant \<leftarrow> TopicRequest_redundantCount L d;
     msg \<leftarrow> (if op = topic_optype_code PUBLISH then TopicRequest_topicMsg L d else Some []);
     Some \<lparr>tr_id = rid, tr_optype = topic_optype_of op, tr_key = key, tr_msg = msg, tr_strategy = strategy_of st,
       tr_priority = priority, tr_tags = tags, tr_fanout = fanout, tr_shard = shard, tr_redundant = redundant\<rparr> }"

text \<open>What a request asks for: options the operation does not use, and numbers of no effect, are left out.\<close>

definition requested :: "string \<Rightarrow> string \<Rightarrow> topic_optype \<Rightarrow> topic_options \<Rightarrow> topic_request" where
  "requested rid topic_name op opt =
     (let pub = (op = PUBLISH); aud = (op = PUBLISH \<or> op = SUBSCRIBE) in
      \<lparr>tr_id = rid, tr_optype = Some op, tr_key = topic_name, tr_msg = (if pub then to_msg opt else []),
       tr_strategy = Some (if pub then to_strategy opt else BROADCAST),
       tr_priority = (if aud \<and> to_priority opt > 0 then to_priority opt else 0),
       tr_tags = (if aud then to_tags opt else []),
       tr_fanout = (if pub \<and> to_fanout opt > 0 then to_fanout opt else 0),
       tr_shard = (if pub then to_shard opt else []),
       tr_redundant = (if pub \<and> to_redundant opt > 1 then to_redundant opt else 0)\<rparr>)"

definition numbers_ok :: "topic_options \<Rightarrow> bool" where
  "numbers_ok opt \<longleftrightarrow> in_int32 (to_priority opt) \<and> in_int32 (to_fanout opt) \<and> in_int32 (to_redundant opt)"

text \<open>A JSON object as a table from keys to values.\<close>

definition holds :: "'j json_lib \<Rightarrow> 'j \<Rightarrow> (string \<Rightarrow> 'j option) \<Rightarrow> bool" where
  "holds L d f \<longleftrightarrow> (j_isObject L d \<or> d = j_null L) \<and> (\<forall>k. j_find L d k = Some (f k))"

definition base_table :: "'j json_lib \<Rightarrow> string \<Rightarrow> topic_optype \<Rightarrow> string \<Rightarrow> 'j option" where
  "base_table L topic_name op k =
     (if k = KEY_OPTYPE then Some (j_int L (topic_optype_code op)) else if k = KEY_TOPIC_KEY then Some (j_str L topic_name) else None)"

definition audience_table :: "'j json_lib \<Rightarrow> 'j \<Rightarrow> topic_options \<Rightarrow> (string \<Rightarrow> 'j option) \<Rightarrow> string \<Rightarrow> 'j option" where
  "audience_table L arr opt f k =
     (if k = KEY_TOPIC_TAGS \<and> to_tags opt \<noteq> [] then Some arr
      else if k = KEY_TOPIC_PRIORITY \<and> to_priority opt > 0 then Some (j_int L (to_priority opt)) else f k)"

definition publish_table :: "'j json_lib \<Rightarrow> 'j \<Rightarrow> topic_options \<Rightarrow> (string \<Rightarrow> 'j option) \<Rightarrow> string \<Rightarrow> 'j option" where
  "publish_table L arr opt f k =
     (if k = KEY_TOPIC_REDUNDANT \<and> to_redundant opt > 1 then Some (j_int L (to_redundant opt))
      else if k = KEY_TOPIC_TAGS \<and> to_tags opt \<noteq> [] then Some arr
      else if k = KEY_TOPIC_PRIORITY \<and> to_priority opt > 0 then Some (j_int L (to_priority opt))
      else if k = KEY_TOPIC_SHARD_KEY \<and> to_shard opt \<noteq> [] then Some (j_str L (to_shard opt))
      else if k = KEY_TOPIC_FANOUT \<and> to_fanout opt > 0 then Some (j_int L (to_fanout opt))
      else if k = KEY_TOPIC_FORWARD then Some (j_int L (strategy_code (to_strategy opt)))
      else if k = KEY_TOPIC_MSG then Some (j_str L (to_msg opt)) else f k)"

context json_api
begin

lemma holds_null: "holds L (j_null L) (\<lambda>_. None)"
  by (simp add: holds_def find_null)

lemma put_if:
  assumes "holds L d f"
  shows "\<exists>d'. (if c then j_put L d k v else Some d) = Some d' \<and> holds L d' (\<lambda>k'. if k' = k \<and> c then Some v else f k')"
proof (cases c)
  case True
  obtain d' where d': "j_put L d k v = Some d'" "j_isObject L d'" using put_object assms unfolding holds_def by blast
  then show ?thesis using assms True find_put [OF d'(1)] by (auto simp: holds_def)
qed (use assms in simp)

lemmas put_holds = put_if [where c = True, simplified]

lemma tags_if:
  assumes "holds L d f"
  shows "\<exists>d' arr. (if ts \<noteq> [] then TopicRequest_setTags L d ts else Some d) = Some d' \<and> j_isArray L arr
     \<and> j_elems L arr = Some (map (j_str L) ts) \<and> holds L d' (\<lambda>k'. if k' = KEY_TOPIC_TAGS \<and> ts \<noteq> [] then Some arr else f k')"
proof -
  obtain arr where arr: "j_append_all L (j_array L) (map (j_str L) ts) = Some arr" "j_isArray L arr" "j_elems L arr = Some (map (j_str L) ts)"
    using array_of_list by blast
  have "TopicRequest_setTags L d ts = j_put L d KEY_TOPIC_TAGS arr" by (simp add: TopicRequest_setTags_def arr(1))
  then show ?thesis using put_if [OF assms, of "ts \<noteq> []" KEY_TOPIC_TAGS arr] arr(2,3) by auto
qed

lemma audience_ok:
  assumes "holds L d f"
  shows "\<exists>d' arr. audience_fields L d opt = Some d' \<and> j_isArray L arr \<and> j_elems L arr = Some (map (j_str L) (to_tags opt))
     \<and> holds L d' (audience_table L arr opt f)"
proof -
  obtain d1 g where d1: "(if to_priority opt > 0 then TopicRequest_setPriority L d (to_priority opt) else Some d) = Some d1" "holds L d1 g"
      "g = (\<lambda>k. if k = KEY_TOPIC_PRIORITY \<and> to_priority opt > 0 then Some (j_int L (to_priority opt)) else f k)"
    using put_if [OF assms, of "to_priority opt > 0" KEY_TOPIC_PRIORITY "j_int L (to_priority opt)"]
    unfolding TopicRequest_setPriority_def by blast
  obtain d2 arr where d2: "(if to_tags opt \<noteq> [] then TopicRequest_setTags L d1 (to_tags opt) else Some d1) = Some d2" "j_isArray L arr"
      "j_elems L arr = Some (map (j_str L) (to_tags opt))" "holds L d2 (\<lambda>k. if k = KEY_TOPIC_TAGS \<and> to_tags opt \<noteq> [] then Some arr else g k)"
    using tags_if [OF d1(2), of "to_tags opt"] by blast
  moreover have "audience_fields L d opt = Some d2"
    unfolding audience_fields_def by (simp only: d1(1) d2(1) bind.bind_lunit)
  ultimately show ?thesis unfolding d1(3) audience_table_def [abs_def] by blast
qed

lemma publish_fields_ok:
  assumes "holds L d f"
  shows "\<exists>d' arr. publish_fields L d opt = Some d' \<and> j_isArray L arr \<and> j_elems L arr = Some (map (j_str L) (to_tags opt))
     \<and> holds L d' (publish_table L arr opt f)"
proof -
  obtain d1 f1 where d1: "TopicRequest_setTopicMsg L d (to_msg opt) = Some d1" "holds L d1 f1"
      "f1 = (\<lambda>k. if k = KEY_TOPIC_MSG then Some (j_str L (to_msg opt)) else f k)"
    using put_holds [OF assms] unfolding TopicRequest_setTopicMsg_def by blast
  obtain d2 f2 where d2: "TopicRequest_setForwardStrategy L d1 (to_strategy opt) = Some d2" "holds L d2 f2"
      "f2 = (\<lambda>k. if k = KEY_TOPIC_FORWARD then Some (j_int L (strategy_code (to_strategy opt))) else f1 k)"
    using put_holds [OF d1(2)] unfolding TopicRequest_setForwardStrategy_def by blast
  obtain d3 f3 where d3: "(if to_fanout opt > 0 then TopicRequest_setFanoutLimit L d2 (to_fanout opt) else Some d2) = Some d3" "holds L d3 f3"
      "f3 = (\<lambda>k. if k = KEY_TOPIC_FANOUT \<and> to_fanout opt > 0 then Some (j_int L (to_fanout opt)) else f2 k)"
    using put_if [OF d2(2), of "to_fanout opt > 0"] unfolding TopicRequest_setFanoutLimit_def by blast
  obtain d4 f4 where d4: "(if to_shard opt \<noteq> [] then TopicRequest_setShardKey L d3 (to_shard opt) else Some d3) = Some d4" "holds L d4 f4"
      "f4 = (\<lambda>k. if k = KEY_TOPIC_SHARD_KEY \<and> to_shard opt \<noteq> [] then Some (j_str L (to_shard opt)) else f3 k)"
    using put_if [OF d3(2), of "to_shard opt \<noteq> []"] unfolding TopicRequest_setShardKey_def by blast
  obtain d5 arr f5 where d5: "audience_fields L d4 opt = Some d5" "j_isArray L arr" "j_elems L arr = Some (map (j_str L) (to_tags opt))"
      "holds L d5 f5" "f5 = audience_table L arr opt f4"
    using audience_ok [OF d4(2), of opt] by blast
  obtain d6 f6 where d6: "(if to_redundant opt > 1 then TopicRequest_setRedundantCount L d5 (to_redundant opt) else Some d5) = Some d6" "holds L d6 f6"
      "f6 = (\<lambda>k. if k = KEY_TOPIC_REDUNDANT \<and> to_redundant opt > 1 then Some (j_int L (to_redundant opt)) else f5 k)"
    using put_if [OF d5(4), of "to_redundant opt > 1"] unfolding TopicRequest_setRedundantCount_def by blast
  have "publish_fields L d opt = Some d6"
    unfolding publish_fields_def by (simp only: d1(1) d2(1) d3(1) d4(1) d5(1) d6(1) bind.bind_lunit)
  moreover have "f6 = publish_table L arr opt f"
    unfolding d6(3) d5(5) d4(3) d3(3) d2(3) d1(3) audience_table_def [abs_def] publish_table_def [abs_def] ..
  ultimately show ?thesis using d6(2) d5(2,3) by blast
qed

lemma body_ok:
  "\<exists>d arr. topic_request_body L topic_name op opt = Some d \<and> j_isArray L arr \<and> j_elems L arr = Some (map (j_str L) (to_tags opt))
     \<and> holds L d (let f = base_table L topic_name op in
         if op = PUBLISH then publish_table L arr opt f else if op = SUBSCRIBE then audience_table L arr opt f else f)"
proof -
  obtain d1 where d1: "TopicRequest_setTopicKey L (j_null L) topic_name = Some d1" "holds L d1 (\<lambda>k. if k = KEY_TOPIC_KEY then Some (j_str L topic_name) else None)"
    using put_holds [OF holds_null] unfolding TopicRequest_setTopicKey_def by blast
  obtain d2 f where d2: "TopicRequest_setOptype L d1 op = Some d2" "holds L d2 f"
      "f = base_table L topic_name op"
    using put_holds [OF d1(2)] unfolding TopicRequest_setOptype_def base_table_def [abs_def] by blast
  have "topic_request_body L topic_name op opt
      = (if op = PUBLISH then publish_fields L d2 opt else if op = SUBSCRIBE then audience_fields L d2 opt else Some d2)"
    by (simp add: topic_request_body_def d1(1) d2(1))
  then show ?thesis
    using publish_fields_ok [OF d2(2), of opt] audience_ok [OF d2(2), of opt] array_of_list [of "map (j_str L) (to_tags opt)"] d2(2)
    unfolding d2(3) [symmetric] Let_def by auto
qed

lemma holds_reads:
  assumes "holds L d f"
  shows "get_str L d k = j_asString L (case f k of None \<Rightarrow> j_null L | Some v \<Rightarrow> v)"
    "get_int L d k = j_asInt L (case f k of None \<Rightarrow> j_null L | Some v \<Rightarrow> v)"
    "get_str_or L d k s = j_asString L (case f k of None \<Rightarrow> j_str L s | Some v \<Rightarrow> v)"
    "get_int_or L d k i = j_asInt L (case f k of None \<Rightarrow> j_int L i | Some v \<Rightarrow> v)"
    "j_get L d k w = Some (case f k of None \<Rightarrow> w | Some v \<Rightarrow> v)"
  using assms by (simp_all add: holds_def get_str_def get_int_def get_str_or_def get_int_or_def j_index_def j_get_def)

lemma strings_read: "those (map (j_asString L) (filter (j_isString L) (map (j_str L) ts))) = Some ts"
  by (induction ts) (simp_all add: str_kind asString)

lemma tags_read:
  assumes "holds L d f" "f KEY_TOPIC_TAGS = (if ts \<noteq> [] then Some arr else None)"
    and "ts \<noteq> [] \<Longrightarrow> j_isArray L arr \<and> j_elems L arr = Some (map (j_str L) ts)"
  shows "TopicRequest_tags L d = Some ts"
proof (cases ts)
  case Nil
  then show ?thesis using assms(2) by (simp add: TopicRequest_tags_def holds_reads(5) [OF assms(1)] null_kind j_elems_def size_empty)
next
  case (Cons t us)
  then show ?thesis using assms(2,3) strings_read [of ts] by (simp add: TopicRequest_tags_def holds_reads(5) [OF assms(1)])
qed

lemma codes_in_range: "in_int32 (topic_optype_code op)" "in_int32 (strategy_code st)"
  by (cases op; simp add: in_int32_def) (cases st; simp add: in_int32_def)

lemma request_read_back:
  assumes "numbers_ok opt"
  shows "\<exists>d. topic_request_body L topic_name op opt = Some d \<and> read_topic L rid d = Some (requested rid topic_name op opt)
     \<and> TopicRequest_optype L d = Some (topic_optype_code op) \<and> TopicRequest_topicKey L d = Some topic_name
     \<and> (op = PUBLISH \<longrightarrow> TopicRequest_topicMsg L d = Some (to_msg opt))"
proof -
  obtain d arr f where d: "topic_request_body L topic_name op opt = Some d" "j_isArray L arr" "j_elems L arr = Some (map (j_str L) (to_tags opt))"
    "holds L d f" and f: "f = (let g = base_table L topic_name op in
         if op = PUBLISH then publish_table L arr opt g else if op = SUBSCRIBE then audience_table L arr opt g else g)"
    using body_ok by blast
  have tags: "TopicRequest_tags L d = Some (tr_tags (requested rid topic_name op opt))"
    by (rule tags_read [OF d(4), where arr = arr and ts = "tr_tags (requested rid topic_name op opt)"])
      (use d(2,3) in \<open>auto simp: f requested_def publish_table_def audience_table_def base_table_def keys Let_def split: if_splits\<close>)
  have num: "j_asInt L (j_int L 0) = Some 0" "j_asInt L (j_int L (topic_optype_code op)) = Some (topic_optype_code op)"
      "j_asInt L (j_int L (strategy_code st)) = Some (strategy_code st)" for op st
    by (simp_all add: asInt codes_in_range) (simp add: asInt in_int32_def)
  have opt: "j_asInt L (j_int L (to_priority opt)) = Some (to_priority opt)" "j_asInt L (j_int L (to_fanout opt)) = Some (to_fanout opt)"
      "j_asInt L (j_int L (to_redundant opt)) = Some (to_redundant opt)"
    using assms by (simp_all add: numbers_ok_def asInt)
  note reads = holds_reads [OF d(4)] f publish_table_def audience_table_def base_table_def num opt asString keys Let_def requested_def
  have base: "TopicRequest_optype L d = Some (topic_optype_code op)" "TopicRequest_topicKey L d = Some topic_name"
    "op = PUBLISH \<Longrightarrow> TopicRequest_topicMsg L d = Some (to_msg opt)"
    unfolding TopicRequest_optype_def TopicRequest_topicKey_def TopicRequest_topicMsg_def by (simp_all add: reads del: topic_optype_code.simps)
  have "TopicRequest_forwardStrategy L d = Some (strategy_code (if op = PUBLISH then to_strategy opt else BROADCAST))"
    "TopicRequest_shardKey L d = Some (tr_shard (requested rid topic_name op opt))"
    unfolding TopicRequest_forwardStrategy_def TopicRequest_shardKey_def by (simp_all add: reads del: strategy_code.simps)
  moreover have "TopicRequest_fanoutLimit L d = Some (tr_fanout (requested rid topic_name op opt))"
    "TopicRequest_priority L d = Some (tr_priority (requested rid topic_name op opt))"
    "TopicRequest_redundantCount L d = Some (tr_redundant (requested rid topic_name op opt))"
    unfolding TopicRequest_fanoutLimit_def TopicRequest_priority_def TopicRequest_redundantCount_def by (simp_all add: reads)
  moreover have "topic_optype_code op = topic_optype_code PUBLISH \<longleftrightarrow> op = PUBLISH" by (cases op) simp_all
  ultimately have "read_topic L rid d = Some (requested rid topic_name op opt)"
    using tags base by (simp add: read_topic_def requested_def Let_def del: topic_optype_code.simps strategy_code.simps)
  then show ?thesis using d(1) base by blast
qed

end

text \<open>
  Remark. A topic request says to the server what the client asked for: read by the accessors
  of the server, the message that the client builds has the topic and the operation, and for a
  publication and a subscription the options that apply to it; an option without effect (a priority
  or limit that is not positive, a redundancy below two) is the default on the other side.
\<close>

theorem topic_request_roundtrip:
  assumes "json_api L" "numbers_ok opt" "topic_reply_ok L reply = Some ok"
  shows "\<exists>d. commonRequest L rid topic_name op opt reply = Some (\<lparr>m_type = REQ_TOPIC, m_rid = rid, m_payload = TopicRequest d\<rparr>, ok)
     \<and> read_topic L rid d = Some (requested rid topic_name op opt)"
  using json_api.request_read_back [OF assms(1,2), of topic_name op rid] assms(3) by (auto simp: commonRequest_def)

theorem topic_request_roundtrip_witness:
  "\<exists>d. read_topic (json_tree (\<lambda>_. None) (\<lambda>_. None)) ''r'' d = Some (requested ''r'' ''news'' PUBLISH (default_options\<lparr>to_msg := ''hi'', to_priority := 3\<rparr>))"
proof -
  have "topic_reply_ok (json_tree (\<lambda>_. None) (\<lambda>_. None)) (SendFailed rpc_error.TIMEOUT) = Some False"
    by (simp add: topic_reply_ok_def)
  from topic_request_roundtrip [OF jt.json_api_axioms _ this, of "default_options\<lparr>to_msg := ''hi'', to_priority := 3\<rparr>" "''r''" "''news''" PUBLISH]
  show ?thesis by (auto simp: numbers_ok_def default_options_def in_int32_def)
qed

subsection \<open>From a subscription to a callback\<close>

lemma count_distinct: "distinct xs \<Longrightarrow> x \<in> set xs \<Longrightarrow> count_list xs x = 1"
  by (induction xs) (auto simp: count_list_0_iff)

lemma server_subscribes:
  assumes "tm_inv tm" "tm_abs tm = (T, S)" "tr_optype r = Some SUBSCRIBE" "tr_key r \<in> T"
  shows "\<exists>tm'. ontopicRequest env tm c r = Some (tm', [(c, TopicResp (tr_id r) SUCCESS)]) \<and> tm_inv tm'
     \<and> tm_abs tm' = (T, insert (tr_key r, c) S)"
proof -
  obtain t where "map_of (tm_topics tm) (tr_key r) = Some t" using assms(2,4) by (auto simp: tm_abs_def)
  then obtain tm' where tm': "topicSubscribe tm c r = (tm', True)" by (auto simp: topicSubscribe_def Let_def case_prod_beta)
  then have step: "tm_step tm (TReq c r env) = Some (tm', [(c, TopicResp (tr_id r) SUCCESS)])"
    using assms(3) by (simp add: ontopicRequest_def topicResponse_def)
  show ?thesis using tm_step_ok [OF assms(1) step] step assms(2-4) by simp
qed

lemma server_broadcasts:
  assumes "tm_inv tm" "tm_abs tm = (T, S)" "tr_optype r = Some PUBLISH" "tr_strategy r = Some BROADCAST" "(tr_key r, c) \<in> S"
  shows "\<exists>tm' ds. ontopicRequest env tm p r = Some (tm', map (\<lambda>d. (d, Forward r)) ds @ [(p, TopicResp (tr_id r) SUCCESS)])
     \<and> distinct ds \<and> c \<in> set ds"
proof -
  obtain t where t: "map_of (tm_topics tm) (tr_key r) = Some t" "c \<in> conn_of tm ` set (t_subs t)"
    using assms(2,5) by (auto simp: tm_abs_def subscriptions_def)
  have "distinct (map (conn_of tm) (t_subs t))"
    using topic_subscribers(3) [OF assms(1) t(1)] tm_inv_distinct [OF assms(1) t(1)] by (simp add: distinct_map)
  moreover have "\<exists>tm'. ontopicRequest env tm p r
      = Some (tm', map (\<lambda>d. (d, Forward r)) (map (conn_of tm) (t_subs t)) @ [(p, TopicResp (tr_id r) SUCCESS)])"
    using assms(3,4) t(1) by (simp add: ontopicRequest_def topicPublish_def dispatchMessage_def broadcastSend_def topicResponse_def)
  ultimately show ?thesis using t(2) by (metis list.set_map)
qed

text \<open>
  Property C13. A subscriber is called: when a client subscribes to a topic that exists on a server
  after any history of requests, the server confirms; and when anyone then publishes to all, the
  server forwards the message to the client exactly once, and the client runs the callback it
  subscribed with, on the topic and the text that were published.
\<close>

theorem subscriber_called:
  assumes "json_api L" "tm_run new_topic_manager es = Some tm" "foldl spec_op ({}, {}) es = (T, S)" "topic_name \<in> T"
    and "in_int32 priority" "topic_reply_ok L reply = Some True" "topic_reply_ok L reply2 = Some ok"
  shows "\<exists>cbs1 d r tm1 d2 r2 tm2 ds.
     subscribeTopic L cbs rid topic_name cb priority tags reply = Some (cbs1, \<lparr>m_type = REQ_TOPIC, m_rid = rid, m_payload = TopicRequest d\<rparr>, True)
     \<and> read_topic L rid d = Some r \<and> ontopicRequest env tm c r = Some (tm1, [(c, TopicResp rid SUCCESS)])
     \<and> publishTopic L rid2 topic_name (default_options\<lparr>to_msg := msg\<rparr>) reply2
          = Some (\<lparr>m_type = REQ_TOPIC, m_rid = rid2, m_payload = TopicRequest d2\<rparr>, ok)
     \<and> read_topic L rid2 d2 = Some r2 \<and> ontopicRequest env2 tm1 p r2 = Some (tm2, ds @ [(p, TopicResp rid2 SUCCESS)])
     \<and> count_list ds (c, Forward r2) = 1 \<and> onTopicPublish L cbs1 d2 = Some (Some (cb, topic_name, msg))"
proof -
  let ?o1 = "default_options\<lparr>to_priority := priority, to_tags := tags\<rparr>" and ?o2 = "default_options\<lparr>to_msg := msg\<rparr>"
  have num: "numbers_ok ?o1" "numbers_ok ?o2" using assms(5) by (simp_all add: numbers_ok_def default_options_def in_int32_def)
  define r r2 where "r = requested rid topic_name SUBSCRIBE ?o1" and "r2 = requested rid2 topic_name PUBLISH ?o2"
  have r: "tr_optype r = Some SUBSCRIBE" "tr_key r = topic_name" "tr_id r = rid" "tr_optype r2 = Some PUBLISH" "tr_key r2 = topic_name"
      "tr_id r2 = rid2" "tr_strategy r2 = Some BROADCAST"
    by (simp_all add: r_def r2_def requested_def default_options_def)
  obtain d where d: "topic_request_body L topic_name SUBSCRIBE ?o1 = Some d" "read_topic L rid d = Some r"
    using json_api.request_read_back [OF assms(1) num(1), of topic_name SUBSCRIBE rid] unfolding r_def by blast
  obtain d2 where d2: "topic_request_body L topic_name PUBLISH ?o2 = Some d2" "read_topic L rid2 d2 = Some r2"
      "TopicRequest_optype L d2 = Some (topic_optype_code PUBLISH)" "TopicRequest_topicKey L d2 = Some topic_name" "TopicRequest_topicMsg L d2 = Some msg"
    using json_api.request_read_back [OF assms(1) num(2), of topic_name PUBLISH rid2] unfolding r2_def by auto
  have "tm_inv tm" "tm_abs tm = (T, S)" using tm_run_new [OF assms(2)] assms(3) by simp_all
  from server_subscribes [OF this r(1), of env c] obtain tm1 where tm1: "ontopicRequest env tm c r = Some (tm1, [(c, TopicResp rid SUCCESS)])"
      "tm_inv tm1" "tm_abs tm1 = (T, insert (topic_name, c) S)"
    using assms(4) r(2,3) by auto
  obtain tm2 ds where tm2: "ontopicRequest env2 tm1 p r2 = Some (tm2, map (\<lambda>d. (d, Forward r2)) ds @ [(p, TopicResp rid2 SUCCESS)])"
      "distinct ds" "c \<in> set ds"
    using server_broadcasts [OF tm1(2,3) r(4,7), of c env2 p] r(5,6) by auto
  have "count_list (map (\<lambda>d. (d, Forward r2)) ds) (c, Forward r2) = 1"
    by (rule count_distinct) (use tm2(2,3) in \<open>auto simp: distinct_map inj_on_def\<close>)
  moreover have "subscribeTopic L cbs rid topic_name cb priority tags reply
      = Some (AList.update topic_name cb cbs, \<lparr>m_type = REQ_TOPIC, m_rid = rid, m_payload = TopicRequest d\<rparr>, True)"
    by (simp add: subscribeTopic_def commonRequest_def d(1) assms(6) cb_addSubscribe_def Let_def)
  moreover have "publishTopic L rid2 topic_name ?o2 reply2 = Some (\<lparr>m_type = REQ_TOPIC, m_rid = rid2, m_payload = TopicRequest d2\<rparr>, ok)"
    by (simp add: publishTopic_def commonRequest_def d2(1) assms(7))
  moreover have "onTopicPublish L (AList.update topic_name cb cbs) d2 = Some (Some (cb, topic_name, msg))"
    by (simp add: onTopicPublish_def d2(3-5) getSubscribe_def update_conv')
  ultimately show ?thesis using d(2) d2(2) tm1(1) tm2(1) by blast
qed

theorem subscriber_called_witness:
  "\<exists>(cbs1 :: nat topic_cbs) d2 req. subscribeTopic (json_tree (\<lambda>_. None) (\<lambda>_. None)) [] ''r'' ''a'' 7 1 []
       (Received \<lparr>m_type = RSP_TOPIC, m_rid = ''r'', m_payload = TopicResponse (JObject [(''rcode'', JInt 0)])\<rparr>) = Some (cbs1, req, True)
     \<and> onTopicPublish (json_tree (\<lambda>_. None) (\<lambda>_. None)) cbs1 d2 = Some (Some (7, ''a'', ''hi''))"
proof -
  let ?L = "json_tree (\<lambda>_. None) (\<lambda>_. None)"
  let ?reply = "Received \<lparr>m_type = RSP_TOPIC, m_rid = ''r'', m_payload = TopicResponse (JObject [(''rcode'', JInt 0)])\<rparr>"
  obtain tm where tm: "tm_run new_topic_manager two_subscribers = Some tm" by (simp add: tm_eval)
  have spec: "foldl spec_op ({}, {}) two_subscribers = ({''a''}, {(''a'', 2), (''a'', 1)})"
    by (simp add: two_subscribers_def t_req_def)
  have ok: "topic_reply_ok ?L ?reply = Some True"
    by (simp add: topic_reply_ok_def JsonResponse_rcode_def get_int_def j_index_def j_get_def json_tree_def keys in_int32_def)
  show ?thesis
    using subscriber_called [OF jt.json_api_axioms tm spec _ _ ok ok, of "''a''" 1 "[]" "''r''" "7 :: nat" "[]" t_env 3 "''s''" "''hi''" t_env 4]
    by (auto simp: in_int32_def)
qed

end
