(* ===== verification/Method_Host.thy ===== *)
theory Method_Host
  imports Config "HOL-Library.Multiset"
begin

text \<open>
  Client-side load balancing over the hosts of one method: class \<open>MethodHost\<close> of
  \<open>rpc/src/client/rpc_registry.hpp\<close>.

  The consistent-hash ring (\<open>std::map\<close>) is a list sorted by key. The hash function is
  a parameter, and so are the values the random generator yields: the position
  a draw picks and the permutation a shuffle applies. \<open>_idx\<close> is a natural number; the
  theorems show it stays below \<open>MAX_IDX\<close>, so the 64-bit counter never wraps.
\<close>

subsection \<open>State\<close>

definition MAX_IDX :: nat where "MAX_IDX = 1000000000"
definition VIRTUAL_NODES :: nat where "VIRTUAL_NODES = 160"
definition INT_MAX :: int where "INT_MAX = 2 ^ 31 - 1"

type_synonym hash_fn = "string \<Rightarrow> u64"
type_synonym hash_ring = "(u64 \<times> nat) list"

record method_host =
  mh_idx :: nat
  mh_host :: "host_detail list"
  mh_ring :: hash_ring
  mh_ring_built :: bool

definition new_method_host :: "host_detail list \<Rightarrow> method_host" where
  "new_method_host hs = \<lparr>mh_idx = 0, mh_host = hs, mh_ring = [], mh_ring_built = False\<rparr>"

definition default_detail :: host_detail where
  "default_detail = \<lparr>hd_host = ([], 0), hd_load = 0\<rparr>"

record draws =
  dr_pos :: nat
  dr_perm :: "nat list"

subsection \<open>The ring\<close>

fun ring_put :: "u64 \<Rightarrow> nat \<Rightarrow> hash_ring \<Rightarrow> hash_ring" where
  "ring_put k i [] = [(k, i)]"
| "ring_put k i ((k', i') # r) =
     (if k < k' then (k, i) # (k', i') # r
      else if k = k' then (k, i) # r
      else (k', i') # ring_put k i r)"

definition vnode_label :: "host_info \<Rightarrow> nat \<Rightarrow> string" where
  "vnode_label h v = hostKey h @ ''#'' @ to_string (int v)"

definition insertNodes :: "hash_fn \<Rightarrow> host_detail list \<Rightarrow> nat \<Rightarrow> hash_ring \<Rightarrow> hash_ring" where
  "insertNodes hash hs i r =
     fold (\<lambda>v. ring_put (hash (vnode_label (hd_host (hs ! i)) v)) i) [0 ..< VIRTUAL_NODES] r"

definition ring_of :: "hash_fn \<Rightarrow> host_detail list \<Rightarrow> hash_ring" where
  "ring_of hash hs = fold (insertNodes hash hs) [0 ..< length hs] []"

definition rebuildRing :: "hash_fn \<Rightarrow> method_host \<Rightarrow> method_host" where
  "rebuildRing hash mh = mh\<lparr>mh_ring := ring_of hash (mh_host mh), mh_ring_built := True\<rparr>"

text \<open>\<open>lower_bound\<close>, wrapping to the start: the ring as a walk from there.\<close>

definition ring_from :: "u64 \<Rightarrow> hash_ring \<Rightarrow> hash_ring" where
  "ring_from x r = dropWhile (\<lambda>e. fst e < x) r @ takeWhile (\<lambda>e. fst e < x) r"

subsection \<open>Adding and removing hosts\<close>

fun set_load :: "host_info \<Rightarrow> int \<Rightarrow> host_detail list \<Rightarrow> host_detail list" where
  "set_load h l [] = []"
| "set_load h l (d # ds) = (if hd_host d = h then d\<lparr>hd_load := l\<rparr> # ds else d # set_load h l ds)"

definition appendHost :: "hash_fn \<Rightarrow> method_host \<Rightarrow> host_info \<Rightarrow> int \<Rightarrow> method_host" where
  "appendHost hash mh h l =
     (if h \<in> set (map hd_host (mh_host mh))
      then mh\<lparr>mh_host := set_load h l (mh_host mh)\<rparr>
      else
        let mh1 = mh\<lparr>mh_host := mh_host mh @ [\<lparr>hd_host = h, hd_load = l\<rparr>]\<rparr> in
        if mh_ring_built mh1
        then mh1\<lparr>mh_ring := insertNodes hash (mh_host mh1) (length (mh_host mh1) - 1) (mh_ring mh1)\<rparr>
        else rebuildRing hash mh1)"

fun erase_host :: "host_info \<Rightarrow> host_detail list \<Rightarrow> host_detail list" where
  "erase_host h [] = []"
| "erase_host h (d # ds) = (if hd_host d = h then ds else d # erase_host h ds)"

definition mh_removeHost :: "hash_fn \<Rightarrow> method_host \<Rightarrow> host_info \<Rightarrow> method_host" where
  "mh_removeHost hash mh h =
     (if h \<in> set (map hd_host (mh_host mh))
      then rebuildRing hash (mh\<lparr>mh_host := erase_host h (mh_host mh)\<rparr>) else mh)"

definition mh_empty :: "method_host \<Rightarrow> bool" where
  "mh_empty mh \<longleftrightarrow> mh_host mh = []"

subsection \<open>Picking one host\<close>

definition bump_idx :: "method_host \<Rightarrow> method_host" where
  "bump_idx mh =
     (let i = mh_idx mh + 1 in
      mh\<lparr>mh_idx := (if i \<ge> MAX_IDX then i mod length (mh_host mh) else i)\<rparr>)"

definition pickRoundRobin :: "method_host \<Rightarrow> method_host \<times> host_detail" where
  "pickRoundRobin mh =
     (if mh_host mh = [] then (mh, default_detail)
      else (bump_idx mh, mh_host mh ! (mh_idx mh mod length (mh_host mh))))"

definition pickRandom :: "draws \<Rightarrow> method_host \<Rightarrow> host_detail" where
  "pickRandom d mh = (if mh_host mh = [] then default_detail else mh_host mh ! dr_pos d)"

definition pickSourceHash :: "hash_fn \<Rightarrow> draws \<Rightarrow> method_host \<Rightarrow> string \<Rightarrow> host_detail" where
  "pickSourceHash hash d mh key =
     (if key = [] then pickRandom d mh
      else if mh_host mh = [] then default_detail
      else mh_host mh ! (unat (hash key) mod length (mh_host mh)))"

fun lowest_scan :: "nat \<Rightarrow> host_detail list \<Rightarrow> int \<Rightarrow> nat list \<Rightarrow> nat list" where
  "lowest_scan i [] best cands = cands"
| "lowest_scan i (d # ds) best cands =
     (if hd_load d < best then lowest_scan (i + 1) ds (hd_load d) [i]
      else if hd_load d = best then lowest_scan (i + 1) ds best (cands @ [i])
      else lowest_scan (i + 1) ds best cands)"

definition pickLowestLoad :: "method_host \<Rightarrow> method_host \<times> host_detail" where
  "pickLowestLoad mh =
     (if mh_host mh = [] then (mh, default_detail)
      else
        let cands = lowest_scan 0 (mh_host mh) INT_MAX [] in
        if cands = [] then (mh, default_detail)
        else (bump_idx mh, mh_host mh ! (cands ! (mh_idx mh mod length cands))))"

definition pickConsistentHash :: "hash_fn \<Rightarrow> draws \<Rightarrow> method_host \<Rightarrow> string \<Rightarrow> host_detail" where
  "pickConsistentHash hash d mh key =
     (if key = [] then pickRandom d mh
      else if mh_ring mh = [] then pickRandom d mh
      else mh_host mh ! snd (hd (ring_from (hash key) (mh_ring mh))))"

definition selectHost ::
  "hash_fn \<Rightarrow> draws \<Rightarrow> method_host \<Rightarrow> load_balance_strategy \<Rightarrow> string \<Rightarrow> method_host \<times> host_detail" where
  "selectHost hash d mh strategy key =
     (if mh_host mh = [] then (mh, default_detail)
      else case strategy of
          load_balance_strategy.ROUND_ROBIN \<Rightarrow> pickRoundRobin mh
        | RANDOM \<Rightarrow> (mh, pickRandom d mh)
        | load_balance_strategy.SOURCE_HASH \<Rightarrow> (mh, pickSourceHash hash d mh key)
        | LOWEST_LOAD \<Rightarrow> pickLowestLoad mh
        | CONSISTENT_HASH \<Rightarrow> (mh, pickConsistentHash hash d mh key))"

definition getHost :: "hash_fn \<Rightarrow> draws \<Rightarrow> method_host \<Rightarrow> method_host \<times> host_info" where
  "getHost hash d mh =
     (let (mh', hd) = selectHost hash d mh load_balance_strategy.ROUND_ROBIN [] in (mh', hd_host hd))"

subsection \<open>Ordered candidate lists\<close>

definition rotation :: "nat \<Rightarrow> 'a list \<Rightarrow> 'a list" where
  "rotation start xs = map (\<lambda>i. xs ! ((start + i) mod length xs)) [0 ..< length xs]"

definition randomOrder :: "draws \<Rightarrow> method_host \<Rightarrow> host_detail list" where
  "randomOrder d mh = map (\<lambda>i. mh_host mh ! i) (dr_perm d)"

fun ring_walk :: "nat list \<Rightarrow> bool list \<Rightarrow> nat \<Rightarrow> nat list" where
  "ring_walk [] seen remaining = []"
| "ring_walk (i # rest) seen remaining =
     (if remaining = 0 then []
      else if \<not> seen ! i then i # ring_walk rest (seen[i := True]) (remaining - 1)
      else ring_walk rest seen remaining)"

definition load_order :: "host_detail list \<Rightarrow> nat list" where
  "load_order hs = sort_key (\<lambda>i. hd_load (hs ! i)) [0 ..< length hs]"

definition best_count :: "host_detail list \<Rightarrow> nat" where
  "best_count hs =
     length (takeWhile (\<lambda>i. hd_load (hs ! i) = hd_load (hs ! hd (load_order hs))) (load_order hs))"

definition selectHosts ::
  "hash_fn \<Rightarrow> draws \<Rightarrow> method_host \<Rightarrow> load_balance_strategy \<Rightarrow> string
     \<Rightarrow> method_host \<times> host_detail list" where
  "selectHosts hash d mh strategy key =
     (let hs = mh_host mh; n = length hs in
      if hs = [] then (mh, [])
      else case strategy of
          load_balance_strategy.ROUND_ROBIN \<Rightarrow> (bump_idx mh, rotation (mh_idx mh mod n) hs)
        | RANDOM \<Rightarrow> (mh, map (\<lambda>i. hs ! i) (dr_perm d))
        | load_balance_strategy.SOURCE_HASH \<Rightarrow>
            (mh, if key = [] then randomOrder d mh else rotation (unat (hash key) mod n) hs)
        | LOWEST_LOAD \<Rightarrow>
            (let order = load_order hs; bc = best_count hs in
             (bump_idx mh,
              map (\<lambda>i. hs ! (order ! ((mh_idx mh + i) mod bc))) [0 ..< bc]
              @ map (\<lambda>i. hs ! (order ! i)) [bc ..< n]))
        | CONSISTENT_HASH \<Rightarrow>
            (mh, if key = [] \<or> mh_ring mh = [] then randomOrder d mh
                 else map (\<lambda>i. hs ! i)
                        (ring_walk (map snd (ring_from (hash key) (mh_ring mh)))
                          (replicate n False) n)))"

subsection \<open>The ring as a finite map\<close>

definition ring_wf :: "hash_ring \<Rightarrow> bool" where
  "ring_wf r \<longleftrightarrow> sorted_wrt (<) (map fst r)"

lemma ring_put_keys: "set (map fst (ring_put k i r)) = insert k (set (map fst r))"
  by (induction k i r rule: ring_put.induct) auto

lemma ring_put_wf: "ring_wf r \<Longrightarrow> ring_wf (ring_put k i r)"
proof (induction k i r rule: ring_put.induct)
  case (2 k i k' i' r)
  then show ?case using ring_put_keys [of k i r] by (auto simp: ring_wf_def)
qed (simp add: ring_wf_def)

lemma map_of_ring_put: "ring_wf r \<Longrightarrow> map_of (ring_put k i r) = (map_of r)(k \<mapsto> i)"
proof (induction k i r rule: ring_put.induct)
  case (2 k i k' i' r)
  then show ?case by (auto simp: ring_wf_def fun_eq_iff)
qed simp

lemma ring_fold_put:
  assumes "ring_wf r"
  shows "ring_wf (fold (\<lambda>v. ring_put (f v) i) vs r)"
    and "map_of (fold (\<lambda>v. ring_put (f v) i) vs r) k = (if k \<in> f ` set vs then Some i else map_of r k)"
  using assms
  by (induction vs arbitrary: r) (auto simp: ring_put_wf map_of_ring_put)

definition vkeys :: "hash_fn \<Rightarrow> host_info \<Rightarrow> u64 set" where
  "vkeys hash h = (\<lambda>v. hash (vnode_label h v)) ` {..< VIRTUAL_NODES}"

lemma insertNodes_map:
  assumes "ring_wf r"
  shows "ring_wf (insertNodes hash hs i r)"
    and "map_of (insertNodes hash hs i r) k
           = (if k \<in> vkeys hash (hd_host (hs ! i)) then Some i else map_of r k)"
  using ring_fold_put [OF assms, of "\<lambda>v. hash (vnode_label (hd_host (hs ! i)) v)" i "[0 ..< VIRTUAL_NODES]"]
  by (simp_all add: insertNodes_def vkeys_def atLeast0LessThan)

lemma ring_of_snoc:
  "ring_of hash (hs @ [d]) = insertNodes hash (hs @ [d]) (length hs) (ring_of hash hs)"
proof -
  have "fold (insertNodes hash (hs @ [d])) [0 ..< length hs] [] = fold (insertNodes hash hs) [0 ..< length hs] []"
    by (intro fold_cong) (auto simp: insertNodes_def nth_append fun_eq_iff)
  then show ?thesis by (simp add: ring_of_def)
qed

lemma ring_of_hosts_cong:
  assumes "map hd_host hs = map hd_host hs'"
  shows "ring_of hash hs = ring_of hash hs'"
proof -
  have len: "length hs = length hs'" using assms by (rule map_eq_imp_length_eq)
  have "hd_host (hs ! i) = hd_host (hs' ! i)" if "i < length hs'" for i
    using assms that len by (metis nth_map)
  then show ?thesis unfolding ring_of_def len
    by (intro fold_cong) (auto simp: insertNodes_def fun_eq_iff)
qed

lemma ring_of_wf: "ring_wf (ring_of hash hs)"
  by (induction hs rule: rev_induct)
    (simp_all add: ring_of_snoc insertNodes_map, simp add: ring_of_def ring_wf_def)

lemma ring_of_index: "map_of (ring_of hash hs) k = Some i \<Longrightarrow>
    i < length hs \<and> k \<in> vkeys hash (hd_host (hs ! i))"
proof (induction hs rule: rev_induct)
  case (snoc d hs)
  then show ?case
    by (auto simp: ring_of_snoc insertNodes_map(2) [OF ring_of_wf] nth_append split: if_splits)
qed (simp add: ring_of_def)

lemma ring_of_keys:
  "set (map fst (ring_of hash hs)) = (\<Union>d \<in> set hs. vkeys hash (hd_host d))"
proof -
  have "dom (map_of (ring_of hash hs)) = (\<Union>d \<in> set hs. vkeys hash (hd_host d))"
  proof (induction hs rule: rev_induct)
    case (snoc d hs)
    have "dom (map_of (ring_of hash (hs @ [d])))
        = vkeys hash (hd_host d) \<union> dom (map_of (ring_of hash hs))"
      by (auto simp: ring_of_snoc insertNodes_map(2) [OF ring_of_wf] dom_def)
    then show ?case using snoc by auto
  qed (simp add: ring_of_def)
  then show ?thesis by (simp add: dom_map_of_conv_image_fst)
qed

text \<open>No two virtual nodes of the given hosts share a hash value.\<close>

definition collision_free :: "hash_fn \<Rightarrow> host_info set \<Rightarrow> bool" where
  "collision_free hash H \<longleftrightarrow>
     inj_on hash ((\<lambda>(h, v). vnode_label h v) ` (H \<times> {..< VIRTUAL_NODES}))"

lemma to_string_no_hash: "CHR ''#'' \<notin> set (to_string (int v))"
proof -
  have "digit_char d \<noteq> CHR ''#''" if "d < 10" for d
  proof -
    have "of_char (digit_char d) = 48 + d" using that by (simp add: digit_char_def)
    then show ?thesis using that by (auto dest: arg_cong [where f = "of_char :: char \<Rightarrow> nat"])
  qed
  then show ?thesis using set_dec_nat [of v] by (fastforce simp: to_string_def)
qed

lemma vnode_label_inj: "vnode_label h v = vnode_label h' v' \<longleftrightarrow> h = h' \<and> v = v'"
  using append_sep_inj [OF to_string_no_hash [of v] to_string_no_hash [of v'], of "hostKey h" "hostKey h'"]
  by (auto simp: vnode_label_def hostKey_eq_iff to_string_inj)

lemma vkeys_disjoint:
  assumes "collision_free hash H" "h \<in> H" "h' \<in> H" "k \<in> vkeys hash h" "k \<in> vkeys hash h'"
  shows "h = h'"
proof -
  obtain v where v1: "k = hash (vnode_label h v)" "v < VIRTUAL_NODES"
    using assms(4) by (auto simp: vkeys_def)
  obtain v' where v2: "k = hash (vnode_label h' v')" "v' < VIRTUAL_NODES"
    using assms(5) by (auto simp: vkeys_def)
  have lab: "vnode_label h v \<in> (\<lambda>(h, v). vnode_label h v) ` (H \<times> {..< VIRTUAL_NODES})"
    if "h \<in> H" "v < VIRTUAL_NODES" for h v
    using that by (intro image_eqI [where x = "(h, v)"]) auto
  have "vnode_label h v = vnode_label h' v'"
    by (rule inj_onD [OF assms(1) [unfolded collision_free_def]])
      (use v1 v2 assms(2,3) lab in auto)
  then show ?thesis by (simp add: vnode_label_inj)
qed

lemma ring_of_owner:
  assumes "collision_free hash (set (map hd_host hs))" "distinct (map hd_host hs)"
    and "i < length hs" "k \<in> vkeys hash (hd_host (hs ! i))"
  shows "map_of (ring_of hash hs) k = Some i"
proof -
  have "k \<in> set (map fst (ring_of hash hs))"
    unfolding ring_of_keys using assms(3,4) by auto
  then have "k \<in> dom (map_of (ring_of hash hs))" by (simp add: dom_map_of_conv_image_fst)
  then obtain j where j: "map_of (ring_of hash hs) k = Some j" by auto
  note jj = ring_of_index [OF j]
  then have "hd_host (hs ! i) = hd_host (hs ! j)"
    using vkeys_disjoint [OF assms(1) _ _ assms(4)] assms(3) by auto
  then have "i = j" using assms(2,3) jj nth_eq_iff_index_eq [OF assms(2), of i j] by simp
  then show ?thesis using j by simp
qed

subsection \<open>The incremental ring is the rebuilt ring\<close>

lemma set_load_hosts [simp]: "map hd_host (set_load h l hs) = map hd_host hs"
  by (induction h l hs rule: set_load.induct) auto

lemma ring_of_set_load [simp]: "ring_of hash (set_load h l hs) = ring_of hash hs"
  by (rule ring_of_hosts_cong) simp

lemma erase_host_hosts: "map hd_host (erase_host h hs) = remove1 h (map hd_host hs)"
  by (induction h hs rule: erase_host.induct) auto

definition mh_inv :: "hash_fn \<Rightarrow> method_host \<Rightarrow> bool" where
  "mh_inv hash mh \<longleftrightarrow> distinct (map hd_host (mh_host mh))
     \<and> mh_ring mh = ring_of hash (mh_host mh)"

lemma mh_inv_new: "mh_inv hash (new_method_host [])"
  by (simp add: mh_inv_def new_method_host_def ring_of_def)

lemma mh_inv_append:
  assumes "mh_inv hash mh"
  shows "mh_inv hash (appendHost hash mh h l)"
  using assms
  by (auto simp: mh_inv_def appendHost_def rebuildRing_def Let_def ring_of_snoc)

lemma mh_inv_remove: "mh_inv hash mh \<Longrightarrow> mh_inv hash (mh_removeHost hash mh h)"
  by (auto simp: mh_inv_def mh_removeHost_def rebuildRing_def erase_host_hosts)

lemma bump_idx_simps [simp]:
  "mh_host (bump_idx mh) = mh_host mh" "mh_ring (bump_idx mh) = mh_ring mh"
  "mh_ring_built (bump_idx mh) = mh_ring_built mh"
  by (simp_all add: bump_idx_def Let_def)

lemma selectHosts_state:
  "mh_host (fst (selectHosts hash d mh st key)) = mh_host mh"
  "mh_ring (fst (selectHosts hash d mh st key)) = mh_ring mh"
  by (auto simp: selectHosts_def Let_def split: load_balance_strategy.splits)

datatype mh_op = Append host_info int | Remove host_info | Select load_balance_strategy string draws

fun mh_exec :: "hash_fn \<Rightarrow> method_host \<Rightarrow> mh_op \<Rightarrow> method_host" where
  "mh_exec hash mh (Append h l) = appendHost hash mh h l"
| "mh_exec hash mh (Remove h) = mh_removeHost hash mh h"
| "mh_exec hash mh (Select st key d) = fst (selectHosts hash d mh st key)"

lemma mh_inv_exec: "mh_inv hash mh \<Longrightarrow> mh_inv hash (mh_exec hash mh op)"
  by (cases op) (simp_all add: mh_inv_append mh_inv_remove, simp add: mh_inv_def selectHosts_state)

text \<open>
  Property C26. The incremental ring is the full ring: after any sequence of host additions,
  load updates, removals and selections, hosts are distinct and the hash ring
  (maintained by inserting only the nodes of a new host) equals the ring built from
  scratch for the current hosts, for any hash function, collisions included.
\<close>

theorem ring_incremental_eq_rebuild:
  "let mh = foldl (mh_exec hash) (new_method_host []) ops in
   distinct (map hd_host (mh_host mh)) \<and> mh_ring mh = mh_ring (rebuildRing hash mh)"
proof -
  have "mh_inv hash (foldl (mh_exec hash) mh ops)" if "mh_inv hash mh" for mh
    using that by (induction ops arbitrary: mh) (auto intro: mh_inv_exec)
  from this [OF mh_inv_new] show ?thesis by (simp add: mh_inv_def rebuildRing_def Let_def)
qed

subsection \<open>Candidate lists are permutations of the hosts\<close>

definition draws_ok :: "nat \<Rightarrow> draws \<Rightarrow> bool" where
  "draws_ok n d \<longleftrightarrow> dr_perm d \<noteq> [] \<and> dr_pos d = hd (dr_perm d) \<and> mset (dr_perm d) = mset [0 ..< n]"

lemma rotation_rotate: "rotation s xs = rotate s xs"
  by (rule nth_equalityI) (simp_all add: rotation_def nth_rotate)

lemma mset_rotation [simp]: "mset (rotation s xs) = mset xs"
  by (metis rotation_rotate rotate_drop_take mset_append union_commute append_take_drop_id)

lemma mset_map_nth: "mset is = mset [0 ..< length hs] \<Longrightarrow> mset (map (\<lambda>i. hs ! i) is) = mset hs"
  by (metis map_nth mset_map)

lemma count_unseen_update:
  assumes "i < length seen" "\<not> seen ! i"
  shows "length (filter Not (seen[i := True])) = length (filter Not seen) - 1"
proof -
  obtain ys zs where "seen = ys @ False # zs" "length ys = i"
    using assms id_take_nth_drop [OF assms(1)] by (metis (full_types) length_take less_imp_le min.absorb2)
  then show ?thesis by (auto simp: list_update_append)
qed

lemma ring_walk_spec:
  assumes "list_all (\<lambda>i. i < length seen) is" "remaining = length (filter Not seen)"
  shows "distinct (ring_walk is seen remaining)
       \<and> set (ring_walk is seen remaining) = {i \<in> set is. \<not> seen ! i}"
  using assms
proof (induction "is" arbitrary: seen remaining)
  case (Cons i rest)
  show ?case
  proof (cases "remaining = 0")
    case True
    then have "\<forall>x \<in> set seen. x" using Cons.prems(2) by (simp add: filter_empty_conv)
    then have "\<not> (j < length seen \<and> \<not> seen ! j)" for j by auto
    then show ?thesis using True Cons.prems(1) by (auto simp: list_all_iff)
  next
    case False
    show ?thesis
    proof (cases "seen ! i")
      case True
      then show ?thesis using Cons.IH [of seen remaining] Cons.prems False by auto
    next
      case unseen: False
      have "list_all (\<lambda>j. j < length (seen[i := True])) rest" using Cons.prems(1) by simp
      note IH = Cons.IH [OF this, of "remaining - 1"]
      have i: "i < length seen" using Cons.prems(1) by simp
      show ?thesis using IH count_unseen_update [OF i unseen] Cons.prems(2) False unseen i
        by (auto simp: nth_list_update)
    qed
  qed
qed simp

lemma set_ring_from: "set (ring_from x r) = set r"
proof -
  have "set r = set (takeWhile (\<lambda>e. fst e < x) r) \<union> set (dropWhile (\<lambda>e. fst e < x) r)"
    by (simp only: set_append [symmetric] takeWhile_dropWhile_id)
  then show ?thesis by (auto simp: ring_from_def)
qed

lemma walk_covers:
  assumes "mh_inv hash mh" "collision_free hash (set (map hd_host (mh_host mh)))"
  shows "mset (ring_walk (map snd (ring_from x (mh_ring mh)))
      (replicate (length (mh_host mh)) False) (length (mh_host mh))) = mset [0 ..< length (mh_host mh)]"
proof -
  let ?hs = "mh_host mh" let ?n = "length ?hs"
  let ?is = "map snd (ring_from x (mh_ring mh))"
  have ring: "mh_ring mh = ring_of hash ?hs" "distinct (map hd_host ?hs)"
    using assms(1) by (auto simp: mh_inv_def)
  have dist: "distinct (map fst (ring_of hash ?hs))"
    using ring_of_wf [of hash ?hs] by (auto simp: ring_wf_def strict_sorted_iff)
  have mem: "i \<in> set ?is \<longleftrightarrow> (\<exists>k. map_of (ring_of hash ?hs) k = Some i)" for i
    using map_of_eq_Some_iff [OF dist] by (force simp: set_ring_from ring)
  then have lt: "i < ?n" if "i \<in> set ?is" for i
    using that ring_of_index by blast
  have "i \<in> set ?is" if "i < ?n" for i
  proof -
    have "hash (vnode_label (hd_host (?hs ! i)) 0) \<in> vkeys hash (hd_host (?hs ! i))"
      by (simp add: vkeys_def VIRTUAL_NODES_def)
    from ring_of_owner [OF assms(2) ring(2) that this]
    show ?thesis using mem by blast
  qed
  then have "set ?is = {..< ?n}" using lt by auto
  moreover have "list_all (\<lambda>i. i < length (replicate ?n False)) ?is"
    using lt by (auto simp: list_all_iff)
  ultimately show ?thesis
    using ring_walk_spec [of "replicate ?n False" ?is ?n]
    by (intro set_eq_iff_mset_eq_distinct [THEN iffD1]) (auto simp: filter_replicate)
qed

lemma load_order_mset: "mset (load_order hs) = mset [0 ..< length hs]"
  by (simp add: load_order_def)

lemma best_count_le: "best_count hs \<le> length (load_order hs)"
  by (simp add: best_count_def length_takeWhile_le)

lemma lowest_candidates_mset:
  fixes hs :: "host_detail list"
  defines "order \<equiv> load_order hs" and "bc \<equiv> best_count hs"
  shows "mset (map (\<lambda>i. hs ! (order ! ((s + i) mod bc))) [0 ..< bc]
           @ map (\<lambda>i. hs ! (order ! i)) [bc ..< length hs]) = mset hs"
proof -
  have bc: "bc \<le> length order" and n: "length order = length hs"
    using best_count_le [of hs] mset_eq_length [OF load_order_mset [of hs]]
    by (simp_all add: bc_def order_def)
  have "map (\<lambda>i. hs ! (order ! ((s + i) mod bc))) [0 ..< bc]
      = map (\<lambda>j. hs ! j) (rotation s (take bc order))"
    using bc by (auto simp: rotation_def min_def)
  moreover have "map (\<lambda>i. hs ! (order ! i)) [bc ..< length hs] = map (\<lambda>j. hs ! j) (drop bc order)"
    using n bc by (auto intro!: nth_equalityI)
  ultimately have "mset (map (\<lambda>i. hs ! (order ! ((s + i) mod bc))) [0 ..< bc]
           @ map (\<lambda>i. hs ! (order ! i)) [bc ..< length hs])
      = mset (map (\<lambda>j. hs ! j) (take bc order) @ map (\<lambda>j. hs ! j) (drop bc order))"
    by simp
  also have "\<dots> = mset hs"
    using mset_map_nth [OF load_order_mset [of hs]]
    by (simp only: map_append [symmetric] append_take_drop_id order_def)
  finally show ?thesis .
qed

text \<open>
  Remark. A candidate list for retries is a permutation of the method's hosts under every
  strategy: every host appears, and none appears twice, so a caller that walks the list tries
  every host once. For the consistent-hash strategy this needs that no two virtual nodes of
  the hosts collide; for the random ones that a shuffle permutes.
\<close>

theorem selectHosts_permutation:
  assumes "mh_inv hash mh" "collision_free hash (set (map hd_host (mh_host mh)))"
    and "draws_ok (length (mh_host mh)) d"
  shows "mset (snd (selectHosts hash d mh st key)) = mset (mh_host mh)"
proof -
  let ?hs = "mh_host mh"
  have perm: "mset (map (\<lambda>i. ?hs ! i) (dr_perm d)) = mset ?hs"
    using assms(3) by (intro mset_map_nth) (simp add: draws_ok_def)
  have walk: "mset (map (\<lambda>i. ?hs ! i) (ring_walk (map snd (ring_from (hash key) (mh_ring mh)))
      (replicate (length ?hs) False) (length ?hs))) = mset ?hs"
    by (rule mset_map_nth [OF walk_covers [OF assms(1,2)]])
  show ?thesis
    using perm walk lowest_candidates_mset [of ?hs]
    by (cases st) (auto simp: selectHosts_def Let_def randomOrder_def)
qed

text \<open>A concrete hash that tells the virtual nodes of one-letter hosts apart.\<close>

definition demo_hash :: hash_fn where
  "demo_hash s = of_nat (undec (drop 4 s) + 1000 * of_char (hd s))"

definition demo_host :: "char \<Rightarrow> int \<Rightarrow> host_detail" where
  "demo_host c l = \<lparr>hd_host = ([c], 1), hd_load = l\<rparr>"

definition demo_mh :: method_host where
  "demo_mh = rebuildRing demo_hash
     (new_method_host [demo_host (CHR ''a'') 7, demo_host (CHR ''b'') 3])"

lemma demo_hash_label: "demo_hash (vnode_label ([c], 1) v) = of_nat (v + 1000 * of_char c)"
proof -
  have "to_string 1 = [digit_char 1]" by (simp add: to_string_def dec_nat.simps [of "Suc 0"])
  then show ?thesis by (simp add: demo_hash_def vnode_label_def hostKey_def to_string_def)
qed

lemma demo_hash_val:
  assumes "v < 160"
  shows "unat (demo_hash (vnode_label ([c], 1) v)) = v + 1000 * of_char c"
proof -
  have "of_char c < (256 :: nat)" by simp
  then have "v + 1000 * of_char c < (300000 :: nat)" using assms by linarith
  also have "\<dots> < 2 ^ 64" by simp
  finally have "v + 1000 * of_char c < (2 :: nat) ^ 64" .
  then show ?thesis by (simp only: demo_hash_label unat_of_nat_small)
qed

lemma demo_collision_free: "collision_free demo_hash {([CHR ''a''], 1), ([CHR ''b''], 1)}"
proof -
  have key: "v = v' \<and> c = c'"
    if "demo_hash (vnode_label ([c], 1) v) = demo_hash (vnode_label ([c'], 1) v')"
      "v < 160" "v' < 160" for c c' v v'
  proof -
    define a b :: nat where "a = of_char c" and "b = of_char c'"
    have e: "v + 1000 * a = v' + 1000 * b"
      unfolding a_def b_def demo_hash_val [OF that(2), symmetric] demo_hash_val [OF that(3), symmetric] that(1) ..
    have "a = b" using e that(2,3) by linarith
    then show ?thesis using e by (simp add: a_def b_def)
  qed
  have lab: "\<exists>c v. x = vnode_label ([c], 1) v \<and> v < 160"
    if "x \<in> (\<lambda>(h, v). vnode_label h v) ` ({([CHR ''a''], 1), ([CHR ''b''], 1)} \<times> {..< VIRTUAL_NODES})" for x
  proof -
    from that obtain p where p: "x = (\<lambda>(h, v). vnode_label h v) p"
      "fst p \<in> {([CHR ''a''], 1), ([CHR ''b''], 1)}" "snd p < VIRTUAL_NODES"
      by (rule imageE) (auto simp: mem_Times_iff)
    then obtain c where "fst p = ([c], 1)" by blast
    then have "x = vnode_label ([c], 1) (snd p) \<and> snd p < 160"
      using p(1,3) by (simp add: VIRTUAL_NODES_def case_prod_beta)
    then show ?thesis by blast
  qed
  show ?thesis unfolding collision_free_def
  proof (rule inj_onI)
    fix x y
    assume xy: "x \<in> (\<lambda>(h, v). vnode_label h v) ` ({([CHR ''a''], 1), ([CHR ''b''], 1)} \<times> {..< VIRTUAL_NODES})"
      "y \<in> (\<lambda>(h, v). vnode_label h v) ` ({([CHR ''a''], 1), ([CHR ''b''], 1)} \<times> {..< VIRTUAL_NODES})"
      and eq: "demo_hash x = demo_hash y"
    obtain c v where x: "x = vnode_label ([c], 1) v" "v < 160" using lab [OF xy(1)] by blast
    obtain c' v' where y: "y = vnode_label ([c'], 1) v'" "v' < 160" using lab [OF xy(2)] by blast
    show "x = y" using key [of c v c' v'] eq x y by simp
  qed
qed

lemma demo_mh_host: "mh_host demo_mh = [demo_host (CHR ''a'') 7, demo_host (CHR ''b'') 3]"
  by (simp add: demo_mh_def rebuildRing_def new_method_host_def)

lemma demo_mh_hosts: "map hd_host (mh_host demo_mh) = [([CHR ''a''], 1), ([CHR ''b''], 1)]"
  by (simp add: demo_mh_host demo_host_def)

lemma demo_mh_inv: "mh_inv demo_hash demo_mh"
  by (simp add: mh_inv_def demo_mh_hosts) (simp add: demo_mh_def rebuildRing_def)

lemma demo_mh_collision_free: "collision_free demo_hash (set (map hd_host (mh_host demo_mh)))"
  unfolding demo_mh_hosts using demo_collision_free by simp

lemmas demo_mh_facts = demo_mh_inv demo_mh_collision_free demo_mh_host

theorem selectHosts_permutation_witness:
  "mset (snd (selectHosts demo_hash \<lparr>dr_pos = 1, dr_perm = [1, 0]\<rparr> demo_mh CONSISTENT_HASH ''k''))
     = mset (mh_host demo_mh)"
  by (rule selectHosts_permutation [OF demo_mh_inv demo_mh_collision_free])
    (simp add: demo_mh_host draws_ok_def)

subsection \<open>The first candidate is the single selection\<close>

fun hits :: "nat \<Rightarrow> host_detail list \<Rightarrow> int \<Rightarrow> nat list" where
  "hits i [] m = []"
| "hits i (d # ds) m = (if hd_load d = m then [i] else []) @ hits (i + 1) ds m"

definition min_load :: "host_detail list \<Rightarrow> int \<Rightarrow> int" where
  "min_load ds best = fold (\<lambda>d. min (hd_load d)) ds best"

lemma min_load_le: "min_load ds best \<le> best"
proof (induction ds arbitrary: best)
  case (Cons d ds)
  show ?case using Cons [of "min (hd_load d) best"] by (simp add: min_load_def)
qed (simp add: min_load_def)

lemma min_load_member: "d \<in> set ds \<Longrightarrow> min_load ds best \<le> hd_load d"
proof (induction ds arbitrary: best)
  case (Cons x ds)
  have "min_load (x # ds) best = min_load ds (min (hd_load x) best)" by (simp add: min_load_def)
  then show ?case
    using Cons min_load_le [of ds "min (hd_load x) best"] by auto
qed simp

lemma lowest_scan_hits:
  "lowest_scan i ds best cands =
     (if min_load ds best < best then [] else cands) @ hits i ds (min_load ds best)"
proof (induction i ds best cands rule: lowest_scan.induct)
  case (2 i d ds best cands)
  have m: "min_load (d # ds) best = min_load ds (min (hd_load d) best)" by (simp add: min_load_def)
  show ?case
    using 2 min_load_le [of ds "hd_load d"] min_load_le [of ds best] by (auto simp: m min_def)
qed (simp add: min_load_def)

lemma hits_filter:
  "hits i ds m = filter (\<lambda>j. hd_load (ds ! (j - i)) = m) [i ..< i + length ds]"
proof (induction ds arbitrary: i)
  case (Cons d ds)
  have "filter (\<lambda>j. hd_load ((d # ds) ! (j - i)) = m) [Suc i ..< Suc i + length ds]
      = filter (\<lambda>j. hd_load (ds ! (j - Suc i)) = m) [Suc i ..< Suc i + length ds]"
    by (intro filter_cong) (auto simp: nth_Cons' Suc_le_eq)
  moreover have "[i ..< i + length (d # ds)] = i # [Suc i ..< Suc i + length ds]"
    by (simp add: upt_rec)
  ultimately show ?case using Cons [of "Suc i"] by (simp del: upt_Suc)
qed simp

lemma takeWhile_hd_sorted:
  assumes "sorted (map f ys)"
  shows "takeWhile (\<lambda>i. f i = f (hd ys)) ys = filter (\<lambda>i. f i = f (hd ys)) ys"
proof (cases ys)
  case (Cons y zs)
  have "takeWhile (\<lambda>i. f i = k) zs = filter (\<lambda>i. f i = k) zs"
    if "sorted (map f zs)" "\<forall>z \<in> set zs. k \<le> f z" for k
    using that
  proof (induction zs)
    case (Cons a zs)
    show ?case
    proof (cases "f a = k")
      case False
      then have "\<forall>z \<in> set zs. f z \<noteq> k" using Cons.prems by fastforce
      then show ?thesis using False by (simp add: filter_empty_conv)
    qed (use Cons in simp)
  qed simp
  then show ?thesis using assms Cons by simp
qed simp

lemma best_group:
  assumes "hs \<noteq> []"
  defines "f \<equiv> \<lambda>i. hd_load (hs ! i)"
  shows "take (best_count hs) (load_order hs)
           = filter (\<lambda>i. f i = f (hd (load_order hs))) [0 ..< length hs]"
    and "\<forall>d \<in> set hs. f (hd (load_order hs)) \<le> hd_load d"
    and "hd (load_order hs) < length hs"
proof -
  let ?o = "load_order hs"
  have o: "?o = sort_key f [0 ..< length hs]" by (simp add: load_order_def f_def)
  have srt: "sorted (map f ?o)" by (simp add: o)
  have "take (best_count hs) ?o = takeWhile (\<lambda>i. f i = f (hd ?o)) ?o"
    by (simp add: best_count_def f_def flip: takeWhile_eq_take)
  also have "\<dots> = filter (\<lambda>i. f i = f (hd ?o)) ?o" by (rule takeWhile_hd_sorted [OF srt])
  finally show "take (best_count hs) ?o = filter (\<lambda>i. f i = f (hd ?o)) [0 ..< length hs]"
    by (simp add: o sort_key_stable)
  have so: "set ?o = {0 ..< length hs}" by (simp add: o)
  then have ne: "?o \<noteq> []" using assms(1) by fastforce
  then show "hd ?o < length hs" using so hd_in_set by fastforce
  have "f (hd ?o) \<le> f i" if "i \<in> set ?o" for i
    using that srt by (cases ?o) auto
  then show "\<forall>d \<in> set hs. f (hd ?o) \<le> hd_load d"
    using so by (auto simp: in_set_conv_nth f_def)
qed

lemma lowest_scan_best:
  assumes "hs \<noteq> []" "\<forall>d \<in> set hs. hd_load d \<le> INT_MAX"
  shows "lowest_scan 0 hs INT_MAX [] = take (best_count hs) (load_order hs)"
proof -
  define m where "m = hd_load (hs ! hd (load_order hs))"
  note g = best_group [OF assms(1)]
  have mem: "hs ! hd (load_order hs) \<in> set hs" using g(3) by simp
  have "m \<le> min_load hs INT_MAX"
  proof -
    have "m \<le> min_load ds best" if "\<forall>d \<in> set ds. m \<le> hd_load d" "m \<le> best" for ds best
      using that by (induction ds arbitrary: best) (auto simp: min_load_def)
    then show ?thesis using g(2) assms(2) mem by (auto simp: m_def)
  qed
  moreover have "min_load hs INT_MAX \<le> m" using min_load_member [OF mem] by (simp add: m_def)
  ultimately have "min_load hs INT_MAX = m" by simp
  then show ?thesis using g(1) by (simp add: lowest_scan_hits hits_filter m_def)
qed

lemma hd_rotation: "xs \<noteq> [] \<Longrightarrow> hd (rotation s xs) = xs ! (s mod length xs)"
  by (simp add: rotation_def hd_map upt_conv_Cons)

lemma hd_walk:
  assumes "r \<noteq> []" "0 < n" "\<forall>e \<in> set r. snd e < n"
  shows "\<exists>rest. ring_walk (map snd (ring_from x r)) (replicate n False) n = snd (hd (ring_from x r)) # rest"
proof -
  have "ring_from x r \<noteq> []" using assms(1) set_ring_from [of x r] by (metis set_empty)
  then obtain e es where e: "ring_from x r = e # es" by (cases "ring_from x r") auto
  then have "snd e < n" using assms(3) set_ring_from [of x r] by (metis list.set_intros(1))
  then show ?thesis using assms(2) e by simp
qed

lemma best_count_pos: "hs \<noteq> [] \<Longrightarrow> 0 < best_count hs"
  using mset_eq_length [OF load_order_mset [of hs]]
  by (cases "load_order hs") (auto simp: best_count_def)

text \<open>
  Remark. The first candidate is the single selection: for every strategy the list
  version returns, in first position, the host the single selection returns in the same
  state, and both leave the same state behind.
\<close>

theorem selectHosts_head:
  assumes "mh_inv hash mh" "mh_host mh \<noteq> []" "draws_ok (length (mh_host mh)) d"
    and "\<forall>hd \<in> set (mh_host mh). hd_load hd \<le> INT_MAX"
  shows "selectHost hash d mh st key =
           (fst (selectHosts hash d mh st key), hd (snd (selectHosts hash d mh st key)))"
proof -
  let ?hs = "mh_host mh" let ?n = "length ?hs"
  have rnd: "pickRandom d mh = hd (map (\<lambda>i. ?hs ! i) (dr_perm d))"
    using assms(2,3) by (simp add: pickRandom_def draws_ok_def hd_map)
  have low: "lowest_scan 0 ?hs INT_MAX [] = take (best_count ?hs) (load_order ?hs)"
    "take (best_count ?hs) (load_order ?hs) \<noteq> []"
    "length (take (best_count ?hs) (load_order ?hs)) = best_count ?hs"
    using lowest_scan_best [OF assms(2,4)] best_count_pos [OF assms(2)] best_count_le [of ?hs] by auto
  have idx: "\<forall>e \<in> set (mh_ring mh). snd e < ?n"
  proof -
    have "distinct (map fst (ring_of hash ?hs))"
      using ring_of_wf [of hash ?hs] by (auto simp: ring_wf_def strict_sorted_iff)
    then show ?thesis using assms(1) ring_of_index [of hash ?hs]
      by (auto simp: mh_inv_def dest!: map_of_is_SomeI)
  qed
  show ?thesis
  proof (cases st)
    case LOWEST_LOAD
    then show ?thesis using low assms(2) best_count_pos [OF assms(2)]
      by (simp add: selectHost_def selectHosts_def pickLowestLoad_def Let_def hd_append hd_map upt_conv_Cons)
  next
    case CONSISTENT_HASH
    then show ?thesis using hd_walk [of "mh_ring mh" ?n "hash key"] idx assms(2) rnd
      by (auto simp: selectHost_def selectHosts_def pickConsistentHash_def randomOrder_def Let_def)
  qed (use assms(2) rnd in \<open>auto simp: selectHost_def selectHosts_def pickRoundRobin_def
      pickSourceHash_def randomOrder_def Let_def hd_rotation\<close>)
qed

theorem selectHosts_head_witness:
  "selectHost demo_hash \<lparr>dr_pos = 1, dr_perm = [1, 0]\<rparr> demo_mh LOWEST_LOAD [] =
     (fst (selectHosts demo_hash \<lparr>dr_pos = 1, dr_perm = [1, 0]\<rparr> demo_mh LOWEST_LOAD []),
      hd (snd (selectHosts demo_hash \<lparr>dr_pos = 1, dr_perm = [1, 0]\<rparr> demo_mh LOWEST_LOAD [])))"
  by (rule selectHosts_head [OF demo_mh_inv])
    (simp_all add: demo_mh_host draws_ok_def demo_host_def INT_MAX_def)

subsection \<open>Round robin is fair\<close>

fun rr_run :: "hash_fn \<Rightarrow> draws \<Rightarrow> method_host \<Rightarrow> nat \<Rightarrow> method_host \<times> host_detail list" where
  "rr_run hash d mh 0 = (mh, [])"
| "rr_run hash d mh (Suc k) =
     (let (mh1, h) = selectHost hash d mh load_balance_strategy.ROUND_ROBIN [];
          (mh2, hs) = rr_run hash d mh1 k in (mh2, h # hs))"

lemma bump_idx_mod:
  "mh_idx (bump_idx mh) mod length (mh_host mh) = (mh_idx mh + 1) mod length (mh_host mh)"
  by (simp add: bump_idx_def Let_def)

lemma bump_idx_bound:
  assumes "mh_idx mh < MAX_IDX" "mh_host mh \<noteq> []" "length (mh_host mh) \<le> MAX_IDX"
  shows "mh_idx (bump_idx mh) < MAX_IDX"
proof -
  have "(mh_idx mh + 1) mod length (mh_host mh) < length (mh_host mh)"
    using assms(2) by (intro mod_less_divisor) simp
  then have "(mh_idx mh + 1) mod length (mh_host mh) < MAX_IDX" using assms(3) by linarith
  then show ?thesis by (simp add: bump_idx_def Let_def)
qed

lemma rr_run_seq:
  assumes "mh_host mh \<noteq> []"
  shows "snd (rr_run hash d mh k)
       = map (\<lambda>j. mh_host mh ! ((mh_idx mh + j) mod length (mh_host mh))) [0 ..< k]"
  using assms
proof (induction k arbitrary: mh)
  case (Suc k)
  let ?hs = "mh_host mh"
  have sel: "selectHost hash d mh load_balance_strategy.ROUND_ROBIN []
      = (bump_idx mh, ?hs ! (mh_idx mh mod length ?hs))"
    using Suc.prems by (simp add: selectHost_def pickRoundRobin_def)
  have "(mh_idx (bump_idx mh) + j) mod length ?hs = (mh_idx mh + Suc j) mod length ?hs" for j
    using bump_idx_mod [of mh] by (metis add_Suc_shift mod_add_left_eq Suc_eq_plus1)
  then have "snd (rr_run hash d (bump_idx mh) k)
      = map (\<lambda>j. ?hs ! ((mh_idx mh + Suc j) mod length ?hs)) [0 ..< k]"
    using Suc.IH [of "bump_idx mh"] Suc.prems by simp
  then show ?case
    by (simp add: sel Let_def case_prod_beta map_upt_Suc del: upt_Suc)
qed simp

lemma rr_run_bound:
  assumes "mh_idx mh < MAX_IDX" "mh_host mh \<noteq> []" "length (mh_host mh) \<le> MAX_IDX"
  shows "mh_idx (fst (rr_run hash d mh k)) < MAX_IDX"
  using assms
proof (induction k arbitrary: mh)
  case (Suc k)
  then show ?case using Suc.IH [of "bump_idx mh"] bump_idx_bound [of mh]
    by (simp add: selectHost_def pickRoundRobin_def Let_def case_prod_beta)
qed simp

lemma count_cycles:
  assumes "distinct hs" "h \<in> set hs"
  shows "count (mset (map (\<lambda>j. hs ! ((s + j) mod length hs)) [0 ..< c * length hs])) h = c"
proof (induction c arbitrary: s)
  case (Suc c)
  let ?f = "\<lambda>j. hs ! ((s + j) mod length hs)"
  have "[0 ..< Suc c * length hs] = [0 ..< length hs] @ map (\<lambda>j. j + length hs) [0 ..< c * length hs]"
    by (simp add: map_add_upt upt_add_eq_append [of 0 "length hs" "c * length hs", simplified] add.commute)
  then have "map ?f [0 ..< Suc c * length hs] = rotation s hs @ map ?f [0 ..< c * length hs]"
    by (simp add: rotation_def comp_def flip: add.assoc)
  then show ?case using Suc [of s] assms by (simp add: distinct_count_atmost_1)
qed simp

text \<open>
  Property C24. Round robin is fair: over any \<open>c\<close> full turns over a list of different hosts (at
  most \<open>MAX_IDX\<close> of them, which is a billion) every host is selected exactly \<open>c\<close> times, from any
  index below \<open>MAX_IDX\<close> and also across the reset of the index there, and the index stays
  below that limit, so the counter never overflows.
\<close>

theorem round_robin_fair:
  assumes "h \<in> set (mh_host mh)" "distinct (mh_host mh)" "mh_idx mh < MAX_IDX"
    and "length (mh_host mh) \<le> MAX_IDX"
  shows "count (mset (snd (rr_run hash d mh (c * length (mh_host mh))))) h = c
       \<and> mh_idx (fst (rr_run hash d mh k)) < MAX_IDX"
proof -
  have ne: "mh_host mh \<noteq> []" using assms(1) by auto
  show ?thesis
    using count_cycles [OF assms(2,1)] rr_run_bound [OF assms(3) ne assms(4)]
    by (simp add: rr_run_seq [OF ne])
qed

theorem round_robin_fair_witness:
  "count (mset (snd (rr_run demo_hash \<lparr>dr_pos = 0, dr_perm = [0]\<rparr>
       (demo_mh\<lparr>mh_idx := 999999998\<rparr>) (3 * length (mh_host (demo_mh\<lparr>mh_idx := 999999998\<rparr>))))))
     (demo_host (CHR ''b'') 3) = 3
   \<and> mh_idx (fst (rr_run demo_hash \<lparr>dr_pos = 0, dr_perm = [0]\<rparr>
       (demo_mh\<lparr>mh_idx := 999999998\<rparr>) 6)) < MAX_IDX"
  by (rule round_robin_fair) (simp_all add: demo_mh_host demo_host_def MAX_IDX_def)

subsection \<open>Consistent hashing moves only the keys of the removed host\<close>

definition is_succ :: "u64 set \<Rightarrow> u64 \<Rightarrow> u64 \<Rightarrow> bool" where
  "is_succ K x k \<longleftrightarrow> k \<in> K \<and>
     (x \<le> k \<and> (\<forall>k' \<in> K. x \<le> k' \<longrightarrow> k \<le> k') \<or> (\<forall>k' \<in> K. k' < x) \<and> (\<forall>k' \<in> K. k \<le> k'))"

lemma is_succ_unique: "is_succ K x k \<Longrightarrow> is_succ K x k' \<Longrightarrow> k = k'"
  unfolding is_succ_def by (meson order.antisym not_le)

lemma is_succ_subset: "is_succ K x k \<Longrightarrow> K' \<subseteq> K \<Longrightarrow> k \<in> K' \<Longrightarrow> is_succ K' x k"
  unfolding is_succ_def by blast

lemma ring_from_succ:
  assumes "ring_wf r" "r \<noteq> []"
  shows "is_succ (set (map fst r)) x (fst (hd (ring_from x r)))" "hd (ring_from x r) \<in> set r"
proof -
  have "ring_from x r \<noteq> []" using assms(2) set_ring_from [of x r] by (metis set_empty)
  then show "hd (ring_from x r) \<in> set r" using set_ring_from [of x r] by (metis hd_in_set)
  show "is_succ (set (map fst r)) x (fst (hd (ring_from x r)))"
  proof (cases "dropWhile (\<lambda>e. fst e < x) r")
    case Nil
    then have all: "\<forall>e \<in> set r. fst e < x" by (simp add: dropWhile_eq_Nil_conv)
    then have tw: "takeWhile (\<lambda>e. fst e < x) r = r" by (simp add: takeWhile_eq_all_conv)
    have "ring_from x r = r" unfolding ring_from_def Nil tw by simp
    then show ?thesis using all assms by (cases r) (auto simp: is_succ_def ring_wf_def)
  next
    case (Cons e rest)
    let ?tw = "takeWhile (\<lambda>e. fst e < x) r"
    have r: "r = ?tw @ e # rest" using Cons takeWhile_dropWhile_id by metis
    have e: "\<not> fst e < x" using Cons by (metis dropWhile_eq_Cons_conv)
    have tw: "\<forall>a \<in> set ?tw. fst a < x" by (auto dest: set_takeWhileD)
    have rest: "\<forall>a \<in> set rest. fst e < fst a"
      using assms(1) unfolding ring_wf_def by (subst (asm) r) (simp add: sorted_wrt_append)
    have "set (map fst r) = fst ` set ?tw \<union> {fst e} \<union> fst ` set rest"
      by (subst r) auto
    then show ?thesis using Cons e tw rest by (auto simp: ring_from_def is_succ_def)
  qed
qed

lemma erase_host_set:
  "distinct (map hd_host hs) \<Longrightarrow> set (erase_host h hs) = {d \<in> set hs. hd_host d \<noteq> h}"
  by (induction h hs rule: erase_host.induct) (auto, metis image_eqI)

lemma ring_nonempty:
  assumes "mh_inv hash mh" "mh_host mh \<noteq> []"
  shows "mh_ring mh \<noteq> []"
proof -
  have "hash (vnode_label (hd_host (hd (mh_host mh))) 0) \<in> set (map fst (ring_of hash (mh_host mh)))"
    unfolding ring_of_keys using assms(2) by (auto simp: vkeys_def VIRTUAL_NODES_def intro!: bexI)
  then show ?thesis using assms(1) by (auto simp: mh_inv_def)
qed

lemma pick_owner:
  fixes x :: u64 and mh :: method_host
  assumes "mh_inv hash mh" "mh_host mh \<noteq> []"
  defines "e \<equiv> hd (ring_from x (mh_ring mh))"
  shows "snd e < length (mh_host mh)" "fst e \<in> vkeys hash (hd_host (mh_host mh ! snd e))"
    and "is_succ (\<Union>d \<in> set (mh_host mh). vkeys hash (hd_host d)) x (fst e)"
proof -
  let ?hs = "mh_host mh"
  have ring: "mh_ring mh = ring_of hash ?hs" using assms(1) by (simp add: mh_inv_def)
  have ne: "ring_of hash ?hs \<noteq> []" using ring_nonempty [OF assms(1,2)] by (simp add: ring)
  note f = ring_from_succ [OF ring_of_wf ne, of x]
  show "is_succ (\<Union>d \<in> set ?hs. vkeys hash (hd_host d)) x (fst e)"
    using f(1) by (simp add: ring_of_keys ring e_def del: set_map)
  have "distinct (map fst (ring_of hash ?hs))"
    using ring_of_wf [of hash ?hs] by (auto simp: ring_wf_def strict_sorted_iff)
  then have "map_of (ring_of hash ?hs) (fst e) = Some (snd e)"
    using f(2) by (simp add: e_def ring)
  then show "snd e < length ?hs" "fst e \<in> vkeys hash (hd_host (?hs ! snd e))"
    using ring_of_index by auto
qed

text \<open>
  Remark. Consistent hashing is stable under removal: when a host leaves, every key that
  was mapped to another host stays on that host. (No two virtual nodes collide.)
\<close>

theorem consistent_hash_stable:
  assumes "mh_inv hash mh" "collision_free hash (set (map hd_host (mh_host mh)))"
    and "key \<noteq> []" "mh_host mh \<noteq> []"
    and "hd_host (pickConsistentHash hash d mh key) \<noteq> h"
  shows "pickConsistentHash hash d (mh_removeHost hash mh h) key = pickConsistentHash hash d mh key"
proof -
  define mh' where "mh' = mh_removeHost hash mh h"
  define x where "x = hash key"
  let ?hs = "mh_host mh" let ?hs' = "mh_host mh'"
  let ?e = "hd (ring_from x (mh_ring mh))" let ?e' = "hd (ring_from x (mh_ring mh'))"
  have dist: "distinct (map hd_host ?hs)" using assms(1) by (simp add: mh_inv_def)
  have set': "set ?hs' = {d \<in> set ?hs. hd_host d \<noteq> h}"
    using dist by (auto simp: mh'_def mh_removeHost_def rebuildRing_def erase_host_set)
  note o = pick_owner [OF assms(1,4), of x]
  have pick: "pickConsistentHash hash d mh key = ?hs ! snd ?e"
    using assms(3) ring_nonempty [OF assms(1,4)] by (simp add: pickConsistentHash_def x_def)
  then have in': "?hs ! snd ?e \<in> set ?hs'" using set' o(1) assms(5) by auto
  then have ne': "?hs' \<noteq> []" by auto
  have inv': "mh_inv hash mh'" using mh_inv_remove [OF assms(1)] by (simp add: mh'_def)
  note o' = pick_owner [OF inv' ne', of x]
  have "is_succ (\<Union>d \<in> set ?hs'. vkeys hash (hd_host d)) x (fst ?e)"
    by (rule is_succ_subset [OF o(3)]) (use in' o(2) set' in auto)
  then have k: "fst ?e' = fst ?e" using o'(3) is_succ_unique by blast
  have mem: "?hs' ! snd ?e' \<in> set ?hs" using o'(1) set' by (metis (lifting) mem_Collect_eq nth_mem)
  then have "hd_host (?hs' ! snd ?e') = hd_host (?hs ! snd ?e)"
    using vkeys_disjoint [OF assms(2) _ _ o'(2)] o(1,2) k by auto
  then have "?hs' ! snd ?e' = ?hs ! snd ?e"
    using dist mem o(1) by (metis distinct_map inj_on_eq_iff nth_mem)
  then show ?thesis
    using pick assms(3) ring_nonempty [OF inv' ne'] by (simp add: pickConsistentHash_def x_def mh'_def)
qed

lemma demo_vkeys:
  assumes "k \<in> vkeys demo_hash ([c], 1)"
  shows "1000 * of_char c \<le> unat k" "unat k < 1000 * of_char c + 160"
  using assms by (auto simp: vkeys_def VIRTUAL_NODES_def demo_hash_val)

lemma demo_pick: "pickConsistentHash demo_hash d demo_mh ''A'' = demo_host (CHR ''a'') 7"
proof -
  let ?e = "hd (ring_from (demo_hash ''A'') (mh_ring demo_mh))"
  let ?K = "\<Union>d \<in> set (mh_host demo_mh). vkeys demo_hash (hd_host d)"
  have x: "demo_hash ''A'' = 65000" by (simp add: demo_hash_def undec_def)
  have mem: "demo_hash (vnode_label ([CHR ''a''], 1) 0) \<in> ?K"
    by (auto simp: demo_mh_host demo_host_def vkeys_def VIRTUAL_NODES_def)
  have le: "97000 \<le> unat k" if "k \<in> ?K" for k
    using that demo_vkeys(1) [of k "CHR ''a''"] demo_vkeys(1) [of k "CHR ''b''"]
    by (auto simp: demo_mh_host demo_host_def)
  have "is_succ ?K 65000 (demo_hash (vnode_label ([CHR ''a''], 1) 0))"
    using mem le by (auto simp: is_succ_def word_le_nat_alt demo_hash_val)
  moreover have ne: "mh_host demo_mh \<noteq> []" by (simp add: demo_mh_host)
  moreover note o = pick_owner [OF demo_mh_inv ne, of "demo_hash ''A''"]
  ultimately have "fst ?e = demo_hash (vnode_label ([CHR ''a''], 1) 0)"
    using is_succ_unique x by (metis demo_mh_host list.distinct(1))
  then have "unat (fst ?e) = 97000" by (simp add: demo_hash_val)
  moreover have "fst ?e \<in> vkeys demo_hash (hd_host (mh_host demo_mh ! snd ?e))" "snd ?e < 2"
    using o by (simp_all add: demo_mh_host)
  moreover have "snd ?e = 0 \<or> snd ?e = 1" using calculation(3) by linarith
  ultimately have "snd ?e = 0"
    using demo_vkeys(1) [of "fst ?e" "CHR ''b''"] by (auto simp: demo_mh_host demo_host_def)
  then show ?thesis using ring_nonempty [OF demo_mh_inv ne] by (simp add: pickConsistentHash_def demo_mh_host)
qed

theorem consistent_hash_stable_witness:
  "pickConsistentHash demo_hash \<lparr>dr_pos = 0, dr_perm = [0]\<rparr>
     (mh_removeHost demo_hash demo_mh ([CHR ''b''], 1)) ''A''
   = pickConsistentHash demo_hash \<lparr>dr_pos = 0, dr_perm = [0]\<rparr> demo_mh ''A''"
  by (rule consistent_hash_stable [OF demo_mh_inv demo_mh_collision_free])
    (simp_all add: demo_pick, simp_all add: demo_mh_host demo_host_def)

end
