(* ===== verification/Discover.thy ===== *)
theory Discover
  imports Method_Host
begin

text \<open>
  The client side of the registry (\<open>rpc/src/client/rpc_registry.hpp\<close>): class
  \<open>Provider\<close>, which registers a service and reports load and heartbeats, and class
  \<open>Discover\<close>, which caches the hosts of each method and follows the online and
  offline notifications of the registry.

  The answer to a request is a parameter: nothing came back, something that is no service
  response came back, or a service response did. What other threads do to the cache
  while a request is in flight is a parameter of a discovery, a function on the cache.
\<close>

subsection \<open>Requests and answers\<close>

record service_request =
  sr_id :: string
  sr_method :: string
  sr_optype :: service_optype
  sr_host :: "host_info option"
  sr_load :: "int option"

datatype service_reply = NoReply | OtherReply | ServiceReply resp_code "host_detail list"

fun reply_ok :: "service_reply \<Rightarrow> bool" where
  "reply_ok NoReply = False"
| "reply_ok OtherReply = False"
| "reply_ok (ServiceReply rc hs) \<longleftrightarrow> rc = SUCCESS"

definition methodRegistry ::
  "string \<Rightarrow> string \<Rightarrow> host_info \<Rightarrow> int \<Rightarrow> service_reply \<Rightarrow> service_request \<times> bool" where
  "methodRegistry uid m h l reply =
     (\<lparr>sr_id = uid, sr_method = m, sr_optype = REGISTER, sr_host = Some h, sr_load = Some l\<rparr>,
      reply_ok reply)"

definition reportLoad ::
  "string \<Rightarrow> string \<Rightarrow> host_info \<Rightarrow> int \<Rightarrow> service_reply \<Rightarrow> service_request \<times> bool" where
  "reportLoad uid m h l reply =
     (\<lparr>sr_id = uid, sr_method = m, sr_optype = LOAD_REPORT, sr_host = Some h, sr_load = Some l\<rparr>,
      reply_ok reply)"

definition heartbeatProvider ::
  "string \<Rightarrow> string \<Rightarrow> host_info \<Rightarrow> service_reply \<Rightarrow> service_request \<times> bool" where
  "heartbeatProvider uid m h reply =
     (\<lparr>sr_id = uid, sr_method = m, sr_optype = HEARTBEAT_PROVIDER, sr_host = Some h, sr_load = None\<rparr>,
      reply_ok reply)"

subsection \<open>The cache\<close>

type_synonym discover_cache = "(string \<times> method_host) list"

definition onserviceRequest ::
  "hash_fn \<Rightarrow> discover_cache \<Rightarrow> service_optype \<Rightarrow> string \<Rightarrow> host_info
     \<Rightarrow> discover_cache \<times> host_info list" where
  "onserviceRequest hash dc optype m h =
     (case optype of
        ONLINE \<Rightarrow>
          (case map_of dc m of
             Some mh \<Rightarrow> (AList.update m (appendHost hash mh h 0) dc, [])
           | None \<Rightarrow> (AList.update m (appendHost hash (new_method_host []) h 0) dc, []))
      | OFFLINE \<Rightarrow>
          (case map_of dc m of
             Some mh \<Rightarrow> (AList.update m (mh_removeHost hash mh h) dc, [h])
           | None \<Rightarrow> (dc, []))
      | _ \<Rightarrow> (dc, []))"

definition select_cached ::
  "hash_fn \<Rightarrow> draws \<Rightarrow> discover_cache \<Rightarrow> string \<Rightarrow> method_host \<Rightarrow> load_balance_strategy \<Rightarrow> string
     \<Rightarrow> discover_cache \<times> host_detail list option" where
  "select_cached hash d dc m mh st key =
     (let (mh', details) = selectHosts hash d mh st key in
      (AList.update m mh' dc, if details = [] then None else Some details))"

definition hosts_of_reply :: "hash_fn \<Rightarrow> host_detail list \<Rightarrow> method_host" where
  "hosts_of_reply hash hs =
     fold (\<lambda>hd mh. appendHost hash mh (hd_host hd) (hd_load hd)) hs (new_method_host [])"

definition serviceDiscover ::
  "hash_fn \<Rightarrow> draws \<Rightarrow> discover_cache \<Rightarrow> string \<Rightarrow> load_balance_strategy \<Rightarrow> bool \<Rightarrow> string
     \<Rightarrow> service_reply \<Rightarrow> (discover_cache \<Rightarrow> discover_cache)
     \<Rightarrow> discover_cache \<times> host_detail list option" where
  "serviceDiscover hash d dc m st force_remote key reply meanwhile =
     (case (if force_remote then None else map_of dc m) of
        Some mh \<Rightarrow> select_cached hash d dc m mh st key
      | None \<Rightarrow>
          let dc1 = meanwhile dc in
          (case reply of
             NoReply \<Rightarrow> (dc1, None)
           | OtherReply \<Rightarrow> (dc1, None)
           | ServiceReply rc hs \<Rightarrow>
               if rc \<noteq> SUCCESS then (dc1, None)
               else if hs = [] then (dc1, None)
               else
                 let fresh = hosts_of_reply hash hs in
                 (case map_of dc1 m of
                    Some mh \<Rightarrow> select_cached hash d dc1 m mh st key
                  | None \<Rightarrow> select_cached hash d (AList.update m fresh dc1) m fresh st key)))"

definition serviceDiscover_one ::
  "hash_fn \<Rightarrow> draws \<Rightarrow> discover_cache \<Rightarrow> string \<Rightarrow> load_balance_strategy \<Rightarrow> bool \<Rightarrow> string
     \<Rightarrow> service_reply \<Rightarrow> (discover_cache \<Rightarrow> discover_cache)
     \<Rightarrow> discover_cache \<times> host_detail option" where
  "serviceDiscover_one hash d dc m st force_remote key reply meanwhile =
     (let (dc', r) = serviceDiscover hash d dc m st force_remote key reply meanwhile in
      (dc', case r of None \<Rightarrow> None | Some details \<Rightarrow> if details = [] then None else Some (hd details)))"

subsection \<open>Invariant\<close>

definition cache_inv :: "hash_fn \<Rightarrow> discover_cache \<Rightarrow> bool" where
  "cache_inv hash dc \<longleftrightarrow> (\<forall>m mh. map_of dc m = Some mh \<longrightarrow> mh_inv hash mh)"

lemma cache_inv_update: "cache_inv hash dc \<Longrightarrow> mh_inv hash mh \<Longrightarrow> cache_inv hash (AList.update m mh dc)"
  by (simp add: cache_inv_def update_conv')

lemma mh_inv_selectHosts: "mh_inv hash mh \<Longrightarrow> mh_inv hash (fst (selectHosts hash d mh st key))"
  by (simp add: mh_inv_def selectHosts_state)

lemma mh_inv_reply: "mh_inv hash (hosts_of_reply hash hs)"
proof -
  have "mh_inv hash (fold (\<lambda>hd mh. appendHost hash mh (hd_host hd) (hd_load hd)) hs mh)"
    if "mh_inv hash mh" for mh
    using that by (induction hs arbitrary: mh) (auto intro: mh_inv_append)
  then show ?thesis by (simp add: hosts_of_reply_def mh_inv_new)
qed

lemma cache_inv_notify:
  "cache_inv hash dc \<Longrightarrow> cache_inv hash (fst (onserviceRequest hash dc ot m h))"
  by (auto simp: onserviceRequest_def intro!: cache_inv_update mh_inv_append mh_inv_remove mh_inv_new
      split: service_optype.splits option.splits) (auto simp: cache_inv_def)

lemma cache_inv_select:
  "cache_inv hash dc \<Longrightarrow> mh_inv hash mh \<Longrightarrow> cache_inv hash (fst (select_cached hash d dc m mh st key))"
  by (simp add: select_cached_def case_prod_beta cache_inv_update mh_inv_selectHosts)

subsection \<open>Hosts offered after an offline notification\<close>

definition offers :: "discover_cache \<Rightarrow> string \<Rightarrow> host_info \<Rightarrow> bool" where
  "offers dc m h \<longleftrightarrow> (\<exists>mh. map_of dc m = Some mh \<and> h \<in> set (map hd_host (mh_host mh)))"

lemma ring_walk_subset: "set (ring_walk is seen n) \<subseteq> set is"
  by (induction "is" seen n rule: ring_walk.induct) auto

lemma selectHosts_subset:
  assumes "mh_inv hash mh" "draws_ok (length (mh_host mh)) d"
  shows "set (snd (selectHosts hash d mh st key)) \<subseteq> set (mh_host mh)"
proof -
  let ?hs = "mh_host mh"
  have "mset (map (\<lambda>i. ?hs ! i) (dr_perm d)) = mset ?hs"
    using assms(2) by (intro mset_map_nth) (simp add: draws_ok_def)
  then have perm: "(\<lambda>i. ?hs ! i) ` set (dr_perm d) = set ?hs"
    by (metis list.set_map set_mset_mset)
  have rot: "set (rotation s ?hs) = set ?hs" for s by (metis mset_rotation set_mset_mset)
  have low: "set (map (\<lambda>i. ?hs ! (load_order ?hs ! ((s + i) mod best_count ?hs))) [0 ..< best_count ?hs]
           @ map (\<lambda>i. ?hs ! (load_order ?hs ! i)) [best_count ?hs ..< length ?hs]) = set ?hs" for s
    using lowest_candidates_mset [of ?hs s] by (metis set_mset_mset)
  have "distinct (map fst (ring_of hash ?hs))"
    using ring_of_wf [of hash ?hs] by (auto simp: ring_wf_def strict_sorted_iff)
  then have "snd e < length ?hs" if "e \<in> set (mh_ring mh)" for e
    using that assms(1) ring_of_index [of hash ?hs "fst e" "snd e"] by (auto simp: mh_inv_def)
  then have walk: "(\<lambda>i. ?hs ! i) ` set (ring_walk (map snd (ring_from x (mh_ring mh))) seen n) \<subseteq> set ?hs"
    for x seen n
    using ring_walk_subset [of "map snd (ring_from x (mh_ring mh))" seen n]
    by (auto simp: set_ring_from dest!: subsetD)
  show ?thesis
    using perm rot low walk
    by (cases st) (auto simp: selectHosts_def Let_def randomOrder_def dest: equalityD1 subsetD)
qed

lemma removed_host_gone:
  "mh_inv hash mh \<Longrightarrow> h \<notin> set (map hd_host (mh_host (mh_removeHost hash mh h)))"
  by (auto simp: mh_inv_def mh_removeHost_def rebuildRing_def erase_host_set)

text \<open>
  Remark. After an offline notification for a host of a cached method, the host's
  connections are handed to the offline callback and a discovery served from the
  cache never offers that host, under any strategy.
\<close>

theorem offline_host_not_offered:
  assumes "cache_inv hash dc" "map_of dc m = Some mh"
    and "mh_host (mh_removeHost hash mh h) \<noteq> [] \<Longrightarrow>
           draws_ok (length (mh_host (mh_removeHost hash mh h))) d"
  shows "snd (onserviceRequest hash dc OFFLINE m h) = [h]
       \<and> (case snd (serviceDiscover hash d (fst (onserviceRequest hash dc OFFLINE m h)) m st False key
                     reply meanwhile) of
            None \<Rightarrow> True
          | Some details \<Rightarrow> h \<notin> set (map hd_host details))"
proof -
  let ?mh = "mh_removeHost hash mh h"
  have inv: "mh_inv hash mh" using assms(1,2) by (auto simp: cache_inv_def)
  have "set (snd (selectHosts hash d ?mh st key)) \<subseteq> set (mh_host ?mh)"
  proof (cases "mh_host ?mh = []")
    case True
    then show ?thesis by (simp add: selectHosts_def)
  next
    case False
    from selectHosts_subset [OF mh_inv_remove [OF inv] assms(3) [OF False]] show ?thesis .
  qed
  then show ?thesis
    using assms(2) removed_host_gone [OF inv, of h]
    by (auto simp: onserviceRequest_def serviceDiscover_def select_cached_def case_prod_beta
        update_conv' Let_def)
qed

theorem offline_host_not_offered_witness:
  "snd (onserviceRequest demo_hash [(''add'', demo_mh)] OFFLINE ''add'' ([CHR ''b''], 1)) = [([CHR ''b''], 1)]
   \<and> (case snd (serviceDiscover demo_hash \<lparr>dr_pos = 0, dr_perm = [0]\<rparr>
          (fst (onserviceRequest demo_hash [(''add'', demo_mh)] OFFLINE ''add'' ([CHR ''b''], 1)))
          ''add'' RANDOM False [] NoReply id) of
        None \<Rightarrow> True
      | Some details \<Rightarrow> ([CHR ''b''], 1) \<notin> set (map hd_host details))"
proof (rule offline_host_not_offered)
  show "cache_inv demo_hash [(''add'', demo_mh)]"
    using demo_mh_inv by (simp add: cache_inv_def)
  show "draws_ok (length (mh_host (mh_removeHost demo_hash demo_mh ([CHR ''b''], 1))))
      \<lparr>dr_pos = 0, dr_perm = [0]\<rparr>"
    by (simp add: mh_removeHost_def demo_mh_host demo_host_def rebuildRing_def draws_ok_def)
qed simp

text \<open>
  Remark. A cached method is never refreshed by a discovery: once a method has a cache
  entry, forced or not, whatever the registry answers, a discovery leaves the cached
  hosts and loads as they are, and its result is the selection from that entry. In particular
  the periodic forced discovery of the client does not pick up hosts or loads that
  the notifications missed, and an entry without hosts keeps the method unavailable.
\<close>

theorem discovery_never_refreshes_cache:
  assumes "map_of dc m = Some mh"
  shows "(case map_of (fst (serviceDiscover hash d dc m st force_remote key reply id)) m of
            None \<Rightarrow> False | Some mh' \<Rightarrow> mh_host mh' = mh_host mh)
       \<and> (snd (serviceDiscover hash d dc m st force_remote key reply id) = None
          \<or> snd (serviceDiscover hash d dc m st force_remote key reply id)
              = Some (snd (selectHosts hash d mh st key)))
       \<and> (mh_host mh = [] \<longrightarrow>
            snd (serviceDiscover hash d dc m st force_remote key reply id) = None)"
proof -
  have "snd (selectHosts hash d mh st key) = []" if "mh_host mh = []"
    using that by (simp add: selectHosts_def)
  then show ?thesis
    using assms
    by (auto simp: serviceDiscover_def select_cached_def case_prod_beta Let_def update_conv'
        selectHosts_state split: service_reply.splits)
qed

theorem discovery_never_refreshes_cache_witness:
  "let reply = ServiceReply SUCCESS [demo_host (CHR ''c'') 0];
       d = \<lparr>dr_pos = 0, dr_perm = [0]\<rparr>; dc = [(''add'', demo_mh)] in
   (case map_of (fst (serviceDiscover demo_hash d dc ''add'' LOWEST_LOAD True [] reply id)) ''add'' of
      None \<Rightarrow> False | Some mh' \<Rightarrow> mh_host mh' = mh_host demo_mh)
   \<and> (snd (serviceDiscover demo_hash d dc ''add'' LOWEST_LOAD True [] reply id) = None
      \<or> snd (serviceDiscover demo_hash d dc ''add'' LOWEST_LOAD True [] reply id)
          = Some (snd (selectHosts demo_hash d demo_mh LOWEST_LOAD [])))
   \<and> (mh_host demo_mh = [] \<longrightarrow>
        snd (serviceDiscover demo_hash d dc ''add'' LOWEST_LOAD True [] reply id) = None)"
  unfolding Let_def by (rule discovery_never_refreshes_cache) simp

text \<open>
  Remark. Every cached host list keeps its invariant (distinct hosts, a hash ring that
  matches them) under notifications and discoveries, for any answer of the registry.
\<close>

theorem discover_cache_inv:
  assumes "cache_inv hash dc" "cache_inv hash (meanwhile dc)"
  shows "cache_inv hash (fst (onserviceRequest hash dc optype m h))
       \<and> cache_inv hash (fst (serviceDiscover hash d dc m st force_remote key reply meanwhile))"
proof -
  have mh: "mh_inv hash mh" if "map_of dc m = Some mh \<or> map_of (meanwhile dc) m = Some mh" for mh
    using that assms by (auto simp: cache_inv_def)
  show ?thesis
    using assms mh
    by (auto simp: cache_inv_notify serviceDiscover_def Let_def
        intro!: cache_inv_select cache_inv_update mh_inv_reply split: option.splits service_reply.splits)
qed

theorem discover_cache_inv_witness:
  "cache_inv demo_hash (fst (onserviceRequest demo_hash [] ONLINE ''add'' ([CHR ''c''], 1)))
   \<and> cache_inv demo_hash (fst (serviceDiscover demo_hash \<lparr>dr_pos = 0, dr_perm = [0]\<rparr> []
        ''add'' RANDOM False [] (ServiceReply SUCCESS [demo_host (CHR ''c'') 0]) id))"
  by (rule discover_cache_inv) (simp_all add: cache_inv_def)

end
