(* ===== verification/Rpc_Client.thy ===== *)
theory Rpc_Client
  imports Caller Discover
begin

text \<open>
  The client facade of \<open>rpc/src/client/rpc_client.hpp\<close>: \<open>RpcClient\<close> with its pool of
  connections, its retries over candidate hosts and its configuration from the environment,
  \<open>ClientDiscover\<close> and \<open>ClientRegistry\<close>.

  The environment of one attempt is a record: the connection a new client gets, the peer
  address of a connection, the clock readings of the breaker, the ids of a request, what sending
  with a given timeout returns, and what other threads do to the pool while this one connects.
  An exception that leaves a call, and an undefined shift or product, make the result of the
  call \<^const>\<open>None\<close>.
\<close>

subsection \<open>Configuration\<close>

record retry_config =
  max_retries :: int
  base_ms :: int
  max_ms :: int
  retry_timeout_ms :: int

definition default_retry :: retry_config where
  "default_retry = \<lparr>max_retries = 3, base_ms = 10, max_ms = 1000, retry_timeout_ms = 500\<rparr>"

definition env_int :: "(string \<Rightarrow> string option) \<Rightarrow> string \<Rightarrow> int \<Rightarrow> int" where
  "env_int getenv name dflt = (case getenv name of None \<Rightarrow> dflt | Some s \<Rightarrow> atoi s)"

definition makeRetryConfig :: "(string \<Rightarrow> string option) \<Rightarrow> retry_config" where
  "makeRetryConfig getenv =
     \<lparr>max_retries = env_int getenv ''LCZ_RETRY_MAX_RETRIES'' (max_retries default_retry),
      base_ms = env_int getenv ''LCZ_RETRY_BASE_MS'' (base_ms default_retry),
      max_ms = env_int getenv ''LCZ_RETRY_MAX_MS'' (max_ms default_retry),
      retry_timeout_ms = env_int getenv ''LCZ_RETRY_TIMEOUT_MS'' (retry_timeout_ms default_retry)\<rparr>"

definition makeBreaker :: "(string \<Rightarrow> string option) \<Rightarrow> mem_circuit_store circuit_breaker" where
  "makeBreaker getenv =
     new_circuit_breaker
       \<lparr>window_size = env_int getenv ''LCZ_CB_WINDOW_SIZE'' (window_size default_config),
        min_calls = env_int getenv ''LCZ_CB_MIN_CALLS''
          (env_int getenv ''LCZ_CB_FAILURE_THRESHOLD'' (min_calls default_config)),
        failure_ratio_percent = env_int getenv ''LCZ_CB_FAILURE_RATIO'' (failure_ratio_percent default_config),
        open_duration_sec = env_int getenv ''LCZ_CB_OPEN_DURATION'' (open_duration_sec default_config),
        half_open_max_req = env_int getenv ''LCZ_CB_HALF_OPEN_MAX'' (half_open_max_req default_config)\<rparr> []"

subsection \<open>Choosing a host and waiting\<close>

definition pickUntriedCandidate :: "host_detail list \<Rightarrow> host_info list \<Rightarrow> host_detail option \<times> host_info list" where
  "pickUntriedCandidate candidates tried =
     (if candidates = [] then (None, tried)
      else case find (\<lambda>c. hd_host c \<notin> set tried) candidates of
        Some c \<Rightarrow> (Some c, tried)
      | None \<Rightarrow> (Some (hd candidates), []))"

text \<open>\<open>draw e\<close> is the number drawn between 0 and \<open>e\<close>; \<^const>\<open>None\<close> is an undefined shift or product.\<close>

definition shift_one :: "nat \<Rightarrow> int option" where
  "shift_one k = (if k < 63 then Some (2 ^ k) else if k = 63 then Some (- (2 ^ 63)) else None)"

definition mult_int64 :: "int \<Rightarrow> int \<Rightarrow> int option" where
  "mult_int64 a b = (if - (2 ^ 63) \<le> a * b \<and> a * b < 2 ^ 63 then Some (a * b) else None)"

definition backoffDelayMs :: "retry_config \<Rightarrow> nat \<Rightarrow> (int \<Rightarrow> int) \<Rightarrow> int option" where
  "backoffDelayMs cfg attempt draw = do {
     s \<leftarrow> shift_one attempt;
     p \<leftarrow> mult_int64 (base_ms cfg) s;
     let e = min p (max_ms cfg);
     Some (draw (if e \<le> 0 then 1 else e)) }"

subsection \<open>The pool of connections\<close>

record client_pool =
  cp_clients :: "muduo_client list"
  cp_table :: "(host_info \<times> nat) list"

definition make_client :: "client_pool \<Rightarrow> tcp_conn \<Rightarrow> client_pool \<times> nat" where
  "make_client cp c =
     (cp\<lparr>cp_clients := cp_clients cp @ [client_onConnection (client_connect \<lparr>mc_connection = None, mc_latch = 0\<rparr>) c True]\<rparr>,
      length (cp_clients cp))"

definition publish_client :: "client_pool \<Rightarrow> host_info \<Rightarrow> nat \<Rightarrow> client_pool \<times> nat" where
  "publish_client cp host i =
     (case map_of (cp_table cp) host of
        Some existing \<Rightarrow> (cp\<lparr>cp_clients := (cp_clients cp)[i := (cp_clients cp ! i)\<lparr>mc_connection := None\<rparr>]\<rparr>, existing)
      | None \<Rightarrow> (cp\<lparr>cp_table := AList.update host i (cp_table cp)\<rparr>, i))"

definition newClient :: "client_pool \<Rightarrow> host_info \<Rightarrow> tcp_conn \<Rightarrow> (client_pool \<Rightarrow> client_pool) \<Rightarrow> client_pool \<times> nat" where
  "newClient cp host c meanwhile = (let (cp1, i) = make_client cp c in publish_client (meanwhile cp1) host i)"

definition getClient :: "client_pool \<Rightarrow> host_info \<Rightarrow> tcp_conn \<Rightarrow> (client_pool \<Rightarrow> client_pool) \<Rightarrow> client_pool \<times> nat" where
  "getClient cp host c meanwhile =
     (case map_of (cp_table cp) host of Some i \<Rightarrow> (cp, i) | None \<Rightarrow> newClient cp host c meanwhile)"

definition putClient :: "client_pool \<Rightarrow> host_info \<Rightarrow> nat \<Rightarrow> client_pool" where
  "putClient cp host i = cp\<lparr>cp_table := AList.update host i (cp_table cp)\<rparr>"

subsection \<open>Discovery\<close>

record client_discover =
  cd_client :: muduo_client
  cd_cache :: discover_cache
  cd_tracked :: "string list"

record discover_env =
  de_hash :: hash_fn
  de_up :: "tcp_conn \<Rightarrow> bool"
  de_draws :: draws
  de_reply :: service_reply
  de_meanwhile :: "discover_cache \<Rightarrow> discover_cache"

definition cd_serviceDiscover ::
  "client_discover \<Rightarrow> string \<Rightarrow> load_balance_strategy \<Rightarrow> string \<Rightarrow> discover_env \<Rightarrow> client_discover \<times> host_detail list option" where
  "cd_serviceDiscover cd m st key de =
     (if \<not> client_connected (cd_client cd) (de_up de) then (cd, None)
      else case serviceDiscover (de_hash de) (de_draws de) (cd_cache cd) m st False key (de_reply de) (de_meanwhile de) of
        (dc, Some details) \<Rightarrow> (cd\<lparr>cd_cache := dc, cd_tracked := List.insert m (cd_tracked cd)\<rparr>, Some details)
      | (dc, None) \<Rightarrow> (cd\<lparr>cd_cache := dc\<rparr>, None))"

definition cd_serviceDiscover_one ::
  "client_discover \<Rightarrow> string \<Rightarrow> load_balance_strategy \<Rightarrow> string \<Rightarrow> discover_env \<Rightarrow> client_discover \<times> host_detail option" where
  "cd_serviceDiscover_one cd m st key de =
     (case cd_serviceDiscover cd m st key de of
        (cd', None) \<Rightarrow> (cd', None)
      | (cd', Some details) \<Rightarrow> (cd', if details = [] then None else Some (hd details)))"

text \<open>One tick of the timer that refreshes the tracked methods; the environment depends on the method.\<close>

definition health_tick :: "client_discover \<Rightarrow> (string \<Rightarrow> discover_env) \<Rightarrow> (tcp_conn \<Rightarrow> bool) \<Rightarrow> client_discover" where
  "health_tick cd de up =
     (if cd_tracked cd = [] then cd
      else if \<not> client_connected (cd_client cd) up then cd
      else cd\<lparr>cd_cache := fold (\<lambda>m dc. fst (serviceDiscover_one (de_hash (de m)) (de_draws (de m)) dc m ROUND_ROBIN True []
          (de_reply (de m)) (de_meanwhile (de m)))) (cd_tracked cd) (cd_cache cd)\<rparr>)"

text \<open>\<open>ClientRegistry\<close>: the connection is renewed before a request when it was lost.\<close>

definition ensureConnected :: "muduo_client \<Rightarrow> (tcp_conn \<Rightarrow> bool) \<Rightarrow> tcp_conn \<Rightarrow> muduo_client \<times> bool" where
  "ensureConnected cl up c =
     (if client_connected cl up then (cl, True)
      else let cl' = client_onConnection (client_connect cl) c True in (cl', client_connected cl' up))"

definition cr_methodRegistry ::
  "muduo_client \<Rightarrow> (tcp_conn \<Rightarrow> bool) \<Rightarrow> tcp_conn \<Rightarrow> string \<Rightarrow> string \<Rightarrow> host_info \<Rightarrow> int \<Rightarrow> service_reply
     \<Rightarrow> muduo_client \<times> service_request option \<times> bool" where
  "cr_methodRegistry cl up c uid m h l reply =
     (case ensureConnected cl up c of
        (cl', False) \<Rightarrow> (cl', None, False)
      | (cl', True) \<Rightarrow> (let (req, ok) = methodRegistry uid m h l reply in (cl', Some req, ok)))"

definition cr_reportLoad ::
  "muduo_client \<Rightarrow> (tcp_conn \<Rightarrow> bool) \<Rightarrow> tcp_conn \<Rightarrow> string \<Rightarrow> string \<Rightarrow> host_info \<Rightarrow> int \<Rightarrow> service_reply
     \<Rightarrow> muduo_client \<times> service_request option \<times> bool" where
  "cr_reportLoad cl up c uid m h l reply =
     (case ensureConnected cl up c of
        (cl', False) \<Rightarrow> (cl', None, False)
      | (cl', True) \<Rightarrow> (let (req, ok) = reportLoad uid m h l reply in (cl', Some req, ok)))"

definition cr_heartbeatProvider ::
  "muduo_client \<Rightarrow> (tcp_conn \<Rightarrow> bool) \<Rightarrow> tcp_conn \<Rightarrow> string \<Rightarrow> string \<Rightarrow> host_info \<Rightarrow> service_reply
     \<Rightarrow> muduo_client \<times> service_request option \<times> bool" where
  "cr_heartbeatProvider cl up c uid m h reply =
     (case ensureConnected cl up c of
        (cl', False) \<Rightarrow> (cl', None, False)
      | (cl', True) \<Rightarrow> (let (req, ok) = heartbeatProvider uid m h reply in (cl', Some req, ok)))"

subsection \<open>The client\<close>

record rpc_client =
  rc_discover :: "client_discover option"
  rc_pool :: client_pool
  rc_direct :: "(host_info \<times> nat) option"
  rc_breaker :: "mem_circuit_store circuit_breaker"
  rc_strategy :: load_balance_strategy
  rc_retry :: retry_config

text \<open>The constructor: a connection to the registry, or one to the only server.\<close>

definition RpcClient :: "(string \<Rightarrow> string option) \<Rightarrow> bool \<Rightarrow> host_info \<Rightarrow> tcp_conn \<Rightarrow> rpc_client" where
  "RpcClient getenv enablediscover host c =
     (let cl = client_onConnection (client_connect \<lparr>mc_connection = None, mc_latch = 0\<rparr>) c True in
      \<lparr>rc_discover = (if enablediscover then Some \<lparr>cd_client = cl, cd_cache = [], cd_tracked = []\<rparr> else None),
       rc_pool = \<lparr>cp_clients = (if enablediscover then [] else [cl]), cp_table = []\<rparr>,
       rc_direct = (if enablediscover then None else Some (host, 0)),
       rc_breaker = makeBreaker getenv, rc_strategy = ROUND_ROBIN, rc_retry = makeRetryConfig getenv\<rparr>)"

definition setloadbalanceStrategy :: "rpc_client \<Rightarrow> load_balance_strategy \<Rightarrow> rpc_client" where
  "setloadbalanceStrategy rc s = rc\<lparr>rc_strategy := s\<rparr>"

definition delClient :: "rpc_client \<Rightarrow> host_info \<Rightarrow> rpc_client" where
  "delClient rc host =
     rc\<lparr>rc_pool := (rc_pool rc)\<lparr>cp_table := AList.delete host (cp_table (rc_pool rc))\<rparr>,
        rc_breaker := removeHost mem_ops (rc_breaker rc) (hostKey host)\<rparr>"

definition getCandidates :: "rpc_client \<Rightarrow> string \<Rightarrow> string \<Rightarrow> discover_env \<Rightarrow> rpc_client \<times> host_detail list option" where
  "getCandidates rc m key de =
     (case rc_discover rc of
        None \<Rightarrow> (rc, map_option (\<lambda>(h, i). [\<lparr>hd_host = h, hd_load = 0\<rparr>]) (rc_direct rc))
      | Some cd \<Rightarrow>
          (case cd_serviceDiscover cd m (rc_strategy rc) key de of
             (cd', None) \<Rightarrow> (rc\<lparr>rc_discover := Some cd'\<rparr>, None)
           | (cd', Some details) \<Rightarrow> (rc\<lparr>rc_discover := Some cd'\<rparr>, if details = [] then None else Some details)))"

definition clientForHost :: "rpc_client \<Rightarrow> host_info \<Rightarrow> tcp_conn \<Rightarrow> (client_pool \<Rightarrow> client_pool) \<Rightarrow> rpc_client \<times> nat option" where
  "clientForHost rc host c meanwhile =
     (case rc_discover rc of
        None \<Rightarrow> (rc, map_option snd (rc_direct rc))
      | Some cd \<Rightarrow> (let (cp, i) = getClient (rc_pool rc) host c meanwhile in (rc\<lparr>rc_pool := cp\<rparr>, Some i)))"

definition connection :: "rpc_client \<Rightarrow> nat \<Rightarrow> tcp_conn option" where
  "connection rc i = mc_connection (cp_clients (rc_pool rc) ! i)"

subsection \<open>One attempt\<close>

record 'j attempt_env =
  ae_conn :: tcp_conn
  ae_meanwhile :: "client_pool \<Rightarrow> client_pool"
  ae_peer :: "tcp_conn \<Rightarrow> string"
  ae_ck :: clocks
  ae_ck_after :: clocks
  ae_ids :: "string \<times> string \<times> string \<times> string"
  ae_send :: "int \<Rightarrow> 'j send_result"
  ae_resend :: "int \<Rightarrow> 'j send_result"
  ae_sent :: "rpc_error option"
  ae_answer :: "int \<Rightarrow> 'j base_message option"

definition ae_breaker :: "'j attempt_env \<Rightarrow> mem_circuit_store circuit_breaker breaker_ops" where
  "ae_breaker ae = circuit_breaker_ops mem_ops (ae_ck ae) (ae_ck_after ae)"

datatype 'r attempt_outcome = Success 'r | Failure rpc_error | NoClient | Exception

definition attempt_timeout :: "retry_config \<Rightarrow> int \<Rightarrow> nat \<Rightarrow> int" where
  "attempt_timeout cfg first n = (if n = 0 then first else retry_timeout_ms cfg)"

text \<open>What the forms of a call share: find the client of the host and report a lost connection.\<close>

definition attempt ::
  "(mem_circuit_store circuit_breaker \<Rightarrow> tcp_conn \<Rightarrow> mem_circuit_store circuit_breaker \<times> 'r attempt_outcome) \<Rightarrow> rpc_client \<Rightarrow> string \<Rightarrow> 'j attempt_env \<Rightarrow> host_info
     \<Rightarrow> rpc_client \<times> 'r attempt_outcome" where
  "attempt invoke rc m ae host =
     (case clientForHost rc host (ae_conn ae) (ae_meanwhile ae) of
        (rc1, None) \<Rightarrow> (rc1, NoClient)
      | (rc1, Some i) \<Rightarrow>
          (case connection rc1 i of
             None \<Rightarrow> (rc1\<lparr>rc_breaker := onConnectionUnavailable (ae_breaker ae) (rc_breaker rc1) m (hostKey host)\<rparr>, Failure CONN_CLOSED)
           | Some c \<Rightarrow> (let (b, r) = invoke (rc_breaker rc1) c in (rc1\<lparr>rc_breaker := b\<rparr>, r))))"

definition invoke_json ::
  "'j json_lib \<Rightarrow> retry_config \<Rightarrow> string \<Rightarrow> 'j attempt_env \<Rightarrow> nat \<Rightarrow> mem_circuit_store circuit_breaker \<Rightarrow> tcp_conn \<Rightarrow> mem_circuit_store circuit_breaker \<times> 'j attempt_outcome" where
  "invoke_json L cfg m ae n b c =
     (case call_json L (ae_breaker ae) b m (ae_peer ae c) (ae_send ae (attempt_timeout cfg 5000 n)) of
        None \<Rightarrow> (b, Exception)
      | Some (b', Inl e) \<Rightarrow> (b', Failure e)
      | Some (b', Inr r) \<Rightarrow> (b', Success r))"

text \<open>The form with a future waits for it, and hands it over once it holds a value or an error.\<close>

definition invoke_json_future ::
  "'j json_lib \<Rightarrow> (int \<Rightarrow> string) \<Rightarrow> retry_config \<Rightarrow> string \<Rightarrow> 'j attempt_env \<Rightarrow> nat \<Rightarrow> mem_circuit_store circuit_breaker \<Rightarrow> tcp_conn
     \<Rightarrow> mem_circuit_store circuit_breaker \<times> (string + 'j) attempt_outcome" where
  "invoke_json_future L reason cfg m ae n b c =
     (case call_json_future (ae_breaker ae) b m (ae_peer ae c) (ae_sent ae) of
        (b1, False, e) \<Rightarrow> (b1, Failure (case e of None \<Rightarrow> OK | Some e' \<Rightarrow> e'))
      | (b1, True, _) \<Rightarrow>
          (case ae_answer ae (attempt_timeout cfg 5000 n) of
             None \<Rightarrow> (b1, Failure rpc_error.TIMEOUT)
           | Some resp \<Rightarrow>
               (case callBack L reason (ae_breaker ae) b1 m (ae_peer ae c) resp of
                  None \<Rightarrow> (b1, Exception)
                | Some (b2, v) \<Rightarrow> (b2, Success v))))"

definition invoke_proto ::
  "('q \<Rightarrow> string option) \<Rightarrow> (string \<Rightarrow> 'r option) \<Rightarrow> (int \<Rightarrow> string) \<Rightarrow> retry_config \<Rightarrow> int \<Rightarrow> string \<Rightarrow> 'q \<Rightarrow> 'j attempt_env \<Rightarrow> nat
     \<Rightarrow> mem_circuit_store circuit_breaker \<Rightarrow> tcp_conn \<Rightarrow> mem_circuit_store circuit_breaker \<times> 'r attempt_outcome" where
  "invoke_proto ser parse reason cfg timeout m q ae n b c =
     (let t = attempt_timeout cfg timeout n;
          pc = call_proto ser parse reason (ae_breaker ae) b m (ae_peer ae c) (ae_ids ae) q (ae_send ae t) (ae_resend ae t) in
      (pc_breaker pc, case pc_result pc of Inl e \<Rightarrow> Failure e | Inr r \<Rightarrow> Success r))"

subsection \<open>Calls with retries\<close>

text \<open>The loop of a call; with the result comes the list of the hosts that were tried.\<close>

function retry_loop ::
  "retry_config \<Rightarrow> (nat \<Rightarrow> int \<Rightarrow> int) \<Rightarrow> (nat \<Rightarrow> 's \<Rightarrow> host_info \<Rightarrow> 's \<times> 'r attempt_outcome) \<Rightarrow> host_detail list \<Rightarrow> 's \<Rightarrow> host_info list \<Rightarrow> nat
     \<Rightarrow> ('s \<times> 'r option \<times> host_info list) option" where
  "retry_loop cfg draw body candidates s tried n =
     (case pickUntriedCandidate candidates tried of
        (None, _) \<Rightarrow> Some (s, None, [])
      | (Some detail, tried1) \<Rightarrow>
          (case body n s (hd_host detail) of
             (s1, Success r) \<Rightarrow> Some (s1, Some r, [hd_host detail])
           | (s1, NoClient) \<Rightarrow> Some (s1, None, [hd_host detail])
           | (s1, Exception) \<Rightarrow> None
           | (s1, Failure e) \<Rightarrow>
               if \<not> isRetryable e \<or> int n \<ge> max_retries cfg then Some (s1, None, [hd_host detail])
               else do {
                 _ \<leftarrow> backoffDelayMs cfg n (draw n);
                 (s2, r, hosts) \<leftarrow> retry_loop cfg draw body candidates s1 (List.insert (hd_host detail) tried1) (Suc n);
                 Some (s2, r, hd_host detail # hosts) }))"
  by pat_completeness auto
termination by (relation "measure (\<lambda>(cfg, draw, body, cs, s, tried, n). nat (max_retries cfg - int n))") auto

declare retry_loop.simps [simp del]

definition retry_call ::
  "rpc_client \<Rightarrow> string \<Rightarrow> string \<Rightarrow> discover_env \<Rightarrow> (nat \<Rightarrow> int \<Rightarrow> int) \<Rightarrow> (nat \<Rightarrow> rpc_client \<Rightarrow> host_info \<Rightarrow> rpc_client \<times> 'r attempt_outcome)
     \<Rightarrow> (rpc_client \<times> 'r option \<times> host_info list) option" where
  "retry_call rc m key de draw body =
     (case getCandidates rc m key de of
        (rc1, None) \<Rightarrow> Some (rc1, None, [])
      | (rc1, Some candidates) \<Rightarrow> retry_loop (rc_retry rc) draw body candidates rc1 [] 0)"

definition rc_call_json ::
  "'j json_lib \<Rightarrow> rpc_client \<Rightarrow> string \<Rightarrow> string \<Rightarrow> discover_env \<Rightarrow> (nat \<Rightarrow> int \<Rightarrow> int) \<Rightarrow> (nat \<Rightarrow> 'j attempt_env)
     \<Rightarrow> (rpc_client \<times> 'j option \<times> host_info list) option" where
  "rc_call_json L rc m key de draw ae =
     retry_call rc m key de draw (\<lambda>n s h. attempt (invoke_json L (rc_retry rc) m (ae n) n) s m (ae n) h)"

definition rc_call_json_future ::
  "'j json_lib \<Rightarrow> (int \<Rightarrow> string) \<Rightarrow> rpc_client \<Rightarrow> string \<Rightarrow> string \<Rightarrow> discover_env \<Rightarrow> (nat \<Rightarrow> int \<Rightarrow> int) \<Rightarrow> (nat \<Rightarrow> 'j attempt_env)
     \<Rightarrow> (rpc_client \<times> (string + 'j) option \<times> host_info list) option" where
  "rc_call_json_future L reason rc m key de draw ae =
     retry_call rc m key de draw (\<lambda>n s h. attempt (invoke_json_future L reason (rc_retry rc) m (ae n) n) s m (ae n) h)"

definition rc_call_proto ::
  "('q \<Rightarrow> string option) \<Rightarrow> (string \<Rightarrow> 'r option) \<Rightarrow> (int \<Rightarrow> string) \<Rightarrow> rpc_client \<Rightarrow> string \<Rightarrow> 'q \<Rightarrow> int \<Rightarrow> string \<Rightarrow> discover_env
     \<Rightarrow> (nat \<Rightarrow> int \<Rightarrow> int) \<Rightarrow> (nat \<Rightarrow> 'j attempt_env) \<Rightarrow> (rpc_client \<times> 'r option \<times> host_info list) option" where
  "rc_call_proto ser parse reason rc m q timeout key de draw ae =
     retry_call rc m key de draw (\<lambda>n s h. attempt (invoke_proto ser parse reason (rc_retry rc) timeout m q (ae n) n) s m (ae n) h)"

text \<open>The callback form goes through the candidates once and stops at the first that takes the request.\<close>

fun callback_loop :: "string \<Rightarrow> (nat \<Rightarrow> 'j attempt_env) \<Rightarrow> rpc_client \<Rightarrow> nat \<Rightarrow> host_detail list \<Rightarrow> rpc_client \<times> bool" where
  "callback_loop m ae rc n [] = (rc, False)"
| "callback_loop m ae rc n (detail # details) =
     (let host = hd_host detail in
      case clientForHost rc host (ae_conn (ae n)) (ae_meanwhile (ae n)) of
        (rc1, None) \<Rightarrow> callback_loop m ae rc1 (Suc n) details
      | (rc1, Some i) \<Rightarrow>
          (case connection rc1 i of
             None \<Rightarrow> callback_loop m ae (rc1\<lparr>rc_breaker := onConnectionUnavailable (ae_breaker (ae n)) (rc_breaker rc1) m (hostKey host)\<rparr>) (Suc n) details
           | Some c \<Rightarrow>
               (let (b, ok) = call_json_callback (ae_breaker (ae n)) (rc_breaker rc1) m (ae_peer (ae n) c) (ae_sent (ae n));
                    rc2 = rc1\<lparr>rc_breaker := b\<rparr> in
                if ok then (rc2, True) else callback_loop m ae rc2 (Suc n) details)))"

definition rc_call_callback :: "rpc_client \<Rightarrow> string \<Rightarrow> string \<Rightarrow> discover_env \<Rightarrow> (nat \<Rightarrow> 'j attempt_env) \<Rightarrow> rpc_client \<times> bool" where
  "rc_call_callback rc m key de ae =
     (case getCandidates rc m key de of
        (rc1, None) \<Rightarrow> (rc1, False)
      | (rc1, Some candidates) \<Rightarrow> callback_loop m ae rc1 0 candidates)"

end
