(* ===== verification/Rpc_Client_Correct.thy ===== *)
theory Rpc_Client_Correct
  imports Rpc_Client
begin

text \<open>
  Correctness of the client facade: which hosts a call tries and when it stops, how long it waits,
  and what a lost connection leads to. The pool of connections has a theory of its own, \<open>Client_Pool\<close>.
\<close>

subsection \<open>Waiting\<close>

lemma backoff_defined:
  assumes "0 \<le> base_ms cfg" "base_ms cfg < 2 ^ 31" "n < 32"
  shows "backoffDelayMs cfg n draw
     = Some (draw (let e = min (base_ms cfg * 2 ^ n) (max_ms cfg) in if e \<le> 0 then 1 else e))"
proof -
  have "(2::int) ^ n \<le> 2 ^ 31" using assms(3) by (intro power_increasing) auto
  then have "base_ms cfg * 2 ^ n \<le> 2 ^ 31 * 2 ^ 31" using assms(1,2) by (intro mult_mono) auto
  moreover have "0 \<le> base_ms cfg * 2 ^ n" using assms(1) by simp
  ultimately show ?thesis using assms(3) by (simp add: backoffDelayMs_def shift_one_def mult_int64_def Let_def)
qed

text \<open>
  Remark. The wait before a retry is exponential with a cap: before the first 32 retries it is
  defined and between zero and the smaller of the base times a power of two and the cap (and at
  least one of room); from attempt 64 on, the shift is undefined, whatever the cap.
\<close>

theorem backoff_bounded:
  assumes "\<And>e. 0 < e \<Longrightarrow> 0 \<le> draw e \<and> draw e \<le> e" "0 \<le> base_ms cfg" "base_ms cfg < 2 ^ 31"
  shows "(n < 32 \<longrightarrow> (\<exists>d. backoffDelayMs cfg n draw = Some d \<and> 0 \<le> d \<and> d \<le> max 1 (min (base_ms cfg * 2 ^ n) (max_ms cfg))))
     \<and> (64 \<le> n \<longrightarrow> backoffDelayMs cfg n draw = None)"
proof (intro conjI impI)
  let ?e = "min (base_ms cfg * 2 ^ n) (max_ms cfg)"
  assume "n < 32"
  then show "\<exists>d. backoffDelayMs cfg n draw = Some d \<and> 0 \<le> d \<and> d \<le> max 1 ?e"
    using backoff_defined [OF assms(2,3)] assms(1) [of 1] assms(1) [of ?e] by (auto simp: max_def Let_def)
next
  assume "64 \<le> n"
  then show "backoffDelayMs cfg n draw = None" by (simp add: backoffDelayMs_def shift_one_def)
qed

theorem backoff_bounded_witness:
  "\<exists>d. backoffDelayMs default_retry 3 (\<lambda>e. e div 2) = Some d \<and> 0 \<le> d \<and> d \<le> 80"
  using backoff_bounded [of "\<lambda>e. e div 2" default_retry 3] by (simp add: default_retry_def)

subsection \<open>The hosts a call tries\<close>

definition host_at :: "host_detail list \<Rightarrow> nat \<Rightarrow> host_info" where
  "host_at cs n = hd_host (cs ! (n mod length cs))"

primrec attempt_state :: "(nat \<Rightarrow> 's \<Rightarrow> host_info \<Rightarrow> 's \<times> 'r attempt_outcome) \<Rightarrow> (nat \<Rightarrow> host_info) \<Rightarrow> 's \<Rightarrow> nat \<Rightarrow> 's" where
  "attempt_state body hosts s 0 = s"
| "attempt_state body hosts s (Suc n) = fst (body n (attempt_state body hosts s n) (hosts n))"

definition outcome_at :: "(nat \<Rightarrow> 's \<Rightarrow> host_info \<Rightarrow> 's \<times> 'r attempt_outcome) \<Rightarrow> (nat \<Rightarrow> host_info) \<Rightarrow> 's \<Rightarrow> nat \<Rightarrow> 'r attempt_outcome" where
  "outcome_at body hosts s n = snd (body n (attempt_state body hosts s n) (hosts n))"

text \<open>The hosts marked as tried before attempt \<open>n\<close>: those since the list was last begun.\<close>

definition tried_ok :: "host_detail list \<Rightarrow> nat \<Rightarrow> host_info list \<Rightarrow> bool" where
  "tried_ok cs n tried \<longleftrightarrow>
     set tried = hd_host ` set (take (if n = 0 then 0 else (n - 1) mod length cs + 1) cs)"

lemma find_untried:
  assumes "distinct (map hd_host cs)" "j < length cs"
  shows "find (\<lambda>c. hd_host c \<notin> hd_host ` set (take j cs)) cs = Some (cs ! j)"
proof -
  have inj: "hd_host (cs ! a) = hd_host (cs ! b) \<longleftrightarrow> a = b" if "a < length cs" "b < length cs" for a b
    using assms(1) that nth_eq_iff_index_eq [of "map hd_host cs" a b] by simp
  have "hd_host (cs ! j) \<notin> hd_host ` set (take j cs)"
    using inj assms(2) by (auto simp: in_set_conv_nth)
  moreover have "hd_host (cs ! i) \<in> hd_host ` set (take j cs)" if "i < j" for i
    using that assms(2) by (intro imageI) (auto simp: in_set_conv_nth intro!: exI [of _ i])
  ultimately show ?thesis using assms(2) by (subst find_Some_iff) blast
qed

lemma pick_in_order:
  assumes "distinct (map hd_host cs)" "cs \<noteq> []" "tried_ok cs n tried"
  obtains tried1 where "pickUntriedCandidate cs tried = (Some (cs ! (n mod length cs)), tried1)"
    "tried_ok cs (Suc n) (List.insert (host_at cs n) tried1)"
proof -
  let ?l = "length cs" and ?j = "if n = 0 then 0 else (n - 1) mod length cs + 1"
  have l: "0 < ?l" using assms(2) by simp
  have tr: "set tried = hd_host ` set (take ?j cs)" using assms(3) by (simp add: tried_ok_def)
  show thesis
  proof (cases "?j < ?l")
    case True
    have j: "?j = n mod ?l"
    proof (cases n)
      case (Suc k)
      then show ?thesis using True by (simp add: mod_Suc)
    qed simp
    have "find (\<lambda>c. hd_host c \<notin> set tried) cs = Some (cs ! (n mod ?l))"
      unfolding tr j by (rule find_untried [OF assms(1) mod_less_divisor [OF l]])
    then have "pickUntriedCandidate cs tried = (Some (cs ! (n mod ?l)), tried)"
      using assms(2) by (simp add: pickUntriedCandidate_def)
    moreover have "tried_ok cs (Suc n) (List.insert (host_at cs n) tried)"
      using tr l unfolding j by (simp add: tried_ok_def host_at_def take_Suc_conv_app_nth)
    ultimately show thesis by (rule that)
  next
    case False
    then obtain k where n: "n = Suc k" by (cases n) (use l in auto)
    have "k mod ?l < ?l" using l by simp
    then have full: "Suc (k mod ?l) = ?l" using False n by simp
    then have z: "n mod ?l = 0" using n by (simp add: mod_Suc)
    have "set tried = hd_host ` set cs" using tr n full by simp
    then have "find (\<lambda>c. hd_host c \<notin> set tried) cs = None" by (simp add: find_None_iff)
    then have "pickUntriedCandidate cs tried = (Some (cs ! (n mod ?l)), [])"
      using assms(2) z by (simp add: pickUntriedCandidate_def hd_conv_nth)
    moreover have "tried_ok cs (Suc n) (List.insert (host_at cs n) [])"
      using z l by (simp add: tried_ok_def host_at_def take_Suc_conv_app_nth)
    ultimately show thesis by (rule that)
  qed
qed

text \<open>How a call ends after \<open>k\<close> attempts.\<close>

definition stops_at :: "retry_config \<Rightarrow> (nat \<Rightarrow> 'r attempt_outcome) \<Rightarrow> nat \<Rightarrow> 'r option \<Rightarrow> bool" where
  "stops_at cfg out k r \<longleftrightarrow>
     0 < k \<and> (case out (k - 1) of
        Success v \<Rightarrow> r = Some v
      | Failure e \<Rightarrow> r = None \<and> (\<not> isRetryable e \<or> max_retries cfg \<le> int (k - 1))
      | _ \<Rightarrow> False)"

lemma retry_loop_ok:
  assumes "distinct (map hd_host cs)" "cs \<noteq> []"
    and "\<And>n s h. P s \<Longrightarrow> P (fst (body n s h)) \<and> snd (body n s h) \<noteq> NoClient \<and> snd (body n s h) \<noteq> Exception"
    and "\<And>n. int n < max_retries cfg \<Longrightarrow> backoffDelayMs cfg n (draw n) \<noteq> None"
    and "tried_ok cs n tried" "s = attempt_state body (host_at cs) s0 n" "int n \<le> max 0 (max_retries cfg)" "P s"
  shows "\<exists>k r. retry_loop cfg draw body cs s tried n
       = Some (attempt_state body (host_at cs) s0 k, r, map (host_at cs) [n ..< k])
     \<and> n < k \<and> int k \<le> max 0 (max_retries cfg) + 1
     \<and> (\<forall>i. n \<le> i \<and> i + 1 < k \<longrightarrow> (\<exists>e. outcome_at body (host_at cs) s0 i = Failure e \<and> isRetryable e))
     \<and> stops_at cfg (outcome_at body (host_at cs) s0) k r"
  using assms
proof (induction cfg draw body cs s tried n rule: retry_loop.induct)
  case (1 cfg draw body cs s tried n)
  obtain tried1 where pick: "pickUntriedCandidate cs tried = (Some (cs ! (n mod length cs)), tried1)"
    and tr: "tried_ok cs (Suc n) (List.insert (host_at cs n) tried1)"
    using pick_in_order [OF 1(2,3) 1(6)] by blast
  have h: "hd_host (cs ! (n mod length cs)) = host_at cs n" by (simp add: host_at_def)
  obtain s1 out where b: "body n s (host_at cs n) = (s1, out)" by fastforce
  have st: "s1 = attempt_state body (host_at cs) s0 (Suc n)" "outcome_at body (host_at cs) s0 n = out"
    using b 1(7) by (simp_all add: outcome_at_def)
  have stop: ?case if "retry_loop cfg draw body cs s tried n = Some (s1, r, [host_at cs n])"
    "stops_at cfg (outcome_at body (host_at cs) s0) (Suc n) r" for r
    using that st(1) 1(8) by (intro exI [of _ "Suc n"] exI [of _ r]) (auto simp: upt_rec)
  show ?case
  proof (cases out)
    case (Success v)
    then show ?thesis
      using b st(2) by (intro stop [of "Some v"]) (simp_all add: retry_loop.simps pick h stops_at_def)
  next
    case (Failure e)
    show ?thesis
    proof (cases "\<not> isRetryable e \<or> max_retries cfg \<le> int n")
      case True
      then show ?thesis
        using b st(2) Failure by (intro stop [of None]) (auto simp: retry_loop.simps pick h stops_at_def)
    next
      case False
      then obtain d where d: "backoffDelayMs cfg n (draw n) = Some d" using 1(5) [of n] by auto
      have "\<exists>k r. retry_loop cfg draw body cs s1 (List.insert (host_at cs n) tried1) (Suc n)
         = Some (attempt_state body (host_at cs) s0 k, r, map (host_at cs) [Suc n ..< k])
       \<and> Suc n < k \<and> int k \<le> max 0 (max_retries cfg) + 1
       \<and> (\<forall>i. Suc n \<le> i \<and> i + 1 < k \<longrightarrow> (\<exists>e. outcome_at body (host_at cs) s0 i = Failure e \<and> isRetryable e))
       \<and> stops_at cfg (outcome_at body (host_at cs) s0) k r"
        using 1(4) [OF 1(9), of n "host_at cs n"] b False
        by (intro 1(1) [OF pick [symmetric] refl, unfolded h, OF b [symmetric] Failure False d 1(2-4) _ tr st(1)] 1(5)) auto
      then obtain k r where k: "retry_loop cfg draw body cs s1 (List.insert (host_at cs n) tried1) (Suc n)
         = Some (attempt_state body (host_at cs) s0 k, r, map (host_at cs) [Suc n ..< k])" "Suc n < k"
          "int k \<le> max 0 (max_retries cfg) + 1"
          "\<forall>i. Suc n \<le> i \<and> i + 1 < k \<longrightarrow> (\<exists>e. outcome_at body (host_at cs) s0 i = Failure e \<and> isRetryable e)"
          "stops_at cfg (outcome_at body (host_at cs) s0) k r" by blast
      have "retry_loop cfg draw body cs s tried n = Some (attempt_state body (host_at cs) s0 k, r, map (host_at cs) [n ..< k])"
        using k(1,2) False b Failure d by (simp add: retry_loop.simps [of cfg draw body cs s] pick h upt_conv_Cons)
      moreover have "\<exists>e. outcome_at body (host_at cs) s0 i = Failure e \<and> isRetryable e" if "n \<le> i" "i + 1 < k" for i
        using that k(4) st(2) Failure False by (cases "i = n") auto
      ultimately show ?thesis using k(2,3,5) by (intro exI [of _ k] exI [of _ r]) auto
    qed
  qed (use 1(4) [OF 1(9), of n "host_at cs n"] b in simp_all)
qed


text \<open>A call finds a client for a host in both modes of operation.\<close>

definition has_client :: "rpc_client \<Rightarrow> bool" where
  "has_client rc \<longleftrightarrow> rc_discover rc \<noteq> None \<or> rc_direct rc \<noteq> None"

lemma clientForHost_keeps:
  "clientForHost rc host c mw = (rc1, r) \<Longrightarrow> rc_discover rc1 = rc_discover rc \<and> rc_direct rc1 = rc_direct rc \<and> (has_client rc \<longrightarrow> r \<noteq> None)"
  by (auto simp: clientForHost_def has_client_def case_prod_beta Let_def split: option.splits)

lemma attempt_keeps:
  assumes "has_client rc" "\<And>b c. snd (invoke b c) \<noteq> NoClient \<and> snd (invoke b c) \<noteq> Exception"
  shows "has_client (fst (attempt invoke rc m ae host)) \<and> snd (attempt invoke rc m ae host) \<noteq> NoClient
     \<and> snd (attempt invoke rc m ae host) \<noteq> Exception"
proof -
  obtain rc1 r where cl: "clientForHost rc host (ae_conn ae) (ae_meanwhile ae) = (rc1, r)" by fastforce
  then obtain i where "r = Some i" "has_client rc1"
    using clientForHost_keeps [OF cl] assms(1) by (auto simp: has_client_def)
  then show ?thesis
    using assms(2) by (auto simp: attempt_def cl case_prod_beta Let_def has_client_def split: option.splits)
qed

definition proto_attempt ::
  "('q \<Rightarrow> string option) \<Rightarrow> (string \<Rightarrow> 'r option) \<Rightarrow> (int \<Rightarrow> string) \<Rightarrow> retry_config \<Rightarrow> string \<Rightarrow> 'q \<Rightarrow> int
     \<Rightarrow> (nat \<Rightarrow> 'j attempt_env) \<Rightarrow> nat \<Rightarrow> rpc_client \<Rightarrow> host_info \<Rightarrow> rpc_client \<times> 'r attempt_outcome" where
  "proto_attempt ser parse reason cfg m q timeout ae n rc h =
     attempt (invoke_proto ser parse reason cfg timeout m q (ae n) n) rc m (ae n) h"

text \<open>
  Property C12. A Protobuf call tries its candidates in the order of the load balancing, round and
  round: attempt number \<open>n\<close> goes to candidate \<open>n\<close> modulo their number, so no host is tried
  again before every other candidate was. The call makes at least one attempt and at most one
  more than the configured number of retries, goes on exactly as long as attempts fail with an error
  that may be retried, and returns the result of the last attempt; it always returns.
\<close>

theorem retry_schedule:
  fixes rc :: rpc_client and ae :: "nat \<Rightarrow> 'j attempt_env" and parse :: "string \<Rightarrow> 'r option"
  assumes "getCandidates rc m key de = (rc1, Some cs)" "cs \<noteq> []" "distinct (map hd_host cs)" "has_client rc1"
    and "0 \<le> base_ms (rc_retry rc)" "base_ms (rc_retry rc) < 2 ^ 31" "max_retries (rc_retry rc) \<le> 32"
  shows "let body = proto_attempt ser parse reason (rc_retry rc) m q timeout ae in
     \<exists>k r. rc_call_proto ser parse reason rc m q timeout key de draw ae
       = Some (attempt_state body (host_at cs) rc1 k, r, map (host_at cs) [0 ..< k])
     \<and> int k \<le> max 0 (max_retries (rc_retry rc)) + 1
     \<and> (\<forall>i. i + 1 < k \<longrightarrow> (\<exists>e. outcome_at body (host_at cs) rc1 i = Failure e \<and> isRetryable e))
     \<and> stops_at (rc_retry rc) (outcome_at body (host_at cs) rc1) k r"
proof -
  let ?body = "proto_attempt ser parse reason (rc_retry rc) m q timeout ae"
  have inv: "snd (invoke_proto ser parse reason (rc_retry rc) timeout m q (ae n) n b c) \<noteq> NoClient
      \<and> snd (invoke_proto ser parse reason (rc_retry rc) timeout m q (ae n) n b c) \<noteq> Exception" for n b c
    by (simp add: invoke_proto_def Let_def split: sum.split)
  have "\<exists>k r. retry_loop (rc_retry rc) draw ?body cs rc1 [] 0
       = Some (attempt_state ?body (host_at cs) rc1 k, r, map (host_at cs) [0 ..< k])
     \<and> 0 < k \<and> int k \<le> max 0 (max_retries (rc_retry rc)) + 1
     \<and> (\<forall>i. 0 \<le> i \<and> i + 1 < k \<longrightarrow> (\<exists>e. outcome_at ?body (host_at cs) rc1 i = Failure e \<and> isRetryable e))
     \<and> stops_at (rc_retry rc) (outcome_at ?body (host_at cs) rc1) k r"
  proof (rule retry_loop_ok [where P = has_client])
    show "backoffDelayMs (rc_retry rc) n (draw n) \<noteq> None" if "int n < max_retries (rc_retry rc)" for n
      using backoff_defined [OF assms(5,6), of n] that assms(7) by simp
    show "has_client (fst (?body n s h)) \<and> snd (?body n s h) \<noteq> NoClient \<and> snd (?body n s h) \<noteq> Exception"
      if "has_client s" for n s h
      unfolding proto_attempt_def by (rule attempt_keeps [OF that inv])
  qed (use assms in \<open>simp_all add: tried_ok_def\<close>)
  moreover have "?body = (\<lambda>n s h. attempt (invoke_proto ser parse reason (rc_retry rc) timeout m q (ae n) n) s m (ae n) h)"
    by (intro ext) (simp add: proto_attempt_def)
  ultimately show ?thesis by (simp add: rc_call_proto_def retry_call_def assms(1) Let_def) blast
qed

definition demo_clocks :: clocks where
  "demo_clocks = \<lparr>ck_wall = 0, ck_load_steady = 0, ck_load_wall = 0, ck_now = 0, ck_now_wall = 0\<rparr>"

definition demo_attempt :: "json attempt_env" where
  "demo_attempt = \<lparr>ae_conn = 5, ae_meanwhile = id, ae_peer = (\<lambda>_. ''127.0.0.1:80''), ae_ck = demo_clocks, ae_ck_after = demo_clocks,
     ae_ids = ([], [], [], []), ae_send = (\<lambda>_. SendFailed rpc_error.TIMEOUT), ae_resend = (\<lambda>_. SendFailed rpc_error.TIMEOUT),
     ae_sent = None, ae_answer = (\<lambda>_. None)\<rparr>"

definition demo_discover :: discover_env where
  "demo_discover = \<lparr>de_hash = demo_hash, de_up = (\<lambda>_. True), de_draws = \<lparr>dr_pos = 0, dr_perm = [0]\<rparr>, de_reply = NoReply, de_meanwhile = id\<rparr>"

theorem retry_schedule_witness:
  "\<exists>rc r k. rc_call_proto Some (Some :: string \<Rightarrow> string option) (\<lambda>_. []) (RpcClient (\<lambda>_. None) False (''localhost'', 80) 5) ''inc''
       ''7'' 5000 [] demo_discover (\<lambda>_ e. e) (\<lambda>_. demo_attempt)
     = Some (rc, r, replicate k (''localhost'', 80)) \<and> k \<le> 4"
proof -
  let ?rc = "RpcClient (\<lambda>_. None) False (''localhost'', 80) 5"
  let ?cs = "[\<lparr>hd_host = (''localhost'', 80), hd_load = 0\<rparr>] :: host_detail list"
  have rc: "rc_retry ?rc = default_retry" "getCandidates ?rc ''inc'' [] demo_discover = (?rc, Some ?cs)" "has_client ?rc"
    by (simp_all add: RpcClient_def makeRetryConfig_def env_int_def default_retry_def getCandidates_def has_client_def Let_def)
  have hosts: "map (host_at ?cs) [0 ..< k] = replicate k (''localhost'', 80)" for k
    by (induction k) (simp_all add: host_at_def replicate_append_same)
  show ?thesis
    using retry_schedule [OF rc(2) _ _ rc(3), where ser = Some and parse = "Some :: string \<Rightarrow> string option" and reason = "\<lambda>_. []"
        and q = "''7''" and timeout = 5000 and draw = "\<lambda>_ e. e" and ae = "\<lambda>_. demo_attempt"]
    by (auto simp: rc(1) default_retry_def hosts Let_def)
qed

subsection \<open>Lost connections\<close>

text \<open>The client the pool holds for a host has lost its connection.\<close>

definition dead :: "rpc_client \<Rightarrow> host_info \<Rightarrow> bool" where
  "dead rc h \<longleftrightarrow> rc_discover rc \<noteq> None \<and> (\<exists>i. map_of (cp_table (rc_pool rc)) h = Some i
     \<and> i < length (cp_clients (rc_pool rc)) \<and> connection rc i = None)"

text \<open>What other calls may do to the pool: add clients, and lose connections.\<close>

definition keeps_entries :: "(client_pool \<Rightarrow> client_pool) \<Rightarrow> bool" where
  "keeps_entries f \<longleftrightarrow> (\<forall>cp. length (cp_clients cp) \<le> length (cp_clients (f cp))
     \<and> (\<forall>h i. map_of (cp_table cp) h = Some i \<longrightarrow> map_of (cp_table (f cp)) h = Some i)
     \<and> (\<forall>i < length (cp_clients cp). mc_connection (cp_clients cp ! i) = None \<longrightarrow> mc_connection (cp_clients (f cp) ! i) = None))"

primrec attempt_runs ::
  "rpc_client \<Rightarrow> ((mem_circuit_store circuit_breaker \<Rightarrow> tcp_conn \<Rightarrow> mem_circuit_store circuit_breaker \<times> 'r attempt_outcome)
     \<times> string \<times> 'j attempt_env \<times> host_info) list \<Rightarrow> rpc_client" where
  "attempt_runs rc [] = rc"
| "attempt_runs rc (x # xs) = (case x of (invoke, m, ae, h) \<Rightarrow> attempt_runs (fst (attempt invoke rc m ae h)) xs)"

lemma getClient_keeps:
  assumes "keeps_entries mw" "map_of (cp_table cp) h = Some i" "i < length (cp_clients cp)" "mc_connection (cp_clients cp ! i) = None"
  shows "map_of (cp_table (fst (getClient cp h' c mw))) h = Some i \<and> i < length (cp_clients (fst (getClient cp h' c mw)))
     \<and> mc_connection (cp_clients (fst (getClient cp h' c mw)) ! i) = None"
proof -
  define cp1 where "cp1 = mw (fst (make_client cp c))"
  have "map_of (cp_table (fst (make_client cp c))) h = Some i" "i < length (cp_clients (fst (make_client cp c)))"
    "mc_connection (cp_clients (fst (make_client cp c)) ! i) = None"
    using assms(2-4) by (simp_all add: make_client_def nth_append)
  then have cp1: "map_of (cp_table cp1) h = Some i" "i < length (cp_clients cp1)" "mc_connection (cp_clients cp1 ! i) = None"
    using assms(1) unfolding cp1_def keeps_entries_def by (meson less_le_trans)+
  have "map_of (cp_table (fst (publish_client cp1 h' j))) h = Some i \<and> i < length (cp_clients (fst (publish_client cp1 h' j)))
      \<and> mc_connection (cp_clients (fst (publish_client cp1 h' j)) ! i) = None" for j
    using cp1 by (cases "j = i") (auto simp: publish_client_def update_conv' split: option.splits)
  then show ?thesis
    using assms(2-4) by (auto simp: getClient_def newClient_def case_prod_beta Let_def cp1_def split: option.split)
qed

lemma dead_attempt:
  assumes "dead rc h" "keeps_entries (ae_meanwhile ae)"
  shows "dead (fst (attempt invoke rc m ae h')) h"
proof -
  obtain cd i where rc: "rc_discover rc = Some cd" "map_of (cp_table (rc_pool rc)) h = Some i" "i < length (cp_clients (rc_pool rc))"
      "mc_connection (cp_clients (rc_pool rc) ! i) = None"
    using assms(1) by (auto simp: dead_def connection_def)
  obtain cp j where g: "getClient (rc_pool rc) h' (ae_conn ae) (ae_meanwhile ae) = (cp, j)" by fastforce
  have "map_of (cp_table cp) h = Some i" "i < length (cp_clients cp)" "mc_connection (cp_clients cp ! i) = None"
    using getClient_keeps [OF assms(2) rc(2-4), of h' "ae_conn ae"] g by simp_all
  then show ?thesis
    by (auto simp: attempt_def clientForHost_def rc(1) g dead_def connection_def case_prod_beta Let_def split: option.split)
qed

lemma dead_fails:
  assumes "dead rc h"
  shows "attempt invoke rc m ae h
     = (rc\<lparr>rc_breaker := cb_onFailure mem_ops (rc_breaker rc) m (hostKey h) (ae_ck_after ae)\<rparr>, Failure CONN_CLOSED)"
  using assms by (auto simp: dead_def attempt_def clientForHost_def getClient_def onConnectionUnavailable_def ae_breaker_def
      circuit_breaker_ops_def connection_def)

lemma dead_runs:
  "dead rc h \<Longrightarrow> \<forall>(invoke, m, ae, h') \<in> set xs. keeps_entries (ae_meanwhile ae) \<Longrightarrow> dead (attempt_runs rc xs) h"
  by (induction xs arbitrary: rc) (auto intro: dead_attempt)

text \<open>
  Remark. A connection that is lost is not made again: while the pool holds a client without a
  connection, every attempt at its host, after any further calls, fails with a closed connection
  without trying to connect. Only an offline notification for the host, which drops the client from
  the pool, makes the next call connect again.
\<close>

theorem lost_connection_not_renewed:
  assumes "dead rc h" "\<forall>(invoke, m, ae, h') \<in> set xs. keeps_entries (ae_meanwhile ae)"
  shows "snd (attempt invoke (attempt_runs rc xs) m ae h) = Failure CONN_CLOSED
     \<and> (let (rc2, i) = clientForHost (delClient (attempt_runs rc xs) h) h c id in connection rc2 (the i) = Some c)"
proof -
  have d: "dead (attempt_runs rc xs) h" by (rule dead_runs [OF assms])
  then obtain cd where cd: "rc_discover (attempt_runs rc xs) = Some cd" by (auto simp: dead_def)
  have "let (rc2, i) = clientForHost (delClient (attempt_runs rc xs) h) h c id in connection rc2 (the i) = Some c"
    by (simp add: clientForHost_def delClient_def cd getClient_def newClient_def make_client_def publish_client_def delete_conv
        connection_def client_onConnection_def client_connect_def Let_def)
  then show ?thesis by (simp add: dead_fails [OF d])
qed

definition lost_client :: rpc_client where
  "lost_client = (RpcClient (\<lambda>_. None) True (''registry'', 1) 1)\<lparr>rc_pool :=
     \<lparr>cp_clients = [\<lparr>mc_connection = None, mc_latch = 0\<rparr>], cp_table = [((''localhost'', 80), 0)]\<rparr>\<rparr>"

lemma lost_client_dead: "dead lost_client (''localhost'', 80)"
  by (simp add: dead_def lost_client_def RpcClient_def connection_def Let_def)

lemma keeps_id: "keeps_entries id"
  by (simp add: keeps_entries_def)

theorem lost_connection_not_renewed_witness:
  "snd (attempt (\<lambda>b c. (b, Success ())) (attempt_runs lost_client [(\<lambda>b c. (b, Success ()), ''inc'', demo_attempt, (''other'', 90))])
     ''inc'' demo_attempt (''localhost'', 80)) = Failure CONN_CLOSED"
  using lost_connection_not_renewed [OF lost_client_dead,
      of "[(\<lambda>b c. (b, Success ()), ''inc'', demo_attempt, (''other'', 90))]" "\<lambda>b c. (b, Success ())" "''inc''" demo_attempt]
  by (simp add: demo_attempt_def keeps_id)

text \<open>
  Remark. A host announced by name has two breakers: a lost connection is reported under the
  announced name, and an offline notification clears the breaker of that name, but calls
  are checked and reported under the numeric address of the peer. So lost connections never make
  the breaker refuse the host, and a refusal outlives the offline notification.
\<close>

theorem breaker_split_by_name:
  assumes "dead rc h" "hostKey h \<noteq> peer" "cb_inv (rc_breaker rc)"
  shows "cb_status (rc_breaker (fst (attempt invoke rc m ae h))) m' peer = cb_status (rc_breaker rc) m' peer
     \<and> cb_status (rc_breaker (delClient rc h)) m' peer = cb_status (rc_breaker rc) m' peer
     \<and> cb_status (rc_breaker (delClient rc h)) m' (hostKey h) = default_status"
proof -
  have "distinct (map fst (cb_nodes (rc_breaker rc)))" using assms(3) by (simp add: cb_inv_def)
  note rm = removeHost_loop_nodes [OF this, of mem_ops "cb_store (rc_breaker rc)" "hostKey h"]
  have "cb_status (rc_breaker (delClient rc h)) a b = (if b = hostKey h then default_status else cb_status (rc_breaker rc) a b)" for a b
    using rm [of a b] by (simp add: delClient_def removeHost_def cb_status_def case_prod_beta Let_def)
  moreover have "cb_status (rc_breaker (fst (attempt invoke rc m ae h))) m' peer = cb_status (rc_breaker rc) m' peer"
    using mem.frame_failure [of m' peer m "hostKey h" "rc_breaker rc" "ae_ck_after ae"] assms(2)
    by (simp add: dead_fails [OF assms(1)] cb_status_def)
  ultimately show ?thesis using assms(2) by simp
qed

theorem breaker_split_by_name_witness:
  "cb_status (rc_breaker (fst (attempt (\<lambda>b c. (b, Success ())) lost_client ''inc'' demo_attempt (''localhost'', 80)))) ''inc'' ''127.0.0.1:80''
     = default_status"
proof -
  have "cb_inv (rc_breaker lost_client)" "cb_status (rc_breaker lost_client) ''inc'' ''127.0.0.1:80'' = default_status"
    by (simp_all add: lost_client_def RpcClient_def makeBreaker_def new_circuit_breaker_def cb_inv_def nm_get_def cb_status_def Let_def)
  moreover have "hostKey (''localhost'', 80) \<noteq> ''127.0.0.1:80''" by (simp add: hostKey_def)
  ultimately show ?thesis
    using breaker_split_by_name [OF lost_client_dead, of "''127.0.0.1:80''" "\<lambda>b c. (b, Success ())" "''inc''" demo_attempt "''inc''"] by simp
qed

end
