(* ===== verification/Client_Pool.thy ===== *)
theory Client_Pool
  imports Rpc_Client
begin

text \<open>
  The pool of connections of \<open>rpc/src/client/rpc_client.hpp\<close> under everything that can happen to it:
  threads that look for the client of a host (\<open>getClient\<close>, \<open>newClient\<close>), connections that are
  lost, and offline notifications that drop a host from the pool (\<open>delClient\<close>). A run is a list of
  events, in any order. The theorem says which client a thread gets, and when its connection is open.
\<close>

subsection \<open>Events\<close>

text \<open>
  A thread that looks for the client of a host: it looks into the pool under the lock, connects
  without the lock when there is none, and enters the pool under the lock again.
\<close>

datatype pool_thread = Lookup host_info | Publish host_info nat | Got host_info nat

fun pool_step :: "client_pool \<Rightarrow> tcp_conn \<Rightarrow> pool_thread \<Rightarrow> client_pool \<times> pool_thread" where
  "pool_step cp c (Lookup h) =
     (case map_of (cp_table cp) h of
        Some i \<Rightarrow> (cp, Got h i)
      | None \<Rightarrow> (let (cp1, i) = make_client cp c in (cp1, Publish h i)))"
| "pool_step cp c (Publish h i) = (let (cp1, j) = publish_client cp h i in (cp1, Got h j))"
| "pool_step cp c (Got h i) = (cp, Got h i)"

text \<open>The connection callback of a client, and what \<open>delClient\<close> does to the pool.\<close>

definition lose_connection :: "client_pool \<Rightarrow> nat \<Rightarrow> client_pool" where
  "lose_connection cp i =
     (if i < length (cp_clients cp)
      then cp\<lparr>cp_clients := (cp_clients cp)[i := client_onConnection (cp_clients cp ! i) 0 False]\<rparr> else cp)"

definition drop_host :: "client_pool \<Rightarrow> host_info \<Rightarrow> client_pool" where
  "drop_host cp h = cp\<lparr>cp_table := AList.delete h (cp_table cp)\<rparr>"

datatype pool_event =
    Thread_starts host_info
  | Thread_moves nat tcp_conn
  | Connection_lost nat
  | Host_offline host_info

fun pool_do :: "client_pool \<times> pool_thread list \<Rightarrow> pool_event \<Rightarrow> client_pool \<times> pool_thread list" where
  "pool_do (cp, ts) (Thread_starts h) = (cp, ts @ [Lookup h])"
| "pool_do (cp, ts) (Thread_moves k c) =
     (if k < length ts then let (cp1, t) = pool_step cp c (ts ! k) in (cp1, ts[k := t]) else (cp, ts))"
| "pool_do (cp, ts) (Connection_lost i) = (lose_connection cp i, ts)"
| "pool_do (cp, ts) (Host_offline h) = (drop_host cp h, ts)"

abbreviation empty_pool :: "client_pool \<times> pool_thread list" where
  "empty_pool \<equiv> (\<lparr>cp_clients = [], cp_table = []\<rparr>, [])"

text \<open>The steps are those of the operations of the client.\<close>

lemma getClient_steps:
  "getClient cp h c mw =
     (case pool_step cp c (Lookup h) of
        (cp1, Got h' i) \<Rightarrow> (cp1, i)
      | (cp1, Publish h' i) \<Rightarrow> (case pool_step (mw cp1) c (Publish h' i) of (cp2, Got h2 j) \<Rightarrow> (cp2, j)))"
  by (simp add: getClient_def newClient_def case_prod_beta Let_def split: option.split)

lemma delClient_drops: "rc_pool (delClient rc h) = drop_host (rc_pool rc) h"
  by (simp add: delClient_def drop_host_def)

subsection \<open>What holds after every run\<close>

definition live :: "client_pool \<Rightarrow> nat \<Rightarrow> bool" where
  "live cp i \<longleftrightarrow> i < length (cp_clients cp) \<and> mc_connection (cp_clients cp ! i) \<noteq> None"

abbreviation pooled :: "client_pool \<Rightarrow> host_info \<Rightarrow> nat \<Rightarrow> bool" where
  "pooled cp h i \<equiv> map_of (cp_table cp) h = Some i"

text \<open>
  A client stands in one place only: in the pool under one host, or with the one thread that
  is about to enter it.
\<close>

definition entering :: "pool_thread list \<Rightarrow> nat \<Rightarrow> nat \<Rightarrow> bool" where
  "entering ts k i \<longleftrightarrow> k < length ts \<and> (\<exists>h. ts ! k = Publish h i)"

definition placed :: "client_pool \<Rightarrow> pool_thread list \<Rightarrow> bool" where
  "placed cp ts \<longleftrightarrow>
     (\<forall>h i. pooled cp h i \<longrightarrow> i < length (cp_clients cp) \<and> (\<forall>h'. pooled cp h' i \<longrightarrow> h' = h))
   \<and> (\<forall>k i. entering ts k i \<longrightarrow> i < length (cp_clients cp) \<and> (\<forall>h'. \<not> pooled cp h' i)
        \<and> (\<forall>k'. entering ts k' i \<longrightarrow> k' = k))"

text \<open>Where a client stands, and the two facts about its connection.\<close>

definition held :: "client_pool \<Rightarrow> pool_thread list \<Rightarrow> nat \<Rightarrow> bool" where
  "held cp ts i \<longleftrightarrow> (\<exists>h. pooled cp h i) \<or> (\<exists>k. entering ts k i)"

definition open_unless :: "nat set \<Rightarrow> client_pool \<Rightarrow> pool_thread list \<Rightarrow> bool" where
  "open_unless L cp ts \<longleftrightarrow> (\<forall>i. held cp ts i \<longrightarrow> i \<notin> L \<longrightarrow> live cp i)"

definition none_leaked :: "client_pool \<Rightarrow> pool_thread list \<Rightarrow> bool" where
  "none_leaked cp ts \<longleftrightarrow> (\<forall>i. live cp i \<longrightarrow> held cp ts i)"

lemma placedI:
  assumes "\<And>h i. pooled cp h i \<Longrightarrow> i < length (cp_clients cp)" "\<And>h h' i. pooled cp h i \<Longrightarrow> pooled cp h' i \<Longrightarrow> h' = h"
    "\<And>k i. entering ts k i \<Longrightarrow> i < length (cp_clients cp)" "\<And>k h i. entering ts k i \<Longrightarrow> \<not> pooled cp h i"
    "\<And>k k' i. entering ts k i \<Longrightarrow> entering ts k' i \<Longrightarrow> k' = k"
  shows "placed cp ts"
  using assms unfolding placed_def by blast

lemma placedD:
  assumes "placed cp ts"
  shows "pooled cp h i \<Longrightarrow> i < length (cp_clients cp)" "pooled cp h i \<Longrightarrow> pooled cp h' i \<Longrightarrow> h' = h"
    "entering ts k i \<Longrightarrow> i < length (cp_clients cp)" "entering ts k i \<Longrightarrow> \<not> pooled cp h i"
    "entering ts k i \<Longrightarrow> entering ts k' i \<Longrightarrow> k' = k"
  using assms unfolding placed_def by blast+

lemma entering_simps [simp]:
  "entering (ts @ [Lookup h]) k i = entering ts k i"
  "k < length ts \<Longrightarrow> entering (ts[k := t]) k' i = (if k' = k then \<exists>h. t = Publish h i else entering ts k' i)"
  by (auto simp: entering_def nth_append nth_list_update)

lemma drop_host_pooled: "pooled (drop_host cp h) h' i \<longleftrightarrow> h' \<noteq> h \<and> pooled cp h' i"
  by (simp add: drop_host_def delete_conv')

lemma drop_host_clients [simp]: "cp_clients (drop_host cp h) = cp_clients cp" "live (drop_host cp h) i = live cp i"
  by (simp_all add: drop_host_def live_def)

lemma lose_connection_simps [simp]:
  "cp_table (lose_connection cp i) = cp_table cp" "length (cp_clients (lose_connection cp i)) = length (cp_clients cp)"
  "live (lose_connection cp i) j \<longleftrightarrow> j \<noteq> i \<and> live cp j"
  by (auto simp: lose_connection_def live_def client_onConnection_def nth_list_update)

text \<open>The three ways a thread moves.\<close>

lemma made:
  assumes "make_client cp c = (cp1, i)"
  shows "i = length (cp_clients cp)" "cp_table cp1 = cp_table cp" "length (cp_clients cp1) = Suc (length (cp_clients cp))"
    "live cp1 j \<longleftrightarrow> j = i \<or> live cp j"
  using assms by (auto simp: make_client_def live_def nth_append client_onConnection_def)

lemma joined:
  assumes "publish_client cp h i = (cp1, j)" "pooled cp h e"
  shows "j = e" "cp_table cp1 = cp_table cp" "length (cp_clients cp1) = length (cp_clients cp)"
    "live cp1 a \<longleftrightarrow> a \<noteq> i \<and> live cp a"
  using assms by (auto simp: publish_client_def live_def nth_list_update) (cases "a = i"; simp)+

lemma entered:
  assumes "publish_client cp h i = (cp1, j)" "map_of (cp_table cp) h = None"
  shows "j = i" "cp_clients cp1 = cp_clients cp" "live cp1 a = live cp a"
    "pooled cp1 h' a \<longleftrightarrow> (if h' = h then a = i else pooled cp h' a)"
  using assms by (auto simp: publish_client_def live_def update_conv')

lemma thread_moves_cases:
  assumes "pool_do (cp, ts) (Thread_moves k c) = (cp1, ts1)"
  obtains (same) "cp1 = cp" "ts1 = ts"
  | (found) h i where "k < length ts" "ts ! k = Lookup h" "pooled cp h i" "cp1 = cp" "ts1 = ts[k := Got h i]"
  | (made) h i where "k < length ts" "ts ! k = Lookup h" "make_client cp c = (cp1, i)" "map_of (cp_table cp) h = None"
      "ts1 = ts[k := Publish h i]"
  | (joined) h i e where "k < length ts" "ts ! k = Publish h i" "pooled cp h e" "publish_client cp h i = (cp1, e)"
      "ts1 = ts[k := Got h e]"
  | (entered) h i where "k < length ts" "ts ! k = Publish h i" "map_of (cp_table cp) h = None"
      "publish_client cp h i = (cp1, i)" "ts1 = ts[k := Got h i]"
proof (cases "k < length ts")
  case True
  show thesis
  proof (cases "ts ! k")
    case (Lookup h)
    obtain cp2 i where p: "make_client cp c = (cp2, i)" by fastforce
    show thesis
    proof (cases "map_of (cp_table cp) h")
      case None
      have "cp1 = cp2 \<and> ts1 = ts[k := Publish h i]" using assms True Lookup None p by simp
      then show thesis using made [OF True Lookup _ None, of i] p by blast
    next
      case (Some e)
      have "cp1 = cp \<and> ts1 = ts[k := Got h e]" using assms True Lookup Some by simp
      then show thesis using found [OF True Lookup Some] by blast
    qed
  next
    case (Publish h i)
    obtain cp2 j where p: "publish_client cp h i = (cp2, j)" by fastforce
    then have "cp1 = cp2" "ts1 = ts[k := Got h j]" using assms True Publish by auto
    show thesis
    proof (cases "map_of (cp_table cp) h")
      case None
      then show thesis using entered [OF True Publish] Client_Pool.entered(1) [OF p None] p \<open>cp1 = cp2\<close> \<open>ts1 = _\<close> by simp
    next
      case (Some e)
      then show thesis using joined [OF True Publish] Client_Pool.joined(1) [OF p Some] p \<open>cp1 = cp2\<close> \<open>ts1 = _\<close> by simp
    qed
  next
    case (Got h i)
    have "ts[k := Got h i] = ts" using Got by (metis list_update_id)
    then have "pool_do (cp, ts) (Thread_moves k c) = (cp, ts)" using True Got by simp
    then show thesis using assms same by simp
  qed
qed (use assms same in simp)

lemma placed_event:
  assumes pl: "placed cp ts" and "pool_do (cp, ts) e = (cp1, ts1)"
  shows "placed cp1 ts1"
proof (cases e)
  case (Thread_starts h)
  then have "cp1 = cp" "ts1 = ts @ [Lookup h]" using assms(2) by auto
  then show ?thesis using pl by (simp add: placed_def)
next
  case (Thread_moves k c)
  from assms(2) [unfolded this] show ?thesis
  proof (cases rule: thread_moves_cases)
    case same
    then show ?thesis using pl by simp
  next
    case (found h i)
    have "placed cp (ts[k := Got h i])"
      by (rule placedI) (use placedD [OF pl] found(1) in \<open>auto split: if_splits\<close>)
    then show ?thesis by (simp add: found)
  next
    case (made h i)
    note m = Client_Pool.made [OF made(3)] and e = entering_simps(2) [OF made(1)]
    have lt: "pooled cp h' j \<Longrightarrow> j < i" "entering ts k' j \<Longrightarrow> j < i" for h' k' j
      using placedD(1,3) [OF pl] by (auto simp: m(1))
    have ent: "entering ts1 k' j \<longleftrightarrow> (if k' = k then j = i else entering ts k' j)" for k' j
      by (auto simp: made(5) e)
    have no: "\<not> pooled cp h' i" "\<not> entering ts k' i" for h' k' using lt by blast+
    show ?thesis
    proof (rule placedI)
      show "pooled cp1 h' j \<Longrightarrow> j < length (cp_clients cp1)" for h' j
        using lt(1) [of h' j] by (simp add: m(2,3) m(1) [symmetric])
      show "pooled cp1 h' j \<Longrightarrow> pooled cp1 h'' j \<Longrightarrow> h'' = h'" for h' h'' j
        unfolding m(2) by (rule placedD(2) [OF pl])
      show "entering ts1 k' j \<Longrightarrow> j < length (cp_clients cp1)" for k' j
        using lt(2) [of k' j] by (simp add: ent m(3) m(1) [symmetric] split: if_splits)
      show "entering ts1 k' j \<Longrightarrow> \<not> pooled cp1 h' j" for k' h' j
        unfolding ent m(2) using no(1) [of h'] placedD(4) [OF pl, of k' j h'] by (auto split: if_splits)
      show "entering ts1 k' j \<Longrightarrow> entering ts1 k'' j \<Longrightarrow> k'' = k'" for k' k'' j
        unfolding ent using no(2) [of k'] no(2) [of k''] placedD(5) [OF pl, of k' j k''] by (auto split: if_splits)
    qed
  next
    case (joined h i e)
    note m = Client_Pool.joined [OF joined(4,3)]
    show ?thesis unfolding joined(5)
      by (rule placedI, unfold m(2,3) entering_simps(2) [OF joined(1)])
        (use placedD [OF pl] in \<open>auto split: if_splits\<close>)
  next
    case (entered h i)
    note m = Client_Pool.entered [OF entered(4,3)]
    have ki: "entering ts k i" using entered(1,2) by (auto simp: entering_def)
    show ?thesis unfolding entered(5)
      by (rule placedI, unfold m(2,4) entering_simps(2) [OF entered(1)])
        (use placedD [OF pl] ki in \<open>auto split: if_splits\<close>)
  qed
next
  case (Connection_lost i)
  then show ?thesis using assms by (auto simp: placed_def)
next
  case (Host_offline h)
  then have "cp1 = drop_host cp h" "ts1 = ts" using assms(2) by auto
  then show ?thesis
    by (intro placedI) (use placedD [OF pl] in \<open>auto simp: drop_host_pooled simp del: split_paired_All\<close>)
qed

text \<open>A held client has its connection unless it was lost; what is not held has none.\<close>

lemma held_event:
  assumes pl: "placed cp ts" and "pool_do (cp, ts) e = (cp1, ts1)" "\<forall>i. e = Connection_lost i \<longrightarrow> i \<in> L"
  shows "open_unless L cp ts \<Longrightarrow> open_unless L cp1 ts1"
    "none_leaked cp ts \<Longrightarrow> \<forall>h. e \<noteq> Host_offline h \<Longrightarrow> none_leaked cp1 ts1"
proof -
  have "(open_unless L cp ts \<longrightarrow> open_unless L cp1 ts1) \<and> (none_leaked cp ts \<longrightarrow> (\<forall>h. e \<noteq> Host_offline h) \<longrightarrow> none_leaked cp1 ts1)"
  proof (cases e)
    case (Thread_starts h)
    then have "cp1 = cp" "ts1 = ts @ [Lookup h]" using assms(2) by auto
    then show ?thesis by (simp add: open_unless_def none_leaked_def held_def)
  next
    case (Thread_moves k c)
    from assms(2) [unfolded this] show ?thesis
    proof (cases rule: thread_moves_cases)
      case same
      then show ?thesis by simp
    next
      case (found h i)
      have "\<not> entering ts k j" for j using found(2) by (simp add: entering_def)
      then have "held cp1 ts1 j = held cp ts j" for j
        unfolding held_def found(4,5) entering_simps(2) [OF found(1)] by (metis pool_thread.distinct(6))
      then show ?thesis by (simp add: open_unless_def none_leaked_def found(4))
    next
      case (made h i)
      note m = Client_Pool.made [OF made(3)] and e = entering_simps(2) [OF made(1)]
      have "\<not> entering ts k j" for j using made(2) by (simp add: entering_def)
      then have "held cp1 ts1 j \<longleftrightarrow> j = i \<or> held cp ts j" for j unfolding held_def made(5) m(2) e by (metis pool_thread.inject(2))
      then show ?thesis unfolding open_unless_def none_leaked_def m(4) by blast
    next
      case (joined h i e)
      note m = Client_Pool.joined [OF joined(4,3)]
      have ki: "entering ts k i" using joined(1,2) by (auto simp: entering_def)
      have k: "entering ts k j \<longleftrightarrow> j = i" for j using joined(1,2) by (auto simp: entering_def)
      have "held cp1 ts1 j \<longleftrightarrow> j \<noteq> i \<and> held cp ts j" for j
        unfolding held_def joined(5) m(2) entering_simps(2) [OF joined(1)]
        using k placedD(4,5) [OF pl ki] by (metis pool_thread.distinct(6))
      then show ?thesis unfolding open_unless_def none_leaked_def m(4) by blast
    next
      case (entered h i)
      note m = Client_Pool.entered [OF entered(4,3)]
      have k: "entering ts k j \<longleftrightarrow> j = i" for j using entered(1,2) by (auto simp: entering_def)
      have "held cp1 ts1 j \<longleftrightarrow> held cp ts j" for j
        unfolding held_def entered(5) m(4) entering_simps(2) [OF entered(1)]
        using k entered(3) by (metis option.distinct(1) pool_thread.distinct(6))
      then show ?thesis unfolding open_unless_def none_leaked_def m(3) by blast
    qed
  next
    case (Connection_lost i)
    then have "cp1 = lose_connection cp i" "ts1 = ts" "i \<in> L" using assms(2,3) by auto
    moreover from this have "held cp1 ts1 j = held cp ts j" for j by (simp add: held_def)
    ultimately show ?thesis by (auto simp: open_unless_def none_leaked_def)
  next
    case (Host_offline h)
    then have c: "cp1 = drop_host cp h" "ts1 = ts" using assms(2) by auto
    then have "held cp1 ts1 j \<Longrightarrow> held cp ts j" for j by (auto simp: held_def drop_host_pooled)
    then show ?thesis by (auto simp: open_unless_def c(1) Host_offline)
  qed
  then show "open_unless L cp ts \<Longrightarrow> open_unless L cp1 ts1"
    "none_leaked cp ts \<Longrightarrow> \<forall>h. e \<noteq> Host_offline h \<Longrightarrow> none_leaked cp1 ts1" by auto
qed

text \<open>An entry stays until the host goes offline, and a thread that gets a client gets that of the entry.\<close>

lemma entry_event:
  assumes "pool_do (cp, ts) e = (cp1, ts1)" "e \<noteq> Host_offline h"
  shows "pooled cp h i \<Longrightarrow> pooled cp1 h i"
    "k < length ts1 \<Longrightarrow> ts1 ! k = Got h i \<Longrightarrow> k < length ts \<and> ts ! k = Got h i \<or> pooled cp1 h i"
    "k < length ts \<Longrightarrow> k < length ts1" "k < length ts \<Longrightarrow> ts ! k = Got h' j \<Longrightarrow> ts1 ! k = Got h' j"
proof -
  have "(pooled cp h i \<longrightarrow> pooled cp1 h i)
    \<and> (k < length ts1 \<longrightarrow> ts1 ! k = Got h i \<longrightarrow> k < length ts \<and> ts ! k = Got h i \<or> pooled cp1 h i)
    \<and> (k < length ts \<longrightarrow> k < length ts1) \<and> (k < length ts \<longrightarrow> ts ! k = Got h' j \<longrightarrow> ts1 ! k = Got h' j)"
  proof (cases e)
    case (Thread_starts h)
    then have "cp1 = cp" "ts1 = ts @ [Lookup h]" using assms(1) by auto
    then show ?thesis by (auto simp: nth_append less_Suc_eq)
  next
    case (Thread_moves k2 c)
    from assms(1) [unfolded this] show ?thesis
    proof (cases rule: thread_moves_cases)
      case (made h2 i2)
      then show ?thesis using Client_Pool.made(2) [OF made(3)] by (auto simp: nth_list_update)
    next
      case (joined h2 i2 e)
      then show ?thesis using Client_Pool.joined(2) [OF joined(4,3)] by (auto simp: nth_list_update)
    next
      case (entered h2 i2)
      note m = Client_Pool.entered(4) [OF entered(4,3), of h i]
      show ?thesis using entered(1-3) m by (auto simp: nth_list_update entered(5))
    qed (auto simp: nth_list_update)
  next
    case (Connection_lost i)
    then show ?thesis using assms(1) by auto
  next
    case (Host_offline h2)
    then have "cp1 = drop_host cp h2" "ts1 = ts" "h2 \<noteq> h" using assms by auto
    then show ?thesis by (simp add: drop_host_pooled)
  qed
  then show "pooled cp h i \<Longrightarrow> pooled cp1 h i"
    "k < length ts1 \<Longrightarrow> ts1 ! k = Got h i \<Longrightarrow> k < length ts \<and> ts ! k = Got h i \<or> pooled cp1 h i"
    "k < length ts \<Longrightarrow> k < length ts1" "k < length ts \<Longrightarrow> ts ! k = Got h' j \<Longrightarrow> ts1 ! k = Got h' j"
    by blast+
qed

subsection \<open>Runs\<close>

lemma run_placed:
  assumes "foldl pool_do (cp, ts) es = (cp', ts')" "placed cp ts" "\<forall>i. Connection_lost i \<in> set es \<longrightarrow> i \<in> L"
  shows "placed cp' ts' \<and> (open_unless L cp ts \<longrightarrow> open_unless L cp' ts')
    \<and> (none_leaked cp ts \<longrightarrow> (\<forall>h. Host_offline h \<notin> set es) \<longrightarrow> none_leaked cp' ts')"
  using assms
proof (induction es arbitrary: cp ts)
  case (Cons e es)
  obtain cp1 ts1 where st: "pool_do (cp, ts) e = (cp1, ts1)" by fastforce
  have L: "\<forall>i. e = Connection_lost i \<longrightarrow> i \<in> L" using Cons.prems(3) by simp
  have "placed cp1 ts1" by (rule placed_event [OF Cons.prems(2) st])
  then have "placed cp' ts' \<and> (open_unless L cp1 ts1 \<longrightarrow> open_unless L cp' ts')
      \<and> (none_leaked cp1 ts1 \<longrightarrow> (\<forall>h. Host_offline h \<notin> set es) \<longrightarrow> none_leaked cp' ts')"
    using Cons.IH [of cp1 ts1] Cons.prems(1,3) st by simp
  then show ?case using held_event [OF Cons.prems(2) st L] by (simp del: split_paired_All) blast
qed simp

lemma run_entry:
  assumes "foldl pool_do (cp, ts) es = (cp', ts')" "Host_offline h \<notin> set es"
  shows "(pooled cp h i \<longrightarrow> pooled cp' h i)
    \<and> (k < length ts' \<longrightarrow> ts' ! k = Got h i \<longrightarrow> k < length ts \<and> ts ! k = Got h i \<or> pooled cp' h i)"
  using assms
proof (induction es arbitrary: cp ts)
  case (Cons e es)
  obtain cp1 ts1 where st: "pool_do (cp, ts) e = (cp1, ts1)" by fastforce
  have "e \<noteq> Host_offline h" using Cons.prems(2) by auto
  note ev = entry_event [OF st this]
  have "(pooled cp1 h i \<longrightarrow> pooled cp' h i)
    \<and> (k < length ts' \<longrightarrow> ts' ! k = Got h i \<longrightarrow> k < length ts1 \<and> ts1 ! k = Got h i \<or> pooled cp' h i)"
    using Cons.IH [of cp1 ts1] Cons.prems st by simp
  then show ?case using ev(1,2) by blast
qed simp

text \<open>
  Property C14. Concurrent calls share one connection per host, in every run of threads that look
  for clients, lost connections and offline notifications, from the empty pool. Take any moment
  of such a run and any later one with no offline notification of a host between them. Every
  thread that got its client for the host in between got the one client that the pool holds for
  the host, and the entry of the pool was not replaced. The connection of that client is open unless
  it was lost (a client whose connection is lost stays in the pool: see the remark on
  \<open>lost_connection_not_renewed\<close> in \<open>Rpc_Client_Correct\<close>), and no other host has this client. And
  as long as no host went offline no connection is leaked: every open one belongs to a client of
  the pool or of a thread that is about to enter it.
\<close>

theorem pool_shares_clients:
  assumes "foldl pool_do empty_pool es = (cp, ts)" "foldl pool_do (cp, ts) es' = (cp', ts')" "Host_offline h \<notin> set es'"
  shows "(\<forall>k < length ts'. \<forall>i. ts' ! k = Got h i \<longrightarrow> (k < length ts \<longrightarrow> ts ! k \<noteq> Got h i) \<longrightarrow> pooled cp' h i)
     \<and> (\<forall>i. pooled cp h i \<longrightarrow> pooled cp' h i)
     \<and> (\<forall>i. pooled cp' h i \<longrightarrow> (Connection_lost i \<notin> set (es @ es') \<longrightarrow> live cp' i) \<and> (\<forall>h'. pooled cp' h' i \<longrightarrow> h' = h))
     \<and> ((\<forall>h'. Host_offline h' \<notin> set (es @ es')) \<longrightarrow>
         (\<forall>i. live cp' i \<longrightarrow> (\<exists>h'. pooled cp' h' i) \<or> (\<exists>h'. Publish h' i \<in> set ts')))"
proof -
  let ?L = "{i. Connection_lost i \<in> set (es @ es')}"
  have run: "foldl pool_do empty_pool (es @ es') = (cp', ts')" using assms(1,2) by simp
  have "placed \<lparr>cp_clients = [], cp_table = []\<rparr> []" "open_unless ?L \<lparr>cp_clients = [], cp_table = []\<rparr> []"
    "none_leaked \<lparr>cp_clients = [], cp_table = []\<rparr> []"
    by (simp_all add: placed_def open_unless_def none_leaked_def held_def entering_def live_def)
  then have end_state: "placed cp' ts'" "open_unless ?L cp' ts'" "(\<forall>h. Host_offline h \<notin> set (es @ es')) \<longrightarrow> none_leaked cp' ts'"
    using run_placed [OF run, of ?L] by auto
  have "(\<exists>h'. Publish h' i \<in> set ts')" if "entering ts' k i" for k i
    using that by (metis entering_def nth_mem)
  then show ?thesis
    using run_entry [OF assms(2,3)] end_state(2,3) placedD(2) [OF end_state(1)]
    unfolding open_unless_def none_leaked_def held_def by blast
qed

text \<open>Two threads race for a host; one connection is lost, and the host goes offline and comes back.\<close>

abbreviation race_events :: "pool_event list" where
  "race_events \<equiv> [Thread_starts (''a'', 1), Thread_starts (''a'', 1), Thread_moves 0 5, Thread_moves 1 6, Thread_moves 1 6,
     Connection_lost 1, Host_offline (''a'', 1)]"

abbreviation later_events :: "pool_event list" where
  "later_events \<equiv> [Thread_moves 0 5, Thread_starts (''a'', 1), Thread_moves 2 7, Connection_lost 1]"

theorem pool_shares_clients_witness:
  "\<exists>cp ts. foldl pool_do empty_pool (race_events @ later_events) = (cp, ts)
     \<and> ts = [Got (''a'', 1) 0, Got (''a'', 1) 1, Got (''a'', 1) 0] \<and> pooled cp (''a'', 1) 0 \<and> live cp 0"
proof -
  obtain cp ts where r: "foldl pool_do empty_pool race_events = (cp, ts)" by fastforce
  obtain cp' ts' where r': "foldl pool_do (cp, ts) later_events = (cp', ts')" by fastforce
  have ts: "ts = [Publish (''a'', 1) 0, Got (''a'', 1) 1]"
    using r by (auto simp: make_client_def publish_client_def lose_connection_def drop_host_def)
  have ts': "ts' = [Got (''a'', 1) 0, Got (''a'', 1) 1, Got (''a'', 1) 0]"
    using r r' by (auto simp: make_client_def publish_client_def lose_connection_def drop_host_def)
  have "Host_offline (''a'', 1) \<notin> set later_events" by simp
  note th = pool_shares_clients [OF r r' this]
  from th have "2 < length ts' \<longrightarrow> ts' ! 2 = Got (''a'', 1) 0 \<longrightarrow> (2 < length ts \<longrightarrow> ts ! 2 \<noteq> Got (''a'', 1) 0) \<longrightarrow> pooled cp' (''a'', 1) 0"
    by blast
  then have "pooled cp' (''a'', 1) 0" by (simp add: ts ts')
  moreover from th this have "Connection_lost 0 \<notin> set (race_events @ later_events) \<longrightarrow> live cp' 0" by blast
  moreover have "foldl pool_do empty_pool (race_events @ later_events) = (cp', ts')" by (simp only: foldl_append r r')
  ultimately show ?thesis using ts' by (simp del: pool_do.simps)
qed

end
