(* ===== verification/Registry.thy ===== *)
theory Registry
  imports Discover Node_Breaker
begin

text \<open>
  The registry server (\<open>rpc/src/server/rpc_registry.hpp\<close>,
  \<open>memory_registry_store.cpp\<close>): providers and the methods they serve, discoverers and
  the methods they watch, and the handler that ties both together.

  Connections are numbers. Provider objects are shared by two tables in the code, so they
  live in a heap here, a list, and a provider pointer is an index into it. A discoverer has
  no state besides its connection and its methods and is identified with its connection. An
  operation that sends messages returns them in order, with the connection they go to.
\<close>

type_synonym conn = nat

subsection \<open>Providers\<close>

record provider =
  p_load :: int
  p_methods :: "string list"
  p_conn :: conn
  p_address :: host_info
  p_last :: int

record provider_manager =
  pm_heap :: "provider list"
  pm_methods :: "(string \<times> nat list) list"
  pm_conns :: "(conn \<times> nat) list"

definition new_provider_manager :: provider_manager where
  "new_provider_manager = \<lparr>pm_heap = [], pm_methods = [], pm_conns = []\<rparr>"

definition ids_of :: "('k \<times> 'v list) list \<Rightarrow> 'k \<Rightarrow> 'v list" where
  "ids_of t m = (case map_of t m of None \<Rightarrow> [] | Some is \<Rightarrow> is)"

definition appendmethod :: "provider \<Rightarrow> string \<Rightarrow> provider" where
  "appendmethod p m = p\<lparr>p_methods := p_methods p @ [m]\<rparr>"

definition addProvider ::
  "provider_manager \<Rightarrow> conn \<Rightarrow> host_info \<Rightarrow> string \<Rightarrow> int \<Rightarrow> int \<Rightarrow> provider_manager" where
  "addProvider pm c h m load now =
     (let (heap, i, conns) =
        (case map_of (pm_conns pm) c of
           None \<Rightarrow> (pm_heap pm @ [\<lparr>p_load = 0, p_methods = [], p_conn = c, p_address = h, p_last = now\<rparr>],
                    length (pm_heap pm), AList.update c (length (pm_heap pm)) (pm_conns pm))
         | Some i \<Rightarrow> (pm_heap pm, i, pm_conns pm)) in
      \<lparr>pm_heap = heap[i := appendmethod ((heap ! i)\<lparr>p_load := load, p_last := now\<rparr>) m],
       pm_methods = AList.update m (List.insert i (ids_of (pm_methods pm) m)) (pm_methods pm),
       pm_conns = conns\<rparr>)"

definition getProvider :: "provider_manager \<Rightarrow> conn \<Rightarrow> provider option" where
  "getProvider pm c = map_option (\<lambda>i. pm_heap pm ! i) (map_of (pm_conns pm) c)"

definition erase_id :: "nat \<Rightarrow> string \<Rightarrow> (string \<times> nat list) list \<Rightarrow> (string \<times> nat list) list" where
  "erase_id i m t = AList.update m (removeAll i (ids_of t m)) t"

definition delProvider :: "provider_manager \<Rightarrow> conn \<Rightarrow> provider_manager" where
  "delProvider pm c =
     (case map_of (pm_conns pm) c of
        None \<Rightarrow> pm
      | Some i \<Rightarrow> pm\<lparr>pm_methods := fold (erase_id i) (p_methods (pm_heap pm ! i)) (pm_methods pm),
                     pm_conns := AList.delete c (pm_conns pm)\<rparr>)"

definition methodHost :: "provider_manager \<Rightarrow> string \<Rightarrow> host_info list" where
  "methodHost pm m = map (\<lambda>i. p_address (pm_heap pm ! i)) (ids_of (pm_methods pm) m)"

definition methodHostDetails :: "provider_manager \<Rightarrow> string \<Rightarrow> host_detail list" where
  "methodHostDetails pm m =
     map (\<lambda>i. \<lparr>hd_host = p_address (pm_heap pm ! i), hd_load = p_load (pm_heap pm ! i)\<rparr>)
       (ids_of (pm_methods pm) m)"

definition updateProviderLoad ::
  "provider_manager \<Rightarrow> string \<Rightarrow> host_info \<Rightarrow> int \<Rightarrow> int \<Rightarrow> provider_manager \<times> bool" where
  "updateProviderLoad pm m h load now =
     (case List.find (\<lambda>i. p_address (pm_heap pm ! i) = h) (ids_of (pm_methods pm) m) of
        None \<Rightarrow> (pm, False)
      | Some i \<Rightarrow>
          (pm\<lparr>pm_heap := (pm_heap pm)[i := (pm_heap pm ! i)\<lparr>p_load := load, p_last := now\<rparr>]\<rparr>, True))"

definition updateProviderLastHeartbeat ::
  "provider_manager \<Rightarrow> string \<Rightarrow> host_info \<Rightarrow> int \<Rightarrow> provider_manager \<times> bool" where
  "updateProviderLastHeartbeat pm m h now =
     (case List.find (\<lambda>i. p_address (pm_heap pm ! i) = h) (ids_of (pm_methods pm) m) of
        None \<Rightarrow> (pm, False)
      | Some i \<Rightarrow> (pm\<lparr>pm_heap := (pm_heap pm)[i := (pm_heap pm ! i)\<lparr>p_last := now\<rparr>]\<rparr>, True))"

definition is_expired :: "provider_manager \<Rightarrow> int \<Rightarrow> int \<Rightarrow> nat \<Rightarrow> bool" where
  "is_expired pm idle now i \<longleftrightarrow> now - p_last (pm_heap pm ! i) > idle * sec"

definition pm_sweepExpired ::
  "provider_manager \<Rightarrow> int \<Rightarrow> int \<Rightarrow> provider_manager \<times> (string \<times> host_info) list" where
  "pm_sweepExpired pm idle now =
     (pm\<lparr>pm_methods := map (\<lambda>(m, is). (m, filter (\<lambda>i. \<not> is_expired pm idle now i) is)) (pm_methods pm)\<rparr>,
      concat (map (\<lambda>(m, is). map (\<lambda>i. (m, p_address (pm_heap pm ! i))) (filter (is_expired pm idle now) is))
        (pm_methods pm)))"

subsection \<open>The store interface and the in-memory store\<close>

record 's registry_store_ops =
  registerInstance :: "'s \<Rightarrow> conn \<Rightarrow> host_info \<Rightarrow> string \<Rightarrow> int \<Rightarrow> int \<Rightarrow> 's"
  rs_methodHost :: "'s \<Rightarrow> string \<Rightarrow> host_info list"
  rs_methodHostDetails :: "'s \<Rightarrow> string \<Rightarrow> host_detail list"
  rs_reportLoad :: "'s \<Rightarrow> string \<Rightarrow> host_info \<Rightarrow> int \<Rightarrow> int \<Rightarrow> 's \<times> bool"
  rs_heartbeat :: "'s \<Rightarrow> string \<Rightarrow> host_info \<Rightarrow> int \<Rightarrow> 's \<times> bool"
  disconnectProvider :: "'s \<Rightarrow> conn \<Rightarrow> 's \<times> (string \<times> host_info) list"
  cleanConnKeys :: "'s \<Rightarrow> conn \<Rightarrow> 's"
  rs_sweepExpired :: "'s \<Rightarrow> int \<Rightarrow> int \<Rightarrow> 's \<times> (string \<times> host_info) list"

definition mem_disconnectProvider ::
  "provider_manager \<Rightarrow> conn \<Rightarrow> provider_manager \<times> (string \<times> host_info) list" where
  "mem_disconnectProvider pm c =
     (case getProvider pm c of
        None \<Rightarrow> (pm, [])
      | Some p \<Rightarrow> (delProvider pm c, map (\<lambda>m. (m, p_address p)) (p_methods p)))"

definition mem_registry_ops :: "provider_manager registry_store_ops" where
  "mem_registry_ops =
     \<lparr>registerInstance = addProvider, rs_methodHost = methodHost,
      rs_methodHostDetails = methodHostDetails, rs_reportLoad = updateProviderLoad,
      rs_heartbeat = updateProviderLastHeartbeat, disconnectProvider = mem_disconnectProvider,
      cleanConnKeys = delProvider, rs_sweepExpired = pm_sweepExpired\<rparr>"

subsection \<open>Discoverers\<close>

record discover_manager =
  dm_methods :: "(string \<times> conn list) list"
  dm_conns :: "(conn \<times> string list) list"

definition addDiscoverer :: "discover_manager \<Rightarrow> conn \<Rightarrow> string \<Rightarrow> discover_manager" where
  "addDiscoverer dm c m =
     dm\<lparr>dm_conns := AList.update c (ids_of (dm_conns dm) c @ [m]) (dm_conns dm),
        dm_methods := AList.update m (List.insert c (ids_of (dm_methods dm) m)) (dm_methods dm)\<rparr>"

definition delDiscoverer :: "discover_manager \<Rightarrow> conn \<Rightarrow> discover_manager" where
  "delDiscoverer dm c =
     (case map_of (dm_conns dm) c of
        None \<Rightarrow> dm
      | Some ms \<Rightarrow> dm\<lparr>dm_methods := fold (erase_id c) ms (dm_methods dm),
                      dm_conns := AList.delete c (dm_conns dm)\<rparr>)"

datatype reg_msg =
    Notify service_optype string host_info
  | Response string resp_code service_optype "host_detail list"

definition notify :: "discover_manager \<Rightarrow> string \<Rightarrow> host_info \<Rightarrow> service_optype \<Rightarrow> (conn \<times> reg_msg) list" where
  "notify dm m h ot = map (\<lambda>c. (c, Notify ot m h)) (ids_of (dm_methods dm) m)"

definition onlineNotify :: "discover_manager \<Rightarrow> string \<Rightarrow> host_info \<Rightarrow> (conn \<times> reg_msg) list" where
  "onlineNotify dm m h = notify dm m h ONLINE"

definition offlineNotify :: "discover_manager \<Rightarrow> string \<Rightarrow> host_info \<Rightarrow> (conn \<times> reg_msg) list" where
  "offlineNotify dm m h = notify dm m h OFFLINE"

subsection \<open>The handler\<close>

record 's pwd_manager =
  rstore :: 's
  discoverer :: discover_manager

definition new_pwd_manager :: "'s \<Rightarrow> 's pwd_manager" where
  "new_pwd_manager s = \<lparr>rstore = s, discoverer = \<lparr>dm_methods = [], dm_conns = []\<rparr>\<rparr>"

definition req_host :: "service_request \<Rightarrow> host_info" where
  "req_host r = (case sr_host r of None \<Rightarrow> ([], 0) | Some h \<Rightarrow> h)"

definition req_load :: "service_request \<Rightarrow> int" where
  "req_load r = (case sr_load r of None \<Rightarrow> 0 | Some l \<Rightarrow> l)"

definition errResponse :: "conn \<Rightarrow> service_request \<Rightarrow> (conn \<times> reg_msg) list" where
  "errResponse c r = [(c, Response (sr_id r) INVALID_OPTYPE UNKNOWN [])]"

definition registryResponse :: "conn \<Rightarrow> service_request \<Rightarrow> (conn \<times> reg_msg) list" where
  "registryResponse c r = [(c, Response (sr_id r) SUCCESS REGISTER [])]"

definition discoverResponse ::
  "'s registry_store_ops \<Rightarrow> 's \<Rightarrow> conn \<Rightarrow> service_request \<Rightarrow> (conn \<times> reg_msg) list" where
  "discoverResponse ops s c r =
     [(c, Response (sr_id r) SUCCESS DISCOVER (rs_methodHostDetails ops s (sr_method r)))]"

definition updateloadResponse :: "conn \<Rightarrow> service_request \<Rightarrow> bool \<Rightarrow> (conn \<times> reg_msg) list" where
  "updateloadResponse c r ok =
     [(c, Response (sr_id r) (if ok then SUCCESS else SERVICE_NOT_FOUND) LOAD_REPORT [])]"

definition heartbeatResponse ::
  "conn \<Rightarrow> service_request \<Rightarrow> bool \<Rightarrow> service_optype \<Rightarrow> (conn \<times> reg_msg) list" where
  "heartbeatResponse c r ok ot =
     [(c, Response (sr_id r) (if ok then SUCCESS else SERVICE_NOT_FOUND) ot [])]"

definition pwd_onserviceRequest ::
  "'s registry_store_ops \<Rightarrow> 's pwd_manager \<Rightarrow> conn \<Rightarrow> service_request \<Rightarrow> int
     \<Rightarrow> 's pwd_manager \<times> (conn \<times> reg_msg) list" where
  "pwd_onserviceRequest ops pwd c r now =
     (case sr_optype r of
        REGISTER \<Rightarrow>
          (pwd\<lparr>rstore := registerInstance ops (rstore pwd) c (req_host r) (sr_method r) (req_load r) now\<rparr>,
           onlineNotify (discoverer pwd) (sr_method r) (req_host r) @ registryResponse c r)
      | DISCOVER \<Rightarrow>
          (pwd\<lparr>discoverer := addDiscoverer (discoverer pwd) c (sr_method r)\<rparr>,
           discoverResponse ops (rstore pwd) c r)
      | LOAD_REPORT \<Rightarrow>
          (let (s, ok) = rs_reportLoad ops (rstore pwd) (sr_method r) (req_host r) (req_load r) now in
           (pwd\<lparr>rstore := s\<rparr>, updateloadResponse c r ok))
      | HEARTBEAT_PROVIDER \<Rightarrow>
          (let (s, ok) = rs_heartbeat ops (rstore pwd) (sr_method r) (req_host r) now in
           (pwd\<lparr>rstore := s\<rparr>, heartbeatResponse c r ok HEARTBEAT_PROVIDER))
      | _ \<Rightarrow> (pwd, errResponse c r))"

definition notify_all ::
  "discover_manager \<Rightarrow> (string \<times> host_info) list \<Rightarrow> (conn \<times> reg_msg) list" where
  "notify_all dm offline = concat (map (\<lambda>(m, h). offlineNotify dm m h) offline)"

definition onconnShoutdown ::
  "'s registry_store_ops \<Rightarrow> 's pwd_manager \<Rightarrow> conn \<Rightarrow> 's pwd_manager \<times> (conn \<times> reg_msg) list" where
  "onconnShoutdown ops pwd c =
     (let (s, offline) = disconnectProvider ops (rstore pwd) c in
      (pwd\<lparr>rstore := s, discoverer := delDiscoverer (discoverer pwd) c\<rparr>,
       notify_all (discoverer pwd) offline))"

definition sweepAndNotify ::
  "'s registry_store_ops \<Rightarrow> 's pwd_manager \<Rightarrow> int \<Rightarrow> int \<Rightarrow> 's pwd_manager \<times> (conn \<times> reg_msg) list" where
  "sweepAndNotify ops pwd idle now =
     (let (s, expired) = rs_sweepExpired ops (rstore pwd) idle now in
      (pwd\<lparr>rstore := s\<rparr>, notify_all (discoverer pwd) expired))"

subsection \<open>Runs of the registry\<close>

datatype reg_event = Request conn service_request int | Close conn | Sweep int int

fun reg_step ::
  "'s registry_store_ops \<Rightarrow> 's pwd_manager \<Rightarrow> reg_event \<Rightarrow> 's pwd_manager \<times> (conn \<times> reg_msg) list" where
  "reg_step ops pwd (Request c r now) = pwd_onserviceRequest ops pwd c r now"
| "reg_step ops pwd (Close c) = onconnShoutdown ops pwd c"
| "reg_step ops pwd (Sweep idle now) = sweepAndNotify ops pwd idle now"

end
