(* ===== verification/Registry_Correct.thy ===== *)
theory Registry_Correct
  imports Registry
begin

text \<open>
  Correctness of the registry: the provider tables are consistent, and the cache of a
  client that discovered a method follows the registry through the notifications it gets.

  The locale \<open>registry_store\<close> states what the handler relies on of its store, in
  terms of the set of instances (connection and address) that serve a method. The
  in-memory store is an interpretation.
\<close>

subsection \<open>What a client sees\<close>

definition view :: "discover_cache \<Rightarrow> string \<Rightarrow> host_info set" where
  "view dc m = (case map_of dc m of None \<Rightarrow> {} | Some mh \<Rightarrow> set (map hd_host (mh_host mh)))"

fun deliver :: "hash_fn \<Rightarrow> conn \<Rightarrow> discover_cache \<Rightarrow> (conn \<times> reg_msg) list \<Rightarrow> discover_cache" where
  "deliver hash d dc [] = dc"
| "deliver hash d dc ((c, Notify ot m h) # ms) =
     deliver hash d (if c = d then fst (onserviceRequest hash dc ot m h) else dc) ms"
| "deliver hash d dc ((c, Response i rc ot hs) # ms) = deliver hash d dc ms"

lemma deliver_append: "deliver hash d dc (xs @ ys) = deliver hash d (deliver hash d dc xs) ys"
  by (induction hash d dc xs rule: deliver.induct) auto

lemma deliver_inv: "cache_inv hash dc \<Longrightarrow> cache_inv hash (deliver hash d dc ms)"
  by (induction hash d dc ms rule: deliver.induct) (auto simp: cache_inv_notify)

lemma append_hosts: "set (map hd_host (mh_host (appendHost hash mh h l))) = insert h (set (map hd_host (mh_host mh)))"
proof -
  have "hd_host ` set (set_load h l hs) = hd_host ` set hs" for hs
    using set_load_hosts [of h l hs] by (metis list.set_map)
  then show ?thesis by (auto simp: appendHost_def rebuildRing_def Let_def)
qed

lemma view_online:
  "view (fst (onserviceRequest hash dc ONLINE m h)) m'
     = (if m' = m then insert h (view dc m) else view dc m')"
  using append_hosts [of hash _ h 0]
  by (auto simp: view_def onserviceRequest_def update_conv' new_method_host_def split: option.splits)

lemma view_offline:
  assumes "cache_inv hash dc"
  shows "view (fst (onserviceRequest hash dc OFFLINE m h)) m'
     = (if m' = m then view dc m - {h} else view dc m')"
proof -
  have "set (map hd_host (mh_host (mh_removeHost hash mh h))) = set (map hd_host (mh_host mh)) - {h}"
    if "map_of dc m = Some mh" for mh
  proof -
    have "distinct (map hd_host (mh_host mh))" using assms that by (auto simp: cache_inv_def mh_inv_def)
    then show ?thesis
      by (auto simp: mh_removeHost_def rebuildRing_def erase_host_set)
  qed
  then show ?thesis
    by (auto simp: view_def onserviceRequest_def update_conv' split: option.splits)
qed

lemma view_deliver_online:
  "view (deliver hash d dc (map (\<lambda>c. (c, Notify ONLINE m h)) cs)) m'
     = (if m' = m \<and> d \<in> set cs then insert h (view dc m) else view dc m')"
  by (induction cs arbitrary: dc) (auto simp: view_online)

lemma view_deliver_offline:
  "cache_inv hash dc \<Longrightarrow> view (deliver hash d dc (map (\<lambda>c. (c, Notify OFFLINE m h)) cs)) m'
     = (if m' = m \<and> d \<in> set cs then view dc m - {h} else view dc m')"
  by (induction cs arbitrary: dc) (auto simp: view_offline cache_inv_notify)

lemma view_notify_all:
  assumes "cache_inv hash dc"
  shows "view (deliver hash d dc (notify_all dm offline)) m
     = (if d \<in> set (ids_of (dm_methods dm) m) then view dc m - {h. (m, h) \<in> set offline} else view dc m)"
  using assms
proof (induction offline arbitrary: dc)
  case (Cons e offline)
  obtain m' h where e: "e = (m', h)" by (cases e) simp
  let ?dc = "deliver hash d dc (offlineNotify dm m' h)"
  have "view (deliver hash d dc (notify_all dm (e # offline))) m
      = view (deliver hash d ?dc (notify_all dm offline)) m"
    by (simp add: notify_all_def e deliver_append)
  moreover have "view ?dc m = (if m' = m \<and> d \<in> set (ids_of (dm_methods dm) m) then view dc m - {h} else view dc m)"
    using view_deliver_offline [OF Cons.prems] by (auto simp: offlineNotify_def notify_def)
  ultimately show ?case
    using Cons.IH [OF deliver_inv [OF Cons.prems]] e by auto
qed (simp add: notify_all_def)

definition tracks ::
  "'s registry_store_ops \<Rightarrow> 's pwd_manager \<Rightarrow> conn \<Rightarrow> discover_cache \<Rightarrow> string \<Rightarrow> bool" where
  "tracks ops pwd d dc m \<longleftrightarrow> d \<in> set (ids_of (dm_methods (discoverer pwd)) m)
     \<and> view dc m = set (map hd_host (rs_methodHostDetails ops (rstore pwd) m))"

fun event_ok :: "(conn \<Rightarrow> host_info) \<Rightarrow> conn \<Rightarrow> reg_event \<Rightarrow> bool" where
  "event_ok addr d (Request c r now) \<longleftrightarrow> (sr_optype r = REGISTER \<longrightarrow> req_host r = addr c)"
| "event_ok addr d (Close c) \<longleftrightarrow> c \<noteq> d"
| "event_ok addr d (Sweep idle now) \<longleftrightarrow> True"

text \<open>A run of the registry, with the messages to client \<open>d\<close> delivered as they are sent.\<close>

fun reg_run ::
  "'s registry_store_ops \<Rightarrow> hash_fn \<Rightarrow> conn \<Rightarrow> 's pwd_manager \<times> discover_cache \<Rightarrow> reg_event list
     \<Rightarrow> 's pwd_manager \<times> discover_cache" where
  "reg_run ops hash d (pwd, dc) [] = (pwd, dc)"
| "reg_run ops hash d (pwd, dc) (e # es) =
     (let (pwd', ms) = reg_step ops pwd e in reg_run ops hash d (pwd', deliver hash d dc ms) es)"

lemma ids_of_update [simp]: "ids_of (AList.update m v t) m' = (if m' = m then v else ids_of t m')"
  by (simp add: ids_of_def update_conv')

lemma ids_of_erase [simp]: "ids_of (erase_id i m t) m' = (if m' = m then removeAll i (ids_of t m) else ids_of t m')"
  by (simp add: erase_id_def)

lemma ids_of_fold_erase:
  "set (ids_of (fold (erase_id i) ms t) m) = (if m \<in> set ms then set (ids_of t m) - {i} else set (ids_of t m))"
  by (induction ms arbitrary: t) auto

lemma watch_addDiscoverer:
  "d \<in> set (ids_of (dm_methods (addDiscoverer dm c m)) m')
     \<longleftrightarrow> d \<in> set (ids_of (dm_methods dm) m') \<or> d = c \<and> m' = m"
  by (auto simp: addDiscoverer_def)

lemma watch_delDiscoverer:
  "d \<in> set (ids_of (dm_methods dm) m) \<Longrightarrow> c \<noteq> d \<Longrightarrow>
     d \<in> set (ids_of (dm_methods (delDiscoverer dm c)) m)"
  by (auto simp: delDiscoverer_def ids_of_fold_erase split: option.splits)

subsection \<open>The contract of the store\<close>

locale registry_store =
  fixes ops :: "'s registry_store_ops"
    and inv :: "(conn \<Rightarrow> host_info) \<Rightarrow> 's \<Rightarrow> bool"
    and inst :: "'s \<Rightarrow> string \<Rightarrow> (conn \<times> host_info) set"
  assumes details: "inv addr s \<Longrightarrow> set (map hd_host (rs_methodHostDetails ops s m)) = snd ` inst s m"
    and inst_addr: "inv addr s \<Longrightarrow> (c, h) \<in> inst s m \<Longrightarrow> h = addr c"
    and register_inv: "inv addr s \<Longrightarrow> inv addr (registerInstance ops s c (addr c) m load now)"
    and register_inst: "inv addr s \<Longrightarrow> inst (registerInstance ops s c (addr c) m load now) m'
          = (if m' = m then insert (c, addr c) (inst s m) else inst s m')"
    and report_inv: "inv addr s \<Longrightarrow> inv addr (fst (rs_reportLoad ops s m h load now))"
    and report_inst: "inst (fst (rs_reportLoad ops s m h load now)) m' = inst s m'"
    and heartbeat_inv: "inv addr s \<Longrightarrow> inv addr (fst (rs_heartbeat ops s m h now))"
    and heartbeat_inst: "inst (fst (rs_heartbeat ops s m h now)) m' = inst s m'"
    and disconnect_inv: "inv addr s \<Longrightarrow> inv addr (fst (disconnectProvider ops s c))"
    and disconnect_inst: "inv addr s \<Longrightarrow>
          inst (fst (disconnectProvider ops s c)) m = {x \<in> inst s m. fst x \<noteq> c}"
    and disconnect_report: "inv addr s \<Longrightarrow> (c, h) \<in> inst s m \<Longrightarrow>
          (m, h) \<in> set (snd (disconnectProvider ops s c))"
    and disconnect_only: "inv addr s \<Longrightarrow> (m, h) \<in> set (snd (disconnectProvider ops s c)) \<Longrightarrow> h = addr c"
    and sweep_inv: "inv addr s \<Longrightarrow> inv addr (fst (rs_sweepExpired ops s idle now))"
    and sweep_inst: "inv addr s \<Longrightarrow> inst (fst (rs_sweepExpired ops s idle now)) m \<subseteq> inst s m"
    and sweep_report: "inv addr s \<Longrightarrow> (m, h) \<in> set (snd (rs_sweepExpired ops s idle now)) \<longleftrightarrow>
          (\<exists>c. (c, h) \<in> inst s m - inst (fst (rs_sweepExpired ops s idle now)) m)"
begin

lemma hosts_inj:
  "inv addr s \<Longrightarrow> inj addr \<Longrightarrow> (c, h) \<in> inst s m \<Longrightarrow> (c', h) \<in> inst s m' \<Longrightarrow> c = c'"
  using inst_addr by (metis injD)

lemma tracks_alt: "inv addr (rstore pwd) \<Longrightarrow>
    tracks ops pwd d dc m \<longleftrightarrow> d \<in> set (ids_of (dm_methods (discoverer pwd)) m)
      \<and> view dc m = snd ` inst (rstore pwd) m"
  by (simp add: tracks_def details del: set_map)

lemma step_inv: "inv addr (rstore pwd) \<Longrightarrow> event_ok addr d e \<Longrightarrow> inv addr (rstore (fst (reg_step ops pwd e)))"
  using register_inv report_inv heartbeat_inv disconnect_inv sweep_inv
  by (cases e) (auto simp: pwd_onserviceRequest_def onconnShoutdown_def sweepAndNotify_def
      case_prod_beta Let_def split: service_optype.splits)

lemma close_view:
  assumes "inv addr s" "inj addr"
  shows "snd ` inst (fst (disconnectProvider ops s c)) m
       = snd ` inst s m - {h. (m, h) \<in> set (snd (disconnectProvider ops s c))}"
proof (intro set_eqI iffI)
  fix h
  let ?R = "{h. (m, h) \<in> set (snd (disconnectProvider ops s c))}"
  {
    assume "h \<in> snd ` inst (fst (disconnectProvider ops s c)) m"
    then obtain c' where c': "(c', h) \<in> inst s m" "c' \<noteq> c"
      by (auto simp: disconnect_inst [OF assms(1)])
    then have "h \<noteq> addr c" using inst_addr [OF assms(1) c'(1)] assms(2) by (auto dest: injD)
    then have "h \<notin> ?R" using disconnect_only [OF assms(1)] by blast
    then show "h \<in> snd ` inst s m - ?R" using c'(1) by force
  next
    assume h: "h \<in> snd ` inst s m - ?R"
    then obtain c' where c': "(c', h) \<in> inst s m" by auto
    then have "c' \<noteq> c" using h disconnect_report [OF assms(1)] by blast
    then show "h \<in> snd ` inst (fst (disconnectProvider ops s c)) m"
      using c' by (force simp: disconnect_inst [OF assms(1)])
  }
qed

lemma sweep_view:
  assumes "inv addr s" "inj addr"
  shows "snd ` inst (fst (rs_sweepExpired ops s idle now)) m
       = snd ` inst s m - {h. (m, h) \<in> set (snd (rs_sweepExpired ops s idle now))}"
proof (intro set_eqI iffI)
  fix h
  let ?I' = "inst (fst (rs_sweepExpired ops s idle now)) m"
  note rep = sweep_report [OF assms(1), of m h idle now] and sub = sweep_inst [OF assms(1), of idle now m]
  {
    assume "h \<in> snd ` ?I'"
    then obtain c where c: "(c, h) \<in> ?I'" by auto
    then have "(c, h) \<in> inst s m" using sub by blast
    moreover from this have "\<not> (\<exists>c'. (c', h) \<in> inst s m - ?I')"
      using c hosts_inj [OF assms] by blast
    ultimately show "h \<in> snd ` inst s m - {h. (m, h) \<in> set (snd (rs_sweepExpired ops s idle now))}"
      using rep by force
  next
    assume "h \<in> snd ` inst s m - {h. (m, h) \<in> set (snd (rs_sweepExpired ops s idle now))}"
    then show "h \<in> snd ` ?I'" using rep by force
  }
qed

lemma tracks_request:
  assumes "inv addr (rstore pwd)" "event_ok addr d (Request c r now)" "tracks ops pwd d dc m"
  shows "tracks ops (fst (reg_step ops pwd (Request c r now))) d
           (deliver hash d dc (snd (reg_step ops pwd (Request c r now)))) m"
proof -
  let ?e = "Request c r now"
  have inv': "inv addr (rstore (fst (reg_step ops pwd ?e)))" by (rule step_inv [OF assms(1,2)])
  have t: "d \<in> set (ids_of (dm_methods (discoverer pwd)) m)" "view dc m = snd ` inst (rstore pwd) m"
    using assms(3) by (simp_all add: tracks_alt [OF assms(1)])
  have online: "view (deliver hash d dc (onlineNotify (discoverer pwd) m' h @ registryResponse c r)) m
      = (if m = m' then insert h (view dc m) else view dc m)" for m' h
    using t(1) view_deliver_online [of hash d dc m' h "ids_of (dm_methods (discoverer pwd)) m'" m]
    by (auto simp: deliver_append onlineNotify_def notify_def registryResponse_def)
  show ?thesis unfolding tracks_alt [OF inv']
  proof (cases "sr_optype r")
    case REGISTER
    then show "d \<in> set (ids_of (dm_methods (discoverer (fst (reg_step ops pwd ?e)))) m)
      \<and> view (deliver hash d dc (snd (reg_step ops pwd ?e))) m = snd ` inst (rstore (fst (reg_step ops pwd ?e))) m"
      using assms(1,2) t online by (auto simp: pwd_onserviceRequest_def register_inst)
  qed (use t in \<open>auto simp: pwd_onserviceRequest_def case_prod_beta Let_def report_inst heartbeat_inst
      watch_addDiscoverer errResponse_def discoverResponse_def updateloadResponse_def heartbeatResponse_def\<close>)
qed

lemma tracks_step:
  assumes "inv addr (rstore pwd)" "inj addr" "event_ok addr d e" "tracks ops pwd d dc m"
    and "cache_inv hash dc"
  shows "tracks ops (fst (reg_step ops pwd e)) d (deliver hash d dc (snd (reg_step ops pwd e))) m"
proof (cases e)
  case (Request c r now)
  then show ?thesis using tracks_request assms by simp
next
  case (Close c)
  have "inv addr (rstore (fst (reg_step ops pwd e)))" by (rule step_inv [OF assms(1,3)])
  then show ?thesis
    using assms(3,4) Close close_view [OF assms(1,2), of c m] view_notify_all [OF assms(5)]
      watch_delDiscoverer
    by (auto simp: tracks_alt tracks_alt [OF assms(1)] onconnShoutdown_def case_prod_beta Let_def)
next
  case (Sweep idle now)
  have "inv addr (rstore (fst (reg_step ops pwd e)))" by (rule step_inv [OF assms(1,3)])
  then show ?thesis
    using assms(4) Sweep sweep_view [OF assms(1,2), of idle now m] view_notify_all [OF assms(5)]
    by (auto simp: tracks_alt tracks_alt [OF assms(1)] sweepAndNotify_def case_prod_beta Let_def)
qed

lemma tracks_run:
  assumes "inv addr (rstore pwd)" "inj addr" "list_all (event_ok addr d) es"
    and "tracks ops pwd d dc m" "cache_inv hash dc"
  shows "tracks ops (fst (reg_run ops hash d (pwd, dc) es)) d (snd (reg_run ops hash d (pwd, dc) es)) m"
  using assms
proof (induction es arbitrary: pwd dc)
  case (Cons e es)
  let ?pwd = "fst (reg_step ops pwd e)" let ?dc = "deliver hash d dc (snd (reg_step ops pwd e))"
  have ok: "event_ok addr d e" "list_all (event_ok addr d) es" using Cons.prems(3) by simp_all
  have "tracks ops (fst (reg_run ops hash d (?pwd, ?dc) es)) d (snd (reg_run ops hash d (?pwd, ?dc) es)) m"
    by (rule Cons.IH [OF step_inv [OF Cons.prems(1) ok(1)] Cons.prems(2) ok(2)
          tracks_step [OF Cons.prems(1,2) ok(1) Cons.prems(4,5)] deliver_inv [OF Cons.prems(5)]])
  then show ?case by (simp add: Let_def case_prod_beta)
qed simp

end

subsection \<open>The in-memory store fulfils the contract\<close>

definition pm_inv :: "provider_manager \<Rightarrow> bool" where
  "pm_inv pm \<longleftrightarrow> distinct (map fst (pm_methods pm))
     \<and> (\<forall>m i. i \<in> set (ids_of (pm_methods pm) m) \<longrightarrow>
          i < length (pm_heap pm) \<and> m \<in> set (p_methods (pm_heap pm ! i))
          \<and> map_of (pm_conns pm) (p_conn (pm_heap pm ! i)) = Some i)
     \<and> (\<forall>c i. map_of (pm_conns pm) c = Some i \<longrightarrow>
          i < length (pm_heap pm) \<and> p_conn (pm_heap pm ! i) = c)"

definition pm_addr :: "(conn \<Rightarrow> host_info) \<Rightarrow> provider_manager \<Rightarrow> bool" where
  "pm_addr addr pm \<longleftrightarrow> (\<forall>p \<in> set (pm_heap pm). p_address p = addr (p_conn p))"

definition pm_inst :: "provider_manager \<Rightarrow> string \<Rightarrow> (conn \<times> host_info) set" where
  "pm_inst pm m = (\<lambda>i. (p_conn (pm_heap pm ! i), p_address (pm_heap pm ! i))) ` set (ids_of (pm_methods pm) m)"

lemma pm_inv_ids:
  assumes "pm_inv pm" "i \<in> set (ids_of (pm_methods pm) m)"
  shows "i < length (pm_heap pm)" "m \<in> set (p_methods (pm_heap pm ! i))"
    "map_of (pm_conns pm) (p_conn (pm_heap pm ! i)) = Some i"
  using assms by (auto simp: pm_inv_def)

lemma pm_inv_conn:
  assumes "pm_inv pm" "map_of (pm_conns pm) c = Some i"
  shows "i < length (pm_heap pm)" "p_conn (pm_heap pm ! i) = c"
  using assms by (auto simp: pm_inv_def)

lemma nth_update_field: "f p = f (xs ! i) \<Longrightarrow> f (xs[i := p] ! j) = f (xs ! j)"
  by (cases "i < length xs"; cases "i = j") (auto simp: list_update_beyond)

lemma nth_update_subset:
  "set (f (xs ! i)) \<subseteq> set (f p) \<Longrightarrow> set (f (xs ! j)) \<subseteq> set (f (xs[i := p] ! j))"
  by (cases "i < length xs"; cases "i = j") (auto simp: list_update_beyond)

text \<open>Changing one provider without touching its identity keeps the invariant.\<close>

lemma pm_inv_modify:
  assumes "pm_inv pm" "p_conn p = p_conn (pm_heap pm ! i)"
    and "set (p_methods (pm_heap pm ! i)) \<subseteq> set (p_methods p)"
  shows "pm_inv (pm\<lparr>pm_heap := (pm_heap pm)[i := p]\<rparr>)"
  using assms(1) nth_update_field [of p_conn, OF assms(2)] nth_update_subset [of p_methods, OF assms(3)]
  by (auto simp: pm_inv_def subset_iff)

lemma pm_addr_modify:
  assumes "pm_addr addr pm" "p_address p = addr (p_conn p)"
  shows "pm_addr addr (pm\<lparr>pm_heap := (pm_heap pm)[i := p]\<rparr>)"
  using assms set_update_subset_insert [of "pm_heap pm" i p] by (auto simp: pm_addr_def)

lemma pm_inst_modify:
  assumes "p_conn p = p_conn (pm_heap pm ! i)" "p_address p = p_address (pm_heap pm ! i)"
  shows "pm_inst (pm\<lparr>pm_heap := (pm_heap pm)[i := p]\<rparr>) m = pm_inst pm m"
  using nth_update_field [of p_conn, OF assms(1)] nth_update_field [of p_address, OF assms(2)]
  by (simp add: pm_inst_def)

lemma find_id: "List.find P is = Some i \<Longrightarrow> i \<in> set is"
  by (auto simp: find_Some_iff)

lemma update_load_ok:
  assumes "pm_inv pm" "pm_addr addr pm"
  shows "pm_inv (fst (updateProviderLoad pm m h load now)) \<and> pm_addr addr (fst (updateProviderLoad pm m h load now))"
proof (cases "List.find (\<lambda>i. p_address (pm_heap pm ! i) = h) (ids_of (pm_methods pm) m)")
  case (Some i)
  have "pm_heap pm ! i \<in> set (pm_heap pm)" using pm_inv_ids(1) [OF assms(1) find_id [OF Some]] by simp
  then have a: "p_address (pm_heap pm ! i) = addr (p_conn (pm_heap pm ! i))"
    using assms(2) by (simp add: pm_addr_def)
  let ?p = "(pm_heap pm ! i)\<lparr>p_load := load, p_last := now\<rparr>"
  have "pm_inv (pm\<lparr>pm_heap := (pm_heap pm)[i := ?p]\<rparr>)" by (rule pm_inv_modify [OF assms(1)]) simp_all
  moreover have "pm_addr addr (pm\<lparr>pm_heap := (pm_heap pm)[i := ?p]\<rparr>)"
    by (rule pm_addr_modify [OF assms(2)]) (simp add: a)
  ultimately show ?thesis using Some by (simp add: updateProviderLoad_def)
qed (use assms in \<open>simp add: updateProviderLoad_def\<close>)

lemma heartbeat_ok:
  assumes "pm_inv pm" "pm_addr addr pm"
  shows "pm_inv (fst (updateProviderLastHeartbeat pm m h now))
       \<and> pm_addr addr (fst (updateProviderLastHeartbeat pm m h now))"
proof (cases "List.find (\<lambda>i. p_address (pm_heap pm ! i) = h) (ids_of (pm_methods pm) m)")
  case (Some i)
  have "pm_heap pm ! i \<in> set (pm_heap pm)" using pm_inv_ids(1) [OF assms(1) find_id [OF Some]] by simp
  then have a: "p_address (pm_heap pm ! i) = addr (p_conn (pm_heap pm ! i))"
    using assms(2) by (simp add: pm_addr_def)
  let ?p = "(pm_heap pm ! i)\<lparr>p_last := now\<rparr>"
  have "pm_inv (pm\<lparr>pm_heap := (pm_heap pm)[i := ?p]\<rparr>)" by (rule pm_inv_modify [OF assms(1)]) simp_all
  moreover have "pm_addr addr (pm\<lparr>pm_heap := (pm_heap pm)[i := ?p]\<rparr>)"
    by (rule pm_addr_modify [OF assms(2)]) (simp add: a)
  ultimately show ?thesis using Some by (simp add: updateProviderLastHeartbeat_def)
qed (use assms in \<open>simp add: updateProviderLastHeartbeat_def\<close>)

lemma update_load_inst: "pm_inst (fst (updateProviderLoad pm m h load now)) m' = pm_inst pm m'"
  by (simp add: updateProviderLoad_def pm_inst_modify split: option.splits)

lemma heartbeat_inst: "pm_inst (fst (updateProviderLastHeartbeat pm m h now)) m' = pm_inst pm m'"
  by (simp add: updateProviderLastHeartbeat_def pm_inst_modify split: option.splits)

lemma id_of_conn:
  assumes "pm_inv pm" "map_of (pm_conns pm) c = Some i" "j \<in> set (ids_of (pm_methods pm) m)"
  shows "j = i \<longleftrightarrow> p_conn (pm_heap pm ! j) = c"
  by (metis assms(2) option.inject pm_inv_conn(2) [OF assms(1,2)] pm_inv_ids(3) [OF assms(1,3)])

lemma ids_after_del:
  assumes "pm_inv pm" "map_of (pm_conns pm) c = Some i"
  shows "j \<in> set (ids_of (fold (erase_id i) (p_methods (pm_heap pm ! i)) (pm_methods pm)) m)
       \<longleftrightarrow> j \<in> set (ids_of (pm_methods pm) m) \<and> p_conn (pm_heap pm ! j) \<noteq> c"
proof (cases "j \<in> set (ids_of (pm_methods pm) m)")
  case True
  then show ?thesis
    using id_of_conn [OF assms True] pm_inv_ids(2) [OF assms(1) True] by (auto simp: ids_of_fold_erase)
qed (auto simp: ids_of_fold_erase)

lemma del_provider_ok:
  assumes "pm_inv pm"
  shows "pm_inv (delProvider pm c)"
proof (cases "map_of (pm_conns pm) c")
  case (Some i)
  have keys: "distinct (map fst (fold (erase_id i) ms t))" if "distinct (map fst t)" for ms t
    using that by (induction ms arbitrary: t) (auto simp: erase_id_def distinct_update)
  show ?thesis
    using Some assms keys
    unfolding pm_inv_def delProvider_def
    by (simp add: delete_conv' ids_after_del [OF assms Some]) blast
qed (use assms in \<open>simp add: delProvider_def\<close>)

lemma del_provider_inst:
  assumes "pm_inv pm"
  shows "pm_inst (delProvider pm c) m = {x \<in> pm_inst pm m. fst x \<noteq> c}"
proof (cases "map_of (pm_conns pm) c")
  case None
  then show ?thesis using pm_inv_ids(3) [OF assms] by (auto simp: delProvider_def pm_inst_def)
next
  case (Some i)
  then show ?thesis
    by (auto simp: delProvider_def pm_inst_def ids_after_del [OF assms Some])
qed

lemma disconnect_list:
  assumes "pm_inv pm" "(c, h) \<in> pm_inst pm m"
  shows "(m, h) \<in> set (snd (mem_disconnectProvider pm c))"
  using assms pm_inv_ids [OF assms(1)]
  by (force simp: pm_inst_def mem_disconnectProvider_def getProvider_def)

lemma disconnect_list_addr:
  assumes "pm_inv pm" "pm_addr addr pm" "(m, h) \<in> set (snd (mem_disconnectProvider pm c))"
  shows "h = addr c"
proof -
  obtain i where i: "map_of (pm_conns pm) c = Some i" "h = p_address (pm_heap pm ! i)"
    using assms(3) by (auto simp: mem_disconnectProvider_def getProvider_def split: option.splits)
  then show ?thesis using pm_inv_conn [OF assms(1) i(1)] assms(2) by (auto simp: pm_addr_def)
qed

lemma sweep_ids:
  "ids_of (map (\<lambda>(m, is). (m, filter P is)) t) m = filter P (ids_of t m)"
  by (induction t) (auto simp: ids_of_def)

lemma sweep_ok:
  assumes "pm_inv pm"
  shows "pm_inv (fst (pm_sweepExpired pm idle now))"
proof -
  have "fst \<circ> (\<lambda>(m :: string, is). (m, filter P is)) = fst" for P :: "nat \<Rightarrow> bool"
    by (auto simp: fun_eq_iff)
  then show ?thesis
    using assms by (simp add: pm_sweepExpired_def pm_inv_def sweep_ids) blast
qed

lemma sweep_list:
  assumes "distinct (map fst t)"
  shows "(m, h) \<in> set (concat (map (\<lambda>(m, is). map (\<lambda>i. (m, f i)) (filter P is)) t))
       \<longleftrightarrow> (\<exists>i \<in> set (ids_of t m). P i \<and> h = f i)"
proof
  assume "(m, h) \<in> set (concat (map (\<lambda>(m, is). map (\<lambda>i. (m, f i)) (filter P is)) t))"
  then obtain "is" i where i: "(m, is) \<in> set t" "i \<in> set is" "P i" "h = f i" by auto
  then have "ids_of t m = is" using assms by (simp add: ids_of_def)
  then show "\<exists>i \<in> set (ids_of t m). P i \<and> h = f i" using i by blast
next
  assume "\<exists>i \<in> set (ids_of t m). P i \<and> h = f i"
  then obtain i where i: "i \<in> set (ids_of t m)" "P i" "h = f i" by blast
  then have "(m, ids_of t m) \<in> set t" by (auto simp: ids_of_def map_of_SomeD split: option.splits)
  then show "(m, h) \<in> set (concat (map (\<lambda>(m, is). map (\<lambda>i. (m, f i)) (filter P is)) t))"
    using i by (auto intro!: bexI [where x = "(m, ids_of t m)"])
qed

lemma pm_conn_inj:
  assumes "pm_inv pm" "i \<in> set (ids_of (pm_methods pm) m)" "j \<in> set (ids_of (pm_methods pm) m)"
    and "p_conn (pm_heap pm ! i) = p_conn (pm_heap pm ! j)"
  shows "i = j"
  by (metis assms(4) option.inject pm_inv_ids(3) [OF assms(1,2)] pm_inv_ids(3) [OF assms(1,3)])

lemma addProvider_new:
  assumes "map_of (pm_conns pm) c = None"
  shows "addProvider pm c h m load now =
    \<lparr>pm_heap = pm_heap pm @ [\<lparr>p_load = load, p_methods = [m], p_conn = c, p_address = h, p_last = now\<rparr>],
     pm_methods = AList.update m (List.insert (length (pm_heap pm)) (ids_of (pm_methods pm) m)) (pm_methods pm),
     pm_conns = AList.update c (length (pm_heap pm)) (pm_conns pm)\<rparr>"
  using assms by (simp add: addProvider_def appendmethod_def)

lemma addProvider_known:
  assumes "map_of (pm_conns pm) c = Some i"
  shows "addProvider pm c h m load now =
    (pm\<lparr>pm_heap := (pm_heap pm)[i := appendmethod ((pm_heap pm ! i)\<lparr>p_load := load, p_last := now\<rparr>) m]\<rparr>)
      \<lparr>pm_methods := AList.update m (List.insert i (ids_of (pm_methods pm) m)) (pm_methods pm)\<rparr>"
  using assms by (simp add: addProvider_def)

lemma pm_inv_add_method:
  assumes "pm_inv pm" "map_of (pm_conns pm) c = Some i" "m \<in> set (p_methods (pm_heap pm ! i))"
  shows "pm_inv (pm\<lparr>pm_methods := AList.update m (List.insert i (ids_of (pm_methods pm) m)) (pm_methods pm)\<rparr>)"
  using assms pm_inv_conn [OF assms(1,2)]
  unfolding pm_inv_def by (auto simp: distinct_update)

lemma pm_inst_add_method:
  "pm_inst (pm\<lparr>pm_methods := AList.update m (List.insert i (ids_of (pm_methods pm) m)) (pm_methods pm)\<rparr>) m'
     = (if m' = m then insert (p_conn (pm_heap pm ! i), p_address (pm_heap pm ! i)) (pm_inst pm m) else pm_inst pm m')"
  by (simp add: pm_inst_def)

lemma register_known_ok:
  assumes "pm_inv pm" "pm_addr addr pm" "map_of (pm_conns pm) c = Some i"
  shows "pm_inv (addProvider pm c h m load now) \<and> pm_addr addr (addProvider pm c h m load now)
       \<and> pm_inst (addProvider pm c h m load now) m' =
           (if m' = m then insert (c, addr c) (pm_inst pm m) else pm_inst pm m')"
proof -
  note ci = pm_inv_conn [OF assms(1,3)]
  let ?p = "appendmethod ((pm_heap pm ! i)\<lparr>p_load := load, p_last := now\<rparr>) m"
  let ?pm = "pm\<lparr>pm_heap := (pm_heap pm)[i := ?p]\<rparr>"
  have a: "p_address (pm_heap pm ! i) = addr c" using assms(2) ci by (auto simp: pm_addr_def)
  have inv: "pm_inv ?pm" by (rule pm_inv_modify [OF assms(1)]) (auto simp: appendmethod_def)
  have "pm_addr addr ?pm" by (rule pm_addr_modify [OF assms(2)]) (simp add: appendmethod_def a ci)
  moreover have "pm_inst ?pm m'' = pm_inst pm m''" for m''
    by (rule pm_inst_modify) (simp_all add: appendmethod_def)
  moreover have "pm_inv (addProvider pm c h m load now)"
    using pm_inv_add_method [OF inv, of c i m] assms(3) ci
    by (simp add: addProvider_known [OF assms(3)] appendmethod_def)
  ultimately show ?thesis
    using a ci pm_inst_add_method [where pm = ?pm and m = m and i = i and m' = m']
    by (simp add: addProvider_known [OF assms(3)] pm_addr_def appendmethod_def)
qed

lemma register_new_ok:
  assumes "pm_inv pm" "pm_addr addr pm" "map_of (pm_conns pm) c = None"
  shows "pm_inv (addProvider pm c (addr c) m load now) \<and> pm_addr addr (addProvider pm c (addr c) m load now)
       \<and> pm_inst (addProvider pm c (addr c) m load now) m' =
           (if m' = m then insert (c, addr c) (pm_inst pm m) else pm_inst pm m')"
proof -
  note ids = pm_inv_ids [OF assms(1)] and cs = pm_inv_conn [OF assms(1)]
  have lt: "i < length (pm_heap pm)" "(pm_heap pm @ [p]) ! i = pm_heap pm ! i"
    if "i \<in> set (ids_of (pm_methods pm) m)" for i m p
    using ids(1) [OF that] by (simp_all add: nth_append)
  have "pm_inv (addProvider pm c (addr c) m load now)"
    unfolding pm_inv_def
  proof (intro conjI allI impI)
    show "distinct (map fst (pm_methods (addProvider pm c (addr c) m load now)))"
      using assms(1) by (simp add: addProvider_new [OF assms(3)] pm_inv_def distinct_update)
  next
    fix m'' i assume "i \<in> set (ids_of (pm_methods (addProvider pm c (addr c) m load now)) m'')"
    then have "i \<in> set (ids_of (pm_methods pm) m'') \<or> i = length (pm_heap pm) \<and> m'' = m"
      by (auto simp: addProvider_new [OF assms(3)] split: if_splits)
    then show "i < length (pm_heap (addProvider pm c (addr c) m load now))"
      "m'' \<in> set (p_methods (pm_heap (addProvider pm c (addr c) m load now) ! i))"
      "map_of (pm_conns (addProvider pm c (addr c) m load now))
         (p_conn (pm_heap (addProvider pm c (addr c) m load now) ! i)) = Some i"
      using ids [of i m''] assms(3) by (auto simp: addProvider_new [OF assms(3)] nth_append update_conv')
  next
    fix c' i assume "map_of (pm_conns (addProvider pm c (addr c) m load now)) c' = Some i"
    then show "i < length (pm_heap (addProvider pm c (addr c) m load now))"
      "p_conn (pm_heap (addProvider pm c (addr c) m load now) ! i) = c'"
      using cs [of c' i] by (auto simp: addProvider_new [OF assms(3)] nth_append update_conv' split: if_splits)
  qed
  moreover have "pm_addr addr (addProvider pm c (addr c) m load now)"
    using assms(2) by (auto simp: addProvider_new [OF assms(3)] pm_addr_def)
  moreover have "pm_inst (addProvider pm c (addr c) m load now) m' =
           (if m' = m then insert (c, addr c) (pm_inst pm m) else pm_inst pm m')"
    using lt by (simp add: addProvider_new [OF assms(3)] pm_inst_def cong: image_cong_simp)
  ultimately show ?thesis by blast
qed

lemma register_ok:
  assumes "pm_inv pm" "pm_addr addr pm"
  shows "pm_inv (addProvider pm c (addr c) m load now) \<and> pm_addr addr (addProvider pm c (addr c) m load now)
       \<and> pm_inst (addProvider pm c (addr c) m load now) m' =
           (if m' = m then insert (c, addr c) (pm_inst pm m) else pm_inst pm m')"
  using register_known_ok [OF assms] register_new_ok [OF assms] by (cases "map_of (pm_conns pm) c") blast+

lemma disconnect_state: "fst (mem_disconnectProvider pm c) = delProvider pm c"
  by (simp add: mem_disconnectProvider_def getProvider_def delProvider_def split: option.splits)

lemma sweep_inst_eq:
  "pm_inst (fst (pm_sweepExpired pm idle now)) m
     = (\<lambda>i. (p_conn (pm_heap pm ! i), p_address (pm_heap pm ! i)))
         ` {i \<in> set (ids_of (pm_methods pm) m). \<not> is_expired pm idle now i}"
  by (simp add: pm_sweepExpired_def pm_inst_def sweep_ids)

lemma sweep_report_eq:
  assumes "pm_inv pm"
  shows "(m, h) \<in> set (snd (pm_sweepExpired pm idle now)) \<longleftrightarrow>
      (\<exists>c. (c, h) \<in> pm_inst pm m - pm_inst (fst (pm_sweepExpired pm idle now)) m)"
proof -
  have "distinct (map fst (pm_methods pm))" using assms by (simp add: pm_inv_def)
  note sweep_list [OF this, of m h "\<lambda>i. p_address (pm_heap pm ! i)" "is_expired pm idle now"]
  moreover have "(\<exists>i \<in> set (ids_of (pm_methods pm) m). is_expired pm idle now i \<and> h = p_address (pm_heap pm ! i))
    \<longleftrightarrow> (\<exists>c. (c, h) \<in> pm_inst pm m - pm_inst (fst (pm_sweepExpired pm idle now)) m)"
  proof
    assume "\<exists>i \<in> set (ids_of (pm_methods pm) m). is_expired pm idle now i \<and> h = p_address (pm_heap pm ! i)"
    then obtain i where i: "i \<in> set (ids_of (pm_methods pm) m)" "is_expired pm idle now i"
      "h = p_address (pm_heap pm ! i)" by blast
    then have "(p_conn (pm_heap pm ! i), h) \<in> pm_inst pm m" by (simp add: pm_inst_def)
    moreover have "(p_conn (pm_heap pm ! i), h) \<notin> pm_inst (fst (pm_sweepExpired pm idle now)) m"
      using i(2) pm_conn_inj [OF assms i(1)] by (auto simp: sweep_inst_eq)
    ultimately show "\<exists>c. (c, h) \<in> pm_inst pm m - pm_inst (fst (pm_sweepExpired pm idle now)) m" by blast
  next
    assume "\<exists>c. (c, h) \<in> pm_inst pm m - pm_inst (fst (pm_sweepExpired pm idle now)) m"
    then show "\<exists>i \<in> set (ids_of (pm_methods pm) m). is_expired pm idle now i \<and> h = p_address (pm_heap pm ! i)"
      unfolding sweep_inst_eq by (auto simp: pm_inst_def)
  qed
  ultimately show ?thesis by (simp add: pm_sweepExpired_def)
qed

lemma addr_unchanged:
  "pm_addr addr pm \<Longrightarrow> pm_addr addr (delProvider pm c)"
  "pm_addr addr pm \<Longrightarrow> pm_addr addr (fst (pm_sweepExpired pm idle now))"
  by (auto simp: pm_addr_def delProvider_def pm_sweepExpired_def split: option.splits)

lemma sweep_inst_subset: "pm_inst (fst (pm_sweepExpired pm idle now)) m \<subseteq> pm_inst pm m"
  unfolding sweep_inst_eq by (auto simp: pm_inst_def)

interpretation memreg: registry_store mem_registry_ops
    "\<lambda>addr pm. pm_inv pm \<and> pm_addr addr pm" pm_inst
proof
  fix addr pm m
  assume "pm_inv pm \<and> pm_addr addr pm"
  show "set (map hd_host (rs_methodHostDetails mem_registry_ops pm m)) = snd ` pm_inst pm m"
    by (simp add: mem_registry_ops_def methodHostDetails_def pm_inst_def image_image)
next
  fix addr pm c h m
  assume "pm_inv pm \<and> pm_addr addr pm" "(c, h) \<in> pm_inst pm m"
  then show "h = addr c" using pm_inv_ids(1) by (auto simp: pm_inst_def pm_addr_def)
qed (auto simp: mem_registry_ops_def register_ok update_load_ok heartbeat_ok update_load_inst heartbeat_inst
    disconnect_state del_provider_ok del_provider_inst disconnect_list disconnect_list_addr sweep_ok sweep_report_eq
    addr_unchanged subsetD [OF sweep_inst_subset])

text \<open>Every step keeps the tables consistent.\<close>

lemma pm_inv_step:
  assumes "pm_inv (rstore pwd)"
  shows "pm_inv (rstore (fst (reg_step mem_registry_ops pwd e)))"
proof -
  have reg: "pm_inv (addProvider pm c h m load now)" if inv: "pm_inv pm" for pm c h m load now
  proof -
    define addr where "addr = (\<lambda>c'. if c' = c then h else ([], 0))"
    have "pm_inv (addProvider pm c (addr c) m load now)" if "map_of (pm_conns pm) c = None"
    proof -
      let ?pm = "pm\<lparr>pm_heap := map (\<lambda>p. p\<lparr>p_address := addr (p_conn p)\<rparr>) (pm_heap pm)\<rparr>"
      have "pm_inv (addProvider ?pm c (addr c) m load now)"
        using register_new_ok [of ?pm addr c] inv that
        by (auto simp: pm_inv_def pm_addr_def)
      then show ?thesis
        using that by (auto simp: addProvider_new pm_inv_def nth_append update_conv' split: if_splits)
    qed
    moreover have "pm_inv (addProvider pm c h m load now)" if "map_of (pm_conns pm) c = Some i" for i
      using pm_inv_add_method [OF pm_inv_modify [OF inv, of
            "appendmethod ((pm_heap pm ! i)\<lparr>p_load := load, p_last := now\<rparr>) m" i], of c i m]
        pm_inv_conn [OF inv that] that
      by (auto simp: addProvider_known [OF that] appendmethod_def)
    ultimately show ?thesis by (cases "map_of (pm_conns pm) c") (auto simp: addr_def)
  qed
  have upd: "pm_inv (fst (updateProviderLoad pm m h load now))"
    "pm_inv (fst (updateProviderLastHeartbeat pm m h now))" if "pm_inv pm" for pm m h load now
    using that pm_inv_modify [OF that]
    by (auto simp: updateProviderLoad_def updateProviderLastHeartbeat_def split: option.splits)
  show ?thesis
    using assms reg upd del_provider_ok sweep_ok
    by (cases e) (auto simp: mem_registry_ops_def pwd_onserviceRequest_def onconnShoutdown_def
        sweepAndNotify_def case_prod_beta Let_def disconnect_state split: service_optype.splits)
qed

lemma pm_inv_new: "pm_inv (rstore (new_pwd_manager new_provider_manager))"
  by (simp add: pm_inv_def new_pwd_manager_def new_provider_manager_def ids_of_def)

lemma pm_inv_run: "pm_inv (rstore pwd) \<Longrightarrow> pm_inv (rstore (foldl (\<lambda>pwd e. fst (reg_step mem_registry_ops pwd e)) pwd es))"
  by (induction es arbitrary: pwd) (auto simp: pm_inv_step simp del: reg_step.simps)

subsection \<open>Properties\<close>

text \<open>
  Property C30. The provider tables stay consistent over every run of the registry, whatever
  requests arrive: each provider listed under a method is alive in the connection table under its
  own connection and has that method in its method list (so a disconnect will find it).
\<close>

theorem registry_tables_consistent:
  "pm_inv (rstore (foldl (\<lambda>pwd e. fst (reg_step mem_registry_ops pwd e))
     (new_pwd_manager new_provider_manager) es))"
  by (rule pm_inv_run [OF pm_inv_new])

text \<open>
  Remark. A closed provider connection disappears at once: whatever the state, as long as
  the tables are consistent, after \<open>onconnShoutdown\<close> no method lists a provider of that
  connection, and every client that watches a method it served has been sent an offline
  notification for the provider's address.
\<close>

theorem close_removes_and_notifies:
  assumes "pm_inv (rstore pwd)" "i \<in> set (ids_of (pm_methods (rstore pwd)) m)"
    and "p_conn (pm_heap (rstore pwd) ! i) = c" "w \<in> set (ids_of (dm_methods (discoverer pwd)) m)"
  shows "(w, Notify OFFLINE m (p_address (pm_heap (rstore pwd) ! i)))
           \<in> set (snd (onconnShoutdown mem_registry_ops pwd c))
       \<and> (\<forall>m'. c \<notin> fst ` pm_inst (rstore (fst (onconnShoutdown mem_registry_ops pwd c))) m')"
proof -
  let ?h = "p_address (pm_heap (rstore pwd) ! i)"
  have "(c, ?h) \<in> pm_inst (rstore pwd) m" using assms(2,3) by (auto simp: pm_inst_def)
  then have "(m, ?h) \<in> set (snd (mem_disconnectProvider (rstore pwd) c))"
    by (rule disconnect_list [OF assms(1)])
  then have "(w, Notify OFFLINE m ?h) \<in> set (snd (onconnShoutdown mem_registry_ops pwd c))"
    using assms(4)
    by (force simp: onconnShoutdown_def mem_registry_ops_def case_prod_beta Let_def notify_all_def
        offlineNotify_def notify_def)
  then show ?thesis
    using del_provider_inst [OF assms(1)]
    by (auto simp: onconnShoutdown_def mem_registry_ops_def case_prod_beta Let_def disconnect_state)
qed

definition register_req :: "string \<Rightarrow> host_info \<Rightarrow> service_request" where
  "register_req m h = \<lparr>sr_id = ''r'', sr_method = m, sr_optype = REGISTER, sr_host = Some h, sr_load = Some 0\<rparr>"

definition discover_req :: "string \<Rightarrow> service_request" where
  "discover_req m = \<lparr>sr_id = ''d'', sr_method = m, sr_optype = DISCOVER, sr_host = None, sr_load = None\<rparr>"

definition reg_run_states :: "reg_event list \<Rightarrow> provider_manager pwd_manager" where
  "reg_run_states es = foldl (\<lambda>pwd e. fst (reg_step mem_registry_ops pwd e))
     (new_pwd_manager new_provider_manager) es"

lemmas registry_eval = reg_run_states_def new_pwd_manager_def new_provider_manager_def
  pwd_onserviceRequest_def register_req_def discover_req_def mem_registry_ops_def addProvider_def
  addDiscoverer_def appendmethod_def ids_of_def req_host_def req_load_def Let_def

theorem close_removes_and_notifies_witness:
  "let pwd = reg_run_states [Request 1 (register_req ''add'' (''h'', 80)) 0, Request 9 (discover_req ''add'') 1] in
   (9, Notify OFFLINE ''add'' (p_address (pm_heap (rstore pwd) ! 0)))
     \<in> set (snd (onconnShoutdown mem_registry_ops pwd 1))
   \<and> (\<forall>m'. 1 \<notin> fst ` pm_inst (rstore (fst (onconnShoutdown mem_registry_ops pwd 1))) m')"
  unfolding Let_def
  by (rule close_removes_and_notifies) (simp_all add: registry_eval pm_inv_def)

text \<open>
  Remark. A sweep leaves no provider that has been silent for longer than the limit, keeps
  every other one, and tells every client that watches the method about each one it removed.
\<close>

theorem sweep_exact:
  assumes "pm_inv (rstore pwd)" "i \<in> set (ids_of (pm_methods (rstore pwd)) m)"
  shows "let pwd' = fst (sweepAndNotify mem_registry_ops pwd idle now) in
         (i \<in> set (ids_of (pm_methods (rstore pwd')) m)
            \<longleftrightarrow> now - p_last (pm_heap (rstore pwd) ! i) \<le> idle * sec)
         \<and> pm_heap (rstore pwd') = pm_heap (rstore pwd)
         \<and> (i \<notin> set (ids_of (pm_methods (rstore pwd')) m) \<longrightarrow>
              set (map (\<lambda>w. (w, Notify OFFLINE m (p_address (pm_heap (rstore pwd) ! i))))
                (ids_of (dm_methods (discoverer pwd)) m))
              \<subseteq> set (snd (sweepAndNotify mem_registry_ops pwd idle now)))"
proof -
  have "distinct (map fst (pm_methods (rstore pwd)))" using assms(1) by (simp add: pm_inv_def)
  note listed = sweep_list [OF this, of m _ "\<lambda>i. p_address (pm_heap (rstore pwd) ! i)"
      "is_expired (rstore pwd) idle now"]
  have "(m, p_address (pm_heap (rstore pwd) ! i)) \<in> set (snd (pm_sweepExpired (rstore pwd) idle now))"
    if "is_expired (rstore pwd) idle now i"
    using that assms(2) listed by (auto simp: pm_sweepExpired_def)
  then show ?thesis
    using assms(2)
    by (force simp: sweepAndNotify_def mem_registry_ops_def case_prod_beta Let_def notify_all_def
        offlineNotify_def notify_def pm_sweepExpired_def sweep_ids is_expired_def not_less)
qed

theorem sweep_exact_witness:
  "let pwd = reg_run_states [Request 1 (register_req ''add'' (''h'', 80)) 0, Request 9 (discover_req ''add'') 1] in
   let pwd' = fst (sweepAndNotify mem_registry_ops pwd 15 16000000000) in
   (0 \<in> set (ids_of (pm_methods (rstore pwd')) ''add'')
      \<longleftrightarrow> 16000000000 - p_last (pm_heap (rstore pwd) ! 0) \<le> 15 * sec)
   \<and> pm_heap (rstore pwd') = pm_heap (rstore pwd)
   \<and> (0 \<notin> set (ids_of (pm_methods (rstore pwd')) ''add'') \<longrightarrow>
        set (map (\<lambda>w. (w, Notify OFFLINE ''add'' (p_address (pm_heap (rstore pwd) ! 0))))
          (ids_of (dm_methods (discoverer pwd)) ''add''))
        \<subseteq> set (snd (sweepAndNotify mem_registry_ops pwd 15 16000000000)))"
  unfolding Let_def [of "reg_run_states _"]
  by (rule sweep_exact) (simp_all add: registry_eval pm_inv_def)

end
