(* ===== verification/Rpc_Server.thy ===== *)
theory Rpc_Server
  imports Rpc_Client Registry_Correct
begin

text \<open>
  The server facades of \<open>rpc/src/server/rpc_server.hpp\<close>: \<open>RpcServer\<close>, which joins the two routers
  with one rate limiter and registers its methods with the registry, and \<open>RegistryServer\<close>, which
  runs the sweep when it is the leader. \<open>TopicServer\<close> only passes requests and closed connections on to the
  topic manager.

  What a request to the registry meets is an argument for each attempt: whether connections
  are up, the connection a reconnect gives, the fresh id and the reply. The load average of the
  machine is a real number. The limiter is one object shared by both routers; it is kept in the server
  and lent to the router that handles a request.
\<close>

subsection \<open>The RPC server\<close>

record 'j rpc_server =
  rv_access_addr :: host_info
  rv_registry :: "muduo_client option"
  rv_router :: "'j rpc_router"
  rv_proto_router :: proto_router
  rv_limiter :: "token_bucket option"
  rv_registered_methods :: "string list"
  rv_report_started :: bool

text \<open>The constructor; with discovery enabled it connects to the registry over \<open>c\<close>.\<close>

definition new_rpc_server :: "host_info \<Rightarrow> tcp_conn option \<Rightarrow> 'j rpc_server" where
  "new_rpc_server addr c =
     \<lparr>rv_access_addr = addr,
      rv_registry = map_option (\<lambda>c. client_onConnection (client_connect \<lparr>mc_connection = None, mc_latch = 0\<rparr>) c True) c,
      rv_router = \<lparr>rr_manager = [], rr_rate_limiter = None\<rparr>, rv_proto_router = \<lparr>pr_handlers = [], pr_rate_limiter = None\<rparr>,
      rv_limiter = None, rv_registered_methods = [], rv_report_started = False\<rparr>"

text \<open>Truncation of a number towards zero, as in a conversion to \<open>int\<close>.\<close>

definition trunc :: "real \<Rightarrow> int" where
  "trunc x = (if 0 \<le> x then \<lfloor>x\<rfloor> else \<lceil>x\<rceil>)"

definition currentLoad :: "real option \<Rightarrow> int \<Rightarrow> int" where
  "currentLoad loadavg hardware_concurrency =
     (case loadavg of
        None \<Rightarrow> 0
      | Some load1 \<Rightarrow>
          (let nproc = (if hardware_concurrency < 1 then 1 else hardware_concurrency);
               load = trunc (load1 / real_of_int nproc * 100) in
           if load > 100 then 100 else load))"

record reg_env =
  re_up :: "tcp_conn \<Rightarrow> bool"
  re_conn :: tcp_conn
  re_uid :: string
  re_reply :: service_reply

text \<open>Up to \<open>k\<close> attempts to register, until one succeeds; with the requests that were sent.\<close>

fun register_attempts :: "nat \<Rightarrow> (nat \<Rightarrow> reg_env) \<Rightarrow> muduo_client \<Rightarrow> string \<Rightarrow> host_info \<Rightarrow> int \<Rightarrow> muduo_client \<times> service_request list \<times> bool" where
  "register_attempts 0 env cl m h l = (cl, [], False)"
| "register_attempts (Suc k) env cl m h l =
     (let e = env k; (cl1, req, ok) = cr_methodRegistry cl (re_up e) (re_conn e) (re_uid e) m h l (re_reply e);
          sent = (case req of None \<Rightarrow> [] | Some r \<Rightarrow> [r]) in
      if ok then (cl1, sent, True)
      else let (cl2, sent2, ok2) = register_attempts k env cl1 m h l in (cl2, sent @ sent2, ok2))"

definition registerToRegistry :: "'j rpc_server \<Rightarrow> string \<Rightarrow> int \<Rightarrow> (nat \<Rightarrow> reg_env) \<Rightarrow> 'j rpc_server \<times> service_request list" where
  "registerToRegistry rv m load env =
     (case rv_registry rv of
        None \<Rightarrow> (rv, [])
      | Some cl \<Rightarrow>
          (let (cl', sent, ok) = register_attempts 3 env cl m (rv_access_addr rv) load; rv1 = rv\<lparr>rv_registry := Some cl'\<rparr> in
           (if ok then rv1\<lparr>rv_registered_methods := rv_registered_methods rv1 @ [m], rv_report_started := True\<rparr> else rv1, sent)))"

definition rv_registerMethod :: "'j rpc_server \<Rightarrow> 'j service \<Rightarrow> int \<Rightarrow> (nat \<Rightarrow> reg_env) \<Rightarrow> 'j rpc_server \<times> service_request list" where
  "rv_registerMethod rv sv load env =
     (let (rv1, sent) = registerToRegistry rv (sv_method sv) load env in
      (rv1\<lparr>rv_router := registerMethod (rv_router rv1) sv\<rparr>, sent))"

definition rv_registerProtoHandler ::
  "'j rpc_server \<Rightarrow> string \<Rightarrow> (string \<Rightarrow> resp_code \<times> string) \<Rightarrow> int \<Rightarrow> (nat \<Rightarrow> reg_env) \<Rightarrow> 'j rpc_server \<times> service_request list" where
  "rv_registerProtoHandler rv m h load env =
     registerToRegistry (rv\<lparr>rv_proto_router := (rv_proto_router rv)\<lparr>pr_handlers := AList.update m h (pr_handlers (rv_proto_router rv))\<rparr>\<rparr>) m load env"

definition rv_setRateLimiter :: "'j rpc_server \<Rightarrow> real \<Rightarrow> real \<Rightarrow> real \<Rightarrow> 'j rpc_server" where
  "rv_setRateLimiter rv rate burst now = rv\<lparr>rv_limiter := Some (TokenBucket rate burst now)\<rparr>"

text \<open>A request that arrives: the dispatcher gives it to the router of its class.\<close>

definition rv_handle :: "'j json_lib \<Rightarrow> 'j rpc_server \<Rightarrow> real \<Rightarrow> 'j base_message \<Rightarrow> ('j rpc_server \<times> 'j base_message option) option" where
  "rv_handle L rv now m =
     (case m_payload m of
        RpcRequest d \<Rightarrow>
          map_option (\<lambda>(r, resp). (rv\<lparr>rv_router := r, rv_limiter := rr_rate_limiter r\<rparr>, Some resp))
            (onrpcRequst L (setRateLimiter (rv_router rv) (rv_limiter rv)) now (m_rid m) d)
      | ProtoRpcRequest e \<Rightarrow>
          (let (r, resp) = onProtoRequest ((rv_proto_router rv)\<lparr>pr_rate_limiter := rv_limiter rv\<rparr>) now (m_rid m) e in
           Some (rv\<lparr>rv_proto_router := r, rv_limiter := pr_rate_limiter r\<rparr>, Some resp))
      | _ \<Rightarrow> Some (rv, None))"

fun rv_run :: "'j json_lib \<Rightarrow> 'j rpc_server \<Rightarrow> (real \<times> 'j base_message) list \<Rightarrow> ('j rpc_server \<times> 'j base_message option list) option" where
  "rv_run L rv [] = Some (rv, [])"
| "rv_run L rv ((now, m) # ms) = do {
     (rv1, a) \<leftarrow> rv_handle L rv now m;
     (rv2, as) \<leftarrow> rv_run L rv1 ms;
     Some (rv2, a # as) }"

subsection \<open>Timers\<close>

fun heartbeats :: "(nat \<Rightarrow> reg_env) \<Rightarrow> host_info \<Rightarrow> muduo_client \<Rightarrow> string list \<Rightarrow> muduo_client \<times> service_request list" where
  "heartbeats env h cl [] = (cl, [])"
| "heartbeats env h cl (m # ms) =
     (let e = env (length ms); (cl1, req, ok) = cr_heartbeatProvider cl (re_up e) (re_conn e) (re_uid e) m h (re_reply e);
          (cl2, reqs) = heartbeats env h cl1 ms in
      (cl2, (case req of None \<Rightarrow> reqs | Some r \<Rightarrow> r # reqs)))"

definition heartbeatTick :: "'j rpc_server \<Rightarrow> (nat \<Rightarrow> reg_env) \<Rightarrow> 'j rpc_server \<times> service_request list" where
  "heartbeatTick rv env =
     (case rv_registry rv of
        None \<Rightarrow> (rv, [])
      | Some cl \<Rightarrow> (let (cl', reqs) = heartbeats env (rv_access_addr rv) cl (rv_registered_methods rv) in (rv\<lparr>rv_registry := Some cl'\<rparr>, reqs)))"

fun load_reports :: "(nat \<Rightarrow> reg_env) \<Rightarrow> host_info \<Rightarrow> int \<Rightarrow> muduo_client \<Rightarrow> string list \<Rightarrow> muduo_client \<times> service_request list" where
  "load_reports env h load cl [] = (cl, [])"
| "load_reports env h load cl (m # ms) =
     (let e = env (length ms); (cl1, req, ok) = cr_reportLoad cl (re_up e) (re_conn e) (re_uid e) m h load (re_reply e);
          (cl2, reqs) = load_reports env h load cl1 ms in
      (cl2, (case req of None \<Rightarrow> reqs | Some r \<Rightarrow> r # reqs)))"

definition reportLoadTick :: "'j rpc_server \<Rightarrow> int \<Rightarrow> (nat \<Rightarrow> reg_env) \<Rightarrow> 'j rpc_server \<times> service_request list" where
  "reportLoadTick rv load env =
     (case rv_registry rv of
        None \<Rightarrow> (rv, [])
      | Some cl \<Rightarrow> (let (cl', reqs) = load_reports env (rv_access_addr rv) load cl (rv_registered_methods rv) in (rv\<lparr>rv_registry := Some cl'\<rparr>, reqs)))"

text \<open>The sweep timer of the registry server: only the leader removes silent providers.\<close>

definition sweep_tick ::
  "'s registry_store_ops \<Rightarrow> bool \<Rightarrow> 's pwd_manager \<Rightarrow> int \<Rightarrow> int \<Rightarrow> 's pwd_manager \<times> (conn \<times> reg_msg) list" where
  "sweep_tick ops isLeader pwd idle_timeout_sec now = (if \<not> isLeader then (pwd, []) else sweepAndNotify ops pwd idle_timeout_sec now)"

subsection \<open>One limiter for both protocols\<close>

definition rpc_message :: "'j base_message \<Rightarrow> bool" where
  "rpc_message m \<longleftrightarrow> (case m_payload m of RpcRequest _ \<Rightarrow> True | ProtoRpcRequest _ \<Rightarrow> True | _ \<Rightarrow> False)"

definition is_backoff :: "'j json_lib \<Rightarrow> 'j base_message option \<Rightarrow> bool" where
  "is_backoff L a =
     (case a of
        None \<Rightarrow> False
      | Some m \<Rightarrow>
          (case m_payload m of
             RpcResponse d \<Rightarrow> JsonResponse_rcode L d = Some (resp_code_code resp_code.BACKOFF)
           | ProtoRpcResponse e ms \<Rightarrow> rs_rcode e = resp_code_code resp_code.BACKOFF
           | _ \<Rightarrow> False))"

lemma backoff_reads:
  assumes "json_api L" "backoff_response L rid b = Some resp"
  shows "is_backoff L (Some resp)"
proof -
  obtain d1 d2 where d: "j_put L (j_null L) KEY_RCODE (j_int L (resp_code_code resp_code.BACKOFF)) = Some d1"
      "j_put L d1 KEY_RETRY_AFTER_MS (j_int L (retryAfterMs b)) = Some d2" "m_payload resp = RpcResponse d2"
    using assms(2) by (auto simp: backoff_response_def JsonResponse_setRcode_def JsonResponse_setRetryAfterMs_def bind_eq_Some_conv)
  have "JsonResponse_rcode L d2 = Some (resp_code_code resp_code.BACKOFF)"
    using d(1,2) resp_code_range [of resp_code.BACKOFF]
    by (simp add: JsonResponse_rcode_def get_int_def json_api.index_put [OF assms(1)] json_api.asInt [OF assms(1)] keys)
  then show ?thesis by (simp add: is_backoff_def d(3))
qed

lemma proto_backoff: "is_backoff L (Some (sendProtoResponse rid resp_code.BACKOFF body ms))"
  by (simp add: is_backoff_def sendProtoResponse_def)

lemma handle_limited:
  assumes "json_api L" "rv_limiter rv = Some b" "rpc_message m" "rv_handle L rv now m = Some (rv', a)"
  shows "rv_limiter rv' = Some (fst (allow b now))" and "\<not> snd (allow b now) \<Longrightarrow> is_backoff L a"
proof -
  obtain b' ok where al: "allow b now = (b', ok)" by fastforce
  have lim: "limit (Some b) now = (Some b', ok)" by (simp add: limit_def al)
  show "rv_limiter rv' = Some (fst (allow b now))"
    using assms(2-4) lim al
    by (auto simp: rv_handle_def rpc_message_def onrpcRequst_def onProtoRequest_def setRateLimiter_def bind_eq_Some_conv Let_def
        split: payload.splits if_splits option.splits prod.splits)
  show "is_backoff L a" if "\<not> snd (allow b now)"
    using assms(2-4) lim al that backoff_reads [OF assms(1)] proto_backoff
    by (cases "m_payload m")
      (auto simp: rv_handle_def rpc_message_def onrpcRequst_def onProtoRequest_def setRateLimiter_def bind_eq_Some_conv Let_def
        split: if_splits option.splits)
qed

lemma run_limited:
  assumes "json_api L" "rv_limiter rv = Some b" "\<forall>(t, m) \<in> set ms. rpc_message m" "rv_run L rv ms = Some (rv', as)"
  shows "real (length (filter (\<lambda>a. \<not> is_backoff L a) as)) \<le> admitted (snd (allow_all b (map fst ms)))"
  using assms
proof (induction ms arbitrary: rv b as)
  case (Cons x ms)
  obtain now m where x: "x = (now, m)" by fastforce
  obtain rv1 a as' where r: "rv_handle L rv now m = Some (rv1, a)" "rv_run L rv1 ms = Some (rv', as')" "as = a # as'"
    using Cons.prems(4) by (auto simp: x bind_eq_Some_conv)
  have m: "rpc_message m" using Cons.prems(3) by (simp add: x)
  note h = handle_limited [OF Cons.prems(1,2) m r(1)]
  have "real (length (filter (\<lambda>a. \<not> is_backoff L a) as')) \<le> admitted (snd (allow_all (fst (allow b now)) (map fst ms)))"
    using Cons.IH [OF Cons.prems(1) h(1) _ r(2)] Cons.prems(3) by simp
  then show ?case using h(2) by (auto simp: x r(3) admitted_def case_prod_beta Let_def)
qed (simp add: admitted_def)

text \<open>
  Property C28. One bucket bounds a server for both protocols together: over any mix of JSON and
  Protobuf requests at non-decreasing times, the number of requests that are not refused for
  overload is at most the burst plus the rate times the elapsed time.
\<close>

theorem shared_bucket_bounds_server:
  assumes "json_api L" "0 < rate" "0 \<le> burst" "sorted (t0 # map fst ms)" "\<forall>(t, m) \<in> set ms. rpc_message m"
    and "rv_run L (rv_setRateLimiter rv rate burst t0) ms = Some (rv', as)"
  shows "real (length (filter (\<lambda>a. \<not> is_backoff L a) as)) \<le> burst + (last (t0 # map fst ms) - t0) * rate"
proof -
  let ?b = "TokenBucket rate burst t0"
  have "tb_inv ?b" using assms(2,3) by (simp add: tb_inv_def TokenBucket_def)
  moreover have "rv_limiter (rv_setRateLimiter rv rate burst t0) = Some ?b" by (simp add: rv_setRateLimiter_def)
  ultimately show ?thesis
    using allow_all_pays [of ?b "map fst ms"] run_limited [OF assms(1) _ assms(5,6)] assms(4)
    by (fastforce simp: tb_inv_def TokenBucket_def)
qed

definition idle_server :: "json rpc_server" where
  "idle_server = new_rpc_server (''h'', 80) None"

theorem shared_bucket_bounds_server_witness:
  "\<exists>rv' as. rv_run (json_tree (\<lambda>_. None) (\<lambda>_. None)) (rv_setRateLimiter idle_server 2 1 0) [(0, demo_req), (1, demo_req)] = Some (rv', as)
     \<and> real (length (filter (\<lambda>a. \<not> is_backoff (json_tree (\<lambda>_. None) (\<lambda>_. None)) a) as)) \<le> 1 + (1 - 0) * 2"
proof -
  let ?L = "json_tree (\<lambda>_. None) (\<lambda>_. None)"
  have m: "rpc_message demo_req" by (simp add: rpc_message_def demo_req_def)
  have h: "\<exists>rv1 a. rv_handle ?L rv now demo_req = Some (rv1, a)" for rv :: "json rpc_server" and now
    by (simp add: rv_handle_def demo_req_def split: prod.split)
  obtain rv1 a1 where h1: "rv_handle ?L (rv_setRateLimiter idle_server 2 1 0) 0 demo_req = Some (rv1, a1)" using h by blast
  obtain rv2 a2 where h2: "rv_handle ?L rv1 1 demo_req = Some (rv2, a2)" using h by blast
  obtain rv' as where r: "rv_run ?L (rv_setRateLimiter idle_server 2 1 0) [(0, demo_req), (1, demo_req)] = Some (rv', as)"
    by (simp add: h1 h2)
  show ?thesis
    using shared_bucket_bounds_server [OF jt.json_api_axioms _ _ _ _ r] r m by auto
qed

end
