(* ===== verification/Rpc_Server_Correct.thy ===== *)
theory Rpc_Server_Correct
  imports Rpc_Server
begin

text \<open>
  The timers of a provider against the in-memory registry: heartbeats and load reports keep a
  host listed, and a host whose connection was lost is not listed again by them.
\<close>

subsection \<open>A provider that sends heartbeats stays listed\<close>

definition beats :: "string \<Rightarrow> host_info \<Rightarrow> service_request \<Rightarrow> bool" where
  "beats m h r \<longleftrightarrow> (sr_optype r = HEARTBEAT_PROVIDER \<or> sr_optype r = LOAD_REPORT) \<and> sr_method r = m \<and> req_host r = h"

text \<open>
  Events at non-decreasing times in which connection \<open>c\<close> is not closed and no sweep comes later than its
  limit after the last sign of life of host \<open>h\<close> for method \<open>m\<close>, which was at \<open>t\<close>.
\<close>

fun in_touch :: "string \<Rightarrow> host_info \<Rightarrow> conn \<Rightarrow> int \<Rightarrow> reg_event list \<Rightarrow> bool" where
  "in_touch m h c t [] \<longleftrightarrow> True"
| "in_touch m h c t (Request c' r now # es) \<longleftrightarrow> t \<le> now \<and> in_touch m h c (if beats m h r then now else t) es"
| "in_touch m h c t (Close c' # es) \<longleftrightarrow> c' \<noteq> c \<and> in_touch m h c t es"
| "in_touch m h c t (Sweep idle now # es) \<longleftrightarrow> now - t \<le> idle * sec \<and> in_touch m h c t es"

definition alive_at :: "provider_manager \<Rightarrow> string \<Rightarrow> host_info \<Rightarrow> conn \<Rightarrow> int \<Rightarrow> bool" where
  "alive_at pm m h c t \<longleftrightarrow> (\<exists>i \<in> set (ids_of (pm_methods pm) m). p_conn (pm_heap pm ! i) = c \<and> p_address (pm_heap pm ! i) = h \<and> t \<le> p_last (pm_heap pm ! i))"

lemma alive_listed: "alive_at pm m h c t \<Longrightarrow> h \<in> set (methodHost pm m)"
  by (auto simp: alive_at_def methodHost_def)

lemma alive_mono: "alive_at pm m h c t \<Longrightarrow> t' \<le> t \<Longrightarrow> alive_at pm m h c t'"
  unfolding alive_at_def by fastforce

text \<open>
  Connection \<open>c\<close> registers host \<open>h\<close> and no other one, and no other connection registers \<open>h\<close>.
\<close>

definition own_address :: "host_info \<Rightarrow> conn \<Rightarrow> reg_event \<Rightarrow> bool" where
  "own_address h c e = (case e of Request c' r now \<Rightarrow> sr_optype r = REGISTER \<longrightarrow> (req_host r = h \<longleftrightarrow> c' = c) | _ \<Rightarrow> True)"

definition own_host :: "host_info \<Rightarrow> conn \<Rightarrow> provider_manager \<Rightarrow> bool" where
  "own_host h c pm \<longleftrightarrow> (\<forall>c' i. map_of (pm_conns pm) c' = Some i \<longrightarrow> (p_address (pm_heap pm ! i) = h \<longleftrightarrow> c' = c))"

lemma own_update:
  assumes "own_host h c pm" "p_address p = p_address (pm_heap pm ! i)"
  shows "own_host h c (pm\<lparr>pm_heap := (pm_heap pm)[i := p]\<rparr>)"
proof -
  have "p_address ((pm_heap pm)[i := p] ! k) = p_address (pm_heap pm ! k)" for k
    using assms(2) by (cases "k = i"; cases "i < length (pm_heap pm)") (simp_all add: list_update_beyond)
  then show ?thesis using assms(1) by (simp add: own_host_def)
qed

lemma own_add:
  assumes "own_host h c pm" "pm_inv pm" "h' = h \<longleftrightarrow> c' = c"
  shows "own_host h c (addProvider pm c' h' m load now)"
proof (cases "map_of (pm_conns pm) c'")
  case None
  have "i < length (pm_heap pm)" if "map_of (pm_conns pm) c2 = Some i" for c2 i using assms(2) that by (auto simp: pm_inv_def)
  then show ?thesis using assms(1,3) by (auto simp: own_host_def addProvider_new [OF None] update_conv' nth_append)
next
  case (Some i)
  have "own_host h c (pm\<lparr>pm_heap := (pm_heap pm)[i := appendmethod ((pm_heap pm ! i)\<lparr>p_load := load, p_last := now\<rparr>) m]\<rparr>)"
    by (rule own_update [OF assms(1)]) (simp add: appendmethod_def)
  then show ?thesis by (simp add: own_host_def addProvider_known [OF Some])
qed

lemma own_del: "own_host h c pm \<Longrightarrow> own_host h c (delProvider pm c')"
  by (auto simp: own_host_def delProvider_def delete_conv' split: option.splits if_splits)

lemma own_step:
  assumes "own_host h c (rstore pwd)" "pm_inv (rstore pwd)" "own_address h c e"
  shows "own_host h c (rstore (fst (reg_step mem_registry_ops pwd e)))"
proof (cases e)
  case (Request c' r now)
  show ?thesis
    using own_add [OF assms(1,2), of "req_host r" c'] own_update [OF assms(1)] assms(1,3)
    by (cases "sr_optype r") (auto simp: Request own_address_def pwd_onserviceRequest_def mem_registry_ops_def updateProviderLoad_def
        updateProviderLastHeartbeat_def case_prod_beta Let_def split: option.split)
next
  case (Close c')
  then show ?thesis
    using own_del [OF assms(1)] by (simp add: onconnShoutdown_def mem_registry_ops_def disconnect_state case_prod_beta Let_def)
next
  case (Sweep idle now)
  then show ?thesis
    using assms(1) by (auto simp: sweepAndNotify_def mem_registry_ops_def pm_sweepExpired_def own_host_def case_prod_beta Let_def)
qed

lemma own_run:
  assumes "own_host h c (rstore pwd)" "pm_inv (rstore pwd)" "\<forall>e \<in> set es. own_address h c e"
  shows "own_host h c (rstore (foldl (\<lambda>pwd e. fst (reg_step mem_registry_ops pwd e)) pwd es))"
  using assms by (induction es arbitrary: pwd) (auto simp: own_step pm_inv_step simp del: reg_step.simps)

lemma find_provider:
  assumes "pm_inv pm" "own_host h c pm" "i \<in> set (ids_of (pm_methods pm) m)" "p_address (pm_heap pm ! i) = h"
  shows "List.find (\<lambda>i. p_address (pm_heap pm ! i) = h) (ids_of (pm_methods pm) m) = Some i"
proof -
  obtain j where j: "List.find (\<lambda>i. p_address (pm_heap pm ! i) = h) (ids_of (pm_methods pm) m) = Some j"
    using assms(3,4) by (cases "List.find (\<lambda>i. p_address (pm_heap pm ! i) = h) (ids_of (pm_methods pm) m)") (auto simp: find_None_iff)
  then have "j \<in> set (ids_of (pm_methods pm) m)" "p_address (pm_heap pm ! j) = h" by (auto simp: find_Some_iff)
  moreover have "map_of (pm_conns pm) c = Some k" if "k \<in> set (ids_of (pm_methods pm) m)" "p_address (pm_heap pm ! k) = h" for k
  proof -
    have k: "map_of (pm_conns pm) (p_conn (pm_heap pm ! k)) = Some k" using assms(1) that(1) by (auto simp: pm_inv_def)
    then show ?thesis using assms(2) that(2) unfolding own_host_def by metis
  qed
  ultimately have "i = j" using assms(3,4) by (metis option.inject)
  then show ?thesis using j by simp
qed

lemma alive_update:
  assumes "pm_inv pm" "alive_at pm m h c t" "p_conn p = p_conn (pm_heap pm ! i)" "p_address p = p_address (pm_heap pm ! i)" "t \<le> p_last p"
  shows "alive_at (pm\<lparr>pm_heap := (pm_heap pm)[i := p]\<rparr>) m h c t"
proof -
  obtain k where k: "k \<in> set (ids_of (pm_methods pm) m)" "p_conn (pm_heap pm ! k) = c" "p_address (pm_heap pm ! k) = h" "t \<le> p_last (pm_heap pm ! k)"
    using assms(2) by (auto simp: alive_at_def)
  have "k < length (pm_heap pm)" by (rule pm_inv_ids(1) [OF assms(1) k(1)])
  then have "p_conn ((pm_heap pm)[i := p] ! k) = c \<and> p_address ((pm_heap pm)[i := p] ! k) = h \<and> t \<le> p_last ((pm_heap pm)[i := p] ! k)"
    using k assms(3-5) by (cases "k = i") simp_all
  then show ?thesis using k(1) unfolding alive_at_def by auto
qed

lemma alive_add_method:
  "alive_at pm m h c t \<Longrightarrow> alive_at (pm\<lparr>pm_methods := AList.update m' (List.insert i (ids_of (pm_methods pm) m')) (pm_methods pm)\<rparr>) m h c t"
  unfolding alive_at_def by auto

lemma alive_register:
  assumes "pm_inv pm" "alive_at pm m h c t" "t \<le> now"
  shows "alive_at (addProvider pm c' h' m' load now) m h c t"
proof (cases "map_of (pm_conns pm) c'")
  case None
  obtain k where k: "k \<in> set (ids_of (pm_methods pm) m)" "p_conn (pm_heap pm ! k) = c" "p_address (pm_heap pm ! k) = h" "t \<le> p_last (pm_heap pm ! k)"
    using assms(2) by (auto simp: alive_at_def)
  then show ?thesis
    using pm_inv_ids(1) [OF assms(1) k(1)] by (auto simp: addProvider_new [OF None] alive_at_def nth_append intro!: bexI [of _ k])
next
  case (Some i)
  have "alive_at (pm\<lparr>pm_heap := (pm_heap pm)[i := appendmethod ((pm_heap pm ! i)\<lparr>p_load := load, p_last := now\<rparr>) m']\<rparr>) m h c t"
    by (rule alive_update [OF assms(1,2)]) (simp_all add: appendmethod_def assms(3))
  from alive_add_method [OF this, of m' i] show ?thesis by (simp add: addProvider_known [OF Some])
qed

lemma alive_load:
  assumes "pm_inv pm" "alive_at pm m h c t" "t \<le> now"
  shows "alive_at (fst (updateProviderLoad pm m' h' load now)) m h c t"
  using assms alive_update [OF assms(1,2)] by (auto simp: updateProviderLoad_def split: option.splits)

lemma alive_heartbeat:
  assumes "pm_inv pm" "alive_at pm m h c t" "t \<le> now"
  shows "alive_at (fst (updateProviderLastHeartbeat pm m' h' now)) m h c t"
  using assms alive_update [OF assms(1,2)] by (auto simp: updateProviderLastHeartbeat_def split: option.splits)

text \<open>A heartbeat or a load report of the host itself renews its time.\<close>

lemma alive_renewed:
  assumes "pm_inv pm" "own_host h c pm" "alive_at pm m h c t"
  shows "alive_at (fst (updateProviderLoad pm m h load now)) m h c now" "alive_at (fst (updateProviderLastHeartbeat pm m h now)) m h c now"
proof -
  obtain i where i: "i \<in> set (ids_of (pm_methods pm) m)" "p_conn (pm_heap pm ! i) = c" "p_address (pm_heap pm ! i) = h"
    using assms(3) by (auto simp: alive_at_def)
  note f = find_provider [OF assms(1,2) i(1,3)] and l = pm_inv_ids(1) [OF assms(1) i(1)]
  show "alive_at (fst (updateProviderLoad pm m h load now)) m h c now" "alive_at (fst (updateProviderLastHeartbeat pm m h now)) m h c now"
    using i l by (auto simp: alive_at_def updateProviderLoad_def updateProviderLastHeartbeat_def f intro!: bexI [of _ i])
qed

text \<open>A registration lists the host.\<close>

lemma alive_registered:
  assumes "pm_inv pm" "own_host h c pm"
  shows "alive_at (addProvider pm c h m load now) m h c now"
proof (cases "map_of (pm_conns pm) c")
  case None
  then show ?thesis by (auto simp: alive_at_def addProvider_new [OF None] intro!: bexI [of _ "length (pm_heap pm)"])
next
  case (Some i)
  then have "i < length (pm_heap pm)" "p_conn (pm_heap pm ! i) = c" "p_address (pm_heap pm ! i) = h"
    using assms by (auto simp: pm_inv_def own_host_def)
  then show ?thesis by (auto simp: alive_at_def addProvider_known [OF Some] appendmethod_def intro!: bexI [of _ i])
qed

lemma alive_disconnect:
  assumes "pm_inv pm" "alive_at pm m h c t" "c' \<noteq> c"
  shows "alive_at (delProvider pm c') m h c t"
proof (cases "map_of (pm_conns pm) c'")
  case (Some i)
  then show ?thesis using assms(2,3) by (auto simp: alive_at_def delProvider_def ids_after_del [OF assms(1) Some])
qed (use assms in \<open>simp add: delProvider_def\<close>)

lemma alive_sweep: "alive_at pm m h c t \<Longrightarrow> now - t \<le> idle * sec \<Longrightarrow> alive_at (fst (pm_sweepExpired pm idle now)) m h c t"
  unfolding alive_at_def pm_sweepExpired_def is_expired_def by (fastforce simp: sweep_ids)

lemmas alive_rules = alive_register alive_load alive_heartbeat alive_renewed alive_disconnect alive_sweep

lemma alive_request:
  assumes "pm_inv (rstore pwd)" "own_host h c (rstore pwd)" "alive_at (rstore pwd) m h c t" "t \<le> now"
  shows "alive_at (rstore (fst (pwd_onserviceRequest mem_registry_ops pwd c' r now))) m h c (if beats m h r then now else t)"
proof (cases "beats m h r")
  case True
  then show ?thesis
    using alive_renewed [OF assms(1-3)]
    by (auto simp: beats_def pwd_onserviceRequest_def mem_registry_ops_def case_prod_beta Let_def)
next
  case False
  then show ?thesis
    using alive_register [OF assms(1,3,4)] alive_load [OF assms(1,3,4)] alive_heartbeat [OF assms(1,3,4)] assms(3)
    by (cases "sr_optype r") (simp_all add: pwd_onserviceRequest_def mem_registry_ops_def case_prod_beta Let_def)
qed

lemma alive_run:
  assumes "pm_inv (rstore pwd)" "own_host h c (rstore pwd)" "alive_at (rstore pwd) m h c t"
    and "in_touch m h c t es" "\<forall>e \<in> set es. own_address h c e"
  shows "\<exists>t'. alive_at (rstore (foldl (\<lambda>pwd e. fst (reg_step mem_registry_ops pwd e)) pwd es)) m h c t'"
  using assms
proof (induction es arbitrary: pwd t)
  case (Cons e es)
  let ?pwd = "fst (reg_step mem_registry_ops pwd e)"
  have inv: "pm_inv (rstore ?pwd)" "own_host h c (rstore ?pwd)"
    using pm_inv_step [OF Cons.prems(1)] own_step [OF Cons.prems(2,1), of e] Cons.prems(5) by auto
  have "\<exists>t'. alive_at (rstore ?pwd) m h c t' \<and> in_touch m h c t' es"
  proof (cases e)
    case (Request c' r now)
    then show ?thesis
      using alive_request [OF Cons.prems(1-3), of now c' r] Cons.prems(4) by auto
  next
    case (Close c')
    then show ?thesis
      using alive_disconnect [OF Cons.prems(1,3), of c'] Cons.prems(4)
      by (auto simp: onconnShoutdown_def mem_registry_ops_def disconnect_state case_prod_beta Let_def)
  next
    case (Sweep idle now)
    then show ?thesis
      using alive_sweep [OF Cons.prems(3), of now idle] Cons.prems(4)
      by (auto simp: sweepAndNotify_def mem_registry_ops_def case_prod_beta Let_def)
  qed
  then show ?case using Cons.IH [OF inv] Cons.prems(5) by auto
qed auto

text \<open>
  Property C29. A provider with an address of its own that keeps sending heartbeats or load reports
  stays listed. In any run of the registry from its start in which a connection registers one host and
  no other connection registers that host: once it has registered the host for a method, the
  host remains among the hosts of the method for as long as the connection is not closed and every
  sweep comes within the idle time after its last heartbeat or load report. (Two connections that
  register the same host are not covered: see the remark below.)
\<close>

theorem heartbeats_keep_listed:
  assumes "\<forall>e \<in> set (es0 @ Request c r t # es). own_address h c e"
    and "sr_optype r = REGISTER" "sr_method r = m" "req_host r = h" "in_touch m h c t es"
  shows "h \<in> set (methodHost (rstore (reg_run_states (es0 @ Request c r t # es))) m)"
proof -
  let ?run = "foldl (\<lambda>pwd e. fst (reg_step mem_registry_ops pwd e))"
  let ?pwd = "?run (new_pwd_manager new_provider_manager) es0"
  let ?pwd1 = "fst (reg_step mem_registry_ops ?pwd (Request c r t))"
  have "own_host h c (rstore (new_pwd_manager new_provider_manager))"
    by (simp add: own_host_def new_pwd_manager_def new_provider_manager_def)
  then have pwd: "pm_inv (rstore ?pwd)" "own_host h c (rstore ?pwd)"
    using pm_inv_run [OF pm_inv_new] own_run [OF _ pm_inv_new] assms(1) by auto
  then have pwd1: "pm_inv (rstore ?pwd1)" "own_host h c (rstore ?pwd1)"
    using pm_inv_step [OF pwd(1), of "Request c r t"] own_step [OF pwd(2,1), of "Request c r t"] assms(1) by auto
  have "alive_at (rstore ?pwd1) m h c t"
    using alive_registered [OF pwd, of m] assms(2-4) by (simp add: pwd_onserviceRequest_def mem_registry_ops_def)
  then obtain t' where "alive_at (rstore (?run ?pwd1 es)) m h c t'"
    using alive_run [OF pwd1 _ assms(5)] assms(1) by auto
  then show ?thesis using alive_listed by (simp add: reg_run_states_def)
qed

definition port_addr :: "conn \<Rightarrow> host_info" where
  "port_addr c = (''h'', int c)"

definition load_req :: "string \<Rightarrow> host_info \<Rightarrow> service_request" where
  "load_req m h = fst (reportLoad ''l'' m h 5 NoReply)"

lemma registered_demo:
  "rstore (reg_run_states [Request 7 (register_req ''add'' (port_addr 7)) 0]) =
     \<lparr>pm_heap = [\<lparr>p_load = 0, p_methods = [''add''], p_conn = 7, p_address = port_addr 7, p_last = 0\<rparr>],
      pm_methods = [(''add'', [0])], pm_conns = [(7, 0)]\<rparr>"
  by (simp add: registry_eval)

lemma registered_demo_ok:
  "pm_inv (rstore (reg_run_states [Request 7 (register_req ''add'' (port_addr 7)) 0]))"
  "pm_addr port_addr (rstore (reg_run_states [Request 7 (register_req ''add'' (port_addr 7)) 0]))"
  "inj port_addr"
  unfolding registered_demo by (auto simp: pm_inv_def pm_addr_def ids_of_def inj_def port_addr_def split: if_splits)

theorem heartbeats_keep_listed_witness:
  "port_addr 7 \<in> set (methodHost (rstore (reg_run_states ([Request 8 (register_req ''add'' (port_addr 8)) 0]
     @ Request 7 (register_req ''add'' (port_addr 7)) 0
     # [Request 7 (load_req ''add'' (port_addr 7)) 10000000000, Close 8, Sweep 15 20000000000]))) ''add'')"
  by (rule heartbeats_keep_listed)
    (simp_all add: own_address_def register_req_def load_req_def reportLoad_def beats_def req_host_def sec_def port_addr_def)

text \<open>
  Remark. The address has to be its own: of two connections that register the same host for a method a
  heartbeat renews the first one that is found (\<open>rpc_registry.hpp\<close> line 131), so the host can be swept
  although the heartbeats of the other connection arrive and it is open.
\<close>

theorem shared_address_swept:
  "(''h'', 80) \<notin> set (methodHost (rstore (reg_run_states [Request 1 (register_req ''add'' (''h'', 80)) 0,
     Request 2 (register_req ''add'' (''h'', 80)) 0, Request 1 (load_req ''add'' (''h'', 80)) (14 * sec), Close 2, Sweep 15 (16 * sec)])) ''add'')"
  by code_simp

subsection \<open>A provider that lost the registry\<close>

datatype rv_tick = HeartbeatTick "nat \<Rightarrow> reg_env" | ReportLoadTick int "nat \<Rightarrow> reg_env"

fun provider_ticks :: "'j rpc_server \<Rightarrow> rv_tick list \<Rightarrow> 'j rpc_server \<times> service_request list" where
  "provider_ticks rv [] = (rv, [])"
| "provider_ticks rv (HeartbeatTick env # ts) =
     (let (rv1, rs) = heartbeatTick rv env; (rv2, rs2) = provider_ticks rv1 ts in (rv2, rs @ rs2))"
| "provider_ticks rv (ReportLoadTick load env # ts) =
     (let (rv1, rs) = reportLoadTick rv load env; (rv2, rs2) = provider_ticks rv1 ts in (rv2, rs @ rs2))"

lemma heartbeats_beat: "r \<in> set (snd (heartbeats env h cl ms)) \<Longrightarrow> \<exists>m. beats m h r"
  by (induction ms arbitrary: cl)
    (auto simp: cr_heartbeatProvider_def heartbeatProvider_def beats_def req_host_def case_prod_beta Let_def split: prod.splits bool.splits)

lemma load_reports_beat: "r \<in> set (snd (load_reports env h load cl ms)) \<Longrightarrow> \<exists>m. beats m h r"
  by (induction ms arbitrary: cl)
    (auto simp: cr_reportLoad_def reportLoad_def beats_def req_host_def case_prod_beta Let_def split: prod.splits bool.splits)

lemma tick_addr:
  "rv_access_addr (fst (heartbeatTick rv env)) = rv_access_addr rv"
  "rv_access_addr (fst (reportLoadTick rv load env)) = rv_access_addr rv"
  by (simp_all add: heartbeatTick_def reportLoadTick_def case_prod_beta Let_def split: option.split)

lemma tick_requests:
  "snd (heartbeatTick rv env) = (case rv_registry rv of None \<Rightarrow> [] | Some cl \<Rightarrow> snd (heartbeats env (rv_access_addr rv) cl (rv_registered_methods rv)))"
  "snd (reportLoadTick rv load env) = (case rv_registry rv of None \<Rightarrow> [] | Some cl \<Rightarrow> snd (load_reports env (rv_access_addr rv) load cl (rv_registered_methods rv)))"
  by (simp_all add: heartbeatTick_def reportLoadTick_def case_prod_beta Let_def split: option.split)

lemma tick_beats:
  "r \<in> set (snd (heartbeatTick rv env)) \<Longrightarrow> \<exists>m. beats m (rv_access_addr rv) r"
  "r \<in> set (snd (reportLoadTick rv load env)) \<Longrightarrow> \<exists>m. beats m (rv_access_addr rv) r"
  unfolding tick_requests by (cases "rv_registry rv"; simp add: heartbeats_beat load_reports_beat)+

lemma ticks_beat: "r \<in> set (snd (provider_ticks rv ts)) \<Longrightarrow> \<exists>m. beats m (rv_access_addr rv) r"
proof (induction rv ts rule: provider_ticks.induct)
  case (2 rv env ts)
  then show ?case
    using 2(1) [OF refl surjective_pairing [symmetric]] tick_beats(1) [of r rv env] by (auto simp: tick_addr(1) case_prod_beta Let_def)
next
  case (3 rv load env ts)
  then show ?case
    using 3(1) [OF refl surjective_pairing [symmetric]] tick_beats(2) [of r rv load env] by (auto simp: tick_addr(2) case_prod_beta Let_def)
qed simp

lemma unlisted_find: "h \<notin> set (methodHost pm m) \<Longrightarrow> List.find (\<lambda>i. p_address (pm_heap pm ! i) = h) (ids_of (pm_methods pm) m) = None"
  by (auto simp: methodHost_def find_None_iff)

lemma unlisted_step:
  assumes "beats m h r" "h \<notin> set (methodHost (rstore pwd) m)"
  shows "reg_step mem_registry_ops pwd (Request c r now) = (pwd, [(c, Response (sr_id r) SERVICE_NOT_FOUND (sr_optype r) [])])"
  using assms unlisted_find [OF assms(2)]
  by (auto simp: beats_def pwd_onserviceRequest_def mem_registry_ops_def updateProviderLoad_def updateProviderLastHeartbeat_def
      updateloadResponse_def heartbeatResponse_def)

lemma unlisted_run:
  assumes "\<forall>e \<in> set es. \<exists>c r now m. e = Request c r now \<and> beats m h r" "\<forall>m. h \<notin> set (methodHost (rstore pwd) m)"
  shows "foldl (\<lambda>pwd e. fst (reg_step mem_registry_ops pwd e)) pwd es = pwd"
  using assms by (induction es) (auto simp: unlisted_step simp del: reg_step.simps)

text \<open>
  Remark. A provider whose connection to the registry was lost does not come back by itself: once
  the registry has handled the disconnect, whatever its timers send afterwards, over any
  connection and at any time, leaves the registry unchanged, so its host is listed for no
  method, and each such request is answered with \<open>SERVICE_NOT_FOUND\<close>. The timers reconnect but
  never register again.
\<close>

theorem registry_loss_is_permanent:
  assumes "pm_inv (rstore pwd)" "pm_addr addr (rstore pwd)" "inj addr" "rv_access_addr rv = addr c"
    and "\<forall>e \<in> set es. \<exists>c' r now. e = Request c' r now \<and> r \<in> set (snd (provider_ticks rv ts))"
    and "pwd' = foldl (\<lambda>pwd e. fst (reg_step mem_registry_ops pwd e)) (fst (onconnShoutdown mem_registry_ops pwd c)) es"
    and "r \<in> set (snd (provider_ticks rv ts))"
  shows "rv_access_addr rv \<notin> set (methodHost (rstore pwd') m)
       \<and> reg_step mem_registry_ops pwd' (Request c' r now) = (pwd', [(c', Response (sr_id r) SERVICE_NOT_FOUND (sr_optype r) [])])"
proof -
  let ?pwd = "fst (onconnShoutdown mem_registry_ops pwd c)"
  have st: "rstore ?pwd = delProvider (rstore pwd) c"
    by (simp add: onconnShoutdown_def mem_registry_ops_def disconnect_state case_prod_beta Let_def)
  have out: "addr c \<notin> set (methodHost (rstore ?pwd) m')" for m'
  proof
    assume "addr c \<in> set (methodHost (rstore ?pwd) m')"
    then obtain c' where m: "(c', addr c) \<in> pm_inst (rstore ?pwd) m'"
      by (auto simp: methodHost_def pm_inst_def image_iff)
    moreover have "addr c = addr c'"
      by (rule memreg.inst_addr [OF _ m]) (simp add: st del_provider_ok assms(1,2) addr_unchanged(1))
    ultimately show False using assms(3) by (auto simp: st del_provider_inst [OF assms(1)] inj_eq)
  qed
  have "pwd' = ?pwd"
    unfolding assms(6)
  proof (rule unlisted_run [where h = "addr c"])
    show "\<forall>e \<in> set es. \<exists>c' r now m. e = Request c' r now \<and> beats m (addr c) r"
      using assms(5) ticks_beat [of _ rv ts] unfolding assms(4) by blast
    show "\<forall>m. addr c \<notin> set (methodHost (rstore ?pwd) m)" using out by blast
  qed
  moreover obtain m1 where "beats m1 (addr c) r" using ticks_beat [OF assms(7)] assms(4) by auto
  ultimately show ?thesis using out unlisted_step [OF _ out] assms(4) by simp
qed

definition demo_provider :: "unit rpc_server" where
  "demo_provider = (new_rpc_server (port_addr 7) (Some 3))\<lparr>rv_registered_methods := [''add'']\<rparr>"

definition demo_env :: "nat \<Rightarrow> reg_env" where
  "demo_env _ = \<lparr>re_up = (\<lambda>c. c = 8), re_conn = 8, re_uid = ''b'', re_reply = ServiceReply SERVICE_NOT_FOUND []\<rparr>"

definition demo_beat :: service_request where
  "demo_beat = fst (heartbeatProvider ''b'' ''add'' (port_addr 7) NoReply)"

lemma demo_beat_sent: "snd (provider_ticks demo_provider [HeartbeatTick demo_env]) = [demo_beat]"
  by (simp add: demo_provider_def demo_env_def demo_beat_def new_rpc_server_def heartbeatTick_def cr_heartbeatProvider_def
      ensureConnected_def client_connected_def client_onConnection_def client_connect_def heartbeatProvider_def)

lemma demo_provider_addr: "rv_access_addr demo_provider = port_addr 7"
  by (simp add: demo_provider_def new_rpc_server_def)

theorem registry_loss_is_permanent_witness:
  "let pwd' = foldl (\<lambda>pwd e. fst (reg_step mem_registry_ops pwd e))
     (fst (onconnShoutdown mem_registry_ops (reg_run_states [Request 7 (register_req ''add'' (port_addr 7)) 0]) 7)) [Request 8 demo_beat 10] in
   rv_access_addr demo_provider \<notin> set (methodHost (rstore pwd') ''add'')
   \<and> reg_step mem_registry_ops pwd' (Request 8 demo_beat 20) = (pwd', [(8, Response (sr_id demo_beat) SERVICE_NOT_FOUND (sr_optype demo_beat) [])])"
  unfolding Let_def
  by (rule registry_loss_is_permanent [OF registered_demo_ok _ _ refl, where ts = "[HeartbeatTick demo_env]"])
    (simp_all add: demo_beat_sent demo_provider_addr del: provider_ticks.simps)

end
