(* ===== verification/Etcd_Rest.thy ===== *)
theory Etcd_Rest
  imports Registry Json_Api
begin

text \<open>
  The REST calls to etcd of \<open>server/etcd_registry_store.cpp\<close>. The service, the HTTP library and
  the base64 iterators are arguments: \<open>ee_perform\<close> is one POST in a world \<open>'w\<close>, with no text when it fails.
  An exception is \<^const>\<open>None\<close>; what was done in the world before it stays done. The value under \<open>kvs\<close> is read as an array.
\<close>

record ('w, 'j) etcd_env =
  ee_endpoint :: string
  ee_perform :: "'w \<Rightarrow> string \<Rightarrow> string \<Rightarrow> 'w \<times> string option"
  ee_b64 :: "string \<Rightarrow> string"
  ee_unb64 :: "string \<Rightarrow> string option"
  ee_json :: "'j json_lib"
  ee_asBool :: "'j \<Rightarrow> bool option"

definition curl_post :: "('w, 'j) etcd_env \<Rightarrow> 'w \<Rightarrow> string \<Rightarrow> string \<Rightarrow> 'w \<times> string" where
  "curl_post E w path body =
     (let (w', r) = ee_perform E w (ee_endpoint E @ path) body in (w', case r of None \<Rightarrow> [] | Some resp \<Rightarrow> resp))"

subsection \<open>Base64\<close>

function pad4 :: "string \<Rightarrow> string" where
  "pad4 t = (if length t mod 4 = 0 then t else pad4 (t @ ''=''))"
  by auto

termination pad4
proof (relation "measure (\<lambda>t. (4 - length t mod 4) mod 4)")
  fix t :: string
  assume "length t mod 4 \<noteq> 0"
  then have "length t mod 4 = 1 \<or> length t mod 4 = 2 \<or> length t mod 4 = 3" by arith
  then show "(t @ ''='', t) \<in> measure (\<lambda>t. (4 - length t mod 4) mod 4)" by (auto simp: mod_Suc)
qed simp

declare pad4.simps [simp del]

definition base64_encode :: "('w, 'j) etcd_env \<Rightarrow> string \<Rightarrow> string" where
  "base64_encode E s = pad4 (ee_b64 E s)"

definition base64_decode :: "('w, 'j) etcd_env \<Rightarrow> string \<Rightarrow> string option" where
  "base64_decode E s = ee_unb64 E (rev (dropWhile (\<lambda>c. c = CHR ''='') (rev s)))"

lemma pad4_pads: "\<exists>n. pad4 t = t @ replicate n (CHR ''='')"
proof (induction t rule: pad4.induct)
  case (1 t)
  show ?case
  proof (cases "length t mod 4 = 0")
    case True
    then have "pad4 t = t @ replicate 0 (CHR ''='')" by (simp add: pad4.simps)
    then show ?thesis by blast
  next
    case False
    obtain n where "pad4 (t @ ''='') = (t @ ''='') @ replicate n (CHR ''='')" using 1 False by blast
    then have "pad4 t = t @ replicate (Suc n) (CHR ''='')" using False by (simp add: pad4.simps [of t])
    then show ?thesis by blast
  qed
qed

lemma base64_roundtrip:
  assumes "ee_unb64 E (ee_b64 E s) = Some s" "CHR ''='' \<notin> set (ee_b64 E s)"
  shows "base64_decode E (base64_encode E s) = Some s"
proof -
  obtain n where n: "pad4 (ee_b64 E s) = ee_b64 E s @ replicate n (CHR ''='')" using pad4_pads by blast
  have "dropWhile (\<lambda>c. c = CHR ''='') (replicate n (CHR ''='') @ t) = dropWhile (\<lambda>c. c = CHR ''='') t" for t
    by (induction n) simp_all
  moreover have "dropWhile (\<lambda>c. c = CHR ''='') t = t" if "CHR ''='' \<notin> set t" for t
    using that by (cases t) auto
  ultimately show ?thesis using assms by (simp add: base64_decode_def base64_encode_def n)
qed

subsection \<open>Request bodies\<close>

definition quoted :: "string \<Rightarrow> string" where
  "quoted s = CHR 0x22 # s @ [CHR 0x22]"

definition field :: "string \<Rightarrow> string \<Rightarrow> string" where
  "field k v = quoted k @ '':'' @ v"

definition put_body :: "('w, 'j) etcd_env \<Rightarrow> string \<Rightarrow> string \<Rightarrow> string" where
  "put_body E k v = ''{'' @ field ''key'' (quoted (base64_encode E k)) @ '','' @ field ''value'' (quoted (base64_encode E v)) @ ''}''"

definition put_lease_body :: "('w, 'j) etcd_env \<Rightarrow> string \<Rightarrow> string \<Rightarrow> int \<Rightarrow> string" where
  "put_lease_body E k v l =
     ''{'' @ field ''key'' (quoted (base64_encode E k)) @ '','' @ field ''value'' (quoted (base64_encode E v)) @ '','' @
     field ''lease'' (to_string l) @ ''}''"

definition range_body :: "('w, 'j) etcd_env \<Rightarrow> string \<Rightarrow> string \<Rightarrow> string" where
  "range_body E k e = ''{'' @ field ''key'' (quoted (base64_encode E k)) @ '','' @ field ''range_end'' (quoted (base64_encode E e)) @ ''}''"

definition delete_body :: "('w, 'j) etcd_env \<Rightarrow> string \<Rightarrow> string" where
  "delete_body E k = ''{'' @ field ''key'' (quoted (base64_encode E k)) @ ''}''"

definition grant_body :: "int \<Rightarrow> string" where
  "grant_body ttl = ''{'' @ field ''TTL'' (to_string ttl) @ ''}''"

definition lease_body :: "int \<Rightarrow> string" where
  "lease_body l = ''{'' @ field ''ID'' (quoted (to_string l)) @ ''}''"

text \<open>The transaction that creates an absent key; \<open>closing\<close> ends its put request.\<close>

definition txn_body :: "string \<Rightarrow> ('w, 'j) etcd_env \<Rightarrow> string \<Rightarrow> string \<Rightarrow> int \<Rightarrow> string" where
  "txn_body closing E k v l =
     ''{'' @ field ''compare'' (''[{'' @ field ''key'' (quoted (base64_encode E k)) @ '','' @ field ''result'' (quoted ''EQUAL'') @ '','' @
       field ''target'' (quoted ''VERSION'') @ '','' @ field ''version'' (quoted ''0'') @ ''}],'') @
     field ''success'' (''[{'' @ field ''request_put'' (''{'' @ field ''key'' (quoted (base64_encode E k)) @ '','' @
       field ''value'' (quoted (base64_encode E v)) @ '','' @ field ''lease'' (to_string l) @ closing)) @
     field ''failure'' ''[]'' @ ''}''"

subsection \<open>Calls\<close>

definition http_put :: "('w, 'j) etcd_env \<Rightarrow> 'w \<Rightarrow> string \<Rightarrow> string \<Rightarrow> 'w \<times> bool" where
  "http_put E w k v = (let (w', resp) = curl_post E w ''/v3/kv/put'' (put_body E k v) in (w', resp \<noteq> []))"

definition http_put_with_lease :: "('w, 'j) etcd_env \<Rightarrow> 'w \<Rightarrow> string \<Rightarrow> string \<Rightarrow> int \<Rightarrow> 'w \<times> bool" where
  "http_put_with_lease E w k v l = (let (w', resp) = curl_post E w ''/v3/kv/put'' (put_lease_body E k v l) in (w', resp \<noteq> []))"

definition http_delete :: "('w, 'j) etcd_env \<Rightarrow> 'w \<Rightarrow> string \<Rightarrow> 'w \<times> bool" where
  "http_delete E w k = (let (w', resp) = curl_post E w ''/v3/kv/deleterange'' (delete_body E k) in (w', resp \<noteq> []))"

text \<open>The end of the range of keys with a prefix: the last byte below \<open>0xff\<close> plus one, the rest cut off.\<close>

fun range_end_from :: "string \<Rightarrow> nat \<Rightarrow> string" where
  "range_end_from s 0 = s"
| "range_end_from s (Suc i) =
     (if (of_char (s ! i) :: nat) < 255 then take i s @ [char_of (of_char (s ! i) + 1 :: nat)] else range_end_from s i)"

definition range_end :: "string \<Rightarrow> string" where
  "range_end p = range_end_from p (length p)"

definition read_kv :: "('w, 'j) etcd_env \<Rightarrow> 'j \<Rightarrow> (string \<times> string) option" where
  "read_kv E j = do {
     k0 \<leftarrow> j_index (ee_json E) j ''key''; k1 \<leftarrow> j_asString (ee_json E) k0; k \<leftarrow> base64_decode E k1;
     v0 \<leftarrow> j_index (ee_json E) j ''value''; v1 \<leftarrow> j_asString (ee_json E) v0; v \<leftarrow> base64_decode E v1;
     Some (k, v) }"

definition read_kvs :: "('w, 'j) etcd_env \<Rightarrow> string \<Rightarrow> (string \<times> string) list option" where
  "read_kvs E resp =
     (if resp = [] then Some []
      else case j_parse (ee_json E) resp of
        None \<Rightarrow> Some []
      | Some root \<Rightarrow>
          (case j_find (ee_json E) root ''kvs'' of
             None \<Rightarrow> None
           | Some None \<Rightarrow> Some []
           | Some (Some arr) \<Rightarrow> do { js \<leftarrow> j_elems (ee_json E) arr; those (map (read_kv E) js) }))"

definition http_get_prefix :: "('w, 'j) etcd_env \<Rightarrow> 'w \<Rightarrow> string \<Rightarrow> 'w \<times> (string \<times> string) list option" where
  "http_get_prefix E w p =
     (let (w', resp) = curl_post E w ''/v3/kv/range'' (range_body E p (range_end p)) in (w', read_kvs E resp))"

text \<open>\<open>root.get(k, "").asString()\<close>\<close>

definition text_field :: "('w, 'j) etcd_env \<Rightarrow> 'j \<Rightarrow> string \<Rightarrow> string option" where
  "text_field E root k = do { v \<leftarrow> j_get (ee_json E) root k (j_str (ee_json E) []); j_asString (ee_json E) v }"

definition http_lease_grant :: "('w, 'j) etcd_env \<Rightarrow> 'w \<Rightarrow> int \<Rightarrow> 'w \<times> int option" where
  "http_lease_grant E w ttl =
     (let (w', resp) = curl_post E w ''/v3/lease/grant'' (grant_body ttl) in
      (w', if resp = [] then Some (- 1)
           else case j_parse (ee_json E) resp of
             None \<Rightarrow> Some (- 1)
           | Some root \<Rightarrow> do { s \<leftarrow> text_field E root ''ID''; if s = [] then Some (- 1) else stoll s }))"

definition http_lease_keepalive :: "('w, 'j) etcd_env \<Rightarrow> 'w \<Rightarrow> int \<Rightarrow> 'w \<times> bool option" where
  "http_lease_keepalive E w l =
     (let (w', resp) = curl_post E w ''/v3/lease/keepalive'' (lease_body l) in
      (w', if resp = [] then Some False
           else case j_parse (ee_json E) resp of
             None \<Rightarrow> Some False
           | Some root \<Rightarrow> map_option (\<lambda>s. s \<noteq> []) (text_field E root ''TTL'')))"

definition http_lease_revoke :: "('w, 'j) etcd_env \<Rightarrow> 'w \<Rightarrow> int \<Rightarrow> 'w \<times> bool" where
  "http_lease_revoke E w l = (let (w', resp) = curl_post E w ''/v3/kv/lease/revoke'' (lease_body l) in (w', resp \<noteq> []))"

text \<open>\<open>root.get("succeeded", false).asBool()\<close>\<close>

definition succeeded :: "('w, 'j) etcd_env \<Rightarrow> 'j \<Rightarrow> bool option" where
  "succeeded E root =
     (case j_find (ee_json E) root ''succeeded'' of
        None \<Rightarrow> None
      | Some None \<Rightarrow> Some False
      | Some (Some v) \<Rightarrow> ee_asBool E v)"

definition http_txn_create_if_absent :: "('w, 'j) etcd_env \<Rightarrow> 'w \<Rightarrow> string \<Rightarrow> string \<Rightarrow> int \<Rightarrow> 'w \<times> bool option" where
  "http_txn_create_if_absent E w k v l =
     (let (w', resp) = curl_post E w ''/v3/kv/txn'' (txn_body ''}],'' E k v l) in
      (w', if resp = [] then Some False
           else case j_parse (ee_json E) resp of None \<Rightarrow> Some False | Some root \<Rightarrow> succeeded E root))"

end
