(* ===== verification/Etcd_Service.thy ===== *)
theory Etcd_Service
  imports Etcd_Rest
begin

text \<open>
  What the program relies on of etcd, as a locale over the requests it sends: keys with values bound
  to leases, ranges of keys in byte order, leases that are granted fresh, kept alive, revoked
  and can run out, and a transaction that creates an absent key. A request without an answer, or
  with an error for an answer, may or may not have taken effect. A service in memory that reads the
  requests satisfies the laws.
\<close>

subsection \<open>Key ranges\<close>

definition in_range :: "string \<Rightarrow> string \<Rightarrow> string \<Rightarrow> bool" where
  "in_range p e k \<longleftrightarrow> \<not> bytes_less k p \<and> bytes_less k e"

lemma range_end_from_Cons:
  assumes "i \<le> length p"
  shows "range_end_from (c # p) (Suc i) =
    (if \<exists>b \<in> set (take i p). (of_char b :: nat) < 255 then c # range_end_from p i
     else if (of_char c :: nat) < 255 then [char_of (of_char c + 1 :: nat)] else c # p)"
  using assms
proof (induction i)
  case (Suc i)
  have "set (take (Suc i) p) = insert (p ! i) (set (take i p))" using Suc.prems by (simp add: take_Suc_conv_app_nth)
  then show ?case using Suc by auto
qed simp

lemma range_end_Cons:
  "range_end (c # p) =
    (if \<exists>b \<in> set p. (of_char b :: nat) < 255 then c # range_end p
     else if (of_char c :: nat) < 255 then [char_of (of_char c + 1 :: nat)] else c # p)"
  using range_end_from_Cons [of "length p" p c] by (simp add: range_end_def del: range_end_from.simps)

lemma char_trichotomy:
  obtains (less) "(of_char a :: nat) < of_char b" "a \<noteq> b" | (eq) "a = b" | (greater) "(of_char b :: nat) < of_char a" "a \<noteq> b"
  using linorder_less_linear [of "of_char a :: nat" "of_char b"] of_char_eq_iff [where ?'a = nat, of a b] by blast

lemma top_byte: "\<not> (of_char b :: nat) < 255 \<Longrightarrow> (of_char a :: nat) < of_char b \<or> a = b"
  using nat_of_char_less_256 [of a] by (cases rule: char_trichotomy [of a b]) auto

lemma top_bytes:
  assumes "\<forall>b \<in> set p. \<not> (of_char b :: nat) < 255"
  shows "\<not> bytes_less k p \<longleftrightarrow> take (length p) k = p"
  using assms
proof (induction p arbitrary: k)
  case (Cons b p)
  note IH = Cons.IH and top = Cons.prems
  show ?case
  proof (cases k)
    case (Cons a k')
    have "(of_char a :: nat) < of_char b \<or> a = b" using top_byte top by simp
    moreover have "\<not> bytes_less k' p \<longleftrightarrow> take (length p) k' = p" using IH top by simp
    ultimately show ?thesis using Cons by auto
  qed simp
qed simp

lemma next_char:
  assumes "(of_char c :: nat) < 255"
  shows "(of_char d :: nat) < of_char (char_of (of_char c + 1 :: nat) :: char) \<longleftrightarrow> (of_char d :: nat) < of_char c \<or> d = c"
proof -
  have "(of_char (char_of (of_char c + 1 :: nat) :: char) :: nat) = of_char c + 1" using assms by simp
  then show ?thesis by (cases rule: char_trichotomy [of d c]) auto
qed

lemma range_is_prefix:
  assumes "\<exists>b \<in> set p. (of_char b :: nat) < 255"
  shows "in_range p (range_end p) k \<longleftrightarrow> take (length p) k = p"
  using assms
proof (induction p arbitrary: k)
  case (Cons c p)
  note IH = Cons.IH and small = Cons.prems
  show ?case
  proof (cases k)
    case (Cons d k')
    show ?thesis
    proof (cases "\<exists>b \<in> set p. (of_char b :: nat) < 255")
      case True
      have "range_end (c # p) = c # range_end p" using True by (simp add: range_end_Cons)
      then show ?thesis using IH [OF True, of k'] Cons by (cases rule: char_trichotomy [of d c]) (auto simp: in_range_def)
    next
      case False
      then have c: "(of_char c :: nat) < 255" using small by auto
      have "range_end (c # p) = [char_of (of_char c + 1 :: nat)]" using False c by (simp add: range_end_Cons)
      then show ?thesis
        using False top_bytes [of p k'] Cons next_char [OF c, of d] by (cases rule: char_trichotomy [of d c]) (auto simp: in_range_def)
    qed
  qed (simp add: in_range_def)
qed simp

subsection \<open>The laws\<close>

text \<open>Leases that run out take their keys with them.\<close>

definition drop_leases :: "int set \<Rightarrow> (string \<Rightarrow> (string \<times> int) option) \<Rightarrow> string \<Rightarrow> (string \<times> int) option" where
  "drop_leases live kv = (\<lambda>k. case kv k of None \<Rightarrow> None | Some (v, l) \<Rightarrow> if l \<in> live then Some (v, l) else None)"

text \<open>The answer to a range request lists exactly the entries \<open>ents\<close>, and has no list when there are none.\<close>

definition lists_entries :: "('w, 'j) etcd_env \<Rightarrow> 'j \<Rightarrow> (string \<times> string) list \<Rightarrow> bool" where
  "lists_entries E root ents \<longleftrightarrow>
     (if ents = [] then j_find (ee_json E) root ''kvs'' = Some None
      else \<exists>arr js. j_find (ee_json E) root ''kvs'' = Some (Some arr) \<and> j_elems (ee_json E) arr = Some js
        \<and> list_all2 (\<lambda>j (k, v). j_index (ee_json E) j ''key'' = Some (j_str (ee_json E) (base64_encode E k))
             \<and> j_index (ee_json E) j ''value'' = Some (j_str (ee_json E) (base64_encode E v))) js ents)"

text \<open>
  An error for an answer is an object with the member \<open>error\<close> and none of the members the program
  looks for. A request is served when there is an answer and it is no error.
\<close>

definition error_answer :: "('w, 'j) etcd_env \<Rightarrow> string \<Rightarrow> bool" where
  "error_answer E resp \<longleftrightarrow> (\<exists>root v. j_parse (ee_json E) resp = Some root \<and> j_find (ee_json E) root ''error'' = Some (Some v)
     \<and> (\<forall>k \<in> {''ID'', ''TTL'', ''result'', ''succeeded'', ''kvs''}. j_find (ee_json E) root k = Some None))"

definition served :: "('w, 'j) etcd_env \<Rightarrow> string option \<Rightarrow> bool" where
  "served E r \<longleftrightarrow> (\<exists>resp. r = Some resp \<and> \<not> error_answer E resp)"

locale etcd_service =
  fixes E :: "('w, 'j) etcd_env"
    and kv :: "'w \<Rightarrow> string \<Rightarrow> (string \<times> int) option"
    and leases :: "'w \<Rightarrow> int set"
    and used :: "'w \<Rightarrow> int set"
  assumes json: "json_api (ee_json E)"
    and b64: "ee_unb64 E (ee_b64 E s) = Some s" "CHR ''='' \<notin> set (ee_b64 E s)"
    and put: "ee_perform E w (ee_endpoint E @ ''/v3/kv/put'') (put_lease_body E k v l) = (w', r) \<Longrightarrow>
      leases w' = leases w \<and> used w' = used w
      \<and> (kv w' = kv w \<or> l \<in> leases w \<and> kv w' = (kv w)(k \<mapsto> (v, l)))
      \<and> r \<noteq> Some [] \<and> (served E r \<longrightarrow> l \<in> leases w \<longrightarrow> kv w' = (kv w)(k \<mapsto> (v, l)))"
    and delete: "ee_perform E w (ee_endpoint E @ ''/v3/kv/deleterange'') (delete_body E k) = (w', r) \<Longrightarrow>
      leases w' = leases w \<and> used w' = used w \<and> (kv w' = kv w \<or> kv w' = (kv w)(k := None))
      \<and> (served E r \<longrightarrow> kv w' = (kv w)(k := None))"
    and range: "ee_perform E w (ee_endpoint E @ ''/v3/kv/range'') (range_body E p e) = (w', r) \<Longrightarrow>
      leases w' = leases w \<and> used w' = used w \<and> kv w' = kv w
      \<and> r \<noteq> Some [] \<and> (\<forall>resp. r = Some resp \<longrightarrow> \<not> error_answer E resp \<longrightarrow> (\<exists>root ents. j_parse (ee_json E) resp = Some root \<and> lists_entries E root ents
           \<and> set ents = {(k, v). in_range p e k \<and> (\<exists>l. kv w k = Some (v, l))}))"
    and grant: "ee_perform E w (ee_endpoint E @ ''/v3/lease/grant'') (grant_body ttl) = (w', r) \<Longrightarrow>
      kv w' = kv w \<and> r \<noteq> Some [] \<and> (leases w' = leases w \<and> used w' = used w \<and> \<not> served E r
        \<or> (\<exists>l. 0 \<le> l \<and> l < 2 ^ 63 \<and> l \<notin> used w \<and> leases w' = insert l (leases w) \<and> used w' = insert l (used w)
             \<and> (\<forall>resp. r = Some resp \<longrightarrow> \<not> error_answer E resp \<longrightarrow> (\<exists>root. j_parse (ee_json E) resp = Some root
                  \<and> j_find (ee_json E) root ''ID'' = Some (Some (j_str (ee_json E) (to_string l)))))))"
    and keepalive: "ee_perform E w (ee_endpoint E @ ''/v3/lease/keepalive'') (lease_body l) = (w', r) \<Longrightarrow>
      kv w' = kv w \<and> leases w' = leases w \<and> used w' = used w
      \<and> r \<noteq> Some [] \<and> (\<forall>resp. r = Some resp \<longrightarrow> \<not> error_answer E resp \<longrightarrow> (\<exists>root res. j_parse (ee_json E) resp = Some root
           \<and> j_find (ee_json E) root ''TTL'' = Some None \<and> j_find (ee_json E) root ''result'' = Some (Some res)
           \<and> (if l \<in> leases w then \<exists>t. t \<noteq> [] \<and> j_find (ee_json E) res ''TTL'' = Some (Some (j_str (ee_json E) t))
              else j_find (ee_json E) res ''TTL'' = Some None)))"
    and revoke: "ee_perform E w (ee_endpoint E @ ''/v3/kv/lease/revoke'') (lease_body l) = (w', r) \<Longrightarrow>
      used w' = used w \<and> (leases w' = leases w \<and> kv w' = kv w \<and> \<not> served E r
        \<or> leases w' = leases w - {l} \<and> kv w' = drop_leases (leases w') (kv w))"
    and txn: "ee_perform E w (ee_endpoint E @ ''/v3/kv/txn'') (txn_body ''}}],'' E k v l) = (w', r) \<Longrightarrow>
      leases w' = leases w \<and> used w' = used w
      \<and> (kv w' = kv w \<and> (kv w k \<noteq> None \<or> l \<notin> leases w \<or> \<not> served E r)
         \<or> kv w k = None \<and> l \<in> leases w \<and> kv w' = (kv w)(k \<mapsto> (v, l)))
      \<and> r \<noteq> Some [] \<and> (\<forall>resp. r = Some resp \<longrightarrow> \<not> error_answer E resp \<longrightarrow> (\<exists>root. j_parse (ee_json E) resp = Some root
           \<and> succeeded E root = Some (kv w k = None \<and> l \<in> leases w)))"
begin

lemma b64_reads: "base64_decode E (base64_encode E s) = Some s"
  by (rule base64_roundtrip [OF b64])

lemma text_field_str: "j_find (ee_json E) root k = Some (Some (j_str (ee_json E) s)) \<Longrightarrow> text_field E root k = Some s"
  by (simp add: text_field_def j_get_def json_api.asString [OF json])

lemma text_field_absent: "j_find (ee_json E) root k = Some None \<Longrightarrow> text_field E root k = Some []"
  by (simp add: text_field_def j_get_def json_api.asString [OF json])

text \<open>How the program reads an error.\<close>

lemma error_reads:
  assumes "error_answer E resp"
  shows "\<exists>root. j_parse (ee_json E) resp = Some root \<and> text_field E root ''ID'' = Some [] \<and> succeeded E root = Some False
     \<and> (\<exists>res. j_index (ee_json E) root ''result'' = Some res \<and> text_field E res ''TTL'' = Some [])"
  using assms
  by (auto simp: error_answer_def succeeded_def j_index_def j_get_def text_field_absent json_api.find_null [OF json])

lemma those_Some: "list_all2 (\<lambda>j x. f j = Some x) js xs \<Longrightarrow> those (map f js) = Some xs"
  by (induction rule: list_all2_induct) simp_all

lemma entries_read:
  assumes "lists_entries E root ents" "j_parse (ee_json E) resp = Some root" "resp \<noteq> []"
  shows "read_kvs E resp = Some ents"
proof (cases "ents = []")
  case False
  then obtain arr js where js: "j_find (ee_json E) root ''kvs'' = Some (Some arr)" "j_elems (ee_json E) arr = Some js"
    "list_all2 (\<lambda>j (k, v). j_index (ee_json E) j ''key'' = Some (j_str (ee_json E) (base64_encode E k))
        \<and> j_index (ee_json E) j ''value'' = Some (j_str (ee_json E) (base64_encode E v))) js ents"
    using assms(1) by (auto simp: lists_entries_def)
  have "list_all2 (\<lambda>j x. read_kv E j = Some x) js ents"
    using js(3) by (rule list_all2_mono) (auto simp: read_kv_def b64_reads json_api.asString [OF json])
  from those_Some [OF this] show ?thesis using assms(2,3) js(1,2) by (simp add: read_kvs_def)
qed (use assms in \<open>simp add: lists_entries_def read_kvs_def\<close>)

end

end
