(* ===== verification/Etcd_Memory.thy ===== *)
theory Etcd_Memory
  imports Etcd_Service
begin

text \<open>
  A key-value service in memory that reads the texts of the requests and fulfils the laws of
  \<open>etcd_service\<close>: they can hold together, and runs of the program against the service can be computed.
\<close>

subsection \<open>Texts\<close>

fun splitq :: "string \<Rightarrow> string list" where
  "splitq [] = [[]]"
| "splitq (c # cs) = (case splitq cs of [] \<Rightarrow> [] | x # xs \<Rightarrow> if c = CHR 0x22 then [] # x # xs else (c # x) # xs)"

lemma splitq_nonempty: "splitq s \<noteq> []"
  by (induction s) (auto split: list.split)

lemma splitq_append: "CHR 0x22 \<notin> set a \<Longrightarrow> splitq (a @ r) = (case splitq r of [] \<Rightarrow> [] | x # xs \<Rightarrow> (a @ x) # xs)"
  by (induction a) (auto split: list.split)

fun joinq :: "string list \<Rightarrow> string" where
  "joinq [] = []"
| "joinq [x] = x"
| "joinq (x # y # xs) = x @ CHR 0x22 # joinq (y # xs)"

lemma split_join: "xs \<noteq> [] \<Longrightarrow> \<forall>x \<in> set xs. CHR 0x22 \<notin> set x \<Longrightarrow> splitq (joinq xs) = xs"
proof (induction xs rule: joinq.induct)
  case (2 x)
  then show ?case using splitq_append [of x "[]"] by simp
qed (auto simp: splitq_append)

definition hex_digit :: "nat \<Rightarrow> char" where
  "hex_digit n = char_of (97 + n)"

fun hex :: "string \<Rightarrow> string" where
  "hex [] = []"
| "hex (c # cs) = hex_digit (of_char c div 16) # hex_digit (of_char c mod 16) # hex cs"

fun unhex :: "string \<Rightarrow> string option" where
  "unhex [] = Some []"
| "unhex [a] = None"
| "unhex (a # b # cs) = map_option ((#) (char_of ((of_char a - 97) * 16 + (of_char b - 97) :: nat))) (unhex cs)"

lemma of_hex_digit: "n < 16 \<Longrightarrow> of_char (hex_digit n) = 97 + n"
  by (simp add: hex_digit_def)

lemma unhex_hex: "unhex (hex s) = Some s"
proof (induction s)
  case (Cons c s)
  have "(of_char c :: nat) div 16 < 16" using nat_of_char_less_256 [of c] by (simp add: div_less_iff_less_mult)
  then have "(of_char (hex_digit (of_char c div 16)) - 97) * 16 + (of_char (hex_digit (of_char c mod 16)) - 97) = (of_char c :: nat)"
    by (simp add: of_hex_digit)
  then show ?case using Cons by simp
qed simp

lemma hex_chars: "c \<in> set (hex s) \<Longrightarrow> 97 \<le> (of_char c :: nat)"
proof (induction s)
  case (Cons d s)
  have "(of_char d :: nat) div 16 < 16" using nat_of_char_less_256 [of d] by (simp add: div_less_iff_less_mult)
  then show ?case using Cons by (auto simp: of_hex_digit)
qed simp

lemma hex_plain: "CHR ''='' \<notin> set (hex s)" "CHR 0x22 \<notin> set (hex s)"
  using hex_chars by fastforce+

lemma atoi_to_string:
  assumes "r = [] \<or> \<not> is_digit (hd r)"
  shows "atoi (to_string i @ r) = i"
proof -
  have "takeWhile is_digit r = []" using assms by (cases r) auto
  then have t: "takeWhile is_digit (dec_nat n @ r) = dec_nat n" for n
    using dec_nat_digits [of n] by (subst takeWhile_append2) auto
  have d: "atoi_digits (dec_nat n @ r) = int n" for n
    using atoi_digits_dec [of n] by (simp add: atoi_digits_def t takeWhile_dec)
  show ?thesis
  proof (cases "i < 0")
    case True
    then show ?thesis using d [of "nat (- i)"] by (simp add: atoi_def to_string_def is_space_def)
  next
    case False
    obtain x xs where x: "dec_nat (nat i) = x # xs" using dec_nat_nonempty by (meson neq_Nil_conv)
    then have "is_digit x" using dec_nat_digits [of "nat i"] by auto
    then show ?thesis using False x d [of "nat i"] digit_not_sign [of x] by (simp add: atoi_def to_string_def)
  qed
qed

lemma to_string_no_quote: "CHR 0x22 \<notin> set (to_string i)"
proof -
  have "\<not> is_digit (CHR 0x22)" by (simp add: is_digit_def)
  then have "CHR 0x22 \<notin> set (dec_nat n)" for n using dec_nat_digits [of n] by blast
  then show ?thesis by (simp add: to_string_def)
qed

subsection \<open>The service\<close>

record mem_etcd =
  me_kv :: "(string \<times> string \<times> int) list"
  me_leases :: "int list"
  me_next :: int

definition retain :: "(string \<Rightarrow> 'v \<Rightarrow> bool) \<Rightarrow> (string \<times> 'v) list \<Rightarrow> (string \<times> 'v) list" where
  "retain P xs = map (\<lambda>k. (k, the (map_of xs k))) (filter (\<lambda>k. P k (the (map_of xs k))) (remdups (map fst xs)))"

lemma map_of_graph: "map_of (map (\<lambda>k. (k, f k)) ks) k = (if k \<in> set ks then Some (f k) else None)"
  by (induction ks) auto

lemma map_of_retain: "map_of (retain P xs) k = (case map_of xs k of None \<Rightarrow> None | Some x \<Rightarrow> if P k x then Some x else None)"
proof (cases "map_of xs k")
  case None
  then have "k \<notin> fst ` set xs" by (simp add: map_of_eq_None_iff)
  then show ?thesis using None by (simp add: retain_def map_of_graph)
next
  case (Some x)
  then have "k \<in> fst ` set xs" using map_of_SomeD by force
  then show ?thesis using Some by (simp add: retain_def map_of_graph)
qed

lemma set_retain: "(k, x) \<in> set (retain P xs) \<longleftrightarrow> map_of xs k = Some x \<and> P k x"
proof -
  have "k \<in> fst ` set xs \<longleftrightarrow> map_of xs k \<noteq> None" for k by (simp add: map_of_eq_None_iff)
  then show ?thesis by (auto simp: retain_def)
qed

definition mem_dec :: "string \<Rightarrow> string" where
  "mem_dec s = (case unhex (rev (dropWhile (\<lambda>c. c = CHR ''='') (rev s))) of None \<Rightarrow> [] | Some t \<Rightarrow> t)"

definition mem_perform :: "mem_etcd \<Rightarrow> string \<Rightarrow> string \<Rightarrow> mem_etcd \<times> string option" where
  "mem_perform w url body =
     (let f = (!) (splitq body) in
      if url = ''/v3/kv/put'' then
        (let k = mem_dec (f 3); v = mem_dec (f 7); l = atoi (tl (f 10)) in
         if l \<in> set (me_leases w) then (w\<lparr>me_kv := AList.update k (v, l) (me_kv w)\<rparr>, Some ''O'') else (w, Some ''E''))
      else if url = ''/v3/kv/deleterange'' then (w\<lparr>me_kv := AList.delete (mem_dec (f 3)) (me_kv w)\<rparr>, Some ''O'')
      else if url = ''/v3/kv/range'' then
        (w, Some (''K'' @ concat (map (\<lambda>(k, v, l). CHR 0x22 # pad4 (hex k) @ CHR 0x22 # pad4 (hex v))
           (retain (\<lambda>k _. in_range (mem_dec (f 3)) (mem_dec (f 7)) k) (me_kv w)))))
      else if url = ''/v3/lease/grant'' then
        (if 0 \<le> me_next w \<and> me_next w < 2 ^ 63
         then (w\<lparr>me_leases := me_next w # me_leases w, me_next := me_next w + 1\<rparr>, Some (''I'' @ CHR 0x22 # to_string (me_next w)))
         else (w, Some ''X''))
      else if url = ''/v3/lease/keepalive'' then (w, Some (if atoi (f 3) \<in> set (me_leases w) then ''A'' else ''D''))
      else if url = ''/v3/kv/lease/revoke'' then
        (let l = atoi (f 3); live = removeAll l (me_leases w) in
         (w\<lparr>me_leases := live, me_kv := retain (\<lambda>_ (v, l). l \<in> set live) (me_kv w)\<rparr>, Some ''O''))
      else if url = ''/v3/kv/txn'' then
        (let k = mem_dec (f 25); v = mem_dec (f 29); l = atoi (tl (f 32)) in
         if map_of (me_kv w) k = None \<and> l \<in> set (me_leases w)
         then (w\<lparr>me_kv := AList.update k (v, l) (me_kv w)\<rparr>, Some ''T'') else (w, Some ''F''))
      else (w, Some ''E''))"

fun mem_entries :: "string list \<Rightarrow> json list" where
  "mem_entries (k # v # fs) = JObject [(''key'', JString k), (''value'', JString v)] # mem_entries fs"
| "mem_entries _ = []"

text \<open>Its answers are read by a parser of their own, which also reads the values the registry stores.\<close>

definition mem_parse :: "string \<Rightarrow> json option" where
  "mem_parse s =
     (let t = hd (splitq s); fs = tl (splitq s) in
      if t = ''K'' then Some (JObject (if fs = [] then [] else [(''kvs'', JArray (mem_entries fs))]))
      else if t = ''I'' then Some (JObject [(''ID'', JString (hd fs))])
      else if t = ''A'' then Some (JObject [(''result'', JObject [(''TTL'', JString ''5'')])])
      else if t = ''D'' then Some (JObject [(''result'', JObject [])])
      else if t = ''T'' then Some (JObject [(''succeeded'', JBool True)])
      else if t = ''F'' then Some (JObject [(''succeeded'', JBool False)])
      else if t = ''X'' then Some (JObject [(''error'', JString ''no lease'')])
      else if t = ''{'' then Some (JObject [(''load'', JInt (atoi (tl (last fs))))])
      else None)"

definition mem_etcd_env :: "(mem_etcd, json) etcd_env" where
  "mem_etcd_env = \<lparr>ee_endpoint = [], ee_perform = mem_perform, ee_b64 = hex, ee_unb64 = unhex,
     ee_json = json_tree (\<lambda>_. None) mem_parse, ee_asBool = (\<lambda>v. case v of JBool b \<Rightarrow> Some b | _ \<Rightarrow> None)\<rparr>"

definition new_mem_etcd :: mem_etcd where
  "new_mem_etcd = \<lparr>me_kv = [], me_leases = [], me_next = 1\<rparr>"

definition me_used :: "mem_etcd \<Rightarrow> int set" where
  "me_used w = {l. l < me_next w}"

lemma mem_env_simps [simp]:
  "ee_endpoint mem_etcd_env = []" "ee_perform mem_etcd_env = mem_perform" "ee_b64 mem_etcd_env = hex" "ee_unb64 mem_etcd_env = unhex"
  "ee_json mem_etcd_env = json_tree (\<lambda>_. None) mem_parse" "ee_asBool mem_etcd_env (JBool b) = Some b"
  by (simp_all add: mem_etcd_env_def)

lemma tree_simps [simp]:
  "j_find (json_tree wr pa) = tree_find" "j_str (json_tree wr pa) = JString" "j_parse (json_tree wr pa) = pa" "j_null (json_tree wr pa) = JNull"
  "j_size (json_tree wr pa) = tree_size" "j_at (json_tree wr pa) = tree_at" "j_asString (json_tree wr pa) = tree_asString"
  by (simp_all add: json_tree_def)

lemma b64_mem: "base64_encode mem_etcd_env k = pad4 (hex k)"
  by (simp add: base64_encode_def mem_etcd_env_def)

lemma mem_dec_enc: "mem_dec (pad4 (hex k)) = k"
  using base64_roundtrip [of mem_etcd_env k] unhex_hex hex_plain(1)
  by (simp add: base64_decode_def base64_encode_def mem_dec_def mem_etcd_env_def)

lemma pad4_no_quote: "CHR 0x22 \<notin> set (pad4 (hex k))"
proof -
  obtain n where "pad4 (hex k) = hex k @ replicate n (CHR ''='')" using pad4_pads by blast
  then show ?thesis using hex_plain(2) by auto
qed

lemmas body_defs = field_def quoted_def b64_mem put_lease_body_def range_body_def delete_body_def lease_body_def txn_body_def

lemma split_put:
  "splitq (put_lease_body mem_etcd_env k v l) =
     [''{'', ''key'', '':'', pad4 (hex k), '','', ''value'', '':'', pad4 (hex v), '','', ''lease'', CHR '':'' # to_string l @ ''}'']"
  using split_join [of "[''{'', ''key'', '':'', pad4 (hex k), '','', ''value'', '':'', pad4 (hex v), '','', ''lease'', CHR '':'' # to_string l @ ''}'']"]
  by (simp add: body_defs pad4_no_quote to_string_no_quote)

lemma split_range:
  "splitq (range_body mem_etcd_env k e) = [''{'', ''key'', '':'', pad4 (hex k), '','', ''range_end'', '':'', pad4 (hex e), ''}'']"
  using split_join [of "[''{'', ''key'', '':'', pad4 (hex k), '','', ''range_end'', '':'', pad4 (hex e), ''}'']"]
  by (simp add: body_defs pad4_no_quote)

lemma split_delete: "splitq (delete_body mem_etcd_env k) = [''{'', ''key'', '':'', pad4 (hex k), ''}'']"
  using split_join [of "[''{'', ''key'', '':'', pad4 (hex k), ''}'']"] by (simp add: body_defs pad4_no_quote)

lemma split_lease: "splitq (lease_body l) = [''{'', ''ID'', '':'', to_string l, ''}'']"
  using split_join [of "[''{'', ''ID'', '':'', to_string l, ''}'']"] by (simp add: body_defs to_string_no_quote)

lemma split_txn:
  "splitq (txn_body ''}}],'' mem_etcd_env k v l) =
     [''{'', ''compare'', '':[{'', ''key'', '':'', pad4 (hex k), '','', ''result'', '':'', ''EQUAL'', '','', ''target'', '':'', ''VERSION'', '','',
      ''version'', '':'', ''0'', ''}],'', ''success'', '':[{'', ''request_put'', '':{'', ''key'', '':'', pad4 (hex k), '','', ''value'', '':'',
      pad4 (hex v), '','', ''lease'', CHR '':'' # to_string l @ ''}}],'', ''failure'', '':[]}'']"
  using split_join [of "[''{'', ''compare'', '':[{'', ''key'', '':'', pad4 (hex k), '','', ''result'', '':'', ''EQUAL'', '','', ''target'', '':'', ''VERSION'', '','',
      ''version'', '':'', ''0'', ''}],'', ''success'', '':[{'', ''request_put'', '':{'', ''key'', '':'', pad4 (hex k), '','', ''value'', '':'',
      pad4 (hex v), '','', ''lease'', CHR '':'' # to_string l @ ''}}],'', ''failure'', '':[]}'']"]
  by (simp add: body_defs pad4_no_quote to_string_no_quote)

lemma read_lease [simp]: "atoi (to_string l @ ''}'') = l" "atoi (to_string l @ ''}}],'') = l" "atoi (to_string l) = l"
  using atoi_to_string [of "''}''" l] atoi_to_string [of "''}}],''" l] atoi_to_string [of "[]" l] by (simp_all add: is_digit_def)

subsection \<open>The laws hold\<close>

lemma mem_range_reads:
  assumes "ents = map (\<lambda>(k, v, l). (k, v)) xs"
  shows "\<exists>root. mem_parse (''K'' @ concat (map (\<lambda>(k, v, l). CHR 0x22 # pad4 (hex k) @ CHR 0x22 # pad4 (hex v)) xs)) = Some root \<and> lists_entries mem_etcd_env root ents"
proof -
  let ?fs = "concat (map (\<lambda>(k, v, l). [pad4 (hex k), pad4 (hex v)]) xs)"
  have "joinq (t # ?fs) = t @ concat (map (\<lambda>(k, v, l). CHR 0x22 # pad4 (hex k) @ CHR 0x22 # pad4 (hex v)) xs)" for t
    by (induction xs arbitrary: t) auto
  moreover have "splitq (joinq (''K'' # ?fs)) = ''K'' # ?fs" by (rule split_join) (auto simp: pad4_no_quote)
  ultimately have p: "mem_parse (''K'' @ concat (map (\<lambda>(k, v, l). CHR 0x22 # pad4 (hex k) @ CHR 0x22 # pad4 (hex v)) xs))
      = Some (JObject (if ?fs = [] then [] else [(''kvs'', JArray (mem_entries ?fs))]))"
    by (simp add: mem_parse_def flip: append_Cons)
  have m: "mem_entries ?fs = map (\<lambda>(k, v, l). JObject [(''key'', JString (pad4 (hex k))), (''value'', JString (pad4 (hex v)))]) xs"
    by (induction xs) auto
  have el: "j_elems (json_tree (\<lambda>_. None) mem_parse) (JArray js) = Some js" for js
  proof -
    have "those (map Some ys) = Some ys" for ys :: "json list" by (induction ys) auto
    moreover have "map (tree_at (JArray js)) [0..<length js] = map Some js" by (rule nth_equalityI) auto
    ultimately show ?thesis by (simp add: j_elems_def)
  qed
  show ?thesis
  proof (cases "xs = []")
    case True
    then show ?thesis using p assms by (simp add: lists_entries_def)
  next
    case False
    then have "?fs \<noteq> []" by (cases xs) auto
    moreover have "list_all2 (\<lambda>j (k, v). j_index (ee_json mem_etcd_env) j ''key'' = Some (j_str (ee_json mem_etcd_env) (base64_encode mem_etcd_env k))
             \<and> j_index (ee_json mem_etcd_env) j ''value'' = Some (j_str (ee_json mem_etcd_env) (base64_encode mem_etcd_env v))) (mem_entries ?fs) ents"
      unfolding m assms list_all2_map1 list_all2_map2
      by (rule list.rel_refl) (auto simp: j_index_def j_get_def b64_mem)
    moreover have "j_elems (ee_json mem_etcd_env) (JArray (mem_entries ?fs)) = Some (mem_entries ?fs)" using el by simp
    moreover have "j_find (ee_json mem_etcd_env) (JObject [(''kvs'', x)]) ''kvs'' = Some (Some x)" for x by simp
    ultimately show ?thesis using p False assms by (auto simp: lists_entries_def)
  qed
qed

lemma mem_perform_calls:
  "mem_perform w ''/v3/kv/put'' (put_lease_body mem_etcd_env k v l) =
     (if l \<in> set (me_leases w) then (w\<lparr>me_kv := AList.update k (v, l) (me_kv w)\<rparr>, Some ''O'') else (w, Some ''E''))"
  "mem_perform w ''/v3/kv/deleterange'' (delete_body mem_etcd_env k) = (w\<lparr>me_kv := AList.delete k (me_kv w)\<rparr>, Some ''O'')"
  "mem_perform w ''/v3/kv/range'' (range_body mem_etcd_env p e) =
     (w, Some (''K'' @ concat (map (\<lambda>(k, v, l). CHR 0x22 # pad4 (hex k) @ CHR 0x22 # pad4 (hex v)) (retain (\<lambda>k _. in_range p e k) (me_kv w)))))"
  "mem_perform w ''/v3/lease/grant'' (grant_body ttl) =
     (if 0 \<le> me_next w \<and> me_next w < 2 ^ 63
      then (w\<lparr>me_leases := me_next w # me_leases w, me_next := me_next w + 1\<rparr>, Some (''I'' @ CHR 0x22 # to_string (me_next w))) else (w, Some ''X''))"
  "mem_perform w ''/v3/lease/keepalive'' (lease_body l) = (w, Some (if l \<in> set (me_leases w) then ''A'' else ''D''))"
  "mem_perform w ''/v3/kv/lease/revoke'' (lease_body l) =
     (w\<lparr>me_leases := removeAll l (me_leases w), me_kv := retain (\<lambda>_ (v, l'). l' \<in> set (removeAll l (me_leases w))) (me_kv w)\<rparr>, Some ''O'')"
  "mem_perform w ''/v3/kv/txn'' (txn_body ''}}],'' mem_etcd_env k v l) =
     (if map_of (me_kv w) k = None \<and> l \<in> set (me_leases w) then (w\<lparr>me_kv := AList.update k (v, l) (me_kv w)\<rparr>, Some ''T'') else (w, Some ''F''))"
  by (simp_all add: mem_perform_def split_put split_delete split_range split_lease split_txn mem_dec_enc)

lemma mem_parse_answers:
  "mem_parse ''A'' = Some (JObject [(''result'', JObject [(''TTL'', JString ''5'')])])" "mem_parse ''D'' = Some (JObject [(''result'', JObject [])])"
  "mem_parse ''T'' = Some (JObject [(''succeeded'', JBool True)])" "mem_parse ''F'' = Some (JObject [(''succeeded'', JBool False)])"
  by (simp_all add: mem_parse_def)

lemma mem_parse_id: "mem_parse (CHR ''I'' # CHR 0x22 # to_string l) = Some (JObject [(''ID'', JString (to_string l))])"
  using split_join [of "[''I'', to_string l]"] by (simp add: mem_parse_def to_string_no_quote)

text \<open>Its only error is the answer to a request for a lease when there is none left.\<close>

lemma mem_error: "error_answer mem_etcd_env s \<longleftrightarrow> hd (splitq s) = ''X''"
  by (auto simp: error_answer_def mem_parse_def Let_def split: if_splits)

lemma splitq_quote: "hd (splitq (CHR 0x22 # s)) = []" "splitq (c # s) \<noteq> []"
  using splitq_nonempty [of s] by (auto split: list.split)

lemma mem_error_answers [simp]:
  "\<not> error_answer mem_etcd_env (CHR ''K'' # concat (map (\<lambda>(k, v, l). CHR 0x22 # f k @ CHR 0x22 # g v) xs))"
  "\<not> error_answer mem_etcd_env (CHR ''I'' # CHR 0x22 # s)" "error_answer mem_etcd_env ''X''"
  "\<not> error_answer mem_etcd_env ''O''" "\<not> error_answer mem_etcd_env ''E''" "\<not> error_answer mem_etcd_env ''A''"
  "\<not> error_answer mem_etcd_env ''D''" "\<not> error_answer mem_etcd_env ''T''" "\<not> error_answer mem_etcd_env ''F''"
  using splitq_nonempty by (cases xs; auto simp: mem_error split: list.split)+

interpretation mem_etcd: etcd_service mem_etcd_env "\<lambda>w. map_of (me_kv w)" "\<lambda>w. set (me_leases w)" me_used
proof (rule etcd_service.intro)
  fix w w' r p e
  assume "ee_perform mem_etcd_env w (ee_endpoint mem_etcd_env @ ''/v3/kv/range'') (range_body mem_etcd_env p e) = (w', r)"
  then have r: "w' = w" "r = Some (''K'' @ concat (map (\<lambda>(k, v, l). CHR 0x22 # pad4 (hex k) @ CHR 0x22 # pad4 (hex v)) (retain (\<lambda>k _. in_range p e k) (me_kv w))))"
    by (auto simp: mem_perform_calls)
  define ents where "ents = map (\<lambda>(k, v, l). (k, v)) (retain (\<lambda>k _. in_range p e k) (me_kv w))"
  have "set ents = {(k, v). in_range p e k \<and> (\<exists>l. map_of (me_kv w) k = Some (v, l))}"
  proof -
    have "(k, v) \<in> set ents \<longleftrightarrow> (\<exists>l. (k, v, l) \<in> set (retain (\<lambda>k _. in_range p e k) (me_kv w)))" for k v
      by (force simp: ents_def)
    then show ?thesis by (auto simp: set_retain)
  qed
  then show "set (me_leases w') = set (me_leases w) \<and> me_used w' = me_used w \<and> map_of (me_kv w') = map_of (me_kv w)
      \<and> r \<noteq> Some [] \<and> (\<forall>resp. r = Some resp \<longrightarrow> \<not> error_answer mem_etcd_env resp \<longrightarrow> (\<exists>root ents. j_parse (ee_json mem_etcd_env) resp = Some root \<and> lists_entries mem_etcd_env root ents
           \<and> set ents = {(k, v). in_range p e k \<and> (\<exists>l. map_of (me_kv w) k = Some (v, l))}))"
    using r mem_range_reads [OF ents_def] by auto
qed (auto simp: jt.json_api_axioms unhex_hex hex_plain mem_perform_calls update_conv' delete_conv' map_of_retain drop_leases_def me_used_def fun_eq_iff
    mem_parse_answers mem_parse_id succeeded_def served_def split: if_splits option.splits)

subsection \<open>Computing with the service\<close>

lemma mem_grant:
  assumes "0 \<le> me_next w" "me_next w < 2 ^ 63"
  shows "http_lease_grant mem_etcd_env w ttl = (w\<lparr>me_leases := me_next w # me_leases w, me_next := me_next w + 1\<rparr>, Some (me_next w))"
proof -
  have "stoll (to_string (me_next w)) = Some (me_next w)" unfolding stoll_def by (rule sto_to_string) (use assms in auto)
  moreover have "to_string (me_next w) \<noteq> []" by (simp add: to_string_def dec_nat_nonempty)
  ultimately show ?thesis
    using assms by (simp add: http_lease_grant_def curl_post_def mem_perform_calls mem_parse_id text_field_def j_get_def)
qed

lemma mem_calls:
  "http_put_with_lease mem_etcd_env w k v l = (if l \<in> set (me_leases w) then w\<lparr>me_kv := AList.update k (v, l) (me_kv w)\<rparr> else w, True)"
  "http_delete mem_etcd_env w k = (w\<lparr>me_kv := AList.delete k (me_kv w)\<rparr>, True)"
  "fst (http_get_prefix mem_etcd_env w p) = w"
  by (simp_all add: http_put_with_lease_def http_delete_def http_get_prefix_def curl_post_def mem_perform_calls)

end
