(* ===== verification/Leader_Election.thy ===== *)
theory Leader_Election
  imports Etcd_Memory
begin

text \<open>
  Leader election of the registry servers (\<open>server/leader_election.hpp\<close>,
  \<open>memory_leader_election.hpp\<close>, \<open>etcd_leader_election.cpp\<close>). An instance holds the leadership by
  a key bound to its lease. Several instances tick in any order, can stop or crash, and leases can run
  out at any time; at most one leader has a lease that is alive.
\<close>

subsection \<open>The elector\<close>

record elector =
  el_instance_id :: string
  el_is_leader :: bool
  el_lease_id :: int
  el_callbacks :: "bool list"

definition EtcdLeaderElector :: "string \<Rightarrow> elector" where
  "EtcdLeaderElector inst = \<lparr>el_instance_id = inst, el_is_leader = False, el_lease_id = - 1, el_callbacks = []\<rparr>"

definition isLeader :: "elector \<Rightarrow> bool" where
  "isLeader el = el_is_leader el"

definition mem_isLeader :: bool where
  "mem_isLeader = True"

definition LEASE_TTL_SEC :: int where
  "LEASE_TTL_SEC = 5"

definition leader_key :: string where
  "leader_key = ''/lcz-rpc/v1/leader''"

definition el_revoke :: "('w, 'j) etcd_env \<Rightarrow> 'w \<Rightarrow> int \<Rightarrow> 'w" where
  "el_revoke E w l = fst (curl_post E w ''/v3/kv/lease/revoke'' (lease_body l))"

definition el_stop :: "('w, 'j) etcd_env \<Rightarrow> elector \<Rightarrow> 'w \<Rightarrow> elector \<times> 'w" where
  "el_stop E el w =
     (if el_lease_id el \<ge> 0 then (el\<lparr>el_lease_id := - 1, el_is_leader := False\<rparr>, el_revoke E w (el_lease_id el))
      else (el\<lparr>el_is_leader := False\<rparr>, w))"

definition becomeFollower :: "('w, 'j) etcd_env \<Rightarrow> elector \<Rightarrow> 'w \<Rightarrow> elector \<times> 'w" where
  "becomeFollower E el w =
     (let (el1, w1) = (if el_lease_id el \<ge> 0 then (el\<lparr>el_lease_id := - 1\<rparr>, el_revoke E w (el_lease_id el)) else (el, w)) in
      (if el_is_leader el1 then el1\<lparr>el_is_leader := False, el_callbacks := el_callbacks el1 @ [False]\<rparr> else el1, w1))"

text \<open>\<open>root["result"].get("TTL", "").asString()\<close>\<close>

definition result_ttl :: "('w, 'j) etcd_env \<Rightarrow> 'j \<Rightarrow> string option" where
  "result_ttl E root = do { res \<leftarrow> j_index (ee_json E) root ''result''; text_field E res ''TTL'' }"

text \<open>The last component is \<^const>\<open>False\<close> when an exception leaves the timer callback.\<close>

definition refreshLease :: "('w, 'j) etcd_env \<Rightarrow> elector \<Rightarrow> 'w \<Rightarrow> (elector \<times> 'w) \<times> bool" where
  "refreshLease E el w =
     (if el_lease_id el < 0 then (becomeFollower E el w, True)
      else let (w1, resp) = curl_post E w ''/v3/lease/keepalive'' (lease_body (el_lease_id el)) in
        if resp = [] then (becomeFollower E el w1, True)
        else case j_parse (ee_json E) resp of
          None \<Rightarrow> (becomeFollower E el w1, True)
        | Some root \<Rightarrow>
            (case result_ttl E root of
               None \<Rightarrow> ((el, w1), False)
             | Some t \<Rightarrow> if t = [] then (becomeFollower E el w1, True) else ((el, w1), True)))"

definition tryBecomeLeader :: "('w, 'j) etcd_env \<Rightarrow> elector \<Rightarrow> 'w \<Rightarrow> (elector \<times> 'w) \<times> bool" where
  "tryBecomeLeader E el w =
     (let (w1, resp) = curl_post E w ''/v3/lease/grant'' (grant_body LEASE_TTL_SEC) in
      if resp = [] then ((el, w1), True)
      else case j_parse (ee_json E) resp of
        None \<Rightarrow> ((el, w1), True)
      | Some root \<Rightarrow>
          (case do { s \<leftarrow> text_field E root ''ID''; stoll s } of
             None \<Rightarrow> ((el, w1), False)
           | Some l \<Rightarrow>
               (let (w2, tresp) = curl_post E w1 ''/v3/kv/txn'' (txn_body ''}}],'' E leader_key (el_instance_id el) l) in
                if tresp = [] then ((el, el_revoke E w2 l), True)
                else case j_parse (ee_json E) tresp of
                  None \<Rightarrow> ((el, el_revoke E w2 l), True)
                | Some troot \<Rightarrow>
                    (case succeeded E troot of
                       None \<Rightarrow> ((el, w2), False)
                     | Some False \<Rightarrow> ((el, el_revoke E w2 l), True)
                     | Some True \<Rightarrow> ((el\<lparr>el_is_leader := True, el_lease_id := l, el_callbacks := el_callbacks el @ [True]\<rparr>, w2), True)))))"

definition electionTick :: "('w, 'j) etcd_env \<Rightarrow> elector \<Rightarrow> 'w \<Rightarrow> (elector \<times> 'w) \<times> bool" where
  "electionTick E el w = (if el_is_leader el then refreshLease E el w else tryBecomeLeader E el w)"

subsection \<open>Several instances\<close>

text \<open>
  Instances tick and stop; one that crashes starts again without its lease; a lease that is not
  renewed runs out.
\<close>

inductive election_step ::
  "('w, 'j) etcd_env \<Rightarrow> ('w \<Rightarrow> string \<Rightarrow> (string \<times> int) option) \<Rightarrow> ('w \<Rightarrow> int set) \<Rightarrow> ('w \<Rightarrow> int set)
     \<Rightarrow> elector list \<times> 'w \<Rightarrow> elector list \<times> 'w \<Rightarrow> bool"
  for E kv leases used where
  tick: "i < length els \<Longrightarrow> electionTick E (els ! i) w = ((el, w'), ok) \<Longrightarrow>
    election_step E kv leases used (els, w) (els[i := el], w')"
| stop: "i < length els \<Longrightarrow> el_stop E (els ! i) w = (el, w') \<Longrightarrow> election_step E kv leases used (els, w) (els[i := el], w')"
| crash: "i < length els \<Longrightarrow> election_step E kv leases used (els, w) (els[i := EtcdLeaderElector inst], w)"
| expire: "leases w' \<subseteq> leases w \<Longrightarrow> used w' = used w \<Longrightarrow> kv w' = drop_leases (leases w') (kv w) \<Longrightarrow>
    election_step E kv leases used (els, w) (els, w')"

inductive_cases election_stepE: "election_step E kv leases used (els, w) x"

definition etcd_wf :: "('w \<Rightarrow> string \<Rightarrow> (string \<times> int) option) \<Rightarrow> ('w \<Rightarrow> int set) \<Rightarrow> ('w \<Rightarrow> int set) \<Rightarrow> 'w \<Rightarrow> bool" where
  "etcd_wf kv leases used w \<longleftrightarrow> leases w \<subseteq> used w \<and> (\<forall>k v l. kv w k = Some (v, l) \<longrightarrow> l \<in> leases w)"

text \<open>An instance that leads has a lease of its own, and while that is alive it holds the key.\<close>

definition election_inv ::
  "('w \<Rightarrow> string \<Rightarrow> (string \<times> int) option) \<Rightarrow> ('w \<Rightarrow> int set) \<Rightarrow> ('w \<Rightarrow> int set) \<Rightarrow> elector list \<times> 'w \<Rightarrow> bool" where
  "election_inv kv leases used s \<longleftrightarrow> (case s of (els, w) \<Rightarrow> etcd_wf kv leases used w
     \<and> (\<forall>el \<in> set els. (el_is_leader el \<longleftrightarrow> 0 \<le> el_lease_id el)
          \<and> (el_is_leader el \<longrightarrow> el_lease_id el \<in> used w)
          \<and> (el_is_leader el \<and> el_lease_id el \<in> leases w \<longrightarrow> (\<exists>v. kv w leader_key = Some (v, el_lease_id el))))
     \<and> (\<forall>i < length els. \<forall>j < length els. el_is_leader (els ! i) \<and> el_is_leader (els ! j) \<and> el_lease_id (els ! i) = el_lease_id (els ! j)
          \<longrightarrow> i = j))"

text \<open>A change of the service that concerns the leases \<open>S\<close> and new ones only.\<close>

definition concerns ::
  "('w \<Rightarrow> string \<Rightarrow> (string \<times> int) option) \<Rightarrow> ('w \<Rightarrow> int set) \<Rightarrow> ('w \<Rightarrow> int set) \<Rightarrow> int set \<Rightarrow> 'w \<Rightarrow> 'w \<Rightarrow> bool" where
  "concerns kv leases used S w w' \<longleftrightarrow> used w \<subseteq> used w' \<and> etcd_wf kv leases used w'
     \<and> (\<forall>l \<in> used w - S. l \<in> leases w' \<longrightarrow> l \<in> leases w)
     \<and> (\<forall>v l. kv w leader_key = Some (v, l) \<and> l \<notin> S \<longrightarrow> kv w' leader_key = Some (v, l))"

lemma concerns_trans:
  "concerns kv leases used S w w1 \<Longrightarrow> concerns kv leases used S w1 w2 \<Longrightarrow> concerns kv leases used S w w2"
  unfolding concerns_def by blast

lemma concerns_mono: "concerns kv leases used S w w1 \<Longrightarrow> S \<subseteq> S' \<Longrightarrow> concerns kv leases used S' w w1"
  unfolding concerns_def by blast

lemma concerns_refl: "etcd_wf kv leases used w \<Longrightarrow> concerns kv leases used S w w"
  by (simp add: concerns_def)

lemma concerns_same:
  "etcd_wf kv leases used w \<Longrightarrow> kv w' = kv w \<Longrightarrow> leases w' = leases w \<Longrightarrow> used w' = used w \<Longrightarrow> concerns kv leases used S w w'"
  by (simp add: concerns_def etcd_wf_def)

lemma drop_leases_Some: "drop_leases live m k = Some (v, l) \<longleftrightarrow> m k = Some (v, l) \<and> l \<in> live"
  by (auto simp: drop_leases_def split: option.splits if_splits)

lemma concerns_revoke:
  assumes "etcd_wf kv leases used w" "used w' = used w" "leases w' = leases w - {l}" "kv w' = drop_leases (leases w') (kv w)"
  shows "concerns kv leases used {l} w w'"
  using assms unfolding concerns_def etcd_wf_def by (auto simp: drop_leases_Some)

lemma concerns_fresh:
  assumes "concerns kv leases used S w w'" "etcd_wf kv leases used w" "S \<inter> used w = {}"
  shows "concerns kv leases used {} w w'"
  using assms unfolding concerns_def etcd_wf_def by (metis Diff_empty Diff_triv empty_iff inf_commute subsetD disjoint_iff)

lemma update_distinct:
  assumes inv: "election_inv kv leases used (els, w)" and i: "i < length els"
    and fresh: "el_is_leader el \<Longrightarrow> el_lease_id el \<in> used w \<Longrightarrow> el_is_leader (els ! i) \<and> el_lease_id (els ! i) = el_lease_id el"
    and that: "p < length els" "q < length els" "el_is_leader (els[i := el] ! p)" "el_is_leader (els[i := el] ! q)"
      "el_lease_id (els[i := el] ! p) = el_lease_id (els[i := el] ! q)"
  shows "p = q"
proof -
  have own: "q' = i" if "q' < length els" "el_is_leader el" "el_is_leader (els ! q')" "el_lease_id (els ! q') = el_lease_id el" for q'
  proof -
    have "el_lease_id (els ! q') \<in> used w" using inv that(1,3) by (simp add: election_inv_def)
    then show ?thesis using fresh [OF that(2)] inv i that unfolding election_inv_def case_prod_conv by metis
  qed
  have dist: "p = q" if "el_is_leader (els ! p)" "el_is_leader (els ! q)" "el_lease_id (els ! p) = el_lease_id (els ! q)"
    using inv that \<open>p < length els\<close> \<open>q < length els\<close> unfolding election_inv_def case_prod_conv by blast
  consider "p = i" "q = i" | "p = i" "q \<noteq> i" | "p \<noteq> i" "q = i" | "p \<noteq> i" "q \<noteq> i" by blast
  then show ?thesis
  proof cases
    case 2
    then have "el_is_leader el" "el_is_leader (els ! q)" "el_lease_id el = el_lease_id (els ! q)" using that i by simp_all
    then show ?thesis using own [OF \<open>q < length els\<close>] 2 by simp
  next
    case 3
    then have "el_is_leader el" "el_is_leader (els ! p)" "el_lease_id (els ! p) = el_lease_id el" using that i by simp_all
    then show ?thesis using own [OF \<open>p < length els\<close>] 3 by simp
  next
    case 4
    then have "el_is_leader (els ! p)" "el_is_leader (els ! q)" "el_lease_id (els ! p) = el_lease_id (els ! q)" using that by simp_all
    then show ?thesis by (rule dist)
  qed simp
qed

lemma inv_update:
  assumes "election_inv kv leases used (els, w)" "i < length els" "concerns kv leases used S w w'"
    and "S \<subseteq> (if el_is_leader (els ! i) then {el_lease_id (els ! i)} else {})"
    and "el_is_leader el \<longleftrightarrow> 0 \<le> el_lease_id el"
    and "el_is_leader el \<Longrightarrow> el_lease_id el \<in> used w' \<and> (el_lease_id el \<in> leases w' \<longrightarrow> (\<exists>v. kv w' leader_key = Some (v, el_lease_id el)))
      \<and> (el_lease_id el \<in> used w \<longrightarrow> el_is_leader (els ! i) \<and> el_lease_id (els ! i) = el_lease_id el)"
  shows "election_inv kv leases used (els[i := el], w')"
proof -
  note inv = assms(1) [unfolded election_inv_def case_prod_conv] and c = assms(3) [unfolded concerns_def]
  have others: "0 \<le> el_lease_id x \<longleftrightarrow> el_is_leader x" "el_is_leader x \<Longrightarrow> el_lease_id x \<in> used w'"
    "el_is_leader x \<Longrightarrow> el_lease_id x \<in> leases w' \<Longrightarrow> \<exists>v. kv w' leader_key = Some (v, el_lease_id x)"
    if "j < length els" "x = els ! j" "j \<noteq> i" for x j
  proof -
    have x: "x \<in> set els" using that by simp
    then show "0 \<le> el_lease_id x \<longleftrightarrow> el_is_leader x" "el_is_leader x \<Longrightarrow> el_lease_id x \<in> used w'" using inv c by blast+
    assume l: "el_is_leader x" "el_lease_id x \<in> leases w'"
    then have u: "el_lease_id x \<in> used w" using inv x by blast
    have "el_lease_id x \<notin> S" using assms(2,4) inv l(1) that by (auto split: if_splits)
    then show "\<exists>v. kv w' leader_key = Some (v, el_lease_id x)" using inv c l u x by blast
  qed
  have "\<forall>x \<in> set (els[i := el]). (el_is_leader x \<longleftrightarrow> 0 \<le> el_lease_id x) \<and> (el_is_leader x \<longrightarrow> el_lease_id x \<in> used w')
      \<and> (el_is_leader x \<and> el_lease_id x \<in> leases w' \<longrightarrow> (\<exists>v. kv w' leader_key = Some (v, el_lease_id x)))"
  proof
    fix x assume "x \<in> set (els[i := el])"
    then obtain j where j: "j < length els" "x = els[i := el] ! j" by (auto simp: in_set_conv_nth)
    show "(el_is_leader x \<longleftrightarrow> 0 \<le> el_lease_id x) \<and> (el_is_leader x \<longrightarrow> el_lease_id x \<in> used w')
      \<and> (el_is_leader x \<and> el_lease_id x \<in> leases w' \<longrightarrow> (\<exists>v. kv w' leader_key = Some (v, el_lease_id x)))"
    proof (cases "j = i")
      case True
      then show ?thesis using j assms(5,6) by simp
    next
      case False
      then show ?thesis using others [of j x] j by auto
    qed
  qed
  moreover have "p = q" if "p < length els" "q < length els" "el_is_leader (els[i := el] ! p)" "el_is_leader (els[i := el] ! q)"
      "el_lease_id (els[i := el] ! p) = el_lease_id (els[i := el] ! q)" for p q
    by (rule update_distinct [OF assms(1,2) _ that]) (use assms(6) in blast)
  ultimately show ?thesis using c unfolding election_inv_def case_prod_conv length_list_update by blast
qed

text \<open>The requests of a tick in state \<open>w\<close> are answered, and not with an error.\<close>

definition answers_election :: "('w, 'j) etcd_env \<Rightarrow> 'w \<Rightarrow> string \<Rightarrow> bool" where
  "answers_election E w inst \<longleftrightarrow>
     served E (snd (ee_perform E w (ee_endpoint E @ ''/v3/lease/grant'') (grant_body LEASE_TTL_SEC)))
     \<and> (\<forall>w1 l. served E (snd (ee_perform E w1 (ee_endpoint E @ ''/v3/kv/txn'') (txn_body ''}}],'' E leader_key inst l))))"

lemma stoll_empty: "stoll [] = None"
  by (simp add: stoll_def sto_range_def signed_digits_def)

context etcd_service
begin

lemma revoke_concerns:
  assumes "etcd_wf kv leases used w"
  shows "concerns kv leases used {l} w (el_revoke E w l)"
proof -
  obtain w' r where p: "ee_perform E w (ee_endpoint E @ ''/v3/kv/lease/revoke'') (lease_body l) = (w', r)" by fastforce
  then have "el_revoke E w l = w'" by (simp add: el_revoke_def curl_post_def)
  then show ?thesis using revoke [OF p] assms concerns_same [OF assms] concerns_revoke [OF assms] by metis
qed

lemma grant_result:
  assumes "etcd_wf kv leases used w" "curl_post E w ''/v3/lease/grant'' (grant_body ttl) = (w', resp)"
  shows "concerns kv leases used {} w w'" "kv w' = kv w"
    and "resp \<noteq> [] \<Longrightarrow> \<not> error_answer E resp \<Longrightarrow> \<exists>l root. j_parse (ee_json E) resp = Some root \<and> text_field E root ''ID'' = Some (to_string l)
           \<and> stoll (to_string l) = Some l \<and> 0 \<le> l \<and> l \<notin> used w \<and> l \<in> leases w' \<and> l \<in> used w'"
proof -
  obtain r where p: "ee_perform E w (ee_endpoint E @ ''/v3/lease/grant'') (grant_body ttl) = (w', r)" "resp = (case r of None \<Rightarrow> [] | Some x \<Rightarrow> x)"
    using assms(2) by (auto simp: curl_post_def case_prod_beta Let_def prod_eq_iff)
  note g = grant [OF p(1)]
  then show "concerns kv leases used {} w w'" using assms(1) unfolding concerns_def etcd_wf_def by (elim conjE disjE exE) auto
  show "kv w' = kv w" using g by simp
  assume "resp \<noteq> []" and ne: "\<not> error_answer E resp"
  then obtain x where x: "r = Some x" "resp = x" using p(2) by (cases r) auto
  then have "served E r" using ne by (simp add: served_def)
  with g x ne obtain l where l: "0 \<le> l" "l < 2 ^ 63" "l \<notin> used w" "leases w' = insert l (leases w)" "used w' = insert l (used w)"
    "\<exists>root. j_parse (ee_json E) resp = Some root \<and> j_find (ee_json E) root ''ID'' = Some (Some (j_str (ee_json E) (to_string l)))" by auto
  moreover have "stoll (to_string l) = Some l" unfolding stoll_def by (rule sto_to_string) (use l(1,2) in auto)
  ultimately show "\<exists>l root. j_parse (ee_json E) resp = Some root \<and> text_field E root ''ID'' = Some (to_string l)
           \<and> stoll (to_string l) = Some l \<and> 0 \<le> l \<and> l \<notin> used w \<and> l \<in> leases w' \<and> l \<in> used w'"
    using text_field_str by (metis insertI1)
qed

lemma txn_result:
  assumes "etcd_wf kv leases used w" "curl_post E w ''/v3/kv/txn'' (txn_body ''}}],'' E leader_key v l) = (w', resp)"
  shows "concerns kv leases used {} w w'" "used w' = used w"
    and "resp \<noteq> [] \<Longrightarrow> \<exists>root. j_parse (ee_json E) resp = Some root
      \<and> succeeded E root = Some (\<not> error_answer E resp \<and> kv w leader_key = None \<and> l \<in> leases w)"
    and "resp \<noteq> [] \<Longrightarrow> \<not> error_answer E resp \<Longrightarrow> kv w leader_key = None \<Longrightarrow> l \<in> leases w \<Longrightarrow> kv w' leader_key = Some (v, l)"
proof -
  obtain r where p: "ee_perform E w (ee_endpoint E @ ''/v3/kv/txn'') (txn_body ''}}],'' E leader_key v l) = (w', r)" "resp = (case r of None \<Rightarrow> [] | Some x \<Rightarrow> x)"
    using assms(2) by (auto simp: curl_post_def case_prod_beta Let_def prod_eq_iff)
  note t = txn [OF p(1)]
  then show "concerns kv leases used {} w w'" "used w' = used w" using assms(1) unfolding concerns_def etcd_wf_def by (auto split: if_splits)
  show "resp \<noteq> [] \<Longrightarrow> \<exists>root. j_parse (ee_json E) resp = Some root
      \<and> succeeded E root = Some (\<not> error_answer E resp \<and> kv w leader_key = None \<and> l \<in> leases w)"
    using t p(2) error_reads [of resp] by (cases "error_answer E resp") (auto split: option.splits)
  show "resp \<noteq> [] \<Longrightarrow> \<not> error_answer E resp \<Longrightarrow> kv w leader_key = None \<Longrightarrow> l \<in> leases w \<Longrightarrow> kv w' leader_key = Some (v, l)"
    using t p(2) by (auto simp: served_def split: option.splits)
qed

lemma keepalive_result:
  assumes "etcd_wf kv leases used w" "curl_post E w ''/v3/lease/keepalive'' (lease_body l) = (w', resp)"
  shows "concerns kv leases used {} w w'" "leases w' = leases w" "used w' = used w" "kv w' = kv w"
    and "resp \<noteq> [] \<Longrightarrow> \<exists>root t. j_parse (ee_json E) resp = Some root \<and> result_ttl E root = Some t
      \<and> (t \<noteq> [] \<longleftrightarrow> \<not> error_answer E resp \<and> l \<in> leases w)"
proof -
  obtain r where p: "ee_perform E w (ee_endpoint E @ ''/v3/lease/keepalive'') (lease_body l) = (w', r)" "resp = (case r of None \<Rightarrow> [] | Some x \<Rightarrow> x)"
    using assms(2) by (auto simp: curl_post_def case_prod_beta Let_def prod_eq_iff)
  note k = keepalive [OF p(1)]
  then show "leases w' = leases w" "used w' = used w" "kv w' = kv w" by simp_all
  then show "concerns kv leases used {} w w'" using concerns_same [OF assms(1)] by simp
  assume "resp \<noteq> []"
  then obtain x where x: "r = Some x" "resp = x" using p(2) by (cases r) auto
  show "\<exists>root t. j_parse (ee_json E) resp = Some root \<and> result_ttl E root = Some t \<and> (t \<noteq> [] \<longleftrightarrow> \<not> error_answer E resp \<and> l \<in> leases w)"
  proof (cases "error_answer E resp")
    case True
    then show ?thesis using error_reads [OF True] by (auto simp: result_ttl_def)
  next
    case False
    with k x obtain root res where r: "j_parse (ee_json E) resp = Some root" "j_find (ee_json E) root ''result'' = Some (Some res)"
      "if l \<in> leases w then \<exists>t. t \<noteq> [] \<and> j_find (ee_json E) res ''TTL'' = Some (Some (j_str (ee_json E) t)) else j_find (ee_json E) res ''TTL'' = Some None"
      by auto
    have "result_ttl E root = text_field E res ''TTL''" using r(2) by (simp add: result_ttl_def j_index_def j_get_def)
    then show ?thesis using r False text_field_str text_field_absent by (cases "l \<in> leases w") auto
  qed
qed

lemma concerns_wf: "concerns kv leases used S w w' \<Longrightarrow> etcd_wf kv leases used w'"
  by (simp add: concerns_def)

lemma try_result:
  assumes "etcd_wf kv leases used w" "tryBecomeLeader E el w = ((el', w'), ok)"
  shows "concerns kv leases used {} w w'"
    and "el' = el \<or> (\<exists>l. l \<notin> used w \<and> 0 \<le> l \<and> l \<in> used w' \<and> kv w' leader_key = Some (el_instance_id el, l)
      \<and> el' = el\<lparr>el_is_leader := True, el_lease_id := l, el_callbacks := el_callbacks el @ [True]\<rparr>)"
proof -
  obtain w1 resp where g: "curl_post E w ''/v3/lease/grant'' (grant_body LEASE_TTL_SEC) = (w1, resp)" by fastforce
  note gr = grant_result [OF assms(1) g]
  have "concerns kv leases used {} w w' \<and> (el' = el \<or> (\<exists>l. l \<notin> used w \<and> 0 \<le> l \<and> l \<in> used w' \<and> kv w' leader_key = Some (el_instance_id el, l)
      \<and> el' = el\<lparr>el_is_leader := True, el_lease_id := l, el_callbacks := el_callbacks el @ [True]\<rparr>))"
  proof (cases "resp = []")
    case True
    then show ?thesis using assms(2) gr(1) by (simp add: tryBecomeLeader_def g)
  next
    case False
    show ?thesis
    proof (cases "error_answer E resp")
      case True
      then obtain root where "j_parse (ee_json E) resp = Some root" "text_field E root ''ID'' = Some []" using error_reads by blast
      then show ?thesis using assms(2) gr(1) False by (simp add: tryBecomeLeader_def g stoll_empty)
    next
      case ne: False
      obtain l root where l: "j_parse (ee_json E) resp = Some root" "text_field E root ''ID'' = Some (to_string l)" "stoll (to_string l) = Some l"
        "0 \<le> l" "l \<notin> used w" "l \<in> leases w1" "l \<in> used w1" using gr(3) [OF False ne] by blast
      obtain w2 tresp where t: "curl_post E w1 ''/v3/kv/txn'' (txn_body ''}}],'' E leader_key (el_instance_id el) l) = (w2, tresp)" by fastforce
      note tr = txn_result [OF concerns_wf [OF gr(1)] t] and c2 = concerns_trans [OF gr(1) txn_result(1) [OF concerns_wf [OF gr(1)] t]]
      have "concerns kv leases used {l} w (el_revoke E w2 l)"
        using concerns_trans [OF concerns_mono [OF c2] revoke_concerns [OF concerns_wf [OF c2]]] by simp
      from concerns_fresh [OF this assms(1)] have c3: "concerns kv leases used {} w (el_revoke E w2 l)" using l(5) by simp
      show ?thesis
      proof (cases "tresp = []")
        case True
        then show ?thesis using assms(2) c3 False by (simp add: tryBecomeLeader_def g l t)
      next
        case T: False
        obtain troot where r: "j_parse (ee_json E) tresp = Some troot"
          "succeeded E troot = Some (\<not> error_answer E tresp \<and> kv w1 leader_key = None \<and> l \<in> leases w1)"
          using tr(3) [OF T] by blast
        show ?thesis
        proof (cases "\<not> error_answer E tresp \<and> kv w1 leader_key = None")
          case True
          then show ?thesis
            using assms(2) False T c2 tr(2) tr(4) [OF T _ _ l(6)] l(4-7)
            by (auto simp: tryBecomeLeader_def g l(1-3) t r)
        next
          case no: False
          then show ?thesis using assms(2) False T c3 by (auto simp: tryBecomeLeader_def g l(1-3) t r)
        qed
      qed
    qed
  qed
  then show "concerns kv leases used {} w w'"
    "el' = el \<or> (\<exists>l. l \<notin> used w \<and> 0 \<le> l \<and> l \<in> used w' \<and> kv w' leader_key = Some (el_instance_id el, l)
      \<and> el' = el\<lparr>el_is_leader := True, el_lease_id := l, el_callbacks := el_callbacks el @ [True]\<rparr>)" by blast+
qed

lemma follower_result:
  assumes "etcd_wf kv leases used w" "0 \<le> el_lease_id el"
  shows "concerns kv leases used {el_lease_id el} w (snd (becomeFollower E el w))"
    "\<not> el_is_leader (fst (becomeFollower E el w))" "el_lease_id (fst (becomeFollower E el w)) = - 1"
  using revoke_concerns [OF assms(1)] assms(2) by (auto simp: becomeFollower_def Let_def)

lemma refresh_result:
  assumes "etcd_wf kv leases used w" "el_is_leader el" "0 \<le> el_lease_id el" "refreshLease E el w = ((el', w'), ok)"
  shows "concerns kv leases used {el_lease_id el} w w'"
    and "\<not> el_is_leader el' \<and> el_lease_id el' = - 1
      \<or> el' = el \<and> el_lease_id el \<in> leases w \<and> leases w' = leases w \<and> used w' = used w \<and> kv w' = kv w"
proof -
  obtain w1 resp where k: "curl_post E w ''/v3/lease/keepalive'' (lease_body (el_lease_id el)) = (w1, resp)" by fastforce
  note kr = keepalive_result [OF assms(1) k]
  note fr = follower_result [OF concerns_wf [OF kr(1)] assms(3)]
  have fc: "concerns kv leases used {el_lease_id el} w (snd (becomeFollower E el w1))"
    using concerns_trans [OF concerns_mono [OF kr(1)] fr(1)] by simp
  have "((el', w') = becomeFollower E el w1) \<or> (el' = el \<and> w' = w1 \<and> el_lease_id el \<in> leases w)"
  proof (cases "resp = []")
    case False
    obtain root t where r: "j_parse (ee_json E) resp = Some root" "result_ttl E root = Some t"
      "t \<noteq> [] \<longleftrightarrow> \<not> error_answer E resp \<and> el_lease_id el \<in> leases w"
      using kr(5) [OF False] by blast
    then show ?thesis using assms(3,4) False by (auto simp: refreshLease_def k split: if_splits)
  qed (use assms(3,4) in \<open>auto simp: refreshLease_def k\<close>)
  then show "concerns kv leases used {el_lease_id el} w w'"
    "\<not> el_is_leader el' \<and> el_lease_id el' = - 1
      \<or> el' = el \<and> el_lease_id el \<in> leases w \<and> leases w' = leases w \<and> used w' = used w \<and> kv w' = kv w"
    using fc fr(2,3) concerns_mono [OF kr(1)] kr(2-4) by (auto simp: prod_eq_iff)
qed

lemma election_expire:
  assumes "election_inv kv leases used (els, w)" "leases w' \<subseteq> leases w" "used w' = used w" "kv w' = drop_leases (leases w') (kv w)"
  shows "election_inv kv leases used (els, w')"
  using assms unfolding election_inv_def etcd_wf_def
  by (simp add: drop_leases_Some) blast

lemma election_tick:
  assumes inv: "election_inv kv leases used (els, w)" and i: "i < length els" and t: "electionTick E (els ! i) w = ((el, w'), ok)"
  shows "election_inv kv leases used (els[i := el], w')"
proof -
  have wf: "etcd_wf kv leases used w" using inv by (simp add: election_inv_def)
  have me: "el_is_leader (els ! i) \<longleftrightarrow> 0 \<le> el_lease_id (els ! i)" "el_is_leader (els ! i) \<Longrightarrow> el_lease_id (els ! i) \<in> used w"
    "el_is_leader (els ! i) \<Longrightarrow> el_lease_id (els ! i) \<in> leases w \<Longrightarrow> \<exists>v. kv w leader_key = Some (v, el_lease_id (els ! i))"
    using inv i by (auto simp: election_inv_def)
  show ?thesis
  proof (cases "el_is_leader (els ! i)")
    case True
    then have r: "refreshLease E (els ! i) w = ((el, w'), ok)" using t by (simp add: electionTick_def)
    note rr = refresh_result [OF wf True iffD1 [OF me(1) True] r]
    show ?thesis by (rule inv_update [OF inv i rr(1)]) (use rr(2) True me in auto)
  next
    case False
    then have r: "tryBecomeLeader E (els ! i) w = ((el, w'), ok)" using t by (simp add: electionTick_def)
    note rr = try_result [OF wf r]
    show ?thesis by (rule inv_update [OF inv i rr(1)]) (use rr(2) False me in auto)
  qed
qed

lemma election_stop:
  assumes inv: "election_inv kv leases used (els, w)" and i: "i < length els" and t: "el_stop E (els ! i) w = (el, w')"
  shows "election_inv kv leases used (els[i := el], w')"
proof -
  have wf: "etcd_wf kv leases used w" and me: "el_is_leader (els ! i) \<longleftrightarrow> 0 \<le> el_lease_id (els ! i)"
    using inv i by (auto simp: election_inv_def)
  have el: "\<not> el_is_leader el" "el_lease_id el < 0" using t by (auto simp: el_stop_def split: if_splits)
  have "concerns kv leases used (if el_is_leader (els ! i) then {el_lease_id (els ! i)} else {}) w w'"
    using t me revoke_concerns [OF wf, of "el_lease_id (els ! i)"] concerns_refl [OF wf] by (auto simp: el_stop_def split: if_splits)
  from inv_update [OF inv i this subset_refl] show ?thesis using el by simp
qed

lemma election_preserved: "election_step E kv leases used s s' \<Longrightarrow> election_inv kv leases used s \<Longrightarrow> election_inv kv leases used s'"
proof (induction rule: election_step.induct)
  case (crash i els w inst)
  then have "etcd_wf kv leases used w" by (simp add: election_inv_def)
  then show ?case
    using inv_update [OF crash(2,1) concerns_refl, of "{}" "EtcdLeaderElector inst"] by (simp add: EtcdLeaderElector_def)
qed (use election_tick election_stop election_expire in blast)+

lemma election_reachable: "(election_step E kv leases used)\<^sup>*\<^sup>* s s' \<Longrightarrow> election_inv kv leases used s \<Longrightarrow> election_inv kv leases used s'"
  by (induction rule: rtranclp_induct) (use election_preserved in blast)+

lemma election_init: "etcd_wf kv leases used w \<Longrightarrow> election_inv kv leases used (map EtcdLeaderElector ids, w)"
  by (auto simp: election_inv_def EtcdLeaderElector_def)

text \<open>
  A tick ends in an exception only when the lease is refused with an error, and one whose
  requests are all served wins a free leadership.
\<close>

lemma tick_ok:
  assumes "etcd_wf kv leases used w" "electionTick E el w = ((el', w'), ok)" "el_is_leader el \<longleftrightarrow> 0 \<le> el_lease_id el" "\<not> ok"
  shows "\<not> el_is_leader el \<and> el' = el \<and> kv w' = kv w
    \<and> (\<exists>resp. snd (ee_perform E w (ee_endpoint E @ ''/v3/lease/grant'') (grant_body LEASE_TTL_SEC)) = Some resp \<and> error_answer E resp)"
proof (cases "el_is_leader el")
  case True
  obtain w1 resp where k: "curl_post E w ''/v3/lease/keepalive'' (lease_body (el_lease_id el)) = (w1, resp)" by fastforce
  have ok: "ok"
    using assms(2,3) True keepalive_result(5) [OF assms(1) k] by (auto simp: electionTick_def refreshLease_def k split: if_splits)
  with assms(4) show ?thesis by simp
next
  case False
  obtain w1 resp where g: "curl_post E w ''/v3/lease/grant'' (grant_body LEASE_TTL_SEC) = (w1, resp)" by fastforce
  note gr = grant_result [OF assms(1) g]
  consider (none) "resp = []" | (err) "resp \<noteq> []" "error_answer E resp" | (granted) "resp \<noteq> []" "\<not> error_answer E resp" by blast
  then show ?thesis
  proof cases
    case none
    then show ?thesis using assms(2,4) False by (simp add: electionTick_def tryBecomeLeader_def g)
  next
    case err
    then obtain root where "j_parse (ee_json E) resp = Some root" "text_field E root ''ID'' = Some []" using error_reads by blast
    then have "el' = el" "w' = w1" using assms(2) False err by (simp_all add: electionTick_def tryBecomeLeader_def g stoll_empty)
    moreover have "snd (ee_perform E w (ee_endpoint E @ ''/v3/lease/grant'') (grant_body LEASE_TTL_SEC)) = Some resp"
      using g err(1) by (auto simp: curl_post_def case_prod_beta Let_def split: option.splits)
    ultimately show ?thesis using gr(2) err(2) False by simp
  next
    case granted
    obtain l root where l: "j_parse (ee_json E) resp = Some root" "text_field E root ''ID'' = Some (to_string l)" "stoll (to_string l) = Some l"
      using gr(3) [OF granted] by blast
    obtain w2 tresp where t: "curl_post E w1 ''/v3/kv/txn'' (txn_body ''}}],'' E leader_key (el_instance_id el) l) = (w2, tresp)" by fastforce
    have "ok"
      using assms(2) False granted txn_result(3) [OF concerns_wf [OF gr(1)] t]
      by (auto simp: electionTick_def tryBecomeLeader_def g l t split: if_splits bool.splits)
    with assms(4) show ?thesis by simp
  qed
qed

lemma answered:
  assumes "served E (snd (ee_perform E w (ee_endpoint E @ path) body))" "curl_post E w path body = (w1, resp)"
    "snd (ee_perform E w (ee_endpoint E @ path) body) \<noteq> Some []"
  shows "resp \<noteq> []" "\<not> error_answer E resp"
  using assms by (auto simp: curl_post_def case_prod_beta Let_def served_def prod_eq_iff)

lemma free_leadership_won:
  assumes "etcd_wf kv leases used w" "answers_election E w (el_instance_id el)" "kv w leader_key = None" "\<not> el_is_leader el"
    and "electionTick E el w = ((el', w'), ok)"
  shows "el_is_leader el' \<and> kv w' leader_key = Some (el_instance_id el, el_lease_id el')"
proof -
  obtain w1 resp where g: "curl_post E w ''/v3/lease/grant'' (grant_body LEASE_TTL_SEC) = (w1, resp)" by fastforce
  have "snd (ee_perform E w (ee_endpoint E @ ''/v3/lease/grant'') (grant_body LEASE_TTL_SEC)) \<noteq> Some []"
    using grant [OF prod.collapse [symmetric]] by simp
  note gr = grant_result [OF assms(1) g] and a = answered [OF conjunct1 [OF assms(2) [unfolded answers_election_def]] g this]
  obtain l root where l: "j_parse (ee_json E) resp = Some root" "text_field E root ''ID'' = Some (to_string l)" "stoll (to_string l) = Some l"
    "l \<in> leases w1" using gr(3) [OF a] by blast
  obtain w2 tresp where t: "curl_post E w1 ''/v3/kv/txn'' (txn_body ''}}],'' E leader_key (el_instance_id el) l) = (w2, tresp)" by fastforce
  have "snd (ee_perform E w1 (ee_endpoint E @ ''/v3/kv/txn'') (txn_body ''}}],'' E leader_key (el_instance_id el) l)) \<noteq> Some []"
    using txn [OF prod.collapse [symmetric]] by simp
  note tr = txn_result [OF concerns_wf [OF gr(1)] t]
    and at = answered [OF spec [OF spec [OF conjunct2 [OF assms(2) [unfolded answers_election_def]]]] t this]
  have free: "kv w1 leader_key = None" using assms(3) gr(2) by simp
  obtain troot where "j_parse (ee_json E) tresp = Some troot" "succeeded E troot = Some True" using tr(3) [OF at(1)] at(2) free l(4) by auto
  then show ?thesis
    using assms(4,5) a at tr(4) [OF at free l(4)] by (auto simp: electionTick_def tryBecomeLeader_def g l t)
qed

end

subsection \<open>Properties\<close>

definition one_leader :: "elector \<times> mem_etcd" where
  "one_leader = fst (electionTick mem_etcd_env (EtcdLeaderElector ''a'') new_mem_etcd)"

lemmas election_eval = one_leader_def electionTick_def tryBecomeLeader_def EtcdLeaderElector_def new_mem_etcd_def curl_post_def mem_perform_calls
  mem_parse_id mem_parse_answers text_field_def j_get_def stoll_def sto_to_string succeeded_def

lemma one_leader_eval:
  "one_leader = (\<lparr>el_instance_id = ''a'', el_is_leader = True, el_lease_id = 1, el_callbacks = [True]\<rparr>,
     \<lparr>me_kv = [(leader_key, ''a'', 1)], me_leases = [1], me_next = 2\<rparr>)"
  by (simp add: election_eval)

lemma one_leader_run:
  "(election_step mem_etcd_env (\<lambda>w. map_of (me_kv w)) (\<lambda>w. set (me_leases w)) me_used)\<^sup>*\<^sup>*
     (map EtcdLeaderElector [''a'', ''b''], new_mem_etcd) ([fst one_leader, EtcdLeaderElector ''b''], snd one_leader)"
proof -
  obtain ok where "electionTick mem_etcd_env (EtcdLeaderElector ''a'') new_mem_etcd = ((fst one_leader, snd one_leader), ok)"
    by (metis one_leader_def prod.collapse)
  from election_step.tick [of 0 "map EtcdLeaderElector [''a'', ''b'']", where E = mem_etcd_env and w = new_mem_etcd, simplified, OF this]
  show ?thesis by (intro r_into_rtranclp) simp
qed

lemma new_mem_etcd_wf: "etcd_wf (\<lambda>w. map_of (me_kv w)) (\<lambda>w. set (me_leases w)) me_used new_mem_etcd"
  by (simp add: etcd_wf_def new_mem_etcd_def)

text \<open>
  Property C9. At most one registry leads: for any number of instances that tick, stop and crash in
  any order (a tick with its requests is one step), with requests lost before or after they take
  effect or answered with an error, and leases that run out at any time, no two instances believe to be the leader with a lease that is alive, and the one that
  does holds the leader key.
\<close>

theorem at_most_one_leader:
  assumes "etcd_service E kv leases used" "etcd_wf kv leases used w0"
    and "(election_step E kv leases used)\<^sup>*\<^sup>* (map EtcdLeaderElector ids, w0) (els, w)"
    and "i < length els" "isLeader (els ! i)" "el_lease_id (els ! i) \<in> leases w"
    and "j < length els" "isLeader (els ! j)" "el_lease_id (els ! j) \<in> leases w"
  shows "i = j \<and> (\<exists>v. kv w leader_key = Some (v, el_lease_id (els ! i)))"
proof -
  have inv: "election_inv kv leases used (els, w)"
    using etcd_service.election_reachable [OF assms(1,3) etcd_service.election_init [OF assms(1,2)]] .
  have holds: "\<exists>v. kv w leader_key = Some (v, el_lease_id (els ! n))" if "n < length els" "isLeader (els ! n)" "el_lease_id (els ! n) \<in> leases w" for n
    using inv that nth_mem [OF that(1)] by (simp add: election_inv_def isLeader_def)
  obtain v v' where h: "kv w leader_key = Some (v, el_lease_id (els ! i))" "kv w leader_key = Some (v', el_lease_id (els ! j))"
    using holds [OF assms(4-6)] holds [OF assms(7-9)] by blast
  then have "el_lease_id (els ! i) = el_lease_id (els ! j)" by simp
  then have "i = j" using inv assms(4,5,7,8) unfolding election_inv_def isLeader_def by blast
  then show ?thesis using h by blast
qed

theorem at_most_one_leader_witness:
  "0 = (0::nat) \<and> (\<exists>v. map_of (me_kv (snd one_leader)) leader_key = Some (v, el_lease_id ([fst one_leader, EtcdLeaderElector ''b''] ! 0)))"
  by (rule at_most_one_leader [OF mem_etcd.etcd_service_axioms new_mem_etcd_wf one_leader_run])
    (simp_all add: one_leader_eval isLeader_def)



text \<open>
  Remark. The exception is real: with an error for an answer to the request for a lease, the tick of
  a registry ends in one (\<open>etcd_leader_election.cpp\<close> line 89), which leaves the timer callback.
\<close>

theorem refused_lease_ends_registry:
  "electionTick mem_etcd_env (EtcdLeaderElector ''a'') (new_mem_etcd\<lparr>me_next := 2 ^ 63\<rparr>)
     = ((EtcdLeaderElector ''a'', new_mem_etcd\<lparr>me_next := 2 ^ 63\<rparr>), False)"
  by (simp add: election_eval mem_parse_def stoll_empty [unfolded stoll_def])

end
