(* ===== verification/Etcd_Store.thy ===== *)
theory Etcd_Store
  imports Etcd_Memory
begin

text \<open>
  The registry store on etcd, \<open>server/etcd_registry_store.cpp\<close>: a provider is a key bound to a lease; the
  tables remember which connection wrote which key and under which lease. The mutex
  covers the tables but not the requests, so the sweep is given in its two parts.
\<close>

subsection \<open>Keys and values\<close>

definition providers_prefix :: string where
  "providers_prefix = ''/lcz-rpc/v1/providers/''"

definition key_for :: "string \<Rightarrow> host_info \<Rightarrow> string" where
  "key_for m h = providers_prefix @ m @ ''/'' @ fst h @ '':'' @ to_string (snd h)"

definition provider_value :: "host_info \<Rightarrow> int \<Rightarrow> string" where
  "provider_value h load =
     ''{'' @ field ''ip'' (quoted (fst h)) @ '','' @ field ''port'' (to_string (snd h)) @ '','' @ field ''load'' (to_string load) @ ''}''"

definition host_from_key :: "string \<Rightarrow> host_info option" where
  "host_from_key key =
     (case rfind (CHR ''/'') key of
        None \<Rightarrow> Some ([], 0)
      | Some pos \<Rightarrow>
          (let addr = drop (pos + 1) key in
           case rfind (CHR '':'') addr of
             None \<Rightarrow> Some ([], 0)
           | Some mid \<Rightarrow> map_option (\<lambda>p. (take mid addr, p)) (stoi (drop (mid + 1) addr))))"

text \<open>The method and host of a key, when both are found; an unsigned length below zero takes the rest.\<close>

definition offline_entry :: "string \<Rightarrow> host_info \<Rightarrow> (string \<times> host_info) list" where
  "offline_entry key h =
     (case (find_sub ''/providers/'' key, rfind (CHR ''/'') key) of
        (Some st, Some en) \<Rightarrow>
          if fst h = [] then []
          else [(if en < st + 11 then drop (st + 11) key else take (en - st - 11) (drop (st + 11) key), h)]
      | _ \<Rightarrow> [])"

definition load_from_value :: "('w, 'j) etcd_env \<Rightarrow> string \<Rightarrow> int option" where
  "load_from_value E v =
     (case j_parse (ee_json E) v of
        None \<Rightarrow> Some 0
      | Some j \<Rightarrow> do { l \<leftarrow> j_get (ee_json E) j ''load'' (j_int (ee_json E) 0); j_asInt (ee_json E) l })"

subsection \<open>The store\<close>

record etcd_store =
  es_keys_by_conn :: "(conn \<times> string list) list"
  es_keys_to_lease :: "(string \<times> int) list"
  es_keys_to_load :: "(string \<times> int) list"
  es_keys_to_conn :: "(string \<times> conn) list"
  es_known_keys :: "string list"
  es_start_time :: int

definition EtcdRegistryStore :: "int \<Rightarrow> etcd_store" where
  "EtcdRegistryStore now =
     \<lparr>es_keys_by_conn = [], es_keys_to_lease = [], es_keys_to_load = [], es_keys_to_conn = [], es_known_keys = [], es_start_time = now\<rparr>"

text \<open>The last component of a result is \<^const>\<open>None\<close> when an exception is thrown.\<close>

definition etcd_registerInstance ::
  "('w, 'j) etcd_env \<Rightarrow> etcd_store \<times> 'w \<Rightarrow> conn \<Rightarrow> host_info \<Rightarrow> string \<Rightarrow> int \<Rightarrow> (etcd_store \<times> 'w) \<times> unit option" where
  "etcd_registerInstance E sw c h m load =
     (let (s, w) = sw; (w1, lease) = http_lease_grant E w 15 in
      case lease of
        None \<Rightarrow> ((s, w1), None)
      | Some l \<Rightarrow>
          (let key = key_for m h; (w2, _) = http_put_with_lease E w1 key (provider_value h load) l in
           ((s\<lparr>es_keys_to_lease := AList.update key l (es_keys_to_lease s), es_keys_to_load := AList.update key load (es_keys_to_load s),
               es_keys_to_conn := AList.update key c (es_keys_to_conn s),
               es_keys_by_conn := AList.update c (ids_of (es_keys_by_conn s) c @ [key]) (es_keys_by_conn s),
               es_known_keys := List.insert key (es_known_keys s)\<rparr>, w2), Some ())))"

definition hosts_of_kvs :: "(string \<times> string) list \<Rightarrow> host_info list option" where
  "hosts_of_kvs kvs = map_option (filter (\<lambda>h. fst h \<noteq> [])) (those (map (\<lambda>kv. host_from_key (fst kv)) kvs))"

definition etcd_methodHost :: "('w, 'j) etcd_env \<Rightarrow> 'w \<Rightarrow> string \<Rightarrow> 'w \<times> host_info list option" where
  "etcd_methodHost E w m =
     (let (w', kvs) = http_get_prefix E w (providers_prefix @ m @ ''/'') in (w', do { xs \<leftarrow> kvs; hosts_of_kvs xs }))"

fun details_of_kvs :: "('w, 'j) etcd_env \<Rightarrow> (string \<times> string) list \<Rightarrow> host_detail list option" where
  "details_of_kvs E [] = Some []"
| "details_of_kvs E ((k, v) # kvs) = do {
     h \<leftarrow> host_from_key k;
     if fst h = [] then details_of_kvs E kvs
     else do { l \<leftarrow> load_from_value E v; ds \<leftarrow> details_of_kvs E kvs; Some (\<lparr>hd_host = h, hd_load = l\<rparr> # ds) } }"

definition etcd_methodHostDetails :: "('w, 'j) etcd_env \<Rightarrow> 'w \<Rightarrow> string \<Rightarrow> 'w \<times> host_detail list option" where
  "etcd_methodHostDetails E w m =
     (let (w', kvs) = http_get_prefix E w (providers_prefix @ m @ ''/'') in (w', do { xs \<leftarrow> kvs; details_of_kvs E xs }))"

definition lease_of :: "etcd_store \<Rightarrow> string \<Rightarrow> int" where
  "lease_of s key = (case map_of (es_keys_to_lease s) key of None \<Rightarrow> - 1 | Some l \<Rightarrow> l)"

definition etcd_reportLoad ::
  "('w, 'j) etcd_env \<Rightarrow> etcd_store \<times> 'w \<Rightarrow> string \<Rightarrow> host_info \<Rightarrow> int \<Rightarrow> (etcd_store \<times> 'w) \<times> bool" where
  "etcd_reportLoad E sw m h load =
     (let (s, w) = sw; key = key_for m h; l = lease_of s key in
      if l < 0 then ((s, w), False)
      else let (w1, ok) = http_put_with_lease E w key (provider_value h load) l in
        if ok then ((s\<lparr>es_keys_to_load := AList.update key load (es_keys_to_load s)\<rparr>, w1), True) else ((s, w1), False))"

definition etcd_heartbeat ::
  "('w, 'j) etcd_env \<Rightarrow> etcd_store \<times> 'w \<Rightarrow> string \<Rightarrow> host_info \<Rightarrow> (etcd_store \<times> 'w) \<times> bool option" where
  "etcd_heartbeat E sw m h =
     (let (s, w) = sw; key = key_for m h; l = lease_of s key in
      if l < 0 then ((s, w), Some False)
      else let (w1, alive) = http_lease_keepalive E w l in
        case alive of
          None \<Rightarrow> ((s, w1), None)
        | Some True \<Rightarrow> ((s, w1), Some True)
        | Some False \<Rightarrow>
            (let load = (case map_of (es_keys_to_load s) key of None \<Rightarrow> 0 | Some x \<Rightarrow> x); (w2, new) = http_lease_grant E w1 15 in
             case new of
               None \<Rightarrow> ((s, w2), None)
             | Some new_lease \<Rightarrow>
                 if new_lease < 0 then ((s, w2), Some False)
                 else let (w3, ok) = http_put_with_lease E w2 key (provider_value h load) new_lease in
                   if \<not> ok then ((s, w3), Some False)
                   else ((s\<lparr>es_keys_to_lease := AList.update key new_lease (es_keys_to_lease s),
                            es_known_keys := List.insert key (es_known_keys s)\<rparr>, w3), Some True)))"

definition forget_key :: "string \<Rightarrow> etcd_store \<Rightarrow> etcd_store" where
  "forget_key k s =
     s\<lparr>es_keys_to_lease := AList.delete k (es_keys_to_lease s), es_keys_to_load := AList.delete k (es_keys_to_load s),
       es_keys_to_conn := AList.delete k (es_keys_to_conn s), es_known_keys := removeAll k (es_known_keys s)\<rparr>"

definition etcd_cleanConnKeys :: "etcd_store \<Rightarrow> conn \<Rightarrow> etcd_store" where
  "etcd_cleanConnKeys s c =
     (case map_of (es_keys_by_conn s) c of
        None \<Rightarrow> s
      | Some keys \<Rightarrow> fold forget_key keys (s\<lparr>es_keys_by_conn := AList.delete c (es_keys_by_conn s)\<rparr>))"

fun delete_keys :: "('w, 'j) etcd_env \<Rightarrow> 'w \<Rightarrow> string list \<Rightarrow> 'w \<times> (string \<times> host_info) list option" where
  "delete_keys E w [] = (w, Some [])"
| "delete_keys E w (k # ks) =
     (case host_from_key k of
        None \<Rightarrow> (w, None)
      | Some h \<Rightarrow>
          (let (w1, _) = http_delete E w k; (w2, rest) = delete_keys E w1 ks in
           (w2, map_option (\<lambda>xs. offline_entry k h @ xs) rest)))"

definition etcd_disconnectProvider ::
  "('w, 'j) etcd_env \<Rightarrow> etcd_store \<times> 'w \<Rightarrow> conn \<Rightarrow> (etcd_store \<times> 'w) \<times> (string \<times> host_info) list option" where
  "etcd_disconnectProvider E sw c =
     (let (s, w) = sw in
      case map_of (es_keys_by_conn s) c of
        None \<Rightarrow> ((s, w), Some [])
      | Some keys \<Rightarrow> (let (w', out) = delete_keys E w keys in ((etcd_cleanConnKeys s c, w'), out)))"

text \<open>The two parts of a sweep: reading the keys, without the lock, and comparing with the last ones.\<close>

definition sweep_read :: "('w, 'j) etcd_env \<Rightarrow> etcd_store \<Rightarrow> 'w \<Rightarrow> int \<Rightarrow> int \<Rightarrow> 'w \<times> string list option option" where
  "sweep_read E s w idle now =
     (if now - es_start_time s < idle * 1000 then (w, Some None)
      else let (w', kvs) = http_get_prefix E w providers_prefix in (w', map_option (\<lambda>xs. Some (map fst xs)) kvs))"

fun expired_entries :: "string list \<Rightarrow> (string \<times> host_info) list option" where
  "expired_entries [] = Some []"
| "expired_entries (k # ks) = do { h \<leftarrow> host_from_key k; xs \<leftarrow> expired_entries ks; Some (offline_entry k h @ xs) }"

definition sweep_apply :: "etcd_store \<Rightarrow> string list \<Rightarrow> etcd_store \<times> (string \<times> host_info) list option" where
  "sweep_apply s current =
     (let gone = filter (\<lambda>k. k \<notin> set current) (es_known_keys s); s1 = fold forget_key gone s in
      (s1\<lparr>es_known_keys := fold List.insert current (es_known_keys s1)\<rparr>, expired_entries gone))"

definition etcd_sweepExpired ::
  "('w, 'j) etcd_env \<Rightarrow> etcd_store \<times> 'w \<Rightarrow> int \<Rightarrow> int \<Rightarrow> (etcd_store \<times> 'w) \<times> (string \<times> host_info) list option" where
  "etcd_sweepExpired E sw idle now =
     (let (s, w) = sw; (w', r) = sweep_read E s w idle now in
      case r of
        None \<Rightarrow> ((s, w'), None)
      | Some None \<Rightarrow> ((s, w'), Some [])
      | Some (Some current) \<Rightarrow> (let (s', out) = sweep_apply s current in ((s', w'), out)))"

end
