(* ===== verification/Etcd_Store_Correct.thy ===== *)
theory Etcd_Store_Correct
  imports Etcd_Store Registry_Correct
begin

text \<open>
  The store on etcd against a table of providers: while requests are answered and leases do not
  run out, registrations, load reports, heartbeats and disconnects act on the table of
  pairs of method and host, and the details of a method are its rows. The table also shows what a close of
  an old connection does to a provider that has registered again.
\<close>

subsection \<open>Keys are read back\<close>

lemma rfind_last: "c \<notin> set b \<Longrightarrow> rfind c (a @ c # b) = Some (length a)"
proof -
  assume b: "c \<notin> set b"
  have "takeWhile (\<lambda>d. d \<noteq> c) (rev b @ c # rev a) = rev b"
    using b by (subst takeWhile_append2) auto
  then show ?thesis by (simp add: rfind_def)
qed

lemma to_string_no_slash: "CHR ''/'' \<notin> set (to_string i)"
proof -
  have "\<not> is_digit (CHR ''/'')" by (simp add: is_digit_def)
  then have "CHR ''/'' \<notin> set (dec_nat n)" for n using dec_nat_digits [of n] by blast
  then show ?thesis by (simp add: to_string_def)
qed

text \<open>A host name of printable characters without quotes, backslashes and slashes, and a port.\<close>

definition plain_char :: "char \<Rightarrow> bool" where
  "plain_char c \<longleftrightarrow> 32 < (of_char c :: nat) \<and> (of_char c :: nat) < 127 \<and> c \<noteq> CHR 0x22 \<and> c \<noteq> CHR 0x5C \<and> c \<noteq> CHR ''/''"

definition good_host :: "host_info \<Rightarrow> bool" where
  "good_host h \<longleftrightarrow> fst h \<noteq> [] \<and> list_all plain_char (fst h) \<and> in_int32 (snd h)"

lemma key_split: "key_for m h = (providers_prefix @ m) @ CHR ''/'' # hostKey h"
  by (simp add: key_for_def hostKey_def)

lemma hostKey_no_slash: "good_host h \<Longrightarrow> CHR ''/'' \<notin> set (hostKey h)"
  by (auto simp: hostKey_def good_host_def to_string_no_slash list_all_iff plain_char_def)

lemma key_for_inj: "good_host h \<Longrightarrow> good_host h' \<Longrightarrow> key_for m h = key_for m' h' \<longleftrightarrow> m = m' \<and> h = h'"
proof
  assume g: "good_host h" "good_host h'" and "key_for m h = key_for m' h'"
  then have "providers_prefix @ m = providers_prefix @ m' \<and> hostKey h = hostKey h'"
    unfolding key_split by (intro append_sep_inj) (simp_all add: hostKey_no_slash)
  then show "m = m' \<and> h = h'" by (simp add: hostKey_eq_iff)
qed simp

lemma host_of_key: "good_host h \<Longrightarrow> host_from_key (key_for m h) = Some h"
proof -
  assume g: "good_host h"
  have "rfind (CHR '':'') (hostKey h) = Some (length (fst h))"
    using rfind_last [OF to_string_no_colon, of "fst h" "snd h"] by (simp add: hostKey_def)
  moreover have "stoi (to_string (snd h)) = Some (snd h)"
    using g sto_to_string [of 32 "snd h"] by (simp add: stoi_def good_host_def in_int32_def)
  ultimately show ?thesis
    unfolding host_from_key_def key_split rfind_last [OF hostKey_no_slash [OF g]] by (simp add: hostKey_def)
qed

lemma entry_of_key: "good_host h \<Longrightarrow> offline_entry (key_for m h) h = [(m, h)]"
proof -
  assume g: "good_host h"
  have "rfind (CHR ''/'') (key_for m h) = Some (length (providers_prefix @ m))"
    unfolding key_split by (rule rfind_last [OF hostKey_no_slash [OF g]])
  moreover have "find_sub ''/providers/'' (key_for m h) = Some 11"
    by (simp add: key_for_def providers_prefix_def numeral_nat)
  moreover have "length providers_prefix = 22" by (simp add: providers_prefix_def)
  ultimately show ?thesis using g by (simp add: offline_entry_def good_host_def key_for_def)
qed

lemma key_prefix: "take 22 (key_for m h) = providers_prefix"
proof -
  have "length providers_prefix = 22" by (simp add: providers_prefix_def)
  then show ?thesis by (simp add: key_for_def)
qed

lemma key_has_method:
  assumes "good_host h" "CHR ''/'' \<notin> set m" "CHR ''/'' \<notin> set m'"
  shows "take (length (providers_prefix @ m' @ ''/'')) (key_for m h) = providers_prefix @ m' @ ''/'' \<longleftrightarrow> m = m'"
proof
  assume a: "take (length (providers_prefix @ m' @ ''/'')) (key_for m h) = providers_prefix @ m' @ ''/''"
  then obtain r where "key_for m h = (providers_prefix @ m' @ ''/'') @ r" by (metis append_take_drop_id)
  then have "m @ CHR ''/'' # hostKey h = m' @ CHR ''/'' # r" by (simp add: key_split)
  then have "takeWhile (\<lambda>c. c \<noteq> CHR ''/'') (m @ CHR ''/'' # hostKey h) = takeWhile (\<lambda>c. c \<noteq> CHR ''/'') (m' @ CHR ''/'' # r)" by simp
  moreover have "takeWhile (\<lambda>c. c \<noteq> CHR ''/'') (x @ CHR ''/'' # y) = x" if "CHR ''/'' \<notin> set x" for x y
    using that by (subst takeWhile_append2) auto
  ultimately show "m = m'" using assms(2,3) by simp
qed (simp add: key_for_def)

subsection \<open>Calls that are answered\<close>

text \<open>\<open>ok w\<close> says that every request on the way to \<open>w\<close> was answered, and not with an error.\<close>

definition answering :: "('w, 'j) etcd_env \<Rightarrow> ('w \<Rightarrow> bool) \<Rightarrow> bool" where
  "answering E ok \<longleftrightarrow> (\<forall>w u b. ok (fst (ee_perform E w u b)) \<longrightarrow> ok w \<and> served E (snd (ee_perform E w u b)))"

lemma answered_post:
  assumes "answering E ok" "curl_post E w path body = (w', resp)" "ok w'"
  shows "ok w" "ee_perform E w (ee_endpoint E @ path) body = (w', Some resp)" "\<not> error_answer E resp"
proof -
  obtain r where p: "ee_perform E w (ee_endpoint E @ path) body = (w', r)" "resp = (case r of None \<Rightarrow> [] | Some x \<Rightarrow> x)"
    using assms(2) by (auto simp: curl_post_def case_prod_beta Let_def prod_eq_iff)
  then show "ok w" using assms(1,3) unfolding answering_def by (metis fst_conv)
  have "served E r" using assms(1,3) p(1) unfolding answering_def by (metis fst_conv snd_conv)
  then show "ee_perform E w (ee_endpoint E @ path) body = (w', Some resp)" "\<not> error_answer E resp" using p by (auto simp: served_def)
qed

lemma answered_before:
  assumes "answering E ok" "ok w'"
  shows "http_put_with_lease E w k v l = (w', b) \<Longrightarrow> ok w" "http_lease_grant E w ttl = (w', r) \<Longrightarrow> ok w"
proof -
  have c: "curl_post E w path body = (w', resp) \<Longrightarrow> ok w" for path body resp using answered_post(1) [OF assms(1) _ assms(2)] .
  show "http_put_with_lease E w k v l = (w', b) \<Longrightarrow> ok w" "http_lease_grant E w ttl = (w', r) \<Longrightarrow> ok w"
    using c by (auto simp: http_put_with_lease_def http_lease_grant_def case_prod_beta Let_def prod_eq_iff)
qed

context etcd_service
begin

lemma grant_answered:
  assumes "answering E ok" "http_lease_grant E w ttl = (w', r)" "ok w'"
  shows "ok w \<and> kv w' = kv w \<and> (\<exists>l. 0 \<le> l \<and> r = Some l \<and> leases w' = insert l (leases w))"
proof -
  obtain resp where p: "curl_post E w ''/v3/lease/grant'' (grant_body ttl) = (w', resp)"
    using assms(2) by (auto simp: http_lease_grant_def case_prod_beta Let_def prod_eq_iff)
  note a = answered_post [OF assms(1) p assms(3)]
  obtain l root where l: "0 \<le> l" "l < 2 ^ 63" "leases w' = insert l (leases w)" "kv w' = kv w" "resp \<noteq> []"
    "j_parse (ee_json E) resp = Some root" "j_find (ee_json E) root ''ID'' = Some (Some (j_str (ee_json E) (to_string l)))"
    using grant [OF a(2)] a(3) by (auto simp: served_def)
  have "stoll (to_string l) = Some l" unfolding stoll_def by (rule sto_to_string) (use l(1,2) in auto)
  moreover have "to_string l \<noteq> []" by (simp add: to_string_def dec_nat_nonempty)
  ultimately show ?thesis using assms(2) a(1) l text_field_str [OF l(7)] by (auto simp: http_lease_grant_def p)
qed

lemma put_answered:
  assumes "answering E ok" "http_put_with_lease E w k v l = (w', b)" "ok w'" "l \<in> leases w"
  shows "ok w \<and> b \<and> kv w' = (kv w)(k \<mapsto> (v, l)) \<and> leases w' = leases w"
proof -
  obtain resp where p: "curl_post E w ''/v3/kv/put'' (put_lease_body E k v l) = (w', resp)" "b = (resp \<noteq> [])"
    using assms(2) by (auto simp: http_put_with_lease_def case_prod_beta Let_def prod_eq_iff)
  note a = answered_post [OF assms(1) p(1) assms(3)]
  show ?thesis using put [OF a(2)] a(3) a(1) p(2) assms(4) by (auto simp: served_def)
qed

lemma delete_answered:
  assumes "answering E ok" "http_delete E w k = (w', b)" "ok w'"
  shows "ok w \<and> kv w' = (kv w)(k := None) \<and> leases w' = leases w"
proof -
  obtain resp where p: "curl_post E w ''/v3/kv/deleterange'' (delete_body E k) = (w', resp)"
    using assms(2) by (auto simp: http_delete_def case_prod_beta Let_def prod_eq_iff)
  note a = answered_post [OF assms(1) p assms(3)]
  show ?thesis using delete [OF a(2)] a(3) a(1) by (auto simp: served_def)
qed

text \<open>The field the store looks for is not where the answer has it, so no lease counts as renewed.\<close>

lemma keepalive_answered:
  assumes "answering E ok" "http_lease_keepalive E w l = (w', r)" "ok w'"
  shows "ok w \<and> r = Some False \<and> kv w' = kv w \<and> leases w' = leases w"
proof -
  obtain resp where p: "curl_post E w ''/v3/lease/keepalive'' (lease_body l) = (w', resp)"
    using assms(2) by (auto simp: http_lease_keepalive_def case_prod_beta Let_def prod_eq_iff)
  note a = answered_post [OF assms(1) p assms(3)]
  obtain root where "resp \<noteq> []" "j_parse (ee_json E) resp = Some root" "j_find (ee_json E) root ''TTL'' = Some None"
    "kv w' = kv w" "leases w' = leases w" using keepalive [OF a(2)] a(3) by (auto simp: served_def)
  then show ?thesis using assms(2) a(1) text_field_absent by (auto simp: http_lease_keepalive_def p)
qed

lemma prefix_answered:
  assumes "answering E ok" "http_get_prefix E w p = (w', r)" "ok w'" "\<exists>b \<in> set p. (of_char b :: nat) < 255"
  shows "ok w \<and> kv w' = kv w \<and> (\<exists>ents. r = Some ents \<and> set ents = {(k, v). take (length p) k = p \<and> (\<exists>l. kv w k = Some (v, l))})"
proof -
  obtain resp where g: "curl_post E w ''/v3/kv/range'' (range_body E p (range_end p)) = (w', resp)" "r = read_kvs E resp"
    using assms(2) by (auto simp: http_get_prefix_def case_prod_beta Let_def prod_eq_iff)
  note a = answered_post [OF assms(1) g(1) assms(3)]
  obtain root ents where "resp \<noteq> []" "j_parse (ee_json E) resp = Some root" "lists_entries E root ents"
    "set ents = {(k, v). in_range p (range_end p) k \<and> (\<exists>l. kv w k = Some (v, l))}" "kv w' = kv w" using range [OF a(2)] a(3) by (auto simp: served_def)
  then show ?thesis using a(1) g(2) entries_read by (auto simp: range_is_prefix [OF assms(4)])
qed

end

text \<open>The JSON library reads the load back from the values the store writes.\<close>

definition reads_loads :: "('w, 'j) etcd_env \<Rightarrow> bool" where
  "reads_loads E \<longleftrightarrow> (\<forall>h load. good_host h \<and> in_int32 load \<longrightarrow>
     (\<exists>j. j_parse (ee_json E) (provider_value h load) = Some j \<and> j_find (ee_json E) j ''load'' = Some (Some (j_int (ee_json E) load))))"

subsection \<open>The table of providers\<close>

datatype etcd_op = Register conn host_info string int | Report string host_info int | Beat string host_info | Disconnect conn

datatype etcd_answer = Registered | Answer bool | Offline "(string \<times> host_info) list" | Exception

definition etcd_step :: "('w, 'j) etcd_env \<Rightarrow> etcd_store \<times> 'w \<Rightarrow> etcd_op \<Rightarrow> (etcd_store \<times> 'w) \<times> etcd_answer" where
  "etcd_step E sw op' =
     (case op' of
        Register c h m load \<Rightarrow> (let (sw', r) = etcd_registerInstance E sw c h m load in (sw', case r of None \<Rightarrow> Exception | Some _ \<Rightarrow> Registered))
      | Report m h load \<Rightarrow> (let (sw', b) = etcd_reportLoad E sw m h load in (sw', Answer b))
      | Beat m h \<Rightarrow> (let (sw', r) = etcd_heartbeat E sw m h in (sw', case r of None \<Rightarrow> Exception | Some b \<Rightarrow> Answer b))
      | Disconnect c \<Rightarrow> (let (sw', r) = etcd_disconnectProvider E sw c in (sw', case r of None \<Rightarrow> Exception | Some xs \<Rightarrow> Offline xs)))"

fun etcd_run :: "('w, 'j) etcd_env \<Rightarrow> etcd_store \<times> 'w \<Rightarrow> etcd_op list \<Rightarrow> (etcd_store \<times> 'w) \<times> etcd_answer list" where
  "etcd_run E sw [] = (sw, [])"
| "etcd_run E sw (x # xs) = (let (sw1, a) = etcd_step E sw x; (sw2, as) = etcd_run E sw1 xs in (sw2, a # as))"

record provider_table =
  pt_rows :: "string \<times> host_info \<Rightarrow> int option"
  pt_conns :: "conn \<Rightarrow> (string \<times> host_info) list"

definition empty_table :: provider_table where
  "empty_table = \<lparr>pt_rows = (\<lambda>_. None), pt_conns = (\<lambda>_. [])\<rparr>"

text \<open>
  A disconnect removes every row the connection has written, also one that another connection has
  written since.
\<close>

fun table_step :: "provider_table \<Rightarrow> etcd_op \<Rightarrow> provider_table \<times> etcd_answer" where
  "table_step t (Register c h m load) =
     (t\<lparr>pt_rows := (pt_rows t)((m, h) \<mapsto> load), pt_conns := (pt_conns t)(c := pt_conns t c @ [(m, h)])\<rparr>, Registered)"
| "table_step t (Report m h load) =
     (if pt_rows t (m, h) = None then (t, Answer False) else (t\<lparr>pt_rows := (pt_rows t)((m, h) \<mapsto> load)\<rparr>, Answer True))"
| "table_step t (Beat m h) = (t, Answer (pt_rows t (m, h) \<noteq> None))"
| "table_step t (Disconnect c) =
     (t\<lparr>pt_rows := (\<lambda>x. if x \<in> set (pt_conns t c) then None else pt_rows t x), pt_conns := (pt_conns t)(c := [])\<rparr>, Offline (pt_conns t c))"

fun table_run :: "provider_table \<Rightarrow> etcd_op list \<Rightarrow> provider_table \<times> etcd_answer list" where
  "table_run t [] = (t, [])"
| "table_run t (x # xs) = (let (t1, a) = table_step t x; (t2, as) = table_run t1 xs in (t2, a # as))"

fun good_op :: "etcd_op \<Rightarrow> bool" where
  "good_op (Register c h m load) \<longleftrightarrow> good_host h \<and> CHR ''/'' \<notin> set m \<and> in_int32 load"
| "good_op (Report m h load) \<longleftrightarrow> good_host h \<and> CHR ''/'' \<notin> set m \<and> in_int32 load"
| "good_op (Beat m h) \<longleftrightarrow> good_host h \<and> CHR ''/'' \<notin> set m"
| "good_op (Disconnect c) \<longleftrightarrow> True"

definition row_ok :: "string \<times> host_info \<Rightarrow> bool" where
  "row_ok x \<longleftrightarrow> good_host (snd x) \<and> CHR ''/'' \<notin> set (fst x)"

definition row_key :: "string \<times> host_info \<Rightarrow> string" where
  "row_key x = key_for (fst x) (snd x)"

definition table_rep ::
  "('w \<Rightarrow> string \<Rightarrow> (string \<times> int) option) \<Rightarrow> ('w \<Rightarrow> int set) \<Rightarrow> etcd_store \<times> 'w \<Rightarrow> provider_table \<Rightarrow> bool" where
  "table_rep kv leases sw t \<longleftrightarrow> (case sw of (s, w) \<Rightarrow>
     (\<forall>x. pt_rows t x \<noteq> None \<longrightarrow> row_ok x) \<and> (\<forall>c. \<forall>x \<in> set (pt_conns t c). row_ok x)
     \<and> (\<forall>x load. pt_rows t x = Some load \<longrightarrow> in_int32 load)
     \<and> (\<forall>k. take 22 k = providers_prefix \<and> kv w k \<noteq> None \<longrightarrow> (\<exists>x. pt_rows t x \<noteq> None \<and> k = row_key x))
     \<and> (\<forall>x load. pt_rows t x = Some load \<longrightarrow> (\<exists>l. 0 \<le> l \<and> l \<in> leases w \<and> map_of (es_keys_to_lease s) (row_key x) = Some l)
          \<and> (\<exists>l. kv w (row_key x) = Some (provider_value (snd x) load, l)))
     \<and> (\<forall>x. row_ok x \<longrightarrow> map_of (es_keys_to_load s) (row_key x) = pt_rows t x)
     \<and> (\<forall>x. row_ok x \<and> pt_rows t x = None \<longrightarrow> map_of (es_keys_to_lease s) (row_key x) = None)
     \<and> (\<forall>c. ids_of (es_keys_by_conn s) c = map row_key (pt_conns t c)))"

lemma row_key_inj: "row_ok x \<Longrightarrow> row_ok y \<Longrightarrow> row_key x = row_key y \<longleftrightarrow> x = y"
  by (auto simp: row_ok_def row_key_def key_for_inj prod_eq_iff)

lemma table_repD:
  assumes "table_rep kv leases (s, w) t"
  shows "pt_rows t x \<noteq> None \<Longrightarrow> row_ok x" "x \<in> set (pt_conns t c) \<Longrightarrow> row_ok x" "pt_rows t x = Some load \<Longrightarrow> in_int32 load"
    "take 22 k = providers_prefix \<Longrightarrow> kv w k \<noteq> None \<Longrightarrow> \<exists>x. pt_rows t x \<noteq> None \<and> k = row_key x"
    "pt_rows t x = Some load \<Longrightarrow> \<exists>l. 0 \<le> l \<and> l \<in> leases w \<and> map_of (es_keys_to_lease s) (row_key x) = Some l"
    "pt_rows t x = Some load \<Longrightarrow> \<exists>l. kv w (row_key x) = Some (provider_value (snd x) load, l)"
    "row_ok x \<Longrightarrow> map_of (es_keys_to_load s) (row_key x) = pt_rows t x"
    "row_ok x \<Longrightarrow> pt_rows t x = None \<Longrightarrow> map_of (es_keys_to_lease s) (row_key x) = None"
    "ids_of (es_keys_by_conn s) c = map row_key (pt_conns t c)"
  using assms unfolding table_rep_def case_prod_conv by blast+

lemma table_repI:
  assumes "\<And>x. pt_rows t x \<noteq> None \<Longrightarrow> row_ok x" "\<And>c x. x \<in> set (pt_conns t c) \<Longrightarrow> row_ok x"
    and "\<And>x load. pt_rows t x = Some load \<Longrightarrow> in_int32 load"
    and "\<And>k. take 22 k = providers_prefix \<Longrightarrow> kv w k \<noteq> None \<Longrightarrow> \<exists>x. pt_rows t x \<noteq> None \<and> k = row_key x"
    and "\<And>x load. pt_rows t x = Some load \<Longrightarrow> \<exists>l. 0 \<le> l \<and> l \<in> leases w \<and> map_of (es_keys_to_lease s) (row_key x) = Some l"
    and "\<And>x load. pt_rows t x = Some load \<Longrightarrow> \<exists>l. kv w (row_key x) = Some (provider_value (snd x) load, l)"
    and "\<And>x. row_ok x \<Longrightarrow> map_of (es_keys_to_load s) (row_key x) = pt_rows t x"
    and "\<And>x. row_ok x \<Longrightarrow> pt_rows t x = None \<Longrightarrow> map_of (es_keys_to_lease s) (row_key x) = None"
    and "\<And>c. ids_of (es_keys_by_conn s) c = map row_key (pt_conns t c)"
  shows "table_rep kv leases (s, w) t"
  unfolding table_rep_def case_prod_conv by (intro conjI allI ballI impI) (use assms in blast)+

text \<open>Writing a row: its key is stored under a live lease that the tables record.\<close>

lemma rep_write:
  assumes rep: "table_rep kv leases (s, w) t" and x: "row_ok x" "in_int32 load"
    and kv': "kv w' = (kv w)(row_key x \<mapsto> (provider_value (snd x) load, l'))"
    and l: "0 \<le> l" "l \<in> leases w'" "leases w \<subseteq> leases w'"
    and s': "map_of (es_keys_to_lease s') = (map_of (es_keys_to_lease s))(row_key x \<mapsto> l)"
      "map_of (es_keys_to_load s') = (map_of (es_keys_to_load s))(row_key x \<mapsto> load)"
      "\<forall>c. ids_of (es_keys_by_conn s') c = map row_key (cs c)" and cs: "\<forall>c. set (cs c) \<subseteq> insert x (set (pt_conns t c))"
  shows "table_rep kv leases (s', w') \<lparr>pt_rows = (pt_rows t)(x \<mapsto> load), pt_conns = cs\<rparr>"
proof -
  note r = table_repD [OF rep]
  have ne: "row_key y \<noteq> row_key x" if "y \<noteq> x" "row_ok y" for y using row_key_inj [OF that(2) x(1)] that(1) by simp
  let ?t = "\<lparr>pt_rows = (pt_rows t)(x \<mapsto> load), pt_conns = cs\<rparr>"
  show ?thesis
  proof (rule table_repI)
    fix k assume k: "take 22 k = providers_prefix" "kv w' k \<noteq> None"
    show "\<exists>y. pt_rows ?t y \<noteq> None \<and> k = row_key y"
    proof (cases "k = row_key x")
      case False
      then obtain y where y: "pt_rows t y \<noteq> None" "k = row_key y" using r(4) [OF k(1)] k(2) by (auto simp: kv')
      then show ?thesis using False by (intro exI [of _ y]) auto
    next
      case True
      then show ?thesis by (intro exI [of _ x]) simp
    qed
  next
    fix y ld assume y: "pt_rows ?t y = Some ld"
    show "in_int32 ld" using y x(2) r(3) [of y ld] by (auto split: if_splits)
    show "\<exists>l. 0 \<le> l \<and> l \<in> leases w' \<and> map_of (es_keys_to_lease s') (row_key y) = Some l"
      using y r(5) [of y ld] r(1) [of y] ne [of y] l by (cases "y = x") (auto simp: s')
    show "\<exists>l. kv w' (row_key y) = Some (provider_value (snd y) ld, l)"
      using y r(6) [of y ld] r(1) [of y] ne [of y] by (cases "y = x") (auto simp: kv')
  next
    fix y assume y: "row_ok y"
    show "map_of (es_keys_to_load s') (row_key y) = pt_rows ?t y" using r(7) [OF y] ne [OF _ y] by (cases "y = x") (simp_all add: s')
    show "pt_rows ?t y = None \<Longrightarrow> map_of (es_keys_to_lease s') (row_key y) = None"
      using r(8) [OF y] ne [OF _ y] by (cases "y = x") (simp_all add: s')
  next
    fix y c assume "y \<in> set (pt_conns ?t c)"
    then show "row_ok y" using cs x(1) r(2) [of y c] by auto
  next
    fix y assume "pt_rows ?t y \<noteq> None"
    then show "row_ok y" using x(1) r(1) [of y] by (cases "y = x") simp_all
  qed (simp add: s')
qed

lemma table_fields:
  "t\<lparr>pt_rows := r\<rparr> = \<lparr>pt_rows = r, pt_conns = pt_conns t\<rparr>" "t\<lparr>pt_rows := r, pt_conns := cs\<rparr> = \<lparr>pt_rows = r, pt_conns = cs\<rparr>"
  "\<lparr>pt_rows = pt_rows t, pt_conns = pt_conns t\<rparr> = t" for t :: provider_table
  by simp_all

lemma post_before: "answering E ok \<Longrightarrow> ok (fst (curl_post E w path body)) \<Longrightarrow> ok w"
  using answered_post(1) [of E ok w path body "fst (curl_post E w path body)" "snd (curl_post E w path body)"] by simp

lemma http_worlds:
  "fst (http_put_with_lease E w k v l) = fst (curl_post E w ''/v3/kv/put'' (put_lease_body E k v l))"
  "fst (http_lease_grant E w ttl) = fst (curl_post E w ''/v3/lease/grant'' (grant_body ttl))"
  "fst (http_lease_keepalive E w l) = fst (curl_post E w ''/v3/lease/keepalive'' (lease_body l))"
  "fst (http_delete E w k) = fst (curl_post E w ''/v3/kv/deleterange'' (delete_body E k))"
  by (simp_all add: http_put_with_lease_def http_lease_grant_def http_lease_keepalive_def http_delete_def case_prod_beta Let_def)

lemma delete_before: "answering E ok \<Longrightarrow> ok (fst (delete_keys E w ks)) \<Longrightarrow> ok w"
  by (induction ks arbitrary: w) (auto simp: case_prod_beta Let_def http_worlds dest: post_before split: option.splits)

lemma step_before:
  assumes "answering E ok" "ok (snd (fst (etcd_step E (s, w) x)))"
  shows "ok w"
proof (cases x)
  case (Register c h m load)
  then show ?thesis
    using assms(2) by (auto simp: etcd_step_def etcd_registerInstance_def case_prod_beta Let_def http_worlds dest!: post_before [OF assms(1)] split: option.splits)
next
  case (Report m h load)
  then show ?thesis using assms(2) by (auto simp: etcd_step_def etcd_reportLoad_def case_prod_beta Let_def http_worlds dest!: post_before [OF assms(1)] split: if_splits)
next
  case (Beat m h)
  then show ?thesis
    using assms(2)
    by (auto simp: etcd_step_def etcd_heartbeat_def case_prod_beta Let_def http_worlds dest!: post_before [OF assms(1)] split: if_splits option.splits bool.splits)
next
  case (Disconnect c)
  then show ?thesis
    using assms(2) by (auto simp: etcd_step_def etcd_disconnectProvider_def case_prod_beta Let_def dest: delete_before [OF assms(1)] split: option.splits)
qed

lemma run_before: "answering E ok \<Longrightarrow> ok (snd (fst (etcd_run E (s, w) xs))) \<Longrightarrow> ok w"
proof (induction xs arbitrary: s w)
  case (Cons x xs)
  obtain s1 w1 a where st: "etcd_step E (s, w) x = ((s1, w1), a)" by (metis surj_pair)
  then have "ok w1" using Cons by (simp add: case_prod_beta Let_def)
  then show ?case using step_before [OF Cons.prems(1), of s w x] st by simp
qed simp

lemma fold_forget:
  "map_of (es_keys_to_lease (fold forget_key ks s)) k = (if k \<in> set ks then None else map_of (es_keys_to_lease s) k)"
  "map_of (es_keys_to_load (fold forget_key ks s)) k = (if k \<in> set ks then None else map_of (es_keys_to_load s) k)"
  "es_keys_by_conn (fold forget_key ks s) = es_keys_by_conn s"
  by (induction ks arbitrary: s) (auto simp: forget_key_def delete_conv')

context etcd_service
begin

lemma register_rep:
  assumes a: "answering E ok" and rep: "table_rep kv leases (s, w) t" and x: "row_ok (m, h)" "in_int32 load"
    and st: "etcd_registerInstance E (s, w) c h m load = ((s', w'), r)" and "ok w'"
  shows "ok w \<and> r = Some () \<and> table_rep kv leases (s', w') (fst (table_step t (Register c h m load)))"
proof -
  obtain w1 lr where g: "http_lease_grant E w 15 = (w1, lr)" by fastforce
  define w2 where "w2 = (\<lambda>l. fst (http_put_with_lease E w1 (key_for m h) (provider_value h load) l))"
  define b where "b = (\<lambda>l. snd (http_put_with_lease E w1 (key_for m h) (provider_value h load) l))"
  have p: "http_put_with_lease E w1 (key_for m h) (provider_value h load) l = (w2 l, b l)" for l by (simp add: w2_def b_def)
  have "ok w1"
  proof (cases lr)
    case None
    then show ?thesis using st \<open>ok w'\<close> by (simp add: etcd_registerInstance_def g)
  next
    case (Some l)
    then have "w' = w2 l" using st by (simp add: etcd_registerInstance_def g p Let_def)
    then show ?thesis using answered_before(1) [OF a _ p [of l]] \<open>ok w'\<close> by simp
  qed
  from grant_answered [OF a g this] obtain l where l: "ok w" "kv w1 = kv w" "0 \<le> l" "lr = Some l" "leases w1 = insert l (leases w)" by blast
  have w': "w' = w2 l" using st l(4) by (simp add: etcd_registerInstance_def g p Let_def)
  note pa = put_answered [OF a p [of l]]
  have "kv w' = (kv w)(row_key (m, h) \<mapsto> (provider_value h load, l))" "leases w' = insert l (leases w)"
    using pa \<open>ok w'\<close> l by (simp_all add: w' row_key_def)
  then have "table_rep kv leases (s', w') \<lparr>pt_rows = (pt_rows t)((m, h) \<mapsto> load), pt_conns = (pt_conns t)(c := pt_conns t c @ [(m, h)])\<rparr>"
    using st l table_repD(9) [OF rep]
    by (intro rep_write [OF rep x, where l = l])
      (auto simp: etcd_registerInstance_def g p Let_def row_key_def update_conv')
  then show ?thesis using st l(1,4) by (auto simp: etcd_registerInstance_def g p Let_def table_fields)
qed

lemma known_lease:
  assumes "table_rep kv leases (s, w) t" "row_ok (m, h)"
  shows "pt_rows t (m, h) = None \<Longrightarrow> lease_of s (key_for m h) < 0"
    and "pt_rows t (m, h) = Some load \<Longrightarrow> 0 \<le> lease_of s (key_for m h) \<and> lease_of s (key_for m h) \<in> leases w
      \<and> map_of (es_keys_to_lease s) (key_for m h) = Some (lease_of s (key_for m h))"
  using table_repD(8) [OF assms] table_repD(5) [OF assms(1), of "(m, h)" load] by (auto simp: lease_of_def row_key_def)

lemma report_rep:
  assumes a: "answering E ok" and rep: "table_rep kv leases (s, w) t" and x: "row_ok (m, h)" "in_int32 load"
    and st: "etcd_reportLoad E (s, w) m h load = ((s', w'), b)" and "ok w'"
  shows "ok w \<and> Answer b = snd (table_step t (Report m h load)) \<and> table_rep kv leases (s', w') (fst (table_step t (Report m h load)))"
proof (cases "pt_rows t (m, h)")
  case None
  then have "s' = s" "w' = w" "\<not> b" using st known_lease(1) [OF rep x(1) None] by (auto simp: etcd_reportLoad_def)
  then show ?thesis using None rep \<open>ok w'\<close> by simp
next
  case (Some ld)
  note l = known_lease(2) [OF rep x(1) Some]
  obtain w1 b1 where p: "http_put_with_lease E w (key_for m h) (provider_value h load) (lease_of s (key_for m h)) = (w1, b1)" by fastforce
  have w1: "w' = w1" using st l by (auto simp: etcd_reportLoad_def p split: if_splits)
  note pa = put_answered [OF a p]
  have s': "s' = s\<lparr>es_keys_to_load := AList.update (key_for m h) load (es_keys_to_load s)\<rparr>" "b"
    using st l pa w1 \<open>ok w'\<close> by (auto simp: etcd_reportLoad_def p split: if_splits)
  have "table_rep kv leases (s', w') \<lparr>pt_rows = (pt_rows t)((m, h) \<mapsto> load), pt_conns = pt_conns t\<rparr>"
    using l pa w1 \<open>ok w'\<close> table_repD(9) [OF rep]
    by (intro rep_write [OF rep x, where l = "lease_of s (key_for m h)"]) (auto simp: s' row_key_def update_conv')
  then show ?thesis using Some s' pa w1 l \<open>ok w'\<close> by (simp add: table_fields)
qed

lemma beat_rep:
  assumes a: "answering E ok" and rep: "table_rep kv leases (s, w) t" and x: "row_ok (m, h)"
    and st: "etcd_heartbeat E (s, w) m h = ((s', w'), r)" and "ok w'"
  shows "ok w \<and> r = Some (pt_rows t (m, h) \<noteq> None) \<and> table_rep kv leases (s', w') t"
proof (cases "pt_rows t (m, h)")
  case None
  then have "s' = s" "w' = w" "r = Some False" using st known_lease(1) [OF rep x None] by (auto simp: etcd_heartbeat_def)
  then show ?thesis using None rep \<open>ok w'\<close> by simp
next
  case (Some ld)
  note l = known_lease(2) [OF rep x Some]
  have ld: "in_int32 ld" "map_of (es_keys_to_load s) (key_for m h) = Some ld"
    using table_repD(3) [OF rep Some] table_repD(7) [OF rep x] Some by (auto simp: row_key_def)
  obtain w1 al where k: "http_lease_keepalive E w (lease_of s (key_for m h)) = (w1, al)" by fastforce
  obtain w2 nl where g: "http_lease_grant E w1 15 = (w2, nl)" by fastforce
  define w3 where "w3 = (\<lambda>l. fst (http_put_with_lease E w2 (key_for m h) (provider_value h ld) l))"
  define b where "b = (\<lambda>l. snd (http_put_with_lease E w2 (key_for m h) (provider_value h ld) l))"
  have p: "http_put_with_lease E w2 (key_for m h) (provider_value h ld) l = (w3 l, b l)" for l by (simp add: w3_def b_def)
  have before: "ok w2 \<Longrightarrow> ok w1" "ok (w3 l) \<Longrightarrow> ok w2" for l
    using answered_before(2) [OF a _ g] answered_before(1) [OF a _ p [of l]] by blast+
  note eval = etcd_heartbeat_def k g p ld(2) Let_def
  have "ok w1" using st l \<open>ok w'\<close> before by (auto simp: eval split: option.splits bool.splits if_splits)
  note ka = keepalive_answered [OF a k this]
  have "ok w2" using st l ka \<open>ok w'\<close> before by (auto simp: eval split: option.splits if_splits)
  from grant_answered [OF a g this] obtain nl' where n: "0 \<le> nl'" "nl = Some nl'" "kv w2 = kv w1" "leases w2 = insert nl' (leases w1)" by blast
  have w': "w' = w3 nl'" using st l ka n by (auto simp: eval split: if_splits)
  note pa = put_answered [OF a p [of nl']]
  have s': "s' = s\<lparr>es_keys_to_lease := AList.update (key_for m h) nl' (es_keys_to_lease s), es_known_keys := List.insert (key_for m h) (es_known_keys s)\<rparr>"
    "r = Some True"
    using st l ka n pa w' \<open>ok w'\<close> by (auto simp: eval split: if_splits)
  have "table_rep kv leases (s', w') \<lparr>pt_rows = (pt_rows t)((m, h) \<mapsto> ld), pt_conns = pt_conns t\<rparr>"
    using n ka pa w' \<open>ok w'\<close> ld(2) table_repD(9) [OF rep]
    by (intro rep_write [OF rep x ld(1), where l = nl']) (auto simp: s' row_key_def update_conv' fun_upd_idem)
  moreover have "\<lparr>pt_rows = (pt_rows t)((m, h) \<mapsto> ld), pt_conns = pt_conns t\<rparr> = t" using Some by (simp add: fun_upd_idem table_fields)
  ultimately show ?thesis using Some s' ka by simp
qed

lemma delete_keys_rep:
  assumes "answering E ok" "delete_keys E w (map row_key xs) = (w', r)" "ok w'" "\<forall>x \<in> set xs. row_ok x"
  shows "ok w \<and> r = Some xs \<and> leases w' = leases w \<and> kv w' = (\<lambda>k. if k \<in> row_key ` set xs then None else kv w k)"
  using assms
proof (induction xs arbitrary: w r)
  case (Cons x xs)
  have x: "host_from_key (row_key x) = Some (snd x)" "offline_entry (row_key x) (snd x) = [x]"
    using Cons.prems(4) by (simp_all add: row_key_def row_ok_def host_of_key entry_of_key)
  obtain w1 b where d: "http_delete E w (row_key x) = (w1, b)" by fastforce
  obtain r2 where r2: "delete_keys E w1 (map row_key xs) = (w', r2)" "r = map_option ((@) [x]) r2"
    using Cons.prems(2) by (auto simp: x d split: prod.splits)
  note IH = Cons.IH [OF Cons.prems(1) r2(1) Cons.prems(3)] and da = delete_answered [OF Cons.prems(1) d]
  show ?case using IH da r2(2) Cons.prems(4) by (auto simp: fun_eq_iff)
qed simp

lemma disconnect_rep:
  assumes a: "answering E ok" and rep: "table_rep kv leases (s, w) t"
    and st: "etcd_disconnectProvider E (s, w) c = ((s', w'), r)" and "ok w'"
  shows "ok w \<and> r = Some (pt_conns t c) \<and> table_rep kv leases (s', w') (fst (table_step t (Disconnect c)))"
proof (cases "map_of (es_keys_by_conn s) c")
  case None
  then have n: "pt_conns t c = []" using table_repD(9) [OF rep, of c] by (simp add: ids_of_def)
  then have "fst (table_step t (Disconnect c)) = t" by (simp add: fun_upd_idem table_fields)
  moreover have "s' = s" "w' = w" "r = Some []" using st None by (auto simp: etcd_disconnectProvider_def)
  ultimately show ?thesis using rep n \<open>ok w'\<close> by simp
next
  case (Some ks)
  note rd = table_repD [OF rep]
  let ?xs = "pt_conns t c"
  have ks: "ks = map row_key ?xs" using rd(9) [of c] Some by (simp add: ids_of_def)
  obtain out where d: "delete_keys E w ks = (w', out)" "r = out" "s' = etcd_cleanConnKeys s c"
    using st Some by (auto simp: etcd_disconnectProvider_def split: prod.splits)
  have xs: "\<forall>x \<in> set ?xs. row_ok x" using rd(2) by blast
  note dr = delete_keys_rep [OF a d(1) [unfolded ks] \<open>ok w'\<close> xs]
  have key: "row_key y \<in> row_key ` set ?xs \<longleftrightarrow> y \<in> set ?xs" if "row_ok y" for y
    using row_key_inj [OF that] xs by (auto simp: image_iff)
  have s': "map_of (es_keys_to_lease s') (row_key y) = (if y \<in> set ?xs then None else map_of (es_keys_to_lease s) (row_key y))"
    "map_of (es_keys_to_load s') (row_key y) = (if y \<in> set ?xs then None else map_of (es_keys_to_load s) (row_key y))" if "row_ok y" for y
    using key [OF that] by (simp_all add: d(3) etcd_cleanConnKeys_def Some ks fold_forget)
  have conns: "ids_of (es_keys_by_conn s') c' = map row_key (((pt_conns t)(c := [])) c')" for c'
    using rd(9) [of c'] by (simp add: d(3) etcd_cleanConnKeys_def Some fold_forget ids_of_def delete_conv')
  let ?t = "\<lparr>pt_rows = (\<lambda>x. if x \<in> set ?xs then None else pt_rows t x), pt_conns = (pt_conns t)(c := [])\<rparr>"
  have "table_rep kv leases (s', w') ?t"
  proof (rule table_repI)
    fix k assume k: "take 22 k = providers_prefix" "kv w' k \<noteq> None"
    then obtain y where y: "pt_rows t y \<noteq> None" "k = row_key y" "k \<notin> row_key ` set ?xs" using dr rd(4) [OF k(1)] by (auto split: if_splits)
    then show "\<exists>y. pt_rows ?t y \<noteq> None \<and> k = row_key y" by (intro exI [of _ y]) auto
  next
    fix y ld assume "pt_rows ?t y = Some ld"
    then have y: "pt_rows t y = Some ld" "y \<notin> set ?xs" by (auto split: if_splits)
    then have ok: "row_ok y" using rd(1) by simp
    show "in_int32 ld" by (rule rd(3) [OF y(1)])
    show "\<exists>l. 0 \<le> l \<and> l \<in> leases w' \<and> map_of (es_keys_to_lease s') (row_key y) = Some l" using rd(5) [OF y(1)] y(2) s'(1) [OF ok] dr by auto
    show "\<exists>l. kv w' (row_key y) = Some (provider_value (snd y) ld, l)" using rd(6) [OF y(1)] y(2) key [OF ok] dr by auto
  next
    fix y assume y: "row_ok y"
    show "map_of (es_keys_to_load s') (row_key y) = pt_rows ?t y" using rd(7) [OF y] s'(2) [OF y] by simp
    show "pt_rows ?t y = None \<Longrightarrow> map_of (es_keys_to_lease s') (row_key y) = None" using rd(8) [OF y] s'(1) [OF y] by (auto split: if_splits)
  next
    fix y c' assume "y \<in> set (pt_conns ?t c')"
    then show "row_ok y" using rd(2) by (auto split: if_splits)
  next
    fix y assume "pt_rows ?t y \<noteq> None"
    then show "row_ok y" using rd(1) by (auto split: if_splits)
  qed (simp add: conns)
  then show ?thesis using dr d(2) by (simp add: table_fields)
qed

lemma step_rep:
  assumes "answering E ok" "table_rep kv leases (s, w) t" "good_op x" "etcd_step E (s, w) x = ((s', w'), a)" "ok w'"
  shows "ok w \<and> a = snd (table_step t x) \<and> table_rep kv leases (s', w') (fst (table_step t x))"
proof (cases x)
  case (Register c h m load)
  then show ?thesis using register_rep [OF assms(1,2), of m h load c] assms(3-5) by (auto simp: etcd_step_def row_ok_def split: prod.splits)
next
  case (Report m h load)
  then show ?thesis
    using report_rep [OF assms(1,2), of m h load] assms(3-5) by (auto simp: etcd_step_def row_ok_def simp del: table_step.simps split: prod.splits)
next
  case (Beat m h)
  then show ?thesis using beat_rep [OF assms(1,2), of m h] assms(3-5) by (auto simp: etcd_step_def row_ok_def split: prod.splits)
next
  case (Disconnect c)
  then show ?thesis using disconnect_rep [OF assms(1,2), of c] assms(4,5) by (auto simp: etcd_step_def split: prod.splits)
qed

lemma run_rep:
  assumes "answering E ok" "table_rep kv leases (s, w) t" "list_all good_op xs" "etcd_run E (s, w) xs = ((s', w'), as)" "ok w'"
  shows "ok w \<and> as = snd (table_run t xs) \<and> table_rep kv leases (s', w') (fst (table_run t xs))"
  using assms
proof (induction xs arbitrary: s w t as)
  case (Cons x xs)
  obtain s1 w1 a where st: "etcd_step E (s, w) x = ((s1, w1), a)" by (metis surj_pair)
  obtain as' where r: "etcd_run E (s1, w1) xs = ((s', w'), as')" "as = a # as'"
    using Cons.prems(4) by (auto simp: st split: prod.splits)
  have g: "good_op x" "list_all good_op xs" using Cons.prems(3) by simp_all
  have "ok w1" using run_before [OF Cons.prems(1), of s1 w1 xs] r(1) Cons.prems(5) by simp
  note sr = step_rep [OF Cons.prems(1,2) g(1) st this]
  note IH = Cons.IH [OF Cons.prems(1) conjunct2 [OF conjunct2 [OF sr]] g(2) r(1) Cons.prems(5)]
  then show ?case using sr r(2) by (simp add: case_prod_beta Let_def)
qed simp

lemma load_read:
  assumes "reads_loads E" "good_host h" "in_int32 load"
  shows "load_from_value E (provider_value h load) = Some load"
proof -
  obtain j where "j_parse (ee_json E) (provider_value h load) = Some j" "j_find (ee_json E) j ''load'' = Some (Some (j_int (ee_json E) load))"
    using assms unfolding reads_loads_def by blast
  then show ?thesis by (simp add: load_from_value_def j_get_def json_api.asInt [OF json assms(3)])
qed

definition kv_detail :: "string \<times> string \<Rightarrow> host_detail" where
  "kv_detail e = \<lparr>hd_host = the (host_from_key (fst e)), hd_load = the (load_from_value E (snd e))\<rparr>"

lemma details_rep:
  assumes "\<forall>e \<in> set ents. (\<exists>h. host_from_key (fst e) = Some h \<and> fst h \<noteq> []) \<and> load_from_value E (snd e) \<noteq> None"
  shows "details_of_kvs E ents = Some (map kv_detail ents)"
  using assms by (induction ents) (auto simp: kv_detail_def)

lemma prefix_rows:
  assumes rep: "table_rep kv leases (s, w) t" and m: "CHR ''/'' \<notin> set m"
  shows "take (length (providers_prefix @ m @ ''/'')) k = providers_prefix @ m @ ''/'' \<and> (\<exists>l. kv w k = Some (v, l))
    \<longleftrightarrow> (\<exists>x load. k = row_key x \<and> fst x = m \<and> pt_rows t x = Some load \<and> v = provider_value (snd x) load)"
    (is "?L \<longleftrightarrow> ?R")
proof
  note rd = table_repD [OF rep]
  let ?p = "providers_prefix @ m @ ''/''"
  assume ?L
  then obtain l where l: "take (length ?p) k = ?p" "kv w k = Some (v, l)" by blast
  have "take 22 k = take 22 (take (length ?p) k)" by (simp add: providers_prefix_def min_def)
  also have "\<dots> = providers_prefix" unfolding l(1) by (simp add: providers_prefix_def)
  finally obtain x load where x: "pt_rows t x = Some load" "k = row_key x" using rd(4) [of k] l(2) by fastforce
  have ok: "row_ok x" using rd(1) [of x] x by simp
  have "fst x = m" using key_has_method [of "snd x" "fst x" m] ok m l(1) by (simp add: x(2) row_key_def row_ok_def)
  then show ?R using rd(6) [OF x(1)] l(2) x by (intro exI [of _ x] exI [of _ load]) auto
next
  note rd = table_repD [OF rep]
  assume ?R
  then obtain x load where x: "k = row_key x" "fst x = m" "pt_rows t x = Some load" "v = provider_value (snd x) load" by blast
  have "row_ok x" using rd(1) [of x] x by simp
  then show ?L using key_has_method [of "snd x" "fst x" m] m x rd(6) [OF x(3)] by (simp add: row_key_def row_ok_def)
qed

lemma listing_rep:
  assumes a: "answering E ok" and rep: "table_rep kv leases (s, w) t" and m: "CHR ''/'' \<notin> set m"
    and reads: "reads_loads E"
    and st: "etcd_methodHostDetails E w m = (w', r)" and "ok w'"
  shows "\<exists>ds. r = Some ds \<and> set ds = {\<lparr>hd_host = h, hd_load = load\<rparr> | h load. pt_rows t (m, h) = Some load}"
proof -
  note rd = table_repD [OF rep]
  let ?p = "providers_prefix @ m @ ''/''"
  obtain kvs where g: "http_get_prefix E w ?p = (w', kvs)" "r = kvs \<bind> details_of_kvs E"
    using st by (auto simp: etcd_methodHostDetails_def split: prod.splits)
  have "\<exists>b \<in> set ?p. (of_char b :: nat) < 255" by (auto intro!: bexI [of _ "CHR ''/''"])
  from prefix_answered [OF a g(1) \<open>ok w'\<close> this] obtain ents where e: "kvs = Some ents"
    "set ents = {(k, v). take (length ?p) k = ?p \<and> (\<exists>l. kv w k = Some (v, l))}" by blast
  have ents: "(k, v) \<in> set ents \<longleftrightarrow> (\<exists>x load. k = row_key x \<and> fst x = m \<and> pt_rows t x = Some load \<and> v = provider_value (snd x) load)" for k v
    unfolding e(2) using prefix_rows [OF rep m, of k v] by simp
  have good: "host_from_key (row_key x) = Some (snd x)" "fst (snd x) \<noteq> []" "load_from_value E (provider_value (snd x) load) = Some load"
    if "pt_rows t x = Some load" for x load
    using rd(1) [of x] rd(3) [OF that] load_read [OF reads, of "snd x" load] that by (auto simp: row_ok_def row_key_def host_of_key good_host_def)
  have "details_of_kvs E ents = Some (map kv_detail ents)"
  proof (rule details_rep, rule ballI)
    fix e assume "e \<in> set ents"
    then obtain x load where "fst e = row_key x" "pt_rows t x = Some load" "snd e = provider_value (snd x) load"
      using ents [of "fst e" "snd e"] by auto
    then show "(\<exists>h. host_from_key (fst e) = Some h \<and> fst h \<noteq> []) \<and> load_from_value E (snd e) \<noteq> None" using good by auto
  qed
  moreover have "set (map kv_detail ents) = {\<lparr>hd_host = h, hd_load = load\<rparr> | h load. pt_rows t (m, h) = Some load}"
  proof
    show "set (map kv_detail ents) \<subseteq> {\<lparr>hd_host = h, hd_load = load\<rparr> | h load. pt_rows t (m, h) = Some load}"
    proof
      fix d assume "d \<in> set (map kv_detail ents)"
      then obtain k v where "(k, v) \<in> set ents" "d = kv_detail (k, v)" by auto
      then obtain x load where x: "k = row_key x" "fst x = m" "pt_rows t x = Some load" "v = provider_value (snd x) load" "d = kv_detail (k, v)"
        using ents by blast
      then have "d = \<lparr>hd_host = snd x, hd_load = load\<rparr>" "pt_rows t (m, snd x) = Some load" using good [OF x(3)] by (auto simp: kv_detail_def)
      then show "d \<in> {\<lparr>hd_host = h, hd_load = load\<rparr> | h load. pt_rows t (m, h) = Some load}" by blast
    qed
    show "{\<lparr>hd_host = h, hd_load = load\<rparr> | h load. pt_rows t (m, h) = Some load} \<subseteq> set (map kv_detail ents)"
    proof
      fix d assume "d \<in> {\<lparr>hd_host = h, hd_load = load\<rparr> | h load. pt_rows t (m, h) = Some load}"
      then obtain h load where h: "d = \<lparr>hd_host = h, hd_load = load\<rparr>" "pt_rows t (m, h) = Some load" by blast
      then have "(row_key (m, h), provider_value h load) \<in> set ents" unfolding ents by (intro exI [of _ "(m, h)"] exI [of _ load]) simp
      moreover have "kv_detail (row_key (m, h), provider_value h load) = d" using good [OF h(2)] by (simp add: kv_detail_def h(1))
      ultimately show "d \<in> set (map kv_detail ents)" by force
    qed
  qed
  ultimately show ?thesis using g(2) e(1) by simp
qed

lemma empty_rep:
  assumes "\<forall>k. take 22 k = providers_prefix \<longrightarrow> kv w k = None"
  shows "table_rep kv leases (EtcdRegistryStore t0, w) empty_table"
  by (rule table_repI) (use assms in \<open>auto simp: EtcdRegistryStore_def empty_table_def ids_of_def\<close>)

end

subsection \<open>Properties\<close>

text \<open>
  Property C10. The store on etcd is a table of providers: over every sequence of registrations, load
  reports, heartbeats and disconnects, starting without keys under the prefix, for methods without a
  slash and plain host names, as long as requests are answered without an error and no lease runs out,
  each operation answers as the table does, and discovering a method afterwards gives exactly its
  rows with their loads.
\<close>

theorem etcd_store_refines:
  assumes "etcd_service E kv leases used" "answering E ok" "reads_loads E" "\<forall>k. take 22 k = providers_prefix \<longrightarrow> kv w k = None"
    and "list_all good_op xs" "etcd_run E (EtcdRegistryStore t0, w) xs = ((s, w1), as)"
    and "CHR ''/'' \<notin> set m" "etcd_methodHostDetails E w1 m = (w2, r)" "ok w2"
  shows "as = snd (table_run empty_table xs)
    \<and> (\<exists>ds. r = Some ds \<and> set ds = {\<lparr>hd_host = h, hd_load = load\<rparr> | h load. pt_rows (fst (table_run empty_table xs)) (m, h) = Some load})"
proof -
  have "ok w1"
    using assms(8,9) post_before [OF assms(2)] by (auto simp: etcd_methodHostDetails_def http_get_prefix_def case_prod_beta Let_def)
  note run = etcd_service.run_rep [OF assms(1,2) etcd_service.empty_rep [OF assms(1,4)] assms(5,6) this]
  show ?thesis using run etcd_service.listing_rep [OF assms(1,2) _ assms(7,3,8,9)] by blast
qed

definition mem_ok :: "mem_etcd \<Rightarrow> bool" where
  "mem_ok w \<longleftrightarrow> 0 \<le> me_next w \<and> me_next w < 2 ^ 63"

lemma mem_answers: "answering mem_etcd_env mem_ok"
  by (auto simp: answering_def mem_ok_def mem_perform_def served_def Let_def)

lemma mem_reads_loads: "reads_loads mem_etcd_env"
  unfolding reads_loads_def
proof (intro allI impI)
  fix h :: host_info and load :: int
  assume "good_host h \<and> in_int32 load"
  then have "CHR 0x22 \<notin> set (fst h)" by (auto simp: good_host_def list_all_iff plain_char_def)
  then have "splitq (provider_value h load) =
      [''{'', ''ip'', '':'', fst h, '','', ''port'', CHR '':'' # to_string (snd h) @ '','', ''load'', CHR '':'' # to_string load @ ''}'']"
    using split_join [of "[''{'', ''ip'', '':'', fst h, '','', ''port'', CHR '':'' # to_string (snd h) @ '','', ''load'', CHR '':'' # to_string load @ ''}'']"]
    by (simp add: provider_value_def field_def quoted_def to_string_no_quote)
  then show "\<exists>j. j_parse (ee_json mem_etcd_env) (provider_value h load) = Some j
      \<and> j_find (ee_json mem_etcd_env) j ''load'' = Some (Some (j_int (ee_json mem_etcd_env) load))"
    by (simp add: mem_parse_def) (simp add: json_tree_def)
qed

definition demo_ops :: "etcd_op list" where
  "demo_ops = [Register 1 (''h'', 80) ''add'' 5, Report ''add'' (''h'', 80) 9]"

lemma demo_ops_good: "list_all good_op demo_ops"
  by (simp add: demo_ops_def good_host_def plain_char_def in_int32_def)

lemmas store_eval = etcd_step_def etcd_registerInstance_def etcd_reportLoad_def etcd_disconnectProvider_def etcd_methodHostDetails_def
  mem_grant mem_calls EtcdRegistryStore_def new_mem_etcd_def lease_of_def mem_ok_def Let_def case_prod_beta

lemma demo_run_ok: "mem_ok (fst (etcd_methodHostDetails mem_etcd_env (snd (fst (etcd_run mem_etcd_env (EtcdRegistryStore 0, new_mem_etcd) demo_ops))) m))"
  by (simp add: demo_ops_def store_eval)

lemma new_mem_empty: "\<forall>k. take 22 k = providers_prefix \<longrightarrow> map_of (me_kv new_mem_etcd) k = None"
  by (simp add: new_mem_etcd_def)

theorem etcd_store_refines_witness:
  "snd (etcd_run mem_etcd_env (EtcdRegistryStore 0, new_mem_etcd) demo_ops) = [Registered, Answer True]
   \<and> (\<exists>ds. snd (etcd_methodHostDetails mem_etcd_env (snd (fst (etcd_run mem_etcd_env (EtcdRegistryStore 0, new_mem_etcd) demo_ops))) ''add'') = Some ds
        \<and> set ds = {\<lparr>hd_host = (''h'', 80), hd_load = 9\<rparr>})"
proof -
  obtain s w1 as where run: "etcd_run mem_etcd_env (EtcdRegistryStore 0, new_mem_etcd) demo_ops = ((s, w1), as)" by (metis surj_pair)
  obtain w2 r where l: "etcd_methodHostDetails mem_etcd_env w1 ''add'' = (w2, r)" by fastforce
  have "mem_ok w2" using demo_run_ok [of "''add''"] run l by simp
  note ref = etcd_store_refines [OF mem_etcd.etcd_service_axioms mem_answers mem_reads_loads new_mem_empty demo_ops_good run _ l this]
  have "snd (table_run empty_table demo_ops) = [Registered, Answer True]"
    "{\<lparr>hd_host = h, hd_load = load\<rparr> | h load. pt_rows (fst (table_run empty_table demo_ops)) (''add'', h) = Some load} = {\<lparr>hd_host = (''h'', 80), hd_load = 9\<rparr>}"
    by (auto simp: demo_ops_def empty_table_def split: if_splits)
  then show ?thesis using ref run l by simp
qed

text \<open>
  Remark. A late close of an old connection takes a provider off the list that has registered again: when a
  provider registers on a new connection before the old one is seen to close, the store on etcd deletes its
  key and forgets it, so the method no longer lists the host, and all further heartbeats and load
  reports of the provider fail.
\<close>

theorem etcd_stale_close_unlists:
  assumes "etcd_service E kv leases used" "answering E ok" "reads_loads E" "\<forall>k. take 22 k = providers_prefix \<longrightarrow> kv w k = None"
    and "good_host h" "CHR ''/'' \<notin> set m" "in_int32 load" "in_int32 load'" "c1 \<noteq> c2"
    and "etcd_run E (EtcdRegistryStore t0, w) ([Register c1 h m load, Register c2 h m load', Disconnect c1] @ replicate n (Beat m h)) = ((s, w1), as)"
    and "etcd_methodHostDetails E w1 m = (w2, r)" "ok w2"
  shows "r = Some [] \<and> as = [Registered, Registered, Offline [(m, h)]] @ replicate n (Answer False)"
proof -
  let ?xs = "[Register c1 h m load, Register c2 h m load', Disconnect c1] @ replicate n (Beat m h)"
  have "ok w1"
    using assms(11,12) post_before [OF assms(2)] by (auto simp: etcd_methodHostDetails_def http_get_prefix_def case_prod_beta Let_def)
  moreover have "list_all good_op ?xs" using assms(5-8) by (simp add: list_all_iff)
  ultimately have run: "as = snd (table_run empty_table ?xs) \<and> table_rep kv leases (s, w1) (fst (table_run empty_table ?xs))"
    using etcd_service.run_rep [OF assms(1,2) etcd_service.empty_rep [OF assms(1,4)] _ assms(10)] by blast
  have beats: "table_run t (replicate n (Beat m h)) = (t, replicate n (Answer False))" if "pt_rows t (m, h) = None" for t
    using that by (induction n) simp_all
  have t: "table_run empty_table ?xs = (\<lparr>pt_rows = (\<lambda>x. None), pt_conns = (pt_conns empty_table)(c1 := [], c2 := [(m, h)])\<rparr>,
      [Registered, Registered, Offline [(m, h)]] @ replicate n (Answer False))"
    using assms(9) by (auto simp: empty_table_def beats fun_eq_iff)
  then obtain ds where "r = Some ds" "set ds = {}"
    using etcd_service.listing_rep [OF assms(1,2) conjunct2 [OF run] assms(6,3,11,12)] by auto
  then show ?thesis using run t by simp
qed

lemma stale_run_ok:
  "mem_ok (fst (etcd_methodHostDetails mem_etcd_env (snd (fst (etcd_run mem_etcd_env (EtcdRegistryStore 0, new_mem_etcd)
     ([Register 3 (''h'', 80) ''add'' 5, Register 4 (''h'', 80) ''add'' 6, Disconnect 3] @ replicate 0 (Beat ''add'' (''h'', 80)))))) ''add''))"
  using host_of_key [of "(''h'', 80)" "''add''"]
  by (simp add: store_eval ids_of_def good_host_def plain_char_def in_int32_def)

theorem etcd_stale_close_unlists_witness:
  "snd (etcd_methodHostDetails mem_etcd_env (snd (fst (etcd_run mem_etcd_env (EtcdRegistryStore 0, new_mem_etcd)
     ([Register 3 (''h'', 80) ''add'' 5, Register 4 (''h'', 80) ''add'' 6, Disconnect 3] @ replicate 0 (Beat ''add'' (''h'', 80)))))) ''add'') = Some []"
proof -
  let ?run = "etcd_run mem_etcd_env (EtcdRegistryStore 0, new_mem_etcd)
     ([Register 3 (''h'', 80) ''add'' 5, Register 4 (''h'', 80) ''add'' 6, Disconnect 3] @ replicate 0 (Beat ''add'' (''h'', 80)))"
  obtain s w1 as where run: "?run = ((s, w1), as)" by (metis surj_pair)
  obtain w2 r where l: "etcd_methodHostDetails mem_etcd_env w1 ''add'' = (w2, r)" by fastforce
  have ok: "mem_ok w2" using stale_run_ok unfolding run fst_conv snd_conv l .
  have "r = Some []"
    using etcd_stale_close_unlists [OF mem_etcd.etcd_service_axioms mem_answers mem_reads_loads new_mem_empty _ _ _ _ _ run l ok]
    by (simp add: good_host_def plain_char_def in_int32_def)
  then show ?thesis unfolding run fst_conv snd_conv l .
qed

subsection \<open>A sweep and a registration\<close>

lemma expired_lists:
  assumes "expired_entries ks = Some xs" "key_for m h \<in> set ks" "good_host h"
  shows "(m, h) \<in> set xs"
  using assms
proof (induction ks arbitrary: xs)
  case (Cons k ks)
  obtain hk ys where k: "host_from_key k = Some hk" "expired_entries ks = Some ys" "xs = offline_entry k hk @ ys"
    using Cons.prems(1) by (auto simp: bind_eq_Some_conv)
  show ?case
  proof (cases "k = key_for m h")
    case True
    then show ?thesis using k host_of_key [OF assms(3), of m] entry_of_key [OF assms(3), of m] by simp
  next
    case False
    then show ?thesis using Cons.IH [OF k(2) _ assms(3)] Cons.prems(2) k(3) by simp
  qed
qed simp

text \<open>
  Remark. A provider that registers while a sweep is under way is lost: the sweep compares the keys
  it read before with the table it finds afterwards, so it announces the new provider as
  offline and forgets its lease, and every further heartbeat and load report of the provider is
  refused without a request to etcd, until the key runs out.
\<close>

theorem sweep_drops_new_provider:
  assumes "good_host h" "sweep_read E s w idle now = (w1, Some (Some current))" "key_for m h \<notin> set current"
    and "etcd_registerInstance E (s, w1) c h m load = ((s1, w2), Some ())" "sweep_apply s1 current = (s2, Some offline)"
  shows "(m, h) \<in> set offline \<and> etcd_heartbeat E (s2, w3) m h = ((s2, w3), Some False)
    \<and> etcd_reportLoad E (s2, w3) m h load' = ((s2, w3), False)"
proof -
  have k: "key_for m h \<in> set (es_known_keys s1)"
    using assms(4) by (auto simp: etcd_registerInstance_def Let_def split: prod.splits option.splits)
  let ?gone = "filter (\<lambda>k. k \<notin> set current) (es_known_keys s1)"
  have gone: "key_for m h \<in> set ?gone" using k assms(3) by simp
  have s2: "map_of (es_keys_to_lease s2) = map_of (es_keys_to_lease (fold forget_key ?gone s1))" "expired_entries ?gone = Some offline"
    using assms(5) by (auto simp: sweep_apply_def Let_def)
  then have "lease_of s2 (key_for m h) < 0" using gone by (simp add: lease_of_def fold_forget)
  then show ?thesis
    using expired_lists [OF s2(2) gone assms(1)] by (simp add: etcd_heartbeat_def etcd_reportLoad_def Let_def)
qed

theorem sweep_drops_new_provider_witness:
  "let s1w = fst (etcd_registerInstance mem_etcd_env (EtcdRegistryStore 0, new_mem_etcd) 3 (''h'', 80) ''add'' 5);
       s2 = fst (sweep_apply (fst s1w) []) in
   etcd_heartbeat mem_etcd_env (s2, snd s1w) ''add'' (''h'', 80) = ((s2, snd s1w), Some False)"
proof -
  let ?h = "(''h'', 80) :: host_info"
  have h: "good_host ?h" by (simp add: good_host_def plain_char_def in_int32_def)
  have read: "sweep_read mem_etcd_env (EtcdRegistryStore 0) new_mem_etcd 30 40000 = (new_mem_etcd, Some (Some []))"
    by (simp add: sweep_read_def EtcdRegistryStore_def http_get_prefix_def curl_post_def mem_perform_calls new_mem_etcd_def retain_def read_kvs_def mem_parse_def)
  obtain s1 w1 where r: "etcd_registerInstance mem_etcd_env (EtcdRegistryStore 0, new_mem_etcd) 3 ?h ''add'' 5 = ((s1, w1), Some ())"
    "es_known_keys s1 = [key_for ''add'' ?h]" by (simp add: store_eval)
  obtain s2 where s2: "sweep_apply s1 [] = (s2, Some [(''add'', ?h)])"
    by (simp add: sweep_apply_def Let_def r(2) host_of_key [OF h] entry_of_key [OF h])
  show ?thesis using sweep_drops_new_provider [OF h read _ r(1) s2] by (simp add: r s2)
qed

end
