(* ===== verification/Metrics.thy ===== *)
theory Metrics
  imports Config Complex_Main
begin

text \<open>
  The metrics of \<open>rpc/src/general/metrics.hpp\<close> and the hooks of \<open>metrics_hooks.hpp\<close> through which the
  other components report. The registry has one
  table for each kind of metric, keyed by name and printed labels; a reference that the code keeps to an
  entry is the key here. The tables of the code are hash tables: the lists here hold the entries in the order of
  their creation, and what is shown about the whole export holds for every order. An \<open>atomic<int64_t>\<close> is a 64-bit word read as a signed number, a \<open>double\<close>
  is a real number. The clock is an argument.
\<close>

subsection \<open>Printing of \<open>double\<close> values\<close>

text \<open>\<open>ostream << double\<close> with a precision of \<open>p\<close> digits: rounding to even, no trailing zeros.\<close>

definition round_even :: "real \<Rightarrow> nat" where
  "round_even x = (let n = \<lfloor>x\<rfloor>; d = x - of_int n in nat (if d < 1/2 \<or> d = 1/2 \<and> even n then n else n + 1))"

definition strip_zeros :: "string \<Rightarrow> string" where
  "strip_zeros s = rev (dropWhile (\<lambda>c. c = CHR ''0'') (rev s))"

definition with_point :: "string \<Rightarrow> string \<Rightarrow> string" where
  "with_point i f = (if strip_zeros f = [] then i else i @ ''.'' @ strip_zeros f)"

definition exponent_text :: "int \<Rightarrow> string" where
  "exponent_text e = ''e'' @ (if e < 0 then ''-'' else ''+'') @ (if \<bar>e\<bar> < 10 then ''0'' else []) @ dec_nat (nat \<bar>e\<bar>)"

definition print_pos :: "nat \<Rightarrow> real \<Rightarrow> string" where
  "print_pos p v =
     (let e0 = \<lfloor>log 10 v\<rfloor>; m0 = round_even (v * 10 powr (of_int (int p - 1 - e0)));
          m = (if m0 \<ge> 10 ^ p then m0 div 10 else m0); e = (if m0 \<ge> 10 ^ p then e0 + 1 else e0); ds = dec_nat m in
      if e < -4 \<or> e \<ge> int p then with_point (take 1 ds) (drop 1 ds) @ exponent_text e
      else if e \<ge> 0 then with_point (take (nat e + 1) ds) (drop (nat e + 1) ds)
      else with_point ''0'' (replicate (nat (- e) - 1) (CHR ''0'') @ ds))"

definition print_double :: "nat \<Rightarrow> real \<Rightarrow> string" where
  "print_double p v = (if v = 0 then ''0'' else if v < 0 then ''-'' @ print_pos p (- v) else print_pos p v)"

subsection \<open>Labels\<close>

type_synonym labels = "(string \<times> string) list"

definition formatLabel :: "string \<times> string \<Rightarrow> string" where
  "formatLabel kv = fst kv @ ''='' @ [CHR 0x22] @ snd kv @ [CHR 0x22]"

fun commas :: "string list \<Rightarrow> string" where
  "commas [] = []"
| "commas [s] = s"
| "commas (s # t # ss) = s @ '','' @ commas (t # ss)"

definition formatLabels :: "labels \<Rightarrow> string" where
  "formatLabels ls = (if ls = [] then [] else ''{'' @ commas (map formatLabel ls) @ ''}'')"

definition mergeLabels :: "string \<Rightarrow> string \<Rightarrow> string" where
  "mergeLabels existing extraKV =
     (if existing = [] \<or> existing = ''{}'' then ''{'' @ extraKV @ ''}''
      else take (length existing - 1) existing @ '','' @ extraKV @ ''}'')"

subsection \<open>Counter, Gauge, Histogram\<close>

record mcounter =
  mc_name :: string
  mc_help :: string
  mc_labels :: string
  mc_value :: u64

definition new_counter :: "string \<Rightarrow> string \<Rightarrow> labels \<Rightarrow> mcounter" where
  "new_counter n h ls = \<lparr>mc_name = n, mc_help = h, mc_labels = formatLabels ls, mc_value = 0\<rparr>"

definition counter_add :: "u64 \<Rightarrow> mcounter \<Rightarrow> mcounter" where
  "counter_add n c = c\<lparr>mc_value := mc_value c + n\<rparr>"

definition counter_inc :: "mcounter \<Rightarrow> mcounter" where
  "counter_inc c = c\<lparr>mc_value := mc_value c + 1\<rparr>"

record mgauge =
  mg_name :: string
  mg_help :: string
  mg_labels :: string
  mg_value :: real

definition new_gauge :: "string \<Rightarrow> string \<Rightarrow> labels \<Rightarrow> mgauge" where
  "new_gauge n h ls = \<lparr>mg_name = n, mg_help = h, mg_labels = formatLabels ls, mg_value = 0\<rparr>"

definition gauge_set :: "real \<Rightarrow> mgauge \<Rightarrow> mgauge" where
  "gauge_set v g = g\<lparr>mg_value := v\<rparr>"

definition gauge_inc :: "mgauge \<Rightarrow> mgauge" where
  "gauge_inc g = g\<lparr>mg_value := mg_value g + 1\<rparr>"

definition gauge_dec :: "mgauge \<Rightarrow> mgauge" where
  "gauge_dec g = g\<lparr>mg_value := mg_value g - 1\<rparr>"

definition bucket_bounds :: "int list" where
  "bucket_bounds = [10, 25, 50, 100, 250, 500, 1000, 5000, 10000, 50000]"

record histogram =
  mh_name :: string
  mh_help :: string
  mh_labels :: string
  mh_count :: u64
  mh_sum :: real
  mh_b :: "u64 list"

definition new_histogram :: "string \<Rightarrow> string \<Rightarrow> labels \<Rightarrow> histogram" where
  "new_histogram n h ls =
     \<lparr>mh_name = n, mh_help = h, mh_labels = formatLabels ls, mh_count = 0, mh_sum = 0, mh_b = replicate (length bucket_bounds) 0\<rparr>"

text \<open>Only the first bucket that fits is counted.\<close>

fun bucket_hit :: "int list \<Rightarrow> real \<Rightarrow> u64 list \<Rightarrow> u64 list" where
  "bucket_hit (bd # bds) v (b # bs) = (if v \<le> of_int bd then (b + 1) # bs else b # bucket_hit bds v bs)"
| "bucket_hit bds v bs = bs"

definition observe :: "real \<Rightarrow> histogram \<Rightarrow> histogram" where
  "observe v h = h\<lparr>mh_count := mh_count h + 1, mh_sum := mh_sum h + v, mh_b := bucket_hit bucket_bounds v (mh_b h)\<rparr>"

subsection \<open>The registry\<close>

record metric_registry =
  mr_counters :: "(string \<times> mcounter) list"
  mr_gauges :: "(string \<times> mgauge) list"
  mr_hists :: "(string \<times> histogram) list"

definition new_metrics :: metric_registry where
  "new_metrics = \<lparr>mr_counters = [], mr_gauges = [], mr_hists = []\<rparr>"

text \<open>Find or create an entry and change it through the reference.\<close>

definition table_get :: "string \<Rightarrow> 'm \<Rightarrow> (string \<times> 'm) list \<Rightarrow> (string \<times> 'm) list" where
  "table_get key new t = (if key \<in> fst ` set t then t else t @ [(key, new)])"

definition table_at :: "string \<Rightarrow> ('m \<Rightarrow> 'm) \<Rightarrow> (string \<times> 'm) list \<Rightarrow> (string \<times> 'm) list" where
  "table_at key f t = map (\<lambda>(k, x). (k, if k = key then f x else x)) t"

definition metrics_counter :: "string \<Rightarrow> string \<Rightarrow> labels \<Rightarrow> (mcounter \<Rightarrow> mcounter) \<Rightarrow> metric_registry \<Rightarrow> metric_registry" where
  "metrics_counter n h ls f r =
     (let key = n @ formatLabels ls in r\<lparr>mr_counters := table_at key f (table_get key (new_counter n h ls) (mr_counters r))\<rparr>)"

definition metrics_gauge :: "string \<Rightarrow> string \<Rightarrow> labels \<Rightarrow> (mgauge \<Rightarrow> mgauge) \<Rightarrow> metric_registry \<Rightarrow> metric_registry" where
  "metrics_gauge n h ls f r =
     (let key = n @ formatLabels ls in r\<lparr>mr_gauges := table_at key f (table_get key (new_gauge n h ls) (mr_gauges r))\<rparr>)"

definition metrics_histo :: "string \<Rightarrow> string \<Rightarrow> labels \<Rightarrow> (histogram \<Rightarrow> histogram) \<Rightarrow> metric_registry \<Rightarrow> metric_registry" where
  "metrics_histo n h ls f r =
     (let key = n @ formatLabels ls in r\<lparr>mr_hists := table_at key f (table_get key (new_histogram n h ls) (mr_hists r))\<rparr>)"

subsection \<open>Export\<close>

definition newline :: string where
  "newline = [CHR 0x0A]"

definition int64_text :: "u64 \<Rightarrow> string" where
  "int64_text w = to_string (sint w)"

definition help_line :: "string \<Rightarrow> string \<Rightarrow> string" where
  "help_line n h = ''# HELP '' @ n @ '' '' @ h"

definition type_line :: "string \<Rightarrow> string \<Rightarrow> string" where
  "type_line n t = ''# TYPE '' @ n @ '' '' @ t"

definition sample_line :: "string \<Rightarrow> string \<Rightarrow> string \<Rightarrow> string" where
  "sample_line n ls v = n @ ls @ '' '' @ v"

definition counter_lines :: "mcounter \<Rightarrow> string list" where
  "counter_lines c =
     [help_line (mc_name c) (mc_help c), type_line (mc_name c) ''counter'',
      sample_line (mc_name c) (mc_labels c) (int64_text (mc_value c)), []]"

definition is_total :: "string \<Rightarrow> bool" where
  "is_total n \<longleftrightarrow> length n > 6 \<and> drop (length n - 6) n = ''_total''"

definition gauge_lines :: "mgauge \<Rightarrow> string list" where
  "gauge_lines g =
     [help_line (mg_name g) (mg_help g), type_line (mg_name g) (if is_total (mg_name g) then ''counter'' else ''gauge''),
      sample_line (mg_name g) (mg_labels g) (print_double 15 (mg_value g)), []]"

definition le_label :: "string \<Rightarrow> string" where
  "le_label v = ''le='' @ [CHR 0x22] @ v @ [CHR 0x22]"

definition cumulative :: "histogram \<Rightarrow> nat \<Rightarrow> u64" where
  "cumulative h i = sum_list (take (Suc i) (mh_b h))"

definition histogram_lines :: "histogram \<Rightarrow> string list" where
  "histogram_lines h =
     [help_line (mh_name h) (mh_help h), type_line (mh_name h) ''histogram''] @
     map (\<lambda>i. sample_line (mh_name h @ ''_bucket'') (mergeLabels (mh_labels h) (le_label (to_string (bucket_bounds ! i)))) (int64_text (cumulative h i)))
       [0 ..< length bucket_bounds] @
     [sample_line (mh_name h @ ''_bucket'') (mergeLabels (mh_labels h) (le_label ''+Inf'')) (int64_text (mh_count h)),
      sample_line (mh_name h @ ''_sum'') (mh_labels h) (print_double 15 (mh_sum h)),
      sample_line (mh_name h @ ''_count'') (mh_labels h) (int64_text (mh_count h)), []]"

definition export_lines :: "metric_registry \<Rightarrow> string list" where
  "export_lines r =
     concat (map (\<lambda>(k, c). counter_lines c) (mr_counters r)) @
     concat (map (\<lambda>(k, g). gauge_lines g) (mr_gauges r)) @
     concat (map (\<lambda>(k, h). histogram_lines h) (mr_hists r))"

definition exportText :: "metric_registry \<Rightarrow> string" where
  "exportText r = concat (map (\<lambda>l. l @ newline) (export_lines r))"

subsection \<open>Hooks\<close>

definition onServerStart :: "int \<Rightarrow> metric_registry \<Rightarrow> metric_registry" where
  "onServerStart worker_threads r =
     metrics_gauge ''rpc_server_uptime_seconds'' ''Server uptime in seconds'' [] (gauge_set 0)
       (metrics_gauge ''rpc_connection_count'' ''Active connections'' [] (gauge_set 0)
         (metrics_gauge ''rpc_worker_threads'' ''Worker thread count'' [] (gauge_set (of_int worker_threads)) r))"

definition onRequestStart :: "string \<Rightarrow> metric_registry \<Rightarrow> metric_registry" where
  "onRequestStart method r = metrics_gauge ''rpc_concurrency'' ''In-flight requests'' [(''method'', method)] gauge_inc r"

text \<open>\<open>errReason\<close> of a number that is cast to a code, unknown codes included.\<close>

definition code_reason :: "int \<Rightarrow> string" where
  "code_reason c =
     (let codes = [SUCCESS, PARSE_FAILED, INVALID_MSGTYPE, INVALID_MSG, CONNECTION_CLOSED, INVALID_PARAMS, SERVICE_NOT_FOUND,
        INVALID_OPTYPE, TOPIC_NOT_FOUND, INTERNAL_ERROR, resp_code.TIMEOUT, resp_code.BACKOFF] in
      if 0 \<le> c \<and> c < int (length codes) then errReason (codes ! nat c)
      else bytes_of [230, 156, 170, 231, 159, 165, 233, 148, 153, 232, 175, 175, 239, 188, 129])"

definition onRequestEnd :: "string \<Rightarrow> int \<Rightarrow> real \<Rightarrow> metric_registry \<Rightarrow> metric_registry" where
  "onRequestEnd method rcode lat_us r =
     (let ls = [(''method'', method)];
          r1 = metrics_counter ''rpc_requests_total'' ''Total RPC requests'' ls counter_inc r;
          r2 = metrics_histo ''rpc_request_duration_us'' ''Handler latency in us'' ls (observe lat_us) r1;
          r3 = metrics_gauge ''rpc_concurrency'' ''In-flight requests'' ls gauge_dec r2 in
      if rcode \<noteq> 0 then
        metrics_counter ''rpc_errors_total'' ''RPC handler errors'' [(''method'', method), (''code'', code_reason rcode)] counter_inc r3
      else r3)"

definition onClientSend :: "string \<Rightarrow> metric_registry \<Rightarrow> metric_registry" where
  "onClientSend method r =
     (let ls = [(''method'', method)] in
      metrics_gauge ''rpc_client_concurrency'' ''Client in-flight'' ls gauge_inc
        (metrics_counter ''rpc_client_requests_total'' ''Client requests'' ls counter_inc r))"

definition onClientRecv :: "string \<Rightarrow> real \<Rightarrow> string \<Rightarrow> metric_registry \<Rightarrow> metric_registry" where
  "onClientRecv method lat_us error_code r =
     (let ls = [(''method'', method)];
          r1 = metrics_histo ''rpc_client_latency_us'' ''Client RTT in us'' ls (observe lat_us) r;
          r2 = metrics_gauge ''rpc_client_concurrency'' ''Client in-flight'' ls gauge_dec r1 in
      if error_code \<noteq> [] then
        metrics_counter ''rpc_client_errors_total'' ''Client errors'' [(''method'', method), (''code'', error_code)] counter_inc r2
      else
        fold (\<lambda>ec. metrics_counter ''rpc_client_errors_total'' ''Client errors'' [(''method'', method), (''code'', ec)] (counter_add 0))
          [''send_failed'', ''backoff'', ''parse_failed'', ''circuit_open''] r2)"

definition onConnectionOpen :: "metric_registry \<Rightarrow> metric_registry" where
  "onConnectionOpen r = metrics_gauge ''rpc_connection_count'' ''Active connections'' [] gauge_inc r"

definition onConnectionClose :: "metric_registry \<Rightarrow> metric_registry" where
  "onConnectionClose r = metrics_gauge ''rpc_connection_count'' ''Active connections'' [] gauge_dec r"

definition onCircuitState :: "string \<Rightarrow> string \<Rightarrow> int \<Rightarrow> metric_registry \<Rightarrow> metric_registry" where
  "onCircuitState method host state r =
     metrics_gauge ''circuit_breaker_state'' ''Circuit breaker state'' [(''method'', method), (''host'', host)] (gauge_set (of_int state)) r"

definition onTokenBucket :: "string \<Rightarrow> real \<Rightarrow> metric_registry \<Rightarrow> metric_registry" where
  "onTokenBucket service available r =
     metrics_gauge ''token_bucket_available'' ''Token bucket available tokens'' [(''service'', service)] (gauge_set available) r"

definition onRateLimited :: "string \<Rightarrow> metric_registry \<Rightarrow> metric_registry" where
  "onRateLimited service r =
     metrics_counter ''rpc_rate_limited_total'' ''Requests rejected by rate limiter'' [(''service'', service)] counter_inc r"

definition onRegistryProviderCount :: "int \<Rightarrow> metric_registry \<Rightarrow> metric_registry" where
  "onRegistryProviderCount n r = metrics_gauge ''registry_providers_total'' ''Registered providers'' [] (gauge_set (of_int n)) r"

definition onRegistryHeartbeat :: "string \<Rightarrow> bool \<Rightarrow> metric_registry \<Rightarrow> metric_registry" where
  "onRegistryHeartbeat method success r =
     (let r1 = metrics_counter ''registry_heartbeats_total'' ''Registry heartbeats'' [(''method'', method)] counter_inc r in
      if \<not> success then
        metrics_counter ''registry_heartbeat_errors_total'' ''Failed heartbeats'' [(''method'', method), (''code'', ''failed'')] counter_inc r1
      else r1)"

definition buildInfo :: "string \<Rightarrow> string \<Rightarrow> string \<Rightarrow> metric_registry \<Rightarrow> metric_registry" where
  "buildInfo version commit build_time r =
     metrics_gauge ''lyqtrpc_build_info'' ''Build metadata (value=1)''
       [(''version'', version), (''commit'', commit), (''build_time'', build_time)] (gauge_set 1) r"

subsection \<open>Line ends\<close>

definition http_crlf :: string where
  "http_crlf = [CHR 0x0D, CHR 0x0A]"

subsection \<open>Series\<close>

lemma rfind_last_at: "c \<notin> set b \<Longrightarrow> rfind c (a @ c # b) = Some (length a)"
  using takeWhile_sep [of c "rev b" "rev a"] by (simp add: rfind_def del: takeWhile_append)

lemma map_of_table_get: "map_of (table_get key new t) = (if key \<in> fst ` set t then map_of t else (map_of t)(key \<mapsto> new))"
proof -
  have "key \<notin> fst ` set t \<Longrightarrow> map_of (t @ [(key, new)]) = (map_of t)(key \<mapsto> new)"
    by (rule ext) (auto simp: map_add_def split: option.splits dest: map_of_SomeD, (metis image_eqI fst_conv map_of_SomeD)?)
  then show ?thesis by (simp add: table_get_def)
qed

lemma map_of_table_at: "map_of (table_at key f t) k = (if k = key then map_option f (map_of t k) else map_of t k)"
  by (induction t) (auto simp: table_at_def)

lemma table_change:
  "map_of (table_at key f (table_get key new t)) k =
    (if k = key then Some (f (case map_of t key of None \<Rightarrow> new | Some x \<Rightarrow> x)) else map_of t k)"
  by (auto simp: map_of_table_at map_of_table_get map_of_eq_None_iff split: option.splits dest: map_of_SomeD image_eqI [where f = fst, OF fst_conv [symmetric]])

lemma table_keys: "distinct (map fst t) \<Longrightarrow> distinct (map fst (table_at key f (table_get key new t)))"
proof -
  have "map fst (table_at key f u) = map fst u" for u :: "(string \<times> 'a) list" by (induction u) (auto simp: table_at_def)
  then show "distinct (map fst t) \<Longrightarrow> ?thesis" by (simp add: table_get_def)
qed


subsection \<open>Cumulative counts\<close>

lemma bucket_hit_length [simp]: "length (bucket_hit bds v bs) = length bs"
  by (induction bds v bs rule: bucket_hit.induct) auto

lemma bucket_hit_cumulative:
  assumes "sorted bds" "length bs = length bds" "i < length bds"
  shows "sum_list (take (Suc i) (bucket_hit bds v bs)) = sum_list (take (Suc i) bs) + of_bool (v \<le> of_int (bds ! i))"
  using assms
proof (induction bds v bs arbitrary: i rule: bucket_hit.induct)
  case (1 bd bds v b bs)
  show ?case
  proof (cases i)
    case (Suc j)
    have "bd \<le> bds ! j" using 1(2,4) Suc by simp
    then have "v \<le> of_int bd \<Longrightarrow> v \<le> of_int (bds ! j)" by (meson of_int_le_iff order_trans)
    then show ?thesis using 1 Suc by auto
  qed simp
qed simp_all

definition observe_all :: "real list \<Rightarrow> histogram \<Rightarrow> histogram" where
  "observe_all vs h = fold observe vs h"

definition at_most :: "real list \<Rightarrow> real \<Rightarrow> nat" where
  "at_most vs x = length (filter (\<lambda>v. v \<le> x) vs)"

lemma observe_all_counts:
  assumes "length (mh_b h) = length bucket_bounds" "i < length bucket_bounds"
  shows "cumulative (observe_all vs h) i = cumulative h i + of_nat (at_most vs (of_int (bucket_bounds ! i)))
    \<and> mh_count (observe_all vs h) = mh_count h + of_nat (length vs) \<and> mh_sum (observe_all vs h) = mh_sum h + sum_list vs"
  using assms
proof (induction vs arbitrary: h)
  case (Cons v vs)
  have "sorted bucket_bounds" by (simp add: bucket_bounds_def)
  then have "cumulative (observe v h) i = cumulative h i + of_bool (v \<le> of_int (bucket_bounds ! i))"
    using bucket_hit_cumulative Cons.prems by (simp add: cumulative_def observe_def)
  moreover have "length (mh_b (observe v h)) = length bucket_bounds" using Cons.prems by (simp add: observe_def)
  moreover have "mh_count (observe v h) = mh_count h + 1" "mh_sum (observe v h) = mh_sum h + v" by (simp_all add: observe_def)
  moreover have "observe_all (v # vs) h = observe_all vs (observe v h)" by (simp add: observe_all_def)
  ultimately show ?case using Cons.IH [of "observe v h"] Cons.prems(2) by (simp add: at_most_def algebra_simps)
qed (simp add: observe_all_def at_most_def)

lemma sint_of_nat_small: "n < 2 ^ 63 \<Longrightarrow> sint (of_nat n :: u64) = int n"
  by (simp add: signed_of_nat signed_take_bit_int_eq_self)

text \<open>
  Property C22. The exported histogram is the distribution of what was observed: after any sequence of
  observations, each bucket that is exported counts exactly the observations that are at most its bound
  (a value on a bound included), the last bucket and the count are their number, and the sum is their sum.
\<close>

theorem histogram_exports_distribution:
  assumes "i < length bucket_bounds" "length vs < 2 ^ 63"
  shows "sint (cumulative (observe_all vs (new_histogram n h ls)) i) = int (at_most vs (of_int (bucket_bounds ! i)))
    \<and> sint (mh_count (observe_all vs (new_histogram n h ls))) = int (length vs)
    \<and> mh_sum (observe_all vs (new_histogram n h ls)) = sum_list vs"
proof -
  have "length (mh_b (new_histogram n h ls)) = length bucket_bounds" "cumulative (new_histogram n h ls) i = 0"
    "mh_count (new_histogram n h ls) = 0" "mh_sum (new_histogram n h ls) = 0"
    using assms(1) by (simp_all add: new_histogram_def cumulative_def sum_list_replicate)
  moreover have "at_most vs (of_int (bucket_bounds ! i)) < 2 ^ 63"
    unfolding at_most_def using assms(2) length_filter_le le_less_trans by blast
  ultimately show ?thesis using observe_all_counts [OF _ assms(1)] assms(2) by (simp add: sint_of_nat_small)
qed

theorem histogram_exports_distribution_witness:
  "sint (cumulative (observe_all [3, 10, 11, 60000] (new_histogram ''h'' ''x'' [])) 0) = 2
    \<and> sint (mh_count (observe_all [3, 10, 11, 60000] (new_histogram ''h'' ''x'' []))) = 4"
  using histogram_exports_distribution [of 0 "[3, 10, 11, 60000]" "''h''" "''x''" "[]"]
  by (simp add: bucket_bounds_def at_most_def)

subsection \<open>One series for each name and label set\<close>

lemma split_at:
  assumes "c \<notin> set a" "c \<notin> set b" "a @ c # s = b @ c # t"
  shows "a = b \<and> s = t"
  using assms by (auto simp: append_eq_append_conv2 append_eq_Cons_conv Cons_eq_append_conv)

definition plain_label :: "string \<times> string \<Rightarrow> bool" where
  "plain_label kv \<longleftrightarrow> CHR ''='' \<notin> set (fst kv) \<and> CHR 0x22 \<notin> set (snd kv)"

lemma formatLabel_inj:
  assumes "plain_label kv" "plain_label kv'" "formatLabel kv @ s = formatLabel kv' @ t"
  shows "kv = kv' \<and> s = t"
proof -
  have "fst kv @ CHR ''='' # CHR 0x22 # snd kv @ CHR 0x22 # s = fst kv' @ CHR ''='' # CHR 0x22 # snd kv' @ CHR 0x22 # t"
    using assms(3) by (simp add: formatLabel_def)
  with split_at [of "CHR ''=''" "fst kv" "fst kv'"] assms(1,2)
  have k: "fst kv = fst kv'" "snd kv @ CHR 0x22 # s = snd kv' @ CHR 0x22 # t" by (auto simp: plain_label_def)
  with split_at [of "CHR 0x22" "snd kv" "snd kv'"] assms(1,2) show ?thesis by (auto simp: plain_label_def prod_eq_iff)
qed

lemma commas_Cons: "commas (s # ss) = s @ (if ss = [] then [] else '','' @ commas ss)"
  by (cases ss) simp_all

lemma commas_inj:
  assumes "list_all plain_label ls" "list_all plain_label ls'" "ls \<noteq> []" "ls' \<noteq> []"
    "commas (map formatLabel ls) @ ''}'' = commas (map formatLabel ls') @ ''}''"
  shows "ls = ls'"
  using assms
proof (induction ls arbitrary: ls')
  case (Cons kv ls)
  obtain kv' ls1 where l: "ls' = kv' # ls1" using Cons.prems(4) by (cases ls') auto
  have "formatLabel kv @ ((if ls = [] then [] else '','' @ commas (map formatLabel ls)) @ ''}'')
      = formatLabel kv' @ ((if ls1 = [] then [] else '','' @ commas (map formatLabel ls1)) @ ''}'')"
    using Cons.prems(5) by (simp add: l commas_Cons)
  from formatLabel_inj [OF _ _ this] Cons.prems(1,2) l
  have "kv = kv'" and r: "(if ls = [] then [] else '','' @ commas (map formatLabel ls)) @ ''}'' = (if ls1 = [] then [] else '','' @ commas (map formatLabel ls1)) @ ''}''"
    by simp_all
  moreover have "ls = ls1" using r Cons.IH [of ls1] Cons.prems(1,2) l by (auto split: if_splits)
  ultimately show ?case using l by simp
qed simp

lemma series_key_inj:
  assumes "CHR ''{'' \<notin> set n" "CHR ''{'' \<notin> set n'" "list_all plain_label ls" "list_all plain_label ls'"
    "n @ formatLabels ls = n' @ formatLabels ls'"
  shows "n = n' \<and> ls = ls'"
proof (cases "ls = [] \<or> ls' = []")
  case True
  then show ?thesis using assms(1,2,5) by (auto simp: formatLabels_def split: if_splits)
next
  case False
  then have "n @ CHR ''{'' # commas (map formatLabel ls) @ ''}'' = n' @ CHR ''{'' # commas (map formatLabel ls') @ ''}''"
    using assms(5) by (simp add: formatLabels_def)
  with split_at [OF assms(1,2)] have "n = n'" "commas (map formatLabel ls) @ ''}'' = commas (map formatLabel ls') @ ''}''" by blast+
  then show ?thesis using commas_inj assms(3,4) False by blast
qed

definition counter_value :: "metric_registry \<Rightarrow> string \<Rightarrow> labels \<Rightarrow> u64 option" where
  "counter_value r n ls = map_option mc_value (map_of (mr_counters r) (n @ formatLabels ls))"

lemma counter_value_change:
  "counter_value (metrics_counter n h ls f r) n' ls' =
    (if n' @ formatLabels ls' = n @ formatLabels ls
     then Some (mc_value (f (case map_of (mr_counters r) (n @ formatLabels ls) of None \<Rightarrow> new_counter n h ls | Some c \<Rightarrow> c)))
     else counter_value r n' ls')"
  by (simp add: counter_value_def metrics_counter_def Let_def table_change)

text \<open>
  Remark. A counter that is changed is the counter that was named: as long as no name has a brace and no
  label value has a quote, an increment raises the value of the series with this name and these labels by one
  (creating it first when it was not there) and leaves every other series as it was.
\<close>

theorem counter_series_separate:
  assumes "CHR ''{'' \<notin> set n" "CHR ''{'' \<notin> set n'" "list_all plain_label ls" "list_all plain_label ls'"
  shows "counter_value (metrics_counter n h ls counter_inc r) n' ls' =
    (if n' = n \<and> ls' = ls then Some ((case counter_value r n ls of None \<Rightarrow> 0 | Some v \<Rightarrow> v) + 1) else counter_value r n' ls')"
proof -
  have "n' @ formatLabels ls' = n @ formatLabels ls \<longleftrightarrow> n' = n \<and> ls' = ls" using series_key_inj assms by metis
  then show ?thesis unfolding counter_value_change
    by (simp add: counter_inc_def counter_value_def new_counter_def split: option.split)
qed

theorem counter_series_separate_witness:
  "counter_value (metrics_counter ''c'' ''x'' [(''code'', ''a'')] counter_inc (metrics_counter ''c'' ''x'' [(''code'', ''b'')] counter_inc new_metrics)) ''c'' [(''code'', ''a'')] = Some 1"
  by (subst counter_series_separate)
    (simp_all add: plain_label_def counter_value_def metrics_counter_def new_metrics_def table_at_def table_get_def formatLabels_def formatLabel_def)

text \<open>
  Remark. A quote in a label value breaks this: two different label sets name the same series.
\<close>

theorem quote_merges_series:
  "n @ formatLabels [(''a'', ''x'' @ [CHR 0x22] @ '',b='' @ [CHR 0x22] @ ''y'')] = n @ formatLabels [(''a'', ''x''), (''b'', ''y'')]"
  by (simp add: formatLabels_def formatLabel_def)

subsection \<open>Requests in flight\<close>

datatype request_event = Started string | Ended string int real

fun on_request :: "metric_registry \<Rightarrow> request_event \<Rightarrow> metric_registry" where
  "on_request r (Started m) = onRequestStart m r"
| "on_request r (Ended m rcode lat) = onRequestEnd m rcode lat r"

definition starts :: "string \<Rightarrow> request_event list \<Rightarrow> nat" where
  "starts m es = length (filter (\<lambda>e. e = Started m) es)"

definition ends :: "string \<Rightarrow> request_event list \<Rightarrow> nat" where
  "ends m es = length (filter (\<lambda>e. case e of Started _ \<Rightarrow> False | Ended m' _ _ \<Rightarrow> m' = m) es)"

definition gauge_value :: "metric_registry \<Rightarrow> string \<Rightarrow> labels \<Rightarrow> real" where
  "gauge_value r n ls = (case map_of (mr_gauges r) (n @ formatLabels ls) of None \<Rightarrow> 0 | Some g \<Rightarrow> mg_value g)"

definition counter_total :: "metric_registry \<Rightarrow> string \<Rightarrow> labels \<Rightarrow> u64" where
  "counter_total r n ls = (case counter_value r n ls of None \<Rightarrow> 0 | Some v \<Rightarrow> v)"

lemma method_labels_eq: "formatLabels [(''method'', m)] = formatLabels [(''method'', m')] \<longleftrightarrow> m = m'"
  by (simp add: formatLabels_def formatLabel_def)

lemma gauge_value_change:
  assumes "\<And>g. mg_value (f g) = mg_value g + d"
  shows "gauge_value (metrics_gauge n h ls f r) n' ls' =
    gauge_value r n' ls' + (if n' @ formatLabels ls' = n @ formatLabels ls then d else 0)"
  by (simp add: gauge_value_def metrics_gauge_def Let_def table_change assms new_gauge_def split: option.split)

lemma counter_total_inc:
  "counter_total (metrics_counter n h ls counter_inc r) n' ls' =
    counter_total r n' ls' + (if n' @ formatLabels ls' = n @ formatLabels ls then 1 else 0)"
  unfolding counter_total_def counter_value_change
  by (simp add: counter_value_def counter_inc_def new_counter_def split: option.split)

lemma gauge_value_other [simp]:
  "gauge_value (metrics_counter n h ls f r) n' ls' = gauge_value r n' ls'"
  "gauge_value (metrics_histo n h ls k r) n' ls' = gauge_value r n' ls'"
  by (simp_all add: gauge_value_def metrics_counter_def metrics_histo_def Let_def)

lemma counter_total_other [simp]:
  "counter_total (metrics_gauge n h ls g r) n' ls' = counter_total r n' ls'"
  "counter_total (metrics_histo n h ls k r) n' ls' = counter_total r n' ls'"
  by (simp_all add: counter_total_def counter_value_def metrics_gauge_def metrics_histo_def Let_def)

lemma on_request_gauge:
  "gauge_value (on_request r e) ''rpc_concurrency'' [(''method'', m)] =
    gauge_value r ''rpc_concurrency'' [(''method'', m)] + (case e of Started m' \<Rightarrow> of_bool (m' = m) | Ended m' _ _ \<Rightarrow> - of_bool (m' = m))"
proof -
  have i: "mg_value (gauge_inc g) = mg_value g + 1" and d: "mg_value (gauge_dec g) = mg_value g + (- 1)" for g :: mgauge
    by (simp_all add: gauge_inc_def gauge_dec_def)
  show ?thesis
    by (cases e) (auto simp: onRequestStart_def onRequestEnd_def Let_def gauge_value_change [OF i] gauge_value_change [OF d] method_labels_eq)
qed

lemma on_request_total:
  "counter_total (on_request r e) ''rpc_requests_total'' [(''method'', m)] =
    counter_total r ''rpc_requests_total'' [(''method'', m)] + (case e of Started _ \<Rightarrow> 0 | Ended m' _ _ \<Rightarrow> of_bool (m' = m))"
  by (cases e) (auto simp: onRequestStart_def onRequestEnd_def Let_def counter_total_inc method_labels_eq)

text \<open>
  Remark. For each method the exported gauge is the number of requests in flight and the exported
  counter the number of finished ones, whatever the other methods do and however starts and ends interleave.
\<close>

theorem in_flight_exact:
  "gauge_value (foldl on_request new_metrics es) ''rpc_concurrency'' [(''method'', m)] = real (starts m es) - real (ends m es)
   \<and> counter_total (foldl on_request new_metrics es) ''rpc_requests_total'' [(''method'', m)] = of_nat (ends m es)"
proof (induction es rule: rev_induct)
  case Nil
  show ?case by (simp add: gauge_value_def counter_total_def counter_value_def new_metrics_def starts_def ends_def)
next
  case (snoc e es)
  have "starts m (es @ [e]) = starts m es + of_bool (e = Started m)"
    "ends m (es @ [e]) = ends m es + (case e of Started _ \<Rightarrow> 0 | Ended m' _ _ \<Rightarrow> of_bool (m' = m))"
    by (auto simp: starts_def ends_def split: request_event.split)
  then show ?case using snoc on_request_gauge [of "foldl on_request new_metrics es" e m] on_request_total [of "foldl on_request new_metrics es" e m]
    by (simp split: request_event.splits)
qed

subsection \<open>Whole numbers are printed as they are\<close>

lemma dec_nat_bounds: "0 < n \<Longrightarrow> 10 ^ (length (dec_nat n) - 1) \<le> n \<and> n < 10 ^ length (dec_nat n)"
proof (induction n rule: dec_nat.induct)
  case (1 n)
  show ?case
  proof (cases "n < 10")
    case True
    then show ?thesis using 1(2) by (subst (1 2) dec_nat.simps) simp
  next
    case False
    let ?d = "dec_nat (n div 10)"
    have l: "length (dec_nat n) = Suc (length ?d)" by (subst dec_nat.simps) (simp add: False)
    have IH: "10 ^ (length ?d - 1) \<le> n div 10" "n div 10 < 10 ^ length ?d" using 1(1) False by auto
    obtain k where k: "length ?d = Suc k" using dec_nat_nonempty [of "n div 10"] by (cases "length ?d") auto
    show ?thesis using IH div_mult_mod_eq [of n 10] mod_less_divisor [of 10 n] unfolding l k by simp linarith
  qed
qed

lemma digit_char_0: "digit_char 0 = CHR ''0''"
  unfolding digit_char_def by code_simp

lemma dec_nat_shift: "0 < n \<Longrightarrow> dec_nat (n * 10 ^ k) = dec_nat n @ replicate k (CHR ''0'')"
proof (induction k)
  case (Suc k)
  have "\<not> n * 10 ^ Suc k < 10" using Suc.prems by simp
  then have "dec_nat (n * 10 ^ Suc k) = dec_nat (n * 10 ^ k) @ [digit_char 0]"
    by (subst dec_nat.simps) simp
  then show ?case using Suc by (simp add: digit_char_0 flip: replicate_append_same)
qed simp

lemma strip_zeros_replicate: "strip_zeros (replicate k (CHR ''0'')) = []"
  by (simp add: strip_zeros_def)

lemma print_whole:
  assumes "n < 10 ^ p"
  shows "print_double p (real n) = dec_nat n"
proof (cases "n = 0")
  case True
  then show ?thesis by (simp add: print_double_def dec_nat.simps digit_char_0)
next
  case False
  then have n: "0 < n" by simp
  obtain e where e: "length (dec_nat n) = Suc e" using dec_nat_nonempty [of n] by (cases "length (dec_nat n)") auto
  have b: "10 ^ e \<le> n" "n < 10 ^ Suc e" using dec_nat_bounds [OF n] e by simp_all
  have fl: "\<lfloor>log 10 (real n)\<rfloor> = int e" using floor_log_nat_eq_powr_iff [of 10 n e] b n by simp
  have ep: "e < p" using power_less_imp_less_exp [of "10::nat" e p] le_less_trans [OF b(1) assms] by simp
  define k where "k = p - 1 - e"
  have pw: "real n * 10 powr (of_int (int p - 1 - int e)) = real (n * 10 ^ k)"
  proof -
    have "of_int (int p - 1 - int e) = real k" using ep by (simp add: k_def)
    then show ?thesis by (simp add: powr_realpow)
  qed
  have re: "round_even (real m) = m" for m :: nat by (simp add: round_even_def)
  have m: "n * 10 ^ k < 10 ^ p"
  proof -
    have "n * 10 ^ k < 10 ^ Suc e * 10 ^ k" using b(2) by simp
    also have "\<dots> = 10 ^ p" using ep by (simp add: k_def flip: power_add power_Suc)
    finally show ?thesis .
  qed
  have "print_pos p (real n) = with_point (take (Suc e) (dec_nat (n * 10 ^ k))) (drop (Suc e) (dec_nat (n * 10 ^ k)))"
    using m ep unfolding print_pos_def Let_def fl pw re by simp
  also have "\<dots> = dec_nat n" using e by (simp add: dec_nat_shift [OF n] with_point_def strip_zeros_replicate)
  finally show ?thesis using n by (simp add: print_double_def)
qed

end
