(* ===== verification/Http_Server.thy ===== *)
theory Http_Server
  imports Metrics
begin

text \<open>
  The HTTP server of \<open>gateway/src/http_server.hpp\<close>: its request parser over the bytes of a
  connection and the response it writes. A \<open>std::map\<close> of headers is a list sorted by key. What arrives
  on the connection is a list of pieces, one for each call of the message callback.
\<close>

subsection \<open>Requests and responses\<close>

record http_req =
  hq_method :: string
  hq_path :: string
  hq_headers :: "(string \<times> string) list"
  hq_body :: string

record http_resp =
  hr_status :: int
  hr_status_msg :: string
  hr_headers :: "(string \<times> string) list"
  hr_body :: string

definition new_http_resp :: http_resp where
  "new_http_resp = \<lparr>hr_status = 200, hr_status_msg = [], hr_headers = [], hr_body = []\<rparr>"

text \<open>\<open>headers[key] = value\<close>\<close>

fun header_put :: "string \<Rightarrow> string \<Rightarrow> (string \<times> string) list \<Rightarrow> (string \<times> string) list" where
  "header_put k v [] = [(k, v)]"
| "header_put k v ((k', v') # hs) =
     (if k = k' then (k, v) # hs else if bytes_less k k' then (k, v) # (k', v') # hs else (k', v') # header_put k v hs)"

definition setContentType :: "http_resp \<Rightarrow> string \<Rightarrow> http_resp" where
  "setContentType resp t = resp\<lparr>hr_headers := header_put ''Content-Type'' t (hr_headers resp)\<rparr>"

definition setBody :: "http_resp \<Rightarrow> string \<Rightarrow> http_resp" where
  "setBody resp b = resp\<lparr>hr_body := b\<rparr>"

subsection \<open>The parser\<close>

definition crlf :: string where
  "crlf = http_crlf"

definition findCRLF :: "string \<Rightarrow> nat option" where
  "findCRLF buf = find_sub crlf buf"

text \<open>Comparison without case of two C strings.\<close>

definition lower_char :: "char \<Rightarrow> char" where
  "lower_char c = (if (65::nat) \<le> of_char c \<and> (of_char c :: nat) \<le> 90 then char_of (of_char c + 32 :: nat) else c)"

definition c_str :: "string \<Rightarrow> string" where
  "c_str s = takeWhile (\<lambda>c. c \<noteq> CHR 0x00) s"

definition same_nocase :: "string \<Rightarrow> string \<Rightarrow> bool" where
  "same_nocase s t \<longleftrightarrow> map lower_char (c_str s) = map lower_char (c_str t)"

text \<open>Method and path of a request line with at least two spaces.\<close>

definition request_line :: "string \<Rightarrow> (string \<times> string) option" where
  "request_line l =
     (let m = takeWhile (\<lambda>c. c \<noteq> CHR '' '') l; r = drop (length m + 1) l in
      if CHR '' '' \<notin> set l \<or> CHR '' '' \<notin> set r then None else Some (m, takeWhile (\<lambda>c. c \<noteq> CHR '' '') r))"

datatype header_end = HeadersIncomplete | HeadersThrow | HeadersDone "(string \<times> string) list" int

text \<open>One header line: skipped without a colon; a length that is no number throws.\<close>

definition header_line :: "string \<Rightarrow> (string \<times> string) list \<Rightarrow> int \<Rightarrow> ((string \<times> string) list \<times> int) option" where
  "header_line l hs cl =
     (if CHR '':'' \<notin> set l then Some (hs, cl)
      else let k = takeWhile (\<lambda>c. c \<noteq> CHR '':'') l; v = dropWhile (\<lambda>c. c = CHR '' '') (drop (length k + 1) l); hs' = header_put k v hs in
        if same_nocase k ''Content-Length'' then map_option (\<lambda>n. (hs', n)) (stoi v) else Some (hs', cl))"

function http_headers :: "string \<Rightarrow> (string \<times> string) list \<Rightarrow> int \<Rightarrow> string \<times> header_end" where
  "http_headers buf hs cl =
     (case findCRLF buf of
        None \<Rightarrow> (buf, HeadersIncomplete)
      | Some len \<Rightarrow>
          if len = 0 then (drop 2 buf, HeadersDone hs cl)
          else (case header_line (take len buf) hs cl of
                  None \<Rightarrow> (drop (len + 2) buf, HeadersThrow)
                | Some (hs', cl') \<Rightarrow> http_headers (drop (len + 2) buf) hs' cl'))"
  by auto

lemma find_sub_room: "find_sub pat s = Some n \<Longrightarrow> n + length pat \<le> length s"
  by (induction pat s arbitrary: n rule: find_sub.induct) (auto split: if_splits simp: take_eq_Nil dest: arg_cong [where f = length])

termination http_headers
  by (relation "measure (\<lambda>(buf, hs, cl). length buf)")
    (auto simp: findCRLF_def crlf_def http_crlf_def dest!: find_sub_room)

declare http_headers.simps [simp del]

datatype http_event = Waiting | ShutDown | Throws | HttpRequest http_req

definition MAX_BODY :: int where
  "MAX_BODY = 10 * 1024 * 1024"

text \<open>One call of the message callback with all bytes that are there; the bytes that stay, and what happened.\<close>

definition http_onMessage :: "string \<Rightarrow> string \<times> http_event" where
  "http_onMessage buf =
     (case findCRLF buf of
        None \<Rightarrow> (buf, Waiting)
      | Some len \<Rightarrow>
          (let buf1 = drop (len + 2) buf in
           case request_line (take len buf) of
             None \<Rightarrow> (buf1, ShutDown)
           | Some (m, p) \<Rightarrow>
               (case http_headers buf1 [] 0 of
                  (buf2, HeadersIncomplete) \<Rightarrow> (buf2, Waiting)
                | (buf2, HeadersThrow) \<Rightarrow> (buf2, Throws)
                | (buf2, HeadersDone hs cl) \<Rightarrow>
                    if cl > 0 then
                      if cl > MAX_BODY then (buf2, ShutDown)
                      else if int (length buf2) < cl then (buf2, Waiting)
                      else (drop (nat cl) buf2, HttpRequest \<lparr>hq_method = m, hq_path = p, hq_headers = hs, hq_body = take (nat cl) buf2\<rparr>)
                    else (buf2, HttpRequest \<lparr>hq_method = m, hq_path = p, hq_headers = hs, hq_body = []\<rparr>))))"

text \<open>The bytes arrive in pieces.\<close>

fun http_receive :: "string \<Rightarrow> string list \<Rightarrow> string \<times> http_event list" where
  "http_receive buf [] = (buf, [])"
| "http_receive buf (p # ps) =
     (let (buf1, e) = http_onMessage (buf @ p); (buf2, es) = http_receive buf1 ps in (buf2, e # es))"

subsection \<open>Responses\<close>

definition statusMsg :: "int \<Rightarrow> string" where
  "statusMsg code =
     (if code = 200 then ''OK'' else if code = 400 then ''Bad Request'' else if code = 404 then ''Not Found''
      else if code = 429 then ''Too Many Requests'' else if code = 500 then ''Internal Server Error''
      else if code = 502 then ''Bad Gateway'' else if code = 503 then ''Service Unavailable'' else ''Unknown'')"

definition sendResponse :: "http_resp \<Rightarrow> string" where
  "sendResponse resp =
     ''HTTP/1.1 '' @ to_string (hr_status resp) @ '' '' @
     (if hr_status_msg resp = [] then statusMsg (hr_status resp) else hr_status_msg resp) @ crlf @
     concat (map (\<lambda>(k, v). k @ '': '' @ v @ crlf) (hr_headers resp)) @
     ''Content-Length: '' @ to_string (int (length (hr_body resp))) @ crlf @ ''Connection: close'' @ crlf @ crlf @ hr_body resp"

text \<open>The response to a request; the callback fills it in.\<close>

definition http_respond :: "('s \<Rightarrow> http_req \<Rightarrow> http_resp \<Rightarrow> 's \<times> http_resp) option \<Rightarrow> 's \<Rightarrow> http_req \<Rightarrow> 's \<times> string" where
  "http_respond cb s req =
     (let resp = setContentType new_http_resp ''application/json'';
          (s', resp') = (case cb of None \<Rightarrow> (s, resp) | Some f \<Rightarrow> f s req resp) in (s', sendResponse resp'))"

subsection \<open>What the parser reads\<close>

definition header_text :: "string \<times> string \<Rightarrow> string" where
  "header_text kv = fst kv @ '': '' @ snd kv @ crlf"

definition request_head :: "string \<Rightarrow> string \<Rightarrow> (string \<times> string) list \<Rightarrow> string" where
  "request_head m p hs = m @ '' '' @ p @ '' HTTP/1.1'' @ crlf @ concat (map header_text hs) @ crlf"

definition plain_word :: "string \<Rightarrow> bool" where
  "plain_word s \<longleftrightarrow> CHR '' '' \<notin> set s \<and> CHR 0x0D \<notin> set s"

definition plain_header :: "string \<times> string \<Rightarrow> bool" where
  "plain_header kv \<longleftrightarrow> CHR '':'' \<notin> set (fst kv) \<and> CHR 0x0D \<notin> set (fst kv) \<and> CHR 0x0D \<notin> set (snd kv)
     \<and> (snd kv = [] \<or> hd (snd kv) \<noteq> CHR '' '')"

text \<open>The headers give the length of the body once, or not at all for an empty body.\<close>

definition length_given :: "(string \<times> string) list \<Rightarrow> string \<Rightarrow> bool" where
  "length_given hs body \<longleftrightarrow>
     (let ls = filter (\<lambda>kv. same_nocase (fst kv) ''Content-Length'') hs in
      ls = [] \<and> body = [] \<or> (\<exists>k. ls = [(k, to_string (int (length body)))]))"

lemma find_crlf: "CHR 0x0D \<notin> set l \<Longrightarrow> findCRLF (l @ crlf @ r) = Some (length l)"
  by (induction l) (auto simp: findCRLF_def crlf_def http_crlf_def)

lemma find_no_crlf: "CHR 0x0D \<notin> set l \<Longrightarrow> findCRLF l = None"
  by (induction l) (auto simp: findCRLF_def crlf_def http_crlf_def)

lemma cut_line: "take (length l) (l @ crlf @ r) = l" "drop (length l + 2) (l @ crlf @ r) = r"
  by (simp_all add: crlf_def http_crlf_def)

lemma line_read: "plain_word m \<Longrightarrow> plain_word p \<Longrightarrow> request_line (m @ '' '' @ p @ '' HTTP/1.1'') = Some (m, p)"
  by (simp add: request_line_def plain_word_def takeWhile_sep)

lemma header_read:
  assumes "plain_header (k, v)" "same_nocase k ''Content-Length'' \<longrightarrow> stoi v \<noteq> None"
  shows "header_line (k @ '': '' @ v) hs cl = Some (header_put k v hs, if same_nocase k ''Content-Length'' then the (stoi v) else cl)"
proof -
  have k: "takeWhile (\<lambda>c. c \<noteq> CHR '':'') (k @ '': '' @ v) = k" using assms(1) takeWhile_sep [of "CHR '':''" k] by (simp add: plain_header_def)
  have "dropWhile (\<lambda>c. c = CHR '' '') v = v" using assms(1) by (cases v) (auto simp: plain_header_def)
  then have "dropWhile (\<lambda>c. c = CHR '' '') (drop (length k + 1) (k @ '': '' @ v)) = v" by simp
  then show ?thesis using assms(2) k by (auto simp: header_line_def Let_def)
qed

definition put_all :: "(string \<times> string) list \<Rightarrow> (string \<times> string) list \<Rightarrow> (string \<times> string) list" where
  "put_all hs acc = fold (\<lambda>kv. header_put (fst kv) (snd kv)) hs acc"

fun last_length :: "(string \<times> string) list \<Rightarrow> int \<Rightarrow> int" where
  "last_length [] cl = cl"
| "last_length (kv # hs) cl = last_length hs (if same_nocase (fst kv) ''Content-Length'' then the (stoi (snd kv)) else cl)"

lemma headers_read:
  assumes "\<forall>kv \<in> set hs. plain_header kv \<and> (same_nocase (fst kv) ''Content-Length'' \<longrightarrow> stoi (snd kv) \<noteq> None)"
  shows "http_headers (concat (map header_text hs) @ crlf @ rest) acc cl = (rest, HeadersDone (put_all hs acc) (last_length hs cl))"
  using assms
proof (induction hs arbitrary: acc cl)
  case Nil
  have "findCRLF (crlf @ rest) = Some 0" using find_crlf [of "[]" rest] by simp
  then show ?case by (simp add: http_headers.simps crlf_def http_crlf_def put_all_def)
next
  case (Cons kv hs)
  let ?l = "fst kv @ '': '' @ snd kv" and ?r = "concat (map header_text hs) @ crlf @ rest"
  have buf: "concat (map header_text (kv # hs)) @ crlf @ rest = ?l @ crlf @ ?r" by (simp add: header_text_def)
  have f: "findCRLF (?l @ crlf @ ?r) = Some (length ?l)" by (rule find_crlf) (use Cons.prems in \<open>simp add: plain_header_def\<close>)
  have d: "take (length ?l) (?l @ crlf @ ?r) = ?l" "drop (length ?l + 2) (?l @ crlf @ ?r) = ?r" by (rule cut_line)+
  have h: "header_line ?l acc cl = Some (header_put (fst kv) (snd kv) acc, if same_nocase (fst kv) ''Content-Length'' then the (stoi (snd kv)) else cl)"
    by (rule header_read) (use Cons.prems in simp_all)
  have "http_headers (?l @ crlf @ ?r) acc cl = http_headers ?r (header_put (fst kv) (snd kv) acc) (if same_nocase (fst kv) ''Content-Length'' then the (stoi (snd kv)) else cl)"
    unfolding http_headers.simps [of "?l @ crlf @ ?r"] f option.case d h by simp
  then show ?case unfolding buf using Cons by (simp add: put_all_def)
qed

lemma last_length_filter: "last_length hs cl = last_length (filter (\<lambda>kv. same_nocase (fst kv) ''Content-Length'') hs) cl"
  by (induction hs arbitrary: cl) simp_all

lemma length_read:
  assumes "length_given hs body" "int (length body) \<le> MAX_BODY"
  shows "last_length hs 0 = int (length body)" "\<forall>kv \<in> set hs. same_nocase (fst kv) ''Content-Length'' \<longrightarrow> stoi (snd kv) \<noteq> None"
proof -
  have s: "stoi (to_string (int (length body))) = Some (int (length body))"
    unfolding stoi_def by (rule sto_to_string) (use assms(2) in \<open>auto simp: MAX_BODY_def\<close>)
  let ?ls = "filter (\<lambda>kv. same_nocase (fst kv) ''Content-Length'') hs"
  have ls: "?ls = [] \<and> body = [] \<or> (\<exists>k. ?ls = [(k, to_string (int (length body)))])" using assms(1) by (simp add: length_given_def Let_def)
  show "last_length hs 0 = int (length body)"
    using ls
  proof (elim disjE conjE exE)
    assume "?ls = []" "body = []"
    then show ?thesis by (simp add: last_length_filter [of hs])
  next
    fix k assume l: "?ls = [(k, to_string (int (length body)))]"
    then have "(k, to_string (int (length body))) \<in> set ?ls" by simp
    then have "same_nocase k ''Content-Length''" by simp
    then show ?thesis unfolding last_length_filter [of hs] l by (simp add: s)
  qed
  show "\<forall>kv \<in> set hs. same_nocase (fst kv) ''Content-Length'' \<longrightarrow> stoi (snd kv) \<noteq> None"
  proof (intro ballI impI)
    fix kv assume "kv \<in> set hs" "same_nocase (fst kv) ''Content-Length''"
    then have i: "kv \<in> set ?ls" by simp
    then have "?ls \<noteq> []" by (metis empty_iff list.set(1))
    then obtain k where "?ls = [(k, to_string (int (length body)))]" using ls by blast
    then have "kv = (k, to_string (int (length body)))" using i by (metis empty_iff insert_iff list.set)
    then show "stoi (snd kv) \<noteq> None" by (simp add: s)
  qed
qed

text \<open>After a complete head with the body not yet read.\<close>

lemma head_read:
  assumes "plain_word m" "plain_word p" "list_all plain_header hs" "length_given hs body" "int (length body) \<le> MAX_BODY"
  shows "http_onMessage (request_head m p hs @ r) =
    (if int (length r) < int (length body) then (r, Waiting)
     else (drop (length body) r, HttpRequest \<lparr>hq_method = m, hq_path = p, hq_headers = put_all hs [], hq_body = take (length body) r\<rparr>))"
proof -
  let ?l = "m @ '' '' @ p @ '' HTTP/1.1''" and ?r = "concat (map header_text hs) @ crlf @ r"
  have buf: "request_head m p hs @ r = ?l @ crlf @ ?r" by (simp add: request_head_def)
  have f: "findCRLF (?l @ crlf @ ?r) = Some (length ?l)" by (rule find_crlf) (use assms(1,2) in \<open>simp add: plain_word_def\<close>)
  have d: "take (length ?l) (?l @ crlf @ ?r) = ?l" "drop (length ?l + 2) (?l @ crlf @ ?r) = ?r" by (rule cut_line)+
  have h: "http_headers ?r [] 0 = (r, HeadersDone (put_all hs []) (int (length body)))"
    using headers_read [of hs r "[]" 0] assms(3) length_read [OF assms(4,5)] by (auto simp: list_all_iff)
  show ?thesis
    unfolding buf http_onMessage_def f option.case d Let_def line_read [OF assms(1,2)] prod.case h header_end.case
    using assms(5) by (cases "body = []") auto
qed

text \<open>
  Property C15. A request that has arrived is read as it was sent: for any method, path,
  headers and body, the parser gives exactly these and leaves exactly the bytes that follow.
\<close>

theorem http_request_read:
  assumes "plain_word m" "plain_word p" "list_all plain_header hs" "length_given hs body" "int (length body) \<le> MAX_BODY"
  shows "http_onMessage (request_head m p hs @ body @ rest) =
    (rest, HttpRequest \<lparr>hq_method = m, hq_path = p, hq_headers = put_all hs [], hq_body = body\<rparr>)"
  using head_read [OF assms, of "body @ rest"] by simp

text \<open>
  Remark. The comments of \<open>http_server.hpp\<close> (lines 91 and 166) say that parsing goes on where it stopped
  when more data arrives, but a request whose body arrives later than its head is never answered: the
  parser has taken the head out of the buffer when it finds that the body is not complete, so the
  rest is read as a new request line. When the body comes in any number of pieces without a line break, the
  server waits forever and keeps the body in its buffer.
\<close>

theorem http_late_body_lost:
  assumes "plain_word m" "plain_word p" "list_all plain_header hs" "length_given hs body" "int (length body) \<le> MAX_BODY"
    and "body = b @ concat ps" "length b < length body" "CHR 0x0D \<notin> set body"
  shows "http_receive [] ((request_head m p hs @ b) # ps) = (body, replicate (Suc (length ps)) Waiting)"
proof -
  have "http_onMessage x = (x, Waiting)" if "CHR 0x0D \<notin> set x" for x
    using find_no_crlf [OF that] by (simp add: http_onMessage_def)
  then have "http_receive x ps = (x @ concat ps, replicate (length ps) Waiting)" if "CHR 0x0D \<notin> set (x @ concat ps)" for x
    using that by (induction ps arbitrary: x) auto
  then show ?thesis using head_read [OF assms(1-5), of b] assms(6-8) by simp
qed

lemma header_facts:
  "same_nocase ''content-length'' ''Content-Length''" "\<not> same_nocase ''Host'' ''Content-Length''" "to_string 2 = ''2''"
  by code_simp+

theorem http_request_read_witness:
  "http_onMessage (request_head ''POST'' ''/api/add'' [(''Host'', ''x''), (''content-length'', ''2'')] @ ''{}'' @ ''next'') =
    (''next'', HttpRequest \<lparr>hq_method = ''POST'', hq_path = ''/api/add'', hq_headers = put_all [(''Host'', ''x''), (''content-length'', ''2'')] [], hq_body = ''{}''\<rparr>)"
  by (rule http_request_read) (simp_all add: plain_word_def plain_header_def length_given_def Let_def header_facts MAX_BODY_def)

theorem http_late_body_lost_witness:
  "http_receive [] [request_head ''POST'' ''/api/add'' [(''content-length'', ''2'')], ''{'', ''}''] = (''{}'', replicate 3 Waiting)"
proof -
  have "http_receive [] ((request_head ''POST'' ''/api/add'' [(''content-length'', ''2'')] @ []) # [''{'', ''}'']) = (''{}'', replicate (Suc (length [''{'', ''}''])) Waiting)"
    by (rule http_late_body_lost)
      (simp_all add: plain_word_def plain_header_def length_given_def Let_def header_facts MAX_BODY_def)
  then show ?thesis by (simp add: numeral_3_eq_3)
qed

end
