(* ===== verification/Http_Gateway.thy ===== *)
theory Http_Gateway
  imports Http_Server Rate_Limiter
begin

text \<open>
  The gateway: the route table of \<open>http_router.hpp\<close>, the handlers of \<open>gateway_handler.hpp\<close> and
  \<open>diagnose_handler.hpp\<close>, and the callback of \<open>example/gateway_server.cc\<close> that joins them with the rate
  limiter and the metrics. The conversions between JSON and Protobuf, the call to the back end and the clock
  are arguments.
\<close>

subsection \<open>Routes\<close>

record 'h route_rule =
  ru_method :: string
  ru_path :: string
  ru_is_prefix :: bool
  ru_handler :: 'h

record 'h http_router =
  ro_exact :: "(string \<times> 'h) list"
  ro_prefix :: "'h route_rule list"

definition new_http_router :: "'h http_router" where
  "new_http_router = \<lparr>ro_exact = [], ro_prefix = []\<rparr>"

definition route_key :: "string \<Rightarrow> string \<Rightarrow> string" where
  "route_key m p = m @ '' '' @ p"

definition addRoute :: "'h http_router \<Rightarrow> string \<Rightarrow> string \<Rightarrow> 'h \<Rightarrow> 'h http_router" where
  "addRoute r m p h = r\<lparr>ro_exact := AList.update (route_key m p) h (ro_exact r)\<rparr>"

definition addPrefixRoute :: "'h http_router \<Rightarrow> string \<Rightarrow> string \<Rightarrow> 'h \<Rightarrow> 'h http_router" where
  "addPrefixRoute r m p h = r\<lparr>ro_prefix := ro_prefix r @ [\<lparr>ru_method = m, ru_path = p, ru_is_prefix = True, ru_handler = h\<rparr>]\<rparr>"

definition dispatch :: "'h http_router \<Rightarrow> string \<Rightarrow> string \<Rightarrow> 'h option" where
  "dispatch r m p =
     (case map_of (ro_exact r) (route_key m p) of
        Some h \<Rightarrow> Some h
      | None \<Rightarrow> map_option ru_handler
          (List.find (\<lambda>u. ru_method u = m \<and> length (ru_path u) \<le> length p \<and> take (length (ru_path u)) p = ru_path u) (ro_prefix r)))"

subsection \<open>Handlers\<close>

definition quote :: string where
  "quote = [CHR 0x22]"

text \<open>
  What the handlers share: the limiter, the metrics and the client \<open>'c\<close> of the back end. The call to the back end
  changes the client; \<open>of_json\<close> is a message or the reason why there is none.
\<close>

record 'c gateway =
  gw_limiter :: token_bucket
  gw_metrics :: metric_registry
  gw_client :: 'c

type_synonym 'c route_handler = "'c gateway \<Rightarrow> http_req \<Rightarrow> http_resp \<Rightarrow> 'c gateway \<times> http_resp"

definition handleEcho :: "(string \<Rightarrow> string + 'q) \<Rightarrow> ('c \<Rightarrow> string \<Rightarrow> 'q \<Rightarrow> 'c \<times> 'r option) \<Rightarrow> ('r \<Rightarrow> string) \<Rightarrow> 'c route_handler" where
  "handleEcho of_json call to_json g req resp =
     (case of_json (hq_body req) of
        Inl reason \<Rightarrow> (g, setBody (resp\<lparr>hr_status := 400\<rparr>)
          (''{'' @ quote @ ''error'' @ quote @ '':'' @ quote @ ''invalid JSON: '' @ quote @ reason @ quote @ ''}''))
      | Inr q \<Rightarrow>
          (case call (gw_client g) ''echo'' q of
             (c', Some r) \<Rightarrow> (g\<lparr>gw_client := c'\<rparr>, setBody resp (to_json r))
           | (c', None) \<Rightarrow> (g\<lparr>gw_client := c'\<rparr>, setBody (resp\<lparr>hr_status := 502\<rparr>)
               (''{'' @ quote @ ''error'' @ quote @ '':'' @ quote @ ''backend call failed'' @ quote @ '','' @ quote @ ''method'' @ quote @ '':'' @ quote @ ''echo'' @ quote @ ''}''))))"

definition handleAdd :: "(string \<Rightarrow> string + 'q) \<Rightarrow> ('c \<Rightarrow> string \<Rightarrow> 'q \<Rightarrow> 'c \<times> 'r option) \<Rightarrow> ('r \<Rightarrow> string) \<Rightarrow> 'c route_handler" where
  "handleAdd of_json call to_json g req resp =
     (case of_json (hq_body req) of
        Inl reason \<Rightarrow> (g, setBody (resp\<lparr>hr_status := 400\<rparr>) (''{'' @ quote @ ''error'' @ quote @ '':'' @ quote @ ''invalid JSON'' @ quote @ ''}''))
      | Inr q \<Rightarrow>
          (case call (gw_client g) ''add'' q of
             (c', Some r) \<Rightarrow> (g\<lparr>gw_client := c'\<rparr>, setBody resp (to_json r))
           | (c', None) \<Rightarrow> (g\<lparr>gw_client := c'\<rparr>, setBody (resp\<lparr>hr_status := 502\<rparr>)
               (''{'' @ quote @ ''error'' @ quote @ '':'' @ quote @ ''backend call failed'' @ quote @ '','' @ quote @ ''method'' @ quote @ '':'' @ quote @ ''add'' @ quote @ ''}''))))"

definition handleHealth :: "'c route_handler" where
  "handleHealth g req resp = (g, setBody resp (''{'' @ quote @ ''status'' @ quote @ '':'' @ quote @ ''ok'' @ quote @ ''}''))"

subsection \<open>The diagnosis\<close>

definition diag_search :: string where
  "diag_search = ''circuit_breaker_state{''"

text \<open>The exported text from each place where the searched name stands to the end of its line.\<close>

function diag_lines :: "string \<Rightarrow> string list" where
  "diag_lines body =
     (case find_sub diag_search body of
        None \<Rightarrow> []
      | Some pos \<Rightarrow>
          (let l = drop pos body; line = takeWhile (\<lambda>c. c \<noteq> CHR 0x0A) l in
           if CHR 0x0A \<notin> set l then [] else line # diag_lines (drop (length line + 1) l)))"
  by auto

termination diag_lines
proof (relation "measure length", goal_cases)
  case (2 body pos l line)
  then have "l \<noteq> []" by auto
  then show ?case using 2 by simp
qed simp

declare diag_lines.simps [simp del]

definition until_quote :: "string \<Rightarrow> string" where
  "until_quote s = takeWhile (\<lambda>c. c \<noteq> CHR 0x22) s"

definition breaker_json :: "string \<Rightarrow> string \<Rightarrow> string \<Rightarrow> string" where
  "breaker_json method host state =
     ''{'' @ quote @ ''method'' @ quote @ '':'' @ quote @ method @ quote @ '','' @ quote @ ''host'' @ quote @ '':'' @ quote @ host @ quote @ '','' @
     quote @ ''state'' @ quote @ '':'' @ state @ ''}''"

definition diag_entry :: "string \<Rightarrow> string" where
  "diag_entry line =
     (case (find_sub (''method='' @ quote) line, find_sub (''host='' @ quote) line) of
        (Some m, Some h) \<Rightarrow>
          breaker_json (until_quote (drop (m + 8) line)) (until_quote (drop (h + 6) line))
            (case rfind (CHR '' '') line of Some sp \<Rightarrow> drop (sp + 1) line | None \<Rightarrow> ''?'')
      | _ \<Rightarrow> [])"

definition diag_breakers :: "metric_registry \<Rightarrow> string" where
  "diag_breakers r = commas (map diag_entry (diag_lines (exportText r)))"

definition handleDiagnose :: "'c route_handler" where
  "handleDiagnose g req resp =
     (let r = metrics_gauge ''token_bucket_available'' ''Token bucket available tokens'' [(''service'', ''default'')] id (gw_metrics g);
          tokens = (case map_of (mr_gauges r) (''token_bucket_available'' @ formatLabels [(''service'', ''default'')]) of Some x \<Rightarrow> mg_value x | None \<Rightarrow> 0) in
      (g\<lparr>gw_metrics := r\<rparr>,
       setBody resp
         (''{'' @ quote @ ''rate_limiter'' @ quote @ '':{'' @ quote @ ''tokens'' @ quote @ '':'' @ print_double 6 tokens @ '','' @
          quote @ ''rate'' @ quote @ '':'' @ print_double 6 (tb_rate (gw_limiter g)) @ '','' @
          quote @ ''burst'' @ quote @ '':'' @ print_double 6 (tb_burst (gw_limiter g)) @ ''},'' @
          quote @ ''circuit_breakers'' @ quote @ '':['' @ diag_breakers r @ '']'' @ ''}'')))"

subsection \<open>The gateway\<close>

text \<open>\<open>allow\<close> with what it reports.\<close>

definition gw_allow :: "real \<Rightarrow> 'c gateway \<Rightarrow> 'c gateway \<times> bool" where
  "gw_allow now g =
     (let (b, ok) = allow (gw_limiter g) now;
          r = onTokenBucket ''default'' (tb_tokens b) (gw_metrics g) in
      (g\<lparr>gw_limiter := b, gw_metrics := (if ok then r else onRateLimited ''default'' r)\<rparr>, ok))"

definition gw_count_error :: "string \<Rightarrow> string \<Rightarrow> (mcounter \<Rightarrow> mcounter) \<Rightarrow> metric_registry \<Rightarrow> metric_registry" where
  "gw_count_error path code f r = metrics_counter ''gateway_errors_total'' ''Gateway error count'' [(''path'', path), (''code'', code)] f r"

definition gateway_callback :: "'c route_handler http_router \<Rightarrow> real \<Rightarrow> real \<Rightarrow> 'c route_handler" where
  "gateway_callback router now lat_us g req resp =
     (let (g1, ok) = gw_allow now g in
      if \<not> ok then
        (g1\<lparr>gw_metrics := gw_count_error (hq_path req) ''429'' counter_inc (gw_metrics g1)\<rparr>,
         setBody (resp\<lparr>hr_status := 429\<rparr>)
          (''{'' @ quote @ ''error'' @ quote @ '':'' @ quote @ ''rate limited'' @ quote @ '','' @ quote @ ''retry_after_ms'' @ quote @ '':'' @
           to_string (retryAfterMs (gw_limiter g1)) @ ''}''))
      else case dispatch router (hq_method req) (hq_path req) of
        None \<Rightarrow>
          (g1, setBody (resp\<lparr>hr_status := 404\<rparr>)
            (''{'' @ quote @ ''error'' @ quote @ '':'' @ quote @ ''not found'' @ quote @ '','' @ quote @ ''path'' @ quote @ '':'' @ quote @ hq_path req @ quote @ ''}''))
      | Some h \<Rightarrow>
          (let (g2, resp') = h g1 req resp;
               ls = [(''path'', hq_path req), (''method'', hq_method req)];
               r1 = metrics_counter ''gateway_requests_total'' ''Gateway total requests'' ls counter_inc (gw_metrics g2);
               r2 = metrics_histo ''gateway_request_duration_us'' ''Gateway request latency in us'' ls (observe lat_us) r1;
               r3 = (if hr_status resp' \<ge> 400 then gw_count_error (hq_path req) (to_string (hr_status resp')) counter_inc r2 else r2) in
           (g2\<lparr>gw_metrics := r3\<rparr>, resp')))"

text \<open>The state and the routes that \<open>main\<close> builds; the three strings are the build information.\<close>

definition gateway_metrics :: "string \<Rightarrow> string \<Rightarrow> string \<Rightarrow> metric_registry" where
  "gateway_metrics version commit build_time =
     fold (\<lambda>path. fold (\<lambda>code. gw_count_error path code id) [''429'', ''502'', ''500'']) [''/api/echo'', ''/api/health'']
       (buildInfo version commit build_time (onServerStart 4 new_metrics))"

definition new_gateway :: "string \<Rightarrow> string \<Rightarrow> string \<Rightarrow> 'c \<Rightarrow> real \<Rightarrow> 'c gateway" where
  "new_gateway version commit build_time client now =
     \<lparr>gw_limiter = TokenBucket 1000 2000 now, gw_metrics = gateway_metrics version commit build_time, gw_client = client\<rparr>"

definition gateway_routes ::
  "'c route_handler \<Rightarrow> 'c route_handler \<Rightarrow> 'c route_handler http_router" where
  "gateway_routes echo add =
     addRoute (addRoute (addRoute (addRoute new_http_router ''POST'' ''/api/echo'' echo) ''POST'' ''/api/add'' add)
       ''GET'' ''/diagnose'' handleDiagnose) ''GET'' ''/api/health'' handleHealth"

subsection \<open>Routes in the order of registration\<close>

datatype 'h route = Exact string string 'h | Prefix string string 'h

fun add_route :: "'h http_router \<Rightarrow> 'h route \<Rightarrow> 'h http_router" where
  "add_route r (Exact m p h) = addRoute r m p h"
| "add_route r (Prefix m p h) = addPrefixRoute r m p h"

text \<open>The handler by the list of registrations: the last exact one, else the first prefix that fits.\<close>

definition exact_handler :: "'h route \<Rightarrow> string \<Rightarrow> string \<Rightarrow> 'h option" where
  "exact_handler u m p = (case u of Exact m' p' h \<Rightarrow> if m' = m \<and> p' = p then Some h else None | Prefix _ _ _ \<Rightarrow> None)"

definition prefix_handler :: "'h route \<Rightarrow> string \<Rightarrow> string \<Rightarrow> 'h option" where
  "prefix_handler u m p = (case u of Prefix m' p' h \<Rightarrow> if m' = m \<and> take (length p') p = p' then Some h else None | Exact _ _ _ \<Rightarrow> None)"

definition first_some :: "'a option list \<Rightarrow> 'a option" where
  "first_some xs = (case filter (\<lambda>x. x \<noteq> None) xs of [] \<Rightarrow> None | x # _ \<Rightarrow> x)"

definition route_spec :: "'h route list \<Rightarrow> string \<Rightarrow> string \<Rightarrow> 'h option" where
  "route_spec us m p =
     (case first_some (map (\<lambda>u. exact_handler u m p) (rev us)) of
        Some h \<Rightarrow> Some h
      | None \<Rightarrow> first_some (map (\<lambda>u. prefix_handler u m p) us))"

fun spaceless :: "'h route \<Rightarrow> bool" where
  "spaceless (Exact m p h) \<longleftrightarrow> CHR '' '' \<notin> set m"
| "spaceless (Prefix m p h) \<longleftrightarrow> True"

lemma route_key_eq:
  assumes "CHR '' '' \<notin> set m" "CHR '' '' \<notin> set m'"
  shows "route_key m p = route_key m' p' \<longleftrightarrow> m = m' \<and> p = p'"
proof
  assume k: "route_key m p = route_key m' p'"
  then have "takeWhile (\<lambda>c. c \<noteq> CHR '' '') (m @ CHR '' '' # p) = takeWhile (\<lambda>c. c \<noteq> CHR '' '') (m' @ CHR '' '' # p')" by (simp add: route_key_def)
  then have "m = m'" using takeWhile_sep assms by metis
  then show "m = m' \<and> p = p'" using k by (simp add: route_key_def)
qed simp

lemma first_some_simps: "first_some [] = None" "first_some (None # xs) = first_some xs" "first_some (Some x # xs) = Some x"
  by (simp_all add: first_some_def)

lemma exact_routes:
  assumes "CHR '' '' \<notin> set m" "list_all spaceless us"
  shows "map_of (ro_exact (foldl add_route r us)) (route_key m p) =
    (case first_some (map (\<lambda>u. exact_handler u m p) (rev us)) of Some h \<Rightarrow> Some h | None \<Rightarrow> map_of (ro_exact r) (route_key m p))"
  using assms(2)
proof (induction us rule: rev_induct)
  case (snoc u us)
  show ?case
  proof (cases u)
    case (Exact m' p' h)
    have "route_key m p = route_key m' p' \<longleftrightarrow> m = m' \<and> p = p'" using route_key_eq assms(1) snoc.prems Exact by simp
    then show ?thesis using snoc Exact
      by (cases "m' = m \<and> p' = p") (auto simp: addRoute_def exact_handler_def first_some_simps update_conv')
  next
    case (Prefix m' p' h)
    then show ?thesis using snoc by (simp add: addPrefixRoute_def exact_handler_def first_some_simps)
  qed
qed (simp add: first_some_simps)

lemma prefix_routes:
  "map_option ru_handler (List.find (\<lambda>u. ru_method u = m \<and> length (ru_path u) \<le> length p \<and> take (length (ru_path u)) p = ru_path u) (ro_prefix (foldl add_route r us)))
   = (case map_option ru_handler (List.find (\<lambda>u. ru_method u = m \<and> length (ru_path u) \<le> length p \<and> take (length (ru_path u)) p = ru_path u) (ro_prefix r))
      of Some h \<Rightarrow> Some h | None \<Rightarrow> first_some (map (\<lambda>u. prefix_handler u m p) us))"
proof (induction us arbitrary: r)
  case (Cons u us)
  have app: "List.find P (xs @ [x]) = (case List.find P xs of Some y \<Rightarrow> Some y | None \<Rightarrow> if P x then Some x else None)" for P and xs :: "'a route_rule list" and x
    by (induction xs) auto
  have len: "take (length q) p = q \<Longrightarrow> length q \<le> length p" for q by (metis length_take min.cobounded1)
  show ?case
  proof (cases u)
    case (Exact m' p' h)
    then show ?thesis using Cons by (simp add: addRoute_def prefix_handler_def first_some_simps split: option.split)
  next
    case (Prefix m' p' h)
    then show ?thesis using Cons len [of p']
      by (cases "m' = m \<and> take (length p') p = p'") (auto simp: addPrefixRoute_def prefix_handler_def first_some_simps app split: option.splits)
  qed
qed (simp add: first_some_simps split: option.split)

text \<open>
  Property C19. Routing follows the registrations: after any sequence of registrations, a request is given
  to the exact route of its method and path that was registered last, otherwise to the first registered
  prefix of its method that fits, and to none only when there is neither.
\<close>

theorem dispatch_follows_registrations:
  assumes "CHR '' '' \<notin> set m" "list_all spaceless us"
  shows "dispatch (foldl add_route new_http_router us) m p = route_spec us m p"
  using exact_routes [OF assms, of new_http_router p] prefix_routes [of m p new_http_router us]
  by (simp add: dispatch_def route_spec_def new_http_router_def split: option.splits)

theorem dispatch_follows_registrations_witness:
  "dispatch (foldl add_route new_http_router [Prefix ''GET'' ''/api/'' (1::nat), Exact ''GET'' ''/api/x'' 2, Prefix ''GET'' ''/'' 3]) ''GET'' ''/api/y'' = Some 1"
proof -
  have "dispatch (foldl add_route new_http_router [Prefix ''GET'' ''/api/'' (1::nat), Exact ''GET'' ''/api/x'' 2, Prefix ''GET'' ''/'' 3]) ''GET'' ''/api/y''
    = route_spec [Prefix ''GET'' ''/api/'' 1, Exact ''GET'' ''/api/x'' 2, Prefix ''GET'' ''/'' 3] ''GET'' ''/api/y''"
    by (rule dispatch_follows_registrations) simp_all
  then show ?thesis by (simp add: route_spec_def exact_handler_def prefix_handler_def first_some_simps)
qed

subsection \<open>Which requests are counted\<close>

lemma counter_other:
  assumes "n' @ formatLabels ls' \<noteq> n @ formatLabels ls"
  shows "counter_total (metrics_counter n h ls f r) n' ls' = counter_total r n' ls'"
  using assms by (simp add: counter_total_def counter_value_change)

lemma gw_total_keys:
  "''gateway_requests_total'' @ formatLabels a \<noteq> ''gateway_errors_total'' @ formatLabels b"
  "''gateway_requests_total'' @ formatLabels a \<noteq> ''rpc_rate_limited_total'' @ formatLabels b"
  by simp_all

text \<open>
  Remark. The total counts only requests that reached a handler: a request that the limiter
  rejects or that has no route is answered without being counted, although its comment says that each request is.
\<close>

theorem only_handled_requests_counted:
  assumes "\<And>g h. dispatch router (hq_method req) (hq_path req) = Some h \<Longrightarrow>
    counter_total (gw_metrics (fst (h g req resp))) ''gateway_requests_total'' ls = counter_total (gw_metrics g) ''gateway_requests_total'' ls"
    and ls: "ls = [(''path'', hq_path req), (''method'', hq_method req)]"
  shows "counter_total (gw_metrics (fst (gateway_callback router now lat g req resp))) ''gateway_requests_total'' ls =
    counter_total (gw_metrics g) ''gateway_requests_total'' ls +
      (if snd (gw_allow now g) \<and> dispatch router (hq_method req) (hq_path req) \<noteq> None then 1 else 0)"
proof -
  let ?c = "\<lambda>g. counter_total (gw_metrics g) ''gateway_requests_total'' ls"
  have al: "?c (fst (gw_allow now g)) = ?c g"
    by (simp add: gw_allow_def Let_def case_prod_beta onTokenBucket_def onRateLimited_def counter_other [OF gw_total_keys(2)])
  have er: "counter_total (gw_count_error p c f r) ''gateway_requests_total'' ls = counter_total r ''gateway_requests_total'' ls" for p c f r
    unfolding gw_count_error_def by (rule counter_other [OF gw_total_keys(1)])
  show ?thesis
  proof (cases "snd (gw_allow now g)")
    case False
    then show ?thesis using al by (simp add: gateway_callback_def Let_def case_prod_beta er)
  next
    case True
    note ok = this
    show ?thesis
    proof (cases "dispatch router (hq_method req) (hq_path req)")
      case None
      then show ?thesis using ok al by (simp add: gateway_callback_def Let_def case_prod_beta)
    next
      case (Some h)
      have "?c (fst (h (fst (gw_allow now g)) req resp)) = ?c g" using assms(1) [OF Some] al by simp
      then show ?thesis using ok Some by (simp add: gateway_callback_def Let_def case_prod_beta er counter_total_inc flip: ls)
    qed
  qed
qed

end
