(* ===== verification/Gateway_Diagnosis.thy ===== *)
theory Gateway_Diagnosis
  imports Http_Gateway "HOL-Library.Multiset"
begin

text \<open>
  The answer of \<open>diagnose_handler.hpp\<close>: its search through the exported text finds
  the states that the circuit breakers reported.
\<close>

subsection \<open>What the diagnosis finds\<close>

lemma find_sub_line:
  assumes "CHR 0x0A \<notin> set pat" "pat \<noteq> []"
  shows "find_sub pat (l @ CHR 0x0A # rest) =
    (case find_sub pat l of Some i \<Rightarrow> Some i | None \<Rightarrow> map_option (\<lambda>j. length l + 1 + j) (find_sub pat rest))"
proof (induction l)
  case Nil
  obtain d ds where "pat = d # ds" using assms(2) by (cases pat) auto
  then show ?case using assms by (auto simp: map_option_case split: option.split)
next
  case (Cons c l)
  have "take (length pat) ((c # l) @ CHR 0x0A # rest) = pat \<longleftrightarrow> take (length pat) (c # l) = pat"
  proof (cases "length pat \<le> length (c # l)")
    case False
    define n where "n = length pat - length (c # l) - 1"
    have n: "length pat = length (c # l) + Suc n" using False by (simp add: n_def)
    have "take (length pat) ((c # l) @ CHR 0x0A # rest) = (c # l) @ CHR 0x0A # take n rest" by (simp add: n)
    moreover have "(c # l) @ CHR 0x0A # take n rest \<noteq> pat" using assms(1) by auto
    moreover have "take (length pat) (c # l) \<noteq> pat" using False by (metis length_take min.cobounded1)
    ultimately show ?thesis by simp
  next
    case True
    then show ?thesis unfolding take_append by simp
  qed
  then show ?case using Cons by (auto simp: map_option_case split: option.split)
qed

lemma drop_len: "length a = n \<Longrightarrow> drop n (a @ b) = b"
  by simp

lemma cut_after: "drop (length a + 1) (a @ c # r) = r"
  by simp

lemma diag_search_line: "CHR 0x0A \<notin> set diag_search" "diag_search \<noteq> []"
  by (simp_all add: diag_search_def)

lemma diag_lines_line:
  assumes "CHR 0x0A \<notin> set l"
  shows "diag_lines (l @ CHR 0x0A # rest) =
    (case find_sub diag_search l of Some i \<Rightarrow> [drop i l] | None \<Rightarrow> []) @ diag_lines rest"
proof (cases "find_sub diag_search l")
  case None
  then have f: "find_sub diag_search (l @ CHR 0x0A # rest) = map_option (\<lambda>j. length l + 1 + j) (find_sub diag_search rest)"
    by (simp add: find_sub_line [OF diag_search_line] map_option_case split: option.split)
  have d: "drop (length l + 1 + j) (l @ CHR 0x0A # rest) = drop j rest" for j by simp
  show ?thesis
  proof (cases "find_sub diag_search rest")
    case None
    then show ?thesis using \<open>find_sub diag_search l = None\<close> by (simp add: diag_lines.simps [of "l @ _"] diag_lines.simps [of rest] f)
  next
    case (Some j)
    show ?thesis unfolding diag_lines.simps [of "l @ _"] diag_lines.simps [of rest] f Some option.map option.case d
      by (simp add: None)
  qed
next
  case (Some i)
  then have f: "find_sub diag_search (l @ CHR 0x0A # rest) = Some i" by (simp add: find_sub_line [OF diag_search_line])
  have i: "i \<le> length l" using find_sub_room [OF Some] by simp
  then have p: "drop i (l @ CHR 0x0A # rest) = drop i l @ CHR 0x0A # rest" by simp
  have t: "takeWhile (\<lambda>c. c \<noteq> CHR 0x0A) (drop i l @ CHR 0x0A # rest) = drop i l"
    using assms takeWhile_sep [of "CHR 0x0A" "drop i l" rest] by (auto dest: in_set_dropD)
  have r: "drop (length (drop i l) + 1) (drop i l @ CHR 0x0A # rest) = rest" by (rule cut_after)
  show ?thesis unfolding diag_lines.simps [of "l @ _"] f option.case p Let_def t r by (simp add: Some)
qed

lemma diag_lines_all:
  assumes "\<forall>l \<in> set ls. CHR 0x0A \<notin> set l"
  shows "diag_lines (concat (map (\<lambda>l. l @ newline) ls)) = concat (map (\<lambda>l. case find_sub diag_search l of Some i \<Rightarrow> [drop i l] | None \<Rightarrow> []) ls)"
  using assms
proof (induction ls)
  case Nil
  show ?case by (simp add: diag_lines.simps diag_search_def)
qed (simp add: newline_def diag_lines_line)

lemma find_after_word:
  assumes "CHR ''='' \<notin> set m" "CHR 0x22 \<notin> set m"
    and pat: "length pat = 6" "pat ! 4 = CHR ''=''" "pat ! 5 = CHR 0x22" "\<And>k. k < 5 \<Longrightarrow> pat ! k \<noteq> CHR 0x22"
  shows "find_sub pat (m @ CHR 0x22 # r) = map_option (\<lambda>j. length m + j) (find_sub pat (CHR 0x22 # r))"
  using assms(1,2)
proof (induction m)
  case (Cons c m)
  have "take 6 ((c # m) @ CHR 0x22 # r) \<noteq> pat"
  proof
    assume t: "take 6 ((c # m) @ CHR 0x22 # r) = pat"
    have n: "((c # m) @ CHR 0x22 # r) ! k = pat ! k" if "k < 6" for k using t that by (metis nth_take)
    consider "length (c # m) \<ge> 6" | "length (c # m) = 5" | "length (c # m) < 5" by linarith
    then show False
    proof cases
      case 1
      then have "(c # m) ! 5 = CHR 0x22" using n [of 5] pat(3) by (simp add: nth_append)
      then show False using 1 Cons.prems(2) nth_mem [of 5 "c # m"] by simp
    next
      case 2
      then have "(c # m) ! 4 = CHR ''=''" using n [of 4] pat(2) by (simp add: nth_append)
      then show False using 2 Cons.prems(1) nth_mem [of 4 "c # m"] by simp
    next
      case 3
      moreover have "((c # m) @ CHR 0x22 # r) ! length (c # m) = CHR 0x22" by (rule nth_append_length)
      moreover have "length (c # m) < 6" using 3 by linarith
      ultimately show False using n [of "length (c # m)"] pat(4) by metis
    qed
  qed
  then show ?case using Cons pat(1) by (simp add: option.map_comp comp_def)
qed (simp add: map_option_case split: option.split)

lemma find_host: "find_sub (''host='' @ quote) (CHR ''='' # CHR 0x22 # m @ CHR 0x22 # CHR '','' # ''host='' @ quote @ r) = Some (length m + 4)"
  if "CHR ''='' \<notin> set m" "CHR 0x22 \<notin> set m"
proof -
  have "(''host='' @ quote) ! k \<noteq> CHR 0x22" if "k < 5" for k
    using that by (auto simp: less_Suc_eq numeral_eq_Suc quote_def)
  from find_after_word [OF that _ _ _ this, of "CHR '','' # ''host='' @ quote @ r"] show ?thesis by (simp add: quote_def)
qed

definition breaker_gauge :: "string \<Rightarrow> string \<Rightarrow> int \<Rightarrow> mgauge" where
  "breaker_gauge m h s =
     \<lparr>mg_name = ''circuit_breaker_state'', mg_help = ''Circuit breaker state'',
      mg_labels = formatLabels [(''method'', m), (''host'', h)], mg_value = of_int s\<rparr>"

text \<open>Names without quotes; a method has no equals sign either.\<close>

definition plain_names :: "string \<Rightarrow> string \<Rightarrow> bool" where
  "plain_names m h \<longleftrightarrow> CHR 0x22 \<notin> set m \<and> CHR ''='' \<notin> set m \<and> CHR 0x0A \<notin> set m \<and> CHR 0x22 \<notin> set h \<and> CHR 0x0A \<notin> set h"

definition plain_state :: "int \<Rightarrow> bool" where
  "plain_state s \<longleftrightarrow> 0 \<le> s \<and> s < 10 ^ 15"

lemma breaker_value_text: "plain_state s \<Longrightarrow> print_double 15 (of_int s) = to_string s"
  using print_whole [of "nat s" 15] by (auto simp: plain_state_def to_string_def of_nat_nat nat_less_iff)

lemma breaker_labels:
  "formatLabels [(''method'', m), (''host'', h)] =
    ''{method='' @ quote @ m @ quote @ '',host='' @ quote @ h @ quote @ ''}''"
  by (simp add: formatLabels_def formatLabel_def quote_def)

definition breaker_line :: "string \<Rightarrow> string \<Rightarrow> string \<Rightarrow> string" where
  "breaker_line m h v = sample_line ''circuit_breaker_state'' (formatLabels [(''method'', m), (''host'', h)]) v"

lemma breaker_line_text:
  "breaker_line m h v = ''circuit_breaker_state{method'' @ CHR ''='' # CHR 0x22 # m @ CHR 0x22 # CHR '','' # ''host='' @ quote @ (h @ quote @ ''} '' @ v)"
  by (simp add: breaker_line_def sample_line_def breaker_labels quote_def)

lemma until_quote_word: "CHR 0x22 \<notin> set s \<Longrightarrow> until_quote (s @ CHR 0x22 # r) = s"
  by (simp add: until_quote_def takeWhile_sep)

lemma diag_entry_line:
  assumes "plain_names m h" "CHR '' '' \<notin> set v"
  shows "diag_entry (breaker_line m h v) = breaker_json m h v"
proof -
  let ?t = "CHR ''='' # CHR 0x22 # m @ CHR 0x22 # CHR '','' # ''host='' @ quote @ (h @ quote @ ''} '' @ v)"
  have fm: "find_sub (''method='' @ quote) (breaker_line m h v) = Some 22" by (simp add: breaker_line_text quote_def)
  have "find_sub (''host='' @ quote) ?t = Some (length m + 4)" by (rule find_host) (use assms in \<open>simp_all add: plain_names_def\<close>)
  then have fh: "find_sub (''host='' @ quote) (breaker_line m h v) = Some (length m + 32)"
    unfolding breaker_line_text by (simp add: quote_def)
  have rs: "rfind (CHR '' '') (breaker_line m h v) = Some (length (breaker_line m h v) - length v - 1)"
    using rfind_last_at [OF assms(2), of "''circuit_breaker_state{method='' @ quote @ m @ quote @ '',host='' @ quote @ h @ quote @ ''}''"]
    by (simp add: breaker_line_text quote_def)
  have "breaker_line m h v = (''circuit_breaker_state{method='' @ quote) @ m @ CHR 0x22 # (CHR '','' # ''host='' @ quote @ (h @ quote @ ''} '' @ v))"
    by (simp add: breaker_line_text quote_def)
  then have e1: "until_quote (drop (22 + 8) (breaker_line m h v)) = m"
    using drop_len [of "''circuit_breaker_state{method='' @ quote" "22 + 8"] until_quote_word [of m] assms(1)
    by (simp only:) (simp add: quote_def plain_names_def)
  have "breaker_line m h v = (''circuit_breaker_state{method='' @ quote @ m @ quote @ '',host='' @ quote) @ h @ CHR 0x22 # (''} '' @ v)"
    by (simp add: breaker_line_text quote_def)
  then have e2: "until_quote (drop (length m + 32 + 6) (breaker_line m h v)) = h"
    using drop_len [of "''circuit_breaker_state{method='' @ quote @ m @ quote @ '',host='' @ quote" "length m + 32 + 6"] until_quote_word [of h] assms(1)
    by (simp only:) (simp add: quote_def plain_names_def)
  have "breaker_line m h v = (''circuit_breaker_state{method='' @ quote @ m @ quote @ '',host='' @ quote @ h @ quote @ ''} '') @ v"
    by (simp add: breaker_line_text quote_def)
  then have e3: "drop (length (breaker_line m h v) - length v - 1 + 1) (breaker_line m h v) = v"
    using drop_len [of "''circuit_breaker_state{method='' @ quote @ m @ quote @ '',host='' @ quote @ h @ quote @ ''} ''"]
    by (simp only:) simp
  show ?thesis unfolding diag_entry_def fm fh prod.case option.case rs e1 e2 e3 ..
qed

definition report :: "string \<times> string \<times> int \<Rightarrow> metric_registry \<Rightarrow> metric_registry" where
  "report c r = (case c of (m, h, s) \<Rightarrow> onCircuitState m h s r)"

text \<open>The last state that was reported for each method and host.\<close>

definition breaker_states :: "(string \<times> string \<times> int) list \<Rightarrow> ((string \<times> string) \<times> int) list" where
  "breaker_states cs = foldl (\<lambda>t (m, h, s). AList.update (m, h) s t) [] cs"

definition breaker_key :: "string \<Rightarrow> string \<Rightarrow> string" where
  "breaker_key m h = ''circuit_breaker_state'' @ formatLabels [(''method'', m), (''host'', h)]"

definition breaker_entry :: "(string \<times> string) \<times> int \<Rightarrow> string \<times> mgauge" where
  "breaker_entry e = (case e of ((m, h), s) \<Rightarrow> (breaker_key m h, breaker_gauge m h s))"

definition plain_report :: "string \<times> string \<times> int \<Rightarrow> bool" where
  "plain_report c \<longleftrightarrow> (case c of (m, h, s) \<Rightarrow> plain_names m h \<and> plain_state s)"

lemma plain_report_simp: "plain_report (m, h, s) \<longleftrightarrow> plain_names m h \<and> plain_state s"
  by (simp add: plain_report_def)

lemma breaker_key_inj:
  assumes "plain_names m h" "plain_names m' h'"
  shows "breaker_key m h = breaker_key m' h'
    \<longleftrightarrow> (m, h) = (m', h')"
  using series_key_inj [of "''circuit_breaker_state''" "''circuit_breaker_state''" "[(''method'', m), (''host'', h)]" "[(''method'', m'), (''host'', h')]"] assms
  by (auto simp: breaker_key_def plain_label_def plain_names_def)

lemma table_update:
  assumes "plain_names m h" "\<forall>e \<in> set t. plain_names (fst (fst e)) (snd (fst e))"
    "distinct (map fst t)"
    "breaker_key m h \<notin> fst ` set gs"
  shows "table_at (breaker_key m h) (gauge_set (of_int s))
      (table_get (breaker_key m h)
        (new_gauge ''circuit_breaker_state'' ''Circuit breaker state'' [(''method'', m), (''host'', h)]) (gs @ map breaker_entry t))
    = gs @ map breaker_entry (AList.update (m, h) s t)"
proof -
  let ?f = "gauge_set (of_int s)" and ?n = "new_gauge ''circuit_breaker_state'' ''Circuit breaker state'' [(''method'', m), (''host'', h)]"
  have eq: "breaker_key m' h' = breaker_key m h \<longleftrightarrow> m' = m \<and> h' = h" if "plain_names m' h'" for m' h' using breaker_key_inj [OF that assms(1)] by simp
  have eq2: "breaker_key m h = breaker_key m' h' \<longleftrightarrow> m' = m \<and> h' = h" if "plain_names m' h'" for m' h' using eq [OF that] by metis
  have at_app: "table_at k f (a @ b) = table_at k f a @ table_at k f b" for k f and a b :: "(string \<times> mgauge) list" by (simp add: table_at_def)
  have at_none: "k \<notin> fst ` set a \<Longrightarrow> table_at k f a = a" for k f and a :: "(string \<times> mgauge) list"
    by (induction a) (auto simp: table_at_def)
  have keys: "breaker_key m h \<in> fst ` set (map breaker_entry t) \<longleftrightarrow> (m, h) \<in> fst ` set t"
    if "\<forall>e \<in> set t. plain_names (fst (fst e)) (snd (fst e))" for t
    using that by (induction t) (auto simp: breaker_entry_def eq eq2)
  have new: "?f ?n = breaker_gauge m h s" by (simp add: gauge_set_def new_gauge_def breaker_gauge_def)
  have upd: "table_at (breaker_key m h) ?f (table_get (breaker_key m h) ?n (map breaker_entry t)) = map breaker_entry (AList.update (m, h) s t)"
    using assms(2,3)
  proof (induction t)
    case Nil
    then show ?case using new by (simp add: table_get_def table_at_def breaker_entry_def)
  next
    case (Cons e t)
    obtain m' h' s' where e: "e = ((m', h'), s')" by (metis prod.collapse)
    show ?case
    proof (cases "m' = m \<and> h' = h")
      case True
      then have "breaker_key m h \<notin> fst ` set (map breaker_entry t)" using keys [of t] Cons.prems e by auto
      note tail = at_none [OF this, of ?f]
      have "breaker_entry e = (breaker_key m h, breaker_gauge m h s')" "?f (breaker_gauge m h s') = breaker_gauge m h s"
        using True by (simp_all add: e breaker_entry_def gauge_set_def breaker_gauge_def)
      then have "table_at (breaker_key m h) ?f (table_get (breaker_key m h) ?n (map breaker_entry (e # t))) = (breaker_key m h, breaker_gauge m h s) # map breaker_entry t"
        using tail by (simp add: table_get_def table_at_def)
      moreover have "breaker_entry ((m, h), s) = (breaker_key m h, breaker_gauge m h s)" by (simp add: breaker_entry_def)
      ultimately show ?thesis using True by (simp add: e)
    next
      case False
      then have "breaker_key m' h' \<noteq> breaker_key m h" using eq Cons.prems e by auto
      then show ?thesis using Cons False e by (auto simp: table_get_def table_at_def breaker_entry_def split: if_splits)
    qed
  qed
  have "table_get (breaker_key m h) ?n (gs @ map breaker_entry t) = gs @ table_get (breaker_key m h) ?n (map breaker_entry t)"
    using assms(4) by (simp add: table_get_def image_Un)
  then show ?thesis using upd at_none [OF assms(4)] by (simp add: at_app)
qed

lemma breaker_states_facts:
  assumes "list_all plain_report cs"
  shows "(\<forall>e \<in> set (breaker_states cs). plain_names (fst (fst e)) (snd (fst e)) \<and> plain_state (snd e)) \<and> distinct (map fst (breaker_states cs))"
  using assms
proof (induction cs rule: rev_induct)
  case (snoc c cs)
  obtain m h s where c: "c = (m, h, s)" by (metis prod.collapse)
  have b: "breaker_states (cs @ [c]) = AList.update (m, h) s (breaker_states cs)" by (simp add: breaker_states_def c)
  have "set (AList.update k v al) \<subseteq> insert (k, v) (set al)" for k :: "string \<times> string" and v :: int and al
    by (induction al) auto
  then have "set (breaker_states (cs @ [c])) \<subseteq> insert ((m, h), s) (set (breaker_states cs))" unfolding b by blast
  moreover have "plain_names m h" "plain_state s" "list_all plain_report cs" using snoc.prems c by (simp_all add: plain_report_simp)
  moreover have "distinct (map fst (breaker_states (cs @ [c])))" unfolding b using snoc calculation by (simp add: distinct_update)
  ultimately show ?case using snoc.IH by fastforce
qed (simp add: breaker_states_def)

lemma report_breaker:
  "report (m, h, s) r = r\<lparr>mr_gauges := table_at (breaker_key m h) (gauge_set (of_int s))
     (table_get (breaker_key m h) (new_gauge ''circuit_breaker_state'' ''Circuit breaker state'' [(''method'', m), (''host'', h)]) (mr_gauges r))\<rparr>"
  unfolding report_def prod.case onCircuitState_def metrics_gauge_def Let_def breaker_key_def ..

lemma reported_gauges:
  assumes "list_all plain_report cs" "\<And>m h. breaker_key m h \<notin> fst ` set (mr_gauges r)"
  shows "mr_gauges (foldl (\<lambda>r c. report c r) r cs) = mr_gauges r @ map breaker_entry (breaker_states cs)
    \<and> mr_counters (foldl (\<lambda>r c. report c r) r cs) = mr_counters r \<and> mr_hists (foldl (\<lambda>r c. report c r) r cs) = mr_hists r"
  using assms(1)
proof (induction cs rule: rev_induct)
  case Nil
  show ?case by (simp add: breaker_states_def)
next
  case (snoc c cs)
  obtain m h s where c: "c = (m, h, s)" by (metis prod.collapse)
  have p: "plain_names m h" "list_all plain_report cs" using snoc.prems c by (simp_all add: plain_report_simp)
  have b: "breaker_states (cs @ [c]) = AList.update (m, h) s (breaker_states cs)" by (simp add: breaker_states_def c)
  have u: "table_at (breaker_key m h) (gauge_set (of_int s))
      (table_get (breaker_key m h) (new_gauge ''circuit_breaker_state'' ''Circuit breaker state'' [(''method'', m), (''host'', h)])
        (mr_gauges r @ map breaker_entry (breaker_states cs)))
    = mr_gauges r @ map breaker_entry (AList.update (m, h) s (breaker_states cs))"
    by (rule table_update) (use p breaker_states_facts [OF p(2)] assms(2) in auto)
  show ?case unfolding b using snoc.IH [OF p(2)] u by (simp add: c report_breaker)
qed

lemma breaker_gauge_lines:
  assumes "plain_state s"
  shows "concat (map (\<lambda>l. case find_sub diag_search l of Some i \<Rightarrow> [drop i l] | None \<Rightarrow> []) (gauge_lines (breaker_gauge m h s))) = [breaker_line m h (to_string s)]"
proof -
  have "find_sub diag_search (help_line ''circuit_breaker_state'' ''Circuit breaker state'') = None"
    "find_sub diag_search (type_line ''circuit_breaker_state'' ''gauge'') = None" "find_sub diag_search [] = None" "\<not> is_total ''circuit_breaker_state''"
    by (simp_all add: diag_search_def help_line_def type_line_def is_total_def)
  moreover have "find_sub diag_search (breaker_line m h (to_string s)) = Some 0"
    by (simp add: diag_search_def breaker_line_text)
  ultimately show ?thesis
    by (simp add: gauge_lines_def breaker_gauge_def breaker_line_def breaker_value_text [OF assms] del: find_sub.simps)
qed

lemma breaker_lines_plain:
  assumes "plain_names m h" "plain_state s"
  shows "\<forall>l \<in> set (gauge_lines (breaker_gauge m h s)). CHR 0x0A \<notin> set l"
proof -
  have "set (dec_nat n) \<subseteq> {c. is_digit c}" for n by (rule dec_nat_digits)
  moreover have "\<not> is_digit (CHR 0x0A)" by (simp add: is_digit_def)
  ultimately have "CHR 0x0A \<notin> set (dec_nat n)" for n by blast
  then show ?thesis using assms breaker_value_text [OF assms(2)]
    by (auto simp: gauge_lines_def breaker_gauge_def help_line_def type_line_def sample_line_def breaker_labels quote_def plain_names_def to_string_def plain_state_def)
qed

lemma to_string_no_space: "0 \<le> s \<Longrightarrow> CHR '' '' \<notin> set (to_string s)"
proof -
  have "set (dec_nat n) \<subseteq> {c. is_digit c}" for n by (rule dec_nat_digits)
  moreover have "\<not> is_digit (CHR '' '')" by (simp add: is_digit_def)
  ultimately have "CHR '' '' \<notin> set (dec_nat n)" for n by blast
  then show "0 \<le> s \<Longrightarrow> ?thesis" by (simp add: to_string_def)
qed

lemma gauge_key_line:
  assumes "(k, g) \<in> set (mr_gauges r)" "k = mg_name g @ mg_labels g" "\<forall>l \<in> set (export_lines r). find_sub diag_search l = None"
  shows "k \<noteq> breaker_key m h"
proof
  assume "k = breaker_key m h"
  then have l: "sample_line (mg_name g) (mg_labels g) (print_double 15 (mg_value g)) = breaker_line m h (print_double 15 (mg_value g))"
    using assms(2) by (simp add: sample_line_def breaker_line_def breaker_key_def)
  have "sample_line (mg_name g) (mg_labels g) (print_double 15 (mg_value g)) \<in> set (export_lines r)"
    using assms(1) by (force simp: export_lines_def gauge_lines_def)
  moreover have "find_sub diag_search (breaker_line m h v) = Some 0" for v by (simp add: diag_search_def breaker_line_text)
  ultimately show False using assms(3) unfolding l by (metis option.distinct(1))
qed

lemma breaker_block_lines:
  assumes "\<forall>e \<in> set bs. plain_state (snd e)"
  shows "concat (map (\<lambda>l. case find_sub diag_search l of Some i \<Rightarrow> [drop i l] | None \<Rightarrow> [])
      (concat (map (\<lambda>(k, g). gauge_lines g) (map breaker_entry bs)))) = map (\<lambda>((m, h), s). breaker_line m h (to_string s)) bs"
  using assms
proof (induction bs)
  case (Cons e bs)
  obtain m h s where e: "e = ((m, h), s)" by (metis prod.collapse)
  then show ?case using Cons breaker_gauge_lines [of s m h] by (simp add: breaker_entry_def)
qed simp

definition quiet_metrics :: "metric_registry \<Rightarrow> bool" where
  "quiet_metrics r \<longleftrightarrow> (\<forall>(k, g) \<in> set (mr_gauges r). k = mg_name g @ mg_labels g)
     \<and> (\<forall>l \<in> set (export_lines r). CHR 0x0A \<notin> set l \<and> find_sub diag_search l = None)"

lemma reported_export:
  assumes "quiet_metrics r" "list_all plain_report cs"
  defines "r1 \<equiv> foldl (\<lambda>r c. report c r) r cs"
  shows "(\<forall>l \<in> set (export_lines r1). CHR 0x0A \<notin> set l)
    \<and> concat (map (\<lambda>l. case find_sub diag_search l of Some i \<Rightarrow> [drop i l] | None \<Rightarrow> []) (export_lines r1))
      = map (\<lambda>((m, h), s). breaker_line m h (to_string s)) (breaker_states cs)"
proof -
  let ?r = "foldl (\<lambda>r c. report c r) r cs" and ?hit = "\<lambda>l. case find_sub diag_search l of Some i \<Rightarrow> [drop i l] | None \<Rightarrow> []"
  let ?bs = "breaker_states cs"
  have "breaker_key m h \<notin> fst ` set (mr_gauges r)" for m h
  proof
    assume "breaker_key m h \<in> fst ` set (mr_gauges r)"
    then obtain g where i: "(breaker_key m h, g) \<in> set (mr_gauges r)" by auto
    then have "breaker_key m h = mg_name g @ mg_labels g" "\<forall>l \<in> set (export_lines r). find_sub diag_search l = None"
      using assms(1) by (auto simp: quiet_metrics_def)
    from gauge_key_line [OF i this] show False by blast
  qed
  note g = reported_gauges [OF assms(2) this]
  note f = breaker_states_facts [OF assms(2)]
  define bl where "bl = concat (map (\<lambda>(k, g). gauge_lines g) (map breaker_entry ?bs))"
  define c0 where "c0 = concat (map (\<lambda>(k, c). counter_lines c) (mr_counters r))"
  define g0 where "g0 = concat (map (\<lambda>(k, g). gauge_lines g) (mr_gauges r))"
  define h0 where "h0 = concat (map (\<lambda>(k, h). histogram_lines h) (mr_hists r))"
  have x: "export_lines r = c0 @ g0 @ h0" by (simp add: export_lines_def c0_def g0_def h0_def)
  have x': "export_lines ?r = c0 @ g0 @ bl @ h0" using g by (simp add: export_lines_def c0_def g0_def h0_def bl_def)
  have "set (export_lines ?r) \<subseteq> set (export_lines r) \<union> set bl" by (auto simp: x x')
  moreover have "\<forall>l \<in> set bl. CHR 0x0A \<notin> set l" using f breaker_lines_plain by (fastforce simp: breaker_entry_def bl_def)
  ultimately have all: "\<forall>l \<in> set (export_lines ?r). CHR 0x0A \<notin> set l" using assms(1) unfolding quiet_metrics_def by blast
  have none: "concat (map ?hit ls) = []" if "set ls \<subseteq> set (export_lines r)" for ls
    using that assms(1) by (auto simp: quiet_metrics_def)
  have "concat (map ?hit (export_lines ?r)) = concat (map ?hit bl)"
  proof -
    have "concat (map ?hit c0) = []" "concat (map ?hit g0) = []" "concat (map ?hit h0) = []" by (rule none, unfold x set_append, blast)+
    then show ?thesis by (simp only: x' map_append concat_append append_Nil append_Nil2)
  qed
  also have "\<dots> = map (\<lambda>((m, h), s). breaker_line m h (to_string s)) ?bs"
    unfolding bl_def using f by (intro breaker_block_lines) blast
  finally show ?thesis using all unfolding r1_def by blast
qed

text \<open>The same metrics in the order in which the hash tables happen to be walked.\<close>

definition same_tables :: "metric_registry \<Rightarrow> metric_registry \<Rightarrow> bool" where
  "same_tables r r' \<longleftrightarrow> mset (mr_counters r) = mset (mr_counters r') \<and> mset (mr_gauges r) = mset (mr_gauges r')
     \<and> mset (mr_hists r) = mset (mr_hists r')"

lemma mset_concat_map: "mset xs = mset ys \<Longrightarrow> mset (concat (map f xs)) = mset (concat (map f ys))"
  by (simp add: mset_concat flip: sum_mset_sum_list mset_map) (simp add: mset_map multiset.map_comp)

lemma export_any_order: "same_tables r r' \<Longrightarrow> mset (export_lines r') = mset (export_lines r)"
  by (auto simp: same_tables_def export_lines_def intro!: arg_cong2 [where f = "(+)"] mset_concat_map)

text \<open>
  Property C17. The diagnosis lists every circuit breaker: after any reports of breaker states, beside whatever
  other metrics there are and in whatever order the tables are walked, the answer has exactly one entry
  for each method and host, with the state that was reported last. So the search through the exported text
  finds what the breakers reported. (The other metrics have no line break and do not contain the searched name.)
\<close>

theorem diagnose_lists_breakers:
  assumes "quiet_metrics r" "list_all plain_report cs"
    and "same_tables (foldl (\<lambda>r c. report c r) r cs) r'"
  shows "\<exists>es. diag_breakers r' = commas es
    \<and> mset es = mset (map (\<lambda>((m, h), s). breaker_json m h (to_string s)) (breaker_states cs))"
proof -
  let ?hit = "\<lambda>l. case find_sub diag_search l of Some i \<Rightarrow> [drop i l] | None \<Rightarrow> []"
  let ?bl = "map (\<lambda>((m, h), s). breaker_line m h (to_string s)) (breaker_states cs)"
  note x = export_any_order [OF assms(3)] and e = reported_export [OF assms(1,2)] and f = breaker_states_facts [OF assms(2)]
  have "\<forall>l \<in> set (export_lines r'). CHR 0x0A \<notin> set l" using e mset_eq_setD [OF x] by simp
  then have "diag_lines (exportText r') = concat (map ?hit (export_lines r'))" unfolding exportText_def by (rule diag_lines_all)
  moreover have "mset (concat (map ?hit (export_lines r'))) = mset ?bl" unfolding mset_concat_map [OF x] conjunct2 [OF e] ..
  ultimately have "mset (diag_lines (exportText r')) = mset ?bl" by (simp only:)
  then have "mset (map diag_entry (diag_lines (exportText r'))) = mset (map diag_entry ?bl)" by (metis mset_map)
  moreover have "diag_entry (breaker_line m h (to_string s)) = breaker_json m h (to_string s)" if "((m, h), s) \<in> set (breaker_states cs)" for m h s
    using f that by (intro diag_entry_line to_string_no_space) (auto simp: plain_state_def)
  then have "map diag_entry ?bl = map (\<lambda>((m, h), s). breaker_json m h (to_string s)) (breaker_states cs)" by auto
  ultimately have "mset (map diag_entry (diag_lines (exportText r')))
    = mset (map (\<lambda>((m, h), s). breaker_json m h (to_string s)) (breaker_states cs))" by (simp only:)
  then show ?thesis unfolding diag_breakers_def by blast
qed

definition sample_reports :: "(string \<times> string \<times> int) list" where
  "sample_reports = [(''add'', ''10.0.0.1:80'', 0), (''echo'', ''10.0.0.1:80'', 2), (''add'', ''10.0.0.1:80'', 1)]"

definition sample_tables :: metric_registry where
  "sample_tables = (let r = foldl (\<lambda>r c. report c r) new_metrics sample_reports in r\<lparr>mr_gauges := rev (mr_gauges r)\<rparr>)"

theorem diagnose_lists_breakers_witness:
  "\<exists>es. diag_breakers sample_tables = commas es
    \<and> mset es = {#breaker_json ''add'' ''10.0.0.1:80'' ''1'', breaker_json ''echo'' ''10.0.0.1:80'' ''2''#}"
proof -
  have "quiet_metrics new_metrics" by (simp add: quiet_metrics_def new_metrics_def export_lines_def)
  moreover have "list_all plain_report sample_reports"
    by (simp add: sample_reports_def plain_report_def plain_names_def plain_state_def)
  moreover have "same_tables (foldl (\<lambda>r c. report c r) new_metrics sample_reports) sample_tables"
    by (simp add: same_tables_def sample_tables_def Let_def)
  ultimately have "\<exists>es. diag_breakers sample_tables = commas es
    \<and> mset es = mset (map (\<lambda>((m, h), s). breaker_json m h (to_string s)) (breaker_states sample_reports))"
    by (rule diagnose_lists_breakers)
  moreover have "to_string 1 = ''1''" "to_string 2 = ''2''" by code_simp+
  moreover have "breaker_states sample_reports = [((''add'', ''10.0.0.1:80''), 1), ((''echo'', ''10.0.0.1:80''), 2)]"
    by (simp add: sample_reports_def breaker_states_def)
  ultimately show ?thesis by simp
qed

end
