(* ===== verification/Process_Metrics.thy ===== *)
theory Process_Metrics
  imports Metrics
begin

text \<open>
  The gauges of the process: \<open>process_metrics.hpp\<close>, which reads files below \<open>/proc\<close>, and the answer of
  \<open>metrics_server.hpp\<close> to a scrape. A file is its content, \<^const>\<open>None\<close> when it cannot be opened; reading
  from a stream gives the value and the rest of the text. Kernel and library are Linux and its C++ library: a number
  ends at the first character that cannot continue it. Rounding of \<open>double\<close> is not modelled.
\<close>

subsection \<open>Reading from a stream\<close>

definition read_word :: "string \<Rightarrow> (string \<times> string) option" where
  "read_word s =
     (let w = dropWhile is_space s in
      if w = [] then None else Some (takeWhile (\<lambda>c. \<not> is_space c) w, dropWhile (\<lambda>c. \<not> is_space c) w))"

text \<open>\<open>ifs >> value\<close> for a \<open>long\<close> variable with the given value: the new value, whether the stream is still good, the rest.\<close>

definition read_long :: "int \<Rightarrow> string \<Rightarrow> int \<times> bool \<times> string" where
  "read_long value s =
     (let (neg, ds) = signed_digits s; n = (if neg then - atoi_digits ds else atoi_digits ds); rest = dropWhile is_digit ds in
      if dropWhile is_space s = [] then (value, False, [])
      else if takeWhile is_digit ds = [] then (0, False, rest)
      else if n < - (2 ^ 63) then (- (2 ^ 63), False, rest)
      else if n \<ge> 2 ^ 63 then (2 ^ 63 - 1, False, rest)
      else (n, True, rest))"

definition read_double :: "string \<Rightarrow> real" where
  "read_double s =
     (let (neg, t) = signed_digits s; ip = takeWhile is_digit t; t1 = dropWhile is_digit t;
          (fp, t2) = (case t1 of [] \<Rightarrow> ([], []) | c # u \<Rightarrow> if c = CHR ''.'' then (takeWhile is_digit u, dropWhile is_digit u) else ([], t1));
          m = of_int (atoi_digits (ip @ fp)) / 10 ^ length fp;
          x = (if ip = [] \<and> fp = [] then 0
               else case t2 of
                 [] \<Rightarrow> m
               | c # u \<Rightarrow>
                   if c = CHR ''e'' \<or> c = CHR ''E'' then
                     (let (eneg, v) = (case u of [] \<Rightarrow> (False, []) | d # w \<Rightarrow> if d = CHR ''-'' then (True, w) else if d = CHR ''+'' then (False, w) else (False, u)) in
                      if takeWhile is_digit v = [] then 0
                      else if eneg then m / 10 ^ nat (atoi_digits v) else m * 10 ^ nat (atoi_digits v))
                   else m) in
      if neg then - x else x)"

text \<open>\<open>ifs.ignore(n, '\n')\<close>\<close>

definition ignore_line :: "nat \<Rightarrow> string \<Rightarrow> string" where
  "ignore_line n s =
     (if CHR 0x0A \<in> set (take n s) then drop (length (takeWhile (\<lambda>c. c \<noteq> CHR 0x0A) s) + 1) s else drop n s)"

subsection \<open>The files\<close>

text \<open>The thirteen fields after the name; \<^const>\<open>None\<close> is the exception of \<open>std::stol\<close>.\<close>

fun stat_fields :: "nat list \<Rightarrow> int \<times> int \<Rightarrow> string \<Rightarrow> (int \<times> int) option" where
  "stat_fields [] (utime, stime) ss = Some (utime, stime)"
| "stat_fields (i # is) (utime, stime) ss =
     (case read_word ss of
        None \<Rightarrow> Some (utime, stime)
      | Some (field, rest) \<Rightarrow>
          if i = 12 then (case stoll field of None \<Rightarrow> None | Some v \<Rightarrow> stat_fields is (v, stime) rest)
          else if i = 13 then (case stoll field of None \<Rightarrow> None | Some v \<Rightarrow> stat_fields is (utime, v) rest)
          else stat_fields is (utime, stime) rest)"

definition set_gauge :: "string \<Rightarrow> string \<Rightarrow> real \<Rightarrow> metric_registry \<Rightarrow> metric_registry" where
  "set_gauge n h v r = metrics_gauge n h [] (gauge_set v) r"

definition collectStat :: "real \<Rightarrow> string option \<Rightarrow> metric_registry \<Rightarrow> metric_registry option" where
  "collectStat hz file r =
     (case file of
        None \<Rightarrow> Some r
      | Some content \<Rightarrow>
          (let line = takeWhile (\<lambda>c. c \<noteq> CHR 0x0A) content in
           case rfind (CHR '')'') line of
             None \<Rightarrow> Some r
           | Some pos \<Rightarrow>
               if pos + 2 > length line then None
               else map_option (\<lambda>(utime, stime). set_gauge ''process_cpu_seconds_total'' ''Total user+system CPU time in seconds'' (of_int (utime + stime) / hz) r)
                      (stat_fields [1..<14] (0, 0) (drop (pos + 2) line))))"

definition set_rss :: "int \<Rightarrow> metric_registry \<Rightarrow> metric_registry" where
  "set_rss value = set_gauge ''process_resident_memory_bytes'' ''Resident memory (RSS) in bytes'' (of_int value * 1024)"

definition set_vsize :: "int \<Rightarrow> metric_registry \<Rightarrow> metric_registry" where
  "set_vsize value = set_gauge ''process_virtual_memory_bytes'' ''Virtual memory (VSZ) in bytes'' (of_int value * 1024)"

definition set_threads :: "int \<Rightarrow> metric_registry \<Rightarrow> metric_registry" where
  "set_threads value = set_gauge ''process_threads'' ''Thread count'' (of_int value)"

lemma read_word_shorter: "read_word s = Some (w, s') \<Longrightarrow> length s' < length s"
proof -
  assume a: "read_word s = Some (w, s')"
  let ?w = "dropWhile is_space s"
  have n: "?w \<noteq> []" and s': "s' = dropWhile (\<lambda>c. \<not> is_space c) ?w" using a by (auto simp: read_word_def Let_def split: if_splits)
  have "\<not> is_space (hd ?w)" using n by (rule hd_dropWhile)
  then obtain c cs where c: "?w = c # cs" "\<not> is_space c" using n by (cases ?w) auto
  then have "length s' \<le> length cs" using s' by (simp add: length_dropWhile_le)
  also have "length cs < length ?w" using c by simp
  also have "\<dots> \<le> length s" by (simp add: length_dropWhile_le)
  finally show ?thesis .
qed

lemma signed_digits_shorter: "length (snd (signed_digits s)) \<le> length s"
proof -
  have "length (snd (signed_digits s)) \<le> length (dropWhile is_space s)"
    unfolding signed_digits_def by (split list.split) auto
  also have "\<dots> \<le> length s" by (rule length_dropWhile_le)
  finally show ?thesis .
qed

lemma read_long_shorter: "length (snd (snd (read_long v s))) \<le> length s"
proof -
  obtain neg ds where d: "signed_digits s = (neg, ds)" by fastforce
  have "snd (snd (read_long v s)) \<in> {[], dropWhile is_digit ds}" by (simp add: read_long_def d Let_def)
  moreover have "length (dropWhile is_digit ds) \<le> length s"
    using length_dropWhile_le [of is_digit ds] signed_digits_shorter [of s] by (simp add: d)
  ultimately show ?thesis by auto
qed

lemma read_long_rest: "(n, good, s') = read_long v s \<Longrightarrow> length s' \<le> length s"
  using read_long_shorter [of v s] by (metis snd_conv)

text \<open>The loop over the words of \<open>/proc/self/status\<close>; a stream that is no longer good ends it.\<close>

function status_loop :: "int \<Rightarrow> string \<Rightarrow> metric_registry \<Rightarrow> metric_registry" where
  "status_loop value s r =
     (case read_word s of
        None \<Rightarrow> r
      | Some (key, s1) \<Rightarrow>
          if key = ''VmRSS:'' then
            (case read_long value s1 of (v, good, s2) \<Rightarrow>
               if good then (case read_word s2 of None \<Rightarrow> set_rss v r | Some (_, s3) \<Rightarrow> status_loop v s3 (set_rss v r))
               else set_rss v r)
          else if key = ''VmSize:'' then
            (case read_long value s1 of (v, good, s2) \<Rightarrow>
               if good then (case read_word s2 of None \<Rightarrow> set_vsize v r | Some (_, s3) \<Rightarrow> status_loop v s3 (set_vsize v r))
               else set_vsize v r)
          else if key = ''Threads:'' then
            (case read_long value s1 of (v, good, s2) \<Rightarrow>
               if good then status_loop v s2 (set_threads v r) else set_threads v r)
          else status_loop value (ignore_line 256 s1) r)"
  by auto

lemma ignore_line_shorter: "length (ignore_line n s) \<le> length s"
  by (simp add: ignore_line_def)

termination status_loop
  by (relation "measure (\<lambda>(v, s, r). length s)")
    (auto dest!: read_word_shorter read_long_rest intro: le_less_trans [OF ignore_line_shorter])

declare status_loop.simps [simp del]

definition collectStatus :: "string option \<Rightarrow> metric_registry \<Rightarrow> metric_registry" where
  "collectStatus file r = (case file of None \<Rightarrow> r | Some content \<Rightarrow> status_loop 0 content r)"

text \<open>The argument is the number of entries that \<open>readdir\<close> gives.\<close>

definition collectFds :: "nat option \<Rightarrow> metric_registry \<Rightarrow> metric_registry" where
  "collectFds entries r =
     (case entries of None \<Rightarrow> r | Some count \<Rightarrow> set_gauge ''process_open_fds'' ''Open file descriptors'' (of_int (int count - 3)) r)"

definition collectLoadavg :: "string option \<Rightarrow> metric_registry \<Rightarrow> metric_registry" where
  "collectLoadavg file r =
     (case file of None \<Rightarrow> r | Some content \<Rightarrow> set_gauge ''system_loadavg_1m'' ''System 1-minute load average'' (read_double content) r)"

record proc_files =
  pf_hz :: real
  pf_stat :: "string option"
  pf_status :: "string option"
  pf_fds :: "nat option"
  pf_loadavg :: "string option"

definition collect :: "proc_files \<Rightarrow> metric_registry \<Rightarrow> metric_registry option" where
  "collect f r =
     map_option (\<lambda>r1. collectLoadavg (pf_loadavg f) (collectFds (pf_fds f) (collectStatus (pf_status f) r1)))
       (collectStat (pf_hz f) (pf_stat f) r)"

subsection \<open>A scrape\<close>

text \<open>
  The answer to the bytes of one connection, none when nothing was received; \<^const>\<open>None\<close>: an
  exception leaves the callback.
\<close>

definition scrape :: "real \<Rightarrow> proc_files \<Rightarrow> string \<Rightarrow> metric_registry \<Rightarrow> (metric_registry \<times> string option) option" where
  "scrape uptime f buf r =
     (if buf = [] then Some (r, None)
      else if take 12 buf = ''GET /metrics'' then
        map_option (\<lambda>r1. (r1, let body = exportText r1 in
            Some (''HTTP/1.1 200 OK'' @ http_crlf @ ''Content-Type: text/plain; version=0.0.4'' @ http_crlf @
              ''Content-Length: '' @ to_string (int (length body)) @ http_crlf @ http_crlf @ body)))
          (collect f (set_gauge ''rpc_server_uptime_seconds'' ''Server uptime in seconds'' uptime r))
      else Some (r, Some (''HTTP/1.1 404 Not Found'' @ http_crlf @ ''Content-Length: 0'' @ http_crlf @ http_crlf)))"

subsection \<open>What the kernel writes is read\<close>

abbreviation spaces :: "string \<Rightarrow> bool" where
  "spaces s \<equiv> list_all is_space s"

abbreviation word_of_text :: "string \<Rightarrow> bool" where
  "word_of_text w \<equiv> w \<noteq> [] \<and> list_all (\<lambda>c. \<not> is_space c) w"

abbreviation word_ends :: "string \<Rightarrow> bool" where
  "word_ends t \<equiv> t = [] \<or> is_space (hd t)"

lemma dropWhile_space: "spaces sp \<Longrightarrow> w \<noteq> [] \<Longrightarrow> \<not> is_space (hd w) \<Longrightarrow> dropWhile is_space (sp @ w) = w"
  by (cases w) (auto simp: dropWhile_append2 list_all_iff)

lemma read_word_next:
  assumes "spaces sp" "word_of_text w" "word_ends t"
  shows "read_word (sp @ w @ t) = Some (w, t)"
proof -
  have "dropWhile is_space (sp @ w @ t) = w @ t"
    using assms(1,2) by (intro dropWhile_space) (auto simp: list_all_iff)
  moreover have "takeWhile (\<lambda>c. \<not> is_space c) (w @ t) = w" "dropWhile (\<lambda>c. \<not> is_space c) (w @ t) = t"
    using assms(2,3) by (cases t; auto simp: list_all_iff takeWhile_append2 dropWhile_append2)+
  ultimately show ?thesis using assms(2) by (simp add: read_word_def)
qed

lemma read_word_end: "spaces sp \<Longrightarrow> read_word sp = None"
  by (simp add: read_word_def list_all_iff)

lemma to_string_word: "word_of_text (to_string i)"
  using dec_nat_digits [of "nat \<bar>i\<bar>"] dec_nat_nonempty digit_not_sign(1)
  by (auto simp: to_string_def list_all_iff is_space_def [of "CHR ''-''"])

lemma read_long_text:
  assumes "spaces sp" "0 \<le> i" "i < 2 ^ 63" "word_ends t"
  shows "read_long v (sp @ to_string i @ t) = (i, True, t)"
proof -
  obtain c cs where d: "dec_nat (nat i) = c # cs" using dec_nat_nonempty by (meson neq_Nil_conv)
  have c: "is_digit c" using dec_nat_digits [of "nat i"] d by auto
  have n: "t = [] \<or> \<not> is_digit (hd t)" using assms(4) digit_not_sign(1) by auto
  have w: "dropWhile is_space (sp @ to_string i @ t) = dec_nat (nat i) @ t"
    using assms(1,2) digit_not_sign(1) [OF c] d by (subst dropWhile_space) (simp_all add: to_string_def)
  then have s: "signed_digits (sp @ to_string i @ t) = (False, dec_nat (nat i) @ t)"
    using d digit_not_sign [OF c] by (simp add: signed_digits_def)
  have tk: "takeWhile is_digit (dec_nat (nat i) @ t) = dec_nat (nat i)" "dropWhile is_digit (dec_nat (nat i) @ t) = t"
    using dec_nat_digits [of "nat i"] n by (cases t; auto simp: takeWhile_append2 dropWhile_append2 subset_iff)+
  have "atoi_digits (dec_nat (nat i) @ t) = i"
    using atoi_digits_dec [of "nat i"] assms(2) by (simp add: atoi_digits_def tk takeWhile_dec)
  then show ?thesis using assms(2,3) w s tk d by (simp add: read_long_def)
qed

lemma stat_skip:
  assumes "length is = length ws" "list_all (\<lambda>i. i \<noteq> 12 \<and> i \<noteq> 13) is" "list_all word_of_text ws" "spaces sp"
  shows "\<exists>sp'. spaces sp' \<and>
    stat_fields (is @ js) p (sp @ concat (map (\<lambda>w. w @ '' '') ws) @ t) = stat_fields js p (sp' @ t)"
  using assms
proof (induction "is" ws arbitrary: sp rule: list_induct2)
  case Nil
  then show ?case by auto
next
  case (Cons i "is" w ws)
  let ?u = "concat (map (\<lambda>w. w @ '' '') ws) @ t"
  have s: "is_space (CHR '' '')" by (simp add: is_space_def)
  have "read_word (sp @ w @ '' '' @ ?u) = Some (w, '' '' @ ?u)"
    using Cons.prems s by (intro read_word_next) simp_all
  then have "stat_fields ((i # is) @ js) p (sp @ concat (map (\<lambda>w. w @ '' '') (w # ws)) @ t) = stat_fields (is @ js) p ('' '' @ ?u)"
    using Cons.prems by (cases p) simp
  moreover have "\<exists>sp'. spaces sp' \<and> stat_fields (is @ js) p ('' '' @ ?u) = stat_fields js p (sp' @ t)"
    using Cons.prems s by (intro Cons.IH) simp_all
  ultimately show ?case by simp
qed

definition stat_line :: "int \<Rightarrow> string \<Rightarrow> string list \<Rightarrow> int \<Rightarrow> int \<Rightarrow> string \<Rightarrow> string" where
  "stat_line pid comm ws utime stime rest =
     to_string pid @ '' ('' @ comm @ '') '' @ concat (map (\<lambda>w. w @ '' '') ws) @ to_string utime @ '' '' @ to_string stime @ rest"

lemma stat_fields_line:
  assumes "length ws = 11" "list_all word_of_text ws" "0 \<le> u" "u < 2 ^ 63" "0 \<le> v" "v < 2 ^ 63" "word_ends rest"
  shows "stat_fields [1..<14] (0, 0) (concat (map (\<lambda>w. w @ '' '') ws) @ to_string u @ '' '' @ to_string v @ rest) = Some (u, v)"
proof -
  have l: "[1..<14] = [1..<12] @ [12, 13]" by (simp add: upt_rec)
  have s: "is_space (CHR '' '')" by (simp add: is_space_def)
  obtain sp where sp: "spaces sp"
    and e: "stat_fields ([1..<12] @ [12, 13]) (0, 0) ([] @ concat (map (\<lambda>w. w @ '' '') ws) @ to_string u @ '' '' @ to_string v @ rest)
      = stat_fields [12, 13] (0, 0) (sp @ to_string u @ '' '' @ to_string v @ rest)"
    using stat_skip [of "[1..<12]" ws "[]" "[12, 13]" "(0, 0)" "to_string u @ '' '' @ to_string v @ rest"] assms(1,2)
    by (auto simp: list_all_iff)
  have "read_word (sp @ to_string u @ '' '' @ to_string v @ rest) = Some (to_string u, '' '' @ to_string v @ rest)"
    using sp s to_string_word by (intro read_word_next) simp_all
  moreover have "read_word ('' '' @ to_string v @ rest) = Some (to_string v, rest)"
    using s to_string_word assms(7) by (intro read_word_next) simp_all
  moreover have "stoll (to_string u) = Some u" "stoll (to_string v) = Some v"
    unfolding stoll_def using assms by (intro sto_to_string; simp)+
  ultimately show ?thesis using e unfolding l by simp
qed

text \<open>
  Remark. The processor time is read out of \<open>/proc/self/stat\<close> whatever the name of the program is, spaces and
  parentheses included.
\<close>

theorem cpu_time_read:
  assumes "CHR 0x0A \<notin> set comm" "length ws = 11" "list_all (\<lambda>w. word_of_text w \<and> CHR '')'' \<notin> set w) ws"
    and "0 \<le> u" "u < 2 ^ 63" "0 \<le> v" "v < 2 ^ 63" "word_ends rest" "CHR '')'' \<notin> set rest" "CHR 0x0A \<notin> set rest"
  shows "collectStat hz (Some (stat_line pid comm ws u v rest @ [CHR 0x0A])) r
    = Some (set_gauge ''process_cpu_seconds_total'' ''Total user+system CPU time in seconds'' (of_int (u + v) / hz) r)"
proof -
  let ?f = "concat (map (\<lambda>w. w @ '' '') ws) @ to_string u @ '' '' @ to_string v @ rest"
  let ?a = "to_string pid @ '' ('' @ comm"
  have num: "c \<notin> set (to_string i)" if "\<not> is_digit c" "c \<noteq> CHR ''-''" for c i
    using that dec_nat_digits [of "nat \<bar>i\<bar>"] by (auto simp: to_string_def)
  have line: "stat_line pid comm ws u v rest = ?a @ CHR '')'' # CHR '' '' # ?f" by (simp add: stat_line_def)
  have "CHR '')'' \<notin> set (CHR '' '' # ?f)" using assms(3,9) num by (auto simp: list_all_iff is_digit_def)
  then have pos: "rfind (CHR '')'') (stat_line pid comm ws u v rest) = Some (length ?a)" unfolding line by (rule rfind_last_at)
  have "is_space (CHR 0x0A)" by (simp add: is_space_def)
  then have "CHR 0x0A \<notin> set w" if "w \<in> set ws" for w using that assms(3) unfolding list_all_iff by blast
  then have "CHR 0x0A \<notin> set (stat_line pid comm ws u v rest)"
    using assms(1,10) num by (auto simp: stat_line_def is_digit_def)
  then have nl: "takeWhile (\<lambda>c. c \<noteq> CHR 0x0A) (stat_line pid comm ws u v rest @ [CHR 0x0A]) = stat_line pid comm ws u v rest"
    using takeWhile_sep [of "CHR 0x0A" _ "[]"] by blast
  have "list_all word_of_text ws" using assms(3) by (simp add: list_all_iff)
  from stat_fields_line [OF assms(2) this assms(4-8)] have "stat_fields [1..<14] (0, 0) ?f = Some (u, v)" .
  moreover have "drop (length a + 2) (a @ x # y # f) = f \<and> length a + 2 \<le> length (a @ x # y # f)" for a f :: string and x y
    by simp
  then have "drop (length ?a + 2) (stat_line pid comm ws u v rest) = ?f" "\<not> length ?a + 2 > length (stat_line pid comm ws u v rest)"
    unfolding line by (metis, metis leD)
  ultimately show ?thesis unfolding collectStat_def option.case nl Let_def pos by simp
qed

theorem cpu_time_read_witness:
  "collectStat 100 (Some (stat_line 7 ''a) b'' (replicate 11 ''0'') 150 50 '' 0 0'' @ [CHR 0x0A])) r
    = Some (set_gauge ''process_cpu_seconds_total'' ''Total user+system CPU time in seconds'' 2 r)"
  using cpu_time_read [of "''a) b''" "replicate 11 ''0''" 150 50 "'' 0 0''" 100 7 r] by (simp add: list_all_iff is_space_def)

text \<open>The lines of \<open>/proc/self/status\<close>: a key, blanks, a number; or another key with any text.\<close>

datatype status_line = RssLine string int | SizeLine string int | ThreadsLine string int | OtherLine string string

fun line_text :: "status_line \<Rightarrow> string" where
  "line_text (RssLine sp n) = ''VmRSS:'' @ sp @ to_string n @ '' kB'' @ [CHR 0x0A]"
| "line_text (SizeLine sp n) = ''VmSize:'' @ sp @ to_string n @ '' kB'' @ [CHR 0x0A]"
| "line_text (ThreadsLine sp n) = ''Threads:'' @ sp @ to_string n @ [CHR 0x0A]"
| "line_text (OtherLine k v) = k @ v @ [CHR 0x0A]"

fun line_ok :: "status_line \<Rightarrow> bool" where
  "line_ok (RssLine sp n) \<longleftrightarrow> sp \<noteq> [] \<and> spaces sp \<and> 0 \<le> n \<and> n < 2 ^ 63"
| "line_ok (SizeLine sp n) \<longleftrightarrow> sp \<noteq> [] \<and> spaces sp \<and> 0 \<le> n \<and> n < 2 ^ 63"
| "line_ok (ThreadsLine sp n) \<longleftrightarrow> sp \<noteq> [] \<and> spaces sp \<and> 0 \<le> n \<and> n < 2 ^ 63"
| "line_ok (OtherLine k v) \<longleftrightarrow> word_of_text k \<and> k \<notin> {''VmRSS:'', ''VmSize:'', ''Threads:''} \<and> word_ends v \<and> CHR 0x0A \<notin> set v \<and> length v \<le> 255"

fun line_gauge :: "metric_registry \<Rightarrow> status_line \<Rightarrow> metric_registry" where
  "line_gauge r (RssLine sp n) = set_rss n r"
| "line_gauge r (SizeLine sp n) = set_vsize n r"
| "line_gauge r (ThreadsLine sp n) = set_threads n r"
| "line_gauge r (OtherLine k v) = r"

lemma ignore_rest:
  assumes v: "CHR 0x0A \<notin> set v" "length v \<le> 255"
  shows "ignore_line 256 (v @ CHR 0x0A # t) = t"
proof -
  from v obtain k where "256 - length v = Suc k" by (cases "256 - length v") auto
  then have "CHR 0x0A \<in> set (take 256 (v @ CHR 0x0A # t))" by simp
  moreover have "takeWhile (\<lambda>c. c \<noteq> CHR 0x0A) (v @ CHR 0x0A # t) = v" by (rule takeWhile_sep [OF v(1)])
  ultimately show ?thesis by (simp add: ignore_line_def)
qed

lemma key_read:
  assumes "spaces sp" "word_of_text k" "sp' \<noteq> []" "spaces sp'"
  shows "read_word (sp @ k @ sp' @ t) = Some (k, sp' @ t)"
  using assms by (intro read_word_next) (cases sp'; simp)+

lemma status_loop_lines:
  assumes "list_all line_ok ls" "spaces sp"
  shows "status_loop x (sp @ concat (map line_text ls)) r = foldl line_gauge r ls"
  using assms
proof (induction ls arbitrary: x sp r)
  case Nil
  then show ?case by (subst status_loop.simps) (simp add: read_word_end)
next
  case (Cons l ls)
  let ?t = "concat (map line_text ls)"
  have b: "is_space (CHR 0x0A)" "is_space (CHR '' '')" "word_of_text ''kB''" "word_of_text ''VmRSS:''" "word_of_text ''VmSize:''" "word_of_text ''Threads:''"
    by (simp_all add: is_space_def)
  have unit: "read_word ('' kB'' @ CHR 0x0A # ?t) = Some (''kB'', CHR 0x0A # ?t)"
    using read_word_next [of "'' ''" "''kB''" "CHR 0x0A # ?t"] b by simp
  have IH: "status_loop v (CHR 0x0A # ?t) r' = foldl line_gauge r' ls" "status_loop v ?t r' = foldl line_gauge r' ls" for v r'
    using Cons.IH [of "[CHR 0x0A]"] Cons.IH [of "[]"] Cons.prems(1) b by simp_all
  have num: "read_long x (sp' @ to_string n @ '' kB'' @ CHR 0x0A # ?t) = (n, True, '' kB'' @ CHR 0x0A # ?t)"
    "read_long x (sp' @ to_string n @ CHR 0x0A # ?t) = (n, True, CHR 0x0A # ?t)" if "spaces sp'" "0 \<le> n" "n < 2 ^ 63" for sp' n
    using that b by (intro read_long_text; simp)+
  show ?case
  proof (cases l)
    case (RssLine sp' n)
    then show ?thesis using Cons.prems num [of sp' n] unit IH key_read [of sp "''VmRSS:''" sp'] b
      by (subst status_loop.simps) simp
  next
    case (SizeLine sp' n)
    then show ?thesis using Cons.prems num [of sp' n] unit IH key_read [of sp "''VmSize:''" sp'] b
      by (subst status_loop.simps) simp
  next
    case (ThreadsLine sp' n)
    then show ?thesis using Cons.prems num [of sp' n] IH key_read [of sp "''Threads:''" sp'] b
      by (subst status_loop.simps) simp
  next
    case (OtherLine k v)
    moreover have "read_word (sp @ k @ v @ CHR 0x0A # ?t) = Some (k, v @ CHR 0x0A # ?t)"
      using OtherLine Cons.prems b by (intro read_word_next) (cases v; simp)+
    ultimately show ?thesis using Cons.prems IH ignore_rest [of v ?t] by (subst status_loop.simps) simp
  qed
qed

text \<open>
  Remark. The memory and thread gauges are what the file says, whatever other lines it has, as long as
  these have no more than 255 characters after their key.
\<close>

theorem status_read:
  assumes "list_all line_ok ls"
  shows "collectStatus (Some (concat (map line_text ls))) r = foldl line_gauge r ls"
  using status_loop_lines [OF assms, of "[]" 0 r] by (simp add: collectStatus_def)

theorem status_read_witness:
  "collectStatus (Some (concat (map line_text [OtherLine ''Name:'' '' VmRSS: 3 kB'', SizeLine ''  '' 9, RssLine '' '' 5]))) r = set_rss 5 (set_vsize 9 r)"
  by (subst status_read) (simp_all add: is_space_def)

end
