(* ===== verification/Log_Format.thy ===== *)
theory Log_Format
  imports Config
begin

text \<open>
  Levels, messages and formats of the logger (\<open>log_system/level.hpp\<close>, \<open>message.hpp\<close> and
  \<open>Logformat.hpp\<close>): the pattern is parsed once into a list of items, each of which prints a part of a
  message. \<open>strftime\<close> with the local time is an argument; a thread id is the text it prints as.
\<close>

subsection \<open>Messages\<close>

datatype log_level = UNKNOW | DEBUG | INFO | WARN | ERROR | FATAL | OFF

fun level_rank :: "log_level \<Rightarrow> nat" where
  "level_rank UNKNOW = 0"
| "level_rank DEBUG = 1"
| "level_rank INFO = 2"
| "level_rank WARN = 3"
| "level_rank ERROR = 4"
| "level_rank FATAL = 5"
| "level_rank OFF = 6"

fun level_text :: "log_level \<Rightarrow> string" where
  "level_text DEBUG = ''DEBUG''"
| "level_text INFO = ''INFO''"
| "level_text WARN = ''WARN''"
| "level_text ERROR = ''ERROR''"
| "level_text FATAL = ''FATAL''"
| "level_text OFF = ''OFF''"
| "level_text UNKNOW = ''UNKNOW''"

record logmsg =
  lm_time :: int
  lm_level :: log_level
  lm_file :: string
  lm_line :: nat
  lm_tid :: string
  lm_logger :: string
  lm_payload :: string

subsection \<open>Items\<close>

datatype format_item =
    MsgItem | LevelItem | TimeItem string | FileItem | LineItem | ThreadItem | LoggerItem | TabItem | NlineItem
  | OtherItem string

fun item_text :: "(string \<Rightarrow> int \<Rightarrow> string) \<Rightarrow> logmsg \<Rightarrow> format_item \<Rightarrow> string" where
  "item_text strftime m MsgItem = lm_payload m"
| "item_text strftime m LevelItem = level_text (lm_level m)"
| "item_text strftime m (TimeItem f) = strftime f (lm_time m)"
| "item_text strftime m FileItem = lm_file m"
| "item_text strftime m LineItem = to_string (int (lm_line m))"
| "item_text strftime m ThreadItem = lm_tid m"
| "item_text strftime m LoggerItem = lm_logger m"
| "item_text strftime m TabItem = [CHR 0x09]"
| "item_text strftime m NlineItem = [CHR 0x0A]"
| "item_text strftime m (OtherItem s) = s"

definition createFormatItem :: "string \<Rightarrow> string \<Rightarrow> format_item" where
  "createFormatItem key val =
     (if key = ''d'' then TimeItem val else if key = ''T'' then TabItem else if key = ''t'' then ThreadItem
      else if key = ''p'' then LevelItem else if key = ''c'' then LoggerItem else if key = ''f'' then FileItem
      else if key = ''l'' then LineItem else if key = ''m'' then MsgItem else if key = ''n'' then NlineItem
      else if key = ''other'' then OtherItem val else OtherItem (''%'' @ key @ val))"

subsection \<open>Patterns\<close>

text \<open>The optional argument in braces: \<^const>\<open>None\<close> when it is not closed, else it and what follows.\<close>

definition brace_arg :: "string \<Rightarrow> (string \<times> string) option" where
  "brace_arg s =
     (case s of
        [] \<Rightarrow> Some ([], s)
      | c # cs \<Rightarrow>
          if c \<noteq> CHR ''{'' then Some ([], s)
          else if CHR ''}'' \<notin> set cs then None
          else (let v = takeWhile (\<lambda>d. d \<noteq> CHR ''}'') cs in Some (v, drop (length v + 1) cs)))"

lemma brace_arg_length: "brace_arg s = Some (v, r) \<Longrightarrow> length r \<le> length s"
  by (auto simp: brace_arg_def Let_def split: list.splits if_splits)

text \<open>The loop of \<open>parsePattern\<close> with the text collected so far; that text is dropped at the end of the pattern.\<close>

function parse_loop :: "string \<Rightarrow> string \<Rightarrow> (string \<times> string) list option" where
  "parse_loop [] val = Some []"
| "parse_loop (c # cs) val =
     (if c \<noteq> CHR ''%'' then parse_loop cs (val @ [c])
      else case cs of
        [] \<Rightarrow> None
      | k # rest \<Rightarrow>
          if k = CHR ''%'' then parse_loop rest (val @ ''%'')
          else case brace_arg rest of
            None \<Rightarrow> None
          | Some (v, r) \<Rightarrow>
              map_option (\<lambda>order. (if val = [] then [] else [(''other'', val)]) @ ([k], v) # order) (parse_loop r []))"
  by pat_completeness auto

termination parse_loop
  by (relation "measure (\<lambda>(s, val). length s)") (auto dest: brace_arg_length)

declare parse_loop.simps [simp del]

definition parsePattern :: "string \<Rightarrow> format_item list option" where
  "parsePattern pattern = map_option (map (\<lambda>(key, val). createFormatItem key val)) (parse_loop pattern [])"

text \<open>The constructor asserts that the pattern was parsed.\<close>

definition Formatter :: "string \<Rightarrow> format_item list option" where
  "Formatter pattern = parsePattern pattern"

definition default_pattern :: string where
  "default_pattern = ''[%d{%H:%M:%S}][%t][%c][%f:%l][%p]%T%m%n''"

definition format_msg :: "(string \<Rightarrow> int \<Rightarrow> string) \<Rightarrow> format_item list \<Rightarrow> logmsg \<Rightarrow> string" where
  "format_msg strftime items m = (if items = [] then lm_payload m else concat (map (item_text strftime m) items))"

subsection \<open>What a pattern means\<close>

text \<open>The pattern of a list of items: a percent sign in plain text is doubled.\<close>

definition escape :: "string \<Rightarrow> string" where
  "escape s = concat (map (\<lambda>c. if c = CHR ''%'' then ''%%'' else [c]) s)"

fun item_pattern :: "format_item \<Rightarrow> string" where
  "item_pattern MsgItem = ''%m''"
| "item_pattern LevelItem = ''%p''"
| "item_pattern (TimeItem f) = ''%d{'' @ f @ ''}''"
| "item_pattern FileItem = ''%f''"
| "item_pattern LineItem = ''%l''"
| "item_pattern ThreadItem = ''%t''"
| "item_pattern LoggerItem = ''%c''"
| "item_pattern TabItem = ''%T''"
| "item_pattern NlineItem = ''%n''"
| "item_pattern (OtherItem s) = escape s"

definition pattern_of :: "format_item list \<Rightarrow> string" where
  "pattern_of items = concat (map item_pattern items)"

text \<open>
  Items that can be written as a pattern: plain text is not empty, does not stand beside other plain
  text and does not start with a brace, and a time format has no closing brace.
\<close>

fun writable_item :: "format_item \<Rightarrow> bool" where
  "writable_item (TimeItem f) \<longleftrightarrow> CHR ''}'' \<notin> set f"
| "writable_item (OtherItem s) \<longleftrightarrow> s \<noteq> [] \<and> hd s \<noteq> CHR ''{''"
| "writable_item _ \<longleftrightarrow> True"

fun is_other :: "format_item \<Rightarrow> bool" where
  "is_other (OtherItem s) \<longleftrightarrow> True"
| "is_other _ \<longleftrightarrow> False"

fun apart :: "format_item list \<Rightarrow> bool" where
  "apart (a # b # items) \<longleftrightarrow> \<not> (is_other a \<and> is_other b) \<and> apart (b # items)"
| "apart _ \<longleftrightarrow> True"

lemma escape_Nil [simp]: "escape [] = []"
  by (simp add: escape_def)

lemma escape_Cons: "escape (c # s) = (if c = CHR ''%'' then ''%%'' else [c]) @ escape s"
  by (simp add: escape_def)

lemma parse_escape: "parse_loop (escape s @ r) val = parse_loop r (val @ s)"
proof (induction s arbitrary: val)
  case (Cons c s)
  show ?case using Cons [of "val @ [c]"] by (auto simp: escape_Cons parse_loop.simps(2))
qed simp

definition no_brace :: "string \<Rightarrow> bool" where
  "no_brace r \<longleftrightarrow> r = [] \<or> hd r \<noteq> CHR ''{''"

lemma brace_arg_none: "no_brace r \<Longrightarrow> brace_arg r = Some ([], r)"
  by (auto simp: no_brace_def brace_arg_def split: list.split)

lemma brace_arg_time: "CHR ''}'' \<notin> set f \<Longrightarrow> brace_arg (CHR ''{'' # f @ CHR ''}'' # r) = Some (f, r)"
  using takeWhile_sep [of "CHR ''}''" f r] by (simp add: brace_arg_def Let_def del: takeWhile_append)

fun item_order :: "format_item \<Rightarrow> string \<times> string" where
  "item_order MsgItem = (''m'', [])"
| "item_order LevelItem = (''p'', [])"
| "item_order (TimeItem f) = (''d'', f)"
| "item_order FileItem = (''f'', [])"
| "item_order LineItem = (''l'', [])"
| "item_order ThreadItem = (''t'', [])"
| "item_order LoggerItem = (''c'', [])"
| "item_order TabItem = (''T'', [])"
| "item_order NlineItem = (''n'', [])"
| "item_order (OtherItem s) = (''other'', s)"

lemma parse_item:
  assumes "\<not> is_other it" "writable_item it" "no_brace r"
  shows "parse_loop (item_pattern it @ r) val =
    map_option (\<lambda>ord. (if val = [] then [] else [(''other'', val)]) @ item_order it # ord) (parse_loop r [])"
  using assms by (cases it) (simp_all add: parse_loop.simps(2) brace_arg_none brace_arg_time)

lemma create_item: "(case item_order it of (key, val) \<Rightarrow> createFormatItem key val) = it"
  by (cases it) (simp_all add: createFormatItem_def)

lemma no_brace_item: "writable_item it \<Longrightarrow> no_brace (item_pattern it @ r)"
  by (cases it) (auto simp: no_brace_def escape_def neq_Nil_conv split: if_splits)

lemma no_brace_pattern: "list_all writable_item items \<Longrightarrow> no_brace r \<Longrightarrow> no_brace (pattern_of items @ r)"
  using no_brace_item by (cases items) (auto simp: pattern_of_def)

lemma parse_items:
  assumes "list_all writable_item items" "apart items" "items = [] \<or> \<not> is_other (last items)" "no_brace tail"
  shows "parse_loop (pattern_of items @ escape tail) [] = Some (map item_order items)"
  using assms
proof (induction items rule: apart.induct)
  case (1 a b items)
  let ?r = "pattern_of items @ escape tail"
  have t: "no_brace (escape tail)" using 1(5) by (cases tail) (auto simp: no_brace_def escape_Cons)
  have IH: "parse_loop (pattern_of (b # items) @ escape tail) [] = Some (map item_order (b # items))"
    using 1 by (intro "1.IH") auto
  show ?case
  proof (cases "is_other a")
    case False
    have "no_brace (pattern_of (b # items) @ escape tail)" using no_brace_pattern t "1.prems" by auto
    then show ?thesis using parse_item [OF False] "1.prems" IH by (simp add: pattern_of_def)
  next
    case True
    then obtain s where s: "a = OtherItem s" by (cases a) auto
    have b: "\<not> is_other b" "writable_item b" "no_brace (pattern_of items @ escape tail)"
      using "1.prems" s no_brace_pattern t by auto
    from parse_item [OF b, of "[]"] IH have "parse_loop (pattern_of items @ escape tail) [] = Some (map item_order items)"
      by (auto simp: pattern_of_def)
    then show ?thesis using parse_item [OF b, of s] "1.prems"(1) s by (simp add: pattern_of_def parse_escape)
  qed
next
  case "2_1"
  show ?case using parse_escape [of tail "[]" "[]"] by (simp add: pattern_of_def parse_loop.simps)
next
  case "2_2"
  have t: "no_brace (escape tail)" using "2_2"(4) by (cases tail) (auto simp: no_brace_def escape_Cons)
  have "parse_loop (escape tail) [] = Some []" using parse_escape [of tail "[]" "[]"] by (simp add: parse_loop.simps)
  then show ?case using parse_item [of _ "escape tail" "[]"] "2_2" t by (simp add: pattern_of_def)
qed

text \<open>
  Property C18. A pattern is read as it was written: for any items, ending with one that is no plain text, the pattern
  that writes them is parsed into exactly these items, percent signs in the text included. But plain text
  after the last item is lost: the items are the same whatever text follows.
\<close>

theorem pattern_roundtrip:
  assumes "list_all writable_item items" "apart items" "items = [] \<or> \<not> is_other (last items)" "no_brace tail"
  shows "Formatter (pattern_of items @ escape tail) = Some items"
proof -
  have "map ((\<lambda>(key, val). createFormatItem key val) \<circ> item_order) items = items"
    using create_item by (simp add: comp_def map_idI)
  then show ?thesis using parse_items [OF assms] by (simp add: Formatter_def parsePattern_def)
qed

theorem pattern_roundtrip_witness:
  "Formatter (pattern_of [OtherItem ''100% '', MsgItem, OtherItem ''|'', TimeItem ''%H''] @ escape ''] end'') =
    Some [OtherItem ''100% '', MsgItem, OtherItem ''|'', TimeItem ''%H'']"
  by (rule pattern_roundtrip) (simp_all add: no_brace_def)

text \<open>
  Remark. The line of the default pattern.
\<close>

theorem default_line:
  "map_option (\<lambda>items. format_msg strftime items m) (Formatter default_pattern) =
    Some (''['' @ strftime ''%H:%M:%S'' (lm_time m) @ ''][''@ lm_tid m @ ''][''@ lm_logger m @ ''][''@ lm_file m @ '':'' @
      to_string (int (lm_line m)) @ '']['' @ level_text (lm_level m) @ '']'' @ [CHR 0x09] @ lm_payload m @ [CHR 0x0A])"
proof -
  have "parsePattern default_pattern = Some [OtherItem ''['', TimeItem ''%H:%M:%S'', OtherItem '']['', ThreadItem, OtherItem '']['', LoggerItem,
    OtherItem '']['', FileItem, OtherItem '':'', LineItem, OtherItem '']['', LevelItem, OtherItem '']'', TabItem, MsgItem, NlineItem]"
    by (simp add: parsePattern_def default_pattern_def parse_loop.simps brace_arg_def createFormatItem_def)
  then show ?thesis by (simp add: Formatter_def format_msg_def)
qed

text \<open>
  Remark. A time item without an argument prints nothing useful: its format is empty, not the one that its class names
  as the default.
\<close>

theorem plain_time_item: "Formatter ''%d%n'' = Some [TimeItem [], NlineItem]"
  by (simp add: Formatter_def parsePattern_def parse_loop.simps brace_arg_def createFormatItem_def)

end
