(* ===== verification/Async_Log.thy ===== *)
theory Async_Log
  imports Config
begin

text \<open>
  The asynchronous part of the logger: the growing buffer of \<open>log_system/buffer.hpp\<close> and the worker of
  \<open>looper.hpp\<close> with its two buffers. Threads are steps of a transition relation: a step is one critical
  section, since each operation holds the mutex from the test of its condition to its end (the worker
  also while it calls back). Bytes that a \<open>resize\<close> adds are zero, as are those of a new buffer.
\<close>

subsection \<open>The buffer\<close>

definition DEFAULT_BUFFER_SIZE :: nat where
  "DEFAULT_BUFFER_SIZE = 1 * 1024 * 1024"

definition THRESHOLD_BUFFER_SIZE :: nat where
  "THRESHOLD_BUFFER_SIZE = 3 * 1024 * 1024"

definition INCREMENT_BUF_SIZE :: nat where
  "INCREMENT_BUF_SIZE = 1 * 1024 * 1024"

record log_buffer =
  lb_buf :: string
  lb_write_pos :: nat
  lb_read_pos :: nat

definition new_buffer :: log_buffer where
  "new_buffer = \<lparr>lb_buf = replicate DEFAULT_BUFFER_SIZE (CHR 0x00), lb_write_pos = 0, lb_read_pos = 0\<rparr>"

definition abletowritelen :: "log_buffer \<Rightarrow> nat" where
  "abletowritelen b = length (lb_buf b) - lb_write_pos b"

definition abletoreadlen :: "log_buffer \<Rightarrow> nat" where
  "abletoreadlen b = lb_write_pos b - lb_read_pos b"

definition getenoughsize :: "log_buffer \<Rightarrow> nat \<Rightarrow> log_buffer" where
  "getenoughsize b n =
     (if n < abletowritelen b then b
      else let new_size = (if length (lb_buf b) < THRESHOLD_BUFFER_SIZE then length (lb_buf b) * 2 + n
                           else length (lb_buf b) + INCREMENT_BUF_SIZE + n) in
        b\<lparr>lb_buf := lb_buf b @ replicate (new_size - length (lb_buf b)) (CHR 0x00)\<rparr>)"

text \<open>\<^const>\<open>None\<close> is the failed assertion of \<open>movewriter\<close>.\<close>

definition buf_push :: "log_buffer \<Rightarrow> string \<Rightarrow> log_buffer option" where
  "buf_push b data =
     (let b1 = getenoughsize b (length data) in
      case mem_write (lb_buf b1) (lb_write_pos b1) data of
        None \<Rightarrow> None
      | Some d \<Rightarrow>
          (let b2 = b1\<lparr>lb_buf := d\<rparr> in
           if length data + lb_write_pos b2 \<le> length (lb_buf b2) then Some (b2\<lparr>lb_write_pos := lb_write_pos b2 + length data\<rparr>) else None))"

definition buf_begin :: "log_buffer \<Rightarrow> string" where
  "buf_begin b = take (abletoreadlen b) (drop (lb_read_pos b) (lb_buf b))"

definition movereader :: "log_buffer \<Rightarrow> nat \<Rightarrow> log_buffer option" where
  "movereader b n = (if n < abletoreadlen b then Some (b\<lparr>lb_read_pos := lb_read_pos b + n\<rparr>) else None)"

definition buf_reset :: "log_buffer \<Rightarrow> log_buffer" where
  "buf_reset b = b\<lparr>lb_write_pos := 0, lb_read_pos := 0\<rparr>"

definition buf_swap :: "log_buffer \<Rightarrow> log_buffer \<Rightarrow> log_buffer \<times> log_buffer" where
  "buf_swap a b = (b, a)"

definition buf_empty :: "log_buffer \<Rightarrow> bool" where
  "buf_empty b \<longleftrightarrow> lb_write_pos b = lb_read_pos b"

definition buf_full :: "log_buffer \<Rightarrow> bool" where
  "buf_full b \<longleftrightarrow> abletowritelen b = 0"

subsection \<open>The buffer is a queue of bytes\<close>

definition buf_ok :: "log_buffer \<Rightarrow> bool" where
  "buf_ok b \<longleftrightarrow> lb_read_pos b \<le> lb_write_pos b \<and> lb_write_pos b \<le> length (lb_buf b)"

lemma new_buffer_ok: "buf_ok new_buffer" "buf_begin new_buffer = []"
  by (simp_all add: buf_ok_def new_buffer_def buf_begin_def abletoreadlen_def)

lemma grow_facts:
  assumes "buf_ok b"
  shows "lb_write_pos b + n \<le> length (lb_buf (getenoughsize b n))"
    "lb_write_pos (getenoughsize b n) = lb_write_pos b" "lb_read_pos (getenoughsize b n) = lb_read_pos b"
    "take (length (lb_buf b)) (lb_buf (getenoughsize b n)) = lb_buf b" "length (lb_buf b) \<le> length (lb_buf (getenoughsize b n))"
  using assms by (auto simp: getenoughsize_def Let_def buf_ok_def abletowritelen_def)

text \<open>
  A push always succeeds and appends: it never violates the bounds that the code asserts, and
  what can be read afterwards is what could be read before followed by the data.
\<close>

lemma push_appends:
  assumes "buf_ok b"
  shows "\<exists>b'. buf_push b data = Some b' \<and> buf_ok b' \<and> buf_begin b' = buf_begin b @ data \<and> length (lb_buf b) \<le> length (lb_buf b')"
proof -
  let ?b = "getenoughsize b (length data)" and ?w = "lb_write_pos b" and ?r = "lb_read_pos b"
  note g = grow_facts [OF assms, of "length data"]
  let ?d = "take ?w (lb_buf ?b) @ data @ drop (?w + length data) (lb_buf ?b)"
  let ?b' = "?b\<lparr>lb_buf := ?d, lb_write_pos := ?w + length data\<rparr>"
  have p: "buf_push b data = Some ?b'" using g by (simp add: buf_push_def Let_def mem_write_def add.commute)
  have ok: "buf_ok ?b'" using assms g by (simp add: buf_ok_def)
  have "take ?w (lb_buf ?b) = take ?w (lb_buf b)" using assms g(4) by (metis buf_ok_def min.absorb1 take_take)
  note tk = this
  define X where "X = drop ?r (take ?w (lb_buf b))"
  have X: "length X = ?w - ?r" using assms by (simp add: X_def buf_ok_def)
  have bb: "buf_begin b = X" by (simp add: X_def buf_begin_def abletoreadlen_def drop_take)
  have "drop ?r ?d = X @ data @ drop (?w + length data) (lb_buf ?b)"
    unfolding tk X_def using assms by (simp add: buf_ok_def)
  moreover have "?w + length data - ?r = length X + length data" using X assms by (simp add: buf_ok_def)
  ultimately have "buf_begin ?b' = X @ data" by (simp add: buf_begin_def abletoreadlen_def g(2,3))
  then have "buf_begin ?b' = buf_begin b @ data" using bb by simp
  moreover have "length (lb_buf b) \<le> length (lb_buf ?b')" using g(5) by simp
  ultimately show ?thesis using p ok by (intro exI [of _ ?b'] conjI)
qed

lemma push_facts:
  assumes "buf_ok b" "buf_push b data = Some b'"
  shows "buf_ok b'" "buf_begin b' = buf_begin b @ data"
  using push_appends [OF assms(1), of data] assms(2) by auto

text \<open>
  Remark. A record that exactly fills the buffer makes it grow to more than twice its size: the test is strict.
\<close>

theorem exact_fit_grows:
  assumes "abletowritelen b = n" "length (lb_buf b) < THRESHOLD_BUFFER_SIZE"
  shows "length (lb_buf (getenoughsize b n)) = 2 * length (lb_buf b) + n"
  using assms by (simp add: getenoughsize_def Let_def)

subsection \<open>The worker\<close>

datatype async_type = ASYNC_SAFE | ASYNC_UNSAFE

text \<open>
  \<open>al_waiting\<close>: the worker waits for its condition (it has passed the test for the end of its loop);
  \<open>al_done\<close>: it has left the loop; \<open>al_out\<close>: what the callback was given, in order.
\<close>

record looper =
  al_type :: async_type
  al_pro :: log_buffer
  al_con :: log_buffer
  al_stop :: bool
  al_waiting :: bool
  al_done :: bool
  al_out :: "string list"

definition AsyncLooper :: "async_type \<Rightarrow> looper" where
  "AsyncLooper ty = \<lparr>al_type = ty, al_pro = new_buffer, al_con = new_buffer, al_stop = False, al_waiting = False, al_done = False, al_out = []\<rparr>"

text \<open>\<^const>\<open>None\<close>: the producer waits for space.\<close>

definition looper_push :: "looper \<Rightarrow> string \<Rightarrow> looper option" where
  "looper_push l data =
     (if al_type l = ASYNC_SAFE \<and> \<not> (al_stop l \<or> length data \<le> abletowritelen (al_pro l)) then None
      else map_option (\<lambda>b. l\<lparr>al_pro := b\<rparr>) (buf_push (al_pro l) data))"

definition looper_stop :: "looper \<Rightarrow> looper" where
  "looper_stop l = l\<lparr>al_stop := True\<rparr>"

definition looper_process :: "looper \<Rightarrow> looper" where
  "looper_process l =
     (let (pro, con) = buf_swap (al_pro l) (al_con l) in
      l\<lparr>al_pro := pro, al_out := al_out l @ [buf_begin con], al_con := buf_reset con, al_waiting := False\<rparr>)"

text \<open>The worker's next critical section; \<^const>\<open>None\<close>: it has ended or its condition does not hold yet.\<close>

definition threadentry :: "looper \<Rightarrow> looper option" where
  "threadentry l =
     (if al_done l then None
      else if al_waiting l then (if al_stop l \<or> \<not> buf_empty (al_pro l) then Some (looper_process l) else None)
      else if al_stop l \<and> buf_empty (al_pro l) then Some (l\<lparr>al_done := True\<rparr>)
      else if al_stop l \<or> \<not> buf_empty (al_pro l) then Some (looper_process l)
      else Some (l\<lparr>al_waiting := True\<rparr>))"

datatype looper_event = Push string | Stop | Work

fun looper_step :: "looper \<Rightarrow> looper_event \<Rightarrow> looper option" where
  "looper_step l (Push d) = looper_push l d"
| "looper_step l Stop = Some (looper_stop l)"
| "looper_step l Work = threadentry l"

inductive looper_runs :: "looper \<Rightarrow> looper_event list \<Rightarrow> looper \<Rightarrow> bool" where
  runs_nil: "looper_runs l [] l"
| runs_snoc: "looper_runs l es l1 \<Longrightarrow> looper_step l1 e = Some l2 \<Longrightarrow> looper_runs l (es @ [e]) l2"

lemma runs_one: "looper_step l e = Some l1 \<Longrightarrow> looper_runs l [e] l1"
  using runs_snoc [OF runs_nil, of l e l1] by simp

lemma runs_then: "looper_runs l es l1 \<Longrightarrow> looper_step l1 e = Some l2 \<Longrightarrow> es' = es @ [e] \<Longrightarrow> looper_runs l es' l2"
  using runs_snoc by blast

inductive_cases runs_snocE: "looper_runs l (es @ [e]) l2"

subsection \<open>Nothing is lost, nothing is reordered\<close>

definition pushed :: "looper_event list \<Rightarrow> string" where
  "pushed es = concat (map (\<lambda>e. case e of Push d \<Rightarrow> d | _ \<Rightarrow> []) es)"

definition looper_ok :: "looper \<Rightarrow> bool" where
  "looper_ok l \<longleftrightarrow> buf_ok (al_pro l) \<and> buf_ok (al_con l) \<and> buf_begin (al_con l) = [] \<and> lb_write_pos (al_con l) = 0
     \<and> (al_done l \<longrightarrow> al_stop l)"

definition written :: "looper \<Rightarrow> string" where
  "written l = concat (al_out l) @ buf_begin (al_pro l)"

lemma buf_reset_ok: "buf_ok (buf_reset b)" "buf_begin (buf_reset b) = []" "lb_write_pos (buf_reset b) = 0"
  by (simp_all add: buf_reset_def buf_ok_def buf_begin_def abletoreadlen_def)

lemma empty_begin: "buf_ok b \<Longrightarrow> buf_empty b \<longleftrightarrow> buf_begin b = []"
  by (auto simp: buf_empty_def buf_begin_def abletoreadlen_def buf_ok_def)

lemma process_facts:
  assumes "looper_ok l" "\<not> al_done l"
  shows "looper_ok (looper_process l)" "written (looper_process l) = written l" "buf_begin (al_pro (looper_process l)) = []"
  using assms buf_reset_ok by (auto simp: looper_process_def buf_swap_def looper_ok_def written_def)

lemma step_facts:
  assumes "looper_ok l" "looper_step l e = Some l'"
  shows "looper_ok l' \<and> written l' = written l @ pushed [e]"
proof (cases e)
  case (Push d)
  then obtain b where b: "buf_push (al_pro l) d = Some b" "l' = l\<lparr>al_pro := b\<rparr>" using assms(2) by (auto simp: looper_push_def split: if_splits)
  then show ?thesis using assms(1) push_facts [of "al_pro l" d b] Push by (simp add: looper_ok_def written_def pushed_def)
next
  case Stop
  then show ?thesis using assms by (auto simp: looper_stop_def looper_ok_def written_def pushed_def)
next
  case Work
  then show ?thesis using assms process_facts [OF assms(1)] by (auto simp: threadentry_def pushed_def looper_ok_def written_def split: if_splits)
qed

lemma runs_facts: "looper_runs l es l' \<Longrightarrow> looper_ok l \<Longrightarrow> looper_ok l' \<and> written l' = written l @ pushed es"
proof (induction rule: looper_runs.induct)
  case (runs_snoc l es l1 e l2)
  then show ?case using step_facts [of l1 e l2] by (simp add: pushed_def)
qed (simp add: pushed_def)

lemma new_looper_ok: "looper_ok (AsyncLooper ty)" "written (AsyncLooper ty) = []"
  using new_buffer_ok by (simp_all add: looper_ok_def AsyncLooper_def written_def, simp add: new_buffer_def)

text \<open>
  Property C16. The asynchronous logger is a queue: in every run, whatever the pushes, stops and steps of the
  worker and however they interleave, what the callback has been given followed by what waits in the
  buffer is exactly what was pushed, in the order of the pushes.
\<close>

theorem async_is_queue:
  assumes "looper_runs (AsyncLooper ty) es l"
  shows "concat (al_out l) @ buf_begin (al_pro l) = pushed es"
  using runs_facts [OF assms new_looper_ok(1)] new_looper_ok(2) by (simp add: written_def)

lemma push_new:
  assumes "al_pro l = new_buffer" "length d \<le> DEFAULT_BUFFER_SIZE"
  shows "\<exists>b. looper_step l (Push d) = Some (l\<lparr>al_pro := b\<rparr>) \<and> buf_ok b \<and> buf_begin b = d"
  using push_appends [OF new_buffer_ok(1), of d] assms new_buffer_ok(2)
  by (auto simp: looper_push_def abletowritelen_def new_buffer_def)

theorem async_is_queue_witness:
  "\<exists>l. looper_runs (AsyncLooper ASYNC_SAFE) [Push ''ab'', Work, Push ''c''] l \<and> concat (al_out l) @ buf_begin (al_pro l) = ''abc''"
proof -
  let ?l = "AsyncLooper ASYNC_SAFE"
  obtain b where b: "looper_step ?l (Push ''ab'') = Some (?l\<lparr>al_pro := b\<rparr>)" "buf_ok b" "buf_begin b = ''ab''"
    using push_new [of ?l "''ab''"] by (auto simp: AsyncLooper_def DEFAULT_BUFFER_SIZE_def)
  let ?l1 = "?l\<lparr>al_pro := b\<rparr>"
  have w: "looper_step ?l1 Work = Some (looper_process ?l1)"
    using b empty_begin [of b] by (simp add: threadentry_def AsyncLooper_def)
  have "al_pro (looper_process ?l1) = new_buffer" by (simp add: looper_process_def buf_swap_def AsyncLooper_def)
  then obtain c where "looper_step (looper_process ?l1) (Push ''c'') = Some ((looper_process ?l1)\<lparr>al_pro := c\<rparr>)"
    using push_new [of "looper_process ?l1" "''c''"] by (auto simp: DEFAULT_BUFFER_SIZE_def)
  from runs_then [OF runs_then [OF runs_one [OF b(1)] w refl] this refl]
  have r: "looper_runs ?l [Push ''ab'', Work, Push ''c''] ((looper_process ?l1)\<lparr>al_pro := c\<rparr>)" by simp
  from async_is_queue [OF r] r show ?thesis by (auto simp: pushed_def)
qed

text \<open>
  Remark. Stopping drains: once a stop is requested, at most two more steps of the worker end it, and
  then everything that was pushed before has been written.
\<close>

theorem stop_drains:
  assumes "looper_runs (AsyncLooper ty) es l" "al_stop l" "\<not> al_done l"
  shows "\<exists>n l'. n \<le> 2 \<and> looper_runs l (replicate n Work) l' \<and> al_done l' \<and> concat (al_out l') = pushed es"
proof -
  have ok: "looper_ok l" and w: "written l = pushed es" using runs_facts [OF assms(1) new_looper_ok(1)] new_looper_ok(2) by auto
  have last: "threadentry k = Some (k\<lparr>al_done := True\<rparr>) \<and> concat (al_out (k\<lparr>al_done := True\<rparr>)) = written k"
    if "looper_ok k" "al_stop k" "\<not> al_done k" "\<not> al_waiting k" "buf_begin (al_pro k) = []" for k
    using that empty_begin [of "al_pro k"] by (simp add: threadentry_def looper_ok_def written_def)
  show ?thesis
  proof (cases "\<not> al_waiting l \<and> buf_empty (al_pro l)")
    case True
    then have "buf_begin (al_pro l) = []" using ok empty_begin by (auto simp: looper_ok_def)
    note f = last [OF ok assms(2,3) _ this]
    have "looper_runs l (replicate 1 Work) (l\<lparr>al_done := True\<rparr>)" using runs_one [of l Work] f True by simp
    moreover have "concat (al_out (l\<lparr>al_done := True\<rparr>)) = pushed es" using f True w by simp
    ultimately show ?thesis by (intro exI [of _ 1] exI [of _ "l\<lparr>al_done := True\<rparr>"]) simp
  next
    case False
    let ?k = "looper_process l"
    note p = process_facts [OF ok assms(3)]
    have k: "al_stop ?k" "\<not> al_done ?k" "\<not> al_waiting ?k" using assms(2,3) by (simp_all add: looper_process_def buf_swap_def)
    note f = last [OF p(1) k p(3)]
    have "threadentry l = Some ?k" using False assms(2,3) by (auto simp: threadentry_def)
    then have "looper_runs l [Work] ?k" by (simp add: runs_one)
    from runs_then [OF this, of Work] f have "looper_runs l (replicate 2 Work) (?k\<lparr>al_done := True\<rparr>)" by (simp add: numeral_2_eq_2)
    moreover have "concat (al_out (?k\<lparr>al_done := True\<rparr>)) = pushed es" using f p(2) w by simp
    ultimately show ?thesis by (intro exI [of _ 2] exI [of _ "?k\<lparr>al_done := True\<rparr>"]) simp
  qed
qed

theorem stop_drains_witness:
  "\<exists>l n l'. looper_runs (AsyncLooper ASYNC_SAFE) [Push ''ab'', Stop] l \<and> n \<le> 2 \<and> looper_runs l (replicate n Work) l' \<and> al_done l' \<and> concat (al_out l') = ''ab''"
proof -
  let ?l = "AsyncLooper ASYNC_SAFE"
  obtain b where b: "looper_step ?l (Push ''ab'') = Some (?l\<lparr>al_pro := b\<rparr>)"
    using push_new [of ?l "''ab''"] by (auto simp: AsyncLooper_def DEFAULT_BUFFER_SIZE_def)
  have r: "looper_runs ?l [Push ''ab'', Stop] (looper_stop (?l\<lparr>al_pro := b\<rparr>))"
    using runs_then [OF runs_one [OF b], of Stop] by simp
  have "al_stop (looper_stop (?l\<lparr>al_pro := b\<rparr>))" "\<not> al_done (looper_stop (?l\<lparr>al_pro := b\<rparr>))" by (simp_all add: looper_stop_def AsyncLooper_def)
  from stop_drains [OF r this] r show ?thesis by (auto simp: pushed_def)
qed

text \<open>
  Remark. In the safe mode a line that is longer than the buffers is never accepted: it waits for space
  that no step of the worker makes, however many there are.
\<close>

lemma work_capacity:
  assumes "looper_runs l es l'" "es = replicate n Work" "al_type l = ASYNC_SAFE" "\<not> al_stop l" "length (lb_buf (al_pro l)) < m" "length (lb_buf (al_con l)) < m"
  shows "al_type l' = ASYNC_SAFE \<and> \<not> al_stop l' \<and> length (lb_buf (al_pro l')) < m \<and> length (lb_buf (al_con l')) < m"
  using assms
proof (induction arbitrary: n rule: looper_runs.induct)
  case (runs_snoc l es l1 e l2)
  have "e \<in> set (replicate n Work)" "set es \<subseteq> set (replicate n Work)" using runs_snoc.prems(1) by (metis in_set_conv_decomp, metis set_append Un_upper1)
  then have "e = Work" "\<forall>y \<in> set es. y = Work" by (auto split: if_splits)
  then have e: "e = Work" "es = replicate (length es) Work" using replicate_length_same [of es Work] by simp_all
  from runs_snoc.IH [OF e(2)] runs_snoc show ?case
    by (auto simp: e(1) threadentry_def looper_process_def buf_swap_def buf_reset_def split: if_splits)
qed simp

theorem oversized_line_blocks:
  assumes "looper_runs l (replicate n Work) l'" "al_type l = ASYNC_SAFE" "\<not> al_stop l"
    "length (lb_buf (al_pro l)) < length d" "length (lb_buf (al_con l)) < length d"
  shows "looper_step l' (Push d) = None"
  using work_capacity [OF assms(1) refl assms(2-5)] by (auto simp: looper_push_def abletowritelen_def)

theorem oversized_line_blocks_witness:
  "looper_step ((AsyncLooper ASYNC_SAFE)\<lparr>al_waiting := True\<rparr>) (Push (replicate (2 * DEFAULT_BUFFER_SIZE) (CHR ''x''))) = None"
proof (rule oversized_line_blocks)
  have "looper_runs (AsyncLooper ASYNC_SAFE) [Work] ((AsyncLooper ASYNC_SAFE)\<lparr>al_waiting := True\<rparr>)"
    by (rule runs_one) (simp add: threadentry_def AsyncLooper_def buf_empty_def new_buffer_def)
  then show "looper_runs (AsyncLooper ASYNC_SAFE) (replicate 1 Work) ((AsyncLooper ASYNC_SAFE)\<lparr>al_waiting := True\<rparr>)" by simp
qed (simp_all add: AsyncLooper_def new_buffer_def, simp_all add: DEFAULT_BUFFER_SIZE_def)

text \<open>
  Remark. A line that is pushed after the worker has ended is never written.
\<close>

theorem push_after_end_lost: "looper_runs l es l' \<Longrightarrow> al_done l \<Longrightarrow> al_done l' \<and> al_out l' = al_out l"
proof (induction rule: looper_runs.induct)
  case (runs_snoc l es l1 e l2)
  then show ?case by (cases e) (auto simp: looper_push_def looper_stop_def threadentry_def split: if_splits)
qed simp

end
