(* ===== verification/Loggers.thy ===== *)
theory Loggers
  imports Log_Format Async_Log
begin

text \<open>
  Loggers, their builders and their manager (\<open>log_system/Logger.hpp\<close>). A logger formats a message and gives
  the line to its back end; the virtual \<open>log\<close> is an argument of the logger's operations, and the locale
  \<open>log_backend\<close> states what the logger relies on. The synchronous logger (every sink gets the line) and the
  asynchronous one (the worker's buffer gets it) are its two interpretations. Logger objects live in a
  store and the manager keeps their numbers, as the code shares them by pointer.
\<close>

subsection \<open>A logger\<close>

record 'b logger =
  lo_name :: string
  lo_formatter :: "format_item list"
  lo_level :: log_level
  lo_backend :: 'b

text \<open>
  One call: place, time and thread of the call, and the text that \<open>vasprintf\<close> makes of its arguments
  (\<^const>\<open>None\<close> when it fails).
\<close>

record log_call =
  lc_file :: string
  lc_line :: nat
  lc_time :: int
  lc_tid :: string
  lc_text :: "string option"

definition call_msg :: "log_level \<Rightarrow> 'b logger \<Rightarrow> log_call \<Rightarrow> string \<Rightarrow> logmsg" where
  "call_msg lvl lg c res =
     \<lparr>lm_time = lc_time c, lm_level = lvl, lm_file = lc_file c, lm_line = lc_line c, lm_tid = lc_tid c, lm_logger = lo_name lg, lm_payload = res\<rparr>"

text \<open>The common body of the five calls; \<^const>\<open>None\<close>: the back end makes the caller wait.\<close>

definition log_at ::
  "(string \<Rightarrow> int \<Rightarrow> string) \<Rightarrow> ('b \<Rightarrow> string \<Rightarrow> 'b option) \<Rightarrow> log_level \<Rightarrow> 'b logger \<Rightarrow> log_call \<Rightarrow> 'b logger option" where
  "log_at strftime put lvl lg c =
     (if level_rank lvl < level_rank (lo_level lg) then Some lg
      else case lc_text c of
        None \<Rightarrow> Some lg
      | Some res \<Rightarrow>
          map_option (\<lambda>b. lg\<lparr>lo_backend := b\<rparr>) (put (lo_backend lg) (format_msg strftime (lo_formatter lg) (call_msg lvl lg c res))))"

definition Debug :: "(string \<Rightarrow> int \<Rightarrow> string) \<Rightarrow> ('b \<Rightarrow> string \<Rightarrow> 'b option) \<Rightarrow> 'b logger \<Rightarrow> log_call \<Rightarrow> 'b logger option" where
  "Debug strftime put lg c = log_at strftime put DEBUG lg c"

definition Info :: "(string \<Rightarrow> int \<Rightarrow> string) \<Rightarrow> ('b \<Rightarrow> string \<Rightarrow> 'b option) \<Rightarrow> 'b logger \<Rightarrow> log_call \<Rightarrow> 'b logger option" where
  "Info strftime put lg c = log_at strftime put INFO lg c"

definition Warn :: "(string \<Rightarrow> int \<Rightarrow> string) \<Rightarrow> ('b \<Rightarrow> string \<Rightarrow> 'b option) \<Rightarrow> 'b logger \<Rightarrow> log_call \<Rightarrow> 'b logger option" where
  "Warn strftime put lg c = log_at strftime put WARN lg c"

definition Error :: "(string \<Rightarrow> int \<Rightarrow> string) \<Rightarrow> ('b \<Rightarrow> string \<Rightarrow> 'b option) \<Rightarrow> 'b logger \<Rightarrow> log_call \<Rightarrow> 'b logger option" where
  "Error strftime put lg c = log_at strftime put ERROR lg c"

definition Fatal :: "(string \<Rightarrow> int \<Rightarrow> string) \<Rightarrow> ('b \<Rightarrow> string \<Rightarrow> 'b option) \<Rightarrow> 'b logger \<Rightarrow> log_call \<Rightarrow> 'b logger option" where
  "Fatal strftime put lg c = log_at strftime put FATAL lg c"

definition setLevel :: "'b logger \<Rightarrow> log_level \<Rightarrow> 'b logger" where
  "setLevel lg lvl = lg\<lparr>lo_level := lvl\<rparr>"

text \<open>A sequence of calls.\<close>

datatype severity = DebugCall | InfoCall | WarnCall | ErrorCall | FatalCall

fun log_by :: "(string \<Rightarrow> int \<Rightarrow> string) \<Rightarrow> ('b \<Rightarrow> string \<Rightarrow> 'b option) \<Rightarrow> 'b logger \<Rightarrow> severity \<times> log_call \<Rightarrow> 'b logger option" where
  "log_by strftime put lg (DebugCall, c) = Debug strftime put lg c"
| "log_by strftime put lg (InfoCall, c) = Info strftime put lg c"
| "log_by strftime put lg (WarnCall, c) = Warn strftime put lg c"
| "log_by strftime put lg (ErrorCall, c) = Error strftime put lg c"
| "log_by strftime put lg (FatalCall, c) = Fatal strftime put lg c"

fun log_all :: "(string \<Rightarrow> int \<Rightarrow> string) \<Rightarrow> ('b \<Rightarrow> string \<Rightarrow> 'b option) \<Rightarrow> 'b logger \<Rightarrow> (severity \<times> log_call) list \<Rightarrow> 'b logger option" where
  "log_all strftime put lg [] = Some lg"
| "log_all strftime put lg (e # es) = (case log_by strftime put lg e of None \<Rightarrow> None | Some lg' \<Rightarrow> log_all strftime put lg' es)"

fun severity_level :: "severity \<Rightarrow> log_level" where
  "severity_level DebugCall = DEBUG"
| "severity_level InfoCall = INFO"
| "severity_level WarnCall = WARN"
| "severity_level ErrorCall = ERROR"
| "severity_level FatalCall = FATAL"

text \<open>The text that a call has to write.\<close>

definition call_line :: "(string \<Rightarrow> int \<Rightarrow> string) \<Rightarrow> 'b logger \<Rightarrow> severity \<times> log_call \<Rightarrow> string" where
  "call_line strftime lg e =
     (case lc_text (snd e) of
        None \<Rightarrow> []
      | Some res \<Rightarrow>
          if level_rank (lo_level lg) \<le> level_rank (severity_level (fst e))
          then format_msg strftime (lo_formatter lg) (call_msg (severity_level (fst e)) lg (snd e) res) else [])"

subsection \<open>What a logger relies on\<close>

locale log_backend =
  fixes put :: "'b \<Rightarrow> string \<Rightarrow> 'b option"
    and ok :: "'b \<Rightarrow> bool"
    and out :: "'b \<Rightarrow> string"
  assumes put_appends: "ok s \<Longrightarrow> put s d = Some s' \<Longrightarrow> ok s' \<and> out s' = out s @ d"
begin

lemma log_by_line:
  assumes "ok (lo_backend lg)" "log_by strftime put lg e = Some lg'"
  shows "ok (lo_backend lg') \<and> out (lo_backend lg') = out (lo_backend lg) @ call_line strftime lg e
    \<and> lo_name lg' = lo_name lg \<and> lo_formatter lg' = lo_formatter lg \<and> lo_level lg' = lo_level lg"
proof -
  obtain v c where e: "e = (v, c)" by (cases e) auto
  have "log_at strftime put (severity_level v) lg c = Some lg'"
    using assms(2) by (cases v) (simp_all add: e Debug_def Info_def Warn_def Error_def Fatal_def)
  then show ?thesis using put_appends [OF assms(1)] assms(1)
    by (auto simp: log_at_def call_line_def e split: option.splits if_splits)
qed

lemma call_line_same:
  assumes "lo_name lg' = lo_name lg" "lo_formatter lg' = lo_formatter lg" "lo_level lg' = lo_level lg"
  shows "call_line strftime lg' = call_line strftime lg"
  using assms by (auto simp: call_line_def call_msg_def fun_eq_iff split: option.splits)

lemma log_all_lines:
  assumes "ok (lo_backend lg)" "log_all strftime put lg es = Some lg'"
  shows "ok (lo_backend lg') \<and> out (lo_backend lg') = out (lo_backend lg) @ concat (map (call_line strftime lg) es)"
  using assms
proof (induction es arbitrary: lg)
  case (Cons e es)
  then obtain lg1 where l: "log_by strftime put lg e = Some lg1" "log_all strftime put lg1 es = Some lg'" by (auto split: option.splits)
  note f = log_by_line [OF Cons.prems(1) l(1)]
  then show ?case using Cons.IH [OF _ l(2)] call_line_same [of lg1 lg] by simp
qed simp

end

subsection \<open>The two back ends\<close>

text \<open>\<open>SyncLogger::log\<close>: each sink, here as what it was given so far, gets the line.\<close>

definition sync_log :: "string list \<Rightarrow> string \<Rightarrow> string list option" where
  "sync_log sinks data = Some (if sinks = [] then sinks else map (\<lambda>s. s @ data) sinks)"

text \<open>\<open>AsyncLogger::log\<close>, and its \<open>reallog\<close> on a buffer.\<close>

definition async_log :: "looper \<Rightarrow> string \<Rightarrow> looper option" where
  "async_log l data = looper_push l data"

definition reallog :: "string list \<Rightarrow> log_buffer \<Rightarrow> string list" where
  "reallog sinks buf = (if sinks = [] then sinks else map (\<lambda>s. s @ buf_begin buf) sinks)"

interpretation sync: log_backend sync_log "\<lambda>s. i < length s" "\<lambda>s. s ! i" for i
  by unfold_locales (auto simp: sync_log_def split: if_splits)

interpretation async: log_backend async_log looper_ok written
proof
  fix l d l' assume "looper_ok l" "async_log l d = Some l'"
  then show "looper_ok l' \<and> written l' = written l @ d" using step_facts [of l "Push d" l'] by (simp add: async_log_def pushed_def)
qed

text \<open>
  Remark. A logger writes what it is told and no more: for any calls, each sink of a synchronous logger
  has received, in order, exactly the lines of the calls whose level is at least that of the logger.
\<close>

theorem sync_logger_lines:
  assumes "log_all strftime sync_log lg es = Some lg'" "i < length (lo_backend lg)"
  shows "lo_backend lg' ! i = lo_backend lg ! i @ concat (map (call_line strftime lg) es)"
  using sync.log_all_lines [OF assms(2,1)] by simp

text \<open>
  Property C23. The same for an asynchronous logger: what has been written and what waits in its buffer are
  exactly these lines, in order.
\<close>

theorem async_logger_lines:
  assumes "log_all strftime async_log lg es = Some lg'" "lo_backend lg = AsyncLooper ty"
  shows "concat (al_out (lo_backend lg')) @ buf_begin (al_pro (lo_backend lg')) = concat (map (call_line strftime lg) es)"
  using async.log_all_lines [OF _ assms(1)] new_looper_ok assms(2) by (simp add: written_def)

definition sample_call :: "string \<Rightarrow> log_call" where
  "sample_call t = \<lparr>lc_file = ''a.cc'', lc_line = 7, lc_time = 0, lc_tid = ''1'', lc_text = Some t\<rparr>"

theorem sync_logger_lines_witness:
  "\<exists>lg'. log_all (\<lambda>f t. f) sync_log \<lparr>lo_name = ''n'', lo_formatter = [LevelItem, OtherItem '':'', MsgItem], lo_level = INFO, lo_backend = [[], ''x'']\<rparr>
      [(DebugCall, sample_call ''a''), (WarnCall, sample_call ''b'')] = Some lg' \<and> lo_backend lg' ! 1 = ''xWARN:b''"
proof -
  let ?lg = "\<lparr>lo_name = ''n'', lo_formatter = [LevelItem, OtherItem '':'', MsgItem], lo_level = INFO, lo_backend = [[], ''x'']\<rparr>"
  obtain lg' where l: "log_all (\<lambda>f t. f) sync_log ?lg [(DebugCall, sample_call ''a''), (WarnCall, sample_call ''b'')] = Some lg'"
    by (simp add: Debug_def Warn_def log_at_def sample_call_def sync_log_def)
  from sync_logger_lines [OF this, of 1] have "lo_backend lg' ! 1 = ''xWARN:b''"
    by (simp add: call_line_def sample_call_def format_msg_def call_msg_def)
  then show ?thesis using l by blast
qed

theorem async_logger_lines_witness:
  "\<exists>lg'. log_all (\<lambda>f t. f) async_log \<lparr>lo_name = ''n'', lo_formatter = [MsgItem], lo_level = INFO, lo_backend = AsyncLooper ASYNC_SAFE\<rparr>
      [(DebugCall, sample_call ''a''), (WarnCall, sample_call ''b'')] = Some lg'
    \<and> concat (al_out (lo_backend lg')) @ buf_begin (al_pro (lo_backend lg')) = ''b''"
proof -
  let ?lg = "\<lparr>lo_name = ''n'', lo_formatter = [MsgItem], lo_level = INFO, lo_backend = AsyncLooper ASYNC_SAFE\<rparr>"
  obtain b where b: "looper_push (AsyncLooper ASYNC_SAFE) ''b'' = Some ((AsyncLooper ASYNC_SAFE)\<lparr>al_pro := b\<rparr>)"
    using push_new [of "AsyncLooper ASYNC_SAFE" "''b''"] by (auto simp: AsyncLooper_def DEFAULT_BUFFER_SIZE_def)
  then obtain lg' where l: "log_all (\<lambda>f t. f) async_log ?lg [(DebugCall, sample_call ''a''), (WarnCall, sample_call ''b'')] = Some lg'"
    by (simp add: Debug_def Warn_def log_at_def sample_call_def async_log_def format_msg_def call_msg_def)
  from async_logger_lines [OF this, of ASYNC_SAFE] have "concat (al_out (lo_backend lg')) @ buf_begin (al_pro (lo_backend lg')) = ''b''"
    by (simp add: call_line_def sample_call_def format_msg_def call_msg_def)
  then show ?thesis using l by blast
qed

end
