(* ===== verification/Log_Manager.thy ===== *)
theory Log_Manager
  imports Loggers
begin

text \<open>
  The builders of loggers and the manager that finds them by name (second part of
  \<open>log_system/Logger.hpp\<close>, and \<open>getLogger\<close> of \<open>lcz_log.h\<close>). The name table is an \<open>unordered_map\<close>,
  here an association list; a null pointer is \<^const>\<open>None\<close>.
\<close>

subsection \<open>Builders\<close>

datatype logger_type = LOGGER_SYNC | LOGGER_ASYNC

datatype sink_kind = Stdout | File string | RollBySize string nat | RollByTime string int

text \<open>What a built logger does with a line.\<close>

datatype log_output = SyncOutput "sink_kind list" | AsyncOutput async_type "sink_kind list"

record logger_builder =
  bd_looper_type :: async_type
  bd_logger_type :: logger_type
  bd_logger_name :: string
  bd_level :: log_level
  bd_formatter :: "format_item list option"
  bd_sinks :: "sink_kind list"

definition LoggerBuilder :: logger_builder where
  "LoggerBuilder = \<lparr>bd_looper_type = ASYNC_SAFE, bd_logger_type = LOGGER_ASYNC, bd_logger_name = [], bd_level = INFO, bd_formatter = None, bd_sinks = []\<rparr>"

definition buildloggertype :: "logger_builder \<Rightarrow> logger_type \<Rightarrow> logger_builder" where
  "buildloggertype bd t = bd\<lparr>bd_logger_type := t\<rparr>"

definition buildunsafeASYNC :: "logger_builder \<Rightarrow> logger_builder" where
  "buildunsafeASYNC bd = bd\<lparr>bd_looper_type := ASYNC_UNSAFE\<rparr>"

definition buildloggername :: "logger_builder \<Rightarrow> string \<Rightarrow> logger_builder" where
  "buildloggername bd n = bd\<lparr>bd_logger_name := n\<rparr>"

definition buildloggerlevel :: "logger_builder \<Rightarrow> log_level \<Rightarrow> logger_builder" where
  "buildloggerlevel bd l = bd\<lparr>bd_level := l\<rparr>"

text \<open>A pattern that cannot be parsed ends the program (\<^const>\<open>None\<close>), and so does a build without a name.\<close>

definition buildloggerformatter :: "logger_builder \<Rightarrow> string \<Rightarrow> logger_builder option" where
  "buildloggerformatter bd pattern = map_option (\<lambda>f. bd\<lparr>bd_formatter := Some f\<rparr>) (Formatter pattern)"

definition buildloggersink :: "logger_builder \<Rightarrow> sink_kind \<Rightarrow> logger_builder" where
  "buildloggersink bd k = bd\<lparr>bd_sinks := bd_sinks bd @ [k]\<rparr>"

definition local_build :: "logger_builder \<Rightarrow> (logger_builder \<times> log_output logger) option" where
  "local_build bd =
     (if bd_logger_name bd = [] then None
      else case (case bd_formatter bd of None \<Rightarrow> Formatter default_pattern | Some f \<Rightarrow> Some f) of
        None \<Rightarrow> None
      | Some f \<Rightarrow>
          (let bd1 = bd\<lparr>bd_formatter := Some f\<rparr>;
               bd2 = (if bd_sinks bd1 = [] then buildloggersink bd1 Stdout else bd1) in
           Some (bd2, \<lparr>lo_name = bd_logger_name bd2, lo_formatter = f, lo_level = bd_level bd2,
             lo_backend = (case bd_logger_type bd2 of LOGGER_SYNC \<Rightarrow> SyncOutput (bd_sinks bd2) | LOGGER_ASYNC \<Rightarrow> AsyncOutput (bd_looper_type bd2) (bd_sinks bd2))\<rparr>)))"

subsection \<open>The manager\<close>

text \<open>\<open>lx_objs\<close> are all logger objects, in the order of their creation; a pointer is the position.\<close>

record log_manager =
  lx_objs :: "log_output logger list"
  lx_root :: nat
  lx_loggers :: "(string \<times> nat) list"

definition obj_name :: "log_manager \<Rightarrow> nat \<Rightarrow> string" where
  "obj_name x i = lo_name (lx_objs x ! i)"

definition create_obj :: "log_manager \<Rightarrow> log_output logger \<Rightarrow> log_manager \<times> nat" where
  "create_obj x lg = (x\<lparr>lx_objs := lx_objs x @ [lg]\<rparr>, length (lx_objs x))"

text \<open>\<open>emplace\<close> and \<open>insert\<close> keep an entry that is there.\<close>

definition table_emplace :: "string \<Rightarrow> nat \<Rightarrow> (string \<times> nat) list \<Rightarrow> (string \<times> nat) list" where
  "table_emplace n i t = (if n \<in> fst ` set t then t else t @ [(n, i)])"

definition LoggerManager :: "log_manager option" where
  "LoggerManager = map_option (\<lambda>(bd, lg). \<lparr>lx_objs = [lg], lx_root = 0, lx_loggers = [(''root_logger'', 0)]\<rparr>)
     (local_build (buildloggername LoggerBuilder ''root_logger''))"

definition replaceRootLogger :: "log_manager \<Rightarrow> nat option \<Rightarrow> log_manager" where
  "replaceRootLogger x lg =
     (case lg of
        None \<Rightarrow> x
      | Some i \<Rightarrow> x\<lparr>lx_root := i, lx_loggers := table_emplace (obj_name x i) i (AList.delete (obj_name x (lx_root x)) (lx_loggers x))\<rparr>)"

definition hasLogger :: "log_manager \<Rightarrow> string \<Rightarrow> bool" where
  "hasLogger x n \<longleftrightarrow> n \<in> fst ` set (lx_loggers x)"

definition addLogger :: "log_manager \<Rightarrow> nat option \<Rightarrow> log_manager" where
  "addLogger x lg =
     (case lg of
        None \<Rightarrow> x
      | Some i \<Rightarrow> if hasLogger x (obj_name x i) then x else x\<lparr>lx_loggers := table_emplace (obj_name x i) i (lx_loggers x)\<rparr>)"

definition manager_getLogger :: "log_manager \<Rightarrow> string \<Rightarrow> nat option" where
  "manager_getLogger x n = map_of (lx_loggers x) n"

definition rootLogger :: "log_manager \<Rightarrow> nat" where
  "rootLogger x = lx_root x"

text \<open>The global \<open>getLogger\<close>: the root logger for an unknown name.\<close>

definition getLogger :: "log_manager \<Rightarrow> string \<Rightarrow> nat" where
  "getLogger x n = (case manager_getLogger x n of Some i \<Rightarrow> i | None \<Rightarrow> rootLogger x)"

definition initRootLogger :: "log_manager \<Rightarrow> nat option \<Rightarrow> log_manager" where
  "initRootLogger x lg =
     (case lg of
        None \<Rightarrow> x
      | Some i \<Rightarrow> x\<lparr>lx_root := i, lx_loggers := AList.update (obj_name x i) i (AList.delete (obj_name x (lx_root x)) (lx_loggers x))\<rparr>)"

definition setLoggerLevel :: "log_manager \<Rightarrow> string \<Rightarrow> log_level \<Rightarrow> log_manager \<times> bool" where
  "setLoggerLevel x n lvl =
     (case map_of (lx_loggers x) n of
        None \<Rightarrow> (x, False)
      | Some i \<Rightarrow> (x\<lparr>lx_objs := (lx_objs x)[i := setLevel (lx_objs x ! i) lvl]\<rparr>, True))"

definition renameLogger :: "log_manager \<Rightarrow> string \<Rightarrow> string \<Rightarrow> log_manager \<times> bool" where
  "renameLogger x oldName newName =
     (if oldName = newName then (x, True)
      else case map_of (lx_loggers x) oldName of
        None \<Rightarrow> (x, False)
      | Some i \<Rightarrow>
          if newName \<in> fst ` set (lx_loggers x) then (x, False)
          else (x\<lparr>lx_objs := (lx_objs x)[i := (lx_objs x ! i)\<lparr>lo_name := newName\<rparr>],
                  lx_loggers := table_emplace newName i (AList.delete oldName (lx_loggers x))\<rparr>, True))"

definition global_build :: "log_manager \<Rightarrow> logger_builder \<Rightarrow> (log_manager \<times> nat) option" where
  "global_build x bd =
     (case local_build bd of
        None \<Rightarrow> None
      | Some (bd', lg) \<Rightarrow> (let (x1, i) = create_obj x lg in Some (addLogger x1 (Some i), i)))"

subsection \<open>Names and objects agree\<close>

text \<open>What the rest of the program does with the manager; a built logger may also be kept out of it.\<close>

datatype manager_op =
    BuildLocal logger_builder | BuildGlobal logger_builder | ReplaceRoot "nat option" | AddLogger "nat option"
  | InitRoot "nat option" | SetLoggerLevel string log_level | RenameLogger string string

fun manager_step :: "log_manager \<Rightarrow> manager_op \<Rightarrow> log_manager" where
  "manager_step x (BuildLocal bd) = (case local_build bd of None \<Rightarrow> x | Some (bd', lg) \<Rightarrow> fst (create_obj x lg))"
| "manager_step x (BuildGlobal bd) = (case global_build x bd of None \<Rightarrow> x | Some (x', i) \<Rightarrow> x')"
| "manager_step x (ReplaceRoot lg) = replaceRootLogger x lg"
| "manager_step x (AddLogger lg) = addLogger x lg"
| "manager_step x (InitRoot lg) = initRootLogger x lg"
| "manager_step x (SetLoggerLevel n lvl) = fst (setLoggerLevel x n lvl)"
| "manager_step x (RenameLogger a b) = fst (renameLogger x a b)"

text \<open>Pointers that are passed in point to objects.\<close>

fun valid_op :: "log_manager \<Rightarrow> manager_op \<Rightarrow> bool" where
  "valid_op x (ReplaceRoot (Some i)) \<longleftrightarrow> i < length (lx_objs x)"
| "valid_op x (AddLogger (Some i)) \<longleftrightarrow> i < length (lx_objs x)"
| "valid_op x (InitRoot (Some i)) \<longleftrightarrow> i < length (lx_objs x)"
| "valid_op x op \<longleftrightarrow> True"

inductive manager_reach :: "log_manager \<Rightarrow> bool" where
  reach_new: "LoggerManager = Some x \<Longrightarrow> manager_reach x"
| reach_op: "manager_reach x \<Longrightarrow> valid_op x op \<Longrightarrow> manager_reach (manager_step x op)"

definition manager_ok :: "log_manager \<Rightarrow> bool" where
  "manager_ok x \<longleftrightarrow> distinct (map fst (lx_loggers x)) \<and> lx_root x < length (lx_objs x)
     \<and> (\<forall>(n, i) \<in> set (lx_loggers x). i < length (lx_objs x) \<and> obj_name x i = n)"

lemma delete_facts:
  "distinct (map fst t) \<Longrightarrow> distinct (map fst (AList.delete n t))"
  "set (AList.delete n t) = {e \<in> set t. fst e \<noteq> n}"
  by (auto simp: AList.delete_eq distinct_map inj_on_def)

lemma emplace_facts:
  "distinct (map fst t) \<Longrightarrow> distinct (map fst (table_emplace n i t))"
  "set (table_emplace n i t) \<subseteq> insert (n, i) (set t)"
  by (auto simp: table_emplace_def)

lemma update_set: "set (AList.update n i t) \<subseteq> insert (n, i) (set t)"
  by (induction t) auto

lemma entry_ok: "manager_ok x \<Longrightarrow> (n, i) \<in> set (lx_loggers x) \<Longrightarrow> i < length (lx_objs x) \<and> lo_name (lx_objs x ! i) = n"
  by (auto simp: manager_ok_def obj_name_def)

lemma table_ok:
  assumes "manager_ok x" "r < length (lx_objs x)" "distinct (map fst t)" "set t \<subseteq> insert (obj_name x i, i) (set (lx_loggers x))" "i < length (lx_objs x)"
  shows "manager_ok (x\<lparr>lx_root := r, lx_loggers := t\<rparr>)"
proof -
  have "j < length (lx_objs x) \<and> lo_name (lx_objs x ! j) = n" if "(n, j) \<in> set t" for n j
    using that assms(4,5) entry_ok [OF assms(1), of n j] by (auto simp: obj_name_def)
  then show ?thesis using assms(2,3) by (auto simp: manager_ok_def obj_name_def)
qed

lemma emplace_ok:
  assumes "manager_ok x" "i < length (lx_objs x)" "r < length (lx_objs x)"
  shows "manager_ok (x\<lparr>lx_root := r, lx_loggers := table_emplace (obj_name x i) i (AList.delete n (lx_loggers x))\<rparr>)"
    "manager_ok (x\<lparr>lx_root := r, lx_loggers := AList.update (obj_name x i) i (AList.delete n (lx_loggers x))\<rparr>)"
    "manager_ok (x\<lparr>lx_loggers := table_emplace (obj_name x i) i (lx_loggers x)\<rparr>)"
proof -
  have d: "distinct (map fst (lx_loggers x))" "lx_root x < length (lx_objs x)" using assms(1) by (simp_all add: manager_ok_def)
  have s: "set (AList.delete n (lx_loggers x)) \<subseteq> set (lx_loggers x)" by (auto simp: delete_facts(2))
  show "manager_ok (x\<lparr>lx_root := r, lx_loggers := table_emplace (obj_name x i) i (AList.delete n (lx_loggers x))\<rparr>)"
    by (rule table_ok [OF assms(1,3) emplace_facts(1) [OF delete_facts(1) [OF d(1)]] _ assms(2)]) (rule subset_trans [OF emplace_facts(2)], use s in blast)
  show "manager_ok (x\<lparr>lx_root := r, lx_loggers := AList.update (obj_name x i) i (AList.delete n (lx_loggers x))\<rparr>)"
    by (rule table_ok [OF assms(1,3) distinct_update [OF delete_facts(1) [OF d(1)]] _ assms(2)]) (rule subset_trans [OF update_set], use s in blast)
  have "manager_ok (x\<lparr>lx_root := lx_root x, lx_loggers := table_emplace (obj_name x i) i (lx_loggers x)\<rparr>)"
    by (rule table_ok [OF assms(1) d(2) emplace_facts(1) [OF d(1)] _ assms(2)]) (rule emplace_facts(2))
  then show "manager_ok (x\<lparr>lx_loggers := table_emplace (obj_name x i) i (lx_loggers x)\<rparr>)" by simp
qed

lemma create_obj_ok: "manager_ok x \<Longrightarrow> manager_ok (fst (create_obj x lg))"
  by (auto simp: manager_ok_def create_obj_def obj_name_def nth_append)

lemma level_ok:
  assumes "manager_ok x"
  shows "manager_ok (fst (setLoggerLevel x n lvl))"
proof -
  have "lo_name ((lx_objs x)[i := setLevel (lx_objs x ! i) lvl] ! j) = lo_name (lx_objs x ! j)" for i j
    by (cases "i < length (lx_objs x)") (auto simp: nth_list_update setLevel_def list_update_beyond)
  then show ?thesis using assms by (auto simp: manager_ok_def setLoggerLevel_def obj_name_def split: option.split)
qed

lemma rename_ok:
  assumes "manager_ok x"
  shows "manager_ok (fst (renameLogger x a b))"
proof (cases "a \<noteq> b \<and> (\<exists>i. map_of (lx_loggers x) a = Some i) \<and> b \<notin> fst ` set (lx_loggers x)")
  case True
  then obtain i where i: "map_of (lx_loggers x) a = Some i" by blast
  then have m: "(a, i) \<in> set (lx_loggers x)" by (rule map_of_SomeD)
  let ?t = "AList.delete a (lx_loggers x)"
  have "b \<notin> fst ` set ?t" using True by (auto simp: delete_facts(2))
  then have t: "table_emplace b i ?t = ?t @ [(b, i)]" by (simp add: table_emplace_def)
  have "j \<noteq> i" if "(n, j) \<in> set ?t" for n j
    using that entry_ok [OF assms, of n i] entry_ok [OF assms m] by (auto simp: delete_facts(2))
  let ?o = "(lx_objs x)[i := (lx_objs x ! i)\<lparr>lo_name := b\<rparr>]"
  have e: "j < length (lx_objs x) \<and> lo_name (?o ! j) = n" if "(n, j) \<in> set (?t @ [(b, i)])" for n j
  proof (cases "(n, j) \<in> set ?t")
    case True
    then have "j \<noteq> i" "(n, j) \<in> set (lx_loggers x)" using \<open>\<And>n j. (n, j) \<in> set ?t \<Longrightarrow> j \<noteq> i\<close> by (auto simp: delete_facts(2))
    then show ?thesis using entry_ok [OF assms, of n j] by simp
  next
    case False
    then show ?thesis using that entry_ok [OF assms m] by simp
  qed
  have d: "distinct (map fst (?t @ [(b, i)]))" "lx_root x < length (lx_objs x)"
    using assms delete_facts(1) [of "lx_loggers x" a] \<open>b \<notin> fst ` set ?t\<close> by (simp_all add: manager_ok_def)
  have "fst (renameLogger x a b) = x\<lparr>lx_objs := ?o, lx_loggers := ?t @ [(b, i)]\<rparr>" using True i by (simp add: renameLogger_def t)
  then show ?thesis using e d by (auto simp: manager_ok_def obj_name_def simp del: set_append)
qed (use assms in \<open>auto simp: renameLogger_def split: option.split\<close>)

lemma manager_step_ok:
  assumes "manager_ok x" "valid_op x op"
  shows "manager_ok (manager_step x op)"
proof (cases op)
  case (BuildLocal bd)
  then show ?thesis using assms create_obj_ok by (auto split: option.split)
next
  case (BuildGlobal bd)
  have "manager_ok (addLogger (fst (create_obj x lg)) (Some (snd (create_obj x lg))))" for lg
    using create_obj_ok [OF assms(1), of lg] emplace_ok(3) [OF create_obj_ok [OF assms(1), of lg]]
    by (auto simp: addLogger_def create_obj_def)
  then show ?thesis using assms BuildGlobal by (auto simp: global_build_def case_prod_beta Let_def split: option.split)
next
  case (ReplaceRoot lg)
  then show ?thesis using assms emplace_ok(1) by (cases lg) (auto simp: replaceRootLogger_def)
next
  case (AddLogger lg)
  then show ?thesis using assms emplace_ok(3) by (cases lg) (auto simp: addLogger_def)
next
  case (InitRoot lg)
  then show ?thesis using assms emplace_ok(2) by (cases lg) (auto simp: initRootLogger_def)
qed (use assms level_ok rename_ok in auto)

lemma initial_ok: "LoggerManager = Some x \<Longrightarrow> manager_ok x"
  by (auto simp: LoggerManager_def local_build_def buildloggername_def LoggerBuilder_def manager_ok_def obj_name_def buildloggersink_def Let_def
      split: option.splits)

lemma reach_ok: "manager_reach x \<Longrightarrow> manager_ok x"
  by (induction rule: manager_reach.induct) (use initial_ok manager_step_ok in auto)

text \<open>
  Property C20. The manager and its loggers agree: in every state that building, adding, replacing, renaming and
  changing of levels can reach, a logger that is found by a name bears this name, no name stands
  twice, and the root logger is an object.
\<close>

theorem manager_names_agree:
  assumes "manager_reach x"
  shows "distinct (map fst (lx_loggers x)) \<and> lx_root x < length (lx_objs x)
    \<and> (\<forall>n i. manager_getLogger x n = Some i \<longrightarrow> i < length (lx_objs x) \<and> lo_name (lx_objs x ! i) = n)"
  using reach_ok [OF assms] by (auto simp: manager_ok_def obj_name_def manager_getLogger_def dest!: map_of_SomeD)

theorem manager_names_agree_witness:
  "\<exists>x. manager_reach x \<and> manager_getLogger x ''b'' = Some 1 \<and> lo_name (lx_objs x ! 1) = ''b''"
proof -
  obtain f where f: "Formatter default_pattern = Some f" using default_line by fastforce
  let ?lg = "\<lambda>n. \<lparr>lo_name = n, lo_formatter = f, lo_level = INFO, lo_backend = AsyncOutput ASYNC_SAFE [Stdout]\<rparr>"
  let ?x = "\<lparr>lx_objs = [?lg ''root_logger''], lx_root = 0, lx_loggers = [(''root_logger'', 0)]\<rparr>"
  have "LoggerManager = Some ?x"
    by (simp add: LoggerManager_def local_build_def LoggerBuilder_def buildloggername_def buildloggersink_def f)
  then have "manager_reach ?x" by (rule reach_new)
  from reach_op [OF reach_op [OF this, of "BuildGlobal (buildloggername LoggerBuilder ''a'')"], of "RenameLogger ''a'' ''b''"]
  have r: "manager_reach \<lparr>lx_objs = [?lg ''root_logger'', ?lg ''b''], lx_root = 0, lx_loggers = [(''root_logger'', 0), (''b'', 1)]\<rparr>"
    by (simp add: global_build_def local_build_def LoggerBuilder_def buildloggername_def buildloggersink_def f create_obj_def addLogger_def hasLogger_def
        obj_name_def table_emplace_def renameLogger_def)
  let ?y = "\<lparr>lx_objs = [?lg ''root_logger'', ?lg ''b''], lx_root = 0, lx_loggers = [(''root_logger'', 0), (''b'', 1)]\<rparr>"
  have g: "manager_getLogger ?y ''b'' = Some 1" by (simp add: manager_getLogger_def)
  from manager_names_agree [OF r] g have "lo_name (lx_objs ?y ! 1) = ''b''" by blast
  then show ?thesis using r g by blast
qed

text \<open>
  Remark. A new root logger whose name is taken is not found by its name: the older logger
  of that name is.
\<close>

theorem replaced_root_hidden:
  assumes "manager_getLogger x (obj_name x i) = Some j" "obj_name x i \<noteq> obj_name x (lx_root x)"
  shows "manager_getLogger (replaceRootLogger x (Some i)) (obj_name x i) = Some j \<and> rootLogger (replaceRootLogger x (Some i)) = i"
proof -
  let ?t = "AList.delete (obj_name x (lx_root x)) (lx_loggers x)"
  have "map_of ?t (obj_name x i) = Some j" using assms by (simp add: manager_getLogger_def delete_conv')
  moreover from this have "obj_name x i \<in> fst ` set ?t" by (metis image_eqI fst_conv map_of_SomeD)
  ultimately show ?thesis by (simp add: replaceRootLogger_def manager_getLogger_def table_emplace_def rootLogger_def)
qed

end
