(* ===== verification/Log_Sinks.thy ===== *)
theory Log_Sinks
  imports Config
begin

text \<open>
  The sinks of \<open>log_system/sink.hpp\<close>: where formatted log lines go. A file system is a map from
  path to content; a file that is opened for appending keeps what it has. Opening and writing succeed (the code
  asserts it), directories are not modelled, and what \<open>localtime_r\<close> makes of the time is an argument.
\<close>

subsection \<open>Paths\<close>

text \<open>\<open>utility::File::path\<close>: everything up to the last slash or backslash.\<close>

definition is_sep :: "char \<Rightarrow> bool" where
  "is_sep c \<longleftrightarrow> c = CHR ''/'' \<or> c = CHR 0x5C"

definition path :: "string \<Rightarrow> string" where
  "path p = (if p = [] then ''.'' else if \<not> (\<exists>c \<in> set p. is_sep c) then ''.'' else rev (dropWhile (\<lambda>c. \<not> is_sep c) (rev p)))"

subsection \<open>Files\<close>

type_synonym file_system = "string \<Rightarrow> string option"

definition open_append :: "file_system \<Rightarrow> string \<Rightarrow> file_system" where
  "open_append fs p = (case fs p of None \<Rightarrow> fs(p \<mapsto> []) | Some _ \<Rightarrow> fs)"

definition append_file :: "file_system \<Rightarrow> string \<Rightarrow> string \<Rightarrow> file_system" where
  "append_file fs p data = fs(p \<mapsto> (case fs p of None \<Rightarrow> [] | Some c \<Rightarrow> c) @ data)"

subsection \<open>One file\<close>

definition FileSink :: "file_system \<Rightarrow> string \<Rightarrow> file_system" where
  "FileSink fs p = open_append fs p"

definition FileSink_log :: "file_system \<Rightarrow> string \<Rightarrow> string \<Rightarrow> file_system" where
  "FileSink_log fs p data = append_file fs p data"

subsection \<open>Rolling by size\<close>

text \<open>\<open>snprintf\<close> into 160 bytes; \<open>stamp\<close> is the formatted time, \<open>seq\<close> the counter of the class.\<close>

definition craetefilename :: "string \<Rightarrow> string \<Rightarrow> nat \<Rightarrow> string" where
  "craetefilename base stamp seq = take 159 (base @ stamp @ ''_'' @ to_string (int seq) @ ''.log'')"

record roll_sink =
  rs_basename :: string
  rs_file :: string
  rs_max_size :: nat
  rs_cur_size :: nat

text \<open>The class counter is part of the state that all sinks of the class share.\<close>

record roll_state =
  ro_fs :: file_system
  ro_seq :: nat

definition open_next :: "roll_state \<Rightarrow> string \<Rightarrow> string \<Rightarrow> roll_state \<times> string" where
  "open_next w base stamp =
     (let p = craetefilename base stamp (ro_seq w) in (\<lparr>ro_fs = open_append (ro_fs w) p, ro_seq = Suc (ro_seq w)\<rparr>, p))"

definition RollfileSink :: "roll_state \<Rightarrow> string \<Rightarrow> nat \<Rightarrow> string \<Rightarrow> roll_state \<times> roll_sink" where
  "RollfileSink w base max_size stamp =
     (let (w', p) = open_next w base stamp in (w', \<lparr>rs_basename = base, rs_file = p, rs_max_size = max_size, rs_cur_size = 0\<rparr>))"

definition RollfileSink_log :: "roll_state \<Rightarrow> roll_sink \<Rightarrow> string \<Rightarrow> string \<Rightarrow> roll_state \<times> roll_sink" where
  "RollfileSink_log w s stamp data =
     (let (w1, s1) =
        (if rs_cur_size s + length data > rs_max_size s then
           (let (w', p) = open_next w (rs_basename s) stamp in (w', s\<lparr>rs_file := p, rs_cur_size := length data\<rparr>))
         else (w, s\<lparr>rs_cur_size := rs_cur_size s + length data\<rparr>)) in
      (w1\<lparr>ro_fs := append_file (ro_fs w1) (rs_file s1) data\<rparr>, s1))"

subsection \<open>Rolling by time\<close>

record timed_sink =
  ts_basename :: string
  ts_file :: string
  ts_interval :: int
  ts_last_roll :: int

definition RollbytimefileSink :: "roll_state \<Rightarrow> string \<Rightarrow> int \<Rightarrow> string \<Rightarrow> int \<Rightarrow> roll_state \<times> timed_sink" where
  "RollbytimefileSink w base interval stamp now =
     (let (w', p) = open_next w base stamp in (w', \<lparr>ts_basename = base, ts_file = p, ts_interval = interval, ts_last_roll = now\<rparr>))"

definition RollbytimefileSink_log :: "roll_state \<Rightarrow> timed_sink \<Rightarrow> string \<Rightarrow> int \<Rightarrow> string \<Rightarrow> roll_state \<times> timed_sink" where
  "RollbytimefileSink_log w s stamp now data =
     (let (w1, s1) =
        (if now - ts_last_roll s \<ge> ts_interval s then
           (let (w', p) = open_next w (ts_basename s) stamp in (w', s\<lparr>ts_file := p, ts_last_roll := now\<rparr>))
         else (w, s)) in
      (w1\<lparr>ro_fs := append_file (ro_fs w1) (ts_file s1) data\<rparr>, s1))"

subsection \<open>What the rolling files hold\<close>

text \<open>Log lines with the time stamp of each.\<close>

fun roll_all :: "roll_state \<Rightarrow> roll_sink \<Rightarrow> (string \<times> string) list \<Rightarrow> roll_state \<times> roll_sink" where
  "roll_all w s [] = (w, s)"
| "roll_all w s ((stamp, data) # ds) = (let (w', s') = RollfileSink_log w s stamp data in roll_all w' s' ds)"

text \<open>
  The specification: the lines are cut into files in the order they come; a file takes a line as long as the
  limit allows it.
\<close>

fun file_cut :: "nat \<Rightarrow> string list \<Rightarrow> string \<Rightarrow> string list" where
  "file_cut lim [] cur = [cur]"
| "file_cut lim (d # ds) cur = (if length cur + length d > lim then cur # file_cut lim ds d else file_cut lim ds (cur @ d))"

text \<open>The names of these files, in the same order.\<close>

fun file_names :: "nat \<Rightarrow> string \<Rightarrow> nat \<Rightarrow> (string \<times> string) list \<Rightarrow> nat \<Rightarrow> string \<Rightarrow> string list" where
  "file_names lim base seq [] n p = [p]"
| "file_names lim base seq ((stamp, d) # ds) n p =
     (if n + length d > lim then p # file_names lim base (Suc seq) ds (length d) (craetefilename base stamp seq)
      else file_names lim base seq ds (n + length d) p)"

lemma file_cut_concat: "concat (file_cut lim ds cur) = cur @ concat ds"
  by (induction ds arbitrary: cur) auto

lemma file_cut_size: "length cur \<le> lim \<or> cur \<in> X \<Longrightarrow> set ds \<subseteq> X \<Longrightarrow> \<forall>f \<in> set (file_cut lim ds cur). length f \<le> lim \<or> f \<in> X"
proof (induction ds arbitrary: cur)
  case (Cons d ds)
  then have "d \<in> X" "set ds \<subseteq> X" by auto
  then show ?case using Cons.IH [of d] Cons.IH [of "cur @ d"] Cons.prems(1) by (cases "length cur + length d > lim") auto
qed simp

text \<open>Every file name that can come up fits into the buffer and is new.\<close>

definition names_new :: "file_system \<Rightarrow> string \<Rightarrow> nat \<Rightarrow> nat \<Rightarrow> string list \<Rightarrow> bool" where
  "names_new fs base seq n stamps \<longleftrightarrow>
     (\<forall>stamp \<in> set stamps. \<forall>k \<in> {seq ..< seq + n}.
        length (base @ stamp @ ''_'' @ to_string (int k) @ ''.log'') \<le> 159 \<and> fs (craetefilename base stamp k) = None)"

lemma names_new_sub:
  assumes "names_new fs base seq n stamps" "set stamps' \<subseteq> set stamps" "seq \<le> seq'" "seq' + n' \<le> seq + n"
    and "\<And>st k. length (base @ st @ ''_'' @ to_string (int k) @ ''.log'') \<le> 159 \<Longrightarrow> seq' \<le> k \<Longrightarrow> fs (craetefilename base st k) = None
      \<Longrightarrow> fs' (craetefilename base st k) = None"
  shows "names_new fs' base seq' n' stamps'"
  unfolding names_new_def
proof (intro ballI)
  fix st k assume "st \<in> set stamps'" and k: "k \<in> {seq' ..< seq' + n'}"
  then have "st \<in> set stamps" "k \<in> {seq ..< seq + n}" using assms(2-4) by auto
  then have "length (base @ st @ ''_'' @ to_string (int k) @ ''.log'') \<le> 159 \<and> fs (craetefilename base st k) = None"
    using assms(1) unfolding names_new_def by blast
  then show "length (base @ st @ ''_'' @ to_string (int k) @ ''.log'') \<le> 159 \<and> fs' (craetefilename base st k) = None"
    using assms(5) k by simp
qed

lemma first_name: "p \<in> set (file_names lim base seq ds n p)"
  by (induction ds arbitrary: n) auto

lemma digits_no_underscore: "CHR ''_'' \<notin> set (to_string (int n) @ ''.log'')"
  using dec_nat_digits [of n] by (auto simp: to_string_def is_digit_def dest!: subsetD)

lemma craetefilename_inj:
  assumes "length (base @ st @ ''_'' @ to_string (int k) @ ''.log'') \<le> 159" "length (base @ st' @ ''_'' @ to_string (int k') @ ''.log'') \<le> 159"
    "craetefilename base st k = craetefilename base st' k'"
  shows "k = k'"
proof -
  have "(base @ st) @ CHR ''_'' # (to_string (int k) @ ''.log'') = (base @ st') @ CHR ''_'' # (to_string (int k') @ ''.log'')"
    using assms by (simp add: craetefilename_def)
  from append_sep_inj [OF digits_no_underscore digits_no_underscore this] show ?thesis by (simp add: to_string_inj)
qed

lemma roll_files:
  assumes "rs_basename s = base" "rs_max_size s = lim" "ro_fs w (rs_file s) = Some cur" "rs_cur_size s = length cur"
    "names_new (ro_fs w) base (ro_seq w) (length ds) (map fst ds)"
  shows "map (ro_fs (fst (roll_all w s ds))) (file_names lim base (ro_seq w) ds (length cur) (rs_file s)) = map Some (file_cut lim (map snd ds) cur)
    \<and> distinct (file_names lim base (ro_seq w) ds (length cur) (rs_file s))
    \<and> (\<forall>p. p \<notin> set (file_names lim base (ro_seq w) ds (length cur) (rs_file s)) \<longrightarrow> ro_fs (fst (roll_all w s ds)) p = ro_fs w p)
    \<and> (\<forall>p \<in> set (file_names lim base (ro_seq w) ds (length cur) (rs_file s)). p = rs_file s \<or> ro_fs w p = None)"
  using assms
proof (induction ds arbitrary: w s cur)
  case (Cons e ds)
  obtain st d where e: "e = (st, d)" by (cases e) auto
  show ?case
  proof (cases "length cur + length d > lim")
    case False
    let ?w = "w\<lparr>ro_fs := append_file (ro_fs w) (rs_file s) d\<rparr>" and ?s = "s\<lparr>rs_cur_size := rs_cur_size s + length d\<rparr>"
    have r: "RollfileSink_log w s st d = (?w, ?s)" using False Cons.prems by (simp add: RollfileSink_log_def)
    have fs: "ro_fs ?w = (ro_fs w)(rs_file s \<mapsto> cur @ d)" using Cons.prems by (simp add: append_file_def)
    have "names_new (ro_fs ?w) base (ro_seq ?w) (length ds) (map fst ds)"
      by (rule names_new_sub [OF Cons.prems(5)]) (use Cons.prems(3) in \<open>auto simp: append_file_def\<close>)
    from Cons.IH [of ?s ?w "cur @ d", OF _ _ _ _ this] Cons.prems(1-4) False
    show ?thesis using first_name [of "rs_file s" lim base "ro_seq w" ds "length cur + length d"] by (auto simp: e r fs split: if_splits)
  next
    case True
    let ?p = "craetefilename base st (ro_seq w)"
    let ?w = "\<lparr>ro_fs = append_file (open_append (ro_fs w) ?p) ?p d, ro_seq = Suc (ro_seq w)\<rparr>" and ?s = "s\<lparr>rs_file := ?p, rs_cur_size := length d\<rparr>"
    have r: "RollfileSink_log w s st d = (?w, ?s)" using True Cons.prems by (simp add: RollfileSink_log_def open_next_def Let_def)
    have new: "ro_fs w ?p = None" and fit: "length (base @ st @ ''_'' @ to_string (int (ro_seq w)) @ ''.log'') \<le> 159"
      using Cons.prems(5) by (auto simp: names_new_def e)
    have fs: "ro_fs ?w = (ro_fs w)(?p \<mapsto> d)" using new by (simp add: append_file_def open_append_def)
    have nn: "names_new (ro_fs ?w) base (ro_seq ?w) (length ds) (map fst ds)"
    proof (rule names_new_sub [OF Cons.prems(5)])
      fix st' k assume "length (base @ st' @ ''_'' @ to_string (int k) @ ''.log'') \<le> 159" "ro_seq ?w \<le> k" "ro_fs w (craetefilename base st' k) = None"
      then show "ro_fs ?w (craetefilename base st' k) = None" using craetefilename_inj [OF _ fit, of st' k] unfolding fs by auto
    qed auto
    from Cons.IH [of ?s ?w d, OF _ _ _ _ nn] Cons.prems(1-4) fs
    have IH: "map (ro_fs (fst (roll_all ?w ?s ds))) (file_names lim base (Suc (ro_seq w)) ds (length d) ?p) = map Some (file_cut lim (map snd ds) d)"
      "distinct (file_names lim base (Suc (ro_seq w)) ds (length d) ?p)"
      "\<forall>p. p \<notin> set (file_names lim base (Suc (ro_seq w)) ds (length d) ?p) \<longrightarrow> ro_fs (fst (roll_all ?w ?s ds)) p = ((ro_fs w)(?p \<mapsto> d)) p"
      "\<forall>p \<in> set (file_names lim base (Suc (ro_seq w)) ds (length d) ?p). p = ?p \<or> ((ro_fs w)(?p \<mapsto> d)) p = None"
      by auto
    note first = first_name [of ?p lim base "Suc (ro_seq w)" ds "length d"]
    have old: "rs_file s \<notin> set (file_names lim base (Suc (ro_seq w)) ds (length d) ?p)"
      using IH(4) new Cons.prems(3) by (metis fun_upd_apply option.distinct(1))
    have "rs_file s \<noteq> ?p" using new Cons.prems(3) by auto
    then show ?thesis using IH old first True Cons.prems(3) new by (auto simp: e r split: if_splits)
  qed
qed simp

text \<open>A sink that is made and then gets the lines: the files after it, and the names it used.\<close>

definition roll_run :: "roll_state \<Rightarrow> string \<Rightarrow> nat \<Rightarrow> string \<Rightarrow> (string \<times> string) list \<Rightarrow> file_system" where
  "roll_run w base lim stamp ds = (let (w1, s1) = RollfileSink w base lim stamp in ro_fs (fst (roll_all w1 s1 ds)))"

definition roll_names :: "roll_state \<Rightarrow> string \<Rightarrow> nat \<Rightarrow> string \<Rightarrow> (string \<times> string) list \<Rightarrow> string list" where
  "roll_names w base lim stamp ds = file_names lim base (Suc (ro_seq w)) ds 0 (craetefilename base stamp (ro_seq w))"

text \<open>
  Property C21. Rolling by size loses nothing and keeps the limit: from a fresh sink, the log lines stand in the
  files, in the order in which the files were made, without a gap; every file is within the limit or holds
  a single line that is longer; and no other file is touched.
\<close>

theorem rolling_keeps_lines:
  assumes "names_new (ro_fs w) base (ro_seq w) (Suc (length ds)) (stamp # map fst ds)"
  shows "concat (map (\<lambda>p. the (roll_run w base lim stamp ds p)) (roll_names w base lim stamp ds)) = concat (map snd ds)
    \<and> distinct (roll_names w base lim stamp ds)
    \<and> (\<forall>p \<in> set (roll_names w base lim stamp ds). \<exists>c. roll_run w base lim stamp ds p = Some c \<and> (length c \<le> lim \<or> c \<in> snd ` set ds))
    \<and> (\<forall>p. p \<notin> set (roll_names w base lim stamp ds) \<longrightarrow> roll_run w base lim stamp ds p = ro_fs w p)"
proof -
  let ?p = "craetefilename base stamp (ro_seq w)"
  have new: "ro_fs w ?p = None" and fit: "length (base @ stamp @ ''_'' @ to_string (int (ro_seq w)) @ ''.log'') \<le> 159"
    using assms(1) by (auto simp: names_new_def)
  define w1 where "w1 = fst (RollfileSink w base lim stamp)"
  define s1 where "s1 = snd (RollfileSink w base lim stamp)"
  define names where "names = roll_names w base lim stamp ds"
  have w1: "ro_fs w1 = (ro_fs w)(?p \<mapsto> [])" "ro_seq w1 = Suc (ro_seq w)" and s1: "s1 = \<lparr>rs_basename = base, rs_file = ?p, rs_max_size = lim, rs_cur_size = 0\<rparr>"
    using new by (simp_all add: w1_def s1_def RollfileSink_def open_next_def Let_def open_append_def)
  have run: "roll_run w base lim stamp ds = ro_fs (fst (roll_all w1 s1 ds))" by (simp add: roll_run_def w1_def s1_def case_prod_beta Let_def)
  have nn: "names_new (ro_fs w1) base (ro_seq w1) (length ds) (map fst ds)"
  proof (rule names_new_sub [OF assms(1)])
    fix st' k assume "length (base @ st' @ ''_'' @ to_string (int k) @ ''.log'') \<le> 159" "ro_seq w1 \<le> k" "ro_fs w (craetefilename base st' k) = None"
    then show "ro_fs w1 (craetefilename base st' k) = None" using craetefilename_inj [OF _ fit, of st' k] unfolding w1 by auto
  qed (auto simp: w1)
  have r: "map (ro_fs (fst (roll_all w1 s1 ds))) names = map Some (file_cut lim (map snd ds) [])" "distinct names"
    "\<And>p. p \<notin> set names \<Longrightarrow> ro_fs (fst (roll_all w1 s1 ds)) p = ro_fs w1 p"
    using roll_files [of s1 base lim w1 "[]", OF _ _ _ _ nn] by (auto simp: s1 w1 names_def roll_names_def)
  have "?p \<in> set names" unfolding names_def roll_names_def by (rule first_name)
  then have other: "p \<notin> set names \<Longrightarrow> ro_fs (fst (roll_all w1 s1 ds)) p = ro_fs w p" for p using r(3) w1 by auto
  have the_r: "map (\<lambda>p. the (ro_fs (fst (roll_all w1 s1 ds)) p)) names = file_cut lim (map snd ds) []"
    using arg_cong [OF r(1), of "map the"] by (simp add: comp_def)
  have "\<forall>f \<in> set (file_cut lim (map snd ds) []). length f \<le> lim \<or> f \<in> snd ` set ds" by (rule file_cut_size) auto
  moreover have "ro_fs (fst (roll_all w1 s1 ds)) p \<in> Some ` set (file_cut lim (map snd ds) [])" if "p \<in> set names" for p
    using arg_cong [OF r(1), of set] that by (auto simp: image_iff)
  ultimately have "\<forall>p \<in> set names. \<exists>c. ro_fs (fst (roll_all w1 s1 ds)) p = Some c \<and> (length c \<le> lim \<or> c \<in> snd ` set ds)" by fastforce
  then show ?thesis unfolding run names_def [symmetric] using r(2) other the_r file_cut_concat [of lim "map snd ds" "[]"] by simp
qed

theorem rolling_keeps_lines_witness:
  "roll_run \<lparr>ro_fs = \<lambda>p. None, ro_seq = 0\<rparr> ''a'' 3 ''t'' [(''u'', ''xy''), (''v'', ''zz'')] ''other'' = None"
proof -
  have "names_new (\<lambda>p. None) ''a'' 0 3 [''t'', ''u'', ''v'']"
    by (auto simp: names_new_def to_string_def dec_nat.simps)
  then have "names_new (ro_fs \<lparr>ro_fs = \<lambda>p. None, ro_seq = 0\<rparr>) ''a'' (ro_seq \<lparr>ro_fs = \<lambda>p. None, ro_seq = 0\<rparr>)
      (Suc (length [(''u'', ''xy''), (''v'', ''zz'')])) (''t'' # map fst [(''u'', ''xy''), (''v'', ''zz'')])"
    by (simp add: numeral_3_eq_3)
  from rolling_keeps_lines [OF this, of 3]
  show ?thesis by (simp add: roll_names_def craetefilename_def to_string_def dec_nat.simps)
qed

end
