(* ===== verification/Ids.thy ===== *)
theory Ids
  imports Config
begin

unbundle bit_operations_syntax

text \<open>
  The request ids of \<open>rpc/src/general/detail.hpp\<close>: eight random bytes and the eight bytes of a process-wide
  counter as hexadecimal text. The random bytes are an argument. The two functions of the class \<open>JSON\<close> there only
  turn the failures of the library into a result.
\<close>

subsection \<open>Ids\<close>

definition hex_digit :: "nat \<Rightarrow> char" where
  "hex_digit n = char_of (if n < 10 then 48 + n else 87 + n)"

text \<open>\<open>setw(2) << setfill('0') << hex\<close> of a byte.\<close>

definition hex_byte :: "nat \<Rightarrow> string" where
  "hex_byte n = [hex_digit (n div 16), hex_digit (n mod 16)]"

definition seq_byte :: "u64 \<Rightarrow> nat \<Rightarrow> nat" where
  "seq_byte cur i = unat (drop_bit (i * 8) cur AND 0xFF)"

definition uuid :: "nat list \<Rightarrow> u64 \<Rightarrow> u64 \<times> string" where
  "uuid rnd seq =
     (let cur = seq in
      (seq + 1,
       concat (map (\<lambda>i. (if i = 4 \<or> i = 6 then ''-'' else []) @ hex_byte (rnd ! i)) [0, 1, 2, 3, 4, 5, 6, 7]) @ ''-'' @
       concat (map (\<lambda>i. (if i = 5 then ''-'' else []) @ hex_byte (seq_byte cur i)) [7, 6, 5, 4, 3, 2, 1, 0])))"

fun uuids :: "nat list list \<Rightarrow> u64 \<Rightarrow> string list" where
  "uuids [] seq = []"
| "uuids (rnd # rnds) seq = (let (seq', s) = uuid rnd seq in s # uuids rnds seq')"

subsection \<open>The JSON wrapper\<close>

text \<open>What the library's parser does with a text: a value, a failure, or an exception.\<close>

datatype 'j parse_outcome = Parsed 'j | ParseError | ParseThrows

definition JSON_serialize :: "('j \<Rightarrow> int \<times> string) \<Rightarrow> 'j \<Rightarrow> string \<Rightarrow> bool \<times> string" where
  "JSON_serialize write data output = (case write data of (ret, text) \<Rightarrow> if ret \<noteq> 0 then (False, output) else (True, text))"

definition JSON_deserialize :: "(string \<Rightarrow> 'j parse_outcome) \<Rightarrow> string \<Rightarrow> 'j option" where
  "JSON_deserialize parse input = (case parse input of Parsed v \<Rightarrow> Some v | ParseError \<Rightarrow> None | ParseThrows \<Rightarrow> None)"

subsection \<open>Ids do not repeat\<close>

lemma hex_digit_inj:
  assumes "a < 16" "b < 16" "hex_digit a = hex_digit b"
  shows "a = b"
proof -
  have v: "of_char (hex_digit n) = (if n < 10 then 48 + n else 87 + n)" if "n < 16" for n
    using that by (simp add: hex_digit_def)
  have "(if a < 10 then 48 + a else 87 + a) = (if b < 10 then 48 + b else 87 + b)"
    using v [OF assms(1)] v [OF assms(2)] assms(3) by simp
  then show ?thesis by (auto split: if_splits)
qed

lemma hex_byte_inj:
  assumes "a < 256" "b < 256" "hex_byte a = hex_byte b"
  shows "a = b"
proof -
  have "a div 16 < 16" "b div 16 < 16" using assms(1,2) by simp_all
  then have "a div 16 = b div 16" "a mod 16 = b mod 16" using assms(3) hex_digit_inj by (auto simp: hex_byte_def)
  then show ?thesis by (metis div_mult_mod_eq)
qed

lemma hex_byte_split: "hex_byte a @ r = hex_byte b @ s \<longleftrightarrow> hex_byte a = hex_byte b \<and> r = s"
  by (auto simp: hex_byte_def)

lemma seq_byte_less: "seq_byte cur i < 256"
proof -
  have "drop_bit (i * 8) cur AND 0xFF = take_bit 8 (drop_bit (i * 8) cur)" by (simp add: take_bit_eq_mask mask_eq_exp_minus_1)
  then have "unat (drop_bit (i * 8) cur AND 0xFF) = take_bit 8 (unat (drop_bit (i * 8) cur))" by (simp add: unsigned_take_bit_eq)
  then show ?thesis by (simp add: seq_byte_def take_bit_eq_mod)
qed

lemma seq_bytes_inj:
  assumes "\<And>i. i < 8 \<Longrightarrow> seq_byte a i = seq_byte b i"
  shows "a = b"
proof (rule bit_word_eqI)
  fix n assume n: "n < LENGTH(64)"
  have "drop_bit (n div 8 * 8) a AND 0xFF = drop_bit (n div 8 * 8) b AND 0xFF"
    using assms [of "n div 8"] n by (simp add: seq_byte_def word_unat_eq_iff less_mult_imp_div_less)
  then have "bit (drop_bit (n div 8 * 8) a AND mask 8) (n mod 8) = bit (drop_bit (n div 8 * 8) b AND mask 8) (n mod 8)"
    by (simp add: mask_eq_exp_minus_1)
  then show "bit a n = bit b n" using n mod_less_divisor [of 8 n] by (simp add: bit_and_iff bit_drop_bit_eq bit_mask_iff order_less_le_trans [of _ 8 64])
qed

lemma tail_eq: "x @ u = y @ v \<Longrightarrow> length x = length y \<Longrightarrow> u = v"
  by simp

lemma uuid_inj:
  assumes "snd (uuid rnd a) = snd (uuid rnd' b)"
  shows "a = b"
proof (rule seq_bytes_inj)
  fix i :: nat assume i: "i < 8"
  let ?s = "\<lambda>c. concat (map (\<lambda>i. (if i = 5 then ''-'' else []) @ hex_byte (seq_byte c i)) [7, 6, 5, 4, 3, 2, 1, 0])"
  let ?r = "\<lambda>rnd. concat (map (\<lambda>i. (if i = 4 \<or> i = 6 then ''-'' else []) @ hex_byte (rnd ! i)) [0, 1, 2, 3, 4, 5, 6, 7])"
  have "?r rnd @ ''-'' @ ?s a = ?r rnd' @ ''-'' @ ?s b" using assms unfolding uuid_def Let_def snd_conv .
  moreover have "length (?r rnd) = length (?r rnd')" by (simp add: hex_byte_def)
  ultimately have "''-'' @ ?s a = ''-'' @ ?s b" by (rule tail_eq)
  then have "?s a = ?s b" by (simp only: same_append_eq)
  then have "\<forall>i \<in> {0, 1, 2, 3, 4, 5, 6, 7}. hex_byte (seq_byte a i) = hex_byte (seq_byte b i)"
    by (simp add: hex_byte_split)
  then have "hex_byte (seq_byte a i) = hex_byte (seq_byte b i)" using i by (auto simp: less_Suc_eq numeral_eq_Suc)
  then show "seq_byte a i = seq_byte b i" using hex_byte_inj seq_byte_less by blast
qed

lemma uuids_nth: "k < length rnds \<Longrightarrow> uuids rnds seq ! k = snd (uuid (rnds ! k) (seq + of_nat k))"
proof (induction rnds arbitrary: k seq)
  case (Cons rnd rnds)
  show ?case
  proof (cases k)
    case (Suc j)
    then show ?thesis using Cons by (simp add: uuid_def add.assoc)
  qed (simp add: case_prod_beta)
qed simp

lemma uuids_length: "length (uuids rnds seq) = length rnds"
  by (induction rnds arbitrary: seq) (auto simp: case_prod_beta)

text \<open>
  Property C40. Request ids do not repeat: the first two to the power of 64 ids of a process are all different, whatever the
  random bytes are.
\<close>

theorem ids_distinct:
  assumes "length rnds \<le> 2 ^ 64"
  shows "distinct (uuids rnds seq)"
proof -
  have "k = j" if "k < length rnds" "j < length rnds" "uuids rnds seq ! k = uuids rnds seq ! j" for k j
  proof -
    have "(of_nat k :: u64) = of_nat j" using that uuids_nth uuid_inj by (metis add_left_cancel)
    moreover have "k < 2 ^ 64" "j < 2 ^ 64" using that assms by linarith+
    ultimately show ?thesis using unat_of_nat_small by metis
  qed
  then show ?thesis by (auto simp: distinct_conv_nth uuids_length)
qed

theorem ids_distinct_witness:
  "distinct (uuids [[0, 0, 0, 0, 0, 0, 0, 0], [0, 0, 0, 0, 0, 0, 0, 0]] 1)"
  by (rule ids_distinct) simp

end
