(* ===== verification/Selection_Profile.thy ===== *)
theory Selection_Profile
  imports Prelude Complex_Main "HOL-Library.Multiset"
begin

text \<open>
  The sampling of host selection times of \<open>rpc/src/client/selection_profile.hpp\<close>: each thread has a buffer of its
  own, a thread that ends moves its samples to the common list, and a summary gives the percentiles. A sample is a
  64-bit number, a \<open>double\<close> is a real number; the environment variable and the clock are arguments.
\<close>

subsection \<open>State\<close>

text \<open>\<open>pr_live\<close>: the buffers of the threads that are alive, in the order in which they were made.\<close>

record profile_registry =
  pr_aggregate :: "u64 list"
  pr_live :: "(nat \<times> u64 list) list"
  pr_override_state :: int

definition new_profile :: profile_registry where
  "new_profile = \<lparr>pr_aggregate = [], pr_live = [], pr_override_state = -1\<rparr>"

definition envEnabled :: "string option \<Rightarrow> bool" where
  "envEnabled v =
     (case v of
        None \<Rightarrow> False
      | Some s \<Rightarrow> if s = [] then False else s \<noteq> ''0'' \<and> s \<noteq> ''false'')"

definition selectionProfileEnabled :: "string option \<Rightarrow> profile_registry \<Rightarrow> bool" where
  "selectionProfileEnabled env r = (if pr_override_state r < 0 then envEnabled env else pr_override_state r \<noteq> 0)"

definition setSelectionProfileEnabled :: "bool \<Rightarrow> profile_registry \<Rightarrow> profile_registry" where
  "setSelectionProfileEnabled on r = r\<lparr>pr_override_state := (if on then 1 else 0)\<rparr>"

text \<open>The buffer of a thread is made when it is first used and given up when the thread ends.\<close>

definition threadBuffer :: "nat \<Rightarrow> profile_registry \<Rightarrow> profile_registry" where
  "threadBuffer t r = (if t \<in> fst ` set (pr_live r) then r else r\<lparr>pr_live := pr_live r @ [(t, [])]\<rparr>)"

definition recordSelectionNs :: "string option \<Rightarrow> nat \<Rightarrow> u64 \<Rightarrow> profile_registry \<Rightarrow> profile_registry" where
  "recordSelectionNs env t ns r =
     (if \<not> selectionProfileEnabled env r then r
      else let r1 = threadBuffer t r in
        r1\<lparr>pr_live := map (\<lambda>(u, ss). (u, if u = t then ss @ [ns] else ss)) (pr_live r1)\<rparr>)"

definition thread_exit :: "nat \<Rightarrow> profile_registry \<Rightarrow> profile_registry" where
  "thread_exit t r =
     (case map_of (pr_live r) t of
        None \<Rightarrow> r
      | Some ss \<Rightarrow> r\<lparr>pr_aggregate := pr_aggregate r @ ss, pr_live := filter (\<lambda>(u, _). u \<noteq> t) (pr_live r)\<rparr>)"

definition takeSelectionSamples :: "profile_registry \<Rightarrow> u64 list" where
  "takeSelectionSamples r = sort (pr_aggregate r @ concat (map snd (pr_live r)))"

definition resetSelectionProfile :: "profile_registry \<Rightarrow> profile_registry" where
  "resetSelectionProfile r = r\<lparr>pr_aggregate := [], pr_live := map (\<lambda>(u, _). (u, [])) (pr_live r)\<rparr>"

text \<open>The scope in which a selection is timed.\<close>

definition selection_scope :: "string option \<Rightarrow> nat \<Rightarrow> u64 \<Rightarrow> profile_registry \<Rightarrow> (profile_registry \<Rightarrow> profile_registry \<times> 'a) \<Rightarrow> profile_registry \<times> 'a" where
  "selection_scope env t elapsed r body =
     (let enabled = selectionProfileEnabled env r; (r1, x) = body r in
      (if \<not> enabled then r1 else recordSelectionNs env t elapsed r1, x))"

subsection \<open>Summary\<close>

record selection_stats =
  st_count :: nat
  st_min_ns :: u64
  st_max_ns :: u64
  st_sum_ns :: u64
  st_mean_ns :: real
  st_p50_ns :: real
  st_p90_ns :: real
  st_p99_ns :: real

definition percentile_rank :: "real \<Rightarrow> nat \<Rightarrow> nat" where
  "percentile_rank p n =
     (let rank = nat \<lceil>p * real n\<rceil>; rank1 = (if rank = 0 then 1 else rank) in if rank1 > n then n else rank1)"

definition percentile :: "u64 list \<Rightarrow> real \<Rightarrow> real" where
  "percentile sorted_ns p = real (unat (sorted_ns ! (percentile_rank p (length sorted_ns) - 1)))"

definition summarizeSelectionSamples :: "u64 list \<Rightarrow> selection_stats" where
  "summarizeSelectionSamples xs =
     (if xs = [] then \<lparr>st_count = 0, st_min_ns = 0, st_max_ns = 0, st_sum_ns = 0, st_mean_ns = 0, st_p50_ns = 0, st_p90_ns = 0, st_p99_ns = 0\<rparr>
      else let total = foldl (+) 0 xs in
        \<lparr>st_count = length xs, st_min_ns = xs ! 0, st_max_ns = last xs, st_sum_ns = total,
         st_mean_ns = real (unat total) / real (length xs),
         st_p50_ns = percentile xs (1/2), st_p90_ns = percentile xs (9/10), st_p99_ns = percentile xs (99/100)\<rparr>)"

subsection \<open>No sample is lost\<close>

datatype profile_event = Record nat u64 | ThreadExit nat | Reset | Enable bool

fun profile_step :: "string option \<Rightarrow> profile_registry \<Rightarrow> profile_event \<Rightarrow> profile_registry" where
  "profile_step env r (Record t ns) = recordSelectionNs env t ns r"
| "profile_step env r (ThreadExit t) = thread_exit t r"
| "profile_step env r Reset = resetSelectionProfile r"
| "profile_step env r (Enable on) = setSelectionProfileEnabled on r"

text \<open>The specification: the samples that were recorded, while sampling was on, since the last reset.\<close>

fun sampled :: "bool \<Rightarrow> profile_event list \<Rightarrow> u64 list \<Rightarrow> u64 list" where
  "sampled on [] acc = acc"
| "sampled on (Record t ns # es) acc = sampled on es (if on then acc @ [ns] else acc)"
| "sampled on (ThreadExit t # es) acc = sampled on es acc"
| "sampled on (Reset # es) acc = sampled on es []"
| "sampled on (Enable b # es) acc = sampled b es acc"

definition held :: "profile_registry \<Rightarrow> u64 multiset" where
  "held r = mset (pr_aggregate r @ concat (map snd (pr_live r)))"

lemma live_record:
  assumes "distinct (map fst l)" "t \<in> fst ` set l"
  shows "mset (concat (map snd (map (\<lambda>(u, ss). (u, if u = t then ss @ [ns] else ss)) l))) = add_mset ns (mset (concat (map snd l)))"
  using assms
proof (induction l)
  case (Cons e l)
  obtain u ss where e: "e = (u, ss)" by (cases e) auto
  have same: "map (\<lambda>(v, ss). (v, if v = t then ss @ [ns] else ss)) l = l" if "t \<notin> fst ` set l"
    using that by (induction l) auto
  show ?case using Cons same by (cases "u = t") (auto simp: e)
qed simp

lemma live_exit:
  assumes "distinct (map fst l)" "map_of l t = Some ss"
  shows "mset ss + mset (concat (map snd (filter (\<lambda>(u, _). u \<noteq> t) l))) = mset (concat (map snd l))"
  using assms
proof (induction l)
  case (Cons e l)
  obtain u us where e: "e = (u, us)" by (cases e) auto
  have same: "filter (\<lambda>(v, _). v \<noteq> t) l = l" if "t \<notin> fst ` set l" using that by (induction l) auto
  show ?case using Cons same by (cases "u = t") (auto simp: e)
qed simp

lemma record_keys: "map fst (map (\<lambda>(u, ss). (u, f u ss)) l) = map fst l"
  by (induction l) auto

lemma step_held:
  assumes "distinct (map fst (pr_live r))"
  shows "distinct (map fst (pr_live (profile_step env r e))) \<and> held (profile_step env r e) =
    (case e of Record t ns \<Rightarrow> if selectionProfileEnabled env r then add_mset ns (held r) else held r | Reset \<Rightarrow> {#} | _ \<Rightarrow> held r)
   \<and> selectionProfileEnabled env (profile_step env r e) = (case e of Enable b \<Rightarrow> b | _ \<Rightarrow> selectionProfileEnabled env r)"
proof (cases e)
  case (Record t ns)
  let ?r = "threadBuffer t r"
  have b: "distinct (map fst (pr_live ?r))" "t \<in> fst ` set (pr_live ?r)" "held ?r = held r"
    "selectionProfileEnabled env ?r = selectionProfileEnabled env r"
    using assms by (auto simp: threadBuffer_def held_def selectionProfileEnabled_def)
  show ?thesis
  proof (cases "selectionProfileEnabled env r")
    case False
    then show ?thesis using assms by (simp add: Record recordSelectionNs_def)
  next
    case True
    define l where "l = map (\<lambda>(u, ss). (u, if u = t then ss @ [ns] else ss)) (pr_live ?r)"
    have r: "profile_step env r e = ?r\<lparr>pr_live := l\<rparr>" using True by (simp add: Record recordSelectionNs_def Let_def l_def)
    have "map fst l = map fst (pr_live ?r)" unfolding l_def by (rule record_keys)
    moreover have "mset (concat (map snd l)) = add_mset ns (mset (concat (map snd (pr_live ?r))))" unfolding l_def by (rule live_record [OF b(1,2)])
    moreover have "selectionProfileEnabled env (?r\<lparr>pr_live := l\<rparr>) = selectionProfileEnabled env r"
      by (simp add: selectionProfileEnabled_def threadBuffer_def)
    ultimately show ?thesis unfolding r using b(1,3) True by (simp add: Record held_def)
  qed
next
  case (ThreadExit t)
  show ?thesis
  proof (cases "map_of (pr_live r) t")
    case (Some ss)
    then show ?thesis using assms live_exit [OF assms Some]
      by (auto simp: ThreadExit thread_exit_def held_def selectionProfileEnabled_def distinct_map inj_on_def add.assoc)
  qed (simp add: ThreadExit thread_exit_def assms)
next
  case Reset
  define l where "l = map (\<lambda>(u, _). (u, [] :: u64 list)) (pr_live r)"
  have "map fst l = map fst (pr_live r)" unfolding l_def by (rule record_keys)
  moreover have "concat (map snd l) = []" by (auto simp: l_def)
  moreover have "profile_step env r e = r\<lparr>pr_aggregate := [], pr_live := l\<rparr>" by (simp add: Reset resetSelectionProfile_def l_def)
  ultimately show ?thesis using assms by (simp add: Reset held_def selectionProfileEnabled_def)
next
  case (Enable b)
  then show ?thesis using assms by (simp add: setSelectionProfileEnabled_def held_def selectionProfileEnabled_def)
qed

lemma steps_held:
  assumes "distinct (map fst (pr_live r))" "held r = mset acc"
  shows "held (foldl (profile_step env) r es) = mset (sampled (selectionProfileEnabled env r) es acc)"
  using assms
proof (induction es arbitrary: r acc)
  case (Cons e es)
  have s: "distinct (map fst (pr_live (profile_step env r e)))" using step_held [OF Cons.prems(1)] by blast
  show ?case using Cons.IH [OF s] step_held [OF Cons.prems(1), of env e] Cons.prems(2) by (cases e) auto
qed simp

text \<open>
  Remark. The samples that are taken are those that were recorded: whatever threads record and end in
  whatever order, the result is sorted and holds exactly the samples recorded while sampling was on since the last reset, with
  their multiplicities.
\<close>

theorem samples_complete:
  "sorted (takeSelectionSamples (foldl (profile_step env) new_profile es))
   \<and> mset (takeSelectionSamples (foldl (profile_step env) new_profile es)) = mset (sampled (envEnabled env) es [])"
proof -
  have "selectionProfileEnabled env new_profile = envEnabled env" by (simp add: selectionProfileEnabled_def new_profile_def)
  moreover have "distinct (map fst (pr_live new_profile))" "held new_profile = mset []" by (simp_all add: new_profile_def held_def)
  ultimately show ?thesis using steps_held [of new_profile "[]" env es] by (simp add: takeSelectionSamples_def held_def)
qed

text \<open>
  Remark. A percentile is the smallest sample that enough samples do not exceed: for a quantile between zero and one, at least that share of the
  samples is at most the percentile, and less than that share is smaller.
\<close>

theorem percentile_nearest_rank:
  assumes "sorted xs" "xs \<noteq> []" "0 < p" "p \<le> 1"
  shows "p * real (length xs) \<le> real (length (filter (\<lambda>x. real (unat x) \<le> percentile xs p) xs))
    \<and> real (length (filter (\<lambda>x. real (unat x) < percentile xs p) xs)) < p * real (length xs)"
proof -
  let ?n = "length xs"
  define k where "k = percentile_rank p ?n"
  have pos: "0 < p * real ?n" using assms by simp
  have le: "p * real ?n \<le> real ?n" using mult_right_mono [OF assms(4), of "real ?n"] by simp
  have c: "0 < \<lceil>p * real ?n\<rceil>" using pos by simp
  have cn: "\<lceil>p * real ?n\<rceil> \<le> int ?n" using le by (simp add: ceiling_le_iff)
  have "nat \<lceil>p * real ?n\<rceil> \<le> ?n" using cn by linarith
  then have k: "k = nat \<lceil>p * real ?n\<rceil>" using c cn by (simp add: k_def percentile_rank_def Let_def zless_nat_eq_int_zless)
  have k1: "1 \<le> k" "k \<le> ?n" unfolding k using c cn by linarith+
  have up: "p * real ?n \<le> real k" using c by (simp add: k of_nat_nat)
  have lo: "real (k - 1) < p * real ?n"
  proof -
    have "real_of_int \<lceil>p * real ?n\<rceil> < p * real ?n + 1" using ceiling_correct [of "p * real ?n"] by linarith
    then show ?thesis using c k1 by (simp add: k of_nat_diff)
  qed
  have pv: "percentile xs p = real (unat (xs ! (k - 1)))" by (simp add: percentile_def k_def)
  have "set (take k xs) \<subseteq> {x. x \<le> xs ! (k - 1)}"
    using assms(1) k1 by (auto simp: in_set_conv_nth sorted_nth_mono)
  then have "filter (\<lambda>x. x \<le> xs ! (k - 1)) (take k xs) = take k xs" by (auto simp: filter_id_conv)
  moreover have "filter P xs = filter P (take j xs) @ filter P (drop j xs)" for P and j
    using filter_append [of P "take j xs" "drop j xs"] by simp
  note cut = this
  ultimately have "k \<le> length (filter (\<lambda>x. x \<le> xs ! (k - 1)) xs)"
    using cut [of "\<lambda>x. x \<le> xs ! (k - 1)" k] k1 by simp
  moreover have "filter (\<lambda>x. x < xs ! (k - 1)) (drop (k - 1) xs) = []"
    using assms(1) k1 by (auto simp: filter_empty_conv in_set_conv_nth not_less sorted_nth_mono)
  then have "length (filter (\<lambda>x. x < xs ! (k - 1)) xs) \<le> length (filter (\<lambda>x. x < xs ! (k - 1)) (take (k - 1) xs))"
    using cut [of "\<lambda>x. x < xs ! (k - 1)" "k - 1"] by simp
  then have "length (filter (\<lambda>x. x < xs ! (k - 1)) xs) \<le> k - 1"
    by (rule order_trans [OF _ order_trans [OF length_filter_le]]) simp
  moreover have "real (unat x) \<le> percentile xs p \<longleftrightarrow> x \<le> xs ! (k - 1)" "real (unat x) < percentile xs p \<longleftrightarrow> x < xs ! (k - 1)" for x
    unfolding pv of_nat_le_iff of_nat_less_iff by (simp_all only: word_le_nat_alt word_less_nat_alt)
  ultimately show ?thesis using up lo by simp
qed

theorem percentile_nearest_rank_witness:
  "real (length (filter (\<lambda>x. real (unat x) < percentile [3, 5, 9, 9] (1/2)) [3, 5, 9, 9 :: u64])) < 1/2 * real (length [3, 5, 9, 9 :: u64])"
  by (rule conjunct2 [OF percentile_nearest_rank]) simp_all

end
