(* ===== verification/Zc_Adaptor.thy ===== *)
theory Zc_Adaptor
  imports Prelude
begin

text \<open>
  The helpers of \<open>general/shm_zc_adaptor.hpp\<close>: the allocator that hands out pieces of a region of the ring one
  after the other, and the reader that looks at a received body in place. A pointer into the region is its
  offset; \<open>size_t\<close> is a 64-bit word. The verifier and the root of FlatBuffers are arguments.
\<close>

subsection \<open>The allocator\<close>

record ring_alloc =
  ra_capacity :: u64
  ra_offset :: u64

definition RingBufAllocator :: "u64 \<Rightarrow> ring_alloc" where
  "RingBufAllocator n = \<lparr>ra_capacity = n, ra_offset = 0\<rparr>"

definition allocate :: "ring_alloc \<Rightarrow> u64 \<Rightarrow> ring_alloc \<times> u64 option" where
  "allocate a n =
     (if ra_offset a + n > ra_capacity a then (a, None)
      else (a\<lparr>ra_offset := ra_offset a + n\<rparr>, Some (ra_offset a)))"

definition deallocate :: "ring_alloc \<Rightarrow> u64 \<Rightarrow> u64 \<Rightarrow> ring_alloc" where
  "deallocate a p n = a"

definition used :: "ring_alloc \<Rightarrow> u64" where
  "used a = ra_offset a"

subsection \<open>The reader\<close>

text \<open>\<open>as\<close>: the table at the root of the data, when there is one and it passes the verifier; and \<open>strval\<close>.\<close>

definition as_table :: "('b \<Rightarrow> 't option) \<Rightarrow> ('b \<Rightarrow> 't \<Rightarrow> bool) \<Rightarrow> ('b \<Rightarrow> nat) \<Rightarrow> 'b option \<Rightarrow> 't option" where
  "as_table get_root verify size_of data =
     (case data of
        None \<Rightarrow> None
      | Some d \<Rightarrow>
          if size_of d = 0 then None
          else (case get_root d of None \<Rightarrow> None | Some root \<Rightarrow> if verify d root then Some root else None))"

definition strval :: "string option \<Rightarrow> string" where
  "strval s = (case s of None \<Rightarrow> [] | Some t \<Rightarrow> t)"

subsection \<open>Pieces do not overlap\<close>

text \<open>Every request with the piece it got.\<close>

fun pieces :: "ring_alloc \<Rightarrow> u64 list \<Rightarrow> (nat \<times> nat) list" where
  "pieces a [] = []"
| "pieces a (n # ns) =
     (case allocate a n of
        (a', None) \<Rightarrow> pieces a' ns
      | (a', Some p) \<Rightarrow> (unat p, unat p + unat n) # pieces a' ns)"

fun consecutive :: "nat \<Rightarrow> (nat \<times> nat) list \<Rightarrow> bool" where
  "consecutive b [] = True"
| "consecutive b ((x, y) # ps) \<longleftrightarrow> x = b \<and> x \<le> y \<and> consecutive y ps"

lemma no_wrap:
  fixes a b :: u64
  assumes "unat a < 2 ^ 63" "unat b < 2 ^ 63"
  shows "unat (a + b) = unat a + unat b"
  using assms by (intro unat_add_lem [THEN iffD1]) simp

lemma pieces_in_region:
  assumes "unat (ra_offset a) \<le> unat (ra_capacity a)" "unat (ra_capacity a) < 2 ^ 63" "list_all (\<lambda>n. unat n < 2 ^ 63) ns"
  shows "consecutive (unat (ra_offset a)) (pieces a ns) \<and> (\<forall>(x, y) \<in> set (pieces a ns). y \<le> unat (ra_capacity a))"
  using assms
proof (induction ns arbitrary: a)
  case (Cons n ns)
  have s: "unat (ra_offset a + n) = unat (ra_offset a) + unat n" using Cons.prems by (intro no_wrap) simp_all
  show ?case
  proof (cases "ra_offset a + n > ra_capacity a")
    case True
    then show ?thesis using Cons by (simp add: allocate_def)
  next
    case False
    then have "unat (ra_offset a) + unat n \<le> unat (ra_capacity a)" using s by (simp add: word_less_nat_alt)
    then show ?thesis using False Cons.prems Cons.IH [of "a\<lparr>ra_offset := ra_offset a + n\<rparr>"] s by (simp add: allocate_def)
  qed
qed simp

text \<open>
  Remark. The pieces handed out lie in the region, one after the other, for sizes and a region below
  \<open>2 ^ 63\<close> bytes.
\<close>

theorem allocator_pieces:
  assumes "unat n < 2 ^ 63" "list_all (\<lambda>n. unat n < 2 ^ 63) ns"
  shows "consecutive 0 (pieces (RingBufAllocator n) ns) \<and> (\<forall>(x, y) \<in> set (pieces (RingBufAllocator n) ns). y \<le> unat n)"
  using pieces_in_region [of "RingBufAllocator n" ns] assms by (simp add: RingBufAllocator_def)

theorem allocator_pieces_witness:
  "pieces (RingBufAllocator 16) [4, 20, 8] = [(0, 4), (4, 12)] \<and> consecutive 0 (pieces (RingBufAllocator 16) [4, 20, 8])"
  using allocator_pieces [of 16 "[4, 20, 8]"] by (simp add: RingBufAllocator_def allocate_def)

text \<open>
  Remark. The sum in the test wraps: a request for nearly \<open>2 ^ 64\<close> bytes is granted and moves the
  offset back over a piece that is in use.
\<close>

theorem allocator_wraps:
  "allocate \<lparr>ra_capacity = 16, ra_offset = 8\<rparr> (- 8) = (\<lparr>ra_capacity = 16, ra_offset = 0\<rparr>, Some 8)"
  by (simp add: allocate_def)

end
