(* ===== verification/Shm_Notify.thy ===== *)
theory Shm_Notify
  imports Shm_Server
begin

text \<open>
  The older exchange of notification descriptors over a socket of their own,
  \<open>setup_notify_server\<close> and \<open>setup_notify_client\<close> of \<open>general/shm_channel.cc\<close>. The file system is the set
  of the names of socket files; \<open>bind\<close> fails when its file is there, and for reasons that are
  arguments, as the results of the other system calls are. The pair holds the request and the response
  descriptor of the channel. \<^const>\<open>None\<close> is the null pointer of \<^const>\<open>recv_fd\<close>.
\<close>

text \<open>\<open>strncpy\<close> into \<open>sun_path\<close>, which has 108 bytes.\<close>

definition sun_path :: "string \<Rightarrow> string" where
  "sun_path p = take 107 p"

definition setup_notify_server ::
  "bool \<Rightarrow> bool \<Rightarrow> bool \<Rightarrow> bool \<Rightarrow> int \<Rightarrow> string \<Rightarrow> string set \<Rightarrow> int \<times> int \<Rightarrow> sock_item list
   \<Rightarrow> (string set \<times> sock_item list \<times> (int \<times> int) \<times> bool) option" where
  "setup_notify_server socket_ok bind_ok listen_ok accept_ok efd path files fds incoming =
     (if \<not> socket_ok then Some (files, [], fds, False)
      else let files1 = files - {path} in
        if \<not> bind_ok \<or> sun_path path \<in> files1 then Some (files1, [], fds, False)
        else let files2 = insert (sun_path path) files1 in
          if \<not> listen_ok \<or> \<not> accept_ok then Some (files2 - {path}, [], fds, False)
          else if efd < 0 then Some (files2, [], (efd, snd fds), False)
          else (case recv_fd incoming of
                  None \<Rightarrow> None
                | Some (fd, _) \<Rightarrow> Some (files2, send_fd [] efd, (efd, fd), True)))"

definition setup_notify_client ::
  "bool \<Rightarrow> bool \<Rightarrow> int \<Rightarrow> int \<times> int \<Rightarrow> sock_item list \<Rightarrow> (sock_item list \<times> (int \<times> int) \<times> bool) option" where
  "setup_notify_client socket_ok connect_ok efd fds incoming =
     (if \<not> socket_ok \<or> \<not> connect_ok then Some ([], fds, False)
      else case recv_fd incoming of
        None \<Rightarrow> None
      | Some (fd, _) \<Rightarrow> if efd < 0 then Some ([], (fd, efd), False) else Some (send_fd [] efd, (fd, efd), True))"

text \<open>
  Remark. When the system calls succeed, both sides end with the same pair of descriptors, and a socket
  file left by an earlier run does no harm as long as the path fits into the address.
\<close>

theorem notify_fds_agree:
  assumes "0 \<le> req" "0 \<le> resp" "length path \<le> 107"
  shows "\<exists>out. setup_notify_server True True True True req path files fds [Ancillary resp] = Some (insert path files, out, (req, resp), True)
    \<and> setup_notify_client True True resp fds' out = Some ([Ancillary resp], (req, resp), True)"
  using assms by (auto simp: setup_notify_server_def setup_notify_client_def sun_path_def send_fd_def recv_fd_def Let_def)

theorem notify_fds_agree_witness:
  "\<exists>out. setup_notify_server True True True True 5 ''/tmp/n'' {''/tmp/n''} (-1, -1) [Ancillary 6] = Some ({''/tmp/n''}, out, (5, 6), True)
    \<and> setup_notify_client True True 6 (-1, -1) out = Some ([Ancillary 6], (5, 6), True)"
  using notify_fds_agree [of 5 6 "''/tmp/n''" "{''/tmp/n''}" "(-1, -1)" "(-1, -1)"] by simp

text \<open>
  Remark. The file of a longer path is made under the shortened name but removed under the full one, so
  after one exchange no later one gets past \<open>bind\<close>.
\<close>

theorem long_path_fails_next_time:
  assumes "107 < length path" "0 \<le> req"
    and "setup_notify_server True True True True req path files fds [Ancillary resp] = Some (files', out, fds1, True)"
  shows "setup_notify_server True b l a efd path files' fds2 inc = Some (files' - {path}, [], fds2, False)"
proof -
  have "sun_path path \<noteq> path" using assms(1) by (auto simp: sun_path_def dest: arg_cong [where f = length])
  moreover have "sun_path path \<in> files'"
    using assms(2,3) by (auto simp: setup_notify_server_def recv_fd_def Let_def split: if_splits)
  ultimately show ?thesis by (simp add: setup_notify_server_def Let_def)
qed

theorem long_path_fails_next_time_witness:
  "setup_notify_server True True True True 5 (replicate 200 CHR ''x'') {replicate 107 CHR ''x''} (-1, -1) []
    = Some ({replicate 107 CHR ''x''}, [], (-1, -1), False)"
proof -
  let ?p = "replicate 200 CHR ''x''" and ?q = "replicate 107 CHR ''x''"
  have n: "?q \<noteq> ?p" by (simp only: replicate_eq_replicate) simp
  have q: "sun_path ?p = ?q" by (simp add: sun_path_def)
  have "setup_notify_server True True True True 5 ?p {} (-1, -1) [Ancillary 6] = Some ({?q}, send_fd [] 5, (5, 6), True)"
    unfolding setup_notify_server_def q by (simp add: recv_fd_def)
  from long_path_fails_next_time [OF _ _ this, of True True True 5 "(-1, -1)" "[]"] n show ?thesis by simp
qed

end
