(* ===== verification/Spec2Isabelle.thy ===== *)
theory Spec2Isabelle
  imports Shm_Server Circuit_Breaker Topic_Client Rpc_Client_Correct Client_Pool Rpc_Server_Correct Leader_Election Etcd_Store_Correct
    Gateway_Diagnosis Process_Metrics Log_Manager Log_Sinks Ids Selection_Profile Zc_Adaptor Shm_Notify
begin

text \<open>
  A verification library for lyqtRpc, an RPC framework in C++ with service discovery,
  circuit breaking, publish and subscribe, and two transports (TCP and shared memory).

  \<^bold>\<open>The program and its parts.\<close> A call goes down through these layers and back. The
  caller (\<open>client/caller.hpp\<close>) asks the circuit breaker of the method and host
  (\<open>client/circuit_breaker.cpp\<close>, \<open>client/node_breaker.cpp\<close>), builds a request message
  (\<open>general/message.hpp\<close>) and hands it to the request manager
  (\<open>client/requestor.hpp\<close>), which remembers it under its id, arms a timer and sends it.
  The framing protocol (\<open>general/net.hpp\<close>) puts length, type and id before the body; the
  receiving loops cut the stream into messages again and give them to the dispatcher
  (\<open>general/dispacher.hpp\<close>). On the server the router (\<open>server/rpc_router.hpp\<close>)
  checks the rate limit (\<open>general/rate_limiter.hpp\<close>), runs the service and answers.
  Which host is called is the choice of the client's host cache
  (\<open>client/rpc_registry.hpp\<close>), filled by discovery and kept up to date by the
  notifications of the registry server (\<open>server/rpc_registry.hpp\<close>). Topics
  (\<open>server/rpc_topic.hpp\<close>) forward published messages to subscribed connections. On one
  machine frames can travel through a shared-memory ring (\<open>general/shm_channel.cc\<close>). All
  paths are below \<open>src/rpc/src\<close>. In front of a server an HTTP gateway (\<open>src/gateway\<close>) turns
  requests with JSON bodies into calls. All components report to the metrics
  (\<open>general/metrics.hpp\<close>), which a small server exports as text, and log through
  \<open>general/log_system\<close>.

  \<^bold>\<open>How the code is modelled.\<close> A class is a record, a method a function from the
  record (and what the environment supplies) to the new record and the result. A mutex that
  covers a whole method is the atomicity of the function; where a method releases its lock
  half-way, the parts are functions of their own and a schedule interleaves them. Objects
  shared through pointers live in a heap (a list) and a pointer is an index. An
  \<open>unordered_map\<close> is an association list without duplicate keys. An exception, a null
  result or an access out of bounds is \<^const>\<open>None\<close> or the left side of a sum. Indices of
  the shared ring are 64-bit words and length fields 32-bit words with wrap-around; other
  integers are mathematical, with their range as a hypothesis where it matters.

  \<^bold>\<open>The theories.\<close>

  \<^item> \<open>Prelude\<close>: bytes, little and big endian fields, bounds-checked memory, nested tables.

  \<^item> \<open>Shm_Ring\<close>, \<open>Shm_Ring_Correct\<close>, \<open>Shm_Spsc\<close>, \<open>Shm_Channel\<close>: \<open>shm_channel.hpp\<close>,
  \<open>shm_channel.cc\<close>. The ring refines a queue of frames. For any interleaving of one producer
  with a stale read index and one consumer, frames arrive in order and unchanged, a pinned view
  is never overwritten and a draining reader gets everything; a zero-copy write leaves the ring
  of a copying one; a write returns by its deadline, and a frame above half the capacity can
  starve. Creating, opening and destroying a segment, with stale-segment recovery.

  \<^item> \<open>Config\<close>: \<open>fields.hpp\<close>, \<open>publicconfig.hpp\<close>. Enumerations and host keys.

  \<^item> \<open>Node_Breaker\<close>, \<open>Circuit_Breaker\<close>: the sliding window refines a breaker over the list
  of the last outcomes; an open node refuses until its cool-down, across a restart too;
  the probe quota; an invariant of the manager over every store that keeps the laws of
  the locale \<open>circuit_store\<close>, which \<open>memory_circuit_store.cpp\<close> provides.

  \<^item> \<open>Method_Host\<close>, \<open>Discover\<close>: the host lists and strategies of \<open>rpc_registry.hpp\<close>. The
  hash ring kept incrementally is the ring built from scratch; candidates are a permutation of
  the hosts; round robin is fair; removing a host moves its own keys only; a host reported
  offline is not offered.

  \<^item> \<open>Registry\<close>, \<open>Registry_Correct\<close>: the registry server over the interface of its store
  (locale \<open>registry_store\<close>, provided by \<open>memory_registry_store.cpp\<close>). The tables stay
  consistent, a lost connection removes and announces its provider, a sweep removes exactly
  the silent ones. Together with \<open>Discover\<close>, below: the cache of a client follows the
  registry, and the one situation in which it does not.

  \<^item> \<open>Topic_Manager\<close>, \<open>Topic_Correct\<close>, \<open>Topic_Delivery\<close>: the topic manager refines a set of
  subscriptions, and each forwarding strategy sends to subscribers only, each as often
  as it says.

  \<^item> \<open>Json_Api\<close>, \<open>Json_Messages\<close>, \<open>Proto_Messages\<close>, \<open>Messages\<close>: the message classes with
  their checks, accessors and setters, \<open>MessageFactory\<close> and \<open>serializer.hpp\<close>. The host
  list survives both formats, a checked request is read by its accessors without an exception.

  \<^item> \<open>LV_Protocol\<close>, \<open>LV_Correct\<close>: \<open>LVProtocol\<close> over any buffer of the locale
  \<open>base_buffer\<close>, and the receiving loops. A frame is read back as the message it was made
  from; a stream is delivered message by message however it is cut; the loop returns on every
  input unless decoding throws or the buffer ends inside a malformed header; a body with an id
  of the wrong JSON type makes an exception leave it.

  \<^item> \<open>Rate_Limiter\<close>, \<open>Rpc_Router\<close>: the token bucket bounds the admitted load; a delivered
  message always has the class its handler casts to; an answer with success is typed.

  \<^item> \<open>Requestor\<close>, \<open>Requestor_Correct\<close>: a request is resolved once, by the first event that
  concerns it; interleaved handlers keep the first value but can end in an exception; a request
  with a callback never times out.

  \<^item> \<open>Caller\<close>: every call form. The outcome of a Protobuf call is reported to the breaker once,
  with the verdict of its last answer; a request that cannot be encoded is counted against the host
  too, and a half-open probe that the local queue refuses locks the host out.

  \<^item> \<open>Rpc_Client\<close>, \<open>Rpc_Client_Correct\<close>: \<open>client/rpc_client.hpp\<close>. Candidates are tried in
  turn with a bounded number of attempts, waits are bounded; a lost connection is not made
  again, and a host announced by name has two breakers. \<open>Client_Pool\<close>: the pool as runs of
  events (threads, lost connections, offline notifications); threads share one connection per
  host, and none is leaked before an offline notification.

  \<^item> \<open>Rpc_Server\<close>, \<open>Rpc_Server_Correct\<close>: \<open>server/rpc_server.hpp\<close>. One bucket bounds both
  protocols; a provider with an address of its own whose heartbeats arrive in time stays listed, of
  two with the same address one may not, and one whose connection to the registry was lost is not
  listed again by its timers.

  \<^item> \<open>Etcd_Rest\<close>, \<open>Etcd_Service\<close>, \<open>Etcd_Memory\<close>: the requests to etcd of
  \<open>server/etcd_registry_store.cpp\<close>, what is relied on of the service (locale \<open>etcd_service\<close>, in which any
  request can stay without an answer or be answered with an error), and a service in memory that satisfies it. The range a prefix is turned into contains exactly the keys with the prefix.

  \<^item> \<open>Etcd_Store\<close>, \<open>Etcd_Store_Correct\<close>: the registry store on etcd. It refines a table of
  providers while requests are answered; a late close of an old connection removes a provider that has
  registered again, and so does a registration during a sweep.

  \<^item> \<open>Leader_Election\<close>: \<open>server/etcd_leader_election.cpp\<close>. At most one registry leads with a
  live lease, for any order of ticks, crashes and lost answers, and the leadership passes on. A
  tick, with all its requests, is one step. An error for an answer to the request for a lease ends
  a registry that does not lead.

  \<^item> \<open>Shm_Transport\<close>, \<open>Shm_Transport_Correct\<close>: the clients and the message loops of the three
  shared-memory transports (\<open>client/shm_client*.hpp\<close>, \<open>server/shm_server*.hpp\<close>). The server
  gets exactly the messages whose sending succeeded; the transport that builds Protobuf bodies
  inside the ring behaves as the copying one; a JSON request survives a FlatBuffer; a failed
  send counts against the host only when the channel is closed.

  \<^item> \<open>Zc_Adaptor\<close>: \<open>general/shm_zc_adaptor.hpp\<close>. The pieces its allocator hands out do not overlap.

  \<^item> \<open>Shm_Notify\<close>: the older exchange of descriptors in \<open>shm_channel.cc\<close>; a path that is too long for
  a socket address works only once.

  \<^item> \<open>Shm_Server\<close>: the hand-over of segment and event descriptors, the accept loop and the
  turns of the workers. Both sides of the hand-over agree, clients are spread evenly, and a
  turn of a copying server without events still delivers what waits.

  \<^item> \<open>Topic_Client\<close>: \<open>client/rpc_topic.hpp\<close>. The server reads what the client asked for, and
  a publication runs the callback of every subscriber once.

  \<^item> \<open>Metrics\<close>, \<open>Process_Metrics\<close>: \<open>general/metrics.hpp\<close>, \<open>metrics_hooks.hpp\<close>,
  \<open>process_metrics.hpp\<close> and the answer of \<open>metrics_server.hpp\<close>. The gauges of the process are what the
  files of the kernel say, whatever the name of the program. The exported buckets of a histogram are the distribution of what was observed;
  label sets without quotes have separate series; the gauge of requests in flight is starts less ends.

  \<^item> \<open>Http_Server\<close>, \<open>Http_Gateway\<close>, \<open>Gateway_Diagnosis\<close>: the gateway
  (\<open>src/gateway/src\<close>, \<open>src/gateway/example/gateway_server.cc\<close>). A request that has arrived is read as it
  was written, and one whose body comes in a later piece is lost; routes follow their registrations; the diagnosis, which
  searches the exported text, lists what the breakers reported.

  \<^item> \<open>Log_Format\<close>, \<open>Log_Sinks\<close>: patterns, the lines made from them and the file sinks of
  \<open>general/log_system\<close>. The parser reads back every pattern written from items; a rolling sink keeps
  every line and splits at its limit.

  \<^item> \<open>Async_Log\<close>, \<open>Loggers\<close>, \<open>Log_Manager\<close>: the double buffer, the loggers over a back end of the
  locale \<open>log_backend\<close>, which both back ends provide, and the table of loggers. What is pushed is
  written once and in order, also by the last turn after a stop; a line longer than the buffer waits forever in
  the safe mode; loggers stay listed under their names.

  \<^item> \<open>Ids\<close>, \<open>Selection_Profile\<close>: \<open>general/detail.hpp\<close>, \<open>client/selection_profile.hpp\<close>. Ids are distinct
  until their counter wraps; no sample is lost when threads end, and percentiles are nearest ranks.

  \<^item> This theory: properties that span client, registry, network and server.

  \<^bold>\<open>Parameters.\<close> Code that is not part of the repository is an argument: the JSON
  library (record \<open>json_lib\<close> with the laws of the locale \<open>json_api\<close>, which a tree of values
  satisfies), the Protobuf encoders (\<open>pb_codec\<close>, assumed to read back what they wrote), the
  FlatBuffers accessors (\<open>fb_lib\<close>), etcd with the HTTP and base64 libraries (\<open>etcd_env\<close>), the user's services and message types, \<open>std::hash\<close>, the permutations drawn by shuffles, clock
  readings, fresh ids, and the outcomes of system calls. What sending returns to the caller is an
  argument as well.

  \<^bold>\<open>Loops and bounds.\<close> The receiving loops take a bound on the number of rounds; one
  more than the number of bytes in the buffer is enough, because every round that does not
  stop takes at least the twelve bytes of a header. The waiting loops of the shared-memory channel run over the
  list of observations of the other side and the clock; they end at the first one past
  the deadline. \<open>read_frame_loop\<close> is a partial function into an option, shown to return on
  every ring that satisfies the invariant. The token bucket computes over the reals; rounding of
  \<open>double\<close> is not modelled. Atomic orderings are modelled as arbitrarily stale reads of the
  other side's index.

  The numbers of the metrics are real numbers, printed with the rounding of the output stream; the time
  of a log line is printed by an argument that stands for \<open>strftime\<close>.

  \<^bold>\<open>Not modelled.\<close> Sockets, event loop and buffer of the network library; the listening socket
  and the thread of \<open>metrics_server.hpp\<close>; the creation of directories and the console sink of the
  logger; creating and joining threads. These are system calls or calls into libraries. Code that is commented out is left out. What reports to the metrics and the log in the
  other components is left out of their models, since it changes none of their state.
\<close>

section \<open>The client's view of the registry\<close>

lemma hosts_of_reply_set: "set (map hd_host (mh_host (hosts_of_reply hash hs))) = set (map hd_host hs)"
proof -
  have "set (map hd_host (mh_host (fold (\<lambda>hd mh. appendHost hash mh (hd_host hd) (hd_load hd)) hs mh)))
      = set (map hd_host (mh_host mh)) \<union> set (map hd_host hs)" for mh
    by (induction hs arbitrary: mh) (auto simp: append_hosts simp del: set_map)
  then show ?thesis by (simp add: hosts_of_reply_def new_method_host_def)
qed

lemma first_discovery_view:
  "view (fst (serviceDiscover hash dr [] m st force_remote key (ServiceReply SUCCESS hs) id)) m
     = set (map hd_host hs)"
  using hosts_of_reply_set [of hash hs]
  by (simp add: serviceDiscover_def select_cached_def case_prod_beta view_def Let_def selectHosts_state)

lemma first_discovery_inv:
  "cache_inv hash (fst (serviceDiscover hash dr [] m st force_remote key reply id))"
proof -
  have "cache_inv hash []" by (simp add: cache_inv_def)
  then show ?thesis
    by (auto simp: serviceDiscover_def Let_def intro!: cache_inv_select mh_inv_reply
        split: service_reply.splits) (simp add: cache_inv_def mh_inv_reply)
qed

lemma reg_states_ok:
  assumes "list_all (event_ok host_of d) es"
  shows "pm_inv (rstore (reg_run_states es)) \<and> pm_addr host_of (rstore (reg_run_states es))"
proof -
  have "pm_inv (rstore pwd') \<and> pm_addr host_of (rstore pwd')"
    if "pm_inv (rstore pwd) \<and> pm_addr host_of (rstore pwd)"
      "pwd' = foldl (\<lambda>pwd e. fst (reg_step mem_registry_ops pwd e)) pwd es" for pwd pwd'
    using that assms
  proof (induction es arbitrary: pwd)
    case (Cons e es)
    then show ?case using memreg.step_inv [where addr = host_of and pwd = pwd and d = d and e = e] by simp
  qed simp
  moreover have "pm_inv new_provider_manager \<and> pm_addr host_of new_provider_manager"
    by (simp add: pm_inv_def pm_addr_def new_provider_manager_def ids_of_def)
  ultimately show ?thesis by (simp add: reg_run_states_def new_pwd_manager_def)
qed

text \<open>
  Property C5. The client's cache follows the registry: a client that discovers a method, at
  any point of any run of the registry, and then applies the notifications the registry sends
  it, has in its cache after every further run exactly the hosts the registry lists for
  the method, provided each provider connection registers one address and no two
  connections share one.
\<close>

theorem client_view_tracks_registry:
  assumes "inj host_of" "list_all (event_ok host_of d) (es @ es')"
  shows "let pwd = reg_run_states es;
             (pwd', ms) = reg_step mem_registry_ops pwd (Request d (discover_req m) t);
             dc = fst (serviceDiscover hash dr [] m st False key
                    (ServiceReply SUCCESS (methodHostDetails (rstore pwd) m)) id);
             (pwd'', dc') = reg_run mem_registry_ops hash d (pwd', dc) es' in
         view dc' m = set (methodHost (rstore pwd'') m)
         \<and> ms = [(d, Response ''d'' SUCCESS DISCOVER (methodHostDetails (rstore pwd) m))]"
proof -
  define pwd where "pwd = reg_run_states es"
  define pwd' where "pwd' = fst (reg_step mem_registry_ops pwd (Request d (discover_req m) t))"
  define dc where "dc = fst (serviceDiscover hash dr [] m st False key
      (ServiceReply SUCCESS (methodHostDetails (rstore pwd) m)) id)"
  have ops: "rs_methodHostDetails mem_registry_ops = methodHostDetails" by (simp add: mem_registry_ops_def)
  have ok: "list_all (event_ok host_of d) es" "list_all (event_ok host_of d) es'" using assms(2) by simp_all
  have inv: "pm_inv (rstore pwd') \<and> pm_addr host_of (rstore pwd')"
    using reg_states_ok [OF ok(1)]
    by (simp add: pwd_def pwd'_def pwd_onserviceRequest_def discover_req_def)
  have "tracks mem_registry_ops pwd' d dc m"
    by (simp add: tracks_def dc_def first_discovery_view pwd'_def pwd_onserviceRequest_def discover_req_def
        watch_addDiscoverer ops del: set_map)
  then have "tracks mem_registry_ops (fst (reg_run mem_registry_ops hash d (pwd', dc) es')) d
      (snd (reg_run mem_registry_ops hash d (pwd', dc) es')) m"
    by (rule memreg.tracks_run [OF inv assms(1) ok(2)]) (simp add: dc_def first_discovery_inv)
  moreover have "set (map hd_host (methodHostDetails pm m)) = set (methodHost pm m)" for pm
    by (simp add: methodHostDetails_def methodHost_def image_image)
  ultimately show ?thesis
    by (simp add: Let_def case_prod_beta tracks_def ops pwd_def pwd'_def dc_def
        pwd_onserviceRequest_def discoverResponse_def discover_req_def del: set_map)
qed

definition demo_addr :: "conn \<Rightarrow> host_info" where
  "demo_addr c = (''h'', int c)"

theorem client_view_tracks_registry_witness:
  "let pwd = reg_run_states [Request 1 (register_req ''add'' (demo_addr 1)) 0];
       (pwd', ms) = reg_step mem_registry_ops pwd (Request 9 (discover_req ''add'') 1);
       dc = fst (serviceDiscover demo_hash \<lparr>dr_pos = 0, dr_perm = [0]\<rparr> [] ''add'' RANDOM False []
              (ServiceReply SUCCESS (methodHostDetails (rstore pwd) ''add'')) id);
       (pwd'', dc') = reg_run mem_registry_ops demo_hash 9 (pwd', dc)
          [Request 2 (register_req ''add'' (demo_addr 2)) 2, Close 1] in
   view dc' ''add'' = set (methodHost (rstore pwd'') ''add'')
   \<and> ms = [(9, Response ''d'' SUCCESS DISCOVER (methodHostDetails (rstore pwd) ''add''))]"
  by (rule client_view_tracks_registry [where host_of = demo_addr])
    (simp_all add: inj_def demo_addr_def register_req_def req_host_def)

text \<open>
  Remark. Without that proviso the client can lose a host that is up: a provider that
  reconnects and registers before the registry has seen its old connection close is listed by
  the registry afterwards, but the close of the old connection makes the registry announce
  the address as offline, and the client drops it; the cache is not refreshed by a discovery.
\<close>

theorem reconnect_loses_host:
  "let pwd = reg_run_states [Request 1 (register_req ''add'' (''h'', 80)) 0, Request 9 (discover_req ''add'') 1];
       dc = fst (serviceDiscover hash dr [] ''add'' st False key
              (ServiceReply SUCCESS (methodHostDetails (rstore pwd) ''add'')) id);
       (pwd', dc') = reg_run mem_registry_ops hash 9 (pwd, dc)
          [Request 2 (register_req ''add'' (''h'', 80)) 2, Close 1] in
   methodHost (rstore pwd') ''add'' = [(''h'', 80)] \<and> view dc' ''add'' = {}"
proof -
  let ?pwd = "reg_run_states [Request 1 (register_req ''add'' (''h'', 80)) 0, Request 9 (discover_req ''add'') 1]"
  define dc where "dc = fst (serviceDiscover hash dr [] ''add'' st False key
      (ServiceReply SUCCESS (methodHostDetails (rstore ?pwd) ''add'')) id)"
  have v: "view dc ''add'' = {(''h'', 80)}" and inv: "cache_inv hash dc"
    by (simp_all add: dc_def first_discovery_view first_discovery_inv del: set_map)
      (simp add: registry_eval methodHostDetails_def)
  let ?dc1 = "fst (onserviceRequest hash dc ONLINE ''add'' (''h'', 80))"
  have "view (fst (onserviceRequest hash ?dc1 OFFLINE ''add'' (''h'', 80))) ''add'' = {}"
    by (simp add: view_offline cache_inv_notify inv view_online v)
  then show ?thesis
    unfolding Let_def dc_def [symmetric]
    by (simp add: case_prod_beta registry_eval methodHost_def onconnShoutdown_def mem_disconnectProvider_def getProvider_def
        delProvider_def erase_id_def notify_all_def offlineNotify_def onlineNotify_def notify_def
        registryResponse_def delDiscoverer_def)
qed


section \<open>A call across client and server\<close>

lemma arrived_request:
  "rid \<noteq> [] \<Longrightarrow> arrived Q (proto_request rid trace spn m body) = Some \<lparr>m_type = REQ_RPC_PROTO, m_rid = rid,
     m_payload = ProtoRpcRequest (new_rpc_req\<lparr>rq_id := rid, rq_method := m, rq_body := body, rq_trace_id := trace,
       rq_span_id := spn\<rparr>)\<rparr>"
  by (simp add: arrived_def proto_request_def ProtoRpcRequest_stamp_def new_rpc_req_def)

lemma arrived_response:
  "rid \<noteq> [] \<Longrightarrow> arrived Q (sendProtoResponse rid rc body ms) = Some \<lparr>m_type = RSP_RPC_PROTO, m_rid = rid,
     m_payload = ProtoRpcResponse \<lparr>rs_rcode = resp_code_code rc, rs_body = body, rs_id = rid\<rparr> 0\<rparr>"
  by (simp add: arrived_def sendProtoResponse_def ProtoRpcResponse_stamp_def new_rpc_resp_def)


definition call_libs :: "json libs" where
  "call_libs = (demo_libs (\<lambda>_. None))\<lparr>lib_pb := (lib_pb (demo_libs (\<lambda>_. None)))
     \<lparr>pb_rpc_req := const_codec (new_rpc_req\<lparr>rq_id := ''r'', rq_method := ''inc'', rq_body := ''7''\<rparr>),
      pb_rpc_resp := const_codec \<lparr>rs_rcode = 0, rs_body = ''8'', rs_id = ''r''\<rparr>\<rparr>\<rparr>"

lemma call_libs_sendable:
  "sendable call_libs (proto_request ''r'' [] [] ''inc'' ''7'')" "sendable call_libs (sendProtoResponse ''r'' SUCCESS ''8'' 0)"
proof -
  have "json_api (lib_json call_libs)" by (simp add: call_libs_def demo_libs_def jt.json_api_axioms)
  then show "sendable call_libs (proto_request ''r'' [] [] ''inc'' ''7'')"
    "sendable call_libs (sendProtoResponse ''r'' SUCCESS ''8'' 0)"
    by (simp_all add: sendable_def libs_read_back_def pb_reads_back_def well_typed_def encode_def call_libs_def demo_libs_def
        const_codec_def proto_request_def sendProtoResponse_def ProtoRpcRequest_serialize_def ProtoRpcRequest_stamp_def
        ProtoRpcResponse_serialize_def ProtoRpcResponse_stamp_def pb_serialize_def new_rpc_req_def new_rpc_resp_def
        maxdatalen_def Let_def)
qed

definition inc_router :: proto_router where
  "inc_router = \<lparr>pr_handlers = [(''inc'', registerProtoHandler Some (\<lambda>q. if q = ''7'' then Some ''8'' else None) Some)],
     pr_rate_limiter = None\<rparr>"


text \<open>
  Remark. The retry hint of a server under load does not reach a Protobuf client: the refusal
  carries the time until the next token as a field that is not part of the envelope, the message
  that arrives has the hint zero, and the caller waits its default of ten milliseconds, whatever
  the rate of the server.
\<close>

theorem backoff_hint_lost:
  fixes Q :: "'j libs"
  assumes "limit (pr_rate_limiter r) now = (Some bucket, False)" "0 < tb_rate bucket"
    and "sendable Q (snd (onProtoRequest r now rid e))" "ser q = Some body" "br_allowRequest B b m host = (b1, True)"
  shows "\<exists>env buf a. m_payload (snd (onProtoRequest r now rid e) :: 'j base_message) = ProtoRpcResponse env (retryAfterMs bucket)
     \<and> client_onMessage 2 sb_ops Q c (StringBuffer (frame Q (snd (onProtoRequest r now rid e)))) = Some (buf, [CbMessage c a])
     \<and> pc_waited (call_proto ser parse reason B b m host ids q (Received a) send2) = Some 10"
proof -
  have pos: "0 < retryAfterMs bucket" using assms(2) by (simp add: retryAfterMs_def add_strict_increasing2)
  have resp: "snd (onProtoRequest r now rid e) = (sendProtoResponse rid resp_code.BACKOFF [] (retryAfterMs bucket) :: 'j base_message)"
    by (simp add: onProtoRequest_def assms(1))
  have rid: "rid \<noteq> []" using assms(3) by (simp add: resp sendable_def sendProtoResponse_def)
  obtain buf where buf: "client_onMessage 2 sb_ops Q c (StringBuffer (frame Q (snd (onProtoRequest r now rid e))))
      = Some (buf, [CbMessage c (the (arrived Q (snd (onProtoRequest r now rid e))))])"
    using sb_client_delivers [OF assms(3)] by blast
  obtain a where a: "arrived Q (snd (onProtoRequest r now rid e)) = Some a"
      "as_proto_response (m_payload a) = Some (\<lparr>rs_rcode = 11, rs_body = [], rs_id = rid\<rparr>, 0)"
    unfolding resp by (simp add: arrived_response [OF rid])
  have "pc_waited (call_proto ser parse reason B b m host ids q (Received a) send2) = Some 10"
    using call_proto_waits [where B = B and b = b and m = m and host = host and ?b1.0 = b1 and ser = ser and q = q
        and body = body and a = a, OF assms(5,4) a(2)] by simp
  moreover obtain env where "m_payload (snd (onProtoRequest r now rid e) :: 'j base_message) = ProtoRpcResponse env (retryAfterMs bucket)"
    unfolding resp using pos by (simp add: sendProtoResponse_def)
  ultimately show ?thesis using buf a(1) by auto
qed

definition busy_router :: proto_router where
  "busy_router = \<lparr>pr_handlers = [], pr_rate_limiter = Some \<lparr>tb_rate = 2, tb_burst = 1, tb_tokens = 0, tb_last_refill = 0\<rparr>\<rparr>"

theorem backoff_hint_lost_witness:
  "\<exists>a :: json base_message. pc_waited (call_proto Some (Some :: string \<Rightarrow> string option) (\<lambda>_. []) no_breaker () ''inc'' ''a:1''
     (''r'', [], [], ''s'') ''7'' (Received a) (SendFailed rpc_error.TIMEOUT)) = Some 10"
proof -
  let ?Q = "call_libs\<lparr>lib_pb := (lib_pb call_libs)\<lparr>pb_rpc_resp := const_codec \<lparr>rs_rcode = 11, rs_body = [], rs_id = ''r''\<rparr>\<rparr>\<rparr>"
  have lim: "limit (pr_rate_limiter busy_router) 0 = (Some \<lparr>tb_rate = 2, tb_burst = 1, tb_tokens = 0, tb_last_refill = 0\<rparr>, False)"
    by (simp add: busy_router_def limit_def allow_def refill_def Let_def)
  have "json_api (lib_json ?Q)" by (simp add: call_libs_def demo_libs_def jt.json_api_axioms)
  then have "sendable ?Q (snd (onProtoRequest busy_router 0 ''r'' new_rpc_req))"
    by (simp add: onProtoRequest_def lim sendable_def libs_read_back_def pb_reads_back_def well_typed_def encode_def
        const_codec_def sendProtoResponse_def ProtoRpcResponse_serialize_def ProtoRpcResponse_stamp_def pb_serialize_def
        new_rpc_resp_def maxdatalen_def Let_def)
  from backoff_hint_lost [OF lim _ this, of Some "''7''" "''7''" no_breaker "()" "''inc''" "''a:1''" "()" 5 Some "\<lambda>_. []"
      "(''r'', [], [], ''s'')" "SendFailed rpc_error.TIMEOUT"]
  show ?thesis by (auto simp: no_breaker_def)
qed

end
